(* ===== verification/JC_Prelude.thy ===== *)
theory JC_Prelude
  imports Main "HOL-Library.Word" "HOL-Library.Char_ord" "HOL-Library.List_Lexorder"
begin

text \<open>
  Shared vocabulary of the jerrycan development.

  Rust's \<open>str\<close>, \<open>String\<close>, \<open>[u8]\<close> and \<open>Bytes\<close> are byte sequences here: an Isabelle
  \<open>char\<close> is one byte, so a \<open>string\<close> is the UTF-8 byte sequence of a Rust string.
  Splitting and stripping by an ASCII character is therefore exactly splitting and
  stripping by that byte. The standard-library operations that the sources call
  (\<open>split\<close>, \<open>split_once\<close>, \<open>strip_prefix\<close>, \<open>trim\<close>, \<open>from_utf8\<close>, decimal formatting,
  saturating arithmetic) are defined here once, with the lemmas the components share.
\<close>

named_theorems jc_defs \<open>unfolding rules of the model's non-recursive definitions\<close>
named_theorems str_simps \<open>simplification rules of the string operations\<close>

type_synonym str = string
type_synonym bytes = "char list"

text \<open>Rust's \<open>Result<T, E>\<close>: \<open>Inl\<close> is \<open>Err\<close>, \<open>Inr\<close> is \<open>Ok\<close>.\<close>

type_synonym ('e, 'a) result = "'e + 'a"

abbreviation Err :: "'e \<Rightarrow> ('e, 'a) result" where "Err \<equiv> Inl"
abbreviation Ok :: "'a \<Rightarrow> ('e, 'a) result" where "Ok \<equiv> Inr"

definition is_ok :: "('e, 'a) result \<Rightarrow> bool" where
  "is_ok r = (case r of Err _ \<Rightarrow> False | Ok _ \<Rightarrow> True)"

definition bind_result :: "('e, 'a) result \<Rightarrow> ('a \<Rightarrow> ('e, 'b) result) \<Rightarrow> ('e, 'b) result" where
  "bind_result r f = (case r of Err e \<Rightarrow> Err e | Ok v \<Rightarrow> f v)"

text \<open>\<open>Result::ok\<close>.\<close>

definition result_ok :: "('e, 'a) result \<Rightarrow> 'a option" where
  "result_ok r = (case r of Err _ \<Rightarrow> None | Ok v \<Rightarrow> Some v)"

section \<open>Splitting and stripping\<close>

text \<open>\<open>str::split(c)\<close>: always at least one piece, \<open>n\<close> separators give \<open>n + 1\<close> pieces.\<close>

fun split_on :: "char \<Rightarrow> str \<Rightarrow> str list" where
  "split_on c [] = [[]]"
| "split_on c (x # xs) =
     (if x = c then [] # split_on c xs
      else (case split_on c xs of [] \<Rightarrow> [[x]] | p # ps \<Rightarrow> (x # p) # ps))"

text \<open>\<open>str::split_once(c)\<close>.\<close>

fun split_once :: "char \<Rightarrow> str \<Rightarrow> (str \<times> str) option" where
  "split_once c [] = None"
| "split_once c (x # xs) =
     (if x = c then Some ([], xs)
      else map_option (\<lambda>(a, b). (x # a, b)) (split_once c xs))"

definition strip_prefix :: "char \<Rightarrow> str \<Rightarrow> str option" where
  "strip_prefix c s = (case s of [] \<Rightarrow> None | x # xs \<Rightarrow> if x = c then Some xs else None)"

definition strip_suffix :: "char \<Rightarrow> str \<Rightarrow> str option" where
  "strip_suffix c s = (if s \<noteq> [] \<and> last s = c then Some (butlast s) else None)"

definition trim_start_matches :: "char \<Rightarrow> str \<Rightarrow> str" where
  "trim_start_matches c s = dropWhile (\<lambda>x. x = c) s"

definition trim_end_matches :: "char \<Rightarrow> str \<Rightarrow> str" where
  "trim_end_matches c s = rev (dropWhile (\<lambda>x. x = c) (rev s))"

fun join_with :: "str \<Rightarrow> str list \<Rightarrow> str" where
  "join_with sep [] = []"
| "join_with sep [x] = x"
| "join_with sep (x # y # ys) = x @ sep @ join_with sep (y # ys)"

section \<open>ASCII case folding and white space\<close>

text \<open>\<open>to_ascii_lowercase\<close> and \<open>eq_ignore_ascii_case\<close> change the bytes A to Z only.\<close>

definition byte_lower :: "char \<Rightarrow> char" where
  "byte_lower c = (if 65 \<le> (of_char c :: nat) \<and> (of_char c :: nat) \<le> 90
                   then char_of ((of_char c :: nat) + 32) else c)"

definition to_ascii_lowercase :: "str \<Rightarrow> str" where
  "to_ascii_lowercase s = map byte_lower s"

definition eq_ignore_ascii_case :: "str \<Rightarrow> str \<Rightarrow> bool" where
  "eq_ignore_ascii_case a b = (to_ascii_lowercase a = to_ascii_lowercase b)"

text \<open>
  \<open>str::trim\<close> removes the characters with the Unicode property \<open>White_Space\<close>. Their UTF-8
  encodings are one byte (9 to 13 and 32), two bytes (U+0085, U+00A0) or three bytes
  (U+1680, U+2000 to U+200A, U+2028, U+2029, U+202F, U+205F, U+3000).
\<close>

definition white_space_encodings :: "str list" where
  "white_space_encodings =
     map (map (\<lambda>n::nat. char_of n))
       ([[9], [10], [11], [12], [13], [32], [194, 133], [194, 160], [225, 154, 128]]
        @ map (\<lambda>n. [226, 128, n]) [128, 129, 130, 131, 132, 133, 134, 135, 136, 137, 138]
        @ [[226, 128, 168], [226, 128, 169], [226, 128, 175], [226, 129, 159], [227, 128, 128]])"

definition strip_one :: "str list \<Rightarrow> str \<Rightarrow> str option" where
  "strip_one encs s =
     (case filter (\<lambda>w. w \<noteq> [] \<and> take (length w) s = w) encs of
        [] \<Rightarrow> None | w # _ \<Rightarrow> Some (drop (length w) s))"

lemma strip_one_shrinks:
  assumes "strip_one encs s = Some t"
  shows "length t < length s"
proof -
  obtain w ws where f: "filter (\<lambda>w. w \<noteq> [] \<and> take (length w) s = w) encs = w # ws"
    and t: "t = drop (length w) s"
    using assms by (auto simp: strip_one_def split: list.splits)
  from f have "w \<in> set (filter (\<lambda>w. w \<noteq> [] \<and> take (length w) s = w) encs)" by simp
  then have "w \<noteq> []" and "take (length w) s = w" by auto
  then have "0 < length w" and "0 < length s" by (auto simp: length_greater_0_conv)
  then show ?thesis using t by simp
qed

function trim_front :: "str list \<Rightarrow> str \<Rightarrow> str" where
  "trim_front encs s = (case strip_one encs s of None \<Rightarrow> s | Some t \<Rightarrow> trim_front encs t)"
  by pat_completeness auto
termination
  by (relation "measure (\<lambda>(encs, s). length s)") (auto dest: strip_one_shrinks)

definition trim :: "str \<Rightarrow> str" where
  "trim s = rev (trim_front (map rev white_space_encodings)
                  (rev (trim_front white_space_encodings s)))"

text \<open>\<open>str::split_whitespace\<close>: the maximal runs of other characters; \<open>cur\<close> is the run being read.\<close>

function split_ws :: "str \<Rightarrow> str \<Rightarrow> str list" where
  "split_ws cur [] = (if cur = [] then [] else [cur])"
| "split_ws cur (c # cs) =
     (case strip_one white_space_encodings (c # cs) of
        Some t \<Rightarrow> (if cur = [] then split_ws [] t else cur # split_ws [] t)
      | None \<Rightarrow> split_ws (cur @ [c]) cs)"
  by pat_completeness auto
termination
  by (relation "measure (\<lambda>(cur, s). length s)") (auto dest: strip_one_shrinks)

definition split_whitespace :: "str \<Rightarrow> str list" where
  "split_whitespace s = split_ws [] s"

section \<open>UTF-8 validity\<close>

text \<open>
  \<open>String::from_utf8\<close> accepts exactly the well-formed sequences of the Unicode standard
  (table 3-7): no overlong forms, no surrogates, nothing above U+10FFFF.
\<close>

definition byte_in :: "nat \<Rightarrow> nat \<Rightarrow> char \<Rightarrow> bool" where
  "byte_in lo hi c = (lo \<le> (of_char c :: nat) \<and> (of_char c :: nat) \<le> hi)"

fun utf8_valid :: "bytes \<Rightarrow> bool" where
  "utf8_valid [] = True"
| "utf8_valid (a # r) =
     (if byte_in 0 127 a then utf8_valid r
      else if byte_in 194 223 a then
        (case r of b # r' \<Rightarrow> byte_in 128 191 b \<and> utf8_valid r' | [] \<Rightarrow> False)
      else if byte_in 224 239 a then
        (case r of b # c # r' \<Rightarrow>
             byte_in (if of_char a = (224::nat) then 160 else 128)
                     (if of_char a = (237::nat) then 159 else 191) b
             \<and> byte_in 128 191 c \<and> utf8_valid r'
         | _ \<Rightarrow> False)
      else if byte_in 240 244 a then
        (case r of b # c # d # r' \<Rightarrow>
             byte_in (if of_char a = (240::nat) then 144 else 128)
                     (if of_char a = (244::nat) then 143 else 191) b
             \<and> byte_in 128 191 c \<and> byte_in 128 191 d \<and> utf8_valid r'
         | _ \<Rightarrow> False)
      else False)"

definition from_utf8 :: "bytes \<Rightarrow> str option" where
  "from_utf8 b = (if utf8_valid b then Some b else None)"

section \<open>Decimal formatting\<close>

fun show_nat :: "nat \<Rightarrow> str" where
  "show_nat n = (if n < 10 then [char_of (48 + n)] else show_nat (n div 10) @ [char_of (48 + n mod 10)])"

declare show_nat.simps [simp del]
declare utf8_valid.simps(2) [simp del]
declare trim_front.simps [simp del]

section \<open>Lemmas\<close>

lemma is_ok_simps [simp]: "is_ok (Ok v)" "\<not> is_ok (Err e)"
  by (simp_all add: is_ok_def)

lemma result_ok_simps [simp]: "result_ok (Ok v) = Some v" "result_ok (Err e) = None"
  by (simp_all add: result_ok_def)

lemma is_ok_iff: "is_ok r \<longleftrightarrow> (\<exists>v. r = Ok v)"
  by (cases r) simp_all

lemma bind_result_simps [simp]:
  "bind_result (Ok v) f = f v" "bind_result (Err e) f = Err e"
  by (simp_all add: bind_result_def)

lemma bind_result_Ok: "bind_result r f = Ok w \<longleftrightarrow> (\<exists>v. r = Ok v \<and> f v = Ok w)"
  by (cases r) simp_all

lemma split_on_neq_Nil [simp]: "split_on c s \<noteq> []"
  by (induction s) (auto split: list.splits)

lemma split_on_Cons_neq [str_simps]:
  "x \<noteq> c \<Longrightarrow> split_on c (x # xs) = (x # hd (split_on c xs)) # tl (split_on c xs)"
  by (cases "split_on c xs") auto

lemma split_on_append_sep [str_simps]: "split_on c (a @ c # b) = split_on c a @ split_on c b"
proof (induction a)
  case (Cons x a)
  then show ?case
    by (cases "x = c"; cases "split_on c a") auto
qed simp

lemma split_on_no_sep [str_simps]: "c \<notin> set s \<Longrightarrow> split_on c s = [s]"
  by (induction s) auto

lemma split_on_pieces: "p \<in> set (split_on c s) \<Longrightarrow> c \<notin> set p"
proof (induction s arbitrary: p)
  case (Cons x s)
  show ?case
  proof (cases "x = c")
    case True
    with Cons show ?thesis by auto
  next
    case False
    obtain q qs where "split_on c s = q # qs" by (cases "split_on c s") auto
    with Cons False show ?thesis by auto
  qed
qed simp

lemma split_once_Some: "split_once c s = Some (a, b) \<Longrightarrow> s = a @ c # b \<and> c \<notin> set a"
  by (induction s arbitrary: a) (auto split: if_splits)

lemma strip_prefix_Some [str_simps]: "strip_prefix c s = Some t \<longleftrightarrow> s = c # t"
  by (auto simp: strip_prefix_def split: list.splits)

lemma strip_suffix_Some [str_simps]: "strip_suffix c s = Some t \<longleftrightarrow> s = t @ [c]"
proof
  assume "strip_suffix c s = Some t"
  then have "s \<noteq> []" "last s = c" "t = butlast s"
    by (auto simp: strip_suffix_def split: if_splits)
  then show "s = t @ [c]" using append_butlast_last_id [of s] by simp
qed (simp add: strip_suffix_def)

lemma trim_start_matches_hd: "trim_start_matches c s = [] \<or> hd (trim_start_matches c s) \<noteq> c"
  unfolding trim_start_matches_def by (induction s) auto

lemma trim_end_matches_last: "trim_end_matches c s = [] \<or> last (trim_end_matches c s) \<noteq> c"
  using trim_start_matches_hd [of c "rev s"]
  by (auto simp: trim_end_matches_def trim_start_matches_def last_rev)

lemma trim_start_matches_split:
  "\<exists>n. s = replicate n c @ trim_start_matches c s"
proof -
  have "takeWhile (\<lambda>x. x = c) s = replicate (length (takeWhile (\<lambda>x. x = c) s)) c"
    by (induction s) auto
  then have "s = replicate (length (takeWhile (\<lambda>x. x = c) s)) c @ trim_start_matches c s"
    unfolding trim_start_matches_def by (metis takeWhile_dropWhile_id)
  then show ?thesis by blast
qed

lemma trim_end_matches_split:
  "\<exists>n. s = trim_end_matches c s @ replicate n c"
proof -
  obtain n where "rev s = replicate n c @ trim_start_matches c (rev s)"
    using trim_start_matches_split by blast
  then have "s = rev (replicate n c @ trim_start_matches c (rev s))"
    by (metis rev_rev_ident)
  then show ?thesis
    by (auto simp: trim_end_matches_def trim_start_matches_def)
qed

lemma sorted_wrt_symp:
  "symp R \<Longrightarrow> (\<And>x. R x x) \<Longrightarrow> sorted_wrt R xs \<longleftrightarrow> (\<forall>x \<in> set xs. \<forall>y \<in> set xs. R x y)"
  by (induction xs) (auto dest: sympD)

lemma sorted_wrt_symp_distinct:
  "symp R \<Longrightarrow> distinct xs \<Longrightarrow>
     sorted_wrt R xs \<longleftrightarrow> (\<forall>x \<in> set xs. \<forall>y \<in> set xs. x \<noteq> y \<longrightarrow> R x y)"
  by (induction xs) (auto dest: sympD)

lemma of_char_less_256: "(of_char c :: nat) < 256"
  by (metis of_char_mod_256 mod_less_divisor zero_less_numeral)

text \<open>No encoding of a white-space character starts or ends with a visible ASCII byte.\<close>

lemma white_space_bytes:
  "w \<in> set white_space_encodings \<Longrightarrow> w \<noteq> [] \<and> \<not> byte_in 33 126 (hd w) \<and> \<not> byte_in 33 126 (last w)"
  by (auto simp: white_space_encodings_def byte_in_def)

lemma trim_front_visible:
  assumes "s \<noteq> []" and "byte_in 33 126 (hd s)" and "\<And>w. w \<in> set encs \<Longrightarrow> w \<noteq> [] \<Longrightarrow> \<not> byte_in 33 126 (hd w)"
  shows "trim_front encs s = s"
proof -
  have "take (length w) s \<noteq> w" if "w \<in> set encs" "w \<noteq> []" for w
  proof
    assume t: "take (length w) s = w"
    have "hd (take (length w) s) = hd s" using that(2) assms(1) by (cases s; cases w) auto
    with t assms(2) assms(3)[OF that] show False by simp
  qed
  then have "filter (\<lambda>w. w \<noteq> [] \<and> take (length w) s = w) encs = []" by (auto simp: filter_empty_conv)
  then show ?thesis by (simp add: trim_front.simps [of encs s] strip_one_def)
qed

lemma trim_visible:
  assumes "s \<noteq> []" and "byte_in 33 126 (hd s)" and "byte_in 33 126 (last s)"
  shows "trim s = s"
proof -
  have "trim_front white_space_encodings s = s"
    using assms white_space_bytes by (intro trim_front_visible) auto
  moreover have "trim_front (map rev white_space_encodings) (rev s) = rev s"
    using assms white_space_bytes by (intro trim_front_visible) (auto simp: hd_rev)
  ultimately show ?thesis by (simp add: trim_def)
qed

lemma show_nat_ascii: "list_all (byte_in 48 57) (show_nat n)"
proof (induction n rule: show_nat.induct)
  case (1 n)
  then show ?case by (cases "n < 10") (simp_all add: show_nat.simps [of n] byte_in_def)
qed

lemma strip_one_visible:
  assumes "byte_in 33 126 c"
  shows "strip_one white_space_encodings (c # cs) = None"
proof -
  have "\<not> (w \<noteq> [] \<and> take (length w) (c # cs) = w)" if "w \<in> set white_space_encodings" for w
    using white_space_bytes [OF that] assms by (cases w) auto
  then have "filter (\<lambda>w. w \<noteq> [] \<and> take (length w) (c # cs) = w) white_space_encodings = []"
    by (simp only: filter_empty_conv) blast
  then show ?thesis by (simp add: strip_one_def)
qed

lemma strip_one_space: "strip_one white_space_encodings (CHR '' '' # cs) = Some cs"
proof -
  let ?P = "\<lambda>w. w \<noteq> [] \<and> take (length w) (CHR '' '' # cs) = w"
  have s1: "of_char CHR '' '' = (32 :: nat)" by simp
  have s2: "char_of (32 :: nat) = CHR '' ''" using char_of_char [of "CHR '' ''"] s1 by metis
  have "\<forall>w \<in> set white_space_encodings. of_char (hd w) = (32 :: nat) \<longrightarrow> w = [char_of (32 :: nat)]"
    "[char_of (32 :: nat)] \<in> set white_space_encodings"
    by (auto simp: white_space_encodings_def)
  then have e: "\<forall>w \<in> set white_space_encodings. hd w = CHR '' '' \<longrightarrow> w = '' ''" "'' '' \<in> set white_space_encodings"
    unfolding s2 using s1 by metis+
  have "w = '' ''" if "w \<in> set (filter ?P white_space_encodings)" for w
  proof -
    have "?P w" "w \<in> set white_space_encodings" using that by auto
    then show ?thesis using e(1) by (cases w) auto
  qed
  moreover have "'' '' \<in> set (filter ?P white_space_encodings)" using e(2) by simp
  ultimately obtain ws where "filter ?P white_space_encodings = '' '' # ws"
    by (cases "filter ?P white_space_encodings") (auto simp del: set_filter)
  then show ?thesis by (simp add: strip_one_def)
qed

end
