(* ===== verification/JC_Error.thy ===== *)
theory JC_Error
  imports JC_Prelude
begin

text \<open>
  The framework's single error type (\<open>jerrycan-core/src/error.rs\<close>). Every error carries an
  HTTP status, a stable \<open>JC####\<close> code, a message and optional machine-readable details. The
  source's constructors are the definitions below, in the source's order.

  \<open>json\<close> is \<open>serde_json::Value\<close>, with numbers as integers.
\<close>

datatype json =
    JNull
  | JBool bool
  | JNumber int
  | JString str
  | JArray "json list"
  | JObject "(str \<times> json) list"

record error =
  status :: nat
  code :: str
  message :: str
  details :: "json option"

definition error_new :: "nat \<Rightarrow> str \<Rightarrow> str \<Rightarrow> error" where
  "error_new st c m = \<lparr>status = st, code = c, message = m, details = None\<rparr>"

definition bad_request :: "str \<Rightarrow> error" where
  "bad_request m = error_new 400 ''JC0400'' m"

definition not_found :: error where
  "not_found = error_new 404 ''JC0404'' ''not found''"

definition method_not_allowed :: error where
  "method_not_allowed = error_new 405 ''JC0405'' ''method not allowed''"

definition conflict :: "str \<Rightarrow> error" where
  "conflict m = error_new 409 ''JC0409'' m"

definition payload_too_large :: error where
  "payload_too_large = error_new 413 ''JC0413'' ''payload too large''"

definition unsupported_media_type :: error where
  "unsupported_media_type = error_new 415 ''JC0415'' ''unsupported media type''"

definition unprocessable :: "str \<Rightarrow> error" where
  "unprocessable m = error_new 422 ''JC0422'' m"

definition too_many_requests :: error where
  "too_many_requests = error_new 429 ''JC0429'' ''rate limit exceeded''"

definition job_failed :: "str \<Rightarrow> error" where
  "job_failed m = error_new 500 ''JC0521'' m"

definition unauthorized :: error where
  "unauthorized = error_new 401 ''JC0401'' ''authentication required''"

definition forbidden :: error where
  "forbidden = error_new 403 ''JC0403'' ''forbidden''"

definition handler_timeout_error :: error where
  "handler_timeout_error = error_new 503 ''JC0503'' ''handler timed out''"

definition signing_unconfigured :: error where
  "signing_unconfigured = error_new 503 ''JC0511''
     (''signed URLs are not configured '' @ map char_of [226::nat, 128, 148] @
      '' set JERRYCAN_SECRET to enable them'')"

definition internal :: "str \<Rightarrow> error" where
  "internal m = error_new 500 ''JC0500'' m"

definition missing_dependency :: "str \<Rightarrow> error" where
  "missing_dependency type_name = error_new 500 ''JC1001''
     (''no provider registered for dependency `'' @ type_name @ ''`'')"

definition dependency_cycle :: error where
  "dependency_cycle = error_new 500 ''JC1002'' ''dependency cycle or chain too deep''"

definition task_context_error :: error where
  "task_context_error = error_new 500 ''JC1003'' ''dependency requires an HTTP request''"

definition with_details :: "json \<Rightarrow> error \<Rightarrow> error" where
  "with_details d e = e\<lparr>details := Some d\<rparr>"

text \<open>\<open>impl Display for Error\<close>.\<close>

definition error_display :: "error \<Rightarrow> str" where
  "error_display e = code e @ '': '' @ message e"

lemmas error_defs [jc_defs] =
  bad_request_def not_found_def method_not_allowed_def conflict_def payload_too_large_def
  unsupported_media_type_def unprocessable_def too_many_requests_def job_failed_def
  unauthorized_def forbidden_def handler_timeout_error_def signing_unconfigured_def internal_def
  missing_dependency_def dependency_cycle_def task_context_error_def error_new_def

end
