(* ===== verification/JC_Router.thy ===== *)
theory JC_Router
  imports JC_Error
begin

text \<open>
  Method routing and the segment trie of \<open>jerrycan-core/src/router.rs\<close>.

  A trie node has static children keyed by the literal segment, at most one parameter child
  and at most one endpoint. \<open>HashMap<String, Node>\<close> is a map. \<open>Trie::insert\<close> mutates the
  trie in place and may stop half way with an error, so \<open>insert_at\<close> returns the mutated
  node together with the result. \<open>find_node\<close> threads the vector of captured parameters,
  with the push and the pop of the source. The map from methods to handlers of an endpoint is
  an association list (its keys are distinct: \<open>insert_flat\<close> refuses a repeated method).

  The abstract view of a trie is the partial function \<open>lookup_pat\<close> from route patterns to
  endpoints; the lemmas relate insertion and search to it. The interface
  \<open>route_table\<close> states what the builder of an application relies on.
\<close>

section \<open>Method tables and endpoints\<close>

text \<open>\<open>http::Method\<close> by its \<open>as_str\<close>; time budgets are in milliseconds.\<close>

type_synonym meth = str

record 'h method_router =
  mr_handlers :: "(meth \<times> 'h) list"
  mr_body_limit :: "nat option"
  mr_stream_body :: bool
  mr_handler_timeout :: "nat option"
  mr_body_read_timeout :: "nat option"

definition mr_new :: "'h method_router" where
  "mr_new = \<lparr>mr_handlers = [], mr_body_limit = None, mr_stream_body = False,
             mr_handler_timeout = None, mr_body_read_timeout = None\<rparr>"

definition mr_on :: "meth \<Rightarrow> 'h \<Rightarrow> 'h method_router \<Rightarrow> 'h method_router" where
  "mr_on m h r = r\<lparr>mr_handlers := mr_handlers r @ [(m, h)]\<rparr>"

definition mr_set_body_limit :: "nat \<Rightarrow> 'h method_router \<Rightarrow> 'h method_router" where
  "mr_set_body_limit n r = r\<lparr>mr_body_limit := Some n\<rparr>"

definition mr_set_stream_body :: "'h method_router \<Rightarrow> 'h method_router" where
  "mr_set_stream_body r = r\<lparr>mr_stream_body := True\<rparr>"

definition mr_set_handler_timeout :: "nat \<Rightarrow> 'h method_router \<Rightarrow> 'h method_router" where
  "mr_set_handler_timeout budget r = r\<lparr>mr_handler_timeout := Some budget\<rparr>"

definition mr_set_body_read_timeout :: "nat \<Rightarrow> 'h method_router \<Rightarrow> 'h method_router" where
  "mr_set_body_read_timeout budget r = r\<lparr>mr_body_read_timeout := Some budget\<rparr>"

definition route_get :: "'h \<Rightarrow> 'h method_router" where "route_get h = mr_on ''GET'' h mr_new"
definition route_post :: "'h \<Rightarrow> 'h method_router" where "route_post h = mr_on ''POST'' h mr_new"
definition route_put :: "'h \<Rightarrow> 'h method_router" where "route_put h = mr_on ''PUT'' h mr_new"
definition route_patch :: "'h \<Rightarrow> 'h method_router" where "route_patch h = mr_on ''PATCH'' h mr_new"
definition route_delete :: "'h \<Rightarrow> 'h method_router" where "route_delete h = mr_on ''DELETE'' h mr_new"

text \<open>\<open>Endpoint\<close>: the handlers by method, the effective environment \<open>'v\<close> and chain \<open>'m\<close>.\<close>

record ('h, 'v, 'm) endpoint =
  ep_methods :: "(meth \<times> 'h) list"
  ep_env :: 'v
  ep_middleware :: "'m list"
  ep_body_limit :: "nat option"
  ep_stream_body :: bool
  ep_handler_timeout :: "nat option"
  ep_body_read_timeout :: "nat option"

section \<open>The trie\<close>

datatype 'e node =
  Node (statics: "str \<Rightarrow> 'e node option") (param: "(str \<times> 'e node) option") (node_endpoint: "'e option")

definition empty_node :: "'e node" where
  "empty_node = Node (\<lambda>_. None) None None"

datatype 'e route_match =
    Found 'e "(str \<times> str) list"
  | MethodMissing
  | Malformed
  | NotFound

definition segments :: "str \<Rightarrow> str list" where
  "segments path = filter (\<lambda>s. s \<noteq> []) (split_on CHR ''/'' path)"

text \<open>\<open>decode_segment\<close> and its local \<open>hex\<close>; the byte arithmetic stays below 256.\<close>

definition hex :: "char \<Rightarrow> nat option" where
  "hex b = (let n = (of_char b :: nat) in
     if 48 \<le> n \<and> n \<le> 57 then Some (n - 48)
     else if 97 \<le> n \<and> n \<le> 102 then Some (n - 97 + 10)
     else if 65 \<le> n \<and> n \<le> 70 then Some (n - 65 + 10)
     else None)"

fun decode_bytes :: "bytes \<Rightarrow> bytes option" where
  "decode_bytes [] = Some []"
| "decode_bytes (b # r) =
     (if b = CHR ''%'' then
        (case r of
           h # l # r' \<Rightarrow>
             (case hex h of None \<Rightarrow> None
              | Some high \<Rightarrow> (case hex l of None \<Rightarrow> None
                | Some low \<Rightarrow> map_option (\<lambda>out. char_of (high * 16 + low) # out) (decode_bytes r')))
         | _ \<Rightarrow> None)
      else map_option (\<lambda>out. b # out) (decode_bytes r))"

definition decode_segment :: "str \<Rightarrow> str option" where
  "decode_segment seg =
     (if CHR ''%'' \<notin> set seg then Some seg
      else case decode_bytes seg of None \<Rightarrow> None | Some out \<Rightarrow> from_utf8 out)"

text \<open>The name in \<open>{name}\<close>, if the segment is a parameter.\<close>

definition param_name :: "str \<Rightarrow> str option" where
  "param_name seg =
     (case strip_prefix (CHR 0x7B) seg of None \<Rightarrow> None | Some s \<Rightarrow> strip_suffix (CHR 0x7D) s)"

definition conflicting_params :: "str \<Rightarrow> str \<Rightarrow> str \<Rightarrow> error" where
  "conflicting_params existing name path =
     internal (''conflicting path parameters `{'' @ existing @ ''}` vs `{'' @ name @
               ''}` in `'' @ path @ ''`'')"

definition duplicate_route :: "str \<Rightarrow> error" where
  "duplicate_route path = internal (''duplicate route registration for `'' @ path @ ''`'')"

fun insert_at :: "str \<Rightarrow> str list \<Rightarrow> 'e \<Rightarrow> 'e node \<Rightarrow> 'e node \<times> (error, unit) result" where
  "insert_at path [] e nd =
     (case node_endpoint nd of
        Some _ \<Rightarrow> (nd, Err (duplicate_route path))
      | None \<Rightarrow> (Node (statics nd) (param nd) (Some e), Ok ()))"
| "insert_at path (seg # segs) e nd =
     (case param_name seg of
        Some name \<Rightarrow>
          (let (existing, child) = (case param nd of None \<Rightarrow> (name, empty_node) | Some p \<Rightarrow> p) in
           if existing \<noteq> name then
             (Node (statics nd) (Some (existing, child)) (node_endpoint nd),
              Err (conflicting_params existing name path))
           else
             (let (child', r) = insert_at path segs e child in
              (Node (statics nd) (Some (existing, child')) (node_endpoint nd), r)))
      | None \<Rightarrow>
          (let child = (case statics nd seg of None \<Rightarrow> empty_node | Some c \<Rightarrow> c);
               (child', r) = insert_at path segs e child in
           (Node ((statics nd)(seg \<mapsto> child')) (param nd) (node_endpoint nd), r)))"

definition trie_insert :: "str \<Rightarrow> 'e \<Rightarrow> 'e node \<Rightarrow> 'e node \<times> (error, unit) result" where
  "trie_insert path e root = insert_at path (segments path) e root"

fun find_node :: "'e node \<Rightarrow> str list \<Rightarrow> (str \<times> str) list \<Rightarrow> 'e node option \<times> (str \<times> str) list" where
  "find_node nd [] params = (if node_endpoint nd \<noteq> None then Some nd else None, params)"
| "find_node nd (head # rest) params =
     (let via_param = (\<lambda>params.
            case param nd of
              None \<Rightarrow> (None, params)
            | Some (name, child) \<Rightarrow>
                (case find_node child rest (params @ [(name, head)]) of
                   (Some found, params') \<Rightarrow> (Some found, params')
                 | (None, params') \<Rightarrow> (None, butlast params')))
      in case statics nd head of
           None \<Rightarrow> via_param params
         | Some child \<Rightarrow>
             (case find_node child rest params of
                (Some found, params') \<Rightarrow> (Some found, params')
              | (None, params') \<Rightarrow> via_param params'))"

definition find_in :: "('h, 'v, 'm) endpoint node \<Rightarrow> str list \<Rightarrow> meth \<Rightarrow> ('h, 'v, 'm) endpoint route_match" where
  "find_in root segs m =
     (case find_node root segs [] of
        (Some nd, params) \<Rightarrow>
          (case node_endpoint nd of
             Some ep \<Rightarrow> if m \<in> fst ` set (ep_methods ep) then Found ep params else MethodMissing
           | None \<Rightarrow> NotFound)
      | (None, _) \<Rightarrow> NotFound)"

text \<open>The decoding loop of \<open>find\<close> and \<open>methods_for\<close>: the first bad segment stops it.\<close>

fun decode_all :: "str list \<Rightarrow> str list option" where
  "decode_all [] = Some []"
| "decode_all (raw # raws) =
     (case decode_segment raw of None \<Rightarrow> None
      | Some d \<Rightarrow> map_option (\<lambda>ds. d # ds) (decode_all raws))"

definition trie_find :: "('h, 'v, 'm) endpoint node \<Rightarrow> str \<Rightarrow> meth \<Rightarrow> ('h, 'v, 'm) endpoint route_match" where
  "trie_find root path m =
     (if CHR ''%'' \<notin> set path then find_in root (segments path) m
      else case decode_all (segments path) of
             None \<Rightarrow> Malformed
           | Some decoded \<Rightarrow> find_in root decoded m)"

definition methods_for :: "('h, 'v, 'm) endpoint node \<Rightarrow> str \<Rightarrow> meth list option" where
  "methods_for root path =
     (let segs = (if CHR ''%'' \<in> set path then decode_all (segments path) else Some (segments path))
      in case segs of
           None \<Rightarrow> None
         | Some ss \<Rightarrow>
             (case find_node root ss [] of
                (Some nd, _) \<Rightarrow> map_option (\<lambda>ep. sort (map fst (ep_methods ep))) (node_endpoint nd)
              | (None, _) \<Rightarrow> None))"

section \<open>The abstract route table\<close>

text \<open>
  A registered path is a list of patterns; \<open>lookup_pat\<close> reads the endpoint stored under a
  pattern list, \<open>match_pat\<close> says which request segments a pattern list accepts and what it
  captures, and \<open>prior\<close> is the order in which two patterns that accept the same segments
  are tried (a literal before a capture, at the first position where they differ).
\<close>

datatype pat = Lit str | Cap str

definition pat_of :: "str \<Rightarrow> pat" where
  "pat_of seg = (case param_name seg of Some n \<Rightarrow> Cap n | None \<Rightarrow> Lit seg)"

definition pats_of :: "str \<Rightarrow> pat list" where
  "pats_of path = map pat_of (segments path)"

fun node_at :: "'e node \<Rightarrow> pat list \<Rightarrow> 'e node option" where
  "node_at nd [] = Some nd"
| "node_at nd (Lit s # ps) = (case statics nd s of None \<Rightarrow> None | Some c \<Rightarrow> node_at c ps)"
| "node_at nd (Cap n # ps) =
     (case param nd of None \<Rightarrow> None | Some (n', c) \<Rightarrow> if n' = n then node_at c ps else None)"

definition lookup_pat :: "'e node \<Rightarrow> pat list \<Rightarrow> 'e option" where
  "lookup_pat nd ps = (case node_at nd ps of None \<Rightarrow> None | Some nd' \<Rightarrow> node_endpoint nd')"

definition slot :: "'e node \<Rightarrow> pat list \<Rightarrow> str option" where
  "slot nd ps = (case node_at nd ps of None \<Rightarrow> None | Some nd' \<Rightarrow> map_option fst (param nd'))"

fun match_pat :: "pat list \<Rightarrow> str list \<Rightarrow> (str \<times> str) list option" where
  "match_pat [] [] = Some []"
| "match_pat (Lit s # ps) (h # hs) = (if s = h then match_pat ps hs else None)"
| "match_pat (Cap n # ps) (h # hs) = map_option (\<lambda>qs. (n, h) # qs) (match_pat ps hs)"
| "match_pat _ _ = None"

fun prior :: "pat list \<Rightarrow> pat list \<Rightarrow> bool" where
  "prior (Lit _ # ps) (Lit _ # qs) = prior ps qs"
| "prior (Lit _ # ps) (Cap _ # qs) = True"
| "prior (Cap _ # ps) (Lit _ # qs) = False"
| "prior (Cap _ # ps) (Cap _ # qs) = prior ps qs"
| "prior [] _ = True"
| "prior _ [] = False"

text \<open>
  \<open>caps ps\<close>: the positions of \<open>ps\<close> that take a parameter, as the prefix before the
  position and the name. Two patterns agree when no shared position has two names.
\<close>

fun caps_from :: "pat list \<Rightarrow> pat list \<Rightarrow> (pat list \<times> str) list" where
  "caps_from pre [] = []"
| "caps_from pre (Lit s # ps) = caps_from (pre @ [Lit s]) ps"
| "caps_from pre (Cap n # ps) = (pre, n) # caps_from (pre @ [Cap n]) ps"

abbreviation caps :: "pat list \<Rightarrow> (pat list \<times> str) list" where
  "caps ps \<equiv> caps_from [] ps"

definition agree :: "pat list \<Rightarrow> pat list \<Rightarrow> bool" where
  "agree ps qs = (\<forall>(pre, n) \<in> set (caps ps). \<forall>(pre', n') \<in> set (caps qs). pre = pre' \<longrightarrow> n = n')"

section \<open>Search: the most specific registered pattern\<close>

lemma lookup_pat_simps [simp]:
  "lookup_pat nd [] = node_endpoint nd"
  "lookup_pat nd (Lit s # ps) = (case statics nd s of None \<Rightarrow> None | Some c \<Rightarrow> lookup_pat c ps)"
  "lookup_pat nd (Cap n # ps) =
     (case param nd of None \<Rightarrow> None | Some (n', c) \<Rightarrow> if n' = n then lookup_pat c ps else None)"
  by (auto simp: lookup_pat_def split: option.splits)

lemma slot_simps [simp]:
  "slot nd [] = map_option fst (param nd)"
  "slot nd (Lit s # ps) = (case statics nd s of None \<Rightarrow> None | Some c \<Rightarrow> slot c ps)"
  "slot nd (Cap n # ps) =
     (case param nd of None \<Rightarrow> None | Some (n', c) \<Rightarrow> if n' = n then slot c ps else None)"
  by (auto simp: slot_def split: option.splits)

lemma empty_node_simps [simp]:
  "statics empty_node = (\<lambda>_. None)" "param empty_node = None" "node_endpoint empty_node = None"
  by (simp_all add: empty_node_def)

lemma lookup_empty_node [simp]: "lookup_pat empty_node ps = None"
  by (cases ps rule: list.exhaust; cases "hd ps") auto

lemma slot_empty_node [simp]: "slot empty_node ps = None"
  by (cases ps rule: list.exhaust; cases "hd ps") auto

lemma match_pat_Cons:
  assumes "match_pat pats (h # hs) = Some qs"
  obtains ps where "pats = Lit h # ps" "match_pat ps hs = Some qs"
  | n ps qs' where "pats = Cap n # ps" "match_pat ps hs = Some qs'" "qs = (n, h) # qs'"
proof (cases pats)
  case (Cons p ps)
  then show ?thesis
    using assms that by (cases p) (auto split: if_splits)
qed (use assms in simp)

lemma match_pat_Nil: "match_pat pats [] = Some qs \<longleftrightarrow> pats = [] \<and> qs = []"
proof (cases pats)
  case (Cons p ps)
  then show ?thesis by (cases p) auto
qed auto

text \<open>What a search result means: the best pattern and its captures, or no pattern at all.\<close>

definition best_match :: "'e node \<Rightarrow> str list \<Rightarrow> 'e \<Rightarrow> (str \<times> str) list \<Rightarrow> bool" where
  "best_match nd segs e qs \<longleftrightarrow>
     (\<exists>pats. lookup_pat nd pats = Some e \<and> match_pat pats segs = Some qs \<and>
        (\<forall>pats'. lookup_pat nd pats' \<noteq> None \<and> match_pat pats' segs \<noteq> None \<longrightarrow> prior pats pats'))"

definition no_match :: "'e node \<Rightarrow> str list \<Rightarrow> bool" where
  "no_match nd segs \<longleftrightarrow> (\<forall>pats'. lookup_pat nd pats' \<noteq> None \<longrightarrow> match_pat pats' segs = None)"

lemma best_match_Nil: "node_endpoint nd = Some e \<Longrightarrow> best_match nd [] e []"
  unfolding best_match_def by (rule exI [of _ "[]"]) (auto simp: match_pat_Nil)

lemma best_match_static:
  assumes "statics nd h = Some c" "best_match c hs e qs"
  shows "best_match nd (h # hs) e qs"
proof -
  obtain ps where ps: "lookup_pat c ps = Some e" "match_pat ps hs = Some qs"
    and best: "\<And>ps'. lookup_pat c ps' \<noteq> None \<Longrightarrow> match_pat ps' hs \<noteq> None \<Longrightarrow> prior ps ps'"
    using assms(2) by (auto simp: best_match_def)
  have "prior (Lit h # ps) pats'"
    if "lookup_pat nd pats' \<noteq> None" "match_pat pats' (h # hs) \<noteq> None" for pats'
    using that best assms(1) by (auto elim!: match_pat_Cons)
  then show ?thesis
    using ps assms(1) unfolding best_match_def by (intro exI [of _ "Lit h # ps"]) auto
qed

lemma no_match_ConsI:
  assumes "\<And>c. statics nd h = Some c \<Longrightarrow> no_match c hs"
    and "\<And>n c. param nd = Some (n, c) \<Longrightarrow> no_match c hs"
  shows "no_match nd (h # hs)"
  unfolding no_match_def
proof (intro allI impI)
  fix pats' assume l: "lookup_pat nd pats' \<noteq> None"
  show "match_pat pats' (h # hs) = None"
  proof (rule ccontr)
    assume "match_pat pats' (h # hs) \<noteq> None"
    then obtain qs where "match_pat pats' (h # hs) = Some qs" by auto
    then show False
      using l assms by (cases rule: match_pat_Cons) (auto simp: no_match_def split: option.splits if_splits)
  qed
qed

lemma best_match_param:
  assumes "param nd = Some (n, c)" "best_match c hs e qs"
    and "\<And>c'. statics nd h = Some c' \<Longrightarrow> no_match c' hs"
  shows "best_match nd (h # hs) e ((n, h) # qs)"
proof -
  obtain ps where ps: "lookup_pat c ps = Some e" "match_pat ps hs = Some qs"
    and best: "\<And>ps'. lookup_pat c ps' \<noteq> None \<Longrightarrow> match_pat ps' hs \<noteq> None \<Longrightarrow> prior ps ps'"
    using assms(2) by (auto simp: best_match_def)
  have "prior (Cap n # ps) pats'"
    if l: "lookup_pat nd pats' \<noteq> None" and m: "match_pat pats' (h # hs) \<noteq> None" for pats'
  proof -
    from m obtain rs where "match_pat pats' (h # hs) = Some rs" by auto
    then show ?thesis
    proof (cases rule: match_pat_Cons)
      case (1 ps')
      with l obtain c' where "statics nd h = Some c'" "lookup_pat c' ps' \<noteq> None"
        by (auto split: option.splits)
      with assms(3) 1 show ?thesis by (auto simp: no_match_def)
    next
      case (2 n' ps' rs')
      with l assms(1) best [of ps'] show ?thesis by (auto split: if_splits)
    qed
  qed
  then show ?thesis
    using ps assms(1) unfolding best_match_def by (intro exI [of _ "Cap n # ps"]) auto
qed

text \<open>
  The search with its mutable parameter vector returns the most specific pattern, appends
  exactly its captures, and leaves the vector as it was when it fails.
\<close>

lemma find_node_spec:
  "case find_node nd segs params of
     (Some f, params') \<Rightarrow>
       \<exists>e qs. node_endpoint f = Some e \<and> best_match nd segs e qs \<and> params' = params @ qs
   | (None, params') \<Rightarrow> params' = params \<and> no_match nd segs"
proof (induction segs arbitrary: nd params)
  case Nil
  show ?case
  proof (cases "node_endpoint nd")
    case None
    then have "match_pat pats [] = None" if "lookup_pat nd pats \<noteq> None" for pats
      using that by (cases "match_pat pats []") (auto simp: match_pat_Nil)
    with None show ?thesis by (simp add: no_match_def)
  next
    case (Some e)
    then show ?thesis by (simp add: best_match_Nil)
  qed
next
  case (Cons h hs)
  note IH = Cons.IH
  let ?res = "find_node nd (h # hs) params"
  have param_case: "case (case param nd of None \<Rightarrow> (None, params)
          | Some (n, c) \<Rightarrow> (case find_node c hs (params @ [(n, h)]) of
               (Some f, p') \<Rightarrow> (Some f, p') | (None, p') \<Rightarrow> (None, butlast p'))) of
        (Some f, params') \<Rightarrow>
           \<exists>e qs. node_endpoint f = Some e \<and> best_match nd (h # hs) e qs \<and> params' = params @ qs
      | (None, params') \<Rightarrow> params' = params \<and> no_match nd (h # hs)"
    if st: "\<And>c'. statics nd h = Some c' \<Longrightarrow> no_match c' hs"
  proof (cases "param nd")
    case None
    with st show ?thesis by (auto intro!: no_match_ConsI)
  next
    case (Some nc)
    obtain n c where nc: "nc = (n, c)" by (cases nc)
    show ?thesis
    proof (cases "find_node c hs (params @ [(n, h)])")
      case (Pair r p')
      with IH [of "params @ [(n, h)]" c] show ?thesis
      proof (cases r)
        case None
        with Pair IH [of "params @ [(n, h)]" c] Some nc st show ?thesis
          by (auto intro!: no_match_ConsI)
      next
        case (Some f)
        with Pair IH [of "params @ [(n, h)]" c] obtain e qs where
          "node_endpoint f = Some e" "best_match c hs e qs" "p' = params @ [(n, h)] @ qs"
          by auto
        then show ?thesis
          using \<open>param nd = Some nc\<close> nc Pair Some best_match_param [of nd n c hs e qs h] st
          by auto
      qed
    qed
  qed
  show ?case
  proof (cases "statics nd h")
    case None
    with param_case show ?thesis by simp
  next
    case (Some c)
    obtain r p' where rp: "find_node c hs params = (r, p')" by (cases "find_node c hs params")
    show ?thesis
    proof (cases r)
      case None
      with IH [of params c] rp have "p' = params" "no_match c hs" by auto
      with param_case Some rp None show ?thesis by simp
    next
      case (Some f)
      with IH [of params c] rp obtain e qs where
        "node_endpoint f = Some e" "best_match c hs e qs" "p' = params @ qs" by auto
      with Some rp \<open>statics nd h = Some c\<close> best_match_static show ?thesis by auto
    qed
  qed
qed

section \<open>Insertion: an update of the route table, or no change\<close>

lemma caps_from_prefix: "caps_from pre ps = map (\<lambda>(q, n). (pre @ q, n)) (caps ps)"
proof (induction ps arbitrary: pre)
  case (Cons p ps)
  show ?case
  proof (cases p)
    case (Lit s)
    then show ?thesis
      using Cons [of "pre @ [Lit s]"] Cons [of "[Lit s]"] by (simp add: case_prod_unfold)
  next
    case (Cap n)
    then show ?thesis
      using Cons [of "pre @ [Cap n]"] Cons [of "[Cap n]"] by (simp add: case_prod_unfold)
  qed
qed simp

lemma caps_Lit: "caps (Lit s # ps) = map (\<lambda>(q, n). (Lit s # q, n)) (caps ps)"
  using caps_from_prefix [of "[Lit s]" ps] by simp

lemma caps_Cap: "caps (Cap n # ps) = ([], n) # map (\<lambda>(q, m). (Cap n # q, m)) (caps ps)"
  using caps_from_prefix [of "[Cap n]" ps] by simp

lemmas caps_simps = caps_Lit caps_Cap

lemma in_caps_Lit: "(pre, m) \<in> set (caps (Lit s # ps)) \<longleftrightarrow> (\<exists>q. pre = Lit s # q \<and> (q, m) \<in> set (caps ps))"
  unfolding caps_Lit by auto

lemma in_caps_Cap:
  "(pre, m) \<in> set (caps (Cap n # ps)) \<longleftrightarrow>
     pre = [] \<and> m = n \<or> (\<exists>q. pre = Cap n # q \<and> (q, m) \<in> set (caps ps))"
  unfolding caps_Cap by auto

lemmas in_caps_simps = in_caps_Lit in_caps_Cap

text \<open>A pattern fits a trie when no position it names differently is already taken.\<close>

definition fits :: "'e node \<Rightarrow> pat list \<Rightarrow> bool" where
  "fits nd ps = (\<forall>(pre, n) \<in> set (caps ps). case slot nd pre of None \<Rightarrow> True | Some m \<Rightarrow> m = n)"

lemma fits_simps [simp]:
  "fits nd []"
  "fits nd (Lit s # ps) = (case statics nd s of None \<Rightarrow> True | Some c \<Rightarrow> fits c ps)"
  "fits nd (Cap n # ps) =
     (case param nd of None \<Rightarrow> True | Some (m, c) \<Rightarrow> m = n \<and> fits c ps)"
  by (auto simp: fits_def caps_simps simp del: caps_from.simps(2-3) split: option.splits)

lemma fits_empty_node [simp]: "fits empty_node ps"
  by (simp add: fits_def case_prod_unfold)

lemma insert_at_ok_iff:
  "is_ok (snd (insert_at path segs e nd)) \<longleftrightarrow>
     lookup_pat nd (map pat_of segs) = None \<and> fits nd (map pat_of segs)"
proof (induction segs arbitrary: nd)
  case Nil
  then show ?case by (auto split: option.splits)
next
  case (Cons seg segs)
  then show ?case
    by (auto simp: pat_of_def case_prod_unfold Let_def split: option.splits if_splits)
qed

lemma insert_at_lookup:
  "lookup_pat (fst (insert_at path segs e nd)) qs =
     (if qs = map pat_of segs \<and> is_ok (snd (insert_at path segs e nd)) then Some e
      else lookup_pat nd qs)"
proof (induction segs arbitrary: nd qs)
  case Nil
  show ?case
  proof (cases qs)
    case (Cons q qs')
    then show ?thesis by (cases q) (auto split: option.splits)
  qed (auto split: option.splits)
next
  case (Cons seg segs)
  show ?case
  proof (cases qs)
    case (Cons q qs')
    then show ?thesis
      using Cons.IH
      by (cases q) (auto simp: pat_of_def case_prod_unfold Let_def split: option.splits if_splits)
  qed (auto simp: case_prod_unfold Let_def split: option.splits if_splits)
qed

lemma insert_at_slot:
  "is_ok (snd (insert_at path segs e nd)) \<Longrightarrow>
     slot (fst (insert_at path segs e nd)) pre = Some m \<longleftrightarrow>
     slot nd pre = Some m \<or> (pre, m) \<in> set (caps (map pat_of segs))"
proof (induction segs arbitrary: nd pre)
  case Nil
  then show ?case
    by (cases pre rule: list.exhaust; cases "hd pre") (auto split: option.splits)
next
  case (Cons seg segs)
  show ?case
  proof (cases pre)
    case Nil
    with Cons.prems show ?thesis
      by (auto simp: pat_of_def case_prod_unfold Let_def in_caps_simps
               simp del: caps_from.simps(2-3) split: option.splits if_splits)
  next
    case (Cons q pre')
    with Cons.prems Cons.IH show ?thesis
      by (cases q) (auto simp: pat_of_def case_prod_unfold Let_def in_caps_simps
               simp del: caps_from.simps(2-3) split: option.splits if_splits)
  qed
qed

section \<open>The interface of a route table\<close>

text \<open>The registration loop of a builder: the first refused route stops it.\<close>

fun insert_all :: "('r \<Rightarrow> 't \<Rightarrow> 't option) \<Rightarrow> 't \<Rightarrow> 'r list \<Rightarrow> 't option" where
  "insert_all ins t [] = Some t"
| "insert_all ins t (r # routes) =
     (case ins r t of None \<Rightarrow> None | Some t' \<Rightarrow> insert_all ins t' routes)"

definition registrable :: "('r \<Rightarrow> str) \<Rightarrow> ('r \<Rightarrow> 'r \<Rightarrow> bool) \<Rightarrow> 'r \<Rightarrow> 'r \<Rightarrow> bool" where
  "registrable path_of same r r' =
     (agree (pats_of (path_of r)) (pats_of (path_of r')) \<and>
      (pats_of (path_of r) = pats_of (path_of r') \<longrightarrow> same r r'))"

lemma agree_iff:
  "agree ps qs \<longleftrightarrow> (\<forall>pre n n'. (pre, n) \<in> set (caps ps) \<longrightarrow> (pre, n') \<in> set (caps qs) \<longrightarrow> n = n')"
  by (auto simp: agree_def)

lemma insert_all_snoc:
  "insert_all ins t (rs @ [r]) =
     (case insert_all ins t rs of None \<Rightarrow> None | Some t' \<Rightarrow> ins r t')"
  by (induction ins t rs rule: insert_all.induct) (auto split: option.splits)

text \<open>
  What the clients of a route table rely on: when a registration is accepted (the position is
  free, or holds the \<open>same\<close> entry, and no position gets a second parameter name), and what
  it changes. The client lemmas say when a whole list of routes is accepted.
\<close>

locale route_table =
  fixes tbl_empty :: 't
    and tbl_insert :: "'r \<Rightarrow> 't \<Rightarrow> 't option"
    and tbl_lookup :: "'t \<Rightarrow> pat list \<Rightarrow> 'e option"
    and tbl_slot :: "'t \<Rightarrow> pat list \<Rightarrow> str option"
    and path_of :: "'r \<Rightarrow> str"
    and entry_of :: "'r \<Rightarrow> 'e"
    and same :: "'e \<Rightarrow> 'e \<Rightarrow> bool"
  assumes lookup_empty: "tbl_lookup tbl_empty ps = None"
    and slot_empty: "tbl_slot tbl_empty ps = None"
    and insert_iff: "tbl_insert r t \<noteq> None \<longleftrightarrow>
        (\<forall>e'. tbl_lookup t (pats_of (path_of r)) = Some e' \<longrightarrow> same e' (entry_of r)) \<and>
        (\<forall>(pre, n) \<in> set (caps (pats_of (path_of r))). \<forall>m. tbl_slot t pre = Some m \<longrightarrow> m = n)"
    and lookup_insert: "tbl_insert r t = Some t' \<Longrightarrow>
        tbl_lookup t' qs = (if qs = pats_of (path_of r) then Some (entry_of r) else tbl_lookup t qs)"
    and slot_insert: "tbl_insert r t = Some t' \<Longrightarrow>
        tbl_slot t' pre = Some m \<longleftrightarrow>
        tbl_slot t pre = Some m \<or> (pre, m) \<in> set (caps (pats_of (path_of r)))"
    and same_sym: "same a b \<Longrightarrow> same b a"
    and same_trans: "same a b \<Longrightarrow> same b c \<Longrightarrow> same a c"
begin

lemma insert_all_contents:
  "insert_all tbl_insert tbl_empty rs = Some t \<Longrightarrow>
     (\<forall>ps e. tbl_lookup t ps = Some e \<longrightarrow> (\<exists>r \<in> set rs. entry_of r = e \<and> pats_of (path_of r) = ps)) \<and>
     (\<forall>r \<in> set rs. \<exists>e'. tbl_lookup t (pats_of (path_of r)) = Some e'
                       \<and> (e' = entry_of r \<or> same (entry_of r) e')) \<and>
     (\<forall>pre m. tbl_slot t pre = Some m \<longleftrightarrow> (\<exists>r \<in> set rs. (pre, m) \<in> set (caps (pats_of (path_of r)))))"
proof (induction rs arbitrary: t rule: rev_induct)
  case Nil
  then have "t = tbl_empty" by simp
  then show ?case by (simp add: lookup_empty slot_empty)
next
  case (snoc r rs)
  from snoc.prems obtain t0 where t0: "insert_all tbl_insert tbl_empty rs = Some t0"
    and t: "tbl_insert r t0 = Some t"
    by (auto simp: insert_all_snoc split: option.splits)
  note IH = snoc.IH [OF t0]
  note lk = lookup_insert [OF t] and sl = slot_insert [OF t]
  have same: "same e' (entry_of r)" if "tbl_lookup t0 (pats_of (path_of r)) = Some e'" for e'
    using insert_iff [of r t0] t that by auto
  have c1: "\<exists>r' \<in> set (rs @ [r]). entry_of r' = e' \<and> pats_of (path_of r') = ps"
    if "tbl_lookup t ps = Some e'" for ps e'
    using that IH by (auto simp: lk split: if_splits)
  have c2: "\<exists>e''. tbl_lookup t (pats_of (path_of r')) = Some e'' \<and> (e'' = entry_of r' \<or> same (entry_of r') e'')"
    if "r' \<in> set (rs @ [r])" for r'
  proof (cases "pats_of (path_of r') = pats_of (path_of r)")
    case True
    show ?thesis
    proof (cases "r' \<in> set rs")
      case inrs: True
      then obtain e'' where "tbl_lookup t0 (pats_of (path_of r)) = Some e''"
        "e'' = entry_of r' \<or> same (entry_of r') e''"
        using IH True by metis
      then have "same (entry_of r') (entry_of r)" using same same_trans by blast
      then show ?thesis using True by (auto simp: lk)
    next
      case False
      with that True show ?thesis by (simp add: lk)
    qed
  next
    case False
    with that IH show ?thesis by (auto simp: lk)
  qed
  have c3: "tbl_slot t pre = Some m \<longleftrightarrow> (\<exists>r \<in> set (rs @ [r]). (pre, m) \<in> set (caps (pats_of (path_of r))))" for pre m
    using IH by (auto simp: sl)
  show ?case using c1 c2 c3 by blast
qed

lemma insert_all_iff:
  "insert_all tbl_insert tbl_empty rs \<noteq> None \<longleftrightarrow>
     sorted_wrt (registrable path_of (\<lambda>r r'. same (entry_of r) (entry_of r'))) rs"
proof (induction rs rule: rev_induct)
  case (snoc r rs)
  show ?case
  proof (cases "insert_all tbl_insert tbl_empty rs")
    case None
    with snoc show ?thesis by (simp add: insert_all_snoc sorted_wrt_append)
  next
    case (Some t0)
    note c = insert_all_contents [OF Some]
    note slots = c [THEN conjunct2, THEN conjunct2, rule_format]
    have "(\<forall>e'. tbl_lookup t0 (pats_of (path_of r)) = Some e' \<longrightarrow> same e' (entry_of r)) \<longleftrightarrow>
          (\<forall>r' \<in> set rs. pats_of (path_of r') = pats_of (path_of r) \<longrightarrow> same (entry_of r') (entry_of r))"
    proof (intro iffI allI ballI impI)
      fix r' assume a: "\<forall>e'. tbl_lookup t0 (pats_of (path_of r)) = Some e' \<longrightarrow> same e' (entry_of r)"
        and r': "r' \<in> set rs" "pats_of (path_of r') = pats_of (path_of r)"
      with c obtain e'' where "tbl_lookup t0 (pats_of (path_of r)) = Some e''"
        "e'' = entry_of r' \<or> same (entry_of r') e''"
        by metis
      with a same_trans show "same (entry_of r') (entry_of r)" by blast
    next
      fix e' assume "\<forall>r' \<in> set rs. pats_of (path_of r') = pats_of (path_of r) \<longrightarrow> same (entry_of r') (entry_of r)"
        and "tbl_lookup t0 (pats_of (path_of r)) = Some e'"
      with c show "same e' (entry_of r)" by blast
    qed
    moreover have "(\<forall>(pre, n) \<in> set (caps (pats_of (path_of r))). \<forall>m. tbl_slot t0 pre = Some m \<longrightarrow> m = n) \<longleftrightarrow>
          (\<forall>pre n m. (pre, n) \<in> set (caps (pats_of (path_of r))) \<longrightarrow> tbl_slot t0 pre = Some m \<longrightarrow> m = n)"
      by auto
    moreover have "(\<forall>pre n m. (pre, n) \<in> set (caps (pats_of (path_of r))) \<longrightarrow> tbl_slot t0 pre = Some m \<longrightarrow> m = n)
          \<longleftrightarrow> (\<forall>r' \<in> set rs. agree (pats_of (path_of r')) (pats_of (path_of r)))"
      unfolding slots agree_iff by metis
    ultimately have "tbl_insert r t0 \<noteq> None \<longleftrightarrow>
        (\<forall>r' \<in> set rs. registrable path_of (\<lambda>r r'. same (entry_of r) (entry_of r')) r' r)"
      unfolding insert_iff registrable_def by auto
    with Some snoc show ?thesis
      by (simp add: insert_all_snoc sorted_wrt_append)
  qed
qed simp

end

text \<open>The trie of the running application is such a table: no second entry at a position.\<close>

definition trie_register :: "str \<times> 'e \<Rightarrow> 'e node \<Rightarrow> 'e node option" where
  "trie_register r root =
     (case trie_insert (fst r) (snd r) root of (root', Ok _) \<Rightarrow> Some root' | (_, Err _) \<Rightarrow> None)"

lemma trie_register_Some:
  "trie_register r root = Some root' \<longleftrightarrow>
     is_ok (snd (trie_insert (fst r) (snd r) root)) \<and> root' = fst (trie_insert (fst r) (snd r) root)"
  by (auto simp: trie_register_def is_ok_iff split: prod.splits sum.splits)

lemma fits_iff:
  "fits nd ps \<longleftrightarrow> (\<forall>(pre, n) \<in> set (caps ps). \<forall>m. slot nd pre = Some m \<longrightarrow> m = n)"
  by (auto simp: fits_def split: option.splits)

interpretation trie: route_table empty_node trie_register lookup_pat slot fst snd "\<lambda>_ _. False"
proof
  show "(trie_register r t \<noteq> None) =
     ((\<forall>e'. lookup_pat t (pats_of (fst r)) = Some e' \<longrightarrow> False) \<and>
      (\<forall>(pre, n)\<in>set (caps (pats_of (fst r))). \<forall>m. slot t pre = Some m \<longrightarrow> m = n))"
    for r and t :: "'a node"
  proof -
    have "trie_register r t \<noteq> None \<longleftrightarrow> is_ok (snd (trie_insert (fst r) (snd r) t))"
      by (auto simp: trie_register_def is_ok_iff split: prod.splits sum.splits)
    also have "\<dots> \<longleftrightarrow> lookup_pat t (pats_of (fst r)) = None \<and> fits t (pats_of (fst r))"
      by (simp add: trie_insert_def insert_at_ok_iff pats_of_def)
    finally show ?thesis by (auto simp: fits_iff)
  qed
qed (auto simp: trie_register_Some trie_insert_def insert_at_lookup insert_at_slot pats_of_def)

section \<open>Decoding and searching a request path\<close>

lemma decode_all_plain: "CHR ''%'' \<notin> \<Union> (set ` set ss) \<Longrightarrow> decode_all ss = Some ss"
  by (induction ss) (auto simp: decode_segment_def)

lemma set_split_on: "x \<in> set p \<Longrightarrow> p \<in> set (split_on c s) \<Longrightarrow> x \<in> set s"
proof (induction s arbitrary: p)
  case (Cons y s)
  show ?case
  proof (cases "y = c")
    case True
    with Cons show ?thesis by auto
  next
    case False
    obtain q qs where "split_on c s = q # qs" by (cases "split_on c s") auto
    with Cons.IH [of q] Cons.IH [of p] Cons.prems False show ?thesis by auto
  qed
qed simp

lemma decode_all_segments_plain:
  "CHR ''%'' \<notin> set path \<Longrightarrow> decode_all (segments path) = Some (segments path)"
  by (rule decode_all_plain) (auto simp: segments_def dest: set_split_on)

lemma trie_find_decode:
  "trie_find root path m =
     (case decode_all (segments path) of None \<Rightarrow> Malformed | Some ds \<Rightarrow> find_in root ds m)"
  by (simp add: trie_find_def decode_all_segments_plain)

lemma methods_for_decode:
  "methods_for root path =
     (case decode_all (segments path) of
        None \<Rightarrow> None
      | Some ss \<Rightarrow>
          (case find_node root ss [] of
             (Some nd, _) \<Rightarrow> map_option (\<lambda>ep. sort (map fst (ep_methods ep))) (node_endpoint nd)
           | (None, _) \<Rightarrow> None))"
  by (cases "CHR ''%'' \<in> set path") (simp_all add: methods_for_def decode_all_segments_plain)

lemma prior_antisym:
  "prior ps qs \<Longrightarrow> prior qs ps \<Longrightarrow> match_pat ps segs \<noteq> None \<Longrightarrow> match_pat qs segs \<noteq> None \<Longrightarrow>
   lookup_pat nd ps \<noteq> None \<Longrightarrow> lookup_pat nd qs \<noteq> None \<Longrightarrow> ps = qs"
proof (induction segs arbitrary: ps qs nd)
  case Nil
  then show ?case by (auto simp: match_pat_Nil)
next
  case (Cons h hs)
  from Cons.prems(3) obtain rs where "match_pat ps (h # hs) = Some rs" by auto
  moreover from Cons.prems(4) obtain ts where "match_pat qs (h # hs) = Some ts" by auto
  ultimately show ?case
    using Cons.prems(1,2,5,6)
    by (elim match_pat_Cons) (auto split: option.splits if_splits intro!: Cons.IH)
qed

lemma best_match_unique:
  assumes "best_match nd segs e qs" "best_match nd segs e' qs'"
  shows "e' = e \<and> qs' = qs"
proof -
  obtain ps where ps: "lookup_pat nd ps = Some e" "match_pat ps segs = Some qs"
    "\<And>ps'. lookup_pat nd ps' \<noteq> None \<Longrightarrow> match_pat ps' segs \<noteq> None \<Longrightarrow> prior ps ps'"
    using assms(1) by (auto simp: best_match_def)
  obtain ps' where ps': "lookup_pat nd ps' = Some e'" "match_pat ps' segs = Some qs'"
    "\<And>ps. lookup_pat nd ps \<noteq> None \<Longrightarrow> match_pat ps segs \<noteq> None \<Longrightarrow> prior ps' ps"
    using assms(2) by (auto simp: best_match_def)
  have "ps = ps'" using ps ps' by (intro prior_antisym [of _ _ segs nd]) auto
  with ps ps' show ?thesis by simp
qed

lemma best_match_no_match: "best_match nd segs e qs \<Longrightarrow> \<not> no_match nd segs"
  by (auto simp: best_match_def no_match_def)

lemma find_in_cases:
  obtains (found) e qs where "best_match root segs e qs"
    "find_in root segs m = (if m \<in> fst ` set (ep_methods e) then Found e qs else MethodMissing)"
  | (missing) "no_match root segs" "find_in root segs m = NotFound"
proof (cases "find_node root segs []")
  case (Pair r ps)
  show ?thesis
  proof (cases r)
    case None
    with Pair find_node_spec [of "[]" root segs] missing show ?thesis
      by (auto simp: find_in_def)
  next
    case (Some f)
    with Pair find_node_spec [of "[]" root segs] found show ?thesis
      by (auto simp: find_in_def)
  qed
qed

text \<open>The captures of a match are the values of the pattern's parameters, in route order.\<close>

fun pat_names :: "pat list \<Rightarrow> str list" where
  "pat_names [] = []"
| "pat_names (Lit s # ps) = pat_names ps"
| "pat_names (Cap n # ps) = n # pat_names ps"

lemma match_pat_names: "match_pat ps segs = Some qs \<Longrightarrow> map fst qs = pat_names ps"
  by (induction ps segs arbitrary: qs rule: match_pat.induct) (auto split: if_splits)

lemma match_pat_values: "match_pat ps segs = Some qs \<Longrightarrow> set (map snd qs) \<subseteq> set segs"
  by (induction ps segs arbitrary: qs rule: match_pat.induct) (fastforce split: if_splits)+

section \<open>Percent-encoding\<close>

definition hex_digit :: "nat \<Rightarrow> char" where
  "hex_digit n = ''0123456789ABCDEF'' ! n"

definition percent_encode :: "bytes \<Rightarrow> str" where
  "percent_encode bs =
     concat (map (\<lambda>b. [CHR ''%'', hex_digit (of_char b div 16), hex_digit (of_char b mod 16)]) bs)"

lemma hex_hex_digit: "n < 16 \<Longrightarrow> hex (hex_digit n) = Some n"
proof -
  have "\<forall>n\<in>set [0..<16]. hex (hex_digit n) = Some n" by code_simp
  then show "n < 16 \<Longrightarrow> hex (hex_digit n) = Some n" by simp
qed

lemma decode_percent_encode: "decode_bytes (percent_encode bs) = Some bs"
proof (induction bs)
  case (Cons b bs)
  have "(of_char b :: nat) div 16 < 16" using of_char_less_256 [of b] by linarith
  moreover have "char_of (of_char b div 16 * 16 + of_char b mod 16 :: nat) = b"
    by (simp only: div_mult_mod_eq char_of_char)
  ultimately show ?case
    using Cons by (simp add: percent_encode_def hex_hex_digit)
qed (simp add: percent_encode_def)

lemma percent_encode_escapes: "CHR ''%'' \<in> set (percent_encode bs) \<or> percent_encode bs = bs"
  by (cases bs) (simp_all add: percent_encode_def)

lemma decode_bytes_length: "decode_bytes bs = Some out \<Longrightarrow> length out \<le> length bs"
proof (induction bs arbitrary: out rule: decode_bytes.induct)
  case (2 b r)
  then show ?case
    by (auto split: if_splits list.splits option.splits) fastforce+
qed simp

section \<open>Properties\<close>

text \<open>A search answers from the request path alone: a path with a malformed escape is
  Malformed; otherwise the decoded segments (one per raw segment, so an escaped slash makes no
  new segment) either match no registered pattern (NotFound) or select the most specific
  registered pattern, whose captures are returned in route order, and the method decides
  between Found and MethodMissing.\<close>

lemma trie_find_spec:
  "case trie_find root path m of
     Found ep params \<Rightarrow> (\<exists>ds. decode_all (segments path) = Some ds \<and> best_match root ds ep params
                           \<and> m \<in> fst ` set (ep_methods ep))
   | MethodMissing \<Rightarrow> (\<exists>ds ep params. decode_all (segments path) = Some ds
                           \<and> best_match root ds ep params \<and> m \<notin> fst ` set (ep_methods ep))
   | Malformed \<Rightarrow> decode_all (segments path) = None
   | NotFound \<Rightarrow> (\<exists>ds. decode_all (segments path) = Some ds \<and> no_match root ds)"
proof (cases "decode_all (segments path)")
  case None
  then show ?thesis by (simp add: trie_find_decode)
next
  case (Some ds)
  show ?thesis
    by (cases rule: find_in_cases [of root ds m]) (auto simp: trie_find_decode Some)
qed

lemma registered_lookup:
  assumes "insert_all trie_register empty_node routes = Some root"
  shows "lookup_pat root ps = Some e \<longleftrightarrow> (\<exists>p. (p, e) \<in> set routes \<and> pats_of p = ps)"
  using trie.insert_all_contents [OF assms] by (metis fst_conv snd_conv prod.collapse)

lemma routing_table:
  assumes "insert_all trie_register empty_node routes = Some root"
    and "decode_all (segments path) = Some ds"
  shows "trie_find root path m = Found ep params \<longleftrightarrow>
      m \<in> fst ` set (ep_methods ep) \<and>
      (\<exists>p. (p, ep) \<in> set routes \<and> match_pat (pats_of p) ds = Some params \<and>
         (\<forall>(p', e') \<in> set routes. match_pat (pats_of p') ds \<noteq> None \<longrightarrow> prior (pats_of p) (pats_of p')))"
proof -
  have preferred: "(\<forall>ps'. lookup_pat root ps' \<noteq> None \<and> match_pat ps' ds \<noteq> None \<longrightarrow> prior ps ps') \<longleftrightarrow>
      (\<forall>(p', e') \<in> set routes. match_pat (pats_of p') ds \<noteq> None \<longrightarrow> prior ps (pats_of p'))" for ps
    unfolding not_None_eq registered_lookup [OF assms(1)] by blast
  have bm: "best_match root ds e qs \<longleftrightarrow>
      (\<exists>p. (p, e) \<in> set routes \<and> match_pat (pats_of p) ds = Some qs \<and>
         (\<forall>(p', e') \<in> set routes. match_pat (pats_of p') ds \<noteq> None \<longrightarrow> prior (pats_of p) (pats_of p')))"
    for e qs
    unfolding best_match_def preferred unfolding registered_lookup [OF assms(1)] by blast
  have "trie_find root path m = Found ep params \<longleftrightarrow> m \<in> fst ` set (ep_methods ep) \<and> best_match root ds ep params"
    using assms(2)
    by (cases rule: find_in_cases [of root ds m])
       (auto simp: trie_find_decode best_match_no_match dest: best_match_unique)
  then show ?thesis by (simp add: bm)
qed

text \<open>C1: For a trie built from a list of routes, a well-formed request path is answered with the
  endpoint of exactly that registered route that matches the decoded segments and is preferred
  (literal before parameter, leftmost difference first) to every other matching route, with the
  captured parameters of that route.\<close>

theorem routing_refines_table:
  assumes "insert_all trie_register empty_node routes = Some root"
    and "decode_all (segments path) = Some ds"
  shows "trie_find root path m = Found ep params \<longleftrightarrow>
      m \<in> fst ` set (ep_methods ep) \<and>
      (\<exists>p. (p, ep) \<in> set routes \<and> match_pat (pats_of p) ds = Some params \<and>
         (\<forall>(p', e') \<in> set routes. match_pat (pats_of p') ds \<noteq> None \<longrightarrow> prior (pats_of p) (pats_of p')))"
  by (rule routing_table [OF assms])

definition example_endpoint :: "meth list \<Rightarrow> (nat, unit, unit) endpoint" where
  "example_endpoint ms = \<lparr>ep_methods = zip ms [0..<length ms], ep_env = (), ep_middleware = [],
     ep_body_limit = None, ep_stream_body = False, ep_handler_timeout = None, ep_body_read_timeout = None\<rparr>"

definition example_routes :: "(str \<times> (nat, unit, unit) endpoint) list" where
  "example_routes = [(''/users/me'', example_endpoint [''GET'']),
                     (''/users/{id}'', example_endpoint [''GET'', ''DELETE''])]"

theorem routing_refines_table_witness:
  "insert_all trie_register empty_node example_routes \<noteq> None
   \<and> decode_all (segments ''/users/%34%32'') = Some [''users'', ''42'']
   \<and> trie_find (the (insert_all trie_register empty_node example_routes)) ''/users/%34%32'' ''DELETE''
     = Found (example_endpoint [''GET'', ''DELETE'']) [(''id'', ''42'')]"
proof -
  have "Option.is_none (insert_all trie_register empty_node example_routes) = False" by code_simp
  then have reg: "insert_all trie_register empty_node example_routes
      = Some (the (insert_all trie_register empty_node example_routes))"
    by (simp add: Option.is_none_def)
  have dec: "decode_all (segments ''/users/%34%32'') = Some [''users'', ''42'']" by code_simp
  have pats: "map (pats_of \<circ> fst) example_routes = [[Lit ''users'', Lit ''me''], [Lit ''users'', Cap ''id'']]"
    by code_simp
  show ?thesis
    using reg dec routing_refines_table [OF reg dec, of "''DELETE''" "example_endpoint [''GET'', ''DELETE'']" "[(''id'', ''42'')]"]
      pats by (auto simp: example_routes_def example_endpoint_def)
qed

text \<open>A list of routes is accepted at build time exactly when no two of its paths name one
  position differently and no two have the same pattern: every conflict is reported before
  serving, and nothing else is refused.\<close>

lemma registration_accepted_iff:
  "insert_all trie_register empty_node routes \<noteq> None \<longleftrightarrow>
     sorted_wrt (\<lambda>r r'. agree (pats_of (fst r)) (pats_of (fst r')) \<and> pats_of (fst r) \<noteq> pats_of (fst r')) routes"
  using trie.insert_all_iff [of routes] by (simp add: registrable_def [abs_def])

text \<open>A refused insertion, which has already mutated the trie on its way down, changes no
  route: every pattern still has the endpoint it had before.\<close>

lemma refused_insert_changes_nothing:
  assumes "\<not> is_ok (snd (trie_insert path e root))"
  shows "lookup_pat (fst (trie_insert path e root)) ps = lookup_pat root ps"
  using assms by (simp add: trie_insert_def insert_at_lookup)

text \<open>The method list a CORS preflight reflects is sorted, holds exactly the methods for which
  the same path would be routed, and is absent exactly when no method of the path is routed
  or refused with 405.\<close>

lemma methods_for_agrees:
  "case methods_for root path of
     Some ms \<Rightarrow> sorted ms \<and> (\<forall>m. (m \<in> set ms) = (\<exists>ep params. trie_find root path m = Found ep params))
                \<and> (\<forall>m. m \<notin> set ms \<longrightarrow> trie_find root path m = MethodMissing)
   | None \<Rightarrow> (\<forall>m. trie_find root path m = Malformed \<or> trie_find root path m = NotFound)"
proof (cases "decode_all (segments path)")
  case None
  then show ?thesis by (simp add: methods_for_decode trie_find_decode)
next
  case (Some ds)
  obtain r ps where rp: "find_node root ds [] = (r, ps)" by (cases "find_node root ds []")
  show ?thesis
    using find_node_spec [of "[]" root ds]
    by (cases r) (auto simp: methods_for_decode trie_find_decode Some rp find_in_def)
qed

text \<open>Percent-decoding a segment inverts percent-encoding for every UTF-8 text, and a decoded
  segment is always valid UTF-8 no longer than the raw one (or the raw one itself when it has no
  escape).\<close>

lemma decode_segment_roundtrip:
  "(utf8_valid plain \<longrightarrow> decode_segment (percent_encode plain) = Some plain) \<and>
   (decode_segment raw = Some seg \<longrightarrow> (seg = raw \<or> utf8_valid seg) \<and> length seg \<le> length raw)"
proof (intro conjI impI)
  assume "utf8_valid plain"
  then show "decode_segment (percent_encode plain) = Some plain"
    using percent_encode_escapes [of plain]
    by (auto simp: decode_segment_def decode_percent_encode from_utf8_def)
next
  assume "decode_segment raw = Some seg"
  then show "seg = raw \<or> utf8_valid seg" "length seg \<le> length raw"
    by (auto simp: decode_segment_def from_utf8_def decode_bytes_length split: if_splits option.splits)
qed

end
