(* ===== verification/JC_RouteTwin.thy ===== *)
theory JC_RouteTwin
  imports JC_Router
begin

text \<open>
  The design validator's twin of the router, \<open>router_param_conflict\<close> (JC0542) of
  \<open>jerrycan/src/platform/questions.rs\<close>. It walks a structure-only trie over the resolved
  route paths of a design, first the design's endpoints and then the implicit member routes, and
  reports the first conflict that would abort \<open>App::build\<close>.

  The two route tables (\<open>genroute::route_map\<close> and \<open>genroute::implicit_member_routes\<close> of the
  normalised design) are arguments. A conflict carries the values its message interpolates; the
  fixed prose of the message and of the hint is left out.

  The twin is a second implementation of the interface \<open>route_table\<close>, in which an entry is
  the raw path and a path may be registered again under the same spelling. The equivalence with
  the runtime trie follows from the interface.
\<close>

section \<open>The walk\<close>

datatype twin =
  Twin (tw_statics: "str \<Rightarrow> twin option") (tw_param: "(str \<times> str \<times> twin) option") (tw_route: "str option")

definition empty_twin :: twin where
  "empty_twin = Twin (\<lambda>_. None) None None"

datatype design_conflict =
    ReservedMemberPath str
  | ParamNames str str str str
  | TwoSpellings str str

definition conflict_code :: "design_conflict \<Rightarrow> str" where
  "conflict_code c = ''JC0542''"

fun twin_at :: "str \<Rightarrow> str list \<Rightarrow> twin \<Rightarrow> twin \<times> design_conflict option" where
  "twin_at path [] nd =
     (case tw_route nd of
        Some first_route \<Rightarrow>
          (nd, if first_route \<noteq> path then Some (TwoSpellings first_route path) else None)
      | None \<Rightarrow> (Twin (tw_statics nd) (tw_param nd) (Some path), None))"
| "twin_at path (seg # segs) nd =
     (case param_name seg of
        Some name \<Rightarrow>
          (let (existing, first_route, child) =
                 (case tw_param nd of None \<Rightarrow> (name, path, empty_twin) | Some p \<Rightarrow> p) in
           if existing \<noteq> name then
             (Twin (tw_statics nd) (Some (existing, first_route, child)) (tw_route nd),
              Some (ParamNames first_route path existing name))
           else
             (let (child', r) = twin_at path segs child in
              (Twin (tw_statics nd) (Some (existing, first_route, child')) (tw_route nd), r)))
      | None \<Rightarrow>
          (let child = (case tw_statics nd seg of None \<Rightarrow> empty_twin | Some c \<Rightarrow> c);
               (child', r) = twin_at path segs child in
           (Twin ((tw_statics nd)(seg \<mapsto> child')) (tw_param nd) (tw_route nd), r)))"

fun twin_walk :: "str list \<Rightarrow> twin \<Rightarrow> design_conflict option" where
  "twin_walk [] root = None"
| "twin_walk (path # paths) root =
     (case twin_at path (segments path) root of
        (_, Some dc) \<Rightarrow> Some dc
      | (root', None) \<Rightarrow> twin_walk paths root')"

definition router_param_conflict :: "str list \<Rightarrow> str list \<Rightarrow> design_conflict option" where
  "router_param_conflict design_routes member_routes =
     (case List.find (\<lambda>mr. \<exists>dr \<in> set design_routes. segments dr = segments mr) member_routes of
        Some taken \<Rightarrow> Some (ReservedMemberPath taken)
      | None \<Rightarrow> twin_walk (design_routes @ member_routes) empty_twin)"

section \<open>The twin is a route table\<close>

text \<open>Forgetting which route set a parameter first, a twin is a trie whose entries are raw paths.\<close>

primrec erase :: "twin \<Rightarrow> str node" where
  "erase (Twin st pa ro) =
     Node (map_option erase \<circ> st)
          (map_option (\<lambda>(n, f, c). (n, c)) (map_option (map_prod id (map_prod id erase)) pa)) ro"

lemma erase_simps [simp]:
  "statics (erase t) s = map_option erase (tw_statics t s)"
  "param (erase t) = map_option (\<lambda>(n, f, c). (n, erase c)) (tw_param t)"
  "node_endpoint (erase t) = tw_route t"
  by (cases t; simp add: option.map_comp comp_def case_prod_unfold)+

lemma erase_empty [simp]: "erase empty_twin = empty_node"
  by (simp add: empty_twin_def empty_node_def comp_def)

lemma empty_twin_simps [simp]:
  "tw_statics empty_twin = (\<lambda>_. None)" "tw_param empty_twin = None" "tw_route empty_twin = None"
  by (simp_all add: empty_twin_def)

lemma twin_at_ok_iff:
  "snd (twin_at path segs t) = None \<longleftrightarrow>
     (\<forall>e. lookup_pat (erase t) (map pat_of segs) = Some e \<longrightarrow> e = path) \<and>
     fits (erase t) (map pat_of segs)"
proof (induction segs arbitrary: t)
  case Nil
  then show ?case by (auto split: option.splits)
next
  case (Cons seg segs)
  then show ?case
    by (auto simp: pat_of_def case_prod_unfold Let_def split: option.splits if_splits)
qed

lemma twin_at_lookup:
  "snd (twin_at path segs t) = None \<Longrightarrow>
   lookup_pat (erase (fst (twin_at path segs t))) qs =
     (if qs = map pat_of segs then Some path else lookup_pat (erase t) qs)"
proof (induction segs arbitrary: t qs)
  case Nil
  show ?case
  proof (cases qs)
    case (Cons q qs')
    then show ?thesis using Nil by (cases q) (auto split: option.splits if_splits)
  qed (use Nil in \<open>auto split: option.splits if_splits\<close>)
next
  case (Cons seg segs)
  show ?case
  proof (cases qs)
    case (Cons q qs')
    then show ?thesis
      using Cons.IH Cons.prems
      by (cases q) (auto simp: pat_of_def case_prod_unfold Let_def split: option.splits if_splits)
  qed (use Cons.prems in \<open>auto simp: case_prod_unfold Let_def split: option.splits if_splits\<close>)
qed

lemma twin_at_slot:
  "snd (twin_at path segs t) = None \<Longrightarrow>
     slot (erase (fst (twin_at path segs t))) pre = Some m \<longleftrightarrow>
     slot (erase t) pre = Some m \<or> (pre, m) \<in> set (caps (map pat_of segs))"
proof (induction segs arbitrary: t pre)
  case Nil
  then show ?case
    by (cases pre rule: list.exhaust; cases "hd pre") (auto split: option.splits if_splits)
next
  case (Cons seg segs)
  show ?case
  proof (cases pre)
    case Nil
    with Cons.prems show ?thesis
      by (auto simp: pat_of_def case_prod_unfold Let_def in_caps_simps
               simp del: caps_from.simps(2-3) split: option.splits if_splits)
  next
    case (Cons q pre')
    with Cons.prems Cons.IH show ?thesis
      by (cases q) (auto simp: pat_of_def case_prod_unfold Let_def in_caps_simps
               simp del: caps_from.simps(2-3) split: option.splits if_splits)
  qed
qed

definition twin_register :: "str \<Rightarrow> twin \<Rightarrow> twin option" where
  "twin_register path t =
     (case twin_at path (segments path) t of (t', None) \<Rightarrow> Some t' | (_, Some _) \<Rightarrow> None)"

lemma twin_register_Some:
  "twin_register path t = Some t' \<longleftrightarrow>
     snd (twin_at path (segments path) t) = None \<and> t' = fst (twin_at path (segments path) t)"
  by (auto simp: twin_register_def split: prod.splits option.splits)

interpretation twin: route_table empty_twin twin_register "lookup_pat \<circ> erase" "slot \<circ> erase" id id "(=)"
proof
  show "(twin_register path t \<noteq> None) =
     ((\<forall>e'. (lookup_pat \<circ> erase) t (pats_of (id path)) = Some e' \<longrightarrow> e' = id path) \<and>
      (\<forall>(pre, n)\<in>set (caps (pats_of (id path))). \<forall>m. (slot \<circ> erase) t pre = Some m \<longrightarrow> m = n))"
    for path t
  proof -
    have "twin_register path t \<noteq> None \<longleftrightarrow> snd (twin_at path (segments path) t) = None"
      by (auto simp: twin_register_def split: prod.splits option.splits)
    then show ?thesis by (simp add: twin_at_ok_iff pats_of_def fits_iff)
  qed
qed (auto simp: twin_register_Some twin_at_lookup twin_at_slot pats_of_def)

lemma twin_walk_None: "twin_walk paths t = None \<longleftrightarrow> insert_all twin_register t paths \<noteq> None"
  by (induction paths t rule: twin_walk.induct) (auto simp: twin_register_def split: prod.splits option.splits)

section \<open>Properties\<close>

lemma caps_prefix_name: "(pre, n) \<in> set (caps ps) \<Longrightarrow> (pre, n') \<in> set (caps ps) \<Longrightarrow> n = n'"
proof (induction ps arbitrary: pre)
  case (Cons p ps)
  then show ?case by (cases p) (auto simp: in_caps_simps simp del: caps_from.simps(2-3))
qed simp

lemma agree_refl: "agree ps ps"
  by (auto simp: agree_iff intro: caps_prefix_name)

lemma agree_sym: "agree ps qs \<Longrightarrow> agree qs ps"
  by (auto simp: agree_iff)

lemma twin_router_agree:
  assumes "distinct (map fst routes)" and "set (map fst routes) = set paths"
  shows "twin_walk paths empty_twin = None \<longleftrightarrow> insert_all trie_register empty_node routes \<noteq> None"
proof -
  let ?R = "\<lambda>p q. agree (pats_of p) (pats_of q) \<and> (pats_of p = pats_of q \<longrightarrow> p = q)"
  let ?S = "\<lambda>p q. agree (pats_of p) (pats_of q) \<and> pats_of p \<noteq> pats_of q"
  have symR: "symp ?R" and symS: "symp ?S" by (auto intro!: sympI agree_sym)
  have "twin_walk paths empty_twin = None \<longleftrightarrow> sorted_wrt ?R paths"
    unfolding twin_walk_None twin.insert_all_iff by (simp add: registrable_def [abs_def])
  also have "\<dots> \<longleftrightarrow> (\<forall>p \<in> set paths. \<forall>q \<in> set paths. ?R p q)"
    by (rule sorted_wrt_symp [OF symR]) (simp add: agree_refl)
  also have "\<dots> \<longleftrightarrow> (\<forall>p \<in> set paths. \<forall>q \<in> set paths. p \<noteq> q \<longrightarrow> ?S p q)"
    by (metis agree_refl)
  also have "\<dots> \<longleftrightarrow> sorted_wrt ?S (map fst routes)"
    unfolding assms(2) [symmetric] by (rule sorted_wrt_symp_distinct [OF symS assms(1), symmetric])
  also have "\<dots> \<longleftrightarrow> insert_all trie_register empty_node routes \<noteq> None"
    unfolding trie.insert_all_iff by (simp add: sorted_wrt_map registrable_def [abs_def])
  finally show ?thesis .
qed

text \<open>C2: The design validator's walk reports no conflict exactly when the runtime router accepts
  the same paths, however the registrations are grouped (one per distinct spelling), ordered and
  whatever endpoints they carry: it neither refuses a design the router accepts nor accepts
  one on which the application aborts at start-up.\<close>

theorem twin_agrees_with_router:
  assumes "distinct (map fst routes)" and "set (map fst routes) = set paths"
  shows "twin_walk paths empty_twin = None \<longleftrightarrow> insert_all trie_register empty_node routes \<noteq> None"
  using assms by (rule twin_router_agree)

theorem twin_agrees_with_router_witness:
  "twin_walk [''/t/{id}'', ''/t'', ''/t/{id}''] empty_twin = None
   \<and> insert_all trie_register empty_node [(''/t/{id}'', 1::nat), (''/t'', 2)] \<noteq> None"
proof -
  have "twin_walk [''/t/{id}'', ''/t'', ''/t/{id}''] empty_twin = None" by code_simp
  then show ?thesis
    using twin_agrees_with_router
      [of "[(''/t/{id}'', 1::nat), (''/t'', 2)]" "[''/t/{id}'', ''/t'', ''/t/{id}'']"]
    by (simp add: insert_commute)
qed

end
