(* ===== verification/JC_Dep.thy ===== *)
theory JC_Dep
  imports JC_Error
begin

text \<open>
  Dependency injection, \<open>jerrycan-core/src/dep.rs\<close>.

  A \<open>TypeId\<close> is the type's name. An \<open>AnyArc\<close> is a value with its dynamic type. A
  factory is what the macro \<open>impl_dep_factory\<close> makes of an async function: the extractors of
  its parameters, run in order, and the function applied to what they produced; a user function
  is a HOL function from the extracted arguments to a result. An extractor is \<open>Dep<T>\<close>, an HTTP
  extractor (a function on the request part \<open>'r\<close> of the context, refused in a task context), or
  \<open>Option\<close> and \<open>Result\<close> around an extractor (\<open>extract.rs\<close>).

  The request context holds the resolver (environment, overrides, cache, depth), the task flag,
  the request part and a ghost field: the list of the factories that have produced a value, which
  the source does not have and no definition reads.

  \<open>resolve\<close> recurses through user-supplied factories. The depth counter of the source bounds the
  recursion at 32 nested factories; the fuel of the model is proved to be enough at 33.
\<close>

section \<open>Environments\<close>

type_synonym type_id = str

record 'v any_arc =
  any_type :: type_id
  any_val :: 'v

datatype 'v arg_value =
    AVal 'v
  | AOpt "'v arg_value option"
  | ARes "(error, 'v arg_value) result"

datatype ('r, 'v) arg =
    ArgDep type_id
  | ArgHttp "'r \<Rightarrow> (error, 'v) result \<times> 'r"
  | ArgOpt "('r, 'v) arg"
  | ArgRes "('r, 'v) arg"

record ('r, 'v) factory =
  f_type :: type_id
  f_args :: "('r, 'v) arg list"
  f_run :: "'v arg_value list \<Rightarrow> (error, 'v) result"

record ('r, 'v) dep_env =
  singletons :: "type_id \<Rightarrow> 'v any_arc option"
  factories :: "type_id \<Rightarrow> ('r, 'v) factory option"

definition env_default :: "('r, 'v) dep_env" where
  "env_default = \<lparr>singletons = (\<lambda>_. None), factories = (\<lambda>_. None)\<rparr>"

definition insert_value :: "type_id \<Rightarrow> 'v \<Rightarrow> ('r, 'v) dep_env \<Rightarrow> ('r, 'v) dep_env" where
  "insert_value tid v env =
     env\<lparr>singletons := (singletons env)(tid \<mapsto> \<lparr>any_type = tid, any_val = v\<rparr>),
         factories := (factories env)(tid := None)\<rparr>"

text \<open>\<open>insert_factory\<close> keys the factory by the type it produces.\<close>

definition insert_factory :: "('r, 'v) factory \<Rightarrow> ('r, 'v) dep_env \<Rightarrow> ('r, 'v) dep_env" where
  "insert_factory f env =
     env\<lparr>factories := (factories env)(f_type f \<mapsto> f),
         singletons := (singletons env)(f_type f := None)\<rparr>"

text \<open>
  The two loops of \<open>merge_from\<close> run over hash maps in an unspecified order; every iteration
  touches its own key, so each loop is one pointwise update.
\<close>

definition merge_from :: "('r, 'v) dep_env \<Rightarrow> ('r, 'v) dep_env \<Rightarrow> ('r, 'v) dep_env" where
  "merge_from self inner =
     (let s1 = (\<lambda>k. case singletons inner k of Some v \<Rightarrow> Some v | None \<Rightarrow> singletons self k);
          f1 = (\<lambda>k. case singletons inner k of Some _ \<Rightarrow> None | None \<Rightarrow> factories self k);
          f2 = (\<lambda>k. case factories inner k of Some f \<Rightarrow> Some f | None \<Rightarrow> f1 k);
          s2 = (\<lambda>k. case factories inner k of Some _ \<Rightarrow> None | None \<Rightarrow> s1 k)
      in self\<lparr>singletons := s2, factories := f2\<rparr>)"

section \<open>Resolution\<close>

record ('r, 'v) request_ctx =
  env :: "('r, 'v) dep_env"
  overrides :: "type_id \<Rightarrow> 'v any_arc option"
  cache :: "type_id \<Rightarrow> 'v any_arc option"
  depth :: nat
  is_task :: bool
  request :: 'r
  produced_log :: "type_id list"

definition resolver_new ::
  "('r, 'v) dep_env \<Rightarrow> (type_id \<Rightarrow> 'v any_arc option) \<Rightarrow> bool \<Rightarrow> 'r \<Rightarrow> ('r, 'v) request_ctx" where
  "resolver_new e ov task req =
     \<lparr>env = e, overrides = ov, cache = (\<lambda>_. None), depth = 0, is_task = task, request = req,
      produced_log = []\<rparr>"

definition MAX_RESOLVE_DEPTH :: nat where "MAX_RESOLVE_DEPTH = 32"

definition downcast :: "type_id \<Rightarrow> 'v any_arc \<Rightarrow> (error, 'v) result" where
  "downcast tid v =
     (if any_type v = tid then Ok (any_val v)
      else Err (internal ''dependency type mismatch (provider/consumer disagree)''))"

text \<open>An HTTP extractor: the task check comes first in every one of them.\<close>

definition extract_http ::
  "('r \<Rightarrow> (error, 'v) result \<times> 'r) \<Rightarrow> ('r, 'v) request_ctx \<Rightarrow> (error, 'v) result \<times> ('r, 'v) request_ctx" where
  "extract_http f ctx =
     (if is_task ctx then (Err task_context_error, ctx)
      else (case f (request ctx) of (r, req') \<Rightarrow> (r, ctx\<lparr>request := req'\<rparr>)))"

function (sequential)
  resolve :: "nat \<Rightarrow> ('r, 'v) request_ctx \<Rightarrow> type_id \<Rightarrow> ((error, 'v) result \<times> ('r, 'v) request_ctx) option"
  and extract_arg :: "nat \<Rightarrow> ('r, 'v) request_ctx \<Rightarrow> ('r, 'v) arg \<Rightarrow>
        ((error, 'v arg_value) result \<times> ('r, 'v) request_ctx) option"
  and extract_args :: "nat \<Rightarrow> ('r, 'v) request_ctx \<Rightarrow> ('r, 'v) arg list \<Rightarrow>
        ((error, 'v arg_value list) result \<times> ('r, 'v) request_ctx) option" where
  "resolve 0 ctx tid = None"
| "resolve (Suc fuel) ctx tid =
     (case cache ctx tid of Some v \<Rightarrow> Some (downcast tid v, ctx) | None \<Rightarrow>
      (case overrides ctx tid of Some v \<Rightarrow> Some (downcast tid v, ctx\<lparr>cache := (cache ctx)(tid \<mapsto> v)\<rparr>) | None \<Rightarrow>
       (case singletons (env ctx) tid of Some v \<Rightarrow> Some (downcast tid v, ctx\<lparr>cache := (cache ctx)(tid \<mapsto> v)\<rparr>) | None \<Rightarrow>
        (case factories (env ctx) tid of None \<Rightarrow> Some (Err (missing_dependency tid), ctx) | Some f \<Rightarrow>
          (let ctx1 = ctx\<lparr>depth := depth ctx + 1\<rparr> in
           if depth ctx1 > MAX_RESOLVE_DEPTH then
             Some (Err dependency_cycle, ctx1\<lparr>depth := depth ctx1 - 1\<rparr>)
           else
             (case extract_args fuel ctx1 (f_args f) of None \<Rightarrow> None
              | Some (Err e, ctx2) \<Rightarrow> Some (Err e, ctx2\<lparr>depth := depth ctx2 - 1\<rparr>)
              | Some (Ok vs, ctx2) \<Rightarrow>
                  (let ctx3 = ctx2\<lparr>depth := depth ctx2 - 1\<rparr> in
                   case f_run f vs of
                     Err e \<Rightarrow> Some (Err e, ctx3)
                   | Ok x \<Rightarrow>
                       (let v = \<lparr>any_type = f_type f, any_val = x\<rparr> in
                        Some (downcast tid v,
                              ctx3\<lparr>cache := (cache ctx3)(tid \<mapsto> v),
                                   produced_log := produced_log ctx3 @ [tid]\<rparr>)))))))))"
| "extract_arg fuel ctx (ArgDep tid) =
     (case resolve fuel ctx tid of None \<Rightarrow> None
      | Some (r, ctx') \<Rightarrow> Some (map_sum (\<lambda>e. e) AVal r, ctx'))"
| "extract_arg fuel ctx (ArgHttp f) =
     (case extract_http f ctx of (r, ctx') \<Rightarrow> Some (map_sum (\<lambda>e. e) AVal r, ctx'))"
| "extract_arg fuel ctx (ArgOpt a) =
     (case extract_arg fuel ctx a of None \<Rightarrow> None
      | Some (r, ctx') \<Rightarrow> Some (Ok (AOpt (result_ok r)), ctx'))"
| "extract_arg fuel ctx (ArgRes a) =
     (case extract_arg fuel ctx a of None \<Rightarrow> None
      | Some (r, ctx') \<Rightarrow> Some (Ok (ARes r), ctx'))"
| "extract_args fuel ctx [] = Some (Ok [], ctx)"
| "extract_args fuel ctx (a # as) =
     (case extract_arg fuel ctx a of None \<Rightarrow> None
      | Some (Err e, ctx') \<Rightarrow> Some (Err e, ctx')
      | Some (Ok v, ctx') \<Rightarrow>
          (case extract_args fuel ctx' as of None \<Rightarrow> None
           | Some (r, ctx'') \<Rightarrow> Some (map_sum (\<lambda>e. e) (\<lambda>vs. v # vs) r, ctx'')))"
  by pat_completeness auto
termination
  by (relation "measures
      [\<lambda>x. case x of Inl (fuel, _, _) \<Rightarrow> fuel | Inr (Inl (fuel, _, _)) \<Rightarrow> fuel | Inr (Inr (fuel, _, _)) \<Rightarrow> fuel,
       \<lambda>x. case x of Inl _ \<Rightarrow> 0 | Inr (Inl (_, _, a)) \<Rightarrow> Suc (size a) | Inr (Inr (_, _, as)) \<Rightarrow> Suc (size_list size as)]")
     auto

section \<open>Task contexts\<close>

text \<open>
  \<open>TaskContext::new\<close> wraps a resolver in a synthetic request; \<open>placeholder\<close> is the head and empty
  body it builds. \<open>fork\<close> shares environment and overrides and starts with an empty cache.
\<close>

definition task_context_new ::
  "'r \<Rightarrow> ('r, 'v) dep_env \<Rightarrow> (type_id \<Rightarrow> 'v any_arc option) \<Rightarrow> ('r, 'v) request_ctx" where
  "task_context_new placeholder e ov = (resolver_new e ov False placeholder)\<lparr>is_task := True\<rparr>"

definition task_resolve ::
  "nat \<Rightarrow> ('r, 'v) request_ctx \<Rightarrow> type_id \<Rightarrow> ((error, 'v) result \<times> ('r, 'v) request_ctx) option" where
  "task_resolve fuel ctx tid = resolve fuel ctx tid"

definition fork :: "'r \<Rightarrow> ('r, 'v) request_ctx \<Rightarrow> ('r, 'v) request_ctx" where
  "fork placeholder ctx = task_context_new placeholder (env ctx) (overrides ctx)"

section \<open>Disjoint, typed environments\<close>

definition env_ok :: "('r, 'v) dep_env \<Rightarrow> bool" where
  "env_ok e \<longleftrightarrow>
     (\<forall>k. singletons e k = None \<or> factories e k = None) \<and>
     (\<forall>k a. singletons e k = Some a \<longrightarrow> any_type a = k) \<and>
     (\<forall>k f. factories e k = Some f \<longrightarrow> f_type f = k)"

text \<open>What an environment provides under a key, the contract \<open>merge_from\<close> is stated against.\<close>

datatype ('r, 'v) provider = PValue "'v any_arc" | PFactory "('r, 'v) factory"

definition provider_of :: "('r, 'v) dep_env \<Rightarrow> type_id \<Rightarrow> ('r, 'v) provider option" where
  "provider_of e k =
     (case singletons e k of Some v \<Rightarrow> Some (PValue v)
      | None \<Rightarrow> map_option PFactory (factories e k))"

lemma env_ok_default [intro]: "env_ok env_default"
  by (simp add: env_ok_def env_default_def)

lemma env_ok_insert_value: "env_ok e \<Longrightarrow> env_ok (insert_value tid v e)"
  by (simp add: env_ok_def insert_value_def)

lemma env_ok_insert_factory: "env_ok e \<Longrightarrow> env_ok (insert_factory f e)"
  by (simp add: env_ok_def insert_factory_def)

lemma env_ok_merge: "env_ok e \<Longrightarrow> env_ok i \<Longrightarrow> env_ok (merge_from e i)"
  unfolding env_ok_def merge_from_def Let_def
  by (auto split: option.splits)

lemma provider_insert_value:
  "provider_of (insert_value tid v e) = (provider_of e)(tid \<mapsto> PValue \<lparr>any_type = tid, any_val = v\<rparr>)"
  by (auto simp: provider_of_def insert_value_def fun_eq_iff split: option.splits)

lemma provider_insert_factory:
  "provider_of (insert_factory f e) = (provider_of e)(f_type f \<mapsto> PFactory f)"
  by (auto simp: provider_of_def insert_factory_def fun_eq_iff split: option.splits)

lemma provider_merge:
  assumes "env_ok i"
  shows "provider_of (merge_from e i) = provider_of e ++ provider_of i"
proof
  fix k
  from assms have "singletons i k = None \<or> factories i k = None" by (auto simp: env_ok_def)
  then show "provider_of (merge_from e i) k = (provider_of e ++ provider_of i) k"
    by (auto simp: provider_of_def merge_from_def map_add_def Let_def split: option.splits)
qed

section \<open>Resolution as a big-step relation\<close>

text \<open>
  The fuelled functions compute the following relation, which has one rule per return point of
  \<open>resolve\<close> and of the extractors. The invariants of resolution are proved by rule induction.
\<close>

inductive resolves :: "('r, 'v) request_ctx \<Rightarrow> type_id \<Rightarrow> (error, 'v) result \<Rightarrow> ('r, 'v) request_ctx \<Rightarrow> bool"
  and extracts :: "('r, 'v) request_ctx \<Rightarrow> ('r, 'v) arg \<Rightarrow> (error, 'v arg_value) result \<Rightarrow>
        ('r, 'v) request_ctx \<Rightarrow> bool"
  and extracts_all :: "('r, 'v) request_ctx \<Rightarrow> ('r, 'v) arg list \<Rightarrow> (error, 'v arg_value list) result \<Rightarrow>
        ('r, 'v) request_ctx \<Rightarrow> bool" where
  res_cached: "cache ctx tid = Some v \<Longrightarrow> resolves ctx tid (downcast tid v) ctx"
| res_given: "cache ctx tid = None \<Longrightarrow>
     overrides ctx tid = Some v \<or> overrides ctx tid = None \<and> singletons (env ctx) tid = Some v \<Longrightarrow>
     resolves ctx tid (downcast tid v) (ctx\<lparr>cache := (cache ctx)(tid \<mapsto> v)\<rparr>)"
| res_missing: "cache ctx tid = None \<Longrightarrow> overrides ctx tid = None \<Longrightarrow> singletons (env ctx) tid = None \<Longrightarrow>
     factories (env ctx) tid = None \<Longrightarrow> resolves ctx tid (Err (missing_dependency tid)) ctx"
| res_deep: "cache ctx tid = None \<Longrightarrow> overrides ctx tid = None \<Longrightarrow> singletons (env ctx) tid = None \<Longrightarrow>
     factories (env ctx) tid = Some f \<Longrightarrow> MAX_RESOLVE_DEPTH \<le> depth ctx \<Longrightarrow>
     resolves ctx tid (Err dependency_cycle) ctx"
| res_args: "cache ctx tid = None \<Longrightarrow> overrides ctx tid = None \<Longrightarrow> singletons (env ctx) tid = None \<Longrightarrow>
     factories (env ctx) tid = Some f \<Longrightarrow> depth ctx < MAX_RESOLVE_DEPTH \<Longrightarrow>
     extracts_all (ctx\<lparr>depth := depth ctx + 1\<rparr>) (f_args f) (Err e) ctx2 \<Longrightarrow>
     resolves ctx tid (Err e) (ctx2\<lparr>depth := depth ctx2 - 1\<rparr>)"
| res_fail: "cache ctx tid = None \<Longrightarrow> overrides ctx tid = None \<Longrightarrow> singletons (env ctx) tid = None \<Longrightarrow>
     factories (env ctx) tid = Some f \<Longrightarrow> depth ctx < MAX_RESOLVE_DEPTH \<Longrightarrow>
     extracts_all (ctx\<lparr>depth := depth ctx + 1\<rparr>) (f_args f) (Ok vs) ctx2 \<Longrightarrow> f_run f vs = Err e \<Longrightarrow>
     resolves ctx tid (Err e) (ctx2\<lparr>depth := depth ctx2 - 1\<rparr>)"
| res_made: "cache ctx tid = None \<Longrightarrow> overrides ctx tid = None \<Longrightarrow> singletons (env ctx) tid = None \<Longrightarrow>
     factories (env ctx) tid = Some f \<Longrightarrow> depth ctx < MAX_RESOLVE_DEPTH \<Longrightarrow>
     extracts_all (ctx\<lparr>depth := depth ctx + 1\<rparr>) (f_args f) (Ok vs) ctx2 \<Longrightarrow> f_run f vs = Ok x \<Longrightarrow>
     v = \<lparr>any_type = f_type f, any_val = x\<rparr> \<Longrightarrow>
     resolves ctx tid (downcast tid v)
       (ctx2\<lparr>depth := depth ctx2 - 1, cache := (cache ctx2)(tid \<mapsto> v),
             produced_log := produced_log ctx2 @ [tid]\<rparr>)"
| ext_dep: "resolves ctx tid r ctx' \<Longrightarrow> extracts ctx (ArgDep tid) (map_sum (\<lambda>e. e) AVal r) ctx'"
| ext_http: "extract_http f ctx = (r, ctx') \<Longrightarrow> extracts ctx (ArgHttp f) (map_sum (\<lambda>e. e) AVal r) ctx'"
| ext_opt: "extracts ctx a r ctx' \<Longrightarrow>
     extracts ctx (ArgOpt a) (Ok (AOpt (result_ok r))) ctx'"
| ext_res: "extracts ctx a r ctx' \<Longrightarrow> extracts ctx (ArgRes a) (Ok (ARes r)) ctx'"
| exts_nil: "extracts_all ctx [] (Ok []) ctx"
| exts_err: "extracts ctx a (Err e) ctx' \<Longrightarrow> extracts_all ctx (a # as) (Err e) ctx'"
| exts_ok: "extracts ctx a (Ok v) ctx' \<Longrightarrow> extracts_all ctx' as rs ctx'' \<Longrightarrow>
     extracts_all ctx (a # as) (map_sum (\<lambda>e. e) (\<lambda>vs. v # vs) rs) ctx''"

lemma computed_resolves:
  shows "resolve fuel ctx tid = Some (r, ctx') \<Longrightarrow> resolves ctx tid r ctx'"
    and "extract_arg fuel ctx a = Some (ra, ctx') \<Longrightarrow> extracts ctx a ra ctx'"
    and "extract_args fuel ctx as = Some (rs, ctx') \<Longrightarrow> extracts_all ctx as rs ctx'"
proof (induction fuel ctx tid and fuel ctx a and fuel ctx as
       arbitrary: r ctx' and ra ctx' and rs ctx'
       rule: resolve_extract_arg_extract_args.induct)
  case (2 fuel ctx tid)
  consider (c) v where "cache ctx tid = Some v"
    | (o) v where "cache ctx tid = None" "overrides ctx tid = Some v"
    | (s) v where "cache ctx tid = None" "overrides ctx tid = None" "singletons (env ctx) tid = Some v"
    | (n) "cache ctx tid = None" "overrides ctx tid = None" "singletons (env ctx) tid = None"
          "factories (env ctx) tid = None"
    | (f) f where "cache ctx tid = None" "overrides ctx tid = None" "singletons (env ctx) tid = None"
          "factories (env ctx) tid = Some f"
    by (metis not_Some_eq)
  then show ?case
  proof cases
    case (f f)
    show ?thesis
    proof (cases "depth ctx < MAX_RESOLVE_DEPTH")
      case False
      with 2(2) f have "r = Err dependency_cycle" "ctx' = ctx" by (auto simp: Let_def)
      with False f show ?thesis by (auto intro: res_deep)
    next
      case True
      then have nd: "\<not> depth (ctx\<lparr>depth := depth ctx + 1\<rparr>) > MAX_RESOLVE_DEPTH" by simp
      note IH = 2(1)[OF f refl nd]
      from 2(2) f True obtain rs ctx2
        where a: "extract_args fuel (ctx\<lparr>depth := depth ctx + 1\<rparr>) (f_args f) = Some (rs, ctx2)"
        by (auto simp: Let_def split: option.splits)
      note x = IH[OF a]
      show ?thesis
      proof (cases rs)
        case (Inl e)
        with 2(2) f True a have "r = Err e" "ctx' = ctx2\<lparr>depth := depth ctx2 - 1\<rparr>"
          by (auto simp: Let_def)
        with res_args[OF f True x[unfolded Inl]] show ?thesis by simp
      next
        case (Inr vs)
        show ?thesis
        proof (cases "f_run f vs")
          case (Inl e)
          with 2(2) f True a \<open>rs = Inr vs\<close> have "r = Err e" "ctx' = ctx2\<lparr>depth := depth ctx2 - 1\<rparr>"
            by (auto simp: Let_def)
          with res_fail[OF f True x[unfolded Inr] Inl] show ?thesis by simp
        next
          case Ok: (Inr y)
          let ?v = "\<lparr>any_type = f_type f, any_val = y\<rparr>"
          from 2(2) f True a Inr Ok have "r = downcast tid ?v"
            "ctx' = ctx2\<lparr>depth := depth ctx2 - 1, cache := (cache ctx2)(tid \<mapsto> ?v),
                produced_log := produced_log ctx2 @ [tid]\<rparr>"
            by (auto simp: Let_def)
          with res_made[OF f True x[unfolded Inr] Ok refl] show ?thesis by simp
        qed
      qed
    qed
  qed (use 2(2) in \<open>auto intro: res_cached res_given res_missing\<close>)
next
  case (3 fuel ctx tid)
  then show ?case by (auto intro: ext_dep split: option.splits)
next
  case (4 fuel ctx f)
  then show ?case by (auto intro: ext_http split: prod.splits)
next
  case (5 fuel ctx a)
  then show ?case by (auto intro: ext_opt split: option.splits)
next
  case (6 fuel ctx a)
  then show ?case by (auto intro: ext_res split: option.splits)
next
  case (8 fuel ctx a as)
  show ?case
  proof (cases "extract_arg fuel ctx a")
    case (Some p)
    obtain ra c1 where p: "p = (ra, c1)" by (cases p)
    show ?thesis
    proof (cases ra)
      case (Inl e)
      with 8(1)[of ra c1] 8(3) Some p show ?thesis by (auto intro: exts_err)
    next
      case (Inr v)
      with 8(3) Some p obtain rt where t: "extract_args fuel c1 as = Some (rt, ctx')"
        and rs: "rs = map_sum (\<lambda>e. e) (\<lambda>vs. v # vs) rt"
        by (auto split: option.splits)
      have "extracts ctx a (Ok v) c1" using 8(1) Some p Inr by simp
      moreover have "extracts_all c1 as rt ctx'" using 8(2)[OF Some p[symmetric] Inr t] .
      ultimately show ?thesis unfolding rs by (rule exts_ok)
    qed
  qed (use 8(3) in simp)
qed (auto intro: exts_nil)

section \<open>What resolution keeps\<close>

definition same_frame :: "('r, 'v) request_ctx \<Rightarrow> ('r, 'v) request_ctx \<Rightarrow> bool" where
  "same_frame ctx ctx' \<longleftrightarrow>
     env ctx' = env ctx \<and> overrides ctx' = overrides ctx \<and> depth ctx' = depth ctx \<and>
     is_task ctx' = is_task ctx \<and> dom (cache ctx) \<subseteq> dom (cache ctx')"

lemma resolves_frame:
  shows "resolves ctx tid r ctx' \<Longrightarrow> same_frame ctx ctx'"
    and "extracts ctx a ra ctx' \<Longrightarrow> same_frame ctx ctx'"
    and "extracts_all ctx as rs ctx' \<Longrightarrow> same_frame ctx ctx'"
  by (induction rule: resolves_extracts_extracts_all.inducts)
     (auto simp: same_frame_def extract_http_def split: if_splits prod.splits)

lemma resolve_total:
  shows "depth ctx + fuel \<ge> Suc MAX_RESOLVE_DEPTH \<Longrightarrow> depth ctx \<le> MAX_RESOLVE_DEPTH \<Longrightarrow>
           \<exists>p. resolve fuel ctx tid = Some p"
    and "depth ctx + fuel \<ge> Suc MAX_RESOLVE_DEPTH \<Longrightarrow> depth ctx \<le> MAX_RESOLVE_DEPTH \<Longrightarrow>
           \<exists>p. extract_arg fuel ctx a = Some p"
    and "depth ctx + fuel \<ge> Suc MAX_RESOLVE_DEPTH \<Longrightarrow> depth ctx \<le> MAX_RESOLVE_DEPTH \<Longrightarrow>
           \<exists>p. extract_args fuel ctx as = Some p"
proof (induction fuel ctx tid and fuel ctx a and fuel ctx as
       rule: resolve_extract_arg_extract_args.induct)
  case (2 fuel ctx tid)
  show ?case
  proof (cases "\<exists>f. cache ctx tid = None \<and> overrides ctx tid = None \<and>
      singletons (env ctx) tid = None \<and> factories (env ctx) tid = Some f \<and>
      \<not> depth (ctx\<lparr>depth := depth ctx + 1\<rparr>) > MAX_RESOLVE_DEPTH")
    case True
    then obtain f where f: "cache ctx tid = None" "overrides ctx tid = None"
      "singletons (env ctx) tid = None" "factories (env ctx) tid = Some f"
      and nd: "\<not> depth (ctx\<lparr>depth := depth ctx + 1\<rparr>) > MAX_RESOLVE_DEPTH" by blast
    obtain rs ctx2 where "extract_args fuel (ctx\<lparr>depth := depth ctx + 1\<rparr>) (f_args f) = Some (rs, ctx2)"
      using 2(1)[OF f refl nd] 2(2) nd by auto
    with f nd show ?thesis by (cases rs) (auto simp: Let_def split: sum.splits)
  qed (auto simp: Let_def split: option.splits)
next
  case (8 fuel ctx a as)
  obtain ra c1 where a: "extract_arg fuel ctx a = Some (ra, c1)" using 8 by fastforce
  from resolves_frame(2)[OF computed_resolves(2)[OF a]] have d: "depth c1 = depth ctx"
    by (simp add: same_frame_def)
  show ?case
  proof (cases ra)
    case (Inr v)
    from 8(2)[OF a refl Inr] 8(3,4) d obtain p where "extract_args fuel c1 as = Some p" by auto
    with a Inr show ?thesis by (cases p) simp
  qed (simp add: a)
qed (auto split: option.splits prod.splits)

lemma depth_fresh: "depth (resolver_new e ov t req) = 0" "depth (task_context_new ph e ov) = 0"
  by (simp_all add: resolver_new_def task_context_new_def)

lemma fresh_total:
  assumes "depth ctx = 0"
  shows "\<exists>r c. resolve 33 ctx tid = Some (r, c)" and "\<exists>r c. extract_args 33 ctx as = Some (r, c)"
  using resolve_total(1)[of ctx 33 tid] resolve_total(3)[of ctx 33 as] assms
  by (simp_all add: MAX_RESOLVE_DEPTH_def)

text \<open>
  Cyclic types never resolve. \<open>dead_end C\<close>: every type of \<open>C\<close> is provided by a factory alone, one
  of whose \<open>Dep\<close> parameters is again in \<open>C\<close>. Where parameters are plain (no \<open>Option\<close> or
  \<open>Result\<close> swallows the error) resolving a type of such a set fails at the depth limit.
\<close>

fun plain_arg :: "('r, 'v) arg \<Rightarrow> bool" where
  "plain_arg (ArgDep _) = True"
| "plain_arg (ArgHttp _) = True"
| "plain_arg (ArgOpt _) = False"
| "plain_arg (ArgRes _) = False"

definition plain_env :: "('r, 'v) dep_env \<Rightarrow> bool" where
  "plain_env e \<longleftrightarrow> (\<forall>k f. factories e k = Some f \<longrightarrow> list_all plain_arg (f_args f))"

definition made_only :: "('r, 'v) request_ctx \<Rightarrow> type_id \<Rightarrow> ('r, 'v) factory \<Rightarrow> bool" where
  "made_only ctx t f \<longleftrightarrow>
     overrides ctx t = None \<and> singletons (env ctx) t = None \<and> factories (env ctx) t = Some f"

definition dead_end :: "('r, 'v) request_ctx \<Rightarrow> type_id set \<Rightarrow> bool" where
  "dead_end ctx C \<longleftrightarrow>
     (\<forall>t \<in> C. cache ctx t = None \<and> (\<exists>f. made_only ctx t f \<and> (\<exists>u \<in> C. ArgDep u \<in> set (f_args f))))"

lemma dead_end_frame:
  "dead_end ctx C \<Longrightarrow> same_frame ctx ctx' \<Longrightarrow> \<forall>t \<in> C. cache ctx' t = None \<Longrightarrow> dead_end ctx' C"
  by (auto simp: dead_end_def same_frame_def made_only_def)

lemma dead_end_depth [simp]: "dead_end (ctx\<lparr>depth := n\<rparr>) C = dead_end ctx C"
  by (simp add: dead_end_def made_only_def)

lemma dead_end_resolves:
  shows "resolves ctx tid r ctx' \<Longrightarrow> plain_env (env ctx) \<Longrightarrow> dead_end ctx C \<Longrightarrow>
           dead_end ctx' C \<and> (tid \<in> C \<longrightarrow> \<not> is_ok r)"
    and "extracts ctx a ra ctx' \<Longrightarrow> plain_env (env ctx) \<Longrightarrow> dead_end ctx C \<Longrightarrow>
           dead_end ctx' C \<and> ((\<exists>u \<in> C. a = ArgDep u) \<longrightarrow> \<not> is_ok ra)"
    and "extracts_all ctx as rs ctx' \<Longrightarrow> plain_env (env ctx) \<Longrightarrow> dead_end ctx C \<Longrightarrow>
           dead_end ctx' C \<and> ((\<exists>u \<in> C. ArgDep u \<in> set as) \<longrightarrow> \<not> is_ok rs)"
proof (induction rule: resolves_extracts_extracts_all.inducts)
  case (res_given ctx tid v)
  have "tid \<notin> C" using res_given by (auto simp: dead_end_def made_only_def)
  then show ?case using res_given by (auto simp: dead_end_def made_only_def)
next
  case (res_made ctx tid f vs ctx2 x v)
  then have ih: "dead_end ctx2 C" "\<not> (\<exists>u \<in> C. ArgDep u \<in> set (f_args f))" by auto
  have "tid \<notin> C" using res_made(4) res_made.prems(2) ih(2) by (auto simp: dead_end_def made_only_def)
  then show ?case using ih(1) by (auto simp: dead_end_def made_only_def)
next
  case (res_fail ctx tid f vs ctx2 e)
  then show ?case by simp
next
  case (ext_http f ctx r ctx')
  then show ?case
    by (auto simp: extract_http_def dead_end_def made_only_def split: if_splits prod.splits)
next
  case (exts_ok ctx a v ctx' as rs ctx'')
  have e: "env ctx' = env ctx" using resolves_frame(2)[OF exts_ok(1)] by (simp add: same_frame_def)
  show ?case using exts_ok.IH exts_ok.prems e
    by (cases rs) auto
qed (auto simp: dead_end_def made_only_def is_ok_def split: sum.splits)

text \<open>
  \<open>needs ctx\<close>: the \<open>Dep\<close> parameters of the factory of a type that nothing else provides and that
  the cache does not hold. What a resolution adds to the cache is reachable over \<open>needs\<close>.
\<close>

definition needs :: "('r, 'v) request_ctx \<Rightarrow> type_id set \<Rightarrow> (type_id \<times> type_id) set" where
  "needs ctx K = {(t, u). t \<notin> K \<and> (\<exists>f. made_only ctx t f \<and> ArgDep u \<in> set (f_args f))}"

lemma needs_frame: "same_frame ctx ctx' \<Longrightarrow> needs ctx' K = needs ctx K"
  by (simp add: needs_def same_frame_def made_only_def)

lemma needs_depth [simp]: "needs (ctx\<lparr>depth := n\<rparr>) K = needs ctx K"
  by (simp add: needs_def made_only_def)

lemma needs_step:
  "cache ctx tid = None \<Longrightarrow> overrides ctx tid = None \<Longrightarrow> singletons (env ctx) tid = None \<Longrightarrow>
   factories (env ctx) tid = Some f \<Longrightarrow> K \<subseteq> dom (cache ctx) \<Longrightarrow> ArgDep u \<in> set (f_args f) \<Longrightarrow>
   (u, t) \<in> (needs ctx K)\<^sup>* \<Longrightarrow> (tid, t) \<in> (needs ctx K)\<^sup>+"
  by (rule rtrancl_into_trancl2 [of _ u]) (auto simp: needs_def made_only_def)

lemma resolves_reach:
  shows "resolves ctx tid r ctx' \<Longrightarrow> plain_env (env ctx) \<Longrightarrow> K \<subseteq> dom (cache ctx) \<Longrightarrow>
           t \<in> dom (cache ctx') \<Longrightarrow> t \<notin> dom (cache ctx) \<Longrightarrow> (tid, t) \<in> (needs ctx K)\<^sup>*"
    and "extracts ctx a ra ctx' \<Longrightarrow> plain_arg a \<Longrightarrow> plain_env (env ctx) \<Longrightarrow> K \<subseteq> dom (cache ctx) \<Longrightarrow>
           t \<in> dom (cache ctx') \<Longrightarrow> t \<notin> dom (cache ctx) \<Longrightarrow>
           \<exists>u. a = ArgDep u \<and> (u, t) \<in> (needs ctx K)\<^sup>*"
    and "extracts_all ctx as rs ctx' \<Longrightarrow> list_all plain_arg as \<Longrightarrow> plain_env (env ctx) \<Longrightarrow>
           K \<subseteq> dom (cache ctx) \<Longrightarrow> t \<in> dom (cache ctx') \<Longrightarrow> t \<notin> dom (cache ctx) \<Longrightarrow>
           \<exists>u. ArgDep u \<in> set as \<and> (u, t) \<in> (needs ctx K)\<^sup>*"
proof (induction rule: resolves_extracts_extracts_all.inducts)
  case (res_args ctx tid f e ctx2)
  then have "list_all plain_arg (f_args f)" by (auto simp: plain_env_def)
  with res_args obtain u where "ArgDep u \<in> set (f_args f)" "(u, t) \<in> (needs ctx K)\<^sup>*" by auto
  then show ?case using needs_step [OF res_args(1-4) res_args.prems(2)] by (auto intro: trancl_into_rtrancl)
next
  case (res_fail ctx tid f vs ctx2 e)
  then have "list_all plain_arg (f_args f)" by (auto simp: plain_env_def)
  with res_fail obtain u where "ArgDep u \<in> set (f_args f)" "(u, t) \<in> (needs ctx K)\<^sup>*" by auto
  then show ?case using needs_step [OF res_fail(1-4) res_fail.prems(2)] by (auto intro: trancl_into_rtrancl)
next
  case (res_made ctx tid f vs ctx2 x v)
  show ?case
  proof (cases "t = tid")
    case False
    from res_made have "list_all plain_arg (f_args f)" by (auto simp: plain_env_def)
    moreover from res_made.prems False have "t \<in> dom (cache ctx2)" by (auto split: if_splits)
    moreover from res_made.prems have "t \<notin> dom (cache (ctx\<lparr>depth := depth ctx + 1\<rparr>))" by simp
    ultimately obtain u where "ArgDep u \<in> set (f_args f)" "(u, t) \<in> (needs ctx K)\<^sup>*"
      using res_made.IH res_made.prems by auto
    then show ?thesis using needs_step [OF res_made(1-4) res_made.prems(2)] by (auto intro: trancl_into_rtrancl)
  qed simp
next
  case (exts_ok ctx a v ctx' as rs ctx'')
  note fr = resolves_frame(2)[OF exts_ok(1)]
  then have e: "env ctx' = env ctx" and "dom (cache ctx) \<subseteq> dom (cache ctx')" by (simp_all add: same_frame_def)
  then have K: "K \<subseteq> dom (cache ctx')" using exts_ok.prems(3) by (rule_tac subset_trans)
  show ?case
  proof (cases "t \<in> dom (cache ctx')")
    case True
    then show ?thesis using exts_ok.IH(1) exts_ok.prems by auto
  next
    case False
    then show ?thesis using exts_ok.IH(2) exts_ok.prems e K needs_frame [OF fr] by auto
  qed
qed (auto simp: extract_http_def split: if_splits prod.splits)

lemma dead_end_cycles: "dead_end ctx {t. (t, t) \<in> (needs ctx (dom (cache ctx)))\<^sup>+}" (is "dead_end ctx ?C")
  unfolding dead_end_def
proof
  fix t assume "t \<in> ?C"
  then obtain u where u: "(t, u) \<in> needs ctx (dom (cache ctx))" "(u, t) \<in> (needs ctx (dom (cache ctx)))\<^sup>*"
    by (auto dest: tranclD)
  then have "u \<in> ?C" by (auto intro: rtrancl_into_trancl1)
  with u(1) show "cache ctx t = None \<and> (\<exists>f. made_only ctx t f \<and> (\<exists>u \<in> ?C. ArgDep u \<in> set (f_args f)))"
    by (auto simp: needs_def)
qed

lemma no_reentry:
  assumes tid: "cache ctx tid = None" "overrides ctx tid = None" "singletons (env ctx) tid = None"
      "factories (env ctx) tid = Some f"
    and ex: "extracts_all (ctx\<lparr>depth := n\<rparr>) (f_args f) rs ctx2"
    and plain: "plain_env (env ctx)"
  shows "cache ctx2 tid = None"
proof (rule ccontr)
  let ?K = "dom (cache ctx)"
  assume "cache ctx2 tid \<noteq> None"
  moreover have "list_all plain_arg (f_args f)" using plain tid by (auto simp: plain_env_def)
  ultimately obtain u where "ArgDep u \<in> set (f_args f)" "(u, tid) \<in> (needs ctx ?K)\<^sup>*"
    using resolves_reach(3)[OF ex, of ?K tid] plain tid by auto
  then have cyc: "(tid, tid) \<in> (needs ctx ?K)\<^sup>+" using needs_step [OF tid] by blast
  let ?C = "{t. (t, t) \<in> (needs ctx ?K)\<^sup>+}"
  have "dead_end ctx ?C" by (rule dead_end_cycles)
  then have "dead_end ctx2 ?C" using dead_end_resolves(3)[OF ex] plain by auto
  with cyc \<open>cache ctx2 tid \<noteq> None\<close> show False by (auto simp: dead_end_def)
qed

text \<open>\<open>memo ctx ctx'\<close>: cached values stay, and what was produced in between is logged once.\<close>

definition memo :: "('r, 'v) request_ctx \<Rightarrow> ('r, 'v) request_ctx \<Rightarrow> bool" where
  "memo ctx ctx' \<longleftrightarrow> cache ctx \<subseteq>\<^sub>m cache ctx' \<and>
     (distinct (produced_log ctx) \<and> set (produced_log ctx) \<subseteq> dom (cache ctx) \<longrightarrow>
      distinct (produced_log ctx') \<and> set (produced_log ctx') \<subseteq> dom (cache ctx'))"

lemma memo_trans: "memo a b \<Longrightarrow> memo b c \<Longrightarrow> memo a c"
  by (auto simp: memo_def intro: map_le_trans)

lemma resolves_memo:
  shows "resolves ctx tid r ctx' \<Longrightarrow> plain_env (env ctx) \<Longrightarrow> memo ctx ctx'"
    and "extracts ctx a ra ctx' \<Longrightarrow> plain_env (env ctx) \<Longrightarrow> memo ctx ctx'"
    and "extracts_all ctx as rs ctx' \<Longrightarrow> plain_env (env ctx) \<Longrightarrow> memo ctx ctx'"
proof (induction rule: resolves_extracts_extracts_all.inducts)
  case (res_given ctx tid v)
  then show ?case by (auto simp: memo_def map_le_def)
next
  case (res_made ctx tid f vs ctx2 x v)
  have n: "cache ctx2 tid = None"
    by (rule no_reentry [OF res_made(1-4,6)]) (simp add: res_made.prems)
  from res_made have ih: "memo (ctx\<lparr>depth := depth ctx + 1\<rparr>) ctx2" by simp
  have "tid \<notin> set (produced_log ctx2)" if "set (produced_log ctx2) \<subseteq> dom (cache ctx2)"
    using that n by auto
  with ih n res_made(1) show ?case by (auto simp: memo_def map_le_def dom_def)
next
  case (ext_http f ctx r ctx')
  then show ?case by (auto simp: memo_def extract_http_def split: if_splits prod.splits)
next
  case (exts_ok ctx a v ctx' as rs ctx'')
  have "env ctx' = env ctx" using resolves_frame(2)[OF exts_ok(1)] by (simp add: same_frame_def)
  with exts_ok memo_trans show ?case by metis
qed (auto simp: memo_def)

text \<open>\<open>typed ctx\<close>: every stored value has the type it is stored under.\<close>

definition typed :: "('r, 'v) request_ctx \<Rightarrow> bool" where
  "typed ctx \<longleftrightarrow> env_ok (env ctx) \<and> (\<forall>k a. overrides ctx k = Some a \<longrightarrow> any_type a = k) \<and>
     (\<forall>k a. cache ctx k = Some a \<longrightarrow> any_type a = k)"

lemma typed_depth [simp]: "typed (ctx\<lparr>depth := n\<rparr>) = typed ctx"
  by (simp add: typed_def)

lemma typed_store:
  "typed ctx \<Longrightarrow> any_type v = tid \<Longrightarrow> typed (ctx\<lparr>cache := (cache ctx)(tid \<mapsto> v)\<rparr>)"
  "typed ctx \<Longrightarrow> any_type v = tid \<Longrightarrow>
     typed (ctx\<lparr>depth := n, cache := (cache ctx)(tid \<mapsto> v), produced_log := l\<rparr>)"
  by (simp_all add: typed_def)

lemma typed_factory: "typed ctx \<Longrightarrow> factories (env ctx) tid = Some f \<Longrightarrow> f_type f = tid"
  by (simp add: typed_def env_ok_def)

lemma resolves_typed:
  shows "resolves ctx tid r ctx' \<Longrightarrow> typed ctx \<Longrightarrow> typed ctx'"
    and "extracts ctx a ra ctx' \<Longrightarrow> typed ctx \<Longrightarrow> typed ctx'"
    and "extracts_all ctx as rs ctx' \<Longrightarrow> typed ctx \<Longrightarrow> typed ctx'"
proof (induction rule: resolves_extracts_extracts_all.inducts)
  case (res_given ctx tid v)
  then have "any_type v = tid" unfolding typed_def env_ok_def by blast
  with res_given.prems show ?case by (rule typed_store)
next
  case (res_made ctx tid f vs ctx2 x v)
  then show ?case by (simp add: typed_store(2) typed_factory)
next
  case (ext_http f ctx r ctx')
  then show ?case by (auto simp: typed_def extract_http_def split: if_splits prod.splits)
qed simp_all

lemma task_request:
  shows "resolves ctx tid r ctx' \<Longrightarrow> is_task ctx \<Longrightarrow> request ctx' = request ctx"
    and "extracts ctx a ra ctx' \<Longrightarrow> is_task ctx \<Longrightarrow> request ctx' = request ctx"
    and "extracts_all ctx as rs ctx' \<Longrightarrow> is_task ctx \<Longrightarrow> request ctx' = request ctx"
proof (induction rule: resolves_extracts_extracts_all.inducts)
  case (exts_ok ctx a v ctx' as rs ctx'')
  then show ?case using resolves_frame(2)[OF exts_ok(1)] by (simp add: same_frame_def)
next
  case (ext_http f ctx r ctx')
  then show ?case by (simp add: extract_http_def)
qed simp_all

section \<open>Properties\<close>

text \<open>
  A concrete environment for the witnesses: a configuration singleton, a pool built from it, a
  repository built from both, and a pair of types that depend on each other.
\<close>

definition sample_env :: "(unit, nat) dep_env" where
  "sample_env =
     insert_factory \<lparr>f_type = ''B'', f_args = [ArgDep ''A''], f_run = (\<lambda>_. Ok 1)\<rparr>
    (insert_factory \<lparr>f_type = ''A'', f_args = [ArgDep ''B''], f_run = (\<lambda>_. Ok 0)\<rparr>
    (insert_factory \<lparr>f_type = ''Repo'', f_args = [ArgDep ''Pool'', ArgDep ''Cfg''], f_run = (\<lambda>vs. Ok (10 + length vs))\<rparr>
    (insert_factory \<lparr>f_type = ''Pool'', f_args = [ArgDep ''Cfg''], f_run = (\<lambda>vs. Ok (20 + length vs))\<rparr>
    (insert_value ''Cfg'' 7 env_default))))"

lemma plain_env_insert:
  "plain_env e \<Longrightarrow> list_all plain_arg (f_args f) \<Longrightarrow> plain_env (insert_factory f e)"
  "plain_env (insert_value t v env_default)"
  by (simp_all add: plain_env_def insert_factory_def insert_value_def env_default_def)

lemma sample_env_plain: "plain_env sample_env"
  unfolding sample_env_def
  by (intro plain_env_insert) simp_all

lemma sample_env_ok: "env_ok sample_env"
  unfolding sample_env_def
  by (intro env_ok_insert_factory env_ok_insert_value env_ok_default)

text \<open>C3: dependency resolution always returns. From a context whose depth counter is at most 32,
  33 units of fuel are enough whatever the factories depend on, cycles included, and the call leaves
  the environment, the overrides, the depth counter and the task flag as they were and never drops
  a type from the cache.\<close>

theorem resolve_returns:
  assumes "depth ctx \<le> MAX_RESOLVE_DEPTH"
  shows "\<exists>r ctx'. resolve (Suc MAX_RESOLVE_DEPTH) ctx tid = Some (r, ctx') \<and> same_frame ctx ctx'"
proof -
  obtain r ctx' where "resolve (Suc MAX_RESOLVE_DEPTH) ctx tid = Some (r, ctx')"
    using resolve_total(1)[of ctx "Suc MAX_RESOLVE_DEPTH" tid] assms by auto
  then show ?thesis using computed_resolves(1) resolves_frame(1) by blast
qed

theorem resolve_returns_witness:
  "\<exists>r ctx'. resolve (Suc MAX_RESOLVE_DEPTH) (resolver_new sample_env Map.empty False ()) ''A'' = Some (r, ctx') \<and>
     same_frame (resolver_new sample_env Map.empty False ()) ctx'"
  by (rule resolve_returns) (simp add: resolver_new_def)

text \<open>Within one request every factory produces a value at most once. If no factory takes an
  \<open>Option\<close> or \<open>Result\<close> parameter, then after extracting any list of handler parameters (these may be
  \<open>Option\<close> or \<open>Result\<close>) from a fresh request context no type has been produced twice.\<close>

lemma factories_produce_once:
  assumes "plain_env e" and "extract_args fuel (resolver_new e ov task req) args = Some (r, ctx')"
  shows "distinct (produced_log ctx')"
  using resolves_memo(3)[OF computed_resolves(3)[OF assms(2)]] assms(1)
  by (simp add: memo_def resolver_new_def)

text \<open>Resolution is memoised for the whole request. If no factory takes an \<open>Option\<close> or
  \<open>Result\<close> parameter, a dependency that has resolved to \<open>v\<close> resolves to the same \<open>v\<close> after
  any further extractions, without running anything and without changing the context.\<close>

lemma resolve_memoised:
  assumes "plain_env (env ctx)"
    and "resolve fuel ctx tid = Some (Ok v, ctx1)"
    and "extract_args fuel' ctx1 args = Some (r, ctx2)"
  shows "resolve (Suc n) ctx2 tid = Some (Ok v, ctx2)"
proof -
  note r = computed_resolves(1)[OF assms(2)] and x = computed_resolves(3)[OF assms(3)]
  from r obtain a where a: "cache ctx1 tid = Some a" "downcast tid a = Ok v"
    by (cases rule: resolves.cases) (auto simp: is_ok_def)
  have "env ctx1 = env ctx" using resolves_frame(1)[OF r] by (simp add: same_frame_def)
  then have "cache ctx1 \<subseteq>\<^sub>m cache ctx2" using resolves_memo(3)[OF x] assms(1) by (simp add: memo_def)
  with a have "cache ctx2 tid = Some a" by (metis domI map_le_def)
  with a show ?thesis by simp
qed

text \<open>A dependency cycle is an error, never a value. A type that nothing but a factory provides
  and that needs itself through the \<open>Dep\<close> parameters of such factories does not resolve.\<close>

lemma cyclic_dependency_fails:
  assumes "plain_env (env ctx)" and "(tid, tid) \<in> (needs ctx (dom (cache ctx)))\<^sup>+"
    and "depth ctx \<le> MAX_RESOLVE_DEPTH"
  shows "\<exists>e ctx'. resolve (Suc MAX_RESOLVE_DEPTH) ctx tid = Some (Err e, ctx')"
proof -
  obtain r c where r: "resolve (Suc MAX_RESOLVE_DEPTH) ctx tid = Some (r, c)"
    using resolve_total(1)[of ctx "Suc MAX_RESOLVE_DEPTH" tid] assms(3) by auto
  let ?G = "needs ctx (dom (cache ctx))"
  have "dead_end ctx {t. (t, t) \<in> ?G\<^sup>+}" by (rule dead_end_cycles)
  then have "\<not> is_ok r" using dead_end_resolves(1)[OF computed_resolves(1)[OF r] assms(1)] assms(2) by blast
  with r show ?thesis by (cases r) auto
qed

text \<open>C4: provider and consumer never disagree on a type. If every stored value has the type of its
  key (as \<open>insert_value\<close>, \<open>insert_factory\<close> and \<open>merge_from\<close> keep it), a type with a cached value, an
  override or a singleton resolves to a value, and the context stays well typed.\<close>

theorem resolve_typed:
  assumes "typed ctx" and "resolve fuel ctx tid = Some (r, ctx')"
  shows "typed ctx' \<and>
    (cache ctx tid \<noteq> None \<or> overrides ctx tid \<noteq> None \<or> singletons (env ctx) tid \<noteq> None \<longrightarrow> is_ok r)"
proof -
  note x = computed_resolves(1)[OF assms(2)]
  have "is_ok (downcast tid a)" if "any_type a = tid" for a :: "'b any_arc"
    using that by (simp add: downcast_def)
  with x assms(1) have "cache ctx tid \<noteq> None \<or> overrides ctx tid \<noteq> None \<or> singletons (env ctx) tid \<noteq> None
      \<longrightarrow> is_ok r"
    by (cases rule: resolves.cases) (auto simp: typed_def env_ok_def)
  with resolves_typed(1)[OF x assms(1)] show ?thesis by blast
qed

theorem resolve_typed_witness:
  "\<exists>r. map_option fst (resolve 33 (resolver_new sample_env Map.empty False ()) ''Cfg'') = Some r \<and> is_ok r"
proof -
  let ?c = "resolver_new sample_env Map.empty False ()"
  obtain r c where r: "resolve 33 ?c ''Cfg'' = Some (r, c)"
    by (rule exE [OF fresh_total(1)[OF depth_fresh(1)]]) (elim exE, rule that)
  have "typed ?c" by (simp add: typed_def resolver_new_def sample_env_ok)
  moreover have "singletons (env ?c) ''Cfg'' \<noteq> None"
    by (simp add: resolver_new_def sample_env_def insert_factory_def insert_value_def)
  ultimately show ?thesis using resolve_typed [OF _ r] r by auto
qed

text \<open>A task context never reads or changes its placeholder request, and shares nothing of its
  cache with a fork: the fork resolves exactly as a new task context over the same environment.\<close>

lemma task_context_isolated:
  assumes "resolve fuel (task_context_new ph e ov) tid = Some (r, ctx')"
  shows "request ctx' = ph \<and> fork ph ctx' = task_context_new ph e ov"
  using task_request(1)[OF computed_resolves(1)[OF assms]] resolves_frame(1)[OF computed_resolves(1)[OF assms]]
  by (simp add: task_context_new_def fork_def resolver_new_def same_frame_def)

definition self_optional_env :: "(unit, nat) dep_env" where
  "self_optional_env =
     insert_factory \<lparr>f_type = ''A'', f_args = [ArgOpt (ArgDep ''A'')], f_run = (\<lambda>_. Ok 0)\<rparr> env_default"

lemma self_optional_resolve:
  "env ctx = self_optional_env \<Longrightarrow> overrides ctx ''A'' = None \<Longrightarrow> cache ctx ''A'' = None \<Longrightarrow>
   depth ctx + n = 32 \<Longrightarrow>
   \<exists>r ctx'. resolve (Suc n) ctx ''A'' = Some (r, ctx') \<and> is_ok r = (0 < n) \<and>
     length (produced_log ctx') = length (produced_log ctx) + n"
proof (induction n arbitrary: ctx)
  case 0
  then show ?case
    by (simp add: self_optional_env_def insert_factory_def env_default_def MAX_RESOLVE_DEPTH_def Let_def)
next
  case (Suc n)
  let ?c = "ctx\<lparr>depth := Suc (depth ctx)\<rparr>"
  obtain r c where r: "resolve (Suc n) ?c ''A'' = Some (r, c)"
      "length (produced_log c) = length (produced_log ctx) + n"
    using Suc.IH [of ?c] Suc.prems by auto
  have e: "singletons (env ctx) ''A'' = None"
    "factories (env ctx) ''A'' = Some \<lparr>f_type = ''A'', f_args = [ArgOpt (ArgDep ''A'')], f_run = (\<lambda>_. Ok 0)\<rparr>"
    by (simp_all add: Suc.prems self_optional_env_def insert_factory_def env_default_def)
  have d: "\<not> MAX_RESOLVE_DEPTH < Suc (depth ctx)" using Suc.prems by (simp add: MAX_RESOLVE_DEPTH_def)
  have x: "extract_args (Suc n) ?c [ArgOpt (ArgDep ''A'')] = Some (Ok [AOpt (result_ok (map_sum (\<lambda>e. e) AVal r))], c)"
    using r(1) by (simp del: resolve.simps)
  show ?case
    unfolding resolve.simps(2)[of "Suc n"] Let_def
    by (simp del: resolve.simps extract_args.simps add: Suc.prems(2-4) e d x r(2) downcast_def)
qed

text \<open>A factory that takes its own type as an \<open>Option\<close> runs many times in one request: the
  cycle error of the innermost attempt is swallowed and each of the 32 nested attempts produces and
  caches a value.\<close>

lemma optional_self_dependency_reruns:
  "\<exists>v ctx'. resolve 33 (resolver_new self_optional_env Map.empty False ()) ''A'' = Some (Ok v, ctx') \<and>
     length (produced_log ctx') = 32"
proof -
  obtain r ctx' where "resolve (Suc 32) (resolver_new self_optional_env Map.empty False ()) ''A'' = Some (r, ctx')"
    "is_ok r" "length (produced_log ctx') = 32"
    using self_optional_resolve [of "resolver_new self_optional_env Map.empty False ()" 32]
    by (auto simp: resolver_new_def simp del: resolve.simps)
  then show ?thesis by (auto simp: is_ok_iff simp del: resolve.simps)
qed

end
