(* ===== verification/JC_Module.thy ===== *)
theory JC_Module
  imports JC_Dep JC_Router
begin

text \<open>
  Modules, \<open>jerrycan-core/src/module.rs\<close>: routes, nested mounts, module-scoped providers and
  middleware, and \<open>flatten\<close>, which composes URL prefixes, layers environments and concatenates
  middleware chains. \<open>'h\<close> is a handler, \<open>'m\<close> a middleware.
\<close>

section \<open>Modules and their builders\<close>

datatype ('h, 'r, 'v, 'm) module = Module
  (m_name: str)
  (m_routes: "(str \<times> 'h method_router) list")
  (m_mounts: "(str \<times> ('h, 'r, 'v, 'm) module) list")
  (m_env: "('r, 'v) dep_env")
  (m_middleware: "'m list")

definition module_new :: "str \<Rightarrow> ('h, 'r, 'v, 'm) module" where
  "module_new name = Module name [] [] env_default []"

fun module_route :: "str \<Rightarrow> 'h method_router \<Rightarrow> ('h, 'r, 'v, 'm) module \<Rightarrow> ('h, 'r, 'v, 'm) module" where
  "module_route path ms (Module n rs mo e mw) = Module n (rs @ [(path, ms)]) mo e mw"

fun module_mount :: "str \<Rightarrow> ('h, 'r, 'v, 'm) module \<Rightarrow> ('h, 'r, 'v, 'm) module \<Rightarrow> ('h, 'r, 'v, 'm) module" where
  "module_mount prefix child (Module n rs mo e mw) = Module n rs (mo @ [(prefix, child)]) e mw"

fun module_provide :: "type_id \<Rightarrow> 'v \<Rightarrow> ('h, 'r, 'v, 'm) module \<Rightarrow> ('h, 'r, 'v, 'm) module" where
  "module_provide tid v (Module n rs mo e mw) = Module n rs mo (insert_value tid v e) mw"

fun module_provide_dep :: "('r, 'v) factory \<Rightarrow> ('h, 'r, 'v, 'm) module \<Rightarrow> ('h, 'r, 'v, 'm) module" where
  "module_provide_dep f (Module n rs mo e mw) = Module n rs mo (insert_factory f e) mw"

fun module_middleware :: "'m \<Rightarrow> ('h, 'r, 'v, 'm) module \<Rightarrow> ('h, 'r, 'v, 'm) module" where
  "module_middleware w (Module n rs mo e mw) = Module n rs mo e (mw @ [w])"

section \<open>Flattening\<close>

record ('h, 'r, 'v, 'm) flat_route =
  fl_path :: str
  fl_methods :: "'h method_router"
  fl_env :: "('r, 'v) dep_env"
  fl_middleware :: "'m list"
  fl_body_limit :: "nat option"
  fl_handler_timeout :: "nat option"
  fl_body_read_timeout :: "nat option"

definition join_paths :: "str \<Rightarrow> str \<Rightarrow> str" where
  "join_paths prefix rel =
     (let a = trim_end_matches CHR ''/'' prefix; b = trim_start_matches CHR ''/'' rel in
      if a = [] \<and> b = [] then ''/''
      else if a \<noteq> [] \<and> b = [] then a
      else if a = [] \<and> b \<noteq> [] then ''/'' @ b
      else a @ ''/'' @ b)"

text \<open>The loop body shared by \<open>flatten\<close> and \<open>App::build\<close>: limits travel beside the methods.\<close>

definition flat_of ::
  "('r, 'v) dep_env \<Rightarrow> 'm list \<Rightarrow> str \<Rightarrow> 'h method_router \<Rightarrow> ('h, 'r, 'v, 'm) flat_route" where
  "flat_of e mw path ms =
     \<lparr>fl_path = path, fl_methods = ms, fl_env = e, fl_middleware = mw,
      fl_body_limit = mr_body_limit ms, fl_handler_timeout = mr_handler_timeout ms,
      fl_body_read_timeout = mr_body_read_timeout ms\<rparr>"

fun flatten :: "('h, 'r, 'v, 'm) module \<Rightarrow> str \<Rightarrow> ('r, 'v) dep_env \<Rightarrow> 'm list \<Rightarrow> ('h, 'r, 'v, 'm) flat_route list" where
  "flatten (Module n routes mounts e mws) prefix parent_env parent_mw =
     (let merged = merge_from parent_env e;
          mw = parent_mw @ mws
      in map (\<lambda>(path, ms). flat_of merged mw (join_paths prefix path) ms) routes
         @ concat (map (\<lambda>(sub_prefix, child). flatten child (join_paths prefix sub_prefix) merged mw) mounts))"

section \<open>What a flattened route is\<close>

text \<open>
  \<open>on_chain m ms (p, r)\<close>: the module chain \<open>ms\<close> leads from \<open>m\<close> down through mounts to a module
  that has the route \<open>r\<close>; \<open>ps\<close> are the mount prefixes on the way and the route's own path.
\<close>

inductive on_chain :: "('h, 'r, 'v, 'm) module \<Rightarrow> ('h, 'r, 'v, 'm) module list \<Rightarrow> str list \<Rightarrow> 'h method_router \<Rightarrow> bool" where
  chain_here: "(path, ms) \<in> set (m_routes m) \<Longrightarrow> on_chain m [m] [path] ms"
| chain_down: "(sub, child) \<in> set (m_mounts m) \<Longrightarrow> on_chain child chain ps ms \<Longrightarrow>
     on_chain m (m # chain) (sub # ps) ms"

lemma join_paths_segments: "segments (join_paths a b) = segments a @ segments b"
proof -
  have d: "filter (\<lambda>s. s \<noteq> []) (split_on c (replicate n c @ s)) = filter (\<lambda>s. s \<noteq> []) (split_on c s)"
    for c n s by (induction n) auto
  have e: "filter (\<lambda>s. s \<noteq> []) (split_on c (s @ replicate n c)) = filter (\<lambda>s. s \<noteq> []) (split_on c s)"
    for c n s
  proof (cases n)
    case (Suc k)
    then have "split_on c (s @ replicate n c) = split_on c s @ split_on c (replicate k c)"
      by (simp add: split_on_append_sep)
    then show ?thesis using d [of c k "[]"] by simp
  qed simp
  obtain n m where n: "a = trim_end_matches CHR ''/'' a @ replicate n CHR ''/''"
    and m: "b = replicate m CHR ''/'' @ trim_start_matches CHR ''/'' b"
    using trim_end_matches_split trim_start_matches_split by blast
  let ?a = "trim_end_matches CHR ''/'' a" and ?b = "trim_start_matches CHR ''/'' b"
  have sa: "segments a = segments ?a" unfolding segments_def using e [of "CHR ''/''" ?a n] n by metis
  have sb: "segments b = segments ?b" unfolding segments_def using d [of "CHR ''/''" m ?b] m by metis
  have nil: "segments [] = []" and slash: "segments ''/'' = []" by (simp_all add: segments_def)
  have app: "segments (x @ ''/'' @ y) = segments x @ segments y" for x y
    by (simp add: segments_def split_on_append_sep)
  show ?thesis
    unfolding sa sb join_paths_def Let_def
    using app [of ?a ?b] app [of "[]" ?b] nil slash by auto
qed

lemma flatten_sound:
  "fr \<in> set (flatten m prefix pe pm) \<Longrightarrow>
   \<exists>chain ps ms. on_chain m chain ps ms \<and>
     fr = flat_of (foldl merge_from pe (map m_env chain)) (pm @ concat (map m_middleware chain))
            (foldl join_paths prefix ps) ms"
proof (induction m prefix pe pm rule: flatten.induct)
  case (1 n routes mounts e mws prefix pe pm)
  let ?m = "Module n routes mounts e mws"
  from 1(2) consider (here) path ms where "(path, ms) \<in> set routes"
      "fr = flat_of (merge_from pe e) (pm @ mws) (join_paths prefix path) ms"
    | (down) sub child where "(sub, child) \<in> set mounts"
      "fr \<in> set (flatten child (join_paths prefix sub) (merge_from pe e) (pm @ mws))"
    by (auto simp: Let_def)
  then show ?case
  proof cases
    case here
    then have "on_chain ?m [?m] [path] ms" by (intro chain_here) simp
    with here show ?thesis by (intro exI conjI) auto
  next
    case down
    obtain chain ps ms where c: "on_chain child chain ps ms"
      "fr = flat_of (foldl merge_from (merge_from pe e) (map m_env chain))
            ((pm @ mws) @ concat (map m_middleware chain)) (foldl join_paths (join_paths prefix sub) ps) ms"
      using 1(1)[OF refl refl down(1) refl down(2)] by blast
    from down(1) c(1) have "on_chain ?m (?m # chain) (sub # ps) ms" by (intro chain_down) simp
    with c(2) show ?thesis by (intro exI conjI) auto
  qed
qed

lemma flatten_complete:
  "on_chain m chain ps ms \<Longrightarrow>
     flat_of (foldl merge_from pe (map m_env chain)) (pm @ concat (map m_middleware chain))
       (foldl join_paths prefix ps) ms \<in> set (flatten m prefix pe pm)"
proof (induction arbitrary: prefix pe pm rule: on_chain.induct)
  case (chain_here path ms m)
  then show ?case by (cases m) (auto simp: Let_def intro!: image_eqI [of _ _ "(path, ms)"])
next
  case (chain_down sub child m chain ps ms)
  show ?case
  proof (cases m)
    case (Module n rs mo e mw)
    with chain_down show ?thesis
      using chain_down.IH [of "merge_from pe e" "pm @ mw" "join_paths prefix sub"]
      by (auto simp: Let_def intro!: bexI [of _ "(sub, child)"])
  qed
qed

lemma foldl_join_segments: "segments (foldl join_paths prefix ps) = segments prefix @ concat (map segments ps)"
  by (induction ps arbitrary: prefix) (simp_all add: join_paths_segments)

lemma provider_foldl_merge:
  "(\<forall>e \<in> set es. env_ok e) \<Longrightarrow>
   provider_of (foldl merge_from e0 es) = foldl (++) (provider_of e0) (map provider_of es)"
  by (induction es arbitrary: e0) (simp_all add: provider_merge)

section \<open>Properties\<close>

text \<open>Flattening registers every route of the module tree, and nothing else, with the mount
  prefixes composed, the innermost provider in force and the middleware in order. The flattened
  routes of \<open>m\<close> are exactly those reached over a chain of mounts: the environment is the parent's
  overridden by each module of the chain from the outside in, the middleware is the parent's
  followed by each module's, and the path segments are those of the prefix, of the mounts and of
  the route, concatenated.\<close>

lemma flatten_spec:
  "fr \<in> set (flatten m prefix pe pm) \<longleftrightarrow>
   (\<exists>chain ps ms. on_chain m chain ps ms \<and>
      fr = flat_of (foldl merge_from pe (map m_env chain)) (pm @ concat (map m_middleware chain))
             (foldl join_paths prefix ps) ms \<and>
      segments (fl_path fr) = segments prefix @ concat (map segments ps))"
proof
  assume "fr \<in> set (flatten m prefix pe pm)"
  from flatten_sound [OF this] obtain chain ps ms where "on_chain m chain ps ms"
    "fr = flat_of (foldl merge_from pe (map m_env chain)) (pm @ concat (map m_middleware chain))
            (foldl join_paths prefix ps) ms" by blast
  then show "\<exists>chain ps ms. on_chain m chain ps ms \<and>
      fr = flat_of (foldl merge_from pe (map m_env chain)) (pm @ concat (map m_middleware chain))
             (foldl join_paths prefix ps) ms \<and>
      segments (fl_path fr) = segments prefix @ concat (map segments ps)"
    by (intro exI conjI) (auto simp: flat_of_def foldl_join_segments)
qed (use flatten_complete in blast)

text \<open>The innermost provider wins. For environments built by the registration operations, what
  the environment of a flattened route provides for a type is what the innermost module of the
  chain that provides the type has, and the parent's provider if no module of the chain has one.\<close>

lemma innermost_provider_wins:
  assumes "env_ok pe" and "\<forall>m' \<in> set chain. env_ok (m_env m')"
  shows "env_ok (foldl merge_from pe (map m_env chain)) \<and>
    provider_of (foldl merge_from pe (map m_env chain)) tid =
      (case List.find (\<lambda>m'. provider_of (m_env m') tid \<noteq> None) (rev chain) of
         Some m' \<Rightarrow> provider_of (m_env m') tid
       | None \<Rightarrow> provider_of pe tid)"
  using assms
proof (induction chain rule: rev_induct)
  case (snoc m' chain)
  then have "env_ok (foldl merge_from pe (map m_env chain))" "env_ok (m_env m')" by auto
  with snoc show ?case
    by (simp add: env_ok_merge provider_merge map_add_def split: option.splits)
qed simp

end
