(* ===== verification/JC_Http.thy ===== *)
theory JC_Http
  imports JC_Dep
begin

text \<open>
  The HTTP vocabulary of the core crate: request parts, responses and how handler return values
  become responses (\<open>jerrycan-core/src/response.rs\<close>).

  The types of the \<open>http\<close> crate and the JSON serialiser are third-party. Their operations are the
  fields of \<open>http_lib\<close>, an argument of every definition that calls them; what the sources rely on
  is the predicate \<open>http_laws\<close>, which states the documented behaviour of \<open>HeaderMap\<close>
  (\<open>insert\<close> replaces, \<open>append\<close> adds, a name's values are independent of the other names) and of
  \<open>HeaderValue\<close> (the value's bytes are the string's bytes; \<open>to_str\<close> yields visible ASCII, all of it,
  and only what \<open>from_str\<close> accepts). Header names are the lower-case strings of the crate's constants.
  \<open>json_to_vec\<close> is \<open>serde_json::to_vec\<close> on a \<open>Value\<close> or on \<open>ErrorBody\<close>, which is documented not to
  fail; for a handler's own type the result of serialising it is an argument.
\<close>

record 'h http_lib =
  hm_new :: 'h
  hm_get_all :: "str \<Rightarrow> 'h \<Rightarrow> bytes list"
  hm_insert :: "str \<Rightarrow> bytes \<Rightarrow> 'h \<Rightarrow> 'h"
  hm_append :: "str \<Rightarrow> bytes \<Rightarrow> 'h \<Rightarrow> 'h"
  hv_from_str :: "str \<Rightarrow> bytes option"
  hv_to_str :: "bytes \<Rightarrow> str option"
  json_to_vec :: "json \<Rightarrow> bytes"

text \<open>\<open>HeaderMap::get\<close> is documented as the first of \<open>get_all\<close>, \<open>contains_key\<close> as its non-emptiness.\<close>

definition hm_get :: "'h http_lib \<Rightarrow> str \<Rightarrow> 'h \<Rightarrow> bytes option" where
  "hm_get lib n h = (case hm_get_all lib n h of [] \<Rightarrow> None | v # _ \<Rightarrow> Some v)"

definition hm_contains :: "'h http_lib \<Rightarrow> str \<Rightarrow> 'h \<Rightarrow> bool" where
  "hm_contains lib n h = (hm_get_all lib n h \<noteq> [])"

definition http_laws :: "'h http_lib \<Rightarrow> bool" where
  "http_laws lib \<longleftrightarrow>
     (\<forall>n. hm_get_all lib n (hm_new lib) = []) \<and>
     (\<forall>m n v h. hm_get_all lib m (hm_insert lib n v h) = (if m = n then [v] else hm_get_all lib m h)) \<and>
     (\<forall>m n v h. hm_get_all lib m (hm_append lib n v h) =
        (if m = n then hm_get_all lib n h @ [v] else hm_get_all lib m h)) \<and>
     (\<forall>s v. hv_from_str lib s = Some v \<longrightarrow> v = s) \<and>
     (\<forall>v s. hv_to_str lib v = Some s \<longrightarrow> s = v \<and> hv_from_str lib s = Some v) \<and>
     (\<forall>v. list_all (byte_in 32 126) v \<longrightarrow> hv_to_str lib v = Some v)"

text \<open>
  A reference instance: an association list in insertion order, values of printable ASCII, tab and
  opaque bytes from 128 on.
\<close>

definition alist_lib :: "((str \<times> bytes) list) http_lib" where
  "alist_lib =
     \<lparr>hm_new = [],
      hm_get_all = (\<lambda>n h. map snd (filter (\<lambda>p. fst p = n) h)),
      hm_insert = (\<lambda>n v h. filter (\<lambda>p. fst p \<noteq> n) h @ [(n, v)]),
      hm_append = (\<lambda>n v h. h @ [(n, v)]),
      hv_from_str = (\<lambda>s. if list_all (\<lambda>c. of_char c = (9::nat) \<or> 32 \<le> (of_char c::nat) \<and> of_char c \<noteq> (127::nat)) s
                         then Some s else None),
      hv_to_str = (\<lambda>v. if list_all (\<lambda>c. of_char c = (9::nat) \<or> 32 \<le> (of_char c::nat) \<and> (of_char c::nat) \<le> 126) v
                       then Some v else None),
      json_to_vec = (\<lambda>j. case j of JObject ((_, JString c) # _) \<Rightarrow> c | JString s \<Rightarrow> s | _ \<Rightarrow> [])\<rparr>"

section \<open>Requests\<close>

text \<open>\<open>http::request::Parts\<close>, as far as the sources read it, and the peer address extension.\<close>

record 'h parts =
  p_method :: str
  p_path :: str
  p_query :: "str option"
  p_headers :: 'h
  p_client_addr :: "str option"

section \<open>Responses\<close>

text \<open>
  \<open>JcBody\<close>: a buffer, or a stream with the frame deadline of \<open>TimedFrames\<close>. A streaming
  producer is the list of its items, each with the time it takes to appear.
\<close>

type_synonym producer = "(nat \<times> (error, bytes) result) list"

datatype jc_body = JFull bytes | JStream producer nat

definition body_full :: "bytes \<Rightarrow> jc_body" where "body_full b = JFull b"
definition body_empty :: jc_body where "body_empty = body_full []"
definition body_stream :: "producer \<Rightarrow> nat \<Rightarrow> jc_body" where "body_stream p timeout = JStream p timeout"

record error_parts =
  parts_code :: str
  parts_message :: str

record 'h response =
  r_status :: nat
  r_headers :: 'h
  r_body :: jc_body
  r_error_parts :: "error_parts option"

text \<open>\<open>http::Response::new\<close>: status 200, no headers, no extensions.\<close>

definition response_new :: "'h http_lib \<Rightarrow> jc_body \<Rightarrow> 'h response" where
  "response_new lib b = \<lparr>r_status = 200, r_headers = hm_new lib, r_body = b, r_error_parts = None\<rparr>"

definition insert_header :: "'h http_lib \<Rightarrow> str \<Rightarrow> bytes \<Rightarrow> 'h response \<Rightarrow> 'h response" where
  "insert_header lib n v r = r\<lparr>r_headers := hm_insert lib n v (r_headers r)\<rparr>"

definition full_response :: "'h http_lib \<Rightarrow> nat \<Rightarrow> str \<Rightarrow> bytes \<Rightarrow> 'h response" where
  "full_response lib st content_type b =
     insert_header lib ''content-type'' content_type ((response_new lib (body_full b))\<lparr>r_status := st\<rparr>)"

text \<open>\<open>ErrorBody\<close> as JSON: \<open>details\<close> is skipped when absent.\<close>

definition error_body :: "error \<Rightarrow> json" where
  "error_body e = JObject ([(''code'', JString (code e)), (''message'', JString (message e))] @
     (case details e of None \<Rightarrow> [] | Some d \<Rightarrow> [(''details'', d)]))"

definition error_into_response :: "'h http_lib \<Rightarrow> error \<Rightarrow> 'h response" where
  "error_into_response lib e =
     (full_response lib (status e) ''application/json'' (json_to_vec lib (error_body e)))
       \<lparr>r_error_parts := Some \<lparr>parts_code = code e, parts_message = message e\<rparr>\<rparr>"

text \<open>\<open>json_body\<close> for a handler's value; \<open>ser\<close> is what \<open>serde_json::to_vec\<close> returns for it.\<close>

definition json_body :: "'h http_lib \<Rightarrow> nat \<Rightarrow> (str, bytes) result \<Rightarrow> 'h response" where
  "json_body lib st ser =
     (case ser of Ok b \<Rightarrow> full_response lib st ''application/json'' b
      | Err e \<Rightarrow> error_into_response lib (internal (''response serialization failed: '' @ e)))"

record redirect =
  rd_status :: nat
  rd_location :: str

definition redirect_to :: "str \<Rightarrow> redirect" where "redirect_to l = \<lparr>rd_status = 302, rd_location = l\<rparr>"
definition redirect_see_other :: "str \<Rightarrow> redirect" where "redirect_see_other l = \<lparr>rd_status = 303, rd_location = l\<rparr>"
definition redirect_temporary :: "str \<Rightarrow> redirect" where "redirect_temporary l = \<lparr>rd_status = 307, rd_location = l\<rparr>"
definition redirect_permanent :: "str \<Rightarrow> redirect" where "redirect_permanent l = \<lparr>rd_status = 308, rd_location = l\<rparr>"

definition redirect_into_response :: "'h http_lib \<Rightarrow> redirect \<Rightarrow> 'h response" where
  "redirect_into_response lib rd =
     (case hv_from_str lib (rd_location rd) of
        None \<Rightarrow> error_into_response lib (internal ''redirect location is not a valid header value'')
      | Some v \<Rightarrow> insert_header lib ''location'' v ((response_new lib body_empty)\<lparr>r_status := rd_status rd\<rparr>))"

section \<open>Streaming responses\<close>

record stream_body =
  sb_stream :: producer
  sb_content_type :: bytes
  sb_attachment :: "bytes option"
  sb_frame_timeout :: nat

definition DEFAULT_FRAME_TIMEOUT :: nat where "DEFAULT_FRAME_TIMEOUT = 30 * 1000"

definition stream_body_new :: "producer \<Rightarrow> stream_body" where
  "stream_body_new s = \<lparr>sb_stream = s, sb_content_type = ''application/octet-stream'',
     sb_attachment = None, sb_frame_timeout = DEFAULT_FRAME_TIMEOUT\<rparr>"

text \<open>\<open>content_type\<close> panics on an invalid header value: \<open>None\<close>.\<close>

definition set_content_type :: "'h http_lib \<Rightarrow> str \<Rightarrow> stream_body \<Rightarrow> stream_body option" where
  "set_content_type lib v sb = map_option (\<lambda>hv. sb\<lparr>sb_content_type := hv\<rparr>) (hv_from_str lib v)"

text \<open>
  \<open>attachment\<close> drops the characters \<open>"\<close>, \<open>\\<close> and the control characters U+0000 to U+001F, U+007F
  and U+0080 to U+009F. The last group is two bytes in UTF-8 (194, then 128 to 159), so the filter
  looks at characters: a byte 194 together with its continuation byte.
\<close>

fun safe_filename :: "str \<Rightarrow> str" where
  "safe_filename [] = []"
| "safe_filename (a # r) =
     (case r of
        b # r' \<Rightarrow>
          if of_char a = (194::nat) \<and> byte_in 128 159 b then safe_filename r'
          else if a = CHR 0x22 \<or> a = CHR 0x5C \<or> byte_in 0 31 a \<or> of_char a = (127::nat) then safe_filename r
          else a # safe_filename r
      | [] \<Rightarrow>
          if a = CHR 0x22 \<or> a = CHR 0x5C \<or> byte_in 0 31 a \<or> of_char a = (127::nat) then [] else [a])"

text \<open>The \<open>expect\<close> on the sanitised value panics if it is refused: \<open>None\<close>.\<close>

definition attachment :: "'h http_lib \<Rightarrow> str \<Rightarrow> stream_body \<Rightarrow> stream_body option" where
  "attachment lib filename sb =
     map_option (\<lambda>hv. sb\<lparr>sb_attachment := Some hv\<rparr>)
       (hv_from_str lib (''attachment; filename='' @ [CHR 0x22] @ safe_filename filename @ [CHR 0x22]))"

definition set_frame_timeout :: "nat \<Rightarrow> stream_body \<Rightarrow> stream_body" where
  "set_frame_timeout t sb = sb\<lparr>sb_frame_timeout := t\<rparr>"

definition stream_into_response :: "'h http_lib \<Rightarrow> stream_body \<Rightarrow> 'h response" where
  "stream_into_response lib sb =
     (let r = insert_header lib ''content-type'' (sb_content_type sb)
                (response_new lib (body_stream (sb_stream sb) (sb_frame_timeout sb)))
      in case sb_attachment sb of None \<Rightarrow> r | Some d \<Rightarrow> insert_header lib ''content-disposition'' d r)"

section \<open>Handler return values\<close>

text \<open>One constructor per \<open>impl IntoResponse\<close>, in the source's order.\<close>

datatype 'h reply =
    RRedirect redirect
  | RResponse "'h response"
  | RStr str
  | RString str
  | RStatus nat
  | RJson "(str, bytes) result"
  | RCreated "(str, bytes) result"
  | RNoContent
  | RWithStatus nat "'h reply"
  | RError error
  | RResult "(error, 'h reply) result"
  | RStream stream_body

fun into_response :: "'h http_lib \<Rightarrow> 'h reply \<Rightarrow> 'h response" where
  "into_response lib (RRedirect rd) = redirect_into_response lib rd"
| "into_response lib (RResponse r) = r"
| "into_response lib (RStr s) = full_response lib 200 ''text/plain; charset=utf-8'' s"
| "into_response lib (RString s) = full_response lib 200 ''text/plain; charset=utf-8'' s"
| "into_response lib (RStatus st) = (response_new lib body_empty)\<lparr>r_status := st\<rparr>"
| "into_response lib (RJson ser) = json_body lib 200 ser"
| "into_response lib (RCreated ser) = json_body lib 201 ser"
| "into_response lib RNoContent = (response_new lib body_empty)\<lparr>r_status := 204\<rparr>"
| "into_response lib (RWithStatus st inner) = (into_response lib inner)\<lparr>r_status := st\<rparr>"
| "into_response lib (RError e) = error_into_response lib e"
| "into_response lib (RResult (Ok v)) = into_response lib v"
| "into_response lib (RResult (Err e)) = error_into_response lib e"
| "into_response lib (RStream sb) = stream_into_response lib sb"

section \<open>Lemmas\<close>

lemma alist_lib_laws: "http_laws alist_lib"
proof -
  have "map snd (filter (\<lambda>p. fst p = m) (filter (\<lambda>p. fst p \<noteq> n) h)) =
        (if m = n then [] else map snd (filter (\<lambda>p. fst p = m) h))" for m n :: str and h :: "(str \<times> bytes) list"
    by (induction h) auto
  then show ?thesis
    unfolding http_laws_def alist_lib_def
    by (auto simp: list_all_iff byte_in_def Suc_le_eq less_Suc_eq_le split: if_splits)
qed

lemma http_lawsD:
  assumes "http_laws lib"
  shows "hm_get_all lib n (hm_new lib) = []"
    and "hm_get_all lib m (hm_insert lib n v h) = (if m = n then [v] else hm_get_all lib m h)"
    and "hm_get_all lib m (hm_append lib n v h) =
           (if m = n then hm_get_all lib n h @ [v] else hm_get_all lib m h)"
    and "hv_from_str lib s = Some v \<Longrightarrow> v = s"
    and "hv_to_str lib v = Some s \<Longrightarrow> s = v \<and> hv_from_str lib s = Some v"
proof -
  note l = assms [unfolded http_laws_def]
  note l2 = conjunct2 [OF l]
  note l3 = conjunct2 [OF l2]
  note l4 = conjunct2 [OF l3]
  note l5 = conjunct2 [OF l4]
  show "hm_get_all lib n (hm_new lib) = []" using conjunct1 [OF l] by blast
  show "hm_get_all lib m (hm_insert lib n v h) = (if m = n then [v] else hm_get_all lib m h)"
    using conjunct1 [OF l2] by blast
  show "hm_get_all lib m (hm_append lib n v h) =
      (if m = n then hm_get_all lib n h @ [v] else hm_get_all lib m h)"
    using conjunct1 [OF l3] by blast
  show "hv_from_str lib s = Some v \<Longrightarrow> v = s" using conjunct1 [OF l4] by blast
  show "hv_to_str lib v = Some s \<Longrightarrow> s = v \<and> hv_from_str lib s = Some v"
    using conjunct1 [OF l5] by blast
qed

lemma http_laws_ascii: "http_laws lib \<Longrightarrow> list_all (byte_in 32 126) v \<Longrightarrow> hv_to_str lib v = Some v"
  unfolding http_laws_def by simp

lemma insert_header_simps [simp]:
  "r_status (insert_header lib n v r) = r_status r"
  "r_headers (insert_header lib n v r) = hm_insert lib n v (r_headers r)"
  "r_body (insert_header lib n v r) = r_body r"
  "r_error_parts (insert_header lib n v r) = r_error_parts r"
  by (simp_all add: insert_header_def)

lemma error_into_response_simps [simp]:
  "r_status (error_into_response lib e) = status e"
  "r_body (error_into_response lib e) = JFull (json_to_vec lib (error_body e))"
  "r_error_parts (error_into_response lib e) = Some \<lparr>parts_code = code e, parts_message = message e\<rparr>"
  by (simp_all add: error_into_response_def full_response_def response_new_def body_full_def)

end
