(* ===== verification/JC_Cors.thy ===== *)
theory JC_Cors
  imports JC_Http
begin

text \<open>
  Cross-origin policy, \<open>jerrycan-core/src/cors.rs\<close>: the configuration and its builders, build-time
  validation, preflight detection, the preflight response and the decoration of actual responses.
  Durations are in seconds here because only \<open>as_secs\<close> of \<open>max_age\<close> is read.
\<close>

datatype cors_origins = Any | Listed "str list"

record cors_config =
  c_origins :: cors_origins
  c_methods :: "str list"
  c_headers :: "str list"
  c_expose :: "str list"
  c_allow_credentials :: bool
  c_max_age :: "nat option"

definition cors_new :: "cors_origins \<Rightarrow> cors_config" where
  "cors_new origins = \<lparr>c_origins = origins, c_methods = [], c_headers = [], c_expose = [],
     c_allow_credentials = False, c_max_age = None\<rparr>"

definition allow_credentials :: "bool \<Rightarrow> cors_config \<Rightarrow> cors_config" where
  "allow_credentials yes c = c\<lparr>c_allow_credentials := yes\<rparr>"

definition max_age :: "nat \<Rightarrow> cors_config \<Rightarrow> cors_config" where
  "max_age d c = c\<lparr>c_max_age := Some d\<rparr>"

definition allow_methods :: "str list \<Rightarrow> cors_config \<Rightarrow> cors_config" where
  "allow_methods ms c = c\<lparr>c_methods := ms\<rparr>"

definition allow_headers :: "str list \<Rightarrow> cors_config \<Rightarrow> cors_config" where
  "allow_headers hs c = c\<lparr>c_headers := hs\<rparr>"

definition expose_headers :: "str list \<Rightarrow> cors_config \<Rightarrow> cors_config" where
  "expose_headers hs c = c\<lparr>c_expose := hs\<rparr>"

definition allows_origin :: "cors_config \<Rightarrow> str \<Rightarrow> bool" where
  "allows_origin c origin = (case c_origins c of Any \<Rightarrow> True | Listed l \<Rightarrow> list_ex (\<lambda>x. x = origin) l)"

definition validate :: "cors_config \<Rightarrow> (error, unit) result" where
  "validate c =
     (if c_allow_credentials c \<and> c_origins c = Any then
        Err (internal (''CORS misconfiguration: allow_credentials(true) cannot be combined with CorsOrigins::any() ''
          @ map char_of [226::nat, 128, 148] @ '' list explicit origins''))
      else Ok ())"

definition is_preflight :: "'h http_lib \<Rightarrow> 'h parts \<Rightarrow> bool" where
  "is_preflight lib p \<longleftrightarrow> p_method p = ''OPTIONS'' \<and> hm_contains lib ''origin'' (p_headers p) \<and>
     hm_contains lib ''access-control-request-method'' (p_headers p)"

text \<open>\<open>if let Ok(v) = HeaderValue::from_str(s) { insert }\<close>.\<close>

definition insert_str :: "'h http_lib \<Rightarrow> str \<Rightarrow> str \<Rightarrow> 'h \<Rightarrow> 'h" where
  "insert_str lib n s h = (case hv_from_str lib s of None \<Rightarrow> h | Some v \<Rightarrow> hm_insert lib n v h)"

definition preflight_response ::
  "'h http_lib \<Rightarrow> cors_config \<Rightarrow> str \<Rightarrow> str option \<Rightarrow> str list \<Rightarrow> 'h response" where
  "preflight_response lib c origin request_headers allowed_methods =
     (let r = (response_new lib body_empty)\<lparr>r_status := 204\<rparr>;
          h0 = r_headers r;
          h1 = (case hv_from_str lib origin of None \<Rightarrow> h0
                | Some v \<Rightarrow> hm_insert lib ''vary'' ''Origin'' (hm_insert lib ''access-control-allow-origin'' v h0));
          h2 = (if c_allow_credentials c
                then hm_insert lib ''access-control-allow-credentials'' ''true'' h1 else h1);
          methods = (if c_methods c = [] then allowed_methods else c_methods c);
          h3 = insert_str lib ''access-control-allow-methods'' (join_with '', '' methods) h2;
          allow_hdrs = (if c_headers c = [] then request_headers else Some (join_with '', '' (c_headers c)));
          h4 = (case allow_hdrs of None \<Rightarrow> h3
                | Some hdrs \<Rightarrow> insert_str lib ''access-control-allow-headers'' hdrs h3);
          h5 = (case c_max_age c of None \<Rightarrow> h4
                | Some age \<Rightarrow> insert_str lib ''access-control-max-age'' (show_nat age) h4)
      in r\<lparr>r_headers := h5\<rparr>)"

text \<open>The scan for an existing \<open>Vary: Origin\<close>; a value that is not visible ASCII is passed over.\<close>

definition has_origin_vary :: "'h http_lib \<Rightarrow> 'h \<Rightarrow> bool" where
  "has_origin_vary lib h =
     list_ex (\<lambda>v. case hv_to_str lib v of None \<Rightarrow> False
        | Some s \<Rightarrow> list_ex (\<lambda>p. eq_ignore_ascii_case (trim p) ''origin'') (split_on CHR '','' s))
       (hm_get_all lib ''vary'' h)"

definition insert_absent :: "'h http_lib \<Rightarrow> str \<Rightarrow> bytes \<Rightarrow> 'h \<Rightarrow> 'h" where
  "insert_absent lib n v h = (if hm_contains lib n h then h else hm_insert lib n v h)"

text \<open>The header block of \<open>apply_cors\<close>, after the origin has been accepted.\<close>

definition cors_headers :: "'h http_lib \<Rightarrow> bytes \<Rightarrow> cors_config \<Rightarrow> 'h \<Rightarrow> 'h" where
  "cors_headers lib origin_val c h0 =
     (let h1 = insert_absent lib ''access-control-allow-origin'' origin_val h0;
          h2 = (if c_allow_credentials c
                then insert_absent lib ''access-control-allow-credentials'' ''true'' h1 else h1);
          h3 = (if c_expose c \<noteq> [] \<and> \<not> hm_contains lib ''access-control-expose-headers'' h2
                then insert_str lib ''access-control-expose-headers'' (join_with '', '' (c_expose c)) h2
                else h2)
      in if has_origin_vary lib h3 then h3 else hm_append lib ''vary'' ''Origin'' h3)"

definition apply_cors :: "'h http_lib \<Rightarrow> 'h response \<Rightarrow> bytes option \<Rightarrow> cors_config \<Rightarrow> 'h response" where
  "apply_cors lib res origin_hdr c =
     (case origin_hdr of None \<Rightarrow> res | Some ov \<Rightarrow>
      (case hv_to_str lib ov of None \<Rightarrow> res | Some origin \<Rightarrow>
       if \<not> allows_origin c origin then res else
       (case hv_from_str lib origin of None \<Rightarrow> res | Some origin_val \<Rightarrow>
        res\<lparr>r_headers := cors_headers lib origin_val c (r_headers res)\<rparr>)))"

section \<open>Lemmas\<close>

lemma get_all_insert_absent:
  "http_laws lib \<Longrightarrow> hm_get_all lib m (insert_absent lib n v h) =
     (if m = n \<and> hm_get_all lib n h = [] then [v] else hm_get_all lib m h)"
  by (simp add: insert_absent_def hm_contains_def http_lawsD)

lemma get_all_insert_str:
  "http_laws lib \<Longrightarrow> hm_get_all lib m (insert_str lib n s h) =
     (if m = n \<and> hv_from_str lib s \<noteq> None then [s] else hm_get_all lib m h)"
  by (auto simp: insert_str_def http_lawsD dest: http_lawsD(4) split: option.splits)

lemma has_origin_vary_cong:
  "hm_get_all lib ''vary'' h = hm_get_all lib ''vary'' h' \<Longrightarrow> has_origin_vary lib h = has_origin_vary lib h'"
  by (simp add: has_origin_vary_def)

text \<open>What \<open>apply_cors\<close> does to every header name, for an origin it accepts.\<close>

lemma apply_cors_allowed:
  assumes laws: "http_laws lib" and "hv_to_str lib ov = Some origin" and "allows_origin c origin"
  shows "hm_get_all lib n (r_headers (apply_cors lib res (Some ov) c)) =
    (let old = hm_get_all lib n (r_headers res) in
     if n = ''access-control-allow-origin'' \<and> old = [] then [ov]
     else if n = ''access-control-allow-credentials'' \<and> old = [] \<and> c_allow_credentials c then [''true'']
     else if n = ''access-control-expose-headers'' \<and> old = [] \<and> c_expose c \<noteq> [] \<and>
             hv_from_str lib (join_with '', '' (c_expose c)) \<noteq> None then [join_with '', '' (c_expose c)]
     else if n = ''vary'' \<and> \<not> has_origin_vary lib (r_headers res) then old @ [''Origin'']
     else old)"
proof -
  define h1 where "h1 = insert_absent lib ''access-control-allow-origin'' ov (r_headers res)"
  define h2 where "h2 = (if c_allow_credentials c
      then insert_absent lib ''access-control-allow-credentials'' ''true'' h1 else h1)"
  define h3 where "h3 = (if c_expose c \<noteq> [] \<and> \<not> hm_contains lib ''access-control-expose-headers'' h2
      then insert_str lib ''access-control-expose-headers'' (join_with '', '' (c_expose c)) h2 else h2)"
  have o: "origin = ov" "hv_from_str lib origin = Some ov" using http_lawsD(5)[OF laws assms(2)] by auto
  have r: "r_headers (apply_cors lib res (Some ov) c) =
      (if has_origin_vary lib h3 then h3 else hm_append lib ''vary'' ''Origin'' h3)"
    using assms o by (simp add: apply_cors_def cors_headers_def Let_def h1_def h2_def h3_def)
  have g1: "hm_get_all lib m h1 = (if m = ''access-control-allow-origin'' \<and> hm_get_all lib m (r_headers res) = []
      then [ov] else hm_get_all lib m (r_headers res))" for m
    unfolding h1_def get_all_insert_absent [OF laws] by (simp cong: conj_cong)
  have g2: "hm_get_all lib m h2 = (if m = ''access-control-allow-credentials'' \<and> c_allow_credentials c \<and>
      hm_get_all lib m h1 = [] then [''true''] else hm_get_all lib m h1)" for m
    unfolding h2_def if_distrib [of "hm_get_all lib m"] get_all_insert_absent [OF laws] by (simp cong: conj_cong)
  have g3: "hm_get_all lib m h3 = (if m = ''access-control-expose-headers'' \<and> c_expose c \<noteq> [] \<and>
      hm_get_all lib m h2 = [] \<and> hv_from_str lib (join_with '', '' (c_expose c)) \<noteq> None
      then [join_with '', '' (c_expose c)] else hm_get_all lib m h2)" for m
    unfolding h3_def if_distrib [of "hm_get_all lib m"] get_all_insert_str [OF laws] hm_contains_def
    by (simp cong: conj_cong)
  have "hm_get_all lib ''vary'' h3 = hm_get_all lib ''vary'' (r_headers res)"
    by (simp add: g1 g2 g3)
  then have v: "has_origin_vary lib h3 = has_origin_vary lib (r_headers res)"
    by (rule has_origin_vary_cong)
  have p: "hm_get_all lib m (r_headers (apply_cors lib res (Some ov) c)) =
      (if m = ''vary'' \<and> \<not> has_origin_vary lib (r_headers res) then hm_get_all lib m h3 @ [''Origin'']
       else hm_get_all lib m h3)" for m
    unfolding r v if_distrib [of "\<lambda>h. hm_get_all lib m h"] http_lawsD(3)[OF laws] by simp
  consider "n = ''access-control-allow-origin''" | "n = ''access-control-allow-credentials''"
    | "n = ''access-control-expose-headers''" | "n = ''vary''"
    | "n \<notin> {''access-control-allow-origin'', ''access-control-allow-credentials'', ''access-control-expose-headers'', ''vary''}"
    by blast
  then show ?thesis
    by cases (simp_all add: p g1 g2 g3 Let_def)
qed

lemma origin_piece: "eq_ignore_ascii_case (trim ''Origin'') ''origin''"
proof -
  have "trim ''Origin'' = ''Origin''" by (rule trim_visible) (simp_all add: byte_in_def)
  moreover have "eq_ignore_ascii_case ''Origin'' ''origin''" by code_simp
  ultimately show ?thesis by (simp only:)
qed

lemma has_origin_vary_append:
  assumes "http_laws lib" and "hm_get_all lib ''vary'' h = vs @ [''Origin'']"
  shows "has_origin_vary lib h"
proof -
  have "hv_to_str lib ''Origin'' = Some ''Origin''"
    by (rule http_laws_ascii [OF assms(1)]) code_simp
  moreover have "split_on CHR '','' ''Origin'' = [''Origin'']" by code_simp
  ultimately show ?thesis using assms(2) origin_piece by (simp add: has_origin_vary_def)
qed

lemma apply_cors_cases:
  assumes "http_laws lib"
  obtains "apply_cors lib res ov c = res" "\<And>res'. apply_cors lib res' ov c = res'"
  | origin where "ov = Some origin" "hv_to_str lib origin = Some origin" "allows_origin c origin"
proof (cases "\<exists>o' s. ov = Some o' \<and> hv_to_str lib o' = Some s \<and> allows_origin c s")
  case True
  then show ?thesis using that(2) http_lawsD(5)[OF assms] by blast
next
  case False
  then have "apply_cors lib res' ov c = res'" for res'
    by (auto simp: apply_cors_def split: option.splits)
  then show ?thesis using that(1) by blast
qed

lemma apply_cors_fixed:
  assumes "hv_to_str lib origin = Some origin" "allows_origin c origin"
    and "hm_get_all lib ''access-control-allow-origin'' (r_headers res) \<noteq> []"
    and "c_allow_credentials c \<Longrightarrow> hm_get_all lib ''access-control-allow-credentials'' (r_headers res) \<noteq> []"
    and "c_expose c \<noteq> [] \<Longrightarrow> hv_from_str lib (join_with '', '' (c_expose c)) = None \<or>
      hm_get_all lib ''access-control-expose-headers'' (r_headers res) \<noteq> []"
    and "has_origin_vary lib (r_headers res)"
  shows "apply_cors lib res (Some origin) c = res"
proof -
  have e: "(if c_expose c \<noteq> [] \<and> \<not> hm_contains lib ''access-control-expose-headers'' (r_headers res)
      then insert_str lib ''access-control-expose-headers'' (join_with '', '' (c_expose c)) (r_headers res)
      else r_headers res) = r_headers res"
    using assms(5) by (auto simp: hm_contains_def insert_str_def)
  have a: "insert_absent lib ''access-control-allow-origin'' v (r_headers res) = r_headers res" for v
    using assms(3) by (simp add: insert_absent_def hm_contains_def)
  have cr: "(if c_allow_credentials c then insert_absent lib ''access-control-allow-credentials'' ''true''
      (r_headers res) else r_headers res) = r_headers res"
    using assms(4) by (simp add: insert_absent_def hm_contains_def)
  show ?thesis
  proof (cases "hv_from_str lib origin")
    case (Some v)
    have "apply_cors lib res (Some origin) c = res\<lparr>r_headers := r_headers res\<rparr>"
      unfolding apply_cors_def cors_headers_def Let_def
      by (simp only: option.case assms(1,2,6) Some a cr e not_True_eq_False if_False if_True)
    then show ?thesis by simp
  qed (simp add: apply_cors_def assms(1,2))
qed

lemma apply_cors_vary:
  assumes "http_laws lib" "hv_to_str lib origin = Some origin" "allows_origin c origin"
  shows "has_origin_vary lib (r_headers (apply_cors lib res (Some origin) c))"
proof (cases "has_origin_vary lib (r_headers res)")
  case True
  then show ?thesis
    using has_origin_vary_cong [of lib "r_headers (apply_cors lib res (Some origin) c)" "r_headers res"]
      apply_cors_allowed [OF assms] by (simp add: Let_def)
next
  case False
  then show ?thesis
    using has_origin_vary_append [OF assms(1)] apply_cors_allowed [OF assms] by (simp add: Let_def)
qed

lemma apply_cors_headers_only:
  "apply_cors lib res ov c = res\<lparr>r_headers := r_headers (apply_cors lib res ov c)\<rparr>"
  by (simp add: apply_cors_def split: option.splits)

lemma apply_cors_extends:
  assumes "http_laws lib"
  shows "\<exists>new. hm_get_all lib n (r_headers (apply_cors lib res ov c)) = hm_get_all lib n (r_headers res) @ new \<and>
    (hm_get_all lib n (r_headers res) \<noteq> [] \<and> n \<noteq> ''vary'' \<longrightarrow> new = [])"
proof (rule apply_cors_cases [OF assms, of res ov c])
  fix origin assume o: "ov = Some origin" "hv_to_str lib origin = Some origin" "allows_origin c origin"
  note g = apply_cors_allowed [OF assms o(2,3), of n res, folded o(1)]
  show ?thesis
  proof (cases "hm_get_all lib n (r_headers res) = [] \<or> n = ''vary''")
    case True
    then show ?thesis
    proof
      assume "hm_get_all lib n (r_headers res) = []"
      then show ?thesis by simp
    qed (use g in \<open>simp add: Let_def\<close>)
  next
    case False
    then show ?thesis using g by (simp add: Let_def)
  qed
qed simp

lemma apply_cors_twice:
  assumes "http_laws lib"
  shows "apply_cors lib (apply_cors lib res ov c) ov c = apply_cors lib res ov c"
proof (rule apply_cors_cases [OF assms, of res ov c])
  fix origin assume o: "ov = Some origin" "hv_to_str lib origin = Some origin" "allows_origin c origin"
  note g = apply_cors_allowed [OF assms o(2,3), of _ res]
  show ?thesis unfolding o(1)
  proof (rule apply_cors_fixed [OF o(2,3)])
    show "hm_get_all lib ''access-control-allow-origin'' (r_headers (apply_cors lib res (Some origin) c)) \<noteq> []"
      unfolding g by (simp add: Let_def)
    show "hm_get_all lib ''access-control-allow-credentials'' (r_headers (apply_cors lib res (Some origin) c)) \<noteq> []"
      if "c_allow_credentials c" using that unfolding g by (simp add: Let_def)
    show "hv_from_str lib (join_with '', '' (c_expose c)) = None \<or>
      hm_get_all lib ''access-control-expose-headers'' (r_headers (apply_cors lib res (Some origin) c)) \<noteq> []"
      if "c_expose c \<noteq> []" using that unfolding g by (auto simp: Let_def)
  qed (rule apply_cors_vary [OF assms o(2,3)])
qed simp

lemma apply_cors_origin:
  assumes "http_laws lib" "hv_to_str lib origin \<noteq> None" "allows_origin c origin"
  shows "hm_get_all lib ''access-control-allow-origin'' (r_headers (apply_cors lib res (Some origin) c)) =
    (if hm_get_all lib ''access-control-allow-origin'' (r_headers res) = [] then [origin]
     else hm_get_all lib ''access-control-allow-origin'' (r_headers res))"
    and "has_origin_vary lib (r_headers (apply_cors lib res (Some origin) c))"
    and "hm_get_all lib ''access-control-allow-credentials'' (r_headers (apply_cors lib res (Some origin) c)) =
    (if hm_get_all lib ''access-control-allow-credentials'' (r_headers res) = [] \<and> c_allow_credentials c
     then [''true''] else hm_get_all lib ''access-control-allow-credentials'' (r_headers res))"
proof -
  have o: "hv_to_str lib origin = Some origin" using assms(2) http_lawsD(5)[OF assms(1)] by blast
  show "has_origin_vary lib (r_headers (apply_cors lib res (Some origin) c))"
    by (rule apply_cors_vary [OF assms(1) o assms(3)])
  show "hm_get_all lib ''access-control-allow-origin'' (r_headers (apply_cors lib res (Some origin) c)) =
    (if hm_get_all lib ''access-control-allow-origin'' (r_headers res) = [] then [origin]
     else hm_get_all lib ''access-control-allow-origin'' (r_headers res))"
    unfolding apply_cors_allowed [OF assms(1) o assms(3)] by (simp add: Let_def)
  show "hm_get_all lib ''access-control-allow-credentials'' (r_headers (apply_cors lib res (Some origin) c)) =
    (if hm_get_all lib ''access-control-allow-credentials'' (r_headers res) = [] \<and> c_allow_credentials c
     then [''true''] else hm_get_all lib ''access-control-allow-credentials'' (r_headers res))"
    unfolding apply_cors_allowed [OF assms(1) o assms(3)] by (simp add: Let_def)
qed

lemma apply_cors_refused:
  "\<not> (\<exists>origin. ov = Some origin \<and> hv_to_str lib origin = Some origin \<and> allows_origin c origin) \<Longrightarrow>
   http_laws lib \<Longrightarrow> apply_cors lib res ov c = res"
  by (rule apply_cors_cases [of lib res ov c]) auto

section \<open>Properties\<close>

text \<open>Decorating a response for CORS is safe to repeat and never overwrites what a handler set.
  Applying it twice equals applying it once; only headers change; the values a name had stay in
  front, and nothing is added to a name that had a value, except to \<open>Vary\<close>.\<close>

lemma apply_cors_idempotent:
  assumes "http_laws lib"
  shows "apply_cors lib (apply_cors lib res ov c) ov c = apply_cors lib res ov c \<and>
    apply_cors lib res ov c = res\<lparr>r_headers := r_headers (apply_cors lib res ov c)\<rparr> \<and>
    (\<exists>new. hm_get_all lib n (r_headers (apply_cors lib res ov c)) = hm_get_all lib n (r_headers res) @ new \<and>
      (hm_get_all lib n (r_headers res) \<noteq> [] \<and> n \<noteq> ''vary'' \<longrightarrow> new = []))"
  using apply_cors_twice [OF assms] apply_cors_headers_only apply_cors_extends [OF assms] by blast

text \<open>C5: a policy with a list of origins grants access to those origins only, and credentials go with a
  list only. After a successful \<open>validate\<close>, decorating a response without \<open>Access-Control-*\<close> headers for a request whose
  origin is not in the list changes nothing; an \<open>Access-Control-Allow-Origin\<close> that it gets is the
  request's own \<open>Origin\<close>, once, and in the list; and credentials are announced only under a policy
  with a list, for a listed origin that is named. The value that the policy \<open>Any\<close> answers with is not
  part of this property: the documentation says \<open>*\<close>, the code does otherwise (\<open>cors_any_echoes_origin\<close>).\<close>

theorem cors_grants_are_listed:
  assumes "http_laws lib" and "validate c = Ok ()"
    and "hm_get_all lib ''access-control-allow-origin'' (r_headers res) = []"
    and "hm_get_all lib ''access-control-allow-credentials'' (r_headers res) = []"
    and "res' = apply_cors lib res ov c"
  shows "(\<forall>l. c_origins c = Listed l \<longrightarrow>
       ((\<forall>a. ov = Some a \<longrightarrow> a \<notin> set l) \<longrightarrow> res' = res) \<and>
       (hm_get_all lib ''access-control-allow-origin'' (r_headers res') \<noteq> [] \<longrightarrow>
         (\<exists>a \<in> set l. ov = Some a \<and> hm_get_all lib ''access-control-allow-origin'' (r_headers res') = [a]))) \<and>
    (hm_get_all lib ''access-control-allow-credentials'' (r_headers res') \<noteq> [] \<longrightarrow>
      (\<exists>l. \<exists>a \<in> set l. c_origins c = Listed l \<and> ov = Some a \<and>
         hm_get_all lib ''access-control-allow-origin'' (r_headers res') = [a]))"
proof (cases "\<exists>origin. ov = Some origin \<and> hv_to_str lib origin = Some origin \<and> allows_origin c origin")
  case False
  then have "res' = res" using apply_cors_refused assms(1,5) by blast
  then show ?thesis using assms(3,4) by simp
next
  case True
  then obtain a where o: "ov = Some a" "hv_to_str lib a \<noteq> None" "allows_origin c a" by auto
  have origin: "hm_get_all lib ''access-control-allow-origin'' (r_headers res') = [a]"
    using apply_cors_origin(1) [OF assms(1) o(2,3), of res] o(1) assms(3,5) by simp
  have listed: "a \<in> set l" if "c_origins c = Listed l" for l
    using o(3) that by (auto simp: allows_origin_def list_ex_iff)
  have "c_allow_credentials c" if "hm_get_all lib ''access-control-allow-credentials'' (r_headers res') \<noteq> []"
    using apply_cors_origin(3) [OF assms(1) o(2,3), of res] o(1) that assms(4,5) by (auto split: if_splits)
  then have "\<exists>l. c_origins c = Listed l" if "hm_get_all lib ''access-control-allow-credentials'' (r_headers res') \<noteq> []"
    using that assms(2) by (cases "c_origins c") (auto simp: validate_def)
  then show ?thesis using origin listed o(1) by blast
qed

theorem cors_grants_are_listed_witness:
  "\<exists>l. c_origins (allow_credentials True (cors_new (Listed [''http://a'']))) = Listed l \<and> ''http://a'' \<in> set l"
proof -
  let ?c = "allow_credentials True (cors_new (Listed [''http://a'']))"
  let ?r = "response_new alist_lib body_empty"
  have "hm_get_all alist_lib ''access-control-allow-credentials'' (r_headers (apply_cors alist_lib ?r (Some ''http://a'') ?c)) \<noteq> []"
    "''http://a'' \<in> set (hm_get_all alist_lib ''access-control-allow-origin'' (r_headers (apply_cors alist_lib ?r (Some ''http://a'') ?c)))"
    "validate ?c = Ok ()" "hm_get_all alist_lib ''access-control-allow-origin'' (r_headers ?r) = []"
    "hm_get_all alist_lib ''access-control-allow-credentials'' (r_headers ?r) = []"
    by code_simp+
  then show ?thesis using cors_grants_are_listed [OF alist_lib_laws _ _ _ refl] by blast
qed

text \<open>The wildcard policy never answers with a wildcard. Under \<open>CorsOrigins::Any\<close> both the
  decorated response and the preflight response carry the request's own origin in
  \<open>Access-Control-Allow-Origin\<close>, so the value \<open>*\<close> appears only if the request sent it.\<close>

lemma cors_any_echoes_origin:
  assumes "http_laws lib" and "hv_to_str lib origin = Some origin" and "c_origins c = Any"
    and "hm_get_all lib ''access-control-allow-origin'' (r_headers res) = []"
  shows "hm_get_all lib ''access-control-allow-origin'' (r_headers (apply_cors lib res (Some origin) c)) = [origin] \<and>
    hm_get_all lib ''access-control-allow-origin'' (r_headers (preflight_response lib c origin rh ms)) = [origin]"
proof -
  have "allows_origin c origin" using assms(3) by (simp add: allows_origin_def)
  moreover have "hv_from_str lib origin = Some origin" using http_lawsD(5)[OF assms(1,2)] by simp
  ultimately show ?thesis
    using apply_cors_origin(1)[OF assms(1), of origin c res] assms
    by (simp add: preflight_response_def Let_def http_lawsD get_all_insert_str split: option.splits)
qed

end
