(* ===== verification/JC_Extract.thy ===== *)
theory JC_Extract
  imports JC_Http
begin

text \<open>
  Request context and extractors, \<open>jerrycan-core/src/extract.rs\<close>.

  \<open>request_data\<close> is the part of \<open>RequestCtx\<close> that the resolver of \<open>JC_Dep\<close> carries as its
  parameter: the head, the body lane and the captured path parameters. Every HTTP extractor is a
  function on it; the check for a task context, which each extractor makes first, is
  \<open>extract_http\<close> of \<open>JC_Dep\<close>. A stream lane is the frames that arrive and how they end: cleanly, at
  the length limit, at the read deadline, or by another failure. Deserialisers are arguments; the
  integer and boolean parsers of the standard library are defined here.
\<close>

section \<open>The request body\<close>

datatype stream_error = LengthLimitError | RecvTimeout | OtherStreamError

type_synonym stream_lane = "bytes list \<times> stream_error option"

datatype body_lane = Buffered bytes | Stream "stream_lane option"

record 'h request_data =
  rq_parts :: "'h parts"
  rq_body :: body_lane
  rq_params :: "(str \<times> str) list"

definition with_lane :: "'h parts \<Rightarrow> body_lane \<Rightarrow> 'h request_data" where
  "with_lane p lane = \<lparr>rq_parts = p, rq_body = lane, rq_params = []\<rparr>"

definition ctx_new :: "'h parts \<Rightarrow> bytes \<Rightarrow> 'h request_data" where
  "ctx_new p b = with_lane p (Buffered b)"

definition body_read_timeout_error :: error where
  "body_read_timeout_error = error_new 408 ''JC0408'' ''timed out reading the request body''"

definition map_stream_error :: "stream_error \<Rightarrow> error" where
  "map_stream_error e =
     (case e of LengthLimitError \<Rightarrow> payload_too_large
      | RecvTimeout \<Rightarrow> body_read_timeout_error
      | OtherStreamError \<Rightarrow> bad_request ''request body failed mid-read'')"

text \<open>
  \<open>drain_body\<close>: on a stream the lane is taken first, so a failed read leaves the slot empty and a
  successful one is cached as a buffered body.
\<close>

definition drain_body :: "'h request_data \<Rightarrow> (error, bytes) result \<times> 'h request_data" where
  "drain_body rq =
     (case rq_body rq of
        Buffered b \<Rightarrow> (Ok b, rq)
      | Stream None \<Rightarrow> (Err (internal ''request body was already consumed''), rq)
      | Stream (Some (frames, None)) \<Rightarrow> (Ok (concat frames), rq\<lparr>rq_body := Buffered (concat frames)\<rparr>)
      | Stream (Some (frames, Some e)) \<Rightarrow> (Err (map_stream_error e), rq\<lparr>rq_body := Stream None\<rparr>))"

section \<open>Path parameters\<close>

definition param :: "str \<Rightarrow> 'h request_data \<Rightarrow> str option" where
  "param name rq = map_option snd (List.find (\<lambda>p. fst p = name) (rq_params rq))"

definition peer_addr :: "'h request_data \<Rightarrow> str option" where
  "peer_addr rq = p_client_addr (rq_parts rq)"

text \<open>\<open>PathParam::parse_param\<close> over the \<open>FromStr\<close> implementation of the type.\<close>

definition parse_param :: "(str \<Rightarrow> (str, 'v) result) \<Rightarrow> str \<Rightarrow> str \<Rightarrow> (error, 'v) result" where
  "parse_param from_str name raw =
     (case from_str raw of Ok v \<Rightarrow> Ok v
      | Err e \<Rightarrow> Err (bad_request (''invalid path parameter `'' @ name @ ''`: '' @ e)))"

text \<open>
  \<open>str::parse\<close> for the integer types of \<open>w\<close> bits: an optional sign (a minus only for signed
  types), at least one digit, and the value in range; the first position that fails decides the error.
\<close>

definition digit :: "char \<Rightarrow> nat option" where
  "digit c = (if byte_in 48 57 c then Some (of_char c - 48) else None)"

fun parse_digits :: "int \<Rightarrow> int \<Rightarrow> bool \<Rightarrow> str \<Rightarrow> int \<Rightarrow> (str, int) result" where
  "parse_digits lo hi neg [] acc = Ok acc"
| "parse_digits lo hi neg (c # cs) acc =
     (case digit c of None \<Rightarrow> Err ''invalid digit found in string''
      | Some d \<Rightarrow>
          (let v = (if neg then acc * 10 - int d else acc * 10 + int d) in
           if v > hi then Err ''number too large to fit in target type''
           else if v < lo then Err ''number too small to fit in target type''
           else parse_digits lo hi neg cs v))"

definition parse_int :: "int \<Rightarrow> int \<Rightarrow> str \<Rightarrow> (str, int) result" where
  "parse_int lo hi s =
     (if s = [] then Err ''cannot parse integer from empty string''
      else if s = ''+'' \<or> s = ''-'' then Err ''invalid digit found in string''
      else if hd s = CHR ''+'' then parse_digits lo hi False (tl s) 0
      else if hd s = CHR ''-'' \<and> lo < 0 then parse_digits lo hi True (tl s) 0
      else parse_digits lo hi False s 0)"

definition parse_i64 :: "str \<Rightarrow> (str, int) result" where
  "parse_i64 s = parse_int (- (2 ^ 63)) (2 ^ 63 - 1) s"

definition parse_u64 :: "str \<Rightarrow> (str, int) result" where
  "parse_u64 s = parse_int 0 (2 ^ 64 - 1) s"

text \<open>\<open>Path<T>\<close> binds the last captured parameter.\<close>

definition extract_path :: "(str \<Rightarrow> (str, 'v) result) \<Rightarrow> 'h request_data \<Rightarrow> (error, 'v) result \<times> 'h request_data" where
  "extract_path from_str rq =
     (if rq_params rq = [] then (Err (internal ''route has no path parameters''), rq)
      else (case last (rq_params rq) of (name, raw) \<Rightarrow> (parse_param from_str name raw, rq)))"

definition take_params :: "nat \<Rightarrow> 'h request_data \<Rightarrow> (error, (str \<times> str) list) result" where
  "take_params n rq =
     (if length (rq_params rq) < n then
        Err (internal (''route captures '' @ show_nat (length (rq_params rq)) @
          '' path parameter(s) but the handler expects '' @ show_nat n))
      else Ok (take n (rq_params rq)))"

text \<open>The tuple extractors of arity 2 to 6: one parser per component, in order, first error wins.\<close>

fun parse_each :: "(str \<Rightarrow> (str, 'v) result) list \<Rightarrow> (str \<times> str) list \<Rightarrow> (error, 'v list) result" where
  "parse_each (f # fs) ((name, raw) # ps) =
     bind_result (parse_param f name raw) (\<lambda>v. bind_result (parse_each fs ps) (\<lambda>vs. Ok (v # vs)))"
| "parse_each _ _ = Ok []"

definition extract_path_tuple ::
  "(str \<Rightarrow> (str, 'v) result) list \<Rightarrow> 'h request_data \<Rightarrow> (error, 'v list) result \<times> 'h request_data" where
  "extract_path_tuple fs rq =
     (bind_result (take_params (length fs) rq) (\<lambda>ps. parse_each fs ps), rq)"

text \<open>\<open>PathParams\<close> and its \<open>get\<close>.\<close>

definition extract_path_params :: "'h request_data \<Rightarrow> (error, (str \<times> str) list) result \<times> 'h request_data" where
  "extract_path_params rq = (Ok (rq_params rq), rq)"

definition path_params_get :: "str \<Rightarrow> (str \<times> str) list \<Rightarrow> str option" where
  "path_params_get name ps = map_option snd (List.find (\<lambda>p. fst p = name) ps)"

section \<open>Query, body and header extractors\<close>

definition extract_query :: "(str \<Rightarrow> (str, 'v) result) \<Rightarrow> 'h request_data \<Rightarrow> (error, 'v) result \<times> 'h request_data" where
  "extract_query de rq =
     (case de (case p_query (rq_parts rq) of None \<Rightarrow> [] | Some q \<Rightarrow> q) of
        Ok v \<Rightarrow> (Ok v, rq)
      | Err e \<Rightarrow> (Err (bad_request (''invalid query string: '' @ e)), rq))"

definition extract_json :: "(bytes \<Rightarrow> (str, 'v) result) \<Rightarrow> 'h request_data \<Rightarrow> (error, 'v) result \<times> 'h request_data" where
  "extract_json de rq =
     (case drain_body rq of
        (Err e, rq') \<Rightarrow> (Err e, rq')
      | (Ok b, rq') \<Rightarrow>
          (case de b of Ok v \<Rightarrow> (Ok v, rq')
           | Err e \<Rightarrow> (Err (unprocessable (''invalid JSON body: '' @ e)), rq')))"

definition extract_headers :: "'h request_data \<Rightarrow> (error, 'h) result \<times> 'h request_data" where
  "extract_headers rq = (Ok (p_headers (rq_parts rq)), rq)"

definition headers_get :: "'h http_lib \<Rightarrow> str \<Rightarrow> 'h \<Rightarrow> str option" where
  "headers_get lib name h = (case hm_get lib name h of None \<Rightarrow> None | Some v \<Rightarrow> hv_to_str lib v)"

definition extract_raw_body :: "'h request_data \<Rightarrow> (error, bytes) result \<times> 'h request_data" where
  "extract_raw_body rq = drain_body rq"

section \<open>Lemmas\<close>

lemma drain_body_Ok: "drain_body rq = (Ok b, rq') \<Longrightarrow> rq_body rq' = Buffered b"
  by (auto simp: drain_body_def split: body_lane.splits option.splits)

lemma drain_body_Err: "drain_body rq = (Err e, rq') \<Longrightarrow> rq_body rq' = Stream None"
  by (auto simp: drain_body_def split: body_lane.splits option.splits)

lemma digit_digit_char: "n < 10 \<Longrightarrow> digit (char_of (48 + n)) = Some n"
  by (simp add: digit_def byte_in_def)

text \<open>The decimal value of a digit string, against which the bounded loop is stated.\<close>

fun digits :: "str \<Rightarrow> nat \<Rightarrow> nat option" where
  "digits [] acc = Some acc"
| "digits (c # cs) acc = (case digit c of None \<Rightarrow> None | Some d \<Rightarrow> digits cs (acc * 10 + d))"

lemma digits_append:
  "digits (a @ b) acc = (case digits a acc of None \<Rightarrow> None | Some n \<Rightarrow> digits b n)"
  by (induction a arbitrary: acc) (auto split: option.splits)

lemma digits_show_nat: "\<exists>k. digits (show_nat n) acc = Some (acc * 10 ^ k + n)"
proof (induction n rule: show_nat.induct)
  case (1 n)
  show ?case
  proof (cases "n < 10")
    case True
    then show ?thesis by (intro exI [of _ 1]) (simp add: show_nat.simps digit_digit_char)
  next
    case False
    then obtain k where "digits (show_nat (n div 10)) acc = Some (acc * 10 ^ k + n div 10)"
      using 1 by blast
    then have "digits (show_nat n) acc = Some (acc * 10 ^ Suc k + n)"
      using False by (subst show_nat.simps) (simp add: digits_append digit_digit_char algebra_simps)
    then show ?thesis by blast
  qed
qed

lemma show_nat_digits: "digits (show_nat n) 0 = Some n" "show_nat n \<noteq> []"
  using digits_show_nat [of n 0] by (simp_all add: show_nat.simps)

lemma show_nat_hd: "byte_in 48 57 (hd (show_nat n))"
proof (induction n rule: show_nat.induct)
  case (1 n)
  then show ?case
    by (cases "n < 10") (simp_all add: show_nat.simps [of n] byte_in_def show_nat_digits(2))
qed

lemma digits_mono: "digits s a = Some n \<Longrightarrow> a \<le> n"
proof (induction s arbitrary: a)
  case (Cons c s)
  then obtain d where "digits s (a * 10 + d) = Some n" by (auto split: option.splits)
  from Cons.IH [OF this] show ?case by simp
qed simp

lemma parse_digits_pos:
  "digits s a = Some n \<Longrightarrow> int n \<le> hi \<Longrightarrow> lo \<le> 0 \<Longrightarrow> parse_digits lo hi False s (int a) = Ok (int n)"
proof (induction s arbitrary: a)
  case (Cons c s)
  then obtain d where d: "digit c = Some d" "digits s (a * 10 + d) = Some n" by (auto split: option.splits)
  from digits_mono [OF d(2)] have "int (a * 10 + d) \<le> hi" using Cons.prems(2) by linarith
  with Cons.IH [OF d(2) Cons.prems(2,3)] d(1) Cons.prems(3) show ?case by (simp add: Let_def)
qed simp

lemma parse_digits_neg:
  "digits s a = Some n \<Longrightarrow> lo \<le> - int n \<Longrightarrow> 0 \<le> hi \<Longrightarrow> parse_digits lo hi True s (- int a) = Ok (- int n)"
proof (induction s arbitrary: a)
  case (Cons c s)
  then obtain d where d: "digit c = Some d" "digits s (a * 10 + d) = Some n" by (auto split: option.splits)
  from digits_mono [OF d(2)] have "lo \<le> - int (a * 10 + d)" using Cons.prems(2) by linarith
  moreover have "- int a * 10 - int d = - int (a * 10 + d)" by simp
  ultimately show ?case using Cons.IH [OF d(2) Cons.prems(2,3)] d(1) Cons.prems(3)
    by (simp only: parse_digits.simps option.case Let_def if_True) simp
qed simp

lemma parse_digits_range:
  "parse_digits lo hi neg s acc = Ok v \<Longrightarrow> lo \<le> acc \<Longrightarrow> acc \<le> hi \<Longrightarrow> lo \<le> v \<and> v \<le> hi"
  by (induction s arbitrary: acc) (auto simp: Let_def split: option.splits if_splits)

lemma parse_int_range:
  assumes "parse_int lo hi s = Ok v" and "lo \<le> 0" and "0 \<le> hi"
  shows "lo \<le> v \<and> v \<le> hi"
  using assms by (auto simp: parse_int_def split: if_splits dest: parse_digits_range)

definition show_int :: "int \<Rightarrow> str" where
  "show_int v = (if v < 0 then CHR ''-'' # show_nat (nat (- v)) else show_nat (nat v))"

lemma parse_int_show:
  assumes "lo \<le> v" and "v \<le> hi" and "lo \<le> 0" and "0 \<le> hi"
  shows "parse_int lo hi (show_int v) = Ok v"
proof (cases "v < 0")
  case True
  then have "parse_digits lo hi True (show_nat (nat (- v))) 0 = Ok v"
    using parse_digits_neg [OF show_nat_digits(1)[of "nat (- v)"], of lo hi] assms by simp
  then show ?thesis using True assms show_nat_digits(2) [of "nat (- v)"]
    by (simp add: parse_int_def show_int_def)
next
  case False
  let ?s = "show_nat (nat v)"
  have h: "byte_in 48 57 (hd ?s)" and n: "?s \<noteq> []" by (rule show_nat_hd, rule show_nat_digits(2))
  then have "hd ?s \<noteq> CHR ''+''" "hd ?s \<noteq> CHR ''-''" by (auto simp: byte_in_def)
  moreover from this have "?s \<noteq> ''+''" "?s \<noteq> ''-''" by auto
  moreover have "parse_digits lo hi False ?s 0 = Ok v"
    using parse_digits_pos [OF show_nat_digits(1)[of "nat v"], of hi lo] assms False by simp
  ultimately show ?thesis using False n by (simp add: parse_int_def show_int_def)
qed

section \<open>Properties\<close>

text \<open>The request body survives repeated extraction. After a successful read the same bytes are
  read again and the request does not change any more; after a failed read on a stream, or once a
  streaming consumer has taken the lane, every later read is the 500 error of a consumed body.\<close>

lemma drain_body_repeatable:
  "case drain_body rq of
     (Ok b, rq') \<Rightarrow> drain_body rq' = (Ok b, rq')
   | (Err e, rq') \<Rightarrow> drain_body rq' = (Err (internal ''request body was already consumed''), rq')"
proof -
  obtain r rq' where d: "drain_body rq = (r, rq')" by (cases "drain_body rq")
  show ?thesis
  proof (cases r)
    case (Inl e)
    then show ?thesis using d drain_body_Err [of rq e rq'] by (simp add: drain_body_def [of rq'])
  next
    case (Inr b)
    then show ?thesis using d drain_body_Ok [of rq b rq'] by (simp add: drain_body_def [of rq'])
  qed
qed

text \<open>An integer path parameter means the number it spells. \<open>Path<i64>\<close> on the decimal form of
  a 64-bit integer in the last path position yields that integer, and every value it yields fits
  in 64 bits.\<close>

lemma path_i64_roundtrip:
  assumes "- (2 ^ 63) \<le> v" and "v < 2 ^ 63" and "rq_params rq = ps @ [(name, show_int v)]"
  shows "extract_path parse_i64 rq = (Ok v, rq) \<and>
    (\<forall>rq' w. fst (extract_path parse_i64 rq') = Ok w \<longrightarrow> - (2 ^ 63) \<le> w \<and> w < 2 ^ 63)"
proof -
  have "parse_i64 (show_int v) = Ok v"
    unfolding parse_i64_def using assms by (intro parse_int_show) auto
  moreover have "- (2 ^ 63) \<le> w \<and> w < 2 ^ 63" if "parse_i64 s = Ok w" for s w
    using parse_int_range [OF that [unfolded parse_i64_def]] by simp
  ultimately show ?thesis using assms(3)
    by (auto simp: extract_path_def parse_param_def split: prod.splits sum.splits)
qed

end
