(* ===== verification/JC_Timed.thy ===== *)
theory JC_Timed
  imports JC_Extract
begin

text \<open>
  The three stall detectors: \<open>TimedFrames\<close> (\<open>response.rs\<close>, a response producer), \<open>TimedRecvBody\<close>
  and \<open>TimedIo\<close> (\<open>serve.rs\<close>, the request body and the socket's write side). Each polls an inner
  object; a \<open>Pending\<close> arms a sleep, progress disarms it, and a sleep that has elapsed is an error.

  Time is a number of milliseconds. \<open>tokio::time::sleep(cap)\<close> created at \<open>now\<close> is the instant
  \<open>now + cap\<close>, ready once the clock has reached it. Waking is not modelled: a trace is the list
  of the polls the executor makes, with their instants.
\<close>

datatype 'a poll = Pending | Ready 'a

section \<open>The shared timer\<close>

text \<open>\<open>TimedIo::poll_stall\<close>, and the \<open>Pending\<close> arm of the two bodies: arm if unarmed, then poll.\<close>

definition poll_stall :: "nat \<Rightarrow> nat \<Rightarrow> nat option \<Rightarrow> bool \<times> nat option" where
  "poll_stall cap now stall =
     (let deadline = (case stall of None \<Rightarrow> now + cap | Some d \<Rightarrow> d) in
      if deadline \<le> now then (True, None) else (False, Some deadline))"

section \<open>The adapters\<close>

text \<open>A body's frame poll: end of stream is \<open>Ready None\<close>. \<open>Ready None\<close> leaves the timer alone.\<close>

record timed =
  tm_timeout :: nat
  tm_sleep :: "nat option"

definition timed_new :: "nat \<Rightarrow> timed" where
  "timed_new timeout = \<lparr>tm_timeout = timeout, tm_sleep = None\<rparr>"

definition poll_timed ::
  "('e1 \<Rightarrow> 'e) \<Rightarrow> 'e \<Rightarrow> nat \<Rightarrow> ('e1, 'a) result option poll \<Rightarrow> timed \<Rightarrow> ('e, 'a) result option poll \<times> timed" where
  "poll_timed conv timeout_error now inner st =
     (case inner of
        Ready (Some (Ok frame)) \<Rightarrow> (Ready (Some (Ok frame)), st\<lparr>tm_sleep := None\<rparr>)
      | Ready (Some (Err e)) \<Rightarrow> (Ready (Some (Err (conv e))), st\<lparr>tm_sleep := None\<rparr>)
      | Ready None \<Rightarrow> (Ready None, st)
      | Pending \<Rightarrow>
          (case poll_stall (tm_timeout st) now (tm_sleep st) of
             (True, sl) \<Rightarrow> (Ready (Some (Err timeout_error)), st\<lparr>tm_sleep := sl\<rparr>)
           | (False, sl) \<Rightarrow> (Pending, st\<lparr>tm_sleep := sl\<rparr>)))"

definition timed_frames_poll ::
  "nat \<Rightarrow> (error, bytes) result option poll \<Rightarrow> timed \<Rightarrow> (str, bytes) result option poll \<times> timed" where
  "timed_frames_poll =
     poll_timed (\<lambda>e. ''response stream failed: '' @ error_display e)
       ''response stream timed out producing the next chunk''"

definition timed_recv_poll ::
  "nat \<Rightarrow> (stream_error, bytes) result option poll \<Rightarrow> timed \<Rightarrow> (stream_error, bytes) result option poll \<times> timed" where
  "timed_recv_poll = poll_timed (\<lambda>e. e) RecvTimeout"

text \<open>\<open>TimedIo\<close>: \<open>poll_write\<close> and \<open>poll_flush\<close> share the timer; an I/O result is \<open>'a\<close>.\<close>

record timed_io =
  io_cap :: nat
  io_stall :: "nat option"

definition timed_io_new :: "nat \<Rightarrow> timed_io" where
  "timed_io_new cap = \<lparr>io_cap = cap, io_stall = None\<rparr>"

datatype io_error = TimedOut | InnerIo str

definition poll_write :: "nat \<Rightarrow> (io_error, 'a) result poll \<Rightarrow> timed_io \<Rightarrow> (io_error, 'a) result poll \<times> timed_io" where
  "poll_write now inner io =
     (case inner of
        Ready r \<Rightarrow> (Ready r, io\<lparr>io_stall := None\<rparr>)
      | Pending \<Rightarrow>
          (case poll_stall (io_cap io) now (io_stall io) of
             (True, st) \<Rightarrow> (Ready (Err TimedOut), io\<lparr>io_stall := st\<rparr>)
           | (False, st) \<Rightarrow> (Pending, io\<lparr>io_stall := st\<rparr>)))"

definition poll_flush :: "nat \<Rightarrow> (io_error, unit) result poll \<Rightarrow> timed_io \<Rightarrow> (io_error, unit) result poll \<times> timed_io" where
  "poll_flush now inner io = poll_write now inner io"

section \<open>Traces of the timer\<close>

text \<open>
  A trace event is the instant of a poll and whether the inner object was \<open>Pending\<close>. The timer's
  state after an event, and whether it fired at it; all adapters step it this way.
\<close>

definition stall_step :: "nat \<Rightarrow> nat \<times> bool \<Rightarrow> nat option \<Rightarrow> bool \<times> nat option" where
  "stall_step cap ev s = (case ev of (now, pending) \<Rightarrow> if pending then poll_stall cap now s else (False, None))"

fun stall_run :: "nat \<Rightarrow> (nat \<times> bool) list \<Rightarrow> nat option \<Rightarrow> bool list" where
  "stall_run cap [] s = []"
| "stall_run cap (ev # evs) s = fst (stall_step cap ev s) # stall_run cap evs (snd (stall_step cap ev s))"

lemma timed_recv_stall:
  assumes "inner \<noteq> Ready None"
  shows "timed_recv_poll now inner st = (let (fired, sl) = stall_step (tm_timeout st) (now, inner = Pending) (tm_sleep st) in
    (if fired then Ready (Some (Err RecvTimeout)) else inner, st\<lparr>tm_sleep := sl\<rparr>))"
  using assms
  by (auto simp: timed_recv_poll_def poll_timed_def stall_step_def split: poll.splits option.splits sum.splits
      prod.splits bool.splits)

lemma poll_write_stall:
  "poll_write now inner io = (let (fired, st) = stall_step (io_cap io) (now, inner = Pending) (io_stall io) in
    (if fired then Ready (Err TimedOut) else inner, io\<lparr>io_stall := st\<rparr>))"
  by (auto simp: poll_write_def stall_step_def split: poll.splits prod.splits bool.splits)

lemma stall_run_length [simp]: "length (stall_run cap evs s) = length evs"
  by (induction evs arbitrary: s) simp_all

text \<open>A timer that fires has seen nothing but \<open>Pending\<close> for its whole cap.\<close>

definition stalled :: "nat \<Rightarrow> (nat \<times> bool) list \<Rightarrow> nat \<Rightarrow> nat \<Rightarrow> bool" where
  "stalled cap evs j i \<longleftrightarrow> j \<le> i \<and> i < length evs \<and> (\<forall>k. j \<le> k \<and> k \<le> i \<longrightarrow> snd (evs ! k)) \<and>
     fst (evs ! j) + cap \<le> fst (evs ! i)"

lemma stalled_Cons [simp]: "stalled cap (e # evs) (Suc j) (Suc i) = stalled cap evs j i"
proof -
  have "(\<forall>k. Suc j \<le> k \<and> k \<le> Suc i \<longrightarrow> snd ((e # evs) ! k)) = (\<forall>k. j \<le> k \<and> k \<le> i \<longrightarrow> snd (evs ! k))"
    by (auto simp: nth_Cons split: nat.splits)
  then show ?thesis by (simp add: stalled_def)
qed

lemma stall_fires_late:
  "i < length evs \<Longrightarrow> stall_run cap evs s ! i \<Longrightarrow>
   (\<exists>j. stalled cap evs j i) \<or>
   (\<exists>d. s = Some d \<and> d \<le> fst (evs ! i) \<and> (\<forall>k \<le> i. snd (evs ! k)))"
proof (induction evs arbitrary: i s)
  case (Cons ev evs)
  obtain now p where ev: "ev = (now, p)" by (cases ev)
  show ?case
  proof (cases i)
    case 0
    with Cons.prems ev show ?thesis
      by (auto simp: stall_step_def poll_stall_def stalled_def Let_def split: if_splits option.splits)
  next
    case (Suc i')
    from Cons.prems Suc have "i' < length evs" "stall_run cap evs (snd (stall_step cap ev s)) ! i'" by auto
    from Cons.IH [OF this] show ?thesis
    proof
      assume "\<exists>j. stalled cap evs j i'"
      then show ?thesis using Suc by (auto intro: exI [of _ "Suc _"])
    next
      assume "\<exists>d. snd (stall_step cap ev s) = Some d \<and> d \<le> fst (evs ! i') \<and> (\<forall>k \<le> i'. snd (evs ! k))"
      then obtain d where d: "snd (stall_step cap ev s) = Some d" "d \<le> fst (evs ! i')" "\<forall>k \<le> i'. snd (evs ! k)"
        by blast
      then have p and s: "s = Some d \<or> s = None \<and> d = now + cap"
        by (auto simp: ev stall_step_def poll_stall_def Let_def split: if_splits option.splits)
      have all: "\<forall>k \<le> i. snd ((ev # evs) ! k)" using d(3) \<open>p\<close> Suc ev by (auto simp: nth_Cons split: nat.splits)
      from s show ?thesis
      proof
        assume "s = None \<and> d = now + cap"
        then have "stalled cap (ev # evs) 0 i"
          using all d(2) Suc Cons.prems(1) by (simp add: stalled_def ev)
        then show ?thesis by blast
      qed (use all d(2) Suc in auto)
    qed
  qed
qed simp

lemma armed_fires:
  "s = Some d \<Longrightarrow> i < length evs \<Longrightarrow> (\<forall>k \<le> i. snd (evs ! k)) \<Longrightarrow> d \<le> fst (evs ! i) \<Longrightarrow>
   \<exists>k \<le> i. stall_run cap evs s ! k"
proof (induction evs arbitrary: i s)
  case (Cons ev evs)
  obtain now where ev: "ev = (now, True)" using Cons.prems(3) by (cases ev) force
  show ?case
  proof (cases "d \<le> now")
    case True
    then show ?thesis using Cons.prems(1) ev by (intro exI [of _ 0]) (simp add: stall_step_def poll_stall_def)
  next
    case False
    then have s: "snd (stall_step cap ev s) = Some d"
      using Cons.prems(1) ev by (simp add: stall_step_def poll_stall_def)
    obtain i' where i: "i = Suc i'" using Cons.prems(4) False ev by (cases i) auto
    have "\<forall>k \<le> i'. snd (evs ! k)" using Cons.prems(3) i by (metis Suc_le_mono nth_Cons_Suc)
    then have "\<exists>k \<le> i'. stall_run cap evs (snd (stall_step cap ev s)) ! k"
      using Cons.IH [OF s] Cons.prems(2,4) i by simp
    then show ?thesis using i by (auto intro: exI [of _ "Suc _"])
  qed
qed simp

lemma stall_not_missed:
  "sorted (map fst evs) \<Longrightarrow> (\<forall>d. s = Some d \<longrightarrow> evs \<noteq> [] \<longrightarrow> d \<le> fst (hd evs) + cap) \<Longrightarrow>
   stalled cap evs j i \<Longrightarrow> \<exists>k. j \<le> k \<and> k \<le> i \<and> stall_run cap evs s ! k"
proof (induction evs arbitrary: i j s)
  case Nil
  then show ?case by (simp add: stalled_def)
next
  case (Cons ev evs)
  obtain now p where ev: "ev = (now, p)" by (cases ev)
  let ?s = "snd (stall_step cap ev s)"
  have hd_le: "now \<le> fst (hd evs)" if "evs \<noteq> []" using Cons.prems(1) that ev by (cases evs) auto
  then have inv: "\<forall>d. ?s = Some d \<longrightarrow> evs \<noteq> [] \<longrightarrow> d \<le> fst (hd evs) + cap"
    using Cons.prems(2) by (auto simp: ev stall_step_def poll_stall_def Let_def split: if_splits option.splits)
  show ?case
  proof (cases j)
    case (Suc j')
    then obtain i' where i: "i = Suc i'" using Cons.prems(3) by (cases i) (auto simp: stalled_def)
    then have "\<exists>k. j' \<le> k \<and> k \<le> i' \<and> stall_run cap evs ?s ! k"
      using Cons.IH [OF _ inv, of j' i'] Cons.prems(1,3) Suc by simp
    then show ?thesis using Suc i by (auto intro: exI [of _ "Suc _"])
  next
    case 0
    show ?thesis
    proof (cases "fst (stall_step cap ev s)")
      case True
      then show ?thesis using 0 by (intro exI [of _ 0]) simp
    next
      case nofire: False
      have p using Cons.prems(3) 0 ev by (auto simp: stalled_def)
      then obtain d where d: "?s = Some d" "d \<le> now + cap" "now < d"
        using nofire Cons.prems(2) by (auto simp: ev stall_step_def poll_stall_def Let_def split: if_splits option.splits)
      have late: "now + cap \<le> fst ((ev # evs) ! i)" and pend: "\<forall>k \<le> i. snd ((ev # evs) ! k)"
        and len: "i < length (ev # evs)" using Cons.prems(3) 0 ev by (auto simp: stalled_def)
      obtain i' where i: "i = Suc i'" using late d ev by (cases i) auto
      have "\<forall>k \<le> i'. snd (evs ! k)" using pend i by (metis Suc_le_mono nth_Cons_Suc)
      then have "\<exists>k \<le> i'. stall_run cap evs ?s ! k"
        using armed_fires [OF d(1)] len late d(2) i by simp
      then have "\<exists>k \<le> i. stall_run cap (ev # evs) s ! k" using i by (auto intro: exI [of _ "Suc _"])
      then show ?thesis using 0 by blast
    qed
  qed
qed

section \<open>Driving the socket and the request body\<close>

fun io_run :: "(nat \<times> (io_error, 'a) result poll) list \<Rightarrow> timed_io \<Rightarrow> (io_error, 'a) result poll list" where
  "io_run [] io = []"
| "io_run ((now, inner) # evs) io = (case poll_write now inner io of (out, io') \<Rightarrow> out # io_run evs io')"

abbreviation pendings :: "(nat \<times> 'a poll) list \<Rightarrow> (nat \<times> bool) list" where
  "pendings evs \<equiv> map (\<lambda>(now, inner). (now, inner = Pending)) evs"

lemma io_run_stall:
  "i < length evs \<Longrightarrow> io_run evs io ! i =
     (if stall_run (io_cap io) (pendings evs) (io_stall io) ! i then Ready (Err TimedOut) else snd (evs ! i))"
proof (induction evs arbitrary: i io)
  case (Cons ev evs)
  obtain now inner where ev: "ev = (now, inner)" by (cases ev)
  obtain fired st where st: "stall_step (io_cap io) (now, inner = Pending) (io_stall io) = (fired, st)" by force
  then have "poll_write now inner io = (if fired then Ready (Err TimedOut) else inner, io\<lparr>io_stall := st\<rparr>)"
    by (simp add: poll_write_stall)
  then show ?case using Cons st ev by (cases i) auto
qed simp

lemma stall_run_pending: "i < length evs \<Longrightarrow> stall_run cap evs s ! i \<Longrightarrow> snd (evs ! i)"
proof (induction evs arbitrary: i s)
  case (Cons ev evs)
  then show ?case by (cases i) (auto simp: stall_step_def split: prod.splits if_splits)
qed simp

text \<open>
  The body's producer is a list of items with the time each takes to appear once it is awaited.
  The executor polls when the item is awaited and again when the first of the item and the armed
  sleep is due.
\<close>

type_synonym incoming = "(nat \<times> (stream_error, bytes) result) list"

definition await_item :: "nat \<Rightarrow> nat \<Rightarrow> (stream_error, bytes) result \<Rightarrow> timed \<Rightarrow> (stream_error, bytes) result \<times> timed" where
  "await_item now d item st =
     (case timed_recv_poll now (if d = 0 then Ready (Some item) else Pending) st of
        (Ready (Some r), st') \<Rightarrow> (r, st')
      | (_, st') \<Rightarrow>
          (let wake = now + min d (tm_timeout st)
           in case timed_recv_poll wake (if now + d \<le> wake then Ready (Some item) else Pending) st' of
                (Ready (Some r), st'') \<Rightarrow> (r, st'')
              | (_, st'') \<Rightarrow> (Err RecvTimeout, st'')))"

fun recv_frames :: "nat \<Rightarrow> incoming \<Rightarrow> timed \<Rightarrow> stream_lane" where
  "recv_frames now [] st = ([], None)"
| "recv_frames now ((d, item) # rest) st =
     (case await_item now d item st of
        (Ok b, st') \<Rightarrow> (case recv_frames (now + d) rest st' of (bs, e) \<Rightarrow> (b # bs, e))
      | (Err e, st') \<Rightarrow> ([], Some e))"

lemma await_item_eq:
  assumes "tm_sleep st = None" and "0 < tm_timeout st"
  shows "await_item now d item st = ((if d \<le> tm_timeout st then item else Err RecvTimeout), st)"
proof -
  have "st\<lparr>tm_sleep := None\<rparr> = st" using assms(1) by (cases st) simp
  then show ?thesis using assms
    by (cases item)
       (auto simp: await_item_def timed_recv_poll_def poll_timed_def poll_stall_def Let_def min_def)
qed

text \<open>The frames before the first late or failed item, and the items from there on.\<close>

fun span_late :: "nat \<Rightarrow> incoming \<Rightarrow> bytes list \<times> incoming" where
  "span_late timeout ((d, Ok b) # rest) =
     (if d \<le> timeout then (case span_late timeout rest of (bs, r) \<Rightarrow> (b # bs, r)) else ([], (d, Ok b) # rest))"
| "span_late timeout items = ([], items)"

section \<open>Properties\<close>

text \<open>The socket's write-stall detector is exact. Over any sequence of polls in time order, a
  result of the inner socket passes through unchanged; the connection is failed at a pending poll
  only if the socket has been pending without a break for at least the cap; and a run of
  pending polls that spans the cap never goes unreported.\<close>

lemma write_stall_exact:
  assumes "sorted (map fst evs)"
  shows "\<forall>i < length evs.
      (snd (evs ! i) \<noteq> Pending \<longrightarrow> io_run evs (timed_io_new cap) ! i = snd (evs ! i)) \<and>
      (io_run evs (timed_io_new cap) ! i \<noteq> snd (evs ! i) \<longrightarrow> (\<exists>j. stalled cap (pendings evs) j i)) \<and>
      (\<forall>j. stalled cap (pendings evs) j i \<longrightarrow>
        (\<exists>k. j \<le> k \<and> k \<le> i \<and> io_run evs (timed_io_new cap) ! k = Ready (Err TimedOut)))"
proof (intro allI impI)
  fix i assume i: "i < length evs"
  have eq: "io_run evs (timed_io_new cap) ! k = (if stall_run cap (pendings evs) None ! k
      then Ready (Err TimedOut) else snd (evs ! k))" if "k < length evs" for k
    using io_run_stall [OF that, of "timed_io_new cap"] by (simp add: timed_io_new_def)
  have srt: "sorted (map fst (pendings evs))" using assms by (simp add: case_prod_unfold comp_def)
  have "snd (evs ! i) = Pending" if "stall_run cap (pendings evs) None ! i"
    using stall_run_pending [OF _ that] i by (simp add: case_prod_unfold)
  moreover have "\<exists>j. stalled cap (pendings evs) j i" if "stall_run cap (pendings evs) None ! i"
    using stall_fires_late [OF _ that] i by simp
  moreover have "\<exists>k. j \<le> k \<and> k \<le> i \<and> io_run evs (timed_io_new cap) ! k = Ready (Err TimedOut)"
    if st: "stalled cap (pendings evs) j i" for j
  proof -
    obtain k where "j \<le> k" "k \<le> i" "stall_run cap (pendings evs) None ! k"
      using stall_not_missed [OF srt _ st, of None] by auto
    then show ?thesis using eq [of k] i by auto
  qed
  ultimately show "(snd (evs ! i) \<noteq> Pending \<longrightarrow> io_run evs (timed_io_new cap) ! i = snd (evs ! i)) \<and>
      (io_run evs (timed_io_new cap) ! i \<noteq> snd (evs ! i) \<longrightarrow> (\<exists>j. stalled cap (pendings evs) j i)) \<and>
      (\<forall>j. stalled cap (pendings evs) j i \<longrightarrow>
        (\<exists>k. j \<le> k \<and> k \<le> i \<and> io_run evs (timed_io_new cap) ! k = Ready (Err TimedOut)))"
    using eq [OF i] by auto
qed

text \<open>The read deadline of a streamed request body is per frame. For a positive deadline the
  lane delivers every frame up to the first one that takes longer than the deadline, however long
  they take together, and that late frame is reported as a read timeout; a failure of the body
  itself is passed on.\<close>

lemma recv_deadline_per_frame:
  assumes "0 < timeout"
  shows "recv_frames now items (timed_new timeout) =
    (case span_late timeout items of
       (good, []) \<Rightarrow> (good, None)
     | (good, (d, Err e) # _) \<Rightarrow> (good, Some (if d \<le> timeout then e else RecvTimeout))
     | (good, (d, Ok b) # _) \<Rightarrow> (good, Some RecvTimeout))"
proof (induction items arbitrary: now)
  case (Cons it items)
  obtain d item where it: "it = (d, item)" by (cases it)
  have "await_item now d item (timed_new timeout) =
      ((if d \<le> timeout then item else Err RecvTimeout), timed_new timeout)"
    using assms by (subst await_item_eq) (simp_all add: timed_new_def)
  with Cons it show ?case
    by (cases item) (auto split: prod.splits list.splits sum.splits)
qed simp

end
