(* ===== verification/JC_App.thy ===== *)
theory JC_App
  imports JC_Module JC_Cors JC_Timed
begin

text \<open>
  The application: middleware chains (\<open>middleware.rs\<close>), handlers (\<open>handler.rs\<close>), the builder, the
  route table built from it, the routing decision and the dispatcher (\<open>app.rs\<close>) of
  \<open>jerrycan-core/src\<close>.

  An async computation is what it comes to: it is done after some milliseconds, it never finishes,
  or it panics. User code (handler functions, middleware, error mappers) is a HOL function.
  A handler's own extractors run through the resolver of \<open>JC_Dep\<close> with fuel 33, which is enough
  from a fresh context; the resolver's factories take no time in the model.
\<close>

section \<open>Computations, middleware and handlers\<close>

datatype 'a run = Done nat 'a | Hang | Panic nat

fun map_run :: "('a \<Rightarrow> 'b) \<Rightarrow> 'a run \<Rightarrow> 'b run" where
  "map_run f (Done t x) = Done t (f x)"
| "map_run f Hang = Hang"
| "map_run f (Panic t) = Panic t"

text \<open>
  \<open>tokio::time::timeout(budget, f)\<close>: the inner future is polled before the timer, so a result at
  the budget itself still counts. A panic within the budget unwinds; after it nobody polls.
\<close>

fun with_timeout :: "nat \<Rightarrow> 'a run \<Rightarrow> (unit, 'a) result run" where
  "with_timeout budget (Done t x) = (if t \<le> budget then Done t (Ok x) else Done budget (Err ()))"
| "with_timeout budget Hang = Done budget (Err ())"
| "with_timeout budget (Panic t) = (if t \<le> budget then Panic t else Done budget (Err ()))"

type_synonym ('h, 'v) ctx = "('h request_data, 'v) request_ctx"
type_synonym ('h, 'v) handler_fn = "('h, 'v) ctx \<Rightarrow> ('h response \<times> ('h, 'v) ctx) run"
type_synonym ('h, 'v) middleware = "('h, 'v) handler_fn \<Rightarrow> ('h, 'v) handler_fn"

text \<open>\<open>Next::run\<close>: the head middleware gets the rest of the chain as its continuation.\<close>

fun next_run :: "('h, 'v) middleware list \<Rightarrow> ('h, 'v) handler_fn \<Rightarrow> ('h, 'v) handler_fn" where
  "next_run [] endpoint ctx = endpoint ctx"
| "next_run (head # rest) endpoint ctx = head (next_run rest endpoint) ctx"

text \<open>\<open>impl_handler\<close>: extract the parameters in order, answer the first error, else call the function.\<close>

definition into_handler_fn ::
  "'h http_lib \<Rightarrow> ('h request_data, 'v) arg list \<Rightarrow> ('v arg_value list \<Rightarrow> 'h reply run) \<Rightarrow> ('h, 'v) handler_fn" where
  "into_handler_fn lib args f ctx =
     (case extract_args 33 ctx args of
        None \<Rightarrow> Hang
      | Some (Err e, ctx') \<Rightarrow> Done 0 (error_into_response lib e, ctx')
      | Some (Ok vs, ctx') \<Rightarrow> map_run (\<lambda>rep. (into_response lib rep, ctx')) (f vs))"

section \<open>The builder\<close>

type_synonym error_mapper = "nat \<Rightarrow> str \<Rightarrow> str \<Rightarrow> json option"

record ('h, 'v) app =
  a_routes :: "(str \<times> ('h, 'v) handler_fn method_router) list"
  a_mounts :: "(str \<times> (('h, 'v) handler_fn, 'h request_data, 'v, ('h, 'v) middleware) module) list"
  a_env :: "('h request_data, 'v) dep_env"
  a_middleware :: "('h, 'v) middleware list"
  a_security_headers :: bool
  a_cors :: "cors_config option"
  a_handler_timeout :: nat
  a_body_read_timeout :: nat
  a_write_stall_timeout :: nat
  a_error_mapper :: "error_mapper option"
  a_background :: "(str \<times> (('h, 'v) ctx \<Rightarrow> unit run)) list"

text \<open>The value provided for \<open>Clock\<close> up front is an argument.\<close>

definition app_default :: "'v \<Rightarrow> ('h, 'v) app" where
  "app_default clock_system =
     \<lparr>a_routes = [], a_mounts = [], a_env = insert_value ''Clock'' clock_system env_default,
      a_middleware = [], a_security_headers = True, a_cors = None, a_handler_timeout = 30 * 1000,
      a_body_read_timeout = 30 * 1000, a_write_stall_timeout = 30 * 1000, a_error_mapper = None,
      a_background = []\<rparr>"

definition app_extend :: "(('h, 'v) app \<Rightarrow> ('h, 'v) app) \<Rightarrow> ('h, 'v) app \<Rightarrow> ('h, 'v) app" where
  "app_extend register a = register a"
definition app_security_headers :: "bool \<Rightarrow> ('h, 'v) app \<Rightarrow> ('h, 'v) app" where
  "app_security_headers on a = a\<lparr>a_security_headers := on\<rparr>"
definition app_map_error_body :: "error_mapper \<Rightarrow> ('h, 'v) app \<Rightarrow> ('h, 'v) app" where
  "app_map_error_body f a = a\<lparr>a_error_mapper := Some f\<rparr>"
definition app_cors :: "cors_config \<Rightarrow> ('h, 'v) app \<Rightarrow> ('h, 'v) app" where
  "app_cors c a = a\<lparr>a_cors := Some c\<rparr>"
definition app_handler_timeout :: "nat \<Rightarrow> ('h, 'v) app \<Rightarrow> ('h, 'v) app" where
  "app_handler_timeout budget a = a\<lparr>a_handler_timeout := budget\<rparr>"
definition app_body_read_timeout :: "nat \<Rightarrow> ('h, 'v) app \<Rightarrow> ('h, 'v) app" where
  "app_body_read_timeout budget a = a\<lparr>a_body_read_timeout := budget\<rparr>"
definition app_write_stall_timeout :: "nat \<Rightarrow> ('h, 'v) app \<Rightarrow> ('h, 'v) app" where
  "app_write_stall_timeout budget a = a\<lparr>a_write_stall_timeout := budget\<rparr>"
definition app_route :: "str \<Rightarrow> ('h, 'v) handler_fn method_router \<Rightarrow> ('h, 'v) app \<Rightarrow> ('h, 'v) app" where
  "app_route path ms a = a\<lparr>a_routes := a_routes a @ [(path, ms)]\<rparr>"
definition app_mount ::
  "str \<Rightarrow> (('h, 'v) handler_fn, 'h request_data, 'v, ('h, 'v) middleware) module \<Rightarrow> ('h, 'v) app \<Rightarrow> ('h, 'v) app" where
  "app_mount prefix m a = a\<lparr>a_mounts := a_mounts a @ [(prefix, m)]\<rparr>"
definition app_provide :: "type_id \<Rightarrow> 'v \<Rightarrow> ('h, 'v) app \<Rightarrow> ('h, 'v) app" where
  "app_provide tid v a = a\<lparr>a_env := insert_value tid v (a_env a)\<rparr>"
definition app_provide_dep :: "('h request_data, 'v) factory \<Rightarrow> ('h, 'v) app \<Rightarrow> ('h, 'v) app" where
  "app_provide_dep f a = a\<lparr>a_env := insert_factory f (a_env a)\<rparr>"
definition app_middleware :: "('h, 'v) middleware \<Rightarrow> ('h, 'v) app \<Rightarrow> ('h, 'v) app" where
  "app_middleware mw a = a\<lparr>a_middleware := a_middleware a @ [mw]\<rparr>"
definition app_on_serve :: "str \<Rightarrow> (('h, 'v) ctx \<Rightarrow> unit run) \<Rightarrow> ('h, 'v) app \<Rightarrow> ('h, 'v) app" where
  "app_on_serve name f a = a\<lparr>a_background := a_background a @ [(name, f)]\<rparr>"
definition take_background ::
  "('h, 'v) app \<Rightarrow> (str \<times> (('h, 'v) ctx \<Rightarrow> unit run)) list \<times> ('h, 'v) app" where
  "take_background a = (a_background a, a\<lparr>a_background := []\<rparr>)"

section \<open>Building the route table\<close>

type_synonym ('h, 'v) app_endpoint =
  "(('h, 'v) handler_fn, ('h request_data, 'v) dep_env, ('h, 'v) middleware) endpoint"
type_synonym ('h, 'v) app_flat_route =
  "(('h, 'v) handler_fn, 'h request_data, 'v, ('h, 'v) middleware) flat_route"

fun collect_methods :: "str \<Rightarrow> (meth \<times> 'a) list \<Rightarrow> (meth \<times> 'a) list \<Rightarrow> (error, (meth \<times> 'a) list) result" where
  "collect_methods path [] acc = Ok acc"
| "collect_methods path ((m, h) # hs) acc =
     (if m \<in> fst ` set acc then Err (internal (''duplicate method '' @ m @ '' for `'' @ path @ ''`''))
      else collect_methods path hs (acc @ [(m, h)]))"

definition insert_flat ::
  "('h, 'v) app_flat_route \<Rightarrow> ('h, 'v) app_endpoint node \<Rightarrow> ('h, 'v) app_endpoint node \<times> (error, unit) result" where
  "insert_flat flat trie =
     (case collect_methods (fl_path flat) (mr_handlers (fl_methods flat)) [] of
        Err e \<Rightarrow> (trie, Err e)
      | Ok methods \<Rightarrow>
          trie_insert (fl_path flat)
            \<lparr>ep_methods = methods, ep_env = fl_env flat, ep_middleware = fl_middleware flat,
             ep_body_limit = fl_body_limit flat, ep_stream_body = mr_stream_body (fl_methods flat),
             ep_handler_timeout = fl_handler_timeout flat,
             ep_body_read_timeout = fl_body_read_timeout flat\<rparr> trie)"

fun insert_flats ::
  "('h, 'v) app_flat_route list \<Rightarrow> ('h, 'v) app_endpoint node \<Rightarrow> (error, ('h, 'v) app_endpoint node) result" where
  "insert_flats [] trie = Ok trie"
| "insert_flats (f # fs) trie =
     (case insert_flat f trie of (trie', Ok _) \<Rightarrow> insert_flats fs trie' | (_, Err e) \<Rightarrow> Err e)"

record ('h, 'v) built_app =
  b_trie :: "('h, 'v) app_endpoint node"
  b_app_env :: "('h request_data, 'v) dep_env"
  b_overrides :: "type_id \<Rightarrow> 'v any_arc option"
  b_security_headers :: bool
  b_cors :: "cors_config option"
  b_handler_timeout :: nat
  b_body_read_timeout :: nat
  b_write_stall_timeout :: nat
  b_error_mapper :: "error_mapper option"

text \<open>The routes in the order \<open>build\<close> inserts them: the app's own, then each mount flattened.\<close>

definition all_flats :: "('h, 'v) app \<Rightarrow> ('h, 'v) app_flat_route list" where
  "all_flats a =
     map (\<lambda>(path, ms). flat_of (a_env a) (a_middleware a) path ms) (a_routes a)
     @ concat (map (\<lambda>(prefix, m). flatten m prefix (a_env a) (a_middleware a)) (a_mounts a))"

definition build :: "('h, 'v) app \<Rightarrow> (error, ('h, 'v) built_app) result" where
  "build a =
     bind_result (case a_cors a of Some c \<Rightarrow> validate c | None \<Rightarrow> Ok ()) (\<lambda>_.
     bind_result (insert_flats (all_flats a) empty_node) (\<lambda>trie.
       Ok \<lparr>b_trie = trie, b_app_env = a_env a, b_overrides = (\<lambda>_. None),
           b_security_headers = a_security_headers a, b_cors = a_cors a,
           b_handler_timeout = a_handler_timeout a, b_body_read_timeout = a_body_read_timeout a,
           b_write_stall_timeout = a_write_stall_timeout a, b_error_mapper = a_error_mapper a\<rparr>))"

definition built_task_context :: "'h request_data \<Rightarrow> ('h, 'v) built_app \<Rightarrow> ('h, 'v) ctx" where
  "built_task_context placeholder b = task_context_new placeholder (b_app_env b) (b_overrides b)"

section \<open>Routing and dispatch\<close>

definition BODY_LIMIT :: nat where "BODY_LIMIT = 1024 * 1024"

datatype 'h policy = Route nat bool nat | Reject "'h response"

definition SECURITY_DEFAULTS :: "(str \<times> str) list" where
  "SECURITY_DEFAULTS =
     [(''x-content-type-options'', ''nosniff''), (''x-frame-options'', ''DENY''),
      (''referrer-policy'', ''no-referrer''),
      (''content-security-policy'', ''default-src '' @ [CHR 0x27] @ ''none'' @ [CHR 0x27]),
      (''cache-control'', ''no-store'')]"

definition apply_security_headers :: "'h http_lib \<Rightarrow> 'h response \<Rightarrow> 'h response" where
  "apply_security_headers lib res =
     foldl (\<lambda>r (n, v). if hm_contains lib n (r_headers r) then r else insert_header lib n v r)
       res SECURITY_DEFAULTS"

definition apply_error_mapper :: "'h http_lib \<Rightarrow> ('h, 'v) built_app \<Rightarrow> 'h response \<Rightarrow> 'h response" where
  "apply_error_mapper lib b res =
     (case b_error_mapper b of None \<Rightarrow> res | Some mapper \<Rightarrow>
      (case r_error_parts res of None \<Rightarrow> res | Some p \<Rightarrow>
       (case mapper (r_status res) (parts_code p) (parts_message p) of None \<Rightarrow> res
        | Some body \<Rightarrow> res\<lparr>r_body := body_full (json_to_vec lib body)\<rparr>)))"

text \<open>The exit shared by the dispatcher and the routing rejects: mapper, security headers, CORS.\<close>

definition decorate :: "'h http_lib \<Rightarrow> ('h, 'v) built_app \<Rightarrow> bytes option \<Rightarrow> 'h response \<Rightarrow> 'h response" where
  "decorate lib b origin res =
     (let res1 = apply_error_mapper lib b res;
          res2 = (if b_security_headers b then apply_security_headers lib res1 else res1)
      in case b_cors b of None \<Rightarrow> res2 | Some c \<Rightarrow> apply_cors lib res2 origin c)"

definition malformed_path :: error where
  "malformed_path = bad_request ''malformed percent-encoding in path''"

definition route_policy :: "'h http_lib \<Rightarrow> ('h, 'v) built_app \<Rightarrow> 'h parts \<Rightarrow> 'h policy" where
  "route_policy lib b p =
     (let preflight = (case b_cors b of None \<Rightarrow> None | Some c \<Rightarrow> if is_preflight lib p then Some c else None)
      in case preflight of
        Some c \<Rightarrow>
          (let origin = (case hm_get lib ''origin'' (p_headers p) of None \<Rightarrow> []
                         | Some v \<Rightarrow> (case hv_to_str lib v of None \<Rightarrow> [] | Some s \<Rightarrow> s));
               bare = (response_new lib body_empty)\<lparr>r_status := 204\<rparr>
           in if allows_origin c origin then
                (case methods_for (b_trie b) (p_path p) of
                   Some methods \<Rightarrow>
                     (let acrh = (case hm_get lib ''access-control-request-headers'' (p_headers p) of None \<Rightarrow> None
                                  | Some v \<Rightarrow> hv_to_str lib v)
                      in Reject (preflight_response lib c origin acrh methods))
                 | None \<Rightarrow> Reject bare)
              else Reject bare)
      | None \<Rightarrow>
          (let reject = (\<lambda>e. Reject (decorate lib b (hm_get lib ''origin'' (p_headers p)) (error_into_response lib e)))
           in case trie_find (b_trie b) (p_path p) (p_method p) of
                Found ep _ \<Rightarrow>
                  Route (case ep_body_limit ep of None \<Rightarrow> BODY_LIMIT | Some l \<Rightarrow> l) (ep_stream_body ep)
                    (case ep_body_read_timeout ep of None \<Rightarrow> b_body_read_timeout b | Some t \<Rightarrow> t)
              | NotFound \<Rightarrow> reject not_found
              | MethodMissing \<Rightarrow> reject method_not_allowed
              | Malformed \<Rightarrow> reject malformed_path))"

text \<open>\<open>expect\<close> on a method the search has checked: a panic of the model if it were missing.\<close>

definition dispatch_inner ::
  "'h http_lib \<Rightarrow> ('h, 'v) built_app \<Rightarrow> 'h parts \<Rightarrow> body_lane \<Rightarrow> 'h response run" where
  "dispatch_inner lib b p lane =
     (case trie_find (b_trie b) (p_path p) (p_method p) of
        NotFound \<Rightarrow> Done 0 (error_into_response lib not_found)
      | MethodMissing \<Rightarrow> Done 0 (error_into_response lib method_not_allowed)
      | Malformed \<Rightarrow> Done 0 (error_into_response lib malformed_path)
      | Found ep params \<Rightarrow>
          (let budget = (case ep_handler_timeout ep of None \<Rightarrow> b_handler_timeout b | Some t \<Rightarrow> t);
               ctx = resolver_new (ep_env ep) (b_overrides b) False ((with_lane p lane)\<lparr>rq_params := params\<rparr>)
           in case map_of (ep_methods ep) (p_method p) of
                None \<Rightarrow> Panic 0
              | Some handler \<Rightarrow>
                  map_run (\<lambda>r. case r of Ok (res, _) \<Rightarrow> res | Err _ \<Rightarrow> error_into_response lib handler_timeout_error)
                    (with_timeout budget (next_run (ep_middleware ep) handler ctx))))"

definition dispatch ::
  "'h http_lib \<Rightarrow> ('h, 'v) built_app \<Rightarrow> 'h parts \<Rightarrow> body_lane \<Rightarrow> 'h response run" where
  "dispatch lib b p lane =
     (let origin = hm_get lib ''origin'' (p_headers p)
      in map_run (decorate lib b origin) (dispatch_inner lib b p lane))"

section \<open>Lemmas: the route table\<close>

definition endpoint_of :: "('h, 'v) app_flat_route \<Rightarrow> ('h, 'v) app_endpoint" where
  "endpoint_of f =
     \<lparr>ep_methods = mr_handlers (fl_methods f), ep_env = fl_env f, ep_middleware = fl_middleware f,
      ep_body_limit = fl_body_limit f, ep_stream_body = mr_stream_body (fl_methods f),
      ep_handler_timeout = fl_handler_timeout f, ep_body_read_timeout = fl_body_read_timeout f\<rparr>"

lemma collect_methods_iff:
  "distinct (map fst acc) \<Longrightarrow>
   collect_methods path hs acc = Ok ms \<longleftrightarrow> ms = acc @ hs \<and> distinct (map fst (acc @ hs))"
proof (induction hs arbitrary: acc)
  case (Cons p hs)
  obtain m h where p: "p = (m, h)" by (cases p)
  show ?case
  proof (cases "m \<in> fst ` set acc")
    case True
    then show ?thesis using p by auto
  next
    case False
    then show ?thesis using p Cons.IH [of "acc @ [(m, h)]"] Cons.prems by simp
  qed
qed auto

lemma insert_flat_iff:
  "insert_flat f t = (t', Ok ()) \<longleftrightarrow>
   distinct (map fst (mr_handlers (fl_methods f))) \<and> trie_register (fl_path f, endpoint_of f) t = Some t'"
proof (cases "collect_methods (fl_path f) (mr_handlers (fl_methods f)) []")
  case (Inl e)
  then have "\<not> distinct (map fst (mr_handlers (fl_methods f)))"
    using collect_methods_iff [of "[]" "fl_path f" "mr_handlers (fl_methods f)"] by auto
  with Inl show ?thesis by (simp add: insert_flat_def)
next
  case (Inr ms)
  then have "ms = mr_handlers (fl_methods f)" "distinct (map fst ms)"
    using collect_methods_iff [of "[]" "fl_path f" "mr_handlers (fl_methods f)" ms] by auto
  with Inr show ?thesis
    by (auto simp: insert_flat_def trie_register_def endpoint_of_def split: prod.splits sum.splits)
qed

abbreviation routes_of :: "('h, 'v) app_flat_route list \<Rightarrow> (str \<times> ('h, 'v) app_endpoint) list" where
  "routes_of fs \<equiv> map (\<lambda>f. (fl_path f, endpoint_of f)) fs"

lemma insert_flats_iff:
  "insert_flats fs t = Ok t' \<longleftrightarrow>
   (\<forall>f \<in> set fs. distinct (map fst (mr_handlers (fl_methods f)))) \<and>
   insert_all trie_register t (routes_of fs) = Some t'"
proof (induction fs arbitrary: t)
  case (Cons f fs)
  obtain t1 r where i: "insert_flat f t = (t1, r)" by (cases "insert_flat f t")
  have eq: "insert_flat f t = (x, Ok ()) \<longleftrightarrow> r = Ok () \<and> x = t1" for x using i by auto
  show ?case
  proof (cases r)
    case (Inl e)
    then have "\<not> (distinct (map fst (mr_handlers (fl_methods f))) \<and> trie_register (fl_path f, endpoint_of f) t = Some x)" for x
      using eq [of x] insert_flat_iff [of f t x] by simp
    with Inl i show ?thesis by (auto split: option.splits)
  next
    case (Inr u)
    then have "distinct (map fst (mr_handlers (fl_methods f)))" "trie_register (fl_path f, endpoint_of f) t = Some t1"
      using eq [of t1] insert_flat_iff [of f t t1] by simp_all
    with Inr i Cons.IH [of t1] show ?thesis by simp
  qed
qed simp

lemma build_Ok:
  assumes "build a = Ok b"
  shows "insert_flats (all_flats a) empty_node = Ok (b_trie b)"
    and "b_security_headers b = a_security_headers a" and "b_cors b = a_cors a"
    and "b_handler_timeout b = a_handler_timeout a"
  using assms by (auto simp: build_def bind_result_Ok)

section \<open>Lemmas: headers\<close>

lemma default_headers:
  assumes "http_laws lib"
  shows "hm_get_all lib n (r_headers (foldl (\<lambda>r (n, v). if hm_contains lib n (r_headers r) then r else insert_header lib n v r) res ds)) =
    (if hm_get_all lib n (r_headers res) = [] then (case map_of ds n of None \<Rightarrow> [] | Some v \<Rightarrow> [v])
     else hm_get_all lib n (r_headers res))"
proof (induction ds arbitrary: res n)
  case (Cons d ds)
  obtain m v where d: "d = (m, v)" by (cases d)
  have "hm_contains lib m (r_headers res) \<longleftrightarrow> hm_get_all lib m (r_headers res) \<noteq> []"
    by (simp add: hm_contains_def)
  then show ?case
    by (cases "n = m") (auto simp: d Cons.IH http_lawsD [OF assms])
qed simp

lemma security_headers:
  "http_laws lib \<Longrightarrow> hm_get_all lib n (r_headers (apply_security_headers lib res)) =
    (if hm_get_all lib n (r_headers res) = [] then (case map_of SECURITY_DEFAULTS n of None \<Rightarrow> [] | Some v \<Rightarrow> [v])
     else hm_get_all lib n (r_headers res))"
  unfolding apply_security_headers_def by (rule default_headers)

lemma security_headers_only:
  "apply_security_headers lib res = res\<lparr>r_headers := r_headers (apply_security_headers lib res)\<rparr>"
proof -
  have "\<exists>h. foldl (\<lambda>r (n, v). if hm_contains lib n (r_headers r) then r else insert_header lib n v r) res ds = res\<lparr>r_headers := h\<rparr>" for ds
  proof (induction ds arbitrary: res)
    case Nil
    show ?case by (rule exI [of _ "r_headers res"]) simp
  next
    case (Cons d ds)
    obtain n v where d: "d = (n, v)" by (cases d)
    show ?case
    proof (cases "hm_contains lib n (r_headers res)")
      case True
      then show ?thesis using Cons [of res] by (simp add: d)
    next
      case False
      then show ?thesis using Cons [of "insert_header lib n v res"] by (auto simp: d insert_header_def)
    qed
  qed
  then obtain h where "apply_security_headers lib res = res\<lparr>r_headers := h\<rparr>"
    unfolding apply_security_headers_def by blast
  then show ?thesis by simp
qed

lemma error_mapper_simps [simp]:
  "r_headers (apply_error_mapper lib b res) = r_headers res"
  "r_status (apply_error_mapper lib b res) = r_status res"
  "r_error_parts (apply_error_mapper lib b res) = r_error_parts res"
  by (simp_all add: apply_error_mapper_def split: option.splits)

lemma security_not_cors: "(n, v) \<in> set SECURITY_DEFAULTS \<Longrightarrow>
  n \<noteq> ''access-control-allow-origin'' \<and> n \<noteq> ''access-control-allow-credentials'' \<and>
  n \<noteq> ''access-control-expose-headers'' \<and> n \<noteq> ''vary'' \<and> map_of SECURITY_DEFAULTS n = Some v"
  by (auto simp: SECURITY_DEFAULTS_def)

lemma decorate_simps [simp]:
  "r_status (decorate lib b origin res) = r_status res"
  "r_body (decorate lib b origin res) = r_body (apply_error_mapper lib b res)"
proof -
  have s: "r_status (apply_security_headers lib r) = r_status r" "r_body (apply_security_headers lib r) = r_body r" for r
    using security_headers_only [of lib r] by (metis response.select_convs response.surjective response.update_convs(2))+
  have c: "r_status (apply_cors lib r ov c) = r_status r" "r_body (apply_cors lib r ov c) = r_body r" for r ov c
    using apply_cors_headers_only [of lib r ov c] by (metis response.select_convs response.surjective response.update_convs(2))+
  show "r_status (decorate lib b origin res) = r_status res"
    "r_body (decorate lib b origin res) = r_body (apply_error_mapper lib b res)"
    by (simp_all add: decorate_def Let_def s c split: option.splits)
qed

lemma decorate_security:
  assumes "http_laws lib" "b_security_headers b" "(n, v) \<in> set SECURITY_DEFAULTS"
  shows "hm_get_all lib n (r_headers (decorate lib b origin res)) =
    (if hm_get_all lib n (r_headers res) = [] then [v] else hm_get_all lib n (r_headers res))"
proof -
  note nc = security_not_cors [OF assms(3)]
  have c: "hm_get_all lib n (r_headers (apply_cors lib r ov c)) = hm_get_all lib n (r_headers r)" for r ov c
  proof (rule apply_cors_cases [OF assms(1), of r ov c])
    fix o' assume o: "ov = Some o'" "hv_to_str lib o' = Some o'" "allows_origin c o'"
    show ?thesis using nc unfolding o(1) apply_cors_allowed [OF assms(1) o(2,3)] by (simp add: Let_def)
  qed simp
  show ?thesis using assms(2) nc
    by (simp add: decorate_def Let_def c security_headers [OF assms(1)] split: option.splits)
qed

lemma with_timeout_bounded:
  "\<exists>t \<le> budget. with_timeout budget r = Panic t \<or> (\<exists>x. with_timeout budget r = Done t x)"
  by (cases r) auto

lemma found_method:
  assumes "trie_find root path m = Found ep params"
  shows "\<exists>h. map_of (ep_methods ep) m = Some h"
proof -
  have "m \<in> fst ` set (ep_methods ep)"
    using assms by (auto simp: trie_find_def find_in_def split: if_splits option.splits prod.splits)
  then show ?thesis by (metis map_of_eq_None_iff not_None_eq)
qed

definition handler_budget :: "('h, 'v) built_app \<Rightarrow> 'h parts \<Rightarrow> nat" where
  "handler_budget b p =
     (case trie_find (b_trie b) (p_path p) (p_method p) of
        Found ep _ \<Rightarrow> (case ep_handler_timeout ep of None \<Rightarrow> b_handler_timeout b | Some t \<Rightarrow> t)
      | _ \<Rightarrow> 0)"

lemma dispatch_inner_bounded:
  "\<exists>t \<le> handler_budget b p. dispatch_inner lib b p lane = Panic t \<or> (\<exists>r. dispatch_inner lib b p lane = Done t r)"
proof (cases "trie_find (b_trie b) (p_path p) (p_method p)")
  case (Found ep params)
  then obtain h where h: "map_of (ep_methods ep) (p_method p) = Some h" using found_method by blast
  show ?thesis
    using with_timeout_bounded [of "handler_budget b p" "next_run (ep_middleware ep) h
      (resolver_new (ep_env ep) (b_overrides b) False ((with_lane p lane)\<lparr>rq_params := params\<rparr>))"]
    by (auto simp: dispatch_inner_def handler_budget_def Found h Let_def)
qed (simp_all add: dispatch_inner_def handler_budget_def)

lemma ep_methods_endpoint_of: "ep_methods (endpoint_of f) = mr_handlers (fl_methods f)"
  by (simp add: endpoint_of_def)

lemma build_ok_iff:
  "is_ok (build a) \<longleftrightarrow>
     (\<forall>c. a_cors a = Some c \<longrightarrow> \<not> (c_allow_credentials c \<and> c_origins c = Any)) \<and>
     (\<forall>f \<in> set (all_flats a). distinct (map fst (mr_handlers (fl_methods f)))) \<and>
     sorted_wrt (\<lambda>f f'. agree (pats_of (fl_path f)) (pats_of (fl_path f')) \<and>
                        pats_of (fl_path f) \<noteq> pats_of (fl_path f')) (all_flats a)"
proof -
  have cors: "is_ok (case a_cors a of Some c \<Rightarrow> validate c | None \<Rightarrow> Ok ()) \<longleftrightarrow>
      (\<forall>c. a_cors a = Some c \<longrightarrow> \<not> (c_allow_credentials c \<and> c_origins c = Any))"
    by (cases "a_cors a") (auto simp: validate_def)
  have "is_ok (insert_flats (all_flats a) empty_node) \<longleftrightarrow>
      (\<forall>f \<in> set (all_flats a). distinct (map fst (mr_handlers (fl_methods f)))) \<and>
      insert_all trie_register empty_node (routes_of (all_flats a)) \<noteq> None"
    unfolding is_ok_iff insert_flats_iff by blast
  also have "insert_all trie_register empty_node (routes_of (all_flats a)) \<noteq> None \<longleftrightarrow>
      sorted_wrt (\<lambda>f f'. agree (pats_of (fl_path f)) (pats_of (fl_path f')) \<and>
                        pats_of (fl_path f) \<noteq> pats_of (fl_path f')) (all_flats a)"
    unfolding trie.insert_all_iff by (simp add: sorted_wrt_map registrable_def)
  finally have ins: "is_ok (insert_flats (all_flats a) empty_node) \<longleftrightarrow>
      (\<forall>f \<in> set (all_flats a). distinct (map fst (mr_handlers (fl_methods f)))) \<and>
      sorted_wrt (\<lambda>f f'. agree (pats_of (fl_path f)) (pats_of (fl_path f')) \<and>
                        pats_of (fl_path f) \<noteq> pats_of (fl_path f')) (all_flats a)" .
  show ?thesis
    unfolding cors [symmetric] ins [symmetric] build_def by (auto simp: is_ok_iff bind_result_Ok)
qed

lemma built_routing:
  assumes "build a = Ok b" and "decode_all (segments path) = Some ds"
  shows "trie_find (b_trie b) path m = Found ep params \<longleftrightarrow>
    (\<exists>f \<in> set (all_flats a). ep = endpoint_of f \<and> m \<in> fst ` set (mr_handlers (fl_methods f)) \<and>
       match_pat (pats_of (fl_path f)) ds = Some params \<and>
       (\<forall>f' \<in> set (all_flats a). match_pat (pats_of (fl_path f')) ds \<noteq> None \<longrightarrow>
          prior (pats_of (fl_path f)) (pats_of (fl_path f'))))"
proof -
  have reg: "insert_all trie_register empty_node (routes_of (all_flats a)) = Some (b_trie b)"
    using build_Ok(1)[OF assms(1)] by (simp add: insert_flats_iff)
  show ?thesis
    unfolding routing_table [OF reg assms(2)] by (auto simp: ep_methods_endpoint_of intro!: bexI)
qed

text \<open>A concrete application for the witnesses: two routes, one of which hangs, and a mounted module.\<close>

definition sample_hello :: "((str \<times> bytes) list, nat) handler_fn" where
  "sample_hello = into_handler_fn alist_lib [] (\<lambda>_. Done 5 (RStr ''hi''))"

definition sample_app :: "((str \<times> bytes) list, nat) app" where
  "sample_app =
     app_cors (cors_new (Listed [''http://a'']))
       (app_route ''/hello'' (route_get sample_hello)
         (app_route ''/slow'' (route_get (\<lambda>_. Hang))
           (app_mount ''/v1'' (module_route ''/users/{id}'' (route_get sample_hello) (module_new ''users''))
             (app_default 0))))"

definition sample_built :: "((str \<times> bytes) list, nat) built_app" where
  "sample_built = the (result_ok (build sample_app))"

definition sample_parts :: "str \<Rightarrow> str \<Rightarrow> (str \<times> bytes) list \<Rightarrow> (str \<times> bytes) list parts" where
  "sample_parts m path hs = \<lparr>p_method = m, p_path = path, p_query = None, p_headers = hs, p_client_addr = None\<rparr>"

lemma sample_flats:
  "all_flats sample_app =
     [flat_of (a_env (app_default 0)) [] ''/slow'' (route_get (\<lambda>_. Hang)),
      flat_of (a_env (app_default 0)) [] ''/hello'' (route_get sample_hello),
      flat_of (merge_from (a_env (app_default 0)) env_default) [] ''/v1/users/{id}'' (route_get sample_hello)]"
proof -
  have "join_paths ''/v1'' ''/users/{id}'' = ''/v1/users/{id}''" by code_simp
  then show ?thesis
    by (simp add: all_flats_def sample_app_def app_cors_def app_route_def app_mount_def app_default_def
        module_new_def)
qed

lemma sample_pats:
  "pats_of ''/slow'' = [Lit ''slow'']" "pats_of ''/hello'' = [Lit ''hello'']"
  "pats_of ''/v1/users/{id}'' = [Lit ''v1'', Lit ''users'', Cap ''id'']"
  by code_simp+

lemma sample_flat_simps [simp]:
  "fl_path (flat_of e mw path ms) = path" "fl_methods (flat_of e mw path ms) = ms"
  "mr_handlers (route_get h) = [(''GET'', h)]"
  by (simp_all add: flat_of_def route_get_def mr_on_def mr_new_def)

lemma sample_build: "build sample_app = Ok sample_built"
proof -
  have "a_cors sample_app = Some (cors_new (Listed [''http://a'']))" by (simp add: sample_app_def app_cors_def)
  then have "is_ok (build sample_app)"
    unfolding build_ok_iff sample_flats by (simp add: sample_pats agree_def cors_new_def)
  then show ?thesis by (auto simp: is_ok_iff sample_built_def)
qed

lemma sample_find:
  "\<exists>f. trie_find (b_trie sample_built) ''/hello'' ''GET'' = Found (endpoint_of f) [] \<and>
     f = flat_of (a_env (app_default 0)) [] ''/hello'' (route_get sample_hello)"
  "\<exists>f. trie_find (b_trie sample_built) ''/slow'' ''GET'' = Found (endpoint_of f) [] \<and>
     f = flat_of (a_env (app_default 0)) [] ''/slow'' (route_get (\<lambda>_. Hang))"
proof -
  have d: "decode_all (segments ''/hello'') = Some [''hello'']" "decode_all (segments ''/slow'') = Some [''slow'']"
    by code_simp+
  show "\<exists>f. trie_find (b_trie sample_built) ''/hello'' ''GET'' = Found (endpoint_of f) [] \<and>
     f = flat_of (a_env (app_default 0)) [] ''/hello'' (route_get sample_hello)"
    unfolding built_routing [OF sample_build d(1)] sample_flats by (simp add: sample_pats)
  show "\<exists>f. trie_find (b_trie sample_built) ''/slow'' ''GET'' = Found (endpoint_of f) [] \<and>
     f = flat_of (a_env (app_default 0)) [] ''/slow'' (route_get (\<lambda>_. Hang))"
    unfolding built_routing [OF sample_build d(2)] sample_flats by (simp add: sample_pats)
qed

lemma sample_timeout: "b_handler_timeout sample_built = 30 * 1000"
  using build_Ok(4)[OF sample_build]
  by (simp add: sample_app_def app_cors_def app_route_def app_mount_def app_default_def)

section \<open>Properties\<close>

text \<open>An application builds exactly when its policy and its route table are sound: the CORS
  policy does not combine credentials with any origin, no route registers a method twice, and over
  all routes of the app and of its mounted modules no two paths name one position differently or
  have the same pattern.\<close>

lemma build_accepts_iff:
  "is_ok (build a) \<longleftrightarrow>
     (\<forall>c. a_cors a = Some c \<longrightarrow> \<not> (c_allow_credentials c \<and> c_origins c = Any)) \<and>
     (\<forall>f \<in> set (all_flats a). distinct (map fst (mr_handlers (fl_methods f)))) \<and>
     sorted_wrt (\<lambda>f f'. agree (pats_of (fl_path f)) (pats_of (fl_path f')) \<and>
                        pats_of (fl_path f) \<noteq> pats_of (fl_path f')) (all_flats a)"
  by (rule build_ok_iff)

text \<open>A built application routes every request to the right flattened route. For a well-formed
  path the search finds an endpoint exactly if it is the endpoint of a route of the app or of one of
  its modules that accepts the method and matches the path, and no matching route is more specific.\<close>

lemma built_app_routing:
  assumes "build a = Ok b" and "decode_all (segments path) = Some ds"
  shows "trie_find (b_trie b) path m = Found ep params \<longleftrightarrow>
    (\<exists>f \<in> set (all_flats a). ep = endpoint_of f \<and> m \<in> fst ` set (mr_handlers (fl_methods f)) \<and>
       match_pat (pats_of (fl_path f)) ds = Some params \<and>
       (\<forall>f' \<in> set (all_flats a). match_pat (pats_of (fl_path f')) ds \<noteq> None \<longrightarrow>
          prior (pats_of (fl_path f)) (pats_of (fl_path f'))))"
  by (rule built_routing [OF assms])

text \<open>C6: secure-by-default headers reach every dispatched response and never override a handler.
  With the headers enabled, each default header of the response is the value the handler (or the
  error renderer) set, or else the default.\<close>

theorem dispatch_secured:
  assumes "http_laws lib" and "b_security_headers b" and "(n, v) \<in> set SECURITY_DEFAULTS"
    and "dispatch lib b p lane = Done t r"
  shows "\<exists>r0. dispatch_inner lib b p lane = Done t r0 \<and> r_status r = r_status r0 \<and>
    hm_get_all lib n (r_headers r) =
      (if hm_get_all lib n (r_headers r0) = [] then [v] else hm_get_all lib n (r_headers r0))"
proof -
  obtain r0 where "dispatch_inner lib b p lane = Done t r0"
    "r = decorate lib b (hm_get lib ''origin'' (p_headers p)) r0"
    using assms(4) by (cases "dispatch_inner lib b p lane") (auto simp: dispatch_def Let_def)
  then show ?thesis using decorate_security [OF assms(1-3)] by simp
qed

theorem dispatch_secured_witness:
  "\<exists>r0. dispatch_inner alist_lib sample_built (sample_parts ''GET'' ''/hello'' []) (Buffered []) = Done 5 r0"
proof -
  let ?p = "sample_parts ''GET'' ''/hello'' []"
  obtain f where f: "trie_find (b_trie sample_built) ''/hello'' ''GET'' = Found (endpoint_of f) []"
    "f = flat_of (a_env (app_default 0)) [] ''/hello'' (route_get sample_hello)" using sample_find(1) by blast
  have "\<exists>r. dispatch alist_lib sample_built ?p (Buffered []) = Done 5 r"
    using f by (simp add: dispatch_def dispatch_inner_def sample_parts_def endpoint_of_def flat_of_def
        route_get_def mr_on_def mr_new_def sample_hello_def into_handler_fn_def Let_def sample_timeout)
  then obtain r where r: "dispatch alist_lib sample_built ?p (Buffered []) = Done 5 r" by blast
  have "b_security_headers sample_built"
    using build_Ok(2)[OF sample_build] by (simp add: sample_app_def app_cors_def app_route_def app_mount_def app_default_def)
  moreover have "(''x-frame-options'', ''DENY'') \<in> set SECURITY_DEFAULTS" by (simp add: SECURITY_DEFAULTS_def)
  ultimately show ?thesis using dispatch_secured [OF alist_lib_laws _ _ r] by blast
qed

text \<open>Routing on the head alone and dispatching agree. Unless the request is a CORS preflight of
  an app with a policy, a reject of \<open>route_policy\<close> is exactly the response \<open>dispatch\<close> would give,
  whatever the body, and any other answer means that dispatch finds the endpoint whose limits the
  policy announces.\<close>

lemma route_policy_agrees:
  assumes "b_cors b = None \<or> \<not> is_preflight lib p"
  shows "case route_policy lib b p of
      Reject r \<Rightarrow> (\<forall>lane. dispatch lib b p lane = Done 0 r)
    | Route limit stream timeout \<Rightarrow>
        (\<exists>ep params. trie_find (b_trie b) (p_path p) (p_method p) = Found ep params \<and>
           limit = (case ep_body_limit ep of None \<Rightarrow> BODY_LIMIT | Some l \<Rightarrow> l) \<and>
           stream = ep_stream_body ep \<and>
           timeout = (case ep_body_read_timeout ep of None \<Rightarrow> b_body_read_timeout b | Some t \<Rightarrow> t))"
proof -
  have "(case b_cors b of None \<Rightarrow> None | Some c \<Rightarrow> if is_preflight lib p then Some c else None) = None"
    using assms by (auto split: option.splits)
  then show ?thesis
    by (cases "trie_find (b_trie b) (p_path p) (p_method p)")
       (simp_all add: route_policy_def dispatch_def dispatch_inner_def Let_def)
qed

text \<open>A preflight is answered from the head, and a refused one tells nothing. For an app with a
  CORS policy every preflight is answered 204 without a body; if the origin is not allowed, the
  answer is the same header-free response whatever the path, registered or not.\<close>

lemma preflight_no_leak:
  assumes "b_cors b = Some c" and "is_preflight lib p"
  shows "\<exists>r. route_policy lib b p = Reject r \<and> r_status r = 204 \<and> r_body r = body_empty \<and>
    (\<not> allows_origin c (case hm_get lib ''origin'' (p_headers p) of None \<Rightarrow> []
        | Some v \<Rightarrow> (case hv_to_str lib v of None \<Rightarrow> [] | Some s \<Rightarrow> s)) \<longrightarrow>
      r = (response_new lib body_empty)\<lparr>r_status := 204\<rparr>)"
  using assms
  by (auto simp: route_policy_def preflight_response_def response_new_def Let_def split: option.splits)

text \<open>Dispatch always answers in time or unwinds. It never hangs: within the route's handler
  budget (the route's own, else the app's) it produces a response or propagates a panic, and a
  handler chain that does not finish within the budget yields the 503 timeout error.\<close>

lemma dispatch_bounded:
  "(\<exists>t \<le> handler_budget b p. dispatch lib b p lane = Panic t \<or> (\<exists>r. dispatch lib b p lane = Done t r)) \<and>
   (\<forall>ep params h.
      trie_find (b_trie b) (p_path p) (p_method p) = Found ep params \<and>
      map_of (ep_methods ep) (p_method p) = Some h \<and>
      next_run (ep_middleware ep) h
        (resolver_new (ep_env ep) (b_overrides b) False ((with_lane p lane)\<lparr>rq_params := params\<rparr>)) = Hang \<longrightarrow>
      (\<exists>r. dispatch lib b p lane = Done (handler_budget b p) r \<and> r_status r = 503))"
proof (intro conjI allI impI)
  show "\<exists>t \<le> handler_budget b p. dispatch lib b p lane = Panic t \<or> (\<exists>r. dispatch lib b p lane = Done t r)"
    using dispatch_inner_bounded [of b p lib lane] by (auto simp: dispatch_def Let_def)
qed (auto simp: dispatch_def dispatch_inner_def handler_budget_def Let_def handler_timeout_error_def error_new_def)

end
