(* ===== verification/JC_Serve.thy ===== *)
theory JC_Serve
  imports JC_App
begin

text \<open>
  The serve engine, \<open>jerrycan-core/src/serve.rs\<close>: one request from its head to its response
  (the service closure of \<open>run_with_shutdown\<close>), the accept loop, and the drain at shutdown. The
  stall detectors of the same file are in \<open>JC_Timed\<close>.

  A request body is the list of the items the connection delivers, each with the time it takes.
  \<open>http_body_util::Limited\<close> is a parameter; \<open>limited_law\<close> states its documentation: the wrapped
  body yields at most the configured number of bytes, and a body within the limit is unchanged.
  Reading a body to its end takes the sum of its items' times. Hyper's connection handling (the
  HTTP/1 codec, keep-alive, upgrades) is not modelled.
\<close>

section \<open>One request\<close>

fun ok_bytes :: "incoming \<Rightarrow> bytes" where
  "ok_bytes [] = []"
| "ok_bytes ((d, Ok b) # rest) = b @ ok_bytes rest"
| "ok_bytes ((d, Err e) # rest) = ok_bytes rest"

definition limited_law :: "(nat \<Rightarrow> incoming \<Rightarrow> incoming) \<Rightarrow> bool" where
  "limited_law limited \<longleftrightarrow>
     (\<forall>n items. length (ok_bytes (limited n items)) \<le> n) \<and>
     (\<forall>n items. length (ok_bytes items) \<le> n \<longrightarrow> limited n items = items)"

text \<open>Reading a body to its end: the bytes, or the first failure.\<close>

fun collect_body :: "incoming \<Rightarrow> (stream_error, bytes) result run" where
  "collect_body [] = Done 0 (Ok [])"
| "collect_body ((d, Err e) # rest) = Done d (Err e)"
| "collect_body ((d, Ok b) # rest) =
     (case collect_body rest of
        Done t (Ok bs) \<Rightarrow> Done (d + t) (Ok (b @ bs))
      | Done t (Err e) \<Rightarrow> Done (d + t) (Err e)
      | Hang \<Rightarrow> Hang
      | Panic t \<Rightarrow> Panic (d + t))"

definition finish_error :: "'h http_lib \<Rightarrow> ('h, 'v) built_app \<Rightarrow> error \<Rightarrow> bytes option \<Rightarrow> 'h response" where
  "finish_error lib b e cors_origin =
     (let response = error_into_response lib e;
          response = (if b_security_headers b then apply_security_headers lib response else response)
      in case b_cors b of None \<Rightarrow> response | Some c \<Rightarrow> apply_cors lib response cors_origin c)"

text \<open>The dispatch task is spawned: a panic ends it with a join error at the same instant.\<close>

definition dispatch_isolated ::
  "'h http_lib \<Rightarrow> ('h, 'v) built_app \<Rightarrow> 'h parts \<Rightarrow> body_lane \<Rightarrow> bytes option \<Rightarrow> 'h response run" where
  "dispatch_isolated lib b p lane cors_origin =
     (case dispatch lib b p lane of
        Done t r \<Rightarrow> Done t r
      | Panic t \<Rightarrow> Done t (finish_error lib b (internal ''handler panicked'') cors_origin)
      | Hang \<Rightarrow> Hang)"

text \<open>
  Phase 2 up to the dispatch: the lane a route's body arrives in and the time that took, or the
  error of the upfront read.
\<close>

definition read_body ::
  "(nat \<Rightarrow> incoming \<Rightarrow> incoming) \<Rightarrow> nat \<Rightarrow> bool \<Rightarrow> nat \<Rightarrow> incoming \<Rightarrow> (error, body_lane) result run" where
  "read_body limited limit stream body_read_timeout body =
     (if stream then
        Done 0 (Ok (Stream (Some (recv_frames 0 (limited limit body) (timed_new body_read_timeout)))))
      else
        map_run (\<lambda>collected. case collected of
            Ok (Ok bs) \<Rightarrow> Ok (Buffered bs)
          | Ok (Err _) \<Rightarrow> Err payload_too_large
          | Err _ \<Rightarrow> Err (error_new 408 ''JC0408'' ''timed out reading the request body''))
          (with_timeout body_read_timeout (collect_body (limited limit body))))"

fun delay :: "nat \<Rightarrow> 'a run \<Rightarrow> 'a run" where
  "delay d (Done t x) = Done (d + t) x"
| "delay d Hang = Hang"
| "delay d (Panic t) = Panic (d + t)"

definition serve_request ::
  "'h http_lib \<Rightarrow> (nat \<Rightarrow> incoming \<Rightarrow> incoming) \<Rightarrow> ('h, 'v) built_app \<Rightarrow> str \<Rightarrow> 'h parts \<Rightarrow> incoming \<Rightarrow> 'h response run" where
  "serve_request lib limited b peer parts0 body =
     (let p = parts0\<lparr>p_client_addr := Some peer\<rparr>;
          cors_origin = hm_get lib ''origin'' (p_headers p)
      in case route_policy lib b p of
           Reject response \<Rightarrow> Done 0 response
         | Route limit stream timeout \<Rightarrow>
             (case read_body limited limit stream timeout body of
                Done t (Ok lane) \<Rightarrow> delay t (dispatch_isolated lib b p lane cors_origin)
              | Done t (Err e) \<Rightarrow> Done t (finish_error lib b e cors_origin)
              | Hang \<Rightarrow> Hang
              | Panic t \<Rightarrow> Panic t))"

section \<open>The accept loop and the drain\<close>

datatype error_kind = ConnectionAborted | ConnectionReset | Interrupted | WouldBlock | OtherKind

record accept_error =
  ae_kind :: error_kind
  ae_raw_os :: "int option"
  ae_text :: str

definition is_transient_accept_error :: "accept_error \<Rightarrow> bool" where
  "is_transient_accept_error e \<longleftrightarrow>
     ae_kind e \<in> {ConnectionAborted, ConnectionReset, Interrupted, WouldBlock} \<or>
     ae_raw_os e \<in> {Some 23, Some 24}"

text \<open>
  What the \<open>select!\<close> of the loop yields, in turn: the shutdown signal, an accepted connection, or
  an accept error. The result is the number of spawned connections when the loop breaks, the fatal
  error, or \<open>None\<close> while events are still awaited.
\<close>

datatype accept_event = ShutdownEv | AcceptedEv | AcceptErrEv accept_error

fun accept_loop :: "accept_event list \<Rightarrow> nat \<Rightarrow> (error, nat) result option" where
  "accept_loop [] spawned = None"
| "accept_loop (ShutdownEv # evs) spawned = Some (Ok spawned)"
| "accept_loop (AcceptedEv # evs) spawned = accept_loop evs (Suc spawned)"
| "accept_loop (AcceptErrEv e # evs) spawned =
     (if is_transient_accept_error e then accept_loop evs spawned
      else Some (Err (internal (''accept failed fatally: '' @ ae_text e))))"

definition DRAIN_CAP :: nat where "DRAIN_CAP = 10 * 1000"

text \<open>
  The drain waits for every task of the join set (a connection or a background task), or for the
  cap, after which the rest is aborted: the time it takes and the tasks aborted.
\<close>

definition task_end :: "unit run \<Rightarrow> nat option" where
  "task_end r = (case r of Done t _ \<Rightarrow> Some t | Panic t \<Rightarrow> Some t | Hang \<Rightarrow> None)"

definition finished_by :: "nat \<Rightarrow> unit run \<Rightarrow> bool" where
  "finished_by cap r = (case task_end r of None \<Rightarrow> False | Some t \<Rightarrow> t \<le> cap)"

definition drain :: "unit run list \<Rightarrow> nat \<times> unit run list" where
  "drain tasks =
     (if list_all (finished_by DRAIN_CAP) tasks
      then (foldl max 0 (map (\<lambda>r. the (task_end r)) tasks), [])
      else (DRAIN_CAP, filter (\<lambda>r. \<not> finished_by DRAIN_CAP r) tasks))"

section \<open>Lemmas\<close>

lemma collect_body_cases:
  obtains t bs where "collect_body items = Done t (Ok bs)" "bs = ok_bytes items"
  | t e where "collect_body items = Done t (Err e)"
proof -
  have "(\<exists>t. collect_body items = Done t (Ok (ok_bytes items))) \<or> (\<exists>t e. collect_body items = Done t (Err e))"
    by (induction items rule: collect_body.induct) auto
  then show ?thesis using that by blast
qed

lemma finish_error_security:
  assumes "http_laws lib" "b_security_headers b" "(n, v) \<in> set SECURITY_DEFAULTS"
  shows "hm_get_all lib n (r_headers (finish_error lib b e o')) \<noteq> []"
proof -
  have "finish_error lib b e o' = decorate lib (b\<lparr>b_error_mapper := None\<rparr>) o' (error_into_response lib e)"
    by (simp add: finish_error_def decorate_def apply_error_mapper_def Let_def split: option.splits)
  then show ?thesis using decorate_security [of lib "b\<lparr>b_error_mapper := None\<rparr>" n v] assms by simp
qed

lemma finish_error_simps [simp]:
  "r_status (finish_error lib b e o') = status e"
  "r_body (finish_error lib b e o') = JFull (json_to_vec lib (error_body e))"
proof -
  have "finish_error lib b e o' = decorate lib (b\<lparr>b_error_mapper := None\<rparr>) o' (error_into_response lib e)"
    by (simp add: finish_error_def decorate_def apply_error_mapper_def Let_def split: option.splits)
  then show "r_status (finish_error lib b e o') = status e"
    "r_body (finish_error lib b e o') = JFull (json_to_vec lib (error_body e))"
    by (simp_all add: apply_error_mapper_def)
qed

lemma dispatch_isolated_cases:
  "\<exists>t r. dispatch_isolated lib b p lane o' = Done t r \<and> t \<le> handler_budget b p \<and>
     ((\<exists>t'. dispatch lib b p lane = Done t' r) \<or> r = finish_error lib b (internal ''handler panicked'') o')"
  using dispatch_inner_bounded [of b p lib lane]
  by (auto simp: dispatch_isolated_def dispatch_def Let_def)

lemma dispatch_has_security:
  assumes "http_laws lib" "b_security_headers b" "(n, v) \<in> set SECURITY_DEFAULTS" "dispatch lib b p lane = Done t r"
  shows "hm_get_all lib n (r_headers r) \<noteq> []"
proof -
  obtain r0 where "r = decorate lib b (hm_get lib ''origin'' (p_headers p)) r0"
    using assms(4) by (cases "dispatch_inner lib b p lane") (auto simp: dispatch_def Let_def)
  then show ?thesis using decorate_security [OF assms(1-3)] by simp
qed

lemma policy_reject_security:
  assumes "http_laws lib" "b_security_headers b" "(n, v) \<in> set SECURITY_DEFAULTS"
    and "b_cors b = None \<or> \<not> is_preflight lib p" and "route_policy lib b p = Reject r"
  shows "hm_get_all lib n (r_headers r) \<noteq> []"
proof -
  have "(case b_cors b of None \<Rightarrow> None | Some c \<Rightarrow> if is_preflight lib p then Some c else None) = None"
    using assms(4) by (auto split: option.splits)
  then obtain e where "r = decorate lib b (hm_get lib ''origin'' (p_headers p)) (error_into_response lib e)"
    using assms(5) by (auto simp: route_policy_def Let_def split: route_match.splits)
  then show ?thesis using decorate_security [OF assms(1-3)] by simp
qed

lemma read_body_cases:
  "\<exists>t r. read_body limited limit stream timeout body = Done t r \<and> t \<le> (if stream then 0 else timeout)"
  by (rule collect_body_cases [of "limited limit body"]) (auto simp: read_body_def)

text \<open>A reference instance of the limiter, for the witnesses: it fails at the frame that passes the limit.\<close>

fun limited_ref :: "nat \<Rightarrow> incoming \<Rightarrow> incoming" where
  "limited_ref n [] = []"
| "limited_ref n ((d, Err e) # rest) = (d, Err e) # limited_ref n rest"
| "limited_ref n ((d, Ok b) # rest) =
     (if length b \<le> n then (d, Ok b) # limited_ref (n - length b) rest else [(d, Err LengthLimitError)])"

lemma limited_ref_law: "limited_law limited_ref"
proof -
  have "length (ok_bytes (limited_ref n items)) \<le> n \<and>
      (length (ok_bytes items) \<le> n \<longrightarrow> limited_ref n items = items)" for n items
    by (induction n items rule: limited_ref.induct) auto
  then show ?thesis by (simp add: limited_law_def)
qed

lemma serve_request_total:
  "\<exists>t r. serve_request lib limited b peer p body = Done t r \<and>
     t \<le> (case route_policy lib b (p\<lparr>p_client_addr := Some peer\<rparr>) of
            Reject _ \<Rightarrow> 0
          | Route _ stream timeout \<Rightarrow> (if stream then 0 else timeout) + handler_budget b p)"
proof -
  let ?p = "p\<lparr>p_client_addr := Some peer\<rparr>"
  let ?o = "hm_get lib ''origin'' (p_headers p)"
  show ?thesis
  proof (cases "route_policy lib b ?p")
    case (Route limit stream timeout)
    obtain t r where r: "read_body limited limit stream timeout body = Done t r" "t \<le> (if stream then 0 else timeout)"
      using read_body_cases by metis
    show ?thesis
    proof (cases r)
      case (Inl e)
      then show ?thesis using Route r by (simp add: serve_request_def Let_def)
    next
      case (Inr lane)
      obtain t' r' where "dispatch_isolated lib b ?p lane ?o = Done t' r'" "t' \<le> handler_budget b ?p"
        using dispatch_isolated_cases by metis
      moreover have "handler_budget b ?p = handler_budget b p" by (simp add: handler_budget_def)
      ultimately show ?thesis using Route r Inr by (simp add: serve_request_def Let_def)
    qed
  qed (simp add: serve_request_def Let_def)
qed

section \<open>Properties\<close>

text \<open>Every request is answered, in bounded time. Whatever the handler does (hang, panic or
  finish) and however the body arrives, the service produces a response within the body-read
  deadline of the route plus its handler budget.\<close>

lemma serve_request_answers:
  "\<exists>t r. serve_request lib limited b peer p body = Done t r \<and>
     t \<le> (case route_policy lib b (p\<lparr>p_client_addr := Some peer\<rparr>) of
            Reject _ \<Rightarrow> 0
          | Route _ stream timeout \<Rightarrow> (if stream then 0 else timeout) + handler_budget b p)"
  by (rule serve_request_total)

text \<open>No response leaves without the security headers. With the headers enabled, every response
  to a request that is not a CORS preflight carries each default header: routing rejects, the 413
  and 408 of the body read, the 500 of a panic, the 503 of a timeout, and what a handler returns.\<close>

lemma serve_request_secured:
  assumes "http_laws lib" and "b_security_headers b" and "(n, v) \<in> set SECURITY_DEFAULTS"
    and "b_cors b = None \<or> \<not> is_preflight lib p"
    and "serve_request lib limited b peer p body = Done t r"
  shows "hm_get_all lib n (r_headers r) \<noteq> []"
proof -
  let ?p = "p\<lparr>p_client_addr := Some peer\<rparr>"
  let ?o = "hm_get lib ''origin'' (p_headers p)"
  have np: "b_cors b = None \<or> \<not> is_preflight lib ?p" using assms(4) by (simp add: is_preflight_def)
  show ?thesis
  proof (cases "route_policy lib b ?p")
    case (Reject r')
    then show ?thesis using policy_reject_security [OF assms(1-3) np Reject] assms(5)
      by (simp add: serve_request_def Let_def)
  next
    case (Route limit stream timeout)
    obtain t1 r1 where r1: "read_body limited limit stream timeout body = Done t1 r1"
      using read_body_cases by metis
    show ?thesis
    proof (cases r1)
      case (Inl e)
      then show ?thesis using Route r1 assms(5) finish_error_security [OF assms(1-3)]
        by (auto simp: serve_request_def Let_def)
    next
      case (Inr lane)
      obtain t' r' where d: "dispatch_isolated lib b ?p lane ?o = Done t' r'"
        and c: "(\<exists>t'. dispatch lib b ?p lane = Done t' r') \<or> r' = finish_error lib b (internal ''handler panicked'') ?o"
        using dispatch_isolated_cases by metis
      then have "r = r'" using Route r1 Inr assms(5) by (simp add: serve_request_def Let_def)
      with c show ?thesis using dispatch_has_security [OF assms(1-3)] finish_error_security [OF assms(1-3)] by blast
    qed
  qed
qed

text \<open>A buffered body never exceeds its route's limit, and is complete. What the upfront read
  hands to the dispatcher is at most the limit long and is the body the client sent, unless the body
  exceeds the limit; a streamed route is never read before dispatch.\<close>

lemma buffered_body_bounded:
  assumes "limited_law limited" and "read_body limited limit stream timeout body = Done t (Ok lane)"
  shows "case lane of
      Buffered bs \<Rightarrow> \<not> stream \<and> length bs \<le> limit \<and> (length (ok_bytes body) \<le> limit \<longrightarrow> bs = ok_bytes body)
    | Stream _ \<Rightarrow> stream \<and> t = 0"
proof (cases stream)
  case False
  obtain bs where "lane = Buffered bs" "bs = ok_bytes (limited limit body)"
    by (rule collect_body_cases [of "limited limit body"]) (use assms(2) False in \<open>auto simp: read_body_def split: if_splits\<close>)
  then show ?thesis using assms(1) False by (simp add: limited_law_def)
qed (use assms(2) in \<open>auto simp: read_body_def\<close>)

text \<open>The error-body mapper does not see the serve engine's own errors. Whatever mapper the app
  registers, the 413, 408 and panic-500 responses of \<open>finish_error\<close> keep the default error body,
  while the same error passing through the dispatcher is reshaped.\<close>

lemma finish_error_ignores_mapper:
  "r_body (finish_error lib b e o') = JFull (json_to_vec lib (error_body e)) \<and>
   r_body (decorate lib (b\<lparr>b_error_mapper := Some (\<lambda>_ _ _. Some j)\<rparr>) o' (error_into_response lib e)) =
     JFull (json_to_vec lib j)"
  by (simp add: apply_error_mapper_def body_full_def)

text \<open>The accept loop survives transient errors. Dropping the transient accept errors from a
  history of events changes neither the number of connections served nor the outcome, and the loop
  fails only on an error that is not transient.\<close>

lemma accept_loop_ignores_transient:
  "accept_loop (filter (\<lambda>ev. case ev of AcceptErrEv e \<Rightarrow> \<not> is_transient_accept_error e | _ \<Rightarrow> True) evs) n =
     accept_loop evs n \<and>
   ((\<exists>err. accept_loop evs n = Some (Err err)) \<longrightarrow>
     (\<exists>e. AcceptErrEv e \<in> set evs \<and> \<not> is_transient_accept_error e))"
  by (induction evs n rule: accept_loop.induct) auto

end
