(* ===== verification/JC_RateLimit.thy ===== *)
theory JC_RateLimit
  imports JC_App
begin

text \<open>
  Fixed-window rate limiting, crate \<open>jerrycan-ratelimit\<close>: the store interface and the in-memory
  store (\<open>store.rs\<close>), the middleware (\<open>middleware.rs\<close>), the extension's configuration and sweeper
  (\<open>lib.rs\<close>).

  Instants and durations are milliseconds; an instant before the epoch is clamped to 0 as in the
  source, so instants are natural numbers. Counters saturate at the largest \<open>u32\<close> and window ids are
  cut to \<open>u64\<close>. The store sits behind a mutex: one operation is one step on the map. The hash of an
  API key (\<open>DefaultHasher\<close>, whose algorithm the standard library leaves open) is an argument. The
  peer address of a request is represented by the text of its IP address; the port is never read.
\<close>

section \<open>The in-memory store\<close>

record outcome =
  o_allowed :: bool
  o_remaining :: nat
  o_retry_after :: nat

definition u32_max :: nat where "u32_max = 2 ^ 32 - 1"

definition window_bounds :: "nat \<Rightarrow> nat \<Rightarrow> nat \<times> nat" where
  "window_bounds now window =
     (let window_ms = max window 1;
          window_id = (now div window_ms) mod 2 ^ 64;
          retry_after_ms = window_ms - now mod window_ms
      in (window_id, retry_after_ms mod 2 ^ 64))"

type_synonym entry = "nat \<times> nat \<times> nat"
type_synonym mem_store = "str \<Rightarrow> entry option"

definition mem_new :: mem_store where "mem_new = (\<lambda>_. None)"

definition mem_hit :: "str \<Rightarrow> nat \<Rightarrow> nat \<Rightarrow> nat \<Rightarrow> mem_store \<Rightarrow> outcome \<times> mem_store" where
  "mem_hit key window limit now m =
     (case window_bounds now window of (wid, retry_after) \<Rightarrow>
       (let window_ms = max window 1;
            entry = (case m key of None \<Rightarrow> (wid, 0, window_ms) | Some en \<Rightarrow> en);
            entry = (if fst entry \<noteq> wid then (wid, 0, window_ms) else entry);
            count = min (fst (snd entry) + 1) u32_max
        in (\<lparr>o_allowed = (count \<le> limit), o_remaining = limit - count, o_retry_after = retry_after\<rparr>,
            m(key \<mapsto> (fst entry, count, snd (snd entry))))))"

definition mem_prune :: "nat \<Rightarrow> mem_store \<Rightarrow> mem_store" where
  "mem_prune now m =
     (\<lambda>k. case m k of None \<Rightarrow> None
          | Some (wid, c, window_ms) \<Rightarrow> if (wid + 1) * window_ms > now then Some (wid, c, window_ms) else None)"

section \<open>Configuration and middleware\<close>

record 'h rate_limit =
  rl_limit :: nat
  rl_window :: nat
  rl_api_key_header :: "str option"
  rl_user_key :: "('h request_data \<Rightarrow> str option) option"
  rl_trust_forwarded_for :: bool

definition per_window :: "nat \<Rightarrow> nat \<Rightarrow> 'h rate_limit" where
  "per_window limit window = \<lparr>rl_limit = limit, rl_window = window, rl_api_key_header = None,
     rl_user_key = None, rl_trust_forwarded_for = False\<rparr>"

definition api_key_header :: "str \<Rightarrow> 'h rate_limit \<Rightarrow> 'h rate_limit" where
  "api_key_header name c = c\<lparr>rl_api_key_header := Some name\<rparr>"
definition user_key :: "('h request_data \<Rightarrow> str option) \<Rightarrow> 'h rate_limit \<Rightarrow> 'h rate_limit" where
  "user_key f c = c\<lparr>rl_user_key := Some f\<rparr>"
definition trust_forwarded_for :: "bool \<Rightarrow> 'h rate_limit \<Rightarrow> 'h rate_limit" where
  "trust_forwarded_for yes c = c\<lparr>rl_trust_forwarded_for := yes\<rparr>"

text \<open>\<open>{:016x}\<close>: sixteen lower-case hexadecimal digits.\<close>

definition hex16 :: "nat \<Rightarrow> str" where
  "hex16 n = map (\<lambda>i. let d = n div 16 ^ i mod 16 in char_of (if d < 10 then 48 + d else 87 + d)) (rev [0..<16])"

definition nonempty :: "str option \<Rightarrow> str option" where
  "nonempty s = (case s of Some t \<Rightarrow> if t = [] then None else Some t | None \<Rightarrow> None)"

definition partition_key ::
  "'h http_lib \<Rightarrow> (str \<Rightarrow> nat) \<Rightarrow> 'h rate_limit \<Rightarrow> 'h request_data \<Rightarrow> str option" where
  "partition_key lib hash cfg rq =
     (let hdr = (\<lambda>name. case hm_get lib name (p_headers (rq_parts rq)) of None \<Rightarrow> None | Some v \<Rightarrow> hv_to_str lib v);
          api = (case rl_api_key_header cfg of None \<Rightarrow> None | Some name \<Rightarrow> nonempty (hdr name));
          user = (case rl_user_key cfg of None \<Rightarrow> None | Some f \<Rightarrow> f rq);
          forwarded = (if rl_trust_forwarded_for cfg
                       then nonempty (map_option (\<lambda>s. trim (hd (split_on CHR '','' s))) (hdr ''x-forwarded-for''))
                       else None);
          ip = (case forwarded of Some s \<Rightarrow> Some s | None \<Rightarrow> peer_addr rq)
      in case api of Some v \<Rightarrow> Some (''apikey:'' @ hex16 (hash v))
         | None \<Rightarrow> (case user of Some u \<Rightarrow> Some (''user:'' @ u)
           | None \<Rightarrow> map_option (\<lambda>a. ''ip:'' @ a) ip))"

text \<open>
  The middleware over any store: \<open>hit\<close> is the store's operation. \<open>clock_ms\<close> reads the resolved
  clock. The store is threaded beside the request.
\<close>

definition rl_handle ::
  "'h http_lib \<Rightarrow> (str \<Rightarrow> nat) \<Rightarrow> ('v \<Rightarrow> nat) \<Rightarrow>
   (str \<Rightarrow> nat \<Rightarrow> nat \<Rightarrow> nat \<Rightarrow> 's \<Rightarrow> (error, outcome) result \<times> 's) \<Rightarrow>
   'h rate_limit \<Rightarrow> ('h, 'v) handler_fn \<Rightarrow> ('h, 'v) ctx \<Rightarrow> 's \<Rightarrow> ('h response \<times> ('h, 'v) ctx) run \<times> 's" where
  "rl_handle lib hash clock_ms hit cfg next ctx st =
     (if p_method (rq_parts (request ctx)) = ''OPTIONS'' then (next ctx, st)
      else case partition_key lib hash cfg (request ctx) of
        None \<Rightarrow> (next ctx, st)
      | Some key \<Rightarrow>
          (case resolve 33 ctx ''Clock'' of
             None \<Rightarrow> (Hang, st)
           | Some (Err _, ctx') \<Rightarrow> (next ctx', st)
           | Some (Ok clock, ctx') \<Rightarrow>
               (case hit key (rl_window cfg) (rl_limit cfg) (clock_ms clock) st of
                  (Err e, st') \<Rightarrow> (Done 0 (error_into_response lib e, ctx'), st')
                | (Ok out, st') \<Rightarrow>
                    if o_allowed out then (next ctx', st')
                    else
                      (let resp = error_into_response lib too_many_requests;
                           retry = max (o_retry_after out div 1000) 1;
                           resp = resp\<lparr>r_headers := insert_str lib ''retry-after'' (show_nat retry) (r_headers resp)\<rparr>
                       in (Done 0 (resp, ctx'), st')))))"

text \<open>\<open>InMemoryStore\<close> behind the trait never fails.\<close>

definition mem_hit_result :: "str \<Rightarrow> nat \<Rightarrow> nat \<Rightarrow> nat \<Rightarrow> mem_store \<Rightarrow> (error, outcome) result \<times> mem_store" where
  "mem_hit_result key window limit now m = (case mem_hit key window limit now m of (o', m') \<Rightarrow> (Ok o', m'))"

text \<open>The sweeper: its interval, and one prune for every interval that elapses before shutdown.\<close>

definition sweep_interval :: "'h rate_limit \<Rightarrow> nat" where
  "sweep_interval cfg = max (rl_window cfg) 1000"

definition sweep :: "('s \<Rightarrow> nat \<Rightarrow> 's) \<Rightarrow> nat list \<Rightarrow> 's \<Rightarrow> 's" where
  "sweep prune nows st = foldl prune st nows"

section \<open>The store interface\<close>

text \<open>
  What a client may assume of a store, for one window length. \<open>inv T\<close> holds of a store that has
  seen no instant after \<open>T\<close>; \<open>tally key i\<close> is the number of hits it remembers for a key in the
  \<open>i\<close>-th window, capped at \<open>u32_max\<close>. Only windows that have not ended need be remembered.
\<close>

locale window_store =
  fixes window :: nat
    and limit :: nat
    and init :: 's
    and hit :: "str \<Rightarrow> nat \<Rightarrow> 's \<Rightarrow> outcome \<times> 's"
    and prune :: "nat \<Rightarrow> 's \<Rightarrow> 's"
    and inv :: "nat \<Rightarrow> 's \<Rightarrow> bool"
    and tally :: "'s \<Rightarrow> str \<Rightarrow> nat \<Rightarrow> nat"
  assumes inv_init: "inv 0 init"
    and tally_init: "tally init k i = 0"
    and hit_inv: "inv t s \<Longrightarrow> t \<le> now \<Longrightarrow> now < 2 ^ 64 \<Longrightarrow> inv now (snd (hit k now s))"
    and hit_allowed: "inv t s \<Longrightarrow> t \<le> now \<Longrightarrow> now < 2 ^ 64 \<Longrightarrow>
        o_allowed (fst (hit k now s)) \<longleftrightarrow> min (tally s k (now div window) + 1) u32_max \<le> limit"
    and hit_tally: "inv t s \<Longrightarrow> t \<le> now \<Longrightarrow> now < 2 ^ 64 \<Longrightarrow> now div window \<le> i \<Longrightarrow>
        tally (snd (hit k now s)) k' i =
          (if k' = k \<and> i = now div window then min (tally s k i + 1) u32_max else tally s k' i)"
    and prune_inv: "inv t s \<Longrightarrow> t \<le> now \<Longrightarrow> inv now (prune now s)"
    and prune_tally: "inv t s \<Longrightarrow> t \<le> now \<Longrightarrow> now div window \<le> i \<Longrightarrow> tally (prune now s) k' i = tally s k' i"

text \<open>A history of store operations, and what the hits answered.\<close>

datatype rl_event = Hit str nat | Prune nat

fun ev_time :: "rl_event \<Rightarrow> nat" where
  "ev_time (Hit k t) = t"
| "ev_time (Prune t) = t"

fun drive ::
  "(str \<Rightarrow> nat \<Rightarrow> 's \<Rightarrow> outcome \<times> 's) \<Rightarrow> (nat \<Rightarrow> 's \<Rightarrow> 's) \<Rightarrow> rl_event list \<Rightarrow> 's \<Rightarrow> (str \<times> nat \<times> bool) list \<times> 's" where
  "drive hit prune [] s = ([], s)"
| "drive hit prune (Hit k t # evs) s =
     (case hit k t s of (out, s') \<Rightarrow>
       (case drive hit prune evs s' of (l, s'') \<Rightarrow> ((k, t, o_allowed out) # l, s'')))"
| "drive hit prune (Prune t # evs) s = drive hit prune evs (prune t s)"

definition hits_in :: "nat \<Rightarrow> str \<Rightarrow> nat \<Rightarrow> (str \<times> nat \<times> bool) list \<Rightarrow> nat" where
  "hits_in window k i log = length (filter (\<lambda>(k', t, a). k' = k \<and> t div window = i) log)"

definition allowed_in :: "nat \<Rightarrow> str \<Rightarrow> nat \<Rightarrow> (str \<times> nat \<times> bool) list \<Rightarrow> nat" where
  "allowed_in window k i log = length (filter (\<lambda>(k', t, a). k' = k \<and> t div window = i \<and> a) log)"

lemma drive_times:
  "(k, t, a) \<in> set (fst (drive hit prune evs s)) \<Longrightarrow> Hit k t \<in> set evs"
  by (induction hit prune evs s rule: drive.induct) (auto split: prod.splits)

context window_store
begin

text \<open>From a store that has counted \<open>n k i\<close> hits so far in the windows that are still open.\<close>

lemma drive_counts:
  "sorted (map ev_time evs) \<Longrightarrow> (\<forall>e \<in> set evs. t \<le> ev_time e \<and> ev_time e < 2 ^ 64) \<Longrightarrow> inv t s \<Longrightarrow>
   limit < u32_max \<Longrightarrow> (\<forall>k i. t div window \<le> i \<longrightarrow> tally s k i = min (n k i) u32_max) \<Longrightarrow>
   t div window \<le> i \<Longrightarrow>
   allowed_in window k i (fst (drive hit prune evs s)) =
     min limit (n k i + hits_in window k i (fst (drive hit prune evs s))) - min limit (n k i)"
proof (induction evs arbitrary: t s n)
  case Nil
  then show ?case by (simp add: allowed_in_def hits_in_def)
next
  case (Cons e evs)
  have le: "t \<le> ev_time e" "ev_time e < 2 ^ 64" using Cons.prems(2) by auto
  have rest: "sorted (map ev_time evs)" "\<forall>e' \<in> set evs. ev_time e \<le> ev_time e' \<and> ev_time e' < 2 ^ 64"
    using Cons.prems(1,2) by auto
  have div: "t div window \<le> ev_time e div window" using le(1) by (rule div_le_mono)
  show ?case
  proof (cases "ev_time e div window \<le> i")
    case late: True
    show ?thesis
    proof (cases e)
      case (Prune u)
      have "\<forall>k i. u div window \<le> i \<longrightarrow> tally (prune u s) k i = min (n k i) u32_max"
        using prune_tally [OF Cons.prems(3)] Cons.prems(5) Prune le div by (auto intro: order_trans)
      then show ?thesis
        using Cons.IH [OF rest prune_inv [OF Cons.prems(3) le(1)] Cons.prems(4) _ late] Prune by simp
    next
      case (Hit k0 u)
      define w where "w = u div window"
      define n' where "n' = (\<lambda>k i. if k = k0 \<and> i = w then n k i + 1 else n k i)"
      have nt: "u div window = w" "t div window \<le> w" "t \<le> u" "u < 2 ^ 64" using Hit le div by (simp_all add: w_def)
      let ?s = "snd (hit k0 u s)" and ?a = "o_allowed (fst (hit k0 u s))"
      have tal: "\<forall>k i. u div window \<le> i \<longrightarrow> tally ?s k i = min (n' k i) u32_max"
      proof (intro allI impI)
        fix k' i' assume i: "u div window \<le> i'"
        then have "tally s k' i' = min (n k' i') u32_max" using Cons.prems(5) nt by (metis order_trans)
        then show "tally ?s k' i' = min (n' k' i') u32_max"
          using hit_tally [OF Cons.prems(3) nt(3,4) i, of k0 k'] nt(1) Cons.prems(5) by (auto simp: n'_def)
      qed
      have "tally s k0 w = min (n k0 w) u32_max" using Cons.prems(5) nt(2) by blast
      then have al: "?a \<longleftrightarrow> n k0 w < limit"
        using hit_allowed [OF Cons.prems(3) nt(3,4), of k0] Cons.prems(4) nt(1) by auto
      have IH: "allowed_in window k i (fst (drive hit prune evs ?s)) =
          min limit (n' k i + hits_in window k i (fst (drive hit prune evs ?s))) - min limit (n' k i)"
        using Cons.IH [OF rest, unfolded Hit, simplified, OF hit_inv [OF Cons.prems(3) nt(3,4)] Cons.prems(4) tal] late Hit
        by simp
      obtain l s2 where dr: "drive hit prune evs ?s = (l, s2)" by (cases "drive hit prune evs ?s")
      have log: "fst (drive hit prune (e # evs) s) = (k0, u, ?a) # l"
        using Hit dr by (cases "hit k0 u s") simp
      show ?thesis
      proof (cases "k = k0 \<and> i = w")
        case True
        then have "allowed_in window k i ((k0, u, ?a) # l) = (if ?a then 1 else 0) + allowed_in window k i l"
          "hits_in window k i ((k0, u, ?a) # l) = Suc (hits_in window k i l)"
          using nt(1) by (simp_all add: allowed_in_def hits_in_def)
        then show ?thesis unfolding log using IH dr True al by (auto simp: n'_def)
      next
        case False
        then have "allowed_in window k i ((k0, u, ?a) # l) = allowed_in window k i l"
          "hits_in window k i ((k0, u, ?a) # l) = hits_in window k i l"
          using nt(1) by (auto simp: allowed_in_def hits_in_def)
        then show ?thesis unfolding log using IH dr False by (auto simp: n'_def)
      qed
    qed
  next
    case False
    then have past: "i < ev_time e' div window" if "e' \<in> set (e # evs)" for e'
      using that rest(2) div_le_mono by (metis le_less_trans not_le set_ConsD order_refl)
    then have none: "hits_in window k i (fst (drive hit prune (e # evs) s)) = 0"
      "allowed_in window k i (fst (drive hit prune (e # evs) s)) = 0"
      using drive_times by (fastforce simp: hits_in_def allowed_in_def filter_empty_conv)+
    then show ?thesis by simp
  qed
qed

lemma fixed_window:
  assumes "sorted (map ev_time evs)" "\<forall>e \<in> set evs. ev_time e < 2 ^ 64" "limit < u32_max"
  shows "allowed_in window k i (fst (drive hit prune evs init)) =
    min limit (hits_in window k i (fst (drive hit prune evs init)))"
  using drive_counts [of evs 0 init "\<lambda>_ _. 0" i k] assms inv_init tally_init by simp

end

section \<open>The in-memory store implements the interface\<close>

definition mem_inv :: "nat \<Rightarrow> nat \<Rightarrow> mem_store \<Rightarrow> bool" where
  "mem_inv w t m \<longleftrightarrow> (\<forall>k i c ms. m k = Some (i, c, ms) \<longrightarrow> i \<le> t div max w 1 \<and> ms = max w 1)"

definition mem_tally :: "mem_store \<Rightarrow> str \<Rightarrow> nat \<Rightarrow> nat" where
  "mem_tally m k i = (case m k of None \<Rightarrow> 0 | Some (j, c, _) \<Rightarrow> if j = i then c else 0)"

lemma window_id: "now < 2 ^ 64 \<Longrightarrow> fst (window_bounds now w) = now div max w 1"
proof -
  assume "now < 2 ^ 64"
  then have "now div max w 1 < 2 ^ 64" by (meson div_le_dividend le_less_trans)
  then show ?thesis by (simp add: window_bounds_def Let_def)
qed

lemma mem_hit_eq:
  assumes "now < 2 ^ 64"
  shows "mem_hit k w l now m =
    (let i = now div max w 1;
         c = min (mem_tally m k i + 1) u32_max;
         ms = (case m k of Some (j, _, ms) \<Rightarrow> if j = i then ms else max w 1 | None \<Rightarrow> max w 1)
     in (\<lparr>o_allowed = (c \<le> l), o_remaining = l - c, o_retry_after = snd (window_bounds now w)\<rparr>, m(k \<mapsto> (i, c, ms))))"
  using window_id [OF assms, of w]
  by (cases "window_bounds now w"; cases "m k") (auto simp: mem_hit_def mem_tally_def Let_def)

lemma mem_prune_tally:
  assumes "mem_inv w t m" "now div max w 1 \<le> i"
  shows "mem_tally (mem_prune now m) k i = mem_tally m k i"
proof (cases "m k")
  case (Some en)
  obtain j c ms where en: "en = (j, c, ms)" by (cases en)
  have "now < (i + 1) * max w 1"
    using assms(2) by (metis Suc_eq_plus1 dividend_less_times_div div_le_mono le_imp_less_Suc less_eq_Suc_le
        max.cobounded2 mult.commute not_less zero_less_one div_less_iff_less_mult less_le_trans)
  then show ?thesis using assms(1) Some en by (auto simp: mem_tally_def mem_prune_def mem_inv_def)
qed (simp add: mem_tally_def mem_prune_def)

interpretation mem: window_store "max w 1" limit mem_new "\<lambda>k now. mem_hit k w limit now" mem_prune "mem_inv w" mem_tally
  for w limit
proof
  show "mem_inv w 0 mem_new" by (simp add: mem_inv_def mem_new_def)
  show "mem_tally mem_new k i = 0" for k i by (simp add: mem_tally_def mem_new_def)
  fix t s now k
  assume inv: "mem_inv w t s" and le: "t \<le> now"
  have mono: "t div max w 1 \<le> now div max w 1" using le by (rule div_le_mono)
  show "mem_inv w now (mem_prune now s)"
    using inv mono by (fastforce simp: mem_inv_def mem_prune_def split: option.splits if_splits)
  show "mem_tally (mem_prune now s) k' i = mem_tally s k' i" if "now div max w 1 \<le> i" for i k'
    using mem_prune_tally [OF inv that] .
  assume now: "now < 2 ^ 64"
  show "o_allowed (fst (mem_hit k w limit now s)) \<longleftrightarrow> min (mem_tally s k (now div max w 1) + 1) u32_max \<le> limit"
    by (simp add: mem_hit_eq [OF now] Let_def)
  show "mem_inv w now (snd (mem_hit k w limit now s))"
    using inv mono by (fastforce simp: mem_hit_eq [OF now] Let_def mem_inv_def split: option.splits)
  show "mem_tally (snd (mem_hit k w limit now s)) k' i =
      (if k' = k \<and> i = now div max w 1 then min (mem_tally s k i + 1) u32_max else mem_tally s k' i)"
    if i: "now div max w 1 \<le> i" for k' i
  proof (cases "k' = k")
    case True
    have "mem_tally s k i = 0" if "i \<noteq> now div max w 1"
      using inv mono i that by (fastforce simp: mem_inv_def mem_tally_def split: option.splits)
    then show ?thesis using True by (auto simp: mem_hit_eq [OF now] Let_def mem_tally_def)
  qed (simp add: mem_hit_eq [OF now] Let_def mem_tally_def)
qed

lemma from_str_nat:
  assumes "http_laws lib"
  shows "hv_from_str lib (show_nat n) = Some (show_nat n)"
proof -
  have "list_all (byte_in 32 126) (show_nat n)"
    using show_nat_ascii [of n] by (rule list.pred_mono_strong) (simp add: byte_in_def)
  then show ?thesis using http_laws_ascii [OF assms] http_lawsD(5)[OF assms] by blast
qed

section \<open>Properties\<close>

text \<open>C7: the in-memory store is a fixed-window limiter. Over any history of hits and prunes in time
  order (instants below 2 to the 64 milliseconds, limit below the saturation point), the number of
  requests of a key that are allowed in a window is the number of its requests in that window,
  capped at the limit; evicting idle windows never gives a key a fresh budget.\<close>

theorem in_memory_fixed_window:
  assumes "sorted (map ev_time evs)" and "\<forall>e \<in> set evs. ev_time e < 2 ^ 64" and "limit < u32_max"
  shows "allowed_in (max w 1) k i (fst (drive (\<lambda>k now. mem_hit k w limit now) mem_prune evs mem_new)) =
    min limit (hits_in (max w 1) k i (fst (drive (\<lambda>k now. mem_hit k w limit now) mem_prune evs mem_new)))"
  by (rule mem.fixed_window [OF assms])

theorem in_memory_fixed_window_witness:
  "allowed_in 60 ''ip'' 1 (fst (drive (\<lambda>k now. mem_hit k 60 2 now) mem_prune
     [Hit ''ip'' 50, Hit ''ip'' 60, Prune 61, Hit ''ip'' 62, Hit ''ip'' 70] mem_new)) = 2"
proof -
  let ?evs = "[Hit ''ip'' 50, Hit ''ip'' 60, Prune 61, Hit ''ip'' 62, Hit ''ip'' 70]"
  have "hits_in 60 ''ip'' 1 (fst (drive (\<lambda>k now. mem_hit k 60 2 now) mem_prune ?evs mem_new)) = 3"
    by (simp add: hits_in_def split: prod.splits)
  moreover have "max 60 1 = (60 :: nat)" by simp
  ultimately show ?thesis
    using in_memory_fixed_window [of ?evs 2 60 "''ip''" 1] by (simp add: u32_max_def)
qed

text \<open>The limiter refuses with a usable hint and otherwise stays out of the way. A request over
  the limit is answered 429 without running the rest of the chain, with a \<open>Retry-After\<close> of at least
  one second and, for windows of a second or more, at most the window; preflight-style \<open>OPTIONS\<close>
  requests and requests without an identity reach the rest of the chain and leave the store alone.\<close>

lemma rate_limit_refusal:
  assumes "http_laws lib" and "depth ctx = 0"
    and "rl_handle lib hash clock_ms mem_hit_result cfg next ctx st = (res, st')"
  shows "if p_method (rq_parts (request ctx)) = ''OPTIONS'' then res = next ctx \<and> st' = st
    else case partition_key lib hash cfg (request ctx) of
      None \<Rightarrow> res = next ctx \<and> st' = st
    | Some key \<Rightarrow>
        (case resolve 33 ctx ''Clock'' of
           None \<Rightarrow> False
         | Some (Err _, ctx') \<Rightarrow> res = next ctx' \<and> st' = st
         | Some (Ok clock, ctx') \<Rightarrow>
             (\<exists>out. mem_hit key (rl_window cfg) (rl_limit cfg) (clock_ms clock) st = (out, st') \<and>
                (if o_allowed out then res = next ctx'
                 else \<exists>resp n. res = Done 0 (resp, ctx') \<and> r_status resp = 429 \<and>
                   hm_get_all lib ''retry-after'' (r_headers resp) = [show_nat n] \<and>
                   1 \<le> n \<and> n \<le> max 1 (rl_window cfg div 1000))))"
proof (cases "p_method (rq_parts (request ctx)) = ''OPTIONS''")
  case True
  then show ?thesis using assms(3) by (simp add: rl_handle_def)
next
  case no: False
  show ?thesis
  proof (cases "partition_key lib hash cfg (request ctx)")
    case None
    then show ?thesis using no assms(3) by (simp add: rl_handle_def)
  next
    case (Some key)
    obtain r ctx' where r: "resolve 33 ctx ''Clock'' = Some (r, ctx')"
      using fresh_total(1)[OF assms(2)] by blast
    show ?thesis
    proof (cases r)
      case (Inl e)
      then show ?thesis using no Some r assms(3) by (simp add: rl_handle_def)
    next
      case (Inr v)
      obtain out m' where h: "mem_hit key (rl_window cfg) (rl_limit cfg) (clock_ms v) st = (out, m')" by fastforce
      define n where "n = max (o_retry_after out div 1000) 1"
      let ?e = "error_into_response lib too_many_requests"
      let ?resp = "?e\<lparr>r_headers := insert_str lib ''retry-after'' (show_nat n) (r_headers ?e)\<rparr>"
      have st: "st' = m'" and res: "res = (if o_allowed out then next ctx' else Done 0 (?resp, ctx'))"
        using no Some r Inr h assms(3)
        by (simp_all add: rl_handle_def mem_hit_result_def Let_def n_def split: if_splits)
      have "o_retry_after out \<le> max (rl_window cfg) 1"
        using h by (auto simp: mem_hit_def window_bounds_def Let_def split: prod.splits)
      then have "o_retry_after out div 1000 \<le> max (rl_window cfg) 1 div 1000" by (rule div_le_mono)
      then have n: "1 \<le> n" "n \<le> max 1 (rl_window cfg div 1000)" by (auto simp: n_def max_def split: if_splits)
      have "r_status ?resp = 429" by (simp add: too_many_requests_def error_new_def)
      moreover have "hm_get_all lib ''retry-after'' (r_headers ?resp) = [show_nat n]"
        by (simp add: get_all_insert_str [OF assms(1)] from_str_nat [OF assms(1)])
      ultimately have "\<exists>resp n. Done 0 (?resp, ctx') = Done 0 (resp, ctx') \<and> r_status resp = 429 \<and>
          hm_get_all lib ''retry-after'' (r_headers resp) = [show_nat n] \<and>
          1 \<le> n \<and> n \<le> max 1 (rl_window cfg div 1000)"
        using n by blast
      then show ?thesis using no Some r Inr h res st by simp
    qed
  qed
qed

end
