(* ===== verification/JC_Multipart.thy ===== *)
theory JC_Multipart
  imports JC_Extract
begin

text \<open>
  \<open>multipart/form-data\<close>, \<open>jerrycan-core/src/multipart.rs\<close>: the incremental parser, the header and
  boundary grammars, the streaming extractor with its parts, and the fuzzing driver.

  The parser is a state machine over a byte buffer; \<open>next_event\<close> loops until it can return. The
  buffered lane feeds the whole body and finishes; the stream lane is fed frame by frame.
\<close>

section \<open>The parser\<close>

definition MAX_PART_HEADER_BYTES :: nat where "MAX_PART_HEADER_BYTES = 8 * 1024"
definition MAX_PARTS :: nat where "MAX_PARTS = 256"

record part_meta =
  pm_name :: str
  pm_filename :: "str option"
  pm_content_type :: "str option"

datatype event = PartHeaders part_meta | Data bytes | EndOfPart | DoneEvent

datatype parse_error = MalformedBody str | HeadersTooLarge | TooManyParts

text \<open>A slice out of range panics: the second way in which a call of the parser may not answer.\<close>

datatype 'e failure = Fails 'e | Panics

datatype parser_state = Preamble | AfterBoundary | Headers | DataState | DoneState

record parser =
  mp_delimiter :: bytes
  mp_buf :: bytes
  mp_state :: parser_state
  mp_parts :: nat
  mp_eof :: bool
  mp_header_scan_from :: nat

definition CRLF :: bytes where "CRLF = [CHR 0x0D, CHR 0x0A]"

definition parser_new :: "str \<Rightarrow> parser" where
  "parser_new boundary =
     \<lparr>mp_delimiter = CRLF @ ''--'' @ boundary, mp_buf = [], mp_state = Preamble, mp_parts = 0,
      mp_eof = False, mp_header_scan_from = 0\<rparr>"

definition feed :: "bytes \<Rightarrow> parser \<Rightarrow> parser" where
  "feed chunk p = p\<lparr>mp_buf := mp_buf p @ chunk\<rparr>"

definition finish :: "parser \<Rightarrow> parser" where
  "finish p = p\<lparr>mp_eof := True\<rparr>"

text \<open>\<open>find\<close>: the first offset at which the needle occurs.\<close>

fun position :: "bytes \<Rightarrow> bytes \<Rightarrow> nat option" where
  "position [] needle = None"
| "position (x # xs) needle =
     (if take (length needle) (x # xs) = needle then Some 0 else map_option Suc (position xs needle))"

definition find :: "bytes \<Rightarrow> bytes \<Rightarrow> nat option" where
  "find haystack needle =
     (if needle = [] \<or> length haystack < length needle then None else position haystack needle)"

text \<open>\<open>str::split\<close> by the two bytes CR LF.\<close>

fun split_crlf :: "str \<Rightarrow> str list" where
  "split_crlf [] = [[]]"
| "split_crlf [x] = [[x]]"
| "split_crlf (x # y # r) =
     (if [x, y] = CRLF then [] # split_crlf r
      else (case split_crlf (y # r) of [] \<Rightarrow> [[x]] | s # ss \<Rightarrow> (x # s) # ss))"

fun unescape :: "str \<Rightarrow> str" where
  "unescape [] = []"
| "unescape (c # cs) =
     (if c = CHR 0x5C then (case cs of [] \<Rightarrow> [] | n # r \<Rightarrow> n # unescape r) else c # unescape cs)"

definition strip_quotes :: "str \<Rightarrow> str option" where
  "strip_quotes v = (case strip_prefix (CHR 0x22) v of None \<Rightarrow> None | Some s \<Rightarrow> strip_suffix (CHR 0x22) s)"

definition unquote :: "str \<Rightarrow> str" where
  "unquote v = (case strip_quotes v of Some q \<Rightarrow> unescape q | None \<Rightarrow> v)"

text \<open>The parameters of a \<open>Content-Disposition\<close> value; a later one wins.\<close>

fun disposition_params :: "str list \<Rightarrow> str option \<times> str option \<Rightarrow> str option \<times> str option" where
  "disposition_params [] nf = nf"
| "disposition_params (prm # ps) nf =
     (case split_once CHR ''='' prm of
        None \<Rightarrow> disposition_params ps nf
      | Some (k, v) \<Rightarrow>
          if trim k = ''name'' then disposition_params ps (Some (unquote (trim v)), snd nf)
          else if trim k = ''filename'' then disposition_params ps (fst nf, Some (unquote (trim v)))
          else disposition_params ps nf)"

fun header_lines ::
  "str list \<Rightarrow> str option \<times> str option \<times> str option \<Rightarrow> (parse_error, str option \<times> str option \<times> str option) result" where
  "header_lines [] (n, f, c) = Ok (n, f, c)"
| "header_lines (line # ls) (n, f, c) =
     (case split_once CHR '':'' line of
        None \<Rightarrow> Err (MalformedBody ''malformed part header line'')
      | Some (k, v) \<Rightarrow>
          (let key = to_ascii_lowercase (trim k); val = trim v in
           if key = ''content-disposition'' then
             (case disposition_params (tl (split_on CHR '';'' val)) (n, f) of (n', f') \<Rightarrow> header_lines ls (n', f', c))
           else if key = ''content-type'' then header_lines ls (n, f, Some val)
           else header_lines ls (n, f, c)))"

definition parse_part_headers :: "bytes \<Rightarrow> (parse_error, part_meta) result" where
  "parse_part_headers block =
     (case from_utf8 block of
        None \<Rightarrow> Err (MalformedBody ''part headers are not valid UTF-8'')
      | Some text_ \<Rightarrow>
          bind_result (header_lines (filter (\<lambda>l. l \<noteq> []) (split_crlf text_)) (None, None, None)) (\<lambda>(n, f, c).
            case n of None \<Rightarrow> Err (MalformedBody ''part is missing a form-data name'')
            | Some name \<Rightarrow> Ok \<lparr>pm_name = name, pm_filename = f, pm_content_type = c\<rparr>))"

fun state_rank :: "parser_state \<Rightarrow> nat" where
  "state_rank Preamble = 2"
| "state_rank AfterBoundary = 1"
| "state_rank _ = 0"

definition padding :: "bytes \<Rightarrow> nat" where
  "padding b = length (takeWhile (\<lambda>c. c = CHR '' '' \<or> c = CHR 0x09) b)"

text \<open>\<open>split_to(n)\<close> drops the first \<open>n\<close> bytes of the buffer.\<close>

abbreviation split_to :: "nat \<Rightarrow> parser \<Rightarrow> parser" where
  "split_to n p \<equiv> p\<lparr>mp_buf := drop n (mp_buf p)\<rparr>"

function next_event :: "parser \<Rightarrow> (parse_error failure, event option) result \<times> parser" where
  "next_event p =
     (case mp_state p of
        DoneState \<Rightarrow> (Ok (Some DoneEvent), p)
      | Preamble \<Rightarrow>
          (let bare = drop 2 (mp_delimiter p) in
           if length bare \<le> length (mp_buf p) \<and> take (length bare) (mp_buf p) = bare then
             next_event ((split_to (length bare) p)\<lparr>mp_state := AfterBoundary\<rparr>)
           else (case find (mp_buf p) (mp_delimiter p) of
               Some i \<Rightarrow> next_event ((split_to (i + length (mp_delimiter p)) p)\<lparr>mp_state := AfterBoundary\<rparr>)
             | None \<Rightarrow>
                 if mp_eof p then (Err (Fails (MalformedBody ''no multipart boundary found'')), p)
                 else
                   (let keep = min (length (mp_delimiter p) - 1) (length (mp_buf p))
                    in (Ok None, split_to (length (mp_buf p) - keep) p))))
      | AfterBoundary \<Rightarrow>
          (let i = padding (mp_buf p) in
           if i > MAX_PART_HEADER_BYTES then
             (Err (Fails (MalformedBody ''excessive padding after multipart boundary'')), p)
           else if length (mp_buf p) < i + 2 then
             (if mp_eof p then (Err (Fails (MalformedBody ''truncated multipart boundary line'')), p) else (Ok None, p))
           else if take 2 (drop i (mp_buf p)) = ''--'' then
             next_event ((split_to (i + 2) p)\<lparr>mp_state := DoneState\<rparr>)
           else if take 2 (drop i (mp_buf p)) = CRLF then
             (let p1 = (split_to (i + 2) p)\<lparr>mp_parts := mp_parts p + 1\<rparr> in
              if mp_parts p1 > MAX_PARTS then (Err (Fails TooManyParts), p1)
              else next_event (p1\<lparr>mp_header_scan_from := 0, mp_state := Headers\<rparr>))
           else (Err (Fails (MalformedBody ''invalid bytes after multipart boundary'')), p))
      | Headers \<Rightarrow>
          (let start = mp_header_scan_from p - 3 in
           if start > length (mp_buf p) then (Err Panics, p)
           else case map_option (\<lambda>i. i + start) (find (drop start (mp_buf p)) (CRLF @ CRLF)) of
             Some i \<Rightarrow>
               (let block = take (i + 4) (mp_buf p); p1 = split_to (i + 4) p in
                case parse_part_headers (take i block) of
                  Err e \<Rightarrow> (Err (Fails e), p1)
                | Ok meta \<Rightarrow> (Ok (Some (PartHeaders meta)), p1\<lparr>mp_header_scan_from := 0, mp_state := DataState\<rparr>))
           | None \<Rightarrow>
               if length (mp_buf p) > MAX_PART_HEADER_BYTES then (Err (Fails HeadersTooLarge), p)
               else if mp_eof p then (Err (Fails (MalformedBody ''truncated multipart part headers'')), p)
               else (Ok None, p\<lparr>mp_header_scan_from := length (mp_buf p)\<rparr>))
      | DataState \<Rightarrow>
          (case find (mp_buf p) (mp_delimiter p) of
             Some i \<Rightarrow>
               if i = 0 then
                 (Ok (Some EndOfPart), (split_to (length (mp_delimiter p)) p)\<lparr>mp_state := AfterBoundary\<rparr>)
               else (Ok (Some (Data (take i (mp_buf p)))), split_to i p)
           | None \<Rightarrow>
               (let keep = min (length (mp_delimiter p) - 1) (length (mp_buf p));
                    emit = length (mp_buf p) - keep in
                if emit > 0 then (Ok (Some (Data (take emit (mp_buf p)))), split_to emit p)
                else if mp_eof p then (Err (Fails (MalformedBody ''truncated multipart body'')), p)
                else (Ok None, p))))"
  by pat_completeness auto
termination
  by (relation "measure (\<lambda>p. state_rank (mp_state p))") auto

declare next_event.simps [simp del]

section \<open>The fuzzing driver\<close>

text \<open>\<open>slice::chunks(n)\<close> for a positive \<open>n\<close>.\<close>

function chunks :: "nat \<Rightarrow> bytes \<Rightarrow> bytes list" where
  "chunks n xs = (if xs = [] \<or> n = 0 then [] else take n xs # chunks n (drop n xs))"
  by pat_completeness auto
termination
  by (relation "measure (\<lambda>(n, xs). length xs)") auto

declare chunks.simps [simp del]

text \<open>The driver's loop: \<open>False\<close> is a panic, of the parser or of the assertion on the budget.\<close>

function fuzz_loop :: "nat \<Rightarrow> parser \<Rightarrow> bytes list \<Rightarrow> bool" where
  "fuzz_loop budget p feeds =
     (case next_event p of
        (Err (Fails _), _) \<Rightarrow> True
      | (Err Panics, _) \<Rightarrow> False
      | (Ok (Some DoneEvent), _) \<Rightarrow> True
      | (Ok ev, p1) \<Rightarrow>
          (let (p2, feeds') =
             (case ev of Some _ \<Rightarrow> (p1, feeds)
              | None \<Rightarrow> (case feeds of c # cs \<Rightarrow> (feed c p1, cs) | [] \<Rightarrow> (finish p1, [])))
           in if budget \<le> 1 then False else fuzz_loop (budget - 1) p2 feeds'))"
  by pat_completeness auto
termination
  by (relation "measure (\<lambda>(budget, p, feeds). budget)") (auto split: if_splits)

declare fuzz_loop.simps [simp del]

definition fuzz_drive :: "str \<Rightarrow> bytes \<Rightarrow> nat \<Rightarrow> bool" where
  "fuzz_drive boundary input chunk =
     fuzz_loop (length input * 4 + 64) (parser_new boundary) (chunks (max chunk 1) input)"

section \<open>Steps of the parser\<close>

lemma position_bounds:
  "position xs n = Some i \<Longrightarrow> i < length xs \<and> take (length n) (drop i xs) = n"
proof (induction xs arbitrary: i)
  case (Cons x xs)
  show ?case
  proof (cases "take (length n) (x # xs) = n")
    case True
    with Cons.prems show ?thesis by (auto simp del: take_Cons')
  next
    case False
    with Cons show ?thesis by auto
  qed
qed simp

lemma find_bounds:
  assumes "find h n = Some i"
  shows "i + length n \<le> length h" "take (length n) (drop i h) = n" "n \<noteq> []"
proof -
  have p: "position h n = Some i" and n: "n \<noteq> []"
    using assms by (auto simp: find_def split: if_splits)
  from position_bounds [OF p] show t: "take (length n) (drop i h) = n" by simp
  have "length n \<le> length h - i" using arg_cong [OF t, of length] by simp
  with position_bounds [OF p] show "i + length n \<le> length h" by linarith
  show "n \<noteq> []" by (rule n)
qed

lemma find_lengths:
  assumes "find h n = Some i"
  shows "i + length n \<le> length h \<and> 0 < length n \<and> 0 < length h"
  using find_bounds [OF assms] by (cases n) auto

text \<open>
  One call: the delimiter and the end-of-input mark stay, the buffer never grows, more input is asked
  for only before the end of input, and every event but the last consumes at least one byte.
\<close>

definition step_ok :: "parser \<Rightarrow> (parse_error failure, event option) result \<Rightarrow> parser \<Rightarrow> bool" where
  "step_ok p r q \<longleftrightarrow>
     mp_delimiter q = mp_delimiter p \<and> mp_eof q = mp_eof p \<and> length (mp_buf q) \<le> length (mp_buf p) \<and>
     (r = Ok None \<longrightarrow> \<not> mp_eof p) \<and>
     (\<forall>ev. r = Ok (Some ev) \<longrightarrow> ev \<noteq> DoneEvent \<longrightarrow> length (mp_buf q) < length (mp_buf p))"

lemma step_ok_shrink:
  assumes "step_ok p1 r q" "mp_delimiter p1 = mp_delimiter p" "mp_eof p1 = mp_eof p"
    "length (mp_buf p1) \<le> length (mp_buf p)"
  shows "step_ok p r q"
  using assms unfolding step_ok_def by fastforce

lemma next_event_step:
  assumes "next_event p = (r, q)"
  shows "step_ok p r q"
  using assms
proof (induction p rule: next_event.induct)
  case (1 p)
  note eq = 1(5) [unfolded next_event.simps [of p]]
  show ?case
  proof (cases "mp_state p")
    case Preamble
    let ?bare = "drop 2 (mp_delimiter p)"
    show ?thesis
    proof (cases "length ?bare \<le> length (mp_buf p) \<and> take (length ?bare) (mp_buf p) = ?bare")
      case True
      with 1(1) [OF Preamble refl True] eq Preamble show ?thesis
        by (auto elim!: step_ok_shrink)
    next
      case F: False
      show ?thesis
      proof (cases "find (mp_buf p) (mp_delimiter p)")
        case None
        with F eq Preamble show ?thesis by (auto simp: step_ok_def Let_def split: if_splits)
      next
        case (Some i)
        with 1(2) [OF Preamble refl F Some] F eq Preamble show ?thesis
          by (auto elim!: step_ok_shrink)
      qed
    qed
  next
    case AfterBoundary
    let ?i = "padding (mp_buf p)"
    show ?thesis
    proof (cases "?i > MAX_PART_HEADER_BYTES \<or> length (mp_buf p) < ?i + 2")
      case True
      with eq AfterBoundary show ?thesis by (auto simp: step_ok_def Let_def split: if_splits)
    next
      case F: False
      show ?thesis
      proof (cases "take 2 (drop ?i (mp_buf p)) = ''--''")
        case True
        with 1(3) [OF AfterBoundary refl _ _ True] F eq AfterBoundary show ?thesis
          by (auto elim!: step_ok_shrink)
      next
        case G: False
        show ?thesis
        proof (cases "take 2 (drop ?i (mp_buf p)) = CRLF \<and> mp_parts p + 1 \<le> MAX_PARTS")
          case True
          with 1(4) [OF AfterBoundary refl _ _ G _ refl] F G eq AfterBoundary show ?thesis
            by (auto simp: Let_def elim!: step_ok_shrink)
        next
          case False
          with F G eq AfterBoundary show ?thesis
            by (auto simp: step_ok_def Let_def split: if_splits)
        qed
      qed
    qed
  next
    case Headers
    with eq show ?thesis
      by (auto simp: step_ok_def Let_def CRLF_def split: if_splits option.splits sum.splits dest!: find_bounds(1))
  next
    case DataState
    with eq show ?thesis
      by (auto simp: step_ok_def Let_def split: if_splits option.splits dest!: find_lengths)
  next
    case DoneState
    with eq show ?thesis by (auto simp: step_ok_def)
  qed
qed

section \<open>The fuzzing driver stays within its budget\<close>

lemma length_chunks: "length (chunks n xs) \<le> length xs"
proof (induction n xs rule: chunks.induct)
  case (1 n xs)
  then show ?case by (subst chunks.simps) (cases xs; auto)
qed

lemma concat_chunks: "0 < n \<Longrightarrow> concat (chunks n xs) = xs"
proof (induction n xs rule: chunks.induct)
  case (1 n xs)
  then show ?case by (subst chunks.simps) auto
qed

text \<open>The potential that every turn of the loop lowers.\<close>

definition potential :: "parser \<Rightarrow> bytes list \<Rightarrow> nat" where
  "potential p feeds =
     length (mp_buf p) + length (concat feeds) + length feeds + (if mp_eof p then 0 else 1)"

text \<open>
  The resume point of the header scan never lies past what was scanned: nothing before it (less the
  three bytes the scan backs up) starts a terminator, and it lies inside the buffer.
\<close>

definition scan_ok :: "parser \<Rightarrow> bool" where
  "scan_ok p \<longleftrightarrow>
     (mp_state p = Headers \<longrightarrow>
        mp_header_scan_from p \<le> length (mp_buf p) \<and>
        (\<forall>i. i + 4 \<le> mp_header_scan_from p \<longrightarrow> take 4 (drop i (mp_buf p)) \<noteq> CRLF @ CRLF))"

lemma take_full:
  assumes "take (length n) (drop j h) = n" "n \<noteq> []"
  shows "j + length n \<le> length h" "j < length h"
proof -
  have "length n \<le> length h - j" using arg_cong [OF assms(1), of length] by simp
  with assms(2) show "j + length n \<le> length h" "j < length h" by (cases n; auto)+
qed

lemma position_iff:
  "position h n = Some i \<longleftrightarrow>
     i < length h \<and> take (length n) (drop i h) = n \<and> (\<forall>j < i. take (length n) (drop j h) \<noteq> n)"
proof (induction h arbitrary: i)
  case (Cons x xs)
  show ?case
  proof (cases "take (length n) (x # xs) = n")
    case True
    then show ?thesis by (cases i) (auto simp del: take_Cons')
  next
    case False
    with Cons show ?thesis by (cases i) (auto simp: All_less_Suc2)
  qed
qed simp

lemma find_iff:
  assumes "n \<noteq> []"
  shows "find h n = Some i \<longleftrightarrow>
    i + length n \<le> length h \<and> take (length n) (drop i h) = n \<and> (\<forall>j < i. take (length n) (drop j h) \<noteq> n)"
  using assms take_full(1) [of n i h] take_full(2) [of n i h]
  by (auto simp: find_def position_iff)

lemma find_None_iff:
  assumes "n \<noteq> []"
  shows "find h n = None \<longleftrightarrow> (\<forall>j. take (length n) (drop j h) \<noteq> n)"
proof
  assume none: "find h n = None"
  show "\<forall>j. take (length n) (drop j h) \<noteq> n"
  proof (rule ccontr)
    assume "\<not> ?thesis"
    then obtain j where j: "take (length n) (drop j h) = n" by auto
    define i where "i = (LEAST j. take (length n) (drop j h) = n)"
    have "take (length n) (drop i h) = n" unfolding i_def by (rule LeastI [of "\<lambda>j. take (length n) (drop j h) = n", OF j])
    moreover have "\<forall>k < i. take (length n) (drop k h) \<noteq> n" unfolding i_def by (auto dest: not_less_Least)
    ultimately have "find h n = Some i" using find_iff [OF assms] take_full(1) assms by auto
    with none show False by simp
  qed
next
  assume "\<forall>j. take (length n) (drop j h) \<noteq> n"
  then show "find h n = None" by (cases "find h n") (auto dest: find_bounds(2))
qed

text \<open>Skipping a prefix in which no occurrence starts finds the same occurrence.\<close>

lemma find_skip:
  assumes n: "n \<noteq> []" and no: "\<forall>j < s. take (length n) (drop j h) \<noteq> n"
  shows "map_option (\<lambda>i. i + s) (find (drop s h) n) = find h n"
proof (cases "find (drop s h) n")
  case None
  have "\<forall>j. take (length n) (drop j h) \<noteq> n"
  proof
    fix j
    show "take (length n) (drop j h) \<noteq> n"
    proof (cases "j < s")
      case False
      then have "drop j h = drop (j - s) (drop s h)" by simp
      with None show ?thesis by (simp add: find_None_iff [OF n])
    qed (use no in simp)
  qed
  then have "find h n = None" by (simp only: find_None_iff [OF n] not_False_eq_True simp_thms)
  with None show ?thesis by simp
next
  case (Some i)
  then have i: "take (length n) (drop (i + s) h) = n" "\<forall>j < i. take (length n) (drop (j + s) h) \<noteq> n"
    by (auto simp: find_iff [OF n])
  have "take (length n) (drop j h) \<noteq> n" if "j < i + s" for j
  proof (cases "j < s")
    case False
    with i(2) [rule_format, of "j - s"] that show ?thesis by auto
  qed (use no in simp)
  with i(1) take_full(1) [OF i(1) n] have "find h n = Some (i + s)" by (simp add: find_iff [OF n])
  with Some show ?thesis by simp
qed

lemma blank_line [simp]: "length (CRLF @ CRLF) = 4" "CRLF @ CRLF \<noteq> []"
  by (simp_all add: CRLF_def)

lemma scan_resumes:
  assumes "scan_ok p" "mp_state p = Headers"
  shows "\<not> mp_header_scan_from p - 3 > length (mp_buf p)"
    and "map_option (\<lambda>i. i + (mp_header_scan_from p - 3))
           (find (drop (mp_header_scan_from p - 3) (mp_buf p)) (CRLF @ CRLF)) = find (mp_buf p) (CRLF @ CRLF)"
proof -
  show "\<not> mp_header_scan_from p - 3 > length (mp_buf p)" using assms by (auto simp: scan_ok_def)
  have "\<forall>j < mp_header_scan_from p - 3. take (length (CRLF @ CRLF)) (drop j (mp_buf p)) \<noteq> CRLF @ CRLF"
    using assms unfolding blank_line scan_ok_def by auto
  then show "map_option (\<lambda>i. i + (mp_header_scan_from p - 3))
      (find (drop (mp_header_scan_from p - 3) (mp_buf p)) (CRLF @ CRLF)) = find (mp_buf p) (CRLF @ CRLF)"
    by (intro find_skip blank_line)
qed

text \<open>The invariant holds of a new parser and is kept by every operation that does not fail.\<close>

lemma scan_ok_new [simp]: "scan_ok (parser_new boundary)"
  by (simp add: scan_ok_def parser_new_def)

lemma scan_ok_feed [simp]:
  assumes "scan_ok p"
  shows "scan_ok (feed chunk p)"
  using assms unfolding scan_ok_def feed_def by auto

lemma scan_ok_finish [simp]: "scan_ok (finish p) = scan_ok p"
  by (simp add: scan_ok_def finish_def)

lemma scan_ok_other: "mp_state p \<noteq> Headers \<Longrightarrow> scan_ok p"
  by (simp add: scan_ok_def)

lemma scan_ok_start: "mp_header_scan_from p = 0 \<Longrightarrow> scan_ok p"
  by (simp add: scan_ok_def)

lemma next_event_scan:
  assumes "next_event p = (r, q)" "scan_ok p"
  shows "r \<noteq> Err Panics \<and> (\<forall>ev. r = Ok ev \<longrightarrow> scan_ok q)"
  using assms
proof (induction p rule: next_event.induct)
  case (1 p)
  note eq = 1(5) [unfolded next_event.simps [of p]]
  show ?case
  proof (cases "mp_state p")
    case Preamble
    show ?thesis
    proof (cases "find (mp_buf p) (mp_delimiter p)")
      case None
      with 1(1) [OF Preamble refl] eq Preamble show ?thesis
        by (auto simp: Let_def scan_ok_other split: if_splits)
    next
      case (Some i)
      with 1(1) [OF Preamble refl] 1(2) [OF Preamble refl _ Some] eq Preamble show ?thesis
        by (auto simp: Let_def scan_ok_other split: if_splits)
    qed
  next
    case AfterBoundary
    with 1(3) [OF AfterBoundary refl] 1(4) [OF AfterBoundary refl _ _ _ _ refl] eq show ?thesis
      by (auto simp: Let_def scan_ok_other scan_ok_start split: if_splits)
  next
    case Headers
    note res = scan_resumes [OF 1(6) Headers]
    show ?thesis
    proof (cases "find (mp_buf p) (CRLF @ CRLF)")
      case None
      with find_None_iff [OF blank_line(2), THEN iffD1, OF None, unfolded blank_line(1)] Headers eq res show ?thesis
        by (auto simp: Let_def scan_ok_def split: if_splits)
    next
      case (Some i)
      with Headers eq res show ?thesis by (auto simp: Let_def scan_ok_other split: sum.splits)
    qed
  next
    case DataState
    with eq show ?thesis by (auto simp: Let_def scan_ok_other split: if_splits option.splits)
  next
    case DoneState
    with eq show ?thesis by (auto simp: scan_ok_other)
  qed
qed

lemma fuzz_loop_in_budget:
  assumes "scan_ok p" "potential p feeds < budget"
  shows "fuzz_loop budget p feeds"
  using assms
proof (induction budget arbitrary: p feeds)
  case (Suc budget)
  obtain r p1 where ne: "next_event p = (r, p1)" by (cases "next_event p")
  note step = next_event_step [OF ne, unfolded step_ok_def] and scan = next_event_scan [OF ne Suc.prems(1)]
  show ?case
  proof (cases r)
    case (Inl e)
    with scan ne show ?thesis by (cases e) (auto simp: fuzz_loop.simps [of "Suc budget"])
  next
    case (Inr ev)
    define p2f where "p2f = (case ev of Some _ \<Rightarrow> (p1, feeds)
      | None \<Rightarrow> (case feeds of c # cs \<Rightarrow> (feed c p1, cs) | [] \<Rightarrow> (finish p1, [])))"
    obtain p2 feeds' where pf: "p2f = (p2, feeds')" by (cases p2f)
    show ?thesis
    proof (cases "ev = Some DoneEvent")
      case True
      with ne Inr show ?thesis by (simp add: fuzz_loop.simps [of "Suc budget"])
    next
      case False
      have scan2: "scan_ok p2"
        using pf Inr scan by (auto simp: p2f_def split: option.splits list.splits)
      have less: "potential p2 feeds' < potential p feeds"
        using pf False Inr step
        by (auto simp: p2f_def potential_def feed_def finish_def split: option.splits list.splits if_splits)
      have b: "\<not> Suc budget \<le> 1" and "potential p2 feeds' < budget"
        using less Suc.prems(2) by linarith+
      have ih: "fuzz_loop budget p2 feeds'" by (rule Suc.IH) fact+
      show ?thesis
        using ne Inr False pf b ih
        by (subst fuzz_loop.simps) (auto simp: p2f_def split: option.splits event.splits)
    qed
  qed
qed simp

section \<open>The extractor\<close>

definition DEFAULT_PART_CAP :: nat where "DEFAULT_PART_CAP = 8 * 1024 * 1024"

text \<open>The first \<open>boundary\<close> parameter decides; a malformed one is refused.\<close>

definition boundary_char :: "char \<Rightarrow> bool" where
  "boundary_char c \<longleftrightarrow>
     byte_in 48 57 c \<or> byte_in 65 90 c \<or> byte_in 97 122 c \<or> c \<in> set ([CHR 0x27] @ ''()+_,-./:=? '')"

fun boundary_param :: "str list \<Rightarrow> str option" where
  "boundary_param [] = None"
| "boundary_param (prm # ps) =
     (case split_once CHR ''='' prm of
        None \<Rightarrow> boundary_param ps
      | Some (k, v) \<Rightarrow>
          if eq_ignore_ascii_case (trim k) ''boundary'' then
            (let v = trim v; boundary = (case strip_quotes v of Some s \<Rightarrow> s | None \<Rightarrow> v) in
             if 1 \<le> length boundary \<and> length boundary \<le> 70 \<and> list_all boundary_char boundary
                \<and> last boundary \<noteq> CHR '' ''
             then Some boundary else None)
          else boundary_param ps)"

definition boundary_from_content_type :: "str \<Rightarrow> str option" where
  "boundary_from_content_type value =
     (case split_on CHR '';'' value of
        [] \<Rightarrow> None
      | media_type # ps \<Rightarrow>
          if eq_ignore_ascii_case (trim media_type) ''multipart/form-data'' then boundary_param ps else None)"

definition map_parse_error :: "parse_error \<Rightarrow> error" where
  "map_parse_error e =
     (case e of
        MalformedBody what \<Rightarrow> bad_request (''malformed multipart body: '' @ what)
      | HeadersTooLarge \<Rightarrow> error_new 413 ''JC0413''
          (''multipart part headers exceed '' @ show_nat MAX_PART_HEADER_BYTES @ '' bytes'')
      | TooManyParts \<Rightarrow> error_new 413 ''JC0413'' (''more than '' @ show_nat MAX_PARTS @ '' multipart parts''))"

record multipart =
  mu_parser :: parser
  mu_source :: "stream_lane option"
  mu_part_cap :: nat
  mu_in_part :: bool
  mu_done :: bool

definition multipart_over :: "parser \<Rightarrow> stream_lane option \<Rightarrow> multipart" where
  "multipart_over p source =
     \<lparr>mu_parser = p, mu_source = source, mu_part_cap = DEFAULT_PART_CAP, mu_in_part = False, mu_done = False\<rparr>"

text \<open>\<open>from_request\<close> behind the task-context check; on a stream the lane is moved out of the request.\<close>

definition extract_multipart :: "'h http_lib \<Rightarrow> 'h request_data \<Rightarrow> (error, multipart) result \<times> 'h request_data" where
  "extract_multipart lib rq =
     (let content_type = (case headers_get lib ''content-type'' (p_headers (rq_parts rq)) of None \<Rightarrow> [] | Some v \<Rightarrow> v) in
      case boundary_from_content_type content_type of
        None \<Rightarrow> (Err unsupported_media_type, rq)
      | Some boundary \<Rightarrow>
          (case rq_body rq of
             Buffered b \<Rightarrow> (Ok (multipart_over (finish (feed b (parser_new boundary))) None), rq)
           | Stream None \<Rightarrow> (Err (internal ''request body was already consumed''), rq)
           | Stream (Some lane) \<Rightarrow>
               (Ok (multipart_over (parser_new boundary) (Some lane)), rq\<lparr>rq_body := Stream None\<rparr>)))"

definition from_buffered :: "str \<Rightarrow> bytes \<Rightarrow> multipart option" where
  "from_buffered content_type body =
     map_option (\<lambda>boundary. multipart_over (finish (feed body (parser_new boundary))) None)
       (boundary_from_content_type content_type)"

definition set_part_cap :: "nat \<Rightarrow> multipart \<Rightarrow> multipart" where
  "set_part_cap n m = m\<lparr>mu_part_cap := n\<rparr>"

text \<open>
  \<open>pull_event\<close>: a frame is fed whenever the parser needs input; the end of the stream finishes the
  parser. A stream that has failed stays failed.
\<close>

function pull_event :: "multipart \<Rightarrow> (error failure, event) result \<times> multipart" where
  "pull_event m =
     (case next_event (mu_parser m) of
        (Err (Fails e), p) \<Rightarrow> (Err (Fails (map_parse_error e)), m\<lparr>mu_parser := p\<rparr>)
      | (Err Panics, p) \<Rightarrow> (Err Panics, m\<lparr>mu_parser := p\<rparr>)
      | (Ok (Some ev), p) \<Rightarrow> (Ok ev, m\<lparr>mu_parser := p\<rparr>)
      | (Ok None, p) \<Rightarrow>
          (case mu_source m of
             None \<Rightarrow> (Err (Fails (internal ''multipart parser stalled after end of input'')), m\<lparr>mu_parser := p\<rparr>)
           | Some (f # fs, e) \<Rightarrow> pull_event (m\<lparr>mu_parser := feed f p, mu_source := Some (fs, e)\<rparr>)
           | Some ([], Some e) \<Rightarrow> (Err (Fails (map_stream_error e)), m\<lparr>mu_parser := p\<rparr>)
           | Some ([], None) \<Rightarrow> pull_event (m\<lparr>mu_parser := finish p, mu_source := None\<rparr>)))"
  by pat_completeness auto
termination
  by (relation "measure (\<lambda>m. case mu_source m of None \<Rightarrow> 0 | Some (fs, _) \<Rightarrow> Suc (length fs))") auto

declare pull_event.simps [simp del]

text \<open>The bytes not yet consumed: every event but the last consumes some.\<close>

definition unread :: "multipart \<Rightarrow> bytes" where
  "unread m = mp_buf (mu_parser m) @ (case mu_source m of None \<Rightarrow> [] | Some (fs, _) \<Rightarrow> concat fs)"

lemma pull_event_consumes:
  assumes "pull_event m = (Ok ev, m')" "ev \<noteq> DoneEvent"
  shows "length (unread m') < length (unread m)"
  using assms
proof (induction m rule: pull_event.induct)
  case (1 m)
  note ih = 1(1,2) and ev = 1(4)
  obtain r p where ne: "next_event (mu_parser m) = (r, p)" by (cases "next_event (mu_parser m)")
  note step = next_event_step [OF ne, unfolded step_ok_def]
  from 1(3) [unfolded pull_event.simps [of m]] ne
  consider "r = Ok (Some ev)" "m' = m\<lparr>mu_parser := p\<rparr>"
    | f fs e where "r = Ok None" "mu_source m = Some (f # fs, e)"
        "pull_event (m\<lparr>mu_parser := feed f p, mu_source := Some (fs, e)\<rparr>) = (Ok ev, m')"
    | "r = Ok None" "mu_source m = Some ([], None)"
        "pull_event (m\<lparr>mu_parser := finish p, mu_source := None\<rparr>) = (Ok ev, m')"
    by (auto split: sum.splits failure.splits option.splits list.splits)
  then show ?case
  proof cases
    case 1
    with step assms(2) show ?thesis by (auto simp: unread_def)
  next
    case 2
    from ih(2) [OF ne [symmetric] 2(1) refl 2(2) refl refl 2(3) ev] 2 step show ?thesis
      by (auto simp: unread_def feed_def)
  next
    case 3
    from ih(1) [OF ne [symmetric] 3(1) refl 3(2) refl refl refl 3(3) ev] 3 step show ?thesis
      by (auto simp: unread_def finish_def)
  qed
qed

text \<open>
  \<open>next_part\<close>: first the loop that discards the rest of the current part (\<open>Ok True\<close>: the part is
  behind, \<open>Ok False\<close>: the closing boundary was met), then the headers of the next one. The part
  that is handed out borrows the multipart; its metadata is the value here.
\<close>

function skip_part :: "multipart \<Rightarrow> (error failure, bool) result \<times> multipart" where
  "skip_part m =
     (if \<not> mu_in_part m then (Ok True, m)
      else (case pull_event m of
          (Err e, m') \<Rightarrow> (Err e, m')
        | (Ok EndOfPart, m') \<Rightarrow> skip_part (m'\<lparr>mu_in_part := False\<rparr>)
        | (Ok DoneEvent, m') \<Rightarrow> (Ok False, m'\<lparr>mu_done := True\<rparr>)
        | (Ok (Data _), m') \<Rightarrow> skip_part m'
        | (Ok (PartHeaders _), m') \<Rightarrow>
            (Err (Fails (internal ''multipart parser yielded headers mid-part'')), m')))"
  by pat_completeness auto
termination
proof (relation "measure (\<lambda>m. length (unread m))")
  fix m r m' ev bs
  show "\<not> \<not> mu_in_part m \<Longrightarrow> (r, m') = pull_event m \<Longrightarrow> r = Ok ev \<Longrightarrow> ev = EndOfPart \<Longrightarrow>
      (m'\<lparr>mu_in_part := False\<rparr>, m) \<in> measure (\<lambda>m. length (unread m))"
    using pull_event_consumes [of m EndOfPart m'] by (auto simp: unread_def)
  show "\<not> \<not> mu_in_part m \<Longrightarrow> (r, m') = pull_event m \<Longrightarrow> r = Ok ev \<Longrightarrow> ev = Data bs \<Longrightarrow>
      (m', m) \<in> measure (\<lambda>m. length (unread m))"
    using pull_event_consumes [of m "Data bs" m'] by auto
qed simp

declare skip_part.simps [simp del]

definition next_part :: "multipart \<Rightarrow> (error failure, part_meta option) result \<times> multipart" where
  "next_part m =
     (if mu_done m then (Ok None, m)
      else (case skip_part m of
          (Err e, m1) \<Rightarrow> (Err e, m1)
        | (Ok False, m1) \<Rightarrow> (Ok None, m1)
        | (Ok True, m1) \<Rightarrow>
            (case pull_event m1 of
               (Err e, m2) \<Rightarrow> (Err e, m2)
             | (Ok (PartHeaders meta), m2) \<Rightarrow> (Ok (Some meta), m2\<lparr>mu_in_part := True\<rparr>)
             | (Ok DoneEvent, m2) \<Rightarrow> (Ok None, m2\<lparr>mu_done := True\<rparr>)
             | (Ok _, m2) \<Rightarrow> (Err (Fails (internal ''multipart parser yielded data outside a part'')), m2))))"

definition part_chunk :: "multipart \<Rightarrow> (error failure, bytes option) result \<times> multipart" where
  "part_chunk m =
     (if \<not> mu_in_part m then (Ok None, m)
      else (case pull_event m of
          (Err e, m') \<Rightarrow> (Err e, m')
        | (Ok (Data d), m') \<Rightarrow> (Ok (Some d), m')
        | (Ok EndOfPart, m') \<Rightarrow> (Ok None, m'\<lparr>mu_in_part := False\<rparr>)
        | (Ok DoneEvent, m') \<Rightarrow> (Ok None, m'\<lparr>mu_in_part := False, mu_done := True\<rparr>)
        | (Ok (PartHeaders _), m') \<Rightarrow>
            (Err (Fails (internal ''multipart parser yielded headers mid-part'')), m')))"

definition part_too_large :: "nat \<Rightarrow> error" where
  "part_too_large cap =
     error_new 413 ''JC0413'' (''multipart part exceeds the per-part cap of '' @ show_nat cap @ '' bytes'')"

lemma part_chunk_Some:
  "part_chunk m = (Ok (Some d), m') \<longleftrightarrow> mu_in_part m \<and> pull_event m = (Ok (Data d), m')"
  by (auto simp: part_chunk_def split: prod.splits sum.splits event.splits)

function part_loop :: "nat \<Rightarrow> bytes \<Rightarrow> multipart \<Rightarrow> (error failure, bytes) result \<times> multipart" where
  "part_loop cap out m =
     (case part_chunk m of
        (Err e, m') \<Rightarrow> (Err e, m')
      | (Ok None, m') \<Rightarrow> (Ok out, m')
      | (Ok (Some d), m') \<Rightarrow>
          if length out + length d > cap then (Err (Fails (part_too_large cap)), m')
          else part_loop cap (out @ d) m')"
  by pat_completeness auto
termination
proof (relation "measure (\<lambda>(cap, out, m). length (unread m))")
  fix cap :: nat and out d :: bytes and m r m' and ev :: "bytes option"
  show "(r, m') = part_chunk m \<Longrightarrow> r = Ok ev \<Longrightarrow> ev = Some d \<Longrightarrow> \<not> cap < length out + length d \<Longrightarrow>
      ((cap, out @ d, m'), cap, out, m) \<in> measure (\<lambda>(cap, out, m). length (unread m))"
    using part_chunk_Some [of m d m'] pull_event_consumes [of m "Data d" m'] by auto
qed simp

declare part_loop.simps [simp del]

definition part_bytes :: "multipart \<Rightarrow> (error failure, bytes) result \<times> multipart" where
  "part_bytes m = part_loop (mu_part_cap m) [] m"

definition part_text :: "multipart \<Rightarrow> (error failure, str) result \<times> multipart" where
  "part_text m =
     (case part_bytes m of
        (Err e, m') \<Rightarrow> (Err e, m')
      | (Ok b, m') \<Rightarrow>
          (case from_utf8 b of Some t \<Rightarrow> (Ok t, m')
           | None \<Rightarrow> (Err (Fails (bad_request ''multipart part is not valid UTF-8'')), m')))"

section \<open>The data of a part\<close>

lemma find_append:
  assumes "find b n = Some i"
  shows "find (b @ r) n = Some i"
proof -
  note b = find_bounds [OF assms]
  have "take (length n) (drop j (b @ r)) = take (length n) (drop j b)" if "j \<le> i" for j
    using that b(1) by simp
  with assms b(1) show ?thesis by (auto simp: find_iff [OF b(3)])
qed

lemma find_later:
  assumes "find h n = Some i" "k \<le> i"
  shows "find (drop k h) n = Some (i - k)"
proof -
  note b = find_bounds [OF assms(1)]
  have "map_option (\<lambda>i. i + k) (find (drop k h) n) = Some i"
    using find_skip [OF b(3), of k h] assms by (auto simp: find_iff [OF b(3)])
  with assms(2) show ?thesis by auto
qed

lemma find_not_inside:
  assumes "find (b @ r) n = Some i" "find b n = None"
  shows "length b < i + length n"
proof (rule ccontr)
  assume "\<not> ?thesis"
  note c = find_bounds [OF assms(1)]
  with \<open>\<not> length b < i + length n\<close> have "take (length n) (drop i b) = n" by simp
  with assms(2) c(3) show False by (simp add: find_None_iff)
qed

text \<open>A multipart whose parser is inside a part's data; the end-of-input mark is set only without a source.\<close>

definition in_data :: "multipart \<Rightarrow> bool" where
  "in_data m \<longleftrightarrow>
     mp_state (mu_parser m) = DataState \<and> mu_in_part m \<and> (mp_eof (mu_parser m) \<longrightarrow> mu_source m = None)"

lemma pull_event_data:
  assumes "in_data m" "find (unread m) (mp_delimiter (mu_parser m)) = Some n"
  shows "\<exists>m'. mp_delimiter (mu_parser m') = mp_delimiter (mu_parser m) \<and> mu_part_cap m' = mu_part_cap m \<and>
    (if n = 0 then
       pull_event m = (Ok EndOfPart, m') \<and> mp_state (mu_parser m') = AfterBoundary \<and>
       unread m' = drop (length (mp_delimiter (mu_parser m))) (unread m)
     else (\<exists>d. pull_event m = (Ok (Data d), m') \<and> in_data m' \<and> d \<noteq> [] \<and> length d \<le> n \<and> unread m = d @ unread m'))"
  using assms
proof (induction m rule: pull_event.induct)
  case (1 m)
  let ?p = "mu_parser m" and ?rest = "case mu_source m of None \<Rightarrow> [] | Some (fs, _) \<Rightarrow> concat fs"
  have st: "mp_state ?p = DataState" using 1(3) by (simp add: in_data_def)
  note pe = pull_event.simps [of m] and ne = next_event.simps [of ?p]
  have u: "unread m = mp_buf ?p @ ?rest" by (simp add: unread_def)
  show ?case
  proof (cases "find (mp_buf ?p) (mp_delimiter ?p)")
    case (Some i)
    then have i: "i = n" "n + length (mp_delimiter ?p) \<le> length (mp_buf ?p)"
      using 1(4) find_append [OF Some] find_bounds(1) [OF Some] by (simp_all add: u)
    show ?thesis
    proof (cases "n = 0")
      case True
      with Some i st show ?thesis by (simp add: pe ne unread_def)
    next
      case False
      with Some i st 1(3) show ?thesis by (auto simp: pe ne unread_def in_data_def)
    qed
  next
    case None
    define emit where "emit = length (mp_buf ?p) - (length (mp_delimiter ?p) - 1)"
    have "?rest \<noteq> []" using None 1(4) by (auto simp: u)
    then obtain f fs e where src: "mu_source m = Some (f # fs, e)"
      by (cases "mu_source m"; cases "fst (the (mu_source m))") auto
    have inside: "length (mp_buf ?p) < n + length (mp_delimiter ?p)"
      using find_not_inside 1(4) None by (auto simp: u)
    show ?thesis
    proof (cases "emit > 0")
      case True
      have n: "emit \<le> n" "n \<noteq> 0" using inside True by (auto simp: emit_def)
      have "pull_event m = (Ok (Data (take emit (mp_buf ?p))), m\<lparr>mu_parser := split_to emit ?p\<rparr>)"
        using None True st by (simp add: pe ne Let_def emit_def)
      with n True 1(3) show ?thesis by (auto simp: unread_def in_data_def emit_def)
    next
      case False
      then have step: "next_event ?p = (Ok None, ?p)"
        using None st src 1(3) by (simp add: ne Let_def emit_def in_data_def)
      let ?m = "m\<lparr>mu_parser := feed f ?p, mu_source := Some (fs, e)\<rparr>"
      have eq: "pull_event m = pull_event ?m" using step src by (simp add: pe)
      have m: "in_data ?m" "unread ?m = unread m" "mp_delimiter (mu_parser ?m) = mp_delimiter ?p"
        using 1(3) src by (auto simp: in_data_def unread_def feed_def)
      show ?thesis
        using 1(2) [OF step [symmetric] refl refl src refl refl] 1(4) m(1) unfolding eq m(2,3) by simp
    qed
  qed
qed

lemma part_loop_data:
  assumes "in_data m" "find (unread m) (mp_delimiter (mu_parser m)) = Some n" "length out \<le> cap"
  shows "\<exists>m'. (if length out + n \<le> cap then
      part_loop cap out m = (Ok (out @ take n (unread m)), m') \<and> \<not> mu_in_part m' \<and>
      mp_state (mu_parser m') = AfterBoundary \<and>
      unread m' = drop (n + length (mp_delimiter (mu_parser m))) (unread m)
    else part_loop cap out m = (Err (Fails (part_too_large cap)), m'))"
  using assms
proof (induction "length (unread m)" arbitrary: m n out rule: less_induct)
  case less
  have ip: "mu_in_part m" using less.prems(1) by (simp add: in_data_def)
  note pl = part_loop.simps [of cap out m]
  from pull_event_data [OF less.prems(1,2)] obtain m' where
    same: "mp_delimiter (mu_parser m') = mp_delimiter (mu_parser m)" "mu_part_cap m' = mu_part_cap m" and
    pull: "if n = 0 then
       pull_event m = (Ok EndOfPart, m') \<and> mp_state (mu_parser m') = AfterBoundary \<and>
       unread m' = drop (length (mp_delimiter (mu_parser m))) (unread m)
     else (\<exists>d. pull_event m = (Ok (Data d), m') \<and> in_data m' \<and> d \<noteq> [] \<and> length d \<le> n \<and> unread m = d @ unread m')"
    by blast
  show ?case
  proof (cases "n = 0")
    case True
    with pull ip have "part_chunk m = (Ok None, m'\<lparr>mu_in_part := False\<rparr>)" by (simp add: part_chunk_def)
    with True pull less.prems(3) show ?thesis by (auto simp: pl unread_def)
  next
    case False
    with pull obtain d where d: "pull_event m = (Ok (Data d), m')" "in_data m'" "d \<noteq> []" "length d \<le> n"
      "unread m = d @ unread m'" by auto
    have chunk: "part_chunk m = (Ok (Some d), m')" using d(1) ip by (simp add: part_chunk_Some)
    have n': "find (unread m') (mp_delimiter (mu_parser m')) = Some (n - length d)"
      using find_later [OF less.prems(2) d(4)] d(5) same by simp
    show ?thesis
    proof (cases "length out + length d > cap")
      case True
      with chunk d(4) show ?thesis by (simp add: pl)
    next
      case F: False
      then have eq: "part_loop cap out m = part_loop cap (out @ d) m'" using chunk by (simp add: pl)
      have "length (unread m') < length (unread m)" using d(3,5) by simp
      moreover have "length (out @ d) \<le> cap" using F by simp
      ultimately obtain m'' where
        "if length (out @ d) + (n - length d) \<le> cap then
           part_loop cap (out @ d) m' = (Ok ((out @ d) @ take (n - length d) (unread m')), m'') \<and>
           \<not> mu_in_part m'' \<and> mp_state (mu_parser m'') = AfterBoundary \<and>
           unread m'' = drop (n - length d + length (mp_delimiter (mu_parser m'))) (unread m')
         else part_loop cap (out @ d) m' = (Err (Fails (part_too_large cap)), m'')"
        using less.hyps [OF _ d(2) n'] by blast
      moreover have "length (out @ d) + (n - length d) = length out + n"
        "n - length d + length (mp_delimiter (mu_parser m')) = n + length (mp_delimiter (mu_parser m)) - length d"
        using d(4) same by simp_all
      ultimately show ?thesis
        by (intro exI [of _ m'']) (simp only: eq d(5) append_assoc take_append drop_append take_all [OF d(4)]
            drop_all [OF trans_le_add1 [OF d(4)]] append_Nil)
    qed
  qed
qed

section \<open>The resumed header scan\<close>

text \<open>\<open>rescan\<close> forgets the resume point: the next call scans the whole buffer.\<close>

definition rescan :: "parser \<Rightarrow> parser" where
  "rescan p = p\<lparr>mp_header_scan_from := 0\<rparr>"

lemma rescan_simps [simp]:
  "mp_state (rescan p) = mp_state p" "mp_buf (rescan p) = mp_buf p" "mp_eof (rescan p) = mp_eof p"
  "mp_delimiter (rescan p) = mp_delimiter p" "mp_parts (rescan p) = mp_parts p"
  "mp_header_scan_from (rescan p) = 0"
  "(rescan p)\<lparr>mp_buf := b\<rparr> = rescan (p\<lparr>mp_buf := b\<rparr>)" "(rescan p)\<lparr>mp_state := st\<rparr> = rescan (p\<lparr>mp_state := st\<rparr>)"
  "(rescan p)\<lparr>mp_parts := k\<rparr> = rescan (p\<lparr>mp_parts := k\<rparr>)"
  "rescan (p\<lparr>mp_header_scan_from := s\<rparr>) = rescan p" "(rescan p)\<lparr>mp_header_scan_from := s\<rparr> = p\<lparr>mp_header_scan_from := s\<rparr>"
  "rescan (rescan p) = rescan p"
  by (simp_all add: rescan_def)

lemma next_event_rescan:
  assumes "scan_ok p"
  shows "map_prod (\<lambda>r. r) rescan (next_event (rescan p)) = map_prod (\<lambda>r. r) rescan (next_event p)"
  using assms
proof (induction p rule: next_event.induct)
  case (1 p)
  note eqs = next_event.simps [of p] next_event.simps [of "rescan p"]
  show ?case
  proof (cases "mp_state p")
    case Preamble
    with 1(1) [OF Preamble refl] 1(2) [OF Preamble refl] show ?thesis
      by (simp add: eqs Let_def scan_ok_other split: option.split)
  next
    case AfterBoundary
    with 1(3) [OF AfterBoundary refl] show ?thesis
      by (simp add: eqs Let_def scan_ok_other)
  next
    case Headers
    note res = scan_resumes [OF 1(5) Headers]
    show ?thesis
    proof (cases "find (mp_buf p) (CRLF @ CRLF)")
      case None
      with Headers res show ?thesis by (simp add: eqs Let_def)
    next
      case (Some i)
      with Headers res show ?thesis by (auto simp: eqs Let_def split: sum.split)
    qed
  next
    case DataState
    then show ?thesis by (simp add: eqs Let_def split: option.split)
  next
    case DoneState
    then show ?thesis by (simp add: eqs)
  qed
qed

text \<open>The parsers a client can hold that drives one until its first failure.\<close>

inductive parser_run :: "str \<Rightarrow> parser \<Rightarrow> bool" for boundary where
  run_new: "parser_run boundary (parser_new boundary)"
| run_feed: "parser_run boundary p \<Longrightarrow> parser_run boundary (feed chunk p)"
| run_finish: "parser_run boundary p \<Longrightarrow> parser_run boundary (finish p)"
| run_event: "parser_run boundary p \<Longrightarrow> next_event p = (Ok ev, q) \<Longrightarrow> parser_run boundary q"

lemma parser_run_scan_ok: "parser_run boundary p \<Longrightarrow> scan_ok p"
  by (induction rule: parser_run.induct) (auto dest: next_event_scan)

section \<open>Properties\<close>

text \<open>The parser terminates in a number of steps linear in its input. Whatever the bytes, the
  boundary and the chunking, the driver that feeds a chunk whenever the parser asks for one reaches
  \<open>Done\<close> or a parse error within four times the input's length plus 64 calls: no livelock, no
  panic, and no request for input after the end of input.\<close>

lemma fuzz_drive_linear: "fuzz_drive boundary input chunk"
  unfolding fuzz_drive_def
proof (rule fuzz_loop_in_budget)
  have "length (concat (chunks (max chunk 1) input)) = length input" by (subst concat_chunks) auto
  with length_chunks [of "max chunk 1" input]
  show "potential (parser_new boundary) (chunks (max chunk 1) input) < length input * 4 + 64"
    by (simp add: potential_def parser_new_def)
qed simp

text \<open>Resuming the header scan is only an optimisation. For every parser driven until its first
  failure, the resume point never makes a slice out of range, and a call answers exactly as one that
  scans the header block from its start: same event, error or request for input, and same parser up
  to the resume point.\<close>

lemma header_scan_resumes:
  assumes "parser_run boundary p"
  shows "fst (next_event p) \<noteq> Err Panics \<and>
    map_prod (\<lambda>r. r) rescan (next_event (p\<lparr>mp_header_scan_from := 0\<rparr>)) =
    map_prod (\<lambda>r. r) rescan (next_event p)"
proof -
  note ok = parser_run_scan_ok [OF assms]
  have "fst (next_event p) \<noteq> Err Panics"
    using next_event_scan [OF _ ok] by (cases "next_event p") auto
  with next_event_rescan [OF ok] show ?thesis by (simp add: rescan_def)
qed

text \<open>C8: a part's data is the bytes up to the next delimiter, however the body was split into frames.
  Inside a part, if the unread bytes (the buffer and all frames still to come) hold the delimiter
  first at offset \<open>n\<close>, then \<open>bytes\<close> returns exactly the first \<open>n\<close> bytes and leaves what follows the
  delimiter, when \<open>n\<close> is within the cap; beyond the cap it is refused with 413.\<close>

theorem part_bytes_exact:
  assumes "in_data m" "find (unread m) (mp_delimiter (mu_parser m)) = Some n"
  shows "\<exists>m'. if n \<le> mu_part_cap m then
      part_bytes m = (Ok (take n (unread m)), m') \<and> \<not> mu_in_part m' \<and>
      mp_state (mu_parser m') = AfterBoundary \<and>
      unread m' = drop (n + length (mp_delimiter (mu_parser m))) (unread m)
    else part_bytes m = (Err (Fails (part_too_large (mu_part_cap m))), m')"
  using part_loop_data [OF assms, of "[]" "mu_part_cap m"] by (simp add: part_bytes_def cong: if_cong)

theorem part_bytes_exact_witness:
  "\<exists>m'. part_bytes \<lparr>mu_parser = \<lparr>mp_delimiter = CRLF @ ''--B'', mp_buf = ''he'', mp_state = DataState,
      mp_parts = 1, mp_eof = False, mp_header_scan_from = 0\<rparr>,
    mu_source = Some ([''llo'' @ [CHR 0x0D], [CHR 0x0A] @ ''--B--''], None), mu_part_cap = 5,
    mu_in_part = True, mu_done = False\<rparr> = (Ok ''hello'', m') \<and> unread m' = ''--''"
proof -
  let ?m = "\<lparr>mu_parser = \<lparr>mp_delimiter = CRLF @ ''--B'', mp_buf = ''he'', mp_state = DataState,
      mp_parts = 1, mp_eof = False, mp_header_scan_from = 0\<rparr>,
    mu_source = Some ([''llo'' @ [CHR 0x0D], [CHR 0x0A] @ ''--B--''], None), mu_part_cap = 5,
    mu_in_part = True, mu_done = False\<rparr>"
  have "in_data ?m" by (simp add: in_data_def)
  moreover have "find (unread ?m) (mp_delimiter (mu_parser ?m)) = Some 5" by code_simp
  ultimately show ?thesis
    using part_bytes_exact [of ?m 5] by (auto simp: unread_def CRLF_def)
qed

text \<open>
  After a failure the resume point is stale: a header block that arrives in pieces and is malformed
  is consumed without resetting it, so asking for the next part again slices the empty buffer past
  its end and panics.
\<close>

lemma stale_scan_panics:
  fixes p0 p1 p2 defines "p0 \<equiv> parser_new ''B''"
    and "p1 \<equiv> \<lparr>mp_delimiter = CRLF @ ''--B'', mp_buf = ''malformed'', mp_state = Headers, mp_parts = Suc 0,
      mp_eof = False, mp_header_scan_from = 9\<rparr>"
    and "p2 \<equiv> \<lparr>mp_delimiter = CRLF @ ''--B'', mp_buf = [], mp_state = Headers, mp_parts = Suc 0,
      mp_eof = False, mp_header_scan_from = 9\<rparr>"
  shows "next_event p0 = (Ok None, p0)"
    and "next_event (feed (''--B'' @ CRLF @ ''malformed'') p0) = (Ok None, p1)"
    and "next_event (feed (CRLF @ CRLF) p1) = (Err (Fails (MalformedBody ''malformed part header line'')), p2)"
    and "next_event p2 = (Err Panics, p2)"
  unfolding p0_def p1_def p2_def by code_simp+

lemma next_part_after_error_panics:
  "(case next_part (multipart_over (parser_new ''B'') (Some ([''--B'' @ CRLF @ ''malformed'', CRLF @ CRLF], None))) of
     (r, m) \<Rightarrow> r = Err (Fails (map_parse_error (MalformedBody ''malformed part header line''))) \<and>
       fst (next_part m) = Err Panics)"
  by (simp add: next_part_def multipart_over_def skip_part.simps pull_event.simps stale_scan_panics
      del: append_Cons append_Nil)

end
