(* ===== verification/JC_Clock.thy ===== *)
theory JC_Clock
  imports JC_Prelude
begin

text \<open>
  Injectable time and the civil calendar, \<open>jerrycan-core/src/clock.rs\<close>.

  Instants are milliseconds since the Unix epoch. The test clock's offset is a \<open>u64\<close> behind an
  atomic that all clones share, so the offset is the state and the base a constant of the clock.
  The \<open>i64\<close> arithmetic of \<open>civil_from_unix_secs\<close> stays far below its bounds for every \<open>u64\<close>
  argument, so it is integer arithmetic here; all its operands are non-negative, where Rust's
  division is \<open>div\<close>.
\<close>

section \<open>The civil calendar\<close>

text \<open>The date half of \<open>civil_from_unix_secs\<close>, on the days since the epoch.\<close>

definition civil_from_days :: "int \<Rightarrow> int \<times> int \<times> int" where
  "civil_from_days days =
     (let z = days + 719468;
          era = (if z \<ge> 0 then z else z - 146096) div 146097;
          doe = z - era * 146097;
          yoe = (doe - doe div 1460 + doe div 36524 - doe div 146096) div 365;
          y = yoe + era * 400;
          doy = doe - (365 * yoe + yoe div 4 - yoe div 100);
          mp = (5 * doy + 2) div 153;
          day = doy - (153 * mp + 2) div 5 + 1;
          month = (if mp < 10 then mp + 3 else mp - 9);
          year = (if month \<le> 2 then y + 1 else y)
      in (year, month, day))"

definition civil_from_unix_secs :: "nat \<Rightarrow> int \<times> int \<times> int \<times> int \<times> int \<times> int" where
  "civil_from_unix_secs secs =
     (let days = int (secs div 86400);
          rem = int (secs mod 86400);
          hour = rem div 3600;
          mi = (rem mod 3600) div 60;
          sec = rem mod 60
      in case civil_from_days days of (year, month, day) \<Rightarrow> (year, month, day, hour, mi, sec))"

text \<open>\<open>{:0w}\<close> for a non-negative number.\<close>

definition pad :: "nat \<Rightarrow> int \<Rightarrow> str" where
  "pad w n = (let s = show_nat (nat n) in replicate (w - length s) CHR ''0'' @ s)"

definition now_rfc3339 :: "nat \<Rightarrow> str" where
  "now_rfc3339 secs =
     (case civil_from_unix_secs secs of (year, month, day, hour, mi, sec) \<Rightarrow>
        pad 4 year @ ''-'' @ pad 2 month @ ''-'' @ pad 2 day @ ''T'' @
        pad 2 hour @ '':'' @ pad 2 mi @ '':'' @ pad 2 sec @ ''Z'')"

text \<open>
  The specification: the proleptic Gregorian calendar, by the number of days from the epoch to a
  date (the algorithm the source names as the inverse) and the length of a month.
\<close>

definition leap :: "int \<Rightarrow> bool" where
  "leap y \<longleftrightarrow> y mod 4 = 0 \<and> (y mod 100 \<noteq> 0 \<or> y mod 400 = 0)"

definition month_length :: "int \<Rightarrow> int \<Rightarrow> int" where
  "month_length y m = (if m = 2 then (if leap y then 29 else 28) else if m \<in> {4, 6, 9, 11} then 30 else 31)"

definition days_from_civil :: "int \<Rightarrow> int \<Rightarrow> int \<Rightarrow> int" where
  "days_from_civil y m d =
     (let y' = (if m \<le> 2 then y - 1 else y);
          era = y' div 400;
          yoe = y' mod 400;
          mp = (m + 9) mod 12;
          doy = (153 * mp + 2) div 5 + d - 1;
          doe = yoe * 365 + yoe div 4 - yoe div 100 + doy
      in era * 146097 + doe - 719468)"

section \<open>The clock\<close>

datatype clock = System | Test nat "64 word"

definition clock_system :: clock where "clock_system = System"

definition clock_test :: "nat \<Rightarrow> clock" where "clock_test system_now = Test system_now 0"

definition clock_now :: "nat \<Rightarrow> clock \<Rightarrow> nat" where
  "clock_now system_now c = (case c of System \<Rightarrow> system_now | Test base offset \<Rightarrow> base + unat offset)"

text \<open>\<open>advance\<close> and \<open>set\<close> panic on a system clock: \<open>None\<close>. \<open>fetch_add\<close> wraps.\<close>

definition u64_clamp :: "nat \<Rightarrow> 64 word" where
  "u64_clamp ms = of_nat (min ms (2 ^ 64 - 1))"

definition advance :: "nat \<Rightarrow> clock \<Rightarrow> clock option" where
  "advance d c = (case c of System \<Rightarrow> None | Test base offset \<Rightarrow> Some (Test base (offset + u64_clamp d)))"

definition set_clock :: "nat \<Rightarrow> clock \<Rightarrow> clock option" where
  "set_clock when c =
     (case c of System \<Rightarrow> None
      | Test base offset \<Rightarrow> (let delta = when - base in Some (Test base (u64_clamp delta))))"

section \<open>Lemmas: the calendar\<close>

text \<open>
  A day of the 400-year era is a century \<open>h\<close>, a four-year group \<open>k\<close>, a year \<open>j\<close> and a day \<open>d\<close>;
  the last day of a leap group and of the era is the 366th of its last year.
\<close>

lemma era_day_decompose:
  fixes doe :: int
  assumes "0 \<le> doe" "doe < 146097"
  obtains h k j d where "doe = 36524 * h + 1461 * k + 365 * j + d"
    "0 \<le> h" "h \<le> 3" "0 \<le> k" "k \<le> 24" "0 \<le> j" "j \<le> 3" "0 \<le> d" "d \<le> 365"
    "d = 365 \<Longrightarrow> j = 3 \<and> (k = 24 \<longrightarrow> h = 3)"
proof -
  define h where "h = (if doe div 36524 = 4 then 3 else doe div 36524)"
  define r where "r = doe - 36524 * h"
  define k where "k = r div 1461"
  define s where "s = r - 1461 * k"
  define j where "j = (if s div 365 = 4 then 3 else s div 365)"
  define d where "d = s - 365 * j"
  have h: "0 \<le> h" "h \<le> 3" using assms by (auto simp: h_def)
  have r: "0 \<le> r" "r \<le> 36524" "r = 36524 \<Longrightarrow> h = 3" using assms by (auto simp: r_def h_def)
  have k: "0 \<le> k" "k \<le> 24" using r by (auto simp: k_def)
  have s: "0 \<le> s" "s \<le> 1460" using r by (auto simp: s_def k_def)
  have j: "0 \<le> j" "j \<le> 3" using s by (auto simp: j_def)
  have d: "0 \<le> d" "d \<le> 365" "d = 365 \<Longrightarrow> j = 3" using s by (auto simp: d_def j_def)
  have "k = 24 \<longrightarrow> h = 3" if "d = 365"
  proof
    assume "k = 24"
    moreover have "j = 3" by (rule d(3)[OF that])
    ultimately have "r = 36524" using that d_def s_def by linarith
    then show "h = 3" by (rule r(3))
  qed
  then have last: "j = 3 \<and> (k = 24 \<longrightarrow> h = 3)" if "d = 365" using that d(3) by blast
  have eq: "doe = 36524 * h + 1461 * k + 365 * j + d" unfolding d_def s_def r_def by linarith
  show ?thesis by (rule that [OF eq h(1) h(2) k(1) k(2) j(1) j(2) d(1) d(2) last])
qed

lemma div_365: "0 \<le> b \<and> b \<le> 364 \<Longrightarrow> (365 * a + b) div 365 = a" for a b :: int
  by simp

lemma year_of_era:
  fixes h k j d :: int
  assumes "0 \<le> h" "h \<le> 3" "0 \<le> k" "k \<le> 24" "0 \<le> j" "j \<le> 3" "0 \<le> d" "d \<le> 365"
    "d = 365 \<Longrightarrow> j = 3 \<and> (k = 24 \<longrightarrow> h = 3)"
  defines "doe \<equiv> 36524 * h + 1461 * k + 365 * j + d"
  shows "(doe - doe div 1460 + doe div 36524 - doe div 146096) div 365 = 100 * h + 4 * k + j"
proof -
  define e where "e = 24 * h + k + 365 * j + d"
  have "doe = e + (25 * h + k) * 1460" by (simp add: doe_def e_def)
  moreover have "0 \<le> e" "e < 2920" using assms(1-8) unfolding e_def by linarith+
  ultimately have a: "doe div 1460 = 25 * h + k + (if e < 1460 then 0 else 1)" by auto
  define g where "g = 1461 * k + 365 * j + d"
  have g: "0 \<le> g" "g \<le> 36524" using assms(1-8) by (simp_all add: g_def)
  have g3: "k = 24 \<and> j = 3 \<and> d = 365" if "g = 36524"
  proof -
    have "d = 365" and "k = 24" using that assms(3-8) unfolding g_def by linarith+
    then show ?thesis using that unfolding g_def by simp
  qed
  have gh: "doe = g + h * 36524" by (simp add: doe_def g_def)
  then have b: "doe div 36524 = h + (if g < 36524 then 0 else 1)" using g by auto
  have range: "0 \<le> doe" "doe \<le> 146096" using gh g assms(1,2) by linarith+
  then have c: "doe div 146096 = (if doe < 146096 then 0 else 1)" by (cases "doe = 146096") auto
  have last: "doe < 146096 \<longleftrightarrow> \<not> (h = 3 \<and> g = 36524)" using gh g range assms(1,2) by linarith
  have e1: "j = 3 \<and> 269 \<le> d" if "1460 \<le> e" using that assms(1-8) unfolding e_def by linarith
  have e2: "1460 \<le> e" if "d = 365" using that assms(1,3,9) unfolding e_def by auto
  have d: "d - (if e < 1460 then 0 else 1) + (if g < 36524 then 0 else 1) - (if doe < 146096 then 0 else 1) \<in> {0..364}"
  proof (cases "g = 36524")
    case True
    then have "d = 365" "h = 3" "1460 \<le> e" using g3 assms(9) e2 by auto
    then show ?thesis using True last by simp
  next
    case False
    then have "doe < 146096" "g < 36524" using last g(2) by auto
    moreover have "d \<noteq> 365" if "e < 1460" using e2 that by auto
    ultimately show ?thesis using e1 assms(7,8) by auto
  qed
  have "doe - doe div 1460 + doe div 36524 - doe div 146096 =
      365 * (100 * h + 4 * k + j) +
      (d - (if e < 1460 then 0 else 1) + (if g < 36524 then 0 else 1) - (if doe < 146096 then 0 else 1))"
    unfolding a b c by (simp add: doe_def)
  then show ?thesis using d by (simp only: div_365 atLeastAtMost_iff)
qed

text \<open>The days before each month of a year that starts in March, and the longest that month can be.\<close>

lemma month_of_year:
  fixes d :: int
  assumes "0 \<le> d" "d \<le> 365"
  defines "mp \<equiv> (5 * d + 2) div 153"
  defines "day \<equiv> d - (153 * mp + 2) div 5 + 1"
  shows "0 \<le> mp \<and> mp \<le> 11 \<and> 1 \<le> day \<and> (mp = 11 \<longrightarrow> day \<le> 29 \<and> (day = 29 \<longrightarrow> d = 365)) \<and>
    (mp \<in> {1, 3, 6, 8} \<longrightarrow> day \<le> 30) \<and> day \<le> 31"
proof -
  have b: "153 * mp \<le> 5 * d + 2" "5 * d + 2 < 153 * mp + 153" unfolding mp_def by simp_all
  then have "0 \<le> mp" "mp \<le> 11" using assms(1,2) by linarith+
  then have "mp = 0 \<or> mp = 1 \<or> mp = 2 \<or> mp = 3 \<or> mp = 4 \<or> mp = 5 \<or> mp = 6 \<or> mp = 7 \<or>
      mp = 8 \<or> mp = 9 \<or> mp = 10 \<or> mp = 11" by presburger
  then show ?thesis using b assms(1,2) unfolding day_def by (elim disjE) simp_all
qed

lemma civil_spec:
  fixes days :: int
  assumes "0 \<le> days"
  defines "z \<equiv> days + 719468"
  defines "era \<equiv> z div 146097"
  defines "doe \<equiv> z - era * 146097"
  defines "yoe \<equiv> (doe - doe div 1460 + doe div 36524 - doe div 146096) div 365"
  defines "doy \<equiv> doe - (365 * yoe + yoe div 4 - yoe div 100)"
  defines "mp \<equiv> (5 * doy + 2) div 153"
  defines "day \<equiv> doy - (153 * mp + 2) div 5 + 1"
  defines "month \<equiv> (if mp < 10 then mp + 3 else mp - 9)"
  defines "year \<equiv> (if month \<le> 2 then yoe + era * 400 + 1 else yoe + era * 400)"
  shows "1 \<le> month \<and> month \<le> 12 \<and> 1 \<le> day \<and> day \<le> month_length year month \<and>
    days_from_civil year month day = days"
proof -
  have doe: "0 \<le> doe" "doe < 146097" unfolding doe_def era_def by (simp_all add: minus_div_mult_eq_mod)
  obtain h k j d where e: "doe = 36524 * h + 1461 * k + 365 * j + d"
    and r: "0 \<le> h" "h \<le> 3" "0 \<le> k" "k \<le> 24" "0 \<le> j" "j \<le> 3" "0 \<le> d" "d \<le> 365"
    and l: "d = 365 \<Longrightarrow> j = 3 \<and> (k = 24 \<longrightarrow> h = 3)"
    using era_day_decompose [OF doe] by blast
  have yoe: "yoe = 100 * h + 4 * k + j" unfolding yoe_def e by (rule year_of_era [OF r l])
  have q: "yoe div 4 = 25 * h + k" "yoe div 100 = h" unfolding yoe using r by auto
  have doy: "doy = d" unfolding doy_def q using e yoe by simp
  note m = month_of_year [OF r(7,8), folded doy, folded mp_def, folded day_def]
  have y400: "0 \<le> yoe" "yoe < 400" using yoe r by auto
  have leap: "leap year" if "mp = 11" "day = 29"
  proof -
    have d: "d = 365" using m that doy by simp
    with l have j: "j = 3" "k = 24 \<longrightarrow> h = 3" by auto
    have y: "year = (100 * h + 4 * k + 4) + era * 400" using that j yoe by (simp add: year_def month_def)
    have "year mod 4 = 0" unfolding y by presburger
    moreover have "year mod 100 \<noteq> 0 \<or> year mod 400 = 0"
    proof (cases "k = 24")
      case True
      then have "year = 400 + era * 400" using y j by simp
      then show ?thesis by simp
    next
      case False
      have "year = (4 * k + 4) + (h + 4 * era) * 100" using y by simp
      then have "year mod 100 = (4 * k + 4) mod 100" by (simp only: mod_mult_self1)
      then show ?thesis using False r by auto
    qed
    ultimately show ?thesis by (simp add: leap_def)
  qed
  have mon: "1 \<le> month" "month \<le> 12" "month = 2 \<longleftrightarrow> mp = 11" "month \<in> {4, 6, 9, 11} \<longleftrightarrow> mp \<in> {1, 3, 6, 8}"
    using m unfolding month_def by auto
  have d28: "day \<le> 28" if "mp = 11" "\<not> leap year"
  proof -
    have "day \<le> 29" "day \<noteq> 29" using m leap that by auto
    then show ?thesis by linarith
  qed
  have "day \<le> month_length year month"
  proof (cases "mp = 11")
    case True
    then show ?thesis using m d28 unfolding month_length_def mon(3) by simp
  next
    case False
    then show ?thesis using m unfolding month_length_def mon(3,4) by simp
  qed
  moreover have "days_from_civil year month day = days"
  proof -
    have y': "(if month \<le> 2 then year - 1 else year) = yoe + era * 400" by (simp add: year_def)
    have "(month + 9) mod 12 = mp" using m unfolding month_def by auto
    moreover have "(yoe + era * 400) div 400 = era" "(yoe + era * 400) mod 400 = yoe" using y400 by auto
    ultimately have "days_from_civil year month day = era * 146097 + (yoe * 365 + yoe div 4 - yoe div 100 + doy) - 719468"
      unfolding days_from_civil_def y' Let_def by (simp add: day_def)
    then show ?thesis by (simp add: doy_def doe_def z_def)
  qed
  ultimately show ?thesis using m mon by simp
qed

lemma civil_from_days_spec:
  assumes "0 \<le> days"
  shows "case civil_from_days days of (year, month, day) \<Rightarrow>
    1 \<le> month \<and> month \<le> 12 \<and> 1 \<le> day \<and> day \<le> month_length year month \<and>
    days_from_civil year month day = days"
proof -
  have z: "0 \<le> days + 719468" using assms by simp
  show ?thesis unfolding civil_from_days_def Let_def if_P [OF z] prod.case by (rule civil_spec [OF assms])
qed

section \<open>Dates are unique\<close>

text \<open>The day count is injective on valid dates, so the conversion is its exact inverse.\<close>

definition year_start :: "int \<Rightarrow> int" where
  "year_start k = 365 * k + k div 4 - k div 100 + k div 400"

lemma div_Suc:
  fixes k n :: int
  assumes "0 < n"
  shows "(k + 1) div n = k div n + (if n dvd k + 1 then 1 else 0)"
proof -
  define q r where "q = (k + 1) div n" and "r = (k + 1) mod n"
  have r: "0 \<le> r" "r < n" "k + 1 = n * q + r" using assms by (simp_all add: q_def r_def)
  have "k div n = q - 1" if "r = 0"
    by (rule int_div_pos_eq [where r = "n - 1"]) (use r that assms in \<open>simp_all add: right_diff_distrib\<close>)
  moreover have "k div n = q" if "r \<noteq> 0"
    by (rule int_div_pos_eq [where r = "r - 1"]; use r that in linarith)
  ultimately show ?thesis
    unfolding q_def [symmetric] by (auto simp: dvd_eq_mod_eq_0 r_def)
qed

lemma year_start_Suc: "year_start (k + 1) = year_start k + 365 + (if leap (k + 1) then 1 else 0)"
proof -
  have "4 dvd k + 1" if "100 dvd k + 1" by (rule dvd_trans [OF _ that]) simp
  moreover have "100 dvd k + 1" if "400 dvd k + 1" by (rule dvd_trans [OF _ that]) simp
  moreover have "leap (k + 1) \<longleftrightarrow> 4 dvd k + 1 \<and> (\<not> 100 dvd k + 1 \<or> 400 dvd k + 1)"
    by (simp add: leap_def dvd_eq_mod_eq_0)
  moreover have "(k + 1) div 4 = k div 4 + (if 4 dvd k + 1 then 1 else 0)"
    "(k + 1) div 100 = k div 100 + (if 100 dvd k + 1 then 1 else 0)"
    "(k + 1) div 400 = k div 400 + (if 400 dvd k + 1 then 1 else 0)" by (simp_all only: div_Suc zero_less_numeral)
  ultimately show ?thesis
    unfolding year_start_def by (cases "400 dvd k + 1"; cases "100 dvd k + 1"; cases "4 dvd k + 1") simp_all
qed

lemma year_start_mono: "j \<le> k \<Longrightarrow> year_start j \<le> year_start k"
proof (induction k rule: int_ge_induct)
  case (step i)
  then show ?case using year_start_Suc [of i] by simp
qed simp

definition march_year :: "int \<Rightarrow> int \<Rightarrow> int" where
  "march_year y m = (if m \<le> 2 then y - 1 else y)"

definition month_start :: "int \<Rightarrow> int" where
  "month_start m = (153 * ((m + 9) mod 12) + 2) div 5"

lemma days_from_civil_alt:
  "days_from_civil y m d = year_start (march_year y m) + month_start m + d - 1 - 719468"
proof -
  define k where "k = march_year y m"
  have k: "k = 400 * (k div 400) + k mod 400" by simp
  have "k div 4 = (k mod 400 + 4 * (100 * (k div 400))) div 4" using k by (simp add: algebra_simps)
  then have "k div 4 = 100 * (k div 400) + k mod 400 div 4" by (simp only: div_mult_self2)
  moreover have "k div 100 = (k mod 400 + 100 * (4 * (k div 400))) div 100" using k by (simp add: algebra_simps)
  then have "k div 100 = 4 * (k div 400) + k mod 400 div 100" by (simp only: div_mult_self2)
  ultimately show ?thesis
    unfolding days_from_civil_def Let_def march_year_def [symmetric] k_def [symmetric] year_start_def month_start_def
    using k by linarith
qed

definition valid_date :: "int \<Rightarrow> int \<Rightarrow> int \<Rightarrow> bool" where
  "valid_date y m d \<longleftrightarrow> 1 \<le> m \<and> m \<le> 12 \<and> 1 \<le> d \<and> d \<le> month_length y m"

lemma month_cases:
  fixes m :: int
  assumes "1 \<le> m" "m \<le> 12"
  shows "m \<in> {1, 2, 3, 4, 5, 6, 7, 8, 9, 10, 11, 12}"
  using assms unfolding insert_iff empty_iff by presburger

lemma valid_day:
  assumes "valid_date y m d"
  shows "1 \<le> d" "d \<le> 31" "m \<in> {4, 6, 9, 11} \<longrightarrow> d \<le> 30" "m = 2 \<longrightarrow> d \<le> 29"
    "m = 2 \<longrightarrow> d = 29 \<longrightarrow> leap y" "m \<in> {1, 2, 3, 4, 5, 6, 7, 8, 9, 10, 11, 12}"
  using assms month_cases [of m] by (auto simp: valid_date_def month_length_def split: if_splits)

lemma day_in_year:
  assumes "valid_date y m d"
  shows "0 \<le> month_start m + d - 1 \<and>
    month_start m + d - 1 < 365 + (if leap (march_year y m + 1) then 1 else 0)"
  using valid_day(6) [OF assms] unfolding insert_iff empty_iff
  by (elim disjE; use valid_day(1-5) [OF assms] in \<open>auto simp: month_start_def march_year_def\<close>)

definition month_of :: "int \<Rightarrow> int" where
  "month_of s = (if s \<le> 31 then 3 else if s \<le> 61 then 4 else if s \<le> 92 then 5 else if s \<le> 122 then 6
     else if s \<le> 153 then 7 else if s \<le> 184 then 8 else if s \<le> 214 then 9 else if s \<le> 245 then 10
     else if s \<le> 275 then 11 else if s \<le> 306 then 12 else if s \<le> 337 then 1 else 2)"

lemma month_of_day:
  assumes "valid_date y m d"
  shows "month_of (month_start m + d) = m"
  using valid_day(6) [OF assms] unfolding insert_iff empty_iff
  by (elim disjE; use valid_day(1-4) [OF assms] in \<open>simp add: month_start_def month_of_def\<close>)

lemma days_from_civil_inj:
  assumes "valid_date y m d" "valid_date y' m' d'" "days_from_civil y m d = days_from_civil y' m' d'"
  shows "(y, m, d) = (y', m', d')"
proof -
  have less: False if "valid_date y m d" "valid_date y' m' d'" "march_year y m < march_year y' m'"
      "days_from_civil y m d = days_from_civil y' m' d'" for y m d y' m' d'
    using year_start_mono [of "march_year y m + 1" "march_year y' m'"] year_start_Suc [of "march_year y m"]
      day_in_year [OF that(1)] day_in_year [OF that(2)] that(3,4) by (simp add: days_from_civil_alt)
  have my: "march_year y m = march_year y' m'"
    using less [OF assms(1,2)] less [OF assms(2,1)] assms(3) by (metis linorder_less_linear)
  have "month_start m + d = month_start m' + d'" using assms(3) my by (simp add: days_from_civil_alt)
  with month_of_day [OF assms(1)] month_of_day [OF assms(2)] my show ?thesis by (auto simp: march_year_def split: if_splits)
qed

lemma civil_from_days_inverse:
  assumes "valid_date y m d" "0 \<le> days_from_civil y m d"
  shows "civil_from_days (days_from_civil y m d) = (y, m, d)"
proof -
  obtain y' m' d' where c: "civil_from_days (days_from_civil y m d) = (y', m', d')" by (metis prod.exhaust)
  with civil_from_days_spec [OF assms(2)] have "valid_date y' m' d'" "days_from_civil y' m' d' = days_from_civil y m d"
    by (simp_all add: valid_date_def)
  with days_from_civil_inj assms(1) c show ?thesis by metis
qed

section \<open>Properties\<close>

text \<open>The calendar conversion is exact. For every number of seconds since the epoch the result is
  a valid date and time of the Gregorian calendar (month lengths and leap years included), and it is
  the instant it came from: its day number and time of day give the seconds back.\<close>

lemma civil_date_correct:
  "case civil_from_unix_secs secs of (year, month, day, hour, mi, sec) \<Rightarrow>
     1 \<le> month \<and> month \<le> 12 \<and> 1 \<le> day \<and> day \<le> month_length year month \<and>
     0 \<le> hour \<and> hour < 24 \<and> 0 \<le> mi \<and> mi < 60 \<and> 0 \<le> sec \<and> sec < 60 \<and>
     int secs = 86400 * days_from_civil year month day + 3600 * hour + 60 * mi + sec"
proof -
  define rem where "rem = int (secs mod 86400)"
  have rem: "0 \<le> rem" "rem < 86400" "int secs = 86400 * int (secs div 86400) + rem"
    unfolding rem_def by (simp_all only: zmod_int zdiv_int of_nat_numeral) simp_all
  have t: "0 \<le> rem div 3600" "rem div 3600 < 24" "0 \<le> rem mod 3600 div 60" "rem mod 3600 div 60 < 60"
    "0 \<le> rem mod 60" "rem mod 60 < 60" using rem(1,2) by auto
  have "rem mod 3600 mod 60 = rem mod 60" by (rule mod_mod_cancel) simp
  then have split: "rem = 3600 * (rem div 3600) + 60 * (rem mod 3600 div 60) + rem mod 60"
    using mult_div_mod_eq [of 3600 rem] mult_div_mod_eq [of 60 "rem mod 3600"] by linarith
  obtain y m d where c: "civil_from_days (int (secs div 86400)) = (y, m, d)" by (metis prod.exhaust)
  have spec: "1 \<le> m \<and> m \<le> 12 \<and> 1 \<le> d \<and> d \<le> month_length y m \<and> days_from_civil y m d = int (secs div 86400)"
    using civil_from_days_spec [of "int (secs div 86400)"] unfolding c prod.case by simp
  have "int secs = 86400 * days_from_civil y m d + 3600 * (rem div 3600) + 60 * (rem mod 3600 div 60) + rem mod 60"
    using rem(3) split spec by linarith
  then show ?thesis
    unfolding civil_from_unix_secs_def Let_def c prod.case rem_def [symmetric] using t spec by blast
qed

text \<open>Advancing the test clock wraps. The offset after \<open>advance\<close> is the sum modulo 2 to the 64,
  so a clock near the end of the range jumps back, while \<open>set\<close> pins any instant from the base on
  exactly.\<close>

lemma clock_advance_wraps:
  "map_option (clock_now now) (advance d (Test base offset)) =
     Some (base + (unat offset + min d (2 ^ 64 - 1)) mod 2 ^ 64) \<and>
   (base \<le> when \<and> when - base < 2 ^ 64 \<longrightarrow>
     map_option (clock_now now) (set_clock when (Test base offset)) = Some when)"
proof -
  have c: "unat (u64_clamp n) = min n (2 ^ 64 - 1)" for n
    unfolding u64_clamp_def unat_of_nat by simp
  show ?thesis
    by (simp add: advance_def set_clock_def clock_now_def c unat_word_ariths Let_def)
qed

end
