(* ===== verification/JC_Cron.thy ===== *)
theory JC_Cron
  imports JC_Clock JC_Extract
begin

text \<open>
  Cron schedules, \<open>jerrycan-jobs/src/cron.rs\<close>: the five-field parser, the matching of a civil
  instant, and the searches for the next and the previous tick.

  A \<open>SystemTime\<close> is its number of nanoseconds since the Unix epoch; earlier instants, which the code
  maps to the epoch, do not occur. The text of a \<open>CronError\<close> is a constructor with what it quotes.
  A loop that may run forever on values outside the callers' range is a \<open>partial_function\<close>; that
  parsing always returns is proved.
\<close>

section \<open>Schedules\<close>

definition SECS_PER_MINUTE :: nat where "SECS_PER_MINUTE = 60"
definition MINUTES_PER_DAY :: nat where "MINUTES_PER_DAY = 24 * 60"
definition SEARCH_BOUND_MINUTES :: nat where "SEARCH_BOUND_MINUTES = 4 * 366 * MINUTES_PER_DAY"
definition NANOS :: nat where "NANOS = 10 ^ 9"

type_synonym system_time = nat

record cron_schedule =
  cs_minute :: "nat list"
  cs_hour :: "nat list"
  cs_dom :: "nat list"
  cs_month :: "nat list"
  cs_dow :: "nat list"
  cs_dom_restricted :: bool
  cs_dow_restricted :: bool

datatype cron_error =
    WrongFieldCount nat | EmptyField | IllegalCharacter str | EmptyElement str | MalformedStep str
  | StepZero str | DescendingRange str | StepOnSingle str | MalformedNumber str str
  | OutOfRange nat nat nat str

record civil =
  cv_year :: int
  cv_month :: int
  cv_day :: int
  cv_hour :: int
  cv_minute :: int
  cv_dow :: int

definition from_unix_secs :: "int \<Rightarrow> civil" where
  "from_unix_secs secs =
     (let days = secs div 86400;
          rem = secs mod 86400;
          hour = rem div 3600;
          mi = (rem mod 3600) div 60;
          z = days + 719468;
          era = z div 146097;
          doe = z - era * 146097;
          yoe = (doe - doe div 1460 + doe div 36524 - doe div 146096) div 365;
          y = yoe + era * 400;
          doy = doe - (365 * yoe + yoe div 4 - yoe div 100);
          mp = (5 * doy + 2) div 153;
          day = doy - (153 * mp + 2) div 5 + 1;
          month = (if mp < 10 then mp + 3 else mp - 9);
          year = (if month \<le> 2 then y + 1 else y);
          dow = (days mod 7 + 4) mod 7
      in \<lparr>cv_year = year, cv_month = month, cv_day = day, cv_hour = hour, cv_minute = mi, cv_dow = dow\<rparr>)"

section \<open>Parsing\<close>

definition parse_num :: "str \<Rightarrow> str \<Rightarrow> (cron_error, nat) result" where
  "parse_num s part =
     (case parse_int 0 255 s of Ok v \<Rightarrow> Ok (nat v) | Err _ \<Rightarrow> Err (MalformedNumber s part))"

definition check_range :: "nat \<Rightarrow> nat \<Rightarrow> nat \<Rightarrow> str \<Rightarrow> (cron_error, unit) result" where
  "check_range n mn mx part = (if n < mn \<or> n > mx then Err (OutOfRange n mn mx part) else Ok ())"

text \<open>The loop that pushes every \<open>step\<close>-th value: a \<open>u8\<close> that saturates at 255.\<close>

partial_function (option) step_values :: "nat \<Rightarrow> nat \<Rightarrow> nat \<Rightarrow> nat \<Rightarrow> nat list \<Rightarrow> nat list option" where
  "step_values lo hi step v out =
     (if v \<le> hi then
        (let v' = min (v + step) 255 in
         if v' < lo then Some (out @ [v]) else step_values lo hi step v' (out @ [v]))
      else Some out)"

declare step_values.simps [code]

definition parse_step :: "str \<Rightarrow> (cron_error, str \<times> nat) result" where
  "parse_step part =
     (case split_once CHR ''/'' part of
        Some (r, s) \<Rightarrow>
          if s = [] \<or> CHR ''/'' \<in> set s then Err (MalformedStep part)
          else (case parse_int 0 255 s of
              Err _ \<Rightarrow> Err (MalformedStep part)
            | Ok v \<Rightarrow> if v = 0 then Err (StepZero part) else Ok (r, nat v))
      | None \<Rightarrow> Ok (part, 1))"

text \<open>The result is the values pushed onto \<open>out\<close>; the outer \<open>option\<close> is the loop's return.\<close>

definition parse_element :: "str \<Rightarrow> nat \<Rightarrow> nat \<Rightarrow> nat list \<Rightarrow> (cron_error, nat list) result option" where
  "parse_element part mn mx out =
     (case parse_step part of
        Err e \<Rightarrow> Some (Err e)
      | Ok (range_spec, step) \<Rightarrow>
          if range_spec = ''*'' then map_option Ok (step_values mn mx step mn out)
          else (case split_once CHR ''-'' range_spec of
              Some (sa, sb) \<Rightarrow>
                (case bind_result (parse_num sa part) (\<lambda>a. bind_result (parse_num sb part) (\<lambda>b.
                    if a > b then Err (DescendingRange part)
                    else bind_result (check_range a mn mx part) (\<lambda>_.
                      bind_result (check_range b mn mx part) (\<lambda>_. Ok (a, b))))) of
                   Err e \<Rightarrow> Some (Err e)
                 | Ok (a, b) \<Rightarrow> map_option Ok (step_values a b step a out))
            | None \<Rightarrow>
                if step \<noteq> 1 then Some (Err (StepOnSingle part))
                else Some (bind_result (parse_num range_spec part) (\<lambda>n.
                  bind_result (check_range n mn mx part) (\<lambda>_. Ok (out @ [n]))))))"

fun parse_elements :: "str \<Rightarrow> str list \<Rightarrow> nat \<Rightarrow> nat \<Rightarrow> nat list \<Rightarrow> (cron_error, nat list) result option" where
  "parse_elements spec [] mn mx out = Some (Ok out)"
| "parse_elements spec (part # ps) mn mx out =
     (if part = [] then Some (Err (EmptyElement spec))
      else (case parse_element part mn mx out of
          None \<Rightarrow> None
        | Some (Err e) \<Rightarrow> Some (Err e)
        | Some (Ok out') \<Rightarrow> parse_elements spec ps mn mx out'))"

definition field_char :: "char \<Rightarrow> bool" where
  "field_char c \<longleftrightarrow> byte_in 48 57 c \<or> c \<in> set ''*,/-''"

definition parse_field :: "str \<Rightarrow> nat \<Rightarrow> nat \<Rightarrow> (cron_error, nat list) result option" where
  "parse_field spec mn mx =
     (if spec = [] then Some (Err EmptyField)
      else if \<not> list_all field_char spec then Some (Err (IllegalCharacter spec))
      else map_option (map_sum (\<lambda>e. e) (\<lambda>vs. remdups_adj (sort vs)))
             (parse_elements spec (split_on CHR '','' spec) mn mx []))"

text \<open>\<open>Option\<close> of \<open>Result\<close>, with Rust's \<open>?\<close> on the result.\<close>

definition and_then ::
  "(cron_error, 'a) result option \<Rightarrow> ('a \<Rightarrow> (cron_error, 'b) result option) \<Rightarrow> (cron_error, 'b) result option" where
  "and_then m f = (case m of None \<Rightarrow> None | Some (Err e) \<Rightarrow> Some (Err e) | Some (Ok v) \<Rightarrow> f v)"

definition cron_parse :: "str \<Rightarrow> (cron_error, cron_schedule) result option" where
  "cron_parse expr =
     (let fields = split_whitespace expr in
      if length fields \<noteq> 5 then Some (Err (WrongFieldCount (length fields)))
      else
        and_then (parse_field (fields ! 0) 0 59) (\<lambda>mi.
        and_then (parse_field (fields ! 1) 0 23) (\<lambda>ho.
        and_then (parse_field (fields ! 2) 1 31) (\<lambda>dom.
        and_then (parse_field (fields ! 3) 1 12) (\<lambda>mo.
        and_then (parse_field (fields ! 4) 0 6) (\<lambda>dow.
          Some (Ok \<lparr>cs_minute = mi, cs_hour = ho, cs_dom = dom, cs_month = mo, cs_dow = dow,
                    cs_dom_restricted = (fields ! 2 \<noteq> ''*''), cs_dow_restricted = (fields ! 4 \<noteq> ''*'')\<rparr>)))))))"

section \<open>Ticks\<close>

definition matches :: "cron_schedule \<Rightarrow> civil \<Rightarrow> bool" where
  "matches s c =
     (if nat (cv_minute c) \<notin> set (cs_minute s) \<or> nat (cv_hour c) \<notin> set (cs_hour s)
         \<or> nat (cv_month c) \<notin> set (cs_month s) then False
      else
        (let dom_ok = nat (cv_day c) \<in> set (cs_dom s);
             dow_ok = nat (cv_dow c) \<in> set (cs_dow s)
         in case (cs_dom_restricted s, cs_dow_restricted s) of
              (True, True) \<Rightarrow> dom_ok \<or> dow_ok
            | (True, False) \<Rightarrow> dom_ok
            | (False, True) \<Rightarrow> dow_ok
            | (False, False) \<Rightarrow> True))"

definition never :: system_time where
  "never = 100000 * 365 * 86400 * NANOS"

text \<open>Whether minute number \<open>m\<close> since the epoch is a tick, and its instant.\<close>

definition fires :: "cron_schedule \<Rightarrow> nat \<Rightarrow> bool" where
  "fires s m = matches s (from_unix_secs (int (m * SECS_PER_MINUTE)))"

definition minute_time :: "nat \<Rightarrow> system_time" where
  "minute_time m = m * SECS_PER_MINUTE * NANOS"

text \<open>The two bounded loops: \<open>n\<close> candidates are left.\<close>

fun scan_forward :: "cron_schedule \<Rightarrow> nat \<Rightarrow> nat \<Rightarrow> nat option" where
  "scan_forward s m 0 = None"
| "scan_forward s m (Suc n) = (if fires s m then Some m else scan_forward s (m + 1) n)"

fun scan_back :: "cron_schedule \<Rightarrow> nat \<Rightarrow> nat \<Rightarrow> nat option" where
  "scan_back s m 0 = None"
| "scan_back s m (Suc n) =
     (if fires s m then Some m else (case m of 0 \<Rightarrow> None | Suc m' \<Rightarrow> scan_back s m' n))"

definition next_after :: "cron_schedule \<Rightarrow> system_time \<Rightarrow> system_time" where
  "next_after s after =
     (case scan_forward s (after div NANOS div SECS_PER_MINUTE + 1) SEARCH_BOUND_MINUTES of
        Some m \<Rightarrow> minute_time m | None \<Rightarrow> never)"

definition prev_at_or_before :: "cron_schedule \<Rightarrow> system_time \<Rightarrow> system_time option" where
  "prev_at_or_before s at =
     map_option minute_time (scan_back s (at div NANOS div SECS_PER_MINUTE) SEARCH_BOUND_MINUTES)"

definition due_fire :: "cron_schedule \<Rightarrow> system_time option \<Rightarrow> system_time \<Rightarrow> system_time option" where
  "due_fire s last_fired now =
     (case prev_at_or_before s now of
        None \<Rightarrow> None
      | Some prev \<Rightarrow>
          (case last_fired of
             Some lf \<Rightarrow> if prev \<le> lf then None else Some prev
           | None \<Rightarrow> Some prev))"

section \<open>Parsing always returns a well-formed schedule\<close>

lemma step_values_spec:
  assumes "hi < 255" "0 < step" "lo \<le> v"
  shows "\<exists>vs. step_values lo hi step v out = Some (out @ vs) \<and>
    set vs = {x. v \<le> x \<and> x \<le> hi \<and> step dvd (x - v)}"
  using assms(3)
proof (induction "Suc hi - v" arbitrary: v out rule: less_induct)
  case less
  show ?case
  proof (cases "v \<le> hi")
    case False
    then show ?thesis by (auto simp: step_values.simps)
  next
    case True
    define v' where "v' = min (v + step) 255"
    have v': "lo \<le> v'" "v < v'" "Suc hi - v' < Suc hi - v"
      using True less.prems assms by (auto simp: v'_def)
    obtain vs where vs: "step_values lo hi step v' (out @ [v]) = Some ((out @ [v]) @ vs)"
      "set vs = {x. v' \<le> x \<and> x \<le> hi \<and> step dvd (x - v')}"
      using less.hyps [OF v'(3,1), of "out @ [v]"] by blast
    have "insert v (set vs) = {x. v \<le> x \<and> x \<le> hi \<and> step dvd (x - v)}"
    proof -
      have iff: "x \<in> set vs \<longleftrightarrow> v < x \<and> x \<le> hi \<and> step dvd (x - v)" for x
      proof
        assume "x \<in> set vs"
        then have x: "v' \<le> x" "x \<le> hi" "step dvd (x - v')" by (auto simp: vs(2))
        with assms(1) have "v' = v + step" by (auto simp: v'_def)
        then have "step dvd (x - v)" using x(1) dvd_add [OF x(3) dvd_refl] by simp
        then show "v < x \<and> x \<le> hi \<and> step dvd (x - v)" using x v'(2) by simp
      next
        assume x: "v < x \<and> x \<le> hi \<and> step dvd (x - v)"
        then have "step \<le> x - v" by (simp add: dvd_imp_le)
        then have "v + step \<le> x" using x by linarith
        moreover from this x assms(1) have eq: "v' = v + step" by (simp add: v'_def)
        moreover have "step dvd x - v - step" by (rule dvd_diff_nat) (use x in simp_all)
        then have "step dvd x - v'" unfolding eq diff_diff_left .
        ultimately show "x \<in> set vs" using x by (simp add: vs(2))
      qed
      show ?thesis
        by (rule set_eqI, unfold insert_iff iff mem_Collect_eq order_le_less) (use True in fastforce)
    qed
    moreover have "step_values lo hi step v out = Some (out @ (v # vs))"
      using True v'(1) vs(1) by (simp add: step_values.simps [of lo hi step v] v'_def [symmetric])
    ultimately show ?thesis by (metis list.set(2))
  qed
qed

lemma parse_u8: "parse_int 0 255 s = Ok v \<Longrightarrow> 0 \<le> v \<and> v \<le> 255"
  by (rule parse_int_range) auto

text \<open>An element of a field whose range lies below 255 returns, and pushes values of the range only.\<close>

lemma parse_element_spec:
  assumes "mx < 255" "mn \<le> mx"
  shows "\<exists>r. parse_element part mn mx out = Some r \<and>
    (\<forall>out'. r = Ok out' \<longrightarrow> (\<exists>vs. out' = out @ vs \<and> vs \<noteq> [] \<and> set vs \<subseteq> {mn..mx}))"
proof (cases "parse_step part")
  case (Inl e)
  then show ?thesis by (simp add: parse_element_def)
next
  case (Inr rs)
  obtain r st where rs: "rs = (r, st)" by (cases rs)
  have st: "0 < st" using Inr rs
    by (auto simp: parse_step_def split: option.splits sum.splits if_splits dest!: parse_u8)
  have range: "\<exists>r. map_option Ok (step_values a b st a out) = Some r \<and>
      (\<forall>out'. r = Ok out' \<longrightarrow> (\<exists>vs. out' = out @ vs \<and> vs \<noteq> [] \<and> set vs \<subseteq> {mn..mx}))"
    if "mn \<le> a" "a \<le> b" "b \<le> mx" for a b
  proof -
    have "b < 255" using that(3) assms(1) by simp
    then obtain vs where vs: "step_values a b st a out = Some (out @ vs)"
      "set vs = {x. a \<le> x \<and> x \<le> b \<and> st dvd (x - a)}"
      using step_values_spec [OF _ st order_refl] by blast
    have "a \<in> set vs" using that(2) by (simp add: vs(2))
    then show ?thesis using vs that by (intro exI [of _ "Ok (out @ vs)"]) auto
  qed
  show ?thesis
  proof (cases "r = ''*''")
    case True
    with range [of mn mx] Inr rs assms(2) show ?thesis by (simp add: parse_element_def)
  next
    case F: False
    show ?thesis
    proof (cases "split_once CHR ''-'' r")
      case None
      with F Inr rs show ?thesis
        by (cases "parse_num r part")
          (auto simp: parse_element_def check_range_def split: if_splits)
    next
      case (Some ab)
      obtain sa sb where ab: "ab = (sa, sb)" by (cases ab)
      show ?thesis
      proof (cases "parse_num sa part"; cases "parse_num sb part")
        fix a b assume n: "parse_num sa part = Ok a" "parse_num sb part = Ok b"
        show ?thesis
        proof (cases "a \<le> b \<and> mn \<le> a \<and> b \<le> mx")
          case True
          with n F Some Inr rs ab range [of a b] show ?thesis by (simp add: parse_element_def check_range_def)
        next
          case False
          with n F Some Inr rs ab show ?thesis by (auto simp: parse_element_def check_range_def)
        qed
      qed (use F Some Inr rs ab in \<open>auto simp: parse_element_def\<close>)
    qed
  qed
qed

lemma parse_elements_spec:
  assumes "mx < 255" "mn \<le> mx"
  shows "\<exists>r. parse_elements spec parts mn mx out = Some r \<and>
    (\<forall>out'. r = Ok out' \<longrightarrow> (\<exists>vs. out' = out @ vs \<and> (parts \<noteq> [] \<longrightarrow> vs \<noteq> []) \<and> set vs \<subseteq> {mn..mx}))"
proof (induction parts arbitrary: out)
  case (Cons part ps)
  obtain r where r: "parse_element part mn mx out = Some r"
    "\<And>out'. r = Ok out' \<Longrightarrow> (\<exists>vs. out' = out @ vs \<and> vs \<noteq> [] \<and> set vs \<subseteq> {mn..mx})"
    using parse_element_spec [OF assms] by blast
  show ?case
  proof (cases r)
    case (Inr out1)
    obtain vs1 where vs1: "out1 = out @ vs1" "vs1 \<noteq> []" "set vs1 \<subseteq> {mn..mx}" using r(2) [OF Inr] by blast
    obtain r' where "parse_elements spec ps mn mx out1 = Some r'"
      "\<And>out'. r' = Ok out' \<Longrightarrow> (\<exists>vs. out' = out1 @ vs \<and> set vs \<subseteq> {mn..mx})"
      using Cons.IH [of out1] by blast
    with r(1) Inr vs1 show ?thesis by fastforce
  qed (use r(1) in auto)
qed simp

definition field_ok :: "nat \<Rightarrow> nat \<Rightarrow> nat list \<Rightarrow> bool" where
  "field_ok mn mx vs \<longleftrightarrow> vs \<noteq> [] \<and> sorted_wrt (<) vs \<and> set vs \<subseteq> {mn..mx}"

lemma remdups_adj_strict: "sorted xs \<Longrightarrow> sorted_wrt (<) (remdups_adj xs)" for xs :: "nat list"
  by (induction xs rule: remdups_adj.induct) (auto simp: le_less)

lemma parse_field_spec:
  assumes "mx < 255" "mn \<le> mx"
  shows "\<exists>r. parse_field spec mn mx = Some r \<and> (\<forall>vs. r = Ok vs \<longrightarrow> field_ok mn mx vs)"
proof -
  obtain r where r: "parse_elements spec (split_on CHR '','' spec) mn mx [] = Some r"
    "\<And>out'. r = Ok out' \<Longrightarrow> out' \<noteq> [] \<and> set out' \<subseteq> {mn..mx}"
    using parse_elements_spec [OF assms, of spec "split_on CHR '','' spec" "[]"] by auto
  have "field_ok mn mx (remdups_adj (sort vs))" if "r = Ok vs" for vs
    using r(2) [OF that] remdups_adj_strict [of "sort vs"] by (auto simp: field_ok_def dest: arg_cong [where f = set])
  with r(1) show ?thesis by (cases r) (auto simp: parse_field_def)
qed

definition schedule_ok :: "cron_schedule \<Rightarrow> bool" where
  "schedule_ok s \<longleftrightarrow> field_ok 0 59 (cs_minute s) \<and> field_ok 0 23 (cs_hour s) \<and> field_ok 1 31 (cs_dom s) \<and>
     field_ok 1 12 (cs_month s) \<and> field_ok 0 6 (cs_dow s) \<and>
     (\<not> cs_dom_restricted s \<longrightarrow> set (cs_dom s) = {1..31}) \<and> (\<not> cs_dow_restricted s \<longrightarrow> set (cs_dow s) = {0..6})"

lemma parse_field_star:
  assumes "mx < 255" "mn \<le> mx"
  shows "\<exists>vs. parse_field ''*'' mn mx = Some (Ok vs) \<and> set vs = {mn..mx}"
proof -
  obtain vs where vs1: "step_values mn mx 1 mn [] = Some vs" "set vs = {x. mn \<le> x \<and> x \<le> mx}"
    using step_values_spec [of mx 1 mn mn "[]"] assms by auto
  then have vs: "step_values mn mx 1 mn [] = Some vs" "set vs = {mn..mx}" by (simp_all add: set_eq_iff)
  have "parse_elements ''*'' [''*''] mn mx [] = Some (Ok vs)"
    using vs(1) by (simp add: parse_element_def parse_step_def)
  moreover have "list_all field_char ''*''" "split_on CHR '','' ''*'' = [''*'']" by (simp_all add: field_char_def)
  ultimately show ?thesis using vs(2) unfolding parse_field_def by simp
qed

lemma and_then_total:
  assumes "\<exists>r. m = Some r \<and> (\<forall>v. r = Ok v \<longrightarrow> P v)"
    "\<And>v. P v \<Longrightarrow> m = Some (Ok v) \<Longrightarrow> \<exists>r. f v = Some r \<and> (\<forall>w. r = Ok w \<longrightarrow> Q w)"
  shows "\<exists>r. and_then m f = Some r \<and> (\<forall>w. r = Ok w \<longrightarrow> Q w)"
  using assms by (auto simp: and_then_def split: sum.splits)

lemma cron_parse_spec:
  "\<exists>r. cron_parse expr = Some r \<and> (\<forall>s. r = Ok s \<longrightarrow> schedule_ok s)"
proof -
  let ?f = "split_whitespace expr"
  have star: "set vs = {mn..mx}" if "parse_field spec mn mx = Some (Ok vs)" "spec = ''*''" "mx < 255" "mn \<le> mx"
    for spec mn mx vs using parse_field_star [OF that(3,4)] that(1,2) by auto
  have "\<exists>r. and_then (parse_field (?f ! 0) 0 59) (\<lambda>mi.
        and_then (parse_field (?f ! 1) 0 23) (\<lambda>ho.
        and_then (parse_field (?f ! 2) 1 31) (\<lambda>dom.
        and_then (parse_field (?f ! 3) 1 12) (\<lambda>mo.
        and_then (parse_field (?f ! 4) 0 6) (\<lambda>dow.
          Some (Ok \<lparr>cs_minute = mi, cs_hour = ho, cs_dom = dom, cs_month = mo, cs_dow = dow,
            cs_dom_restricted = (?f ! 2 \<noteq> ''*''), cs_dow_restricted = (?f ! 4 \<noteq> ''*'')\<rparr>)))))) = Some r \<and>
      (\<forall>s. r = Ok s \<longrightarrow> schedule_ok s)"
    apply (rule and_then_total [OF parse_field_spec], simp, simp)+
    subgoal premises p for mi ho dom mo dow
    proof -
      have "?f ! 2 = ''*'' \<longrightarrow> set dom = {1..31}" "?f ! 4 = ''*'' \<longrightarrow> set dow = {0..6}"
        using star [OF p(6)] star [OF p(10)] by simp_all
      with p show ?thesis by (simp add: schedule_ok_def)
    qed
    done
  then show ?thesis by (simp add: cron_parse_def Let_def)
qed

section \<open>Ticks are the instants of the calendar that match\<close>

lemma from_unix_secs_date:
  assumes "0 \<le> secs"
  shows "(cv_year (from_unix_secs secs), cv_month (from_unix_secs secs), cv_day (from_unix_secs secs)) =
    civil_from_days (secs div 86400)"
proof -
  have "0 \<le> secs div 86400 + 719468" using assms by simp
  then show ?thesis
    unfolding from_unix_secs_def civil_from_days_def Let_def civil.select_convs by (simp only: if_True)
qed

definition day_rule :: "cron_schedule \<Rightarrow> int \<Rightarrow> int \<Rightarrow> bool" where
  "day_rule s d weekday \<longleftrightarrow>
     (if cs_dom_restricted s \<and> cs_dow_restricted s
      then nat d \<in> set (cs_dom s) \<or> nat weekday \<in> set (cs_dow s)
      else (cs_dom_restricted s \<longrightarrow> nat d \<in> set (cs_dom s)) \<and> (cs_dow_restricted s \<longrightarrow> nat weekday \<in> set (cs_dow s)))"

lemma matches_iff:
  "matches s c \<longleftrightarrow> nat (cv_minute c) \<in> set (cs_minute s) \<and> nat (cv_hour c) \<in> set (cs_hour s) \<and>
     nat (cv_month c) \<in> set (cs_month s) \<and> day_rule s (cv_day c) (cv_dow c)"
  by (auto simp: matches_def day_rule_def split: bool.splits)

text \<open>The minute number of a date and time of day.\<close>

definition minute_of :: "int \<Rightarrow> int \<Rightarrow> int \<Rightarrow> int \<Rightarrow> int \<Rightarrow> int" where
  "minute_of y mo d h mi = 1440 * days_from_civil y mo d + 60 * h + mi"

lemma fires_date:
  assumes "valid_date y mo d" "0 \<le> h" "h < 24" "0 \<le> mi" "mi < 60" "int m = minute_of y mo d h mi"
  shows "fires s m \<longleftrightarrow> nat mi \<in> set (cs_minute s) \<and> nat h \<in> set (cs_hour s) \<and> nat mo \<in> set (cs_month s) \<and>
    day_rule s d ((days_from_civil y mo d + 4) mod 7)"
proof -
  define secs where "secs = int (m * SECS_PER_MINUTE)"
  define n where "n = days_from_civil y mo d"
  have s: "secs = 86400 * n + (3600 * h + 60 * mi)"
    using assms(6) by (simp add: secs_def minute_of_def n_def SECS_PER_MINUTE_def)
  have r: "0 \<le> 3600 * h + 60 * mi" "3600 * h + 60 * mi < 86400" using assms(2-5) by simp_all
  have q: "secs div 86400 = n" "secs mod 86400 = 3600 * h + 60 * mi"
    unfolding s using r by (simp_all add: div_pos_pos_trivial mod_pos_pos_trivial)
  have "0 \<le> secs" by (simp add: secs_def)
  then have n0: "0 \<le> n" using q(1) pos_imp_zdiv_nonneg_iff [of 86400 secs] by simp
  have hm: "(3600 * h + 60 * mi) div 3600 = h" "(3600 * h + 60 * mi) mod 3600 = 60 * mi"
    using assms(4,5) by (simp_all add: div_pos_pos_trivial mod_pos_pos_trivial)
  have date: "(cv_year (from_unix_secs secs), cv_month (from_unix_secs secs), cv_day (from_unix_secs secs)) = (y, mo, d)"
    using from_unix_secs_date [of secs] civil_from_days_inverse [OF assms(1)] n0 q(1)
    by (simp add: n_def secs_def)
  have time: "cv_hour (from_unix_secs secs) = h" "cv_minute (from_unix_secs secs) = mi"
      "cv_dow (from_unix_secs secs) = (n + 4) mod 7"
    unfolding from_unix_secs_def Let_def civil.select_convs q hm by (simp_all add: mod_simps)
  show ?thesis
    using date time unfolding fires_def secs_def [symmetric] matches_iff n_def by simp
qed

section \<open>The searches\<close>

lemma all_from: "(\<forall>j. m \<le> j \<and> Q j \<longrightarrow> P j) \<longleftrightarrow> (Q m \<longrightarrow> P m) \<and> (\<forall>j. m + 1 \<le> j \<and> Q j \<longrightarrow> P j)" for m :: nat
proof -
  have "m \<le> j \<longleftrightarrow> j = m \<or> m + 1 \<le> j" for j by auto
  then show ?thesis by auto
qed

lemma scan_forward_Some:
  "scan_forward s m n = Some k \<longleftrightarrow> m \<le> k \<and> k < m + n \<and> fires s k \<and> (\<forall>j. m \<le> j \<and> j < k \<longrightarrow> \<not> fires s j)"
proof (induction s m n rule: scan_forward.induct)
  case (2 s m n)
  show ?case
  proof (cases "fires s m")
    case False
    have "(\<forall>j. m \<le> j \<and> j < k \<longrightarrow> \<not> fires s j) \<longleftrightarrow> (\<forall>j. m + 1 \<le> j \<and> j < k \<longrightarrow> \<not> fires s j)"
      using False all_from [of m "\<lambda>j. j < k" "\<lambda>j. \<not> fires s j"] by simp
    with 2 False show ?thesis by (auto simp: Suc_le_eq order_le_less)
  qed (auto simp: order_le_less)
qed auto

lemma scan_forward_None: "scan_forward s m n = None \<longleftrightarrow> (\<forall>j. m \<le> j \<and> j < m + n \<longrightarrow> \<not> fires s j)"
proof (induction s m n rule: scan_forward.induct)
  case (2 s m n)
  show ?case
  proof (cases "fires s m")
    case False
    have "(\<forall>j. m \<le> j \<and> j < m + Suc n \<longrightarrow> \<not> fires s j) \<longleftrightarrow> (\<forall>j. m + 1 \<le> j \<and> j < m + 1 + n \<longrightarrow> \<not> fires s j)"
      using False all_from [of m "\<lambda>j. j < m + Suc n" "\<lambda>j. \<not> fires s j"] by simp
    with 2 False show ?thesis by simp
  qed auto
qed auto

lemma scan_back_Some:
  "scan_back s m n = Some k \<longleftrightarrow> k \<le> m \<and> m < k + n \<and> fires s k \<and> (\<forall>j. k < j \<and> j \<le> m \<longrightarrow> \<not> fires s j)"
proof (induction s m n rule: scan_back.induct)
  case (2 s m n)
  show ?case
  proof (cases "fires s m")
    case True
    then show ?thesis by (auto simp: order_le_less)
  next
    case False
    show ?thesis
    proof (cases m)
      case (Suc m')
      have "(\<forall>j. k < j \<and> j \<le> m \<longrightarrow> \<not> fires s j) \<longleftrightarrow> (\<forall>j. k < j \<and> j \<le> m' \<longrightarrow> \<not> fires s j)"
        using False Suc by (metis le_Suc_eq)
      with 2 False Suc show ?thesis by (auto simp: le_Suc_eq)
    qed (use False in auto)
  qed
qed auto

lemma scan_back_None: "scan_back s m n = None \<longleftrightarrow> (\<forall>j. j \<le> m \<and> m < j + n \<longrightarrow> \<not> fires s j)"
proof (induction s m n rule: scan_back.induct)
  case (2 s m n)
  show ?case
  proof (cases "fires s m")
    case False
    show ?thesis
    proof (cases m)
      case (Suc m')
      have "(\<forall>j. j \<le> m \<and> m < j + Suc n \<longrightarrow> \<not> fires s j) \<longleftrightarrow> (\<forall>j. j \<le> m' \<and> m' < j + n \<longrightarrow> \<not> fires s j)"
        using False Suc by (metis Suc_less_eq add_Suc_right le_SucI le_Suc_eq)
      with 2 False Suc show ?thesis by simp
    qed (use False in auto)
  qed auto
qed auto

lemma minute_time_le: "minute_time k \<le> t \<longleftrightarrow> k \<le> t div NANOS div SECS_PER_MINUTE"
  by (simp add: minute_time_def NANOS_def SECS_PER_MINUTE_def div_mult2_eq [symmetric] less_eq_div_iff_mult_less_eq mult.assoc)

lemma less_minute_time: "t < minute_time k \<longleftrightarrow> t div NANOS div SECS_PER_MINUTE + 1 \<le> k"
  using minute_time_le [of k t] by linarith

lemma minute_time_add: "minute_time (a + b) = minute_time a + minute_time b"
  by (simp add: minute_time_def algebra_simps)

lemma minute_time_less [simp]: "minute_time j < minute_time k \<longleftrightarrow> j < k" "minute_time j \<le> minute_time k \<longleftrightarrow> j \<le> k"
  by (simp_all add: minute_time_def NANOS_def SECS_PER_MINUTE_def)

text \<open>Polling: what a leader fires that polls at the given instants and records each fire.\<close>

fun polls :: "cron_schedule \<Rightarrow> system_time option \<Rightarrow> system_time list \<Rightarrow> (system_time \<times> system_time option) list" where
  "polls s lf0 [] = []"
| "polls s lf0 (now # ns) =
     (case due_fire s lf0 now of
        None \<Rightarrow> (now, None) # polls s lf0 ns
      | Some f \<Rightarrow> (now, Some f) # polls s (Some f) ns)"

definition fired :: "cron_schedule \<Rightarrow> system_time option \<Rightarrow> system_time list \<Rightarrow> system_time list" where
  "fired s lf0 nows = List.map_filter snd (polls s lf0 nows)"

lemma prev_Some:
  "prev_at_or_before s t = Some f \<longleftrightarrow>
     (\<exists>k. f = minute_time k \<and> fires s k \<and> f \<le> t \<and> t div NANOS div SECS_PER_MINUTE < k + SEARCH_BOUND_MINUTES \<and>
        (\<forall>j. k < j \<and> minute_time j \<le> t \<longrightarrow> \<not> fires s j))"
  unfolding prev_at_or_before_def map_option_eq_Some scan_back_Some minute_time_le
  by (auto simp: minute_time_le)

lemma prev_in_minute:
  assumes "fires s k" "d < minute_time 1"
  shows "prev_at_or_before s (minute_time k + d) = Some (minute_time k)"
proof -
  have t: "minute_time k + d < minute_time (k + 1)" using assms(2) by (simp only: minute_time_add)
  then have "(minute_time k + d) div NANOS div SECS_PER_MINUTE < k + SEARCH_BOUND_MINUTES"
    unfolding less_minute_time by (simp add: SEARCH_BOUND_MINUTES_def MINUTES_PER_DAY_def)
  moreover have "\<not> minute_time j \<le> minute_time k + d" if "k < j" for j
  proof -
    have "minute_time (k + 1) \<le> minute_time j" using that by simp
    with t show ?thesis by linarith
  qed
  ultimately show ?thesis using assms(1) by (auto simp: prev_Some)
qed

lemma due_fire_newer:
  assumes "due_fire s lf0 now = Some f"
  shows "f \<le> now" "\<And>lf. lf0 = Some lf \<Longrightarrow> lf < f" "prev_at_or_before s now = Some f"
  using assms by (auto simp: due_fire_def prev_Some split: option.splits if_splits)

lemma fired_strict:
  "sorted_wrt (<) (fired s lf0 nows) \<and> (\<forall>f \<in> set (fired s lf0 nows). \<forall>lf. lf0 = Some lf \<longrightarrow> lf < f)"
proof (induction s lf0 nows rule: polls.induct)
  case (2 s lf0 now ns)
  show ?case
  proof (cases "due_fire s lf0 now")
    case None
    with 2(1) [OF None] show ?thesis by (auto simp: fired_def map_filter_simps)
  next
    case (Some f)
    note due = due_fire_newer [OF Some]
    from Some have "fired s lf0 (now # ns) = f # fired s (Some f) ns" by (simp add: fired_def map_filter_simps)
    with 2(2) [OF Some] due(2) show ?thesis by fastforce
  qed
qed (simp add: fired_def map_filter_simps)

lemma fired_ticks:
  "f \<in> set (fired s lf0 nows) \<Longrightarrow> \<exists>k. f = minute_time k \<and> fires s k \<and> (\<exists>now \<in> set nows. f \<le> now)"
proof (induction s lf0 nows rule: polls.induct)
  case (2 s lf0 now ns)
  show ?case
  proof (cases "due_fire s lf0 now")
    case None
    with 2(1) [OF None] 2(3) show ?thesis by (auto simp: fired_def map_filter_simps)
  next
    case (Some f')
    from Some have "fired s lf0 (now # ns) = f' # fired s (Some f') ns" by (simp add: fired_def map_filter_simps)
    with 2(2) [OF Some] 2(3) due_fire_newer [OF Some] show ?thesis by (auto simp: prev_Some)
  qed
qed (simp add: fired_def map_filter_simps)

lemma fired_current:
  assumes "nows \<noteq> []" "prev_at_or_before s (last nows) = Some f" "\<forall>lf. lf0 = Some lf \<longrightarrow> lf < f"
  shows "\<exists>g \<in> set (fired s lf0 nows). f \<le> g"
  using assms
proof (induction s lf0 nows rule: polls.induct)
  case (2 s lf0 now ns)
  show ?case
  proof (cases "due_fire s lf0 now")
    case None
    with 2(3-) have "ns \<noteq> []" by (auto simp: due_fire_def split: option.splits if_splits)
    with None 2(1) [OF None] 2(4,5) show ?thesis by (simp add: fired_def map_filter_simps)
  next
    case (Some f')
    from Some have eq: "fired s lf0 (now # ns) = f' # fired s (Some f') ns" by (simp add: fired_def map_filter_simps)
    show ?thesis
    proof (cases "f \<le> f'")
      case False
      with due_fire_newer(3) [OF Some] 2(4) have "ns \<noteq> []" by auto
      with False 2(2) [OF Some] 2(4) show ?thesis by (simp add: eq)
    qed (simp add: eq)
  qed
qed simp

lemma sorted_last_max: "sorted xs \<Longrightarrow> x \<in> set xs \<Longrightarrow> x \<le> last xs" for xs :: "nat list"
  by (induction xs) auto

section \<open>Properties\<close>

text \<open>Parsing a cron expression always returns, and what it accepts is well formed. Every field of
  an accepted schedule is a non-empty, strictly increasing list of values of the field's range, and a
  day field that is not restricted admits every day.\<close>

lemma cron_parse_total:
  "\<exists>r. cron_parse expr = Some r \<and> (case r of Ok s \<Rightarrow> schedule_ok s | Err _ \<Rightarrow> True)"
  using cron_parse_spec [of expr] by (auto split: sum.splits)

text \<open>A minute is a tick exactly when its date and time match. For every valid date from the epoch
  on and every time of day, the schedule fires in that minute exactly if minute, hour and month are
  listed and the day matches: by day of month, by weekday, or by either one when both are
  restricted.\<close>

lemma cron_fires_on_dates:
  assumes "valid_date y mo d" "0 \<le> h" "h < 24" "0 \<le> mi" "mi < 60" "int m = minute_of y mo d h mi"
  shows "fires s m \<longleftrightarrow> nat mi \<in> set (cs_minute s) \<and> nat h \<in> set (cs_hour s) \<and> nat mo \<in> set (cs_month s) \<and>
    day_rule s d ((days_from_civil y mo d + 4) mod 7)"
  by (rule fires_date [OF assms])

text \<open>The two searches are exact within their window. \<open>next_after\<close> is the first tick strictly after
  the instant, or \<open>never\<close> when no minute of the window is a tick; \<open>prev_at_or_before\<close> is the last
  tick at or before the instant, or \<open>None\<close> when the window holds none.\<close>

lemma cron_searches_exact:
  "((\<exists>k. next_after s t = minute_time k \<and> fires s k \<and> t < minute_time k \<and>
        (\<forall>j. t < minute_time j \<and> fires s j \<longrightarrow> k \<le> j)) \<or>
    next_after s t = never \<and>
        (\<forall>j. t < minute_time j \<and> minute_time j \<le> t + minute_time SEARCH_BOUND_MINUTES \<longrightarrow> \<not> fires s j)) \<and>
   (case prev_at_or_before s t of
      Some f \<Rightarrow> \<exists>k. f = minute_time k \<and> fires s k \<and> f \<le> t \<and> (\<forall>j. minute_time j \<le> t \<and> fires s j \<longrightarrow> j \<le> k)
    | None \<Rightarrow> \<forall>j. minute_time j \<le> t \<and> t < minute_time j + minute_time SEARCH_BOUND_MINUTES \<longrightarrow> \<not> fires s j)"
proof -
  define q where "q = t div NANOS div SECS_PER_MINUTE"
  have fwd: "minute_time j \<le> t + minute_time B \<longleftrightarrow> j \<le> q + B" for j B
  proof (cases "j \<le> B")
    case True
    then show ?thesis by (simp add: trans_le_add2)
  next
    case False
    then have "minute_time j = minute_time (j - B) + minute_time B" by (simp flip: minute_time_add)
    with False minute_time_le [of "j - B" t] show ?thesis by (simp add: q_def le_diff_conv)
  qed
  have bwd: "t < minute_time j + minute_time B \<longleftrightarrow> q < j + B" for j B
    using less_minute_time [of t "j + B"] by (simp add: q_def minute_time_add Suc_le_eq)
  have up: "t < minute_time j \<longleftrightarrow> q + 1 \<le> j" and down: "minute_time j \<le> t \<longleftrightarrow> j \<le> q" for j
    by (simp_all only: less_minute_time minute_time_le q_def)
  have next_ok: "(\<exists>k. next_after s t = minute_time k \<and> fires s k \<and> q + 1 \<le> k \<and>
        (\<forall>j. q + 1 \<le> j \<and> fires s j \<longrightarrow> k \<le> j)) \<or>
      next_after s t = never \<and> (\<forall>j. q + 1 \<le> j \<and> j \<le> q + SEARCH_BOUND_MINUTES \<longrightarrow> \<not> fires s j)"
  proof (cases "scan_forward s (q + 1) SEARCH_BOUND_MINUTES")
    case None
    then have "next_after s t = never" by (simp only: next_after_def q_def option.case)
    with None show ?thesis unfolding scan_forward_None by auto
  next
    case (Some k)
    then have n: "next_after s t = minute_time k" by (simp only: next_after_def q_def option.case)
    from Some show ?thesis unfolding scan_forward_Some by (intro disjI1 exI [of _ k]) (use n not_le in blast)
  qed
  have prev_ok: "case prev_at_or_before s t of
      Some f \<Rightarrow> \<exists>k. f = minute_time k \<and> fires s k \<and> f \<le> t \<and> (\<forall>j. j \<le> q \<and> fires s j \<longrightarrow> j \<le> k)
    | None \<Rightarrow> \<forall>j. j \<le> q \<and> q < j + SEARCH_BOUND_MINUTES \<longrightarrow> \<not> fires s j"
  proof (cases "scan_back s q SEARCH_BOUND_MINUTES")
    case None
    then have "prev_at_or_before s t = None" by (simp only: prev_at_or_before_def q_def option.map)
    with None show ?thesis unfolding scan_back_None by simp
  next
    case (Some k)
    then have p: "prev_at_or_before s t = Some (minute_time k)" by (simp only: prev_at_or_before_def q_def option.map)
    from Some show ?thesis unfolding p option.case scan_back_Some
      by (intro exI [of _ k]) (use down not_le in blast)
  qed
  show ?thesis unfolding up fwd down bwd using next_ok prev_ok unfolding up down by (rule conjI)
qed

definition every_minute :: cron_schedule where
  "every_minute = \<lparr>cs_minute = [0..<60], cs_hour = [0..<24], cs_dom = [1..<32], cs_month = [1..<13], cs_dow = [0..<7],
     cs_dom_restricted = False, cs_dow_restricted = False\<rparr>"

text \<open>Cron fires every tick at most once and skips what it missed. A leader that polls at any
  instants and records what it fired fires only ticks that are due, in strictly increasing order, so
  none twice; and after polls in time order the most recent tick has been fired, unless it had been
  before, however many ticks were missed in between.\<close>

lemma cron_skip_missed:
  assumes "sorted nows"
  shows "sorted_wrt (<) (fired s lf0 nows) \<and>
    (\<forall>f \<in> set (fired s lf0 nows). (\<exists>k. f = minute_time k \<and> fires s k \<and> (\<exists>now \<in> set nows. f \<le> now)) \<and>
       (\<forall>lf. lf0 = Some lf \<longrightarrow> lf < f)) \<and>
    (\<forall>f. nows \<noteq> [] \<and> prev_at_or_before s (last nows) = Some f \<and> (\<forall>lf. lf0 = Some lf \<longrightarrow> lf < f) \<longrightarrow>
      f \<in> set (fired s lf0 nows))"
proof (intro conjI allI impI ballI)
  show "sorted_wrt (<) (fired s lf0 nows)" using fired_strict by blast
  show "lf < f" if "f \<in> set (fired s lf0 nows)" "lf0 = Some lf" for f lf using fired_strict that by blast
  show "\<exists>k. f = minute_time k \<and> fires s k \<and> (\<exists>now \<in> set nows. f \<le> now)" if "f \<in> set (fired s lf0 nows)" for f
    using fired_ticks [OF that] .
  fix f assume a: "nows \<noteq> [] \<and> prev_at_or_before s (last nows) = Some f \<and> (\<forall>lf. lf0 = Some lf \<longrightarrow> lf < f)"
  then obtain g where g: "g \<in> set (fired s lf0 nows)" "f \<le> g" using fired_current by blast
  then obtain k now where k: "g = minute_time k" "fires s k" "now \<in> set nows" "g \<le> now"
    using fired_ticks by blast
  have "g \<le> last nows" using sorted_last_max [OF assms k(3)] k(4) by simp
  with k a have "g \<le> f" by (auto simp: prev_Some not_less [symmetric])
  with g show "f \<in> set (fired s lf0 nows)" by simp
qed

section \<open>The leap-day gap\<close>

definition leap_day_schedule :: cron_schedule where
  "leap_day_schedule = \<lparr>cs_minute = [0], cs_hour = [0], cs_dom = [29], cs_month = [2], cs_dow = [0, 1, 2, 3, 4, 5, 6],
     cs_dom_restricted = True, cs_dow_restricted = False\<rparr>"

lemma leap_day_fires:
  assumes "fires leap_day_schedule j"
  shows "\<exists>y. leap y \<and> int j * 60 div 86400 = days_from_civil y 2 29"
proof -
  define n where "n = int (j * SECS_PER_MINUTE) div 86400"
  obtain y m d where c: "civil_from_days n = (y, m, d)" by (metis prod.exhaust)
  have n: "0 \<le> n" by (simp add: n_def pos_imp_zdiv_nonneg_iff)
  have "(cv_year (from_unix_secs (int (j * SECS_PER_MINUTE))), cv_month (from_unix_secs (int (j * SECS_PER_MINUTE))),
      cv_day (from_unix_secs (int (j * SECS_PER_MINUTE)))) = (y, m, d)"
    using from_unix_secs_date [of "int (j * SECS_PER_MINUTE)"] c by (simp add: n_def)
  with assms have "nat m = 2" "nat d = 29"
    by (auto simp: fires_def matches_iff day_rule_def leap_day_schedule_def)
  then have md: "m = 2" "d = 29" by linarith+
  with civil_from_days_spec [OF n] c show ?thesis
    by (auto simp: month_length_def n_def SECS_PER_MINUTE_def split: if_splits)
qed

lemma no_leap_day:
  assumes "leap y" "days_from_civil 2096 3 1 \<le> days_from_civil y 2 29"
  shows "days_from_civil 2096 3 1 + 1464 < days_from_civil y 2 29"
proof -
  have d: "days_from_civil 2096 3 1 = 46081" "days_from_civil 2096 2 29 = 46080" "days_from_civil 2104 2 29 = 49001"
    by code_simp+
  have m: "days_from_civil a 2 29 \<le> days_from_civil b 2 29" if "a \<le> b" for a b
    using year_start_mono [of "a - 1" "b - 1"] that by (simp add: days_from_civil_alt march_year_def)
  have "2096 < y" using m [of y 2096] assms(2) d by linarith
  moreover have "\<not> leap z" if "z \<in> {2097, 2098, 2099, 2100, 2101, 2102, 2103}" for z using that by (auto simp: leap_def)
  moreover have "y \<in> {2097, 2098, 2099, 2100, 2101, 2102, 2103}" if "2096 < y" "\<not> 2104 \<le> y"
    using that unfolding insert_iff empty_iff by presburger
  ultimately have "2104 \<le> y" using assms(1) by blast
  then show ?thesis using m [of 2104 y] d by linarith
qed

text \<open>The search bound of four years misses leap days around 2100. For the schedule
  \<open>0 0 29 2 *\<close> and the instant 2096-03-01 00:00, the next tick is 2104-02-29 00:00, yet
  \<open>next_after\<close> answers \<open>never\<close>.\<close>

lemma leap_day_gap:
  "cron_parse ''0 0 29 2 *'' = Some (Ok leap_day_schedule) \<and>
   fires leap_day_schedule (nat (minute_of 2104 2 29 0 0)) \<and>
   next_after leap_day_schedule (minute_time (nat (minute_of 2096 3 1 0 0))) = never"
proof (intro conjI)
  have d: "days_from_civil 2096 3 1 = 46081" "days_from_civil 2104 2 29 = 49001" by code_simp+
  have "split_whitespace ''0 0 29 2 *'' = [''0'', ''0'', ''29'', ''2'', ''*'']"
    by (simp add: split_whitespace_def strip_one_space strip_one_visible byte_in_def)
  moreover have "parse_field ''0'' 0 59 = Some (Ok [0])" "parse_field ''0'' 0 23 = Some (Ok [0])"
    "parse_field ''29'' 1 31 = Some (Ok [29])" "parse_field ''2'' 1 12 = Some (Ok [2])"
    "parse_field ''*'' 0 6 = Some (Ok [0, 1, 2, 3, 4, 5, 6])" by code_simp+
  ultimately show "cron_parse ''0 0 29 2 *'' = Some (Ok leap_day_schedule)"
    by (simp add: cron_parse_def and_then_def leap_day_schedule_def)
  have "valid_date 2104 2 29" by code_simp
  then show "fires leap_day_schedule (nat (minute_of 2104 2 29 0 0))"
    by (subst fires_date [of 2104 2 29 0 0]) (simp_all add: leap_day_schedule_def day_rule_def minute_of_def d)
  define q where "q = nat (minute_of 2096 3 1 0 0)"
  have q: "q = 66356640" by (simp add: q_def minute_of_def d)
  have "\<not> fires leap_day_schedule j" if "q + 1 \<le> j \<and> j < q + 1 + SEARCH_BOUND_MINUTES" for j
  proof
    assume "fires leap_day_schedule j"
    from leap_day_fires [OF this] obtain y where y: "leap y" "int j * 60 div 86400 = days_from_civil y 2 29" by blast
    have "46081 \<le> int j * 60 div 86400" "int j * 60 div 86400 \<le> 46081 + 1464"
      using that zdiv_mono1 [of 66356641 "int j" 1440] zdiv_mono1 [of "int j" 68464800 1440]
      by (simp_all add: q SEARCH_BOUND_MINUTES_def MINUTES_PER_DAY_def)
    with no_leap_day [OF y(1)] d y(2) show False by simp
  qed
  then have "scan_forward leap_day_schedule (q + 1) SEARCH_BOUND_MINUTES = None"
    by (simp only: scan_forward_None) blast
  moreover have "minute_time q div NANOS div SECS_PER_MINUTE = q"
    by (simp add: minute_time_def NANOS_def SECS_PER_MINUTE_def)
  ultimately show "next_after leap_day_schedule (minute_time (nat (minute_of 2096 3 1 0 0))) = never"
    unfolding next_after_def q_def [symmetric] by (simp only: option.case)
qed

end
