(* ===== verification/JC_JobStore.thy ===== *)
theory JC_JobStore
  imports JC_Error JC_Cron "HOL-Library.Product_Lexorder"
begin

text \<open>
  The job store, \<open>jerrycan-jobs/src/store.rs\<close>: job rows, the enqueue builder, and the in-memory
  reference store. Every operation holds the store's mutex for its whole body, so an operation is one
  atomic step and concurrent workers are interleavings of operations.

  The \<open>HashMap\<close> of rows is an association list in order of insertion; the operations that read it as
  a whole sort what they read by a key that is unique, so the order cannot be observed. Identifiers
  are integers (the \<open>AtomicI64\<close> starts at 1); instants and durations are nanoseconds. The \<open>u32\<close>
  attempt counter grows by one per lease and stays far below its bound.

  The locale \<open>job_store\<close> is the contract of the trait \<open>JobStore\<close>; a store may fail, and the laws say
  what a successful operation did. \<open>mem\<close> is its interpretation on the in-memory store.
\<close>

section \<open>Rows and requests\<close>

definition DEFAULT_MAX_ATTEMPTS :: nat where "DEFAULT_MAX_ATTEMPTS = 5"

datatype job_status = StPending | StLeased | StDone | StDead

record job =
  j_id :: int
  j_name :: str
  j_queue :: str
  j_payload :: json
  j_run_at :: system_time
  j_attempts :: nat
  j_max_attempts :: nat
  j_status :: job_status
  j_idempotency_key :: "str option"
  j_lease_expires_at :: "system_time option"
  j_created_at :: system_time

record new_job =
  n_name :: str
  n_queue :: str
  n_payload :: json
  n_run_at :: "system_time option"
  n_idempotency_key :: "str option"
  n_max_attempts :: "nat option"

definition new_job_new :: "str \<Rightarrow> str \<Rightarrow> new_job" where
  "new_job_new name queue = \<lparr>n_name = name, n_queue = queue, n_payload = JNull, n_run_at = None,
     n_idempotency_key = None, n_max_attempts = None\<rparr>"

definition with_payload :: "json \<Rightarrow> new_job \<Rightarrow> new_job" where "with_payload v n = n\<lparr>n_payload := v\<rparr>"
definition with_run_at :: "system_time \<Rightarrow> new_job \<Rightarrow> new_job" where "with_run_at at n = n\<lparr>n_run_at := Some at\<rparr>"
definition with_idempotency_key :: "str \<Rightarrow> new_job \<Rightarrow> new_job" where
  "with_idempotency_key k n = n\<lparr>n_idempotency_key := Some k\<rparr>"
definition with_max_attempts :: "nat \<Rightarrow> new_job \<Rightarrow> new_job" where
  "with_max_attempts m n = n\<lparr>n_max_attempts := Some m\<rparr>"

datatype enqueue_outcome = Inserted int | Duplicate int

section \<open>The in-memory store\<close>

record mem_jobs =
  mj_jobs :: "(int \<times> job) list"
  mj_keys :: "str \<Rightarrow> int option"
  mj_next_id :: int

definition mem_jobs_new :: mem_jobs where
  "mem_jobs_new = \<lparr>mj_jobs = [], mj_keys = (\<lambda>_. None), mj_next_id = 1\<rparr>"

definition fresh_row :: "int \<Rightarrow> new_job \<Rightarrow> system_time \<Rightarrow> job" where
  "fresh_row i n now =
     \<lparr>j_id = i, j_name = n_name n, j_queue = n_queue n, j_payload = n_payload n,
      j_run_at = (case n_run_at n of None \<Rightarrow> now | Some t \<Rightarrow> t), j_attempts = 0,
      j_max_attempts = (case n_max_attempts n of None \<Rightarrow> DEFAULT_MAX_ATTEMPTS | Some m \<Rightarrow> m),
      j_status = StPending, j_idempotency_key = n_idempotency_key n, j_lease_expires_at = None,
      j_created_at = now\<rparr>"

definition mem_enqueue :: "new_job \<Rightarrow> system_time \<Rightarrow> mem_jobs \<Rightarrow> (error, enqueue_outcome) result \<times> mem_jobs" where
  "mem_enqueue n now s =
     (case (case n_idempotency_key n of None \<Rightarrow> None | Some k \<Rightarrow> mj_keys s k) of
        Some existing \<Rightarrow> (Ok (Duplicate existing), s)
      | None \<Rightarrow>
          (let i = mj_next_id s in
           (Ok (Inserted i),
            s\<lparr>mj_next_id := i + 1,
              mj_keys := (case n_idempotency_key n of None \<Rightarrow> mj_keys s | Some k \<Rightarrow> (mj_keys s)(k \<mapsto> i)),
              mj_jobs := mj_jobs s @ [(i, fresh_row i n now)]\<rparr>)))"

definition is_due :: "str \<Rightarrow> system_time \<Rightarrow> job \<Rightarrow> bool" where
  "is_due queue now j \<longleftrightarrow>
     j_queue j = queue \<and>
     (case j_status j of
        StPending \<Rightarrow> j_run_at j \<le> now
      | StLeased \<Rightarrow> (case j_lease_expires_at j of None \<Rightarrow> False | Some e \<Rightarrow> e < now)
      | StDone \<Rightarrow> False
      | StDead \<Rightarrow> False)"

definition claim_key :: "job \<Rightarrow> system_time \<times> int" where
  "claim_key j = (j_run_at j, j_id j)"

definition claim :: "system_time \<Rightarrow> nat \<Rightarrow> job \<Rightarrow> job" where
  "claim now lease j =
     j\<lparr>j_status := StLeased, j_lease_expires_at := Some (now + lease), j_attempts := j_attempts j + 1\<rparr>"

text \<open>Replacing the row of one identifier, as \<open>get_mut\<close> allows.\<close>

definition update_row :: "int \<Rightarrow> (job \<Rightarrow> job) \<Rightarrow> mem_jobs \<Rightarrow> mem_jobs" where
  "update_row i f s = s\<lparr>mj_jobs := map (\<lambda>(k, j). if k = i then (k, f j) else (k, j)) (mj_jobs s)\<rparr>"

definition mem_due :: "str \<Rightarrow> system_time \<Rightarrow> mem_jobs \<Rightarrow> job list" where
  "mem_due queue now s = sort_key claim_key (filter (is_due queue now) (map snd (mj_jobs s)))"

definition mem_lease ::
  "str \<Rightarrow> system_time \<Rightarrow> nat \<Rightarrow> nat \<Rightarrow> mem_jobs \<Rightarrow> (error, job list) result \<times> mem_jobs" where
  "mem_lease queue now lease mx s =
     (let due = take mx (mem_due queue now s)
      in (Ok (map (claim now lease) due),
          foldl (\<lambda>s j. update_row (j_id j) (claim now lease) s) s due))"

definition mem_ack :: "int \<Rightarrow> mem_jobs \<Rightarrow> (error, unit) result \<times> mem_jobs" where
  "mem_ack i s = (Ok (), update_row i (\<lambda>j. j\<lparr>j_status := StDone\<rparr>) s)"

definition mem_retry :: "int \<Rightarrow> system_time \<Rightarrow> mem_jobs \<Rightarrow> (error, unit) result \<times> mem_jobs" where
  "mem_retry i backoff_until s =
     (Ok (), update_row i (\<lambda>j. j\<lparr>j_status := StPending, j_run_at := backoff_until, j_lease_expires_at := None\<rparr>) s)"

definition mem_dead_letter :: "int \<Rightarrow> mem_jobs \<Rightarrow> (error, unit) result \<times> mem_jobs" where
  "mem_dead_letter i s = (Ok (), update_row i (\<lambda>j. j\<lparr>j_status := StDead\<rparr>) s)"

definition mem_list_dead :: "str \<Rightarrow> nat \<Rightarrow> mem_jobs \<Rightarrow> (error, job list) result" where
  "mem_list_dead queue limit s =
     Ok (take limit (sort_key j_id (filter (\<lambda>j. j_status j = StDead \<and> j_queue j = queue) (map snd (mj_jobs s)))))"

definition mem_requeue_dead :: "int \<Rightarrow> mem_jobs \<Rightarrow> (error, unit) result \<times> mem_jobs" where
  "mem_requeue_dead i s =
     (Ok (), update_row i
       (\<lambda>j. j\<lparr>j_status := StPending, j_run_at := 0, j_attempts := 0, j_lease_expires_at := None\<rparr>) s)"

section \<open>The contract\<close>

text \<open>
  The laws of the trait, over what a client can look up: \<open>row s i\<close> is the row of identifier \<open>i\<close>. An
  operation that reports success did exactly what the trait documents; one that fails keeps the
  invariant.
\<close>

locale job_store =
  fixes enqueue :: "new_job \<Rightarrow> system_time \<Rightarrow> 's \<Rightarrow> (error, enqueue_outcome) result \<times> 's"
    and lease :: "str \<Rightarrow> system_time \<Rightarrow> nat \<Rightarrow> nat \<Rightarrow> 's \<Rightarrow> (error, job list) result \<times> 's"
    and ack :: "int \<Rightarrow> 's \<Rightarrow> (error, unit) result \<times> 's"
    and retry :: "int \<Rightarrow> system_time \<Rightarrow> 's \<Rightarrow> (error, unit) result \<times> 's"
    and dead_letter :: "int \<Rightarrow> 's \<Rightarrow> (error, unit) result \<times> 's"
    and requeue_dead :: "int \<Rightarrow> 's \<Rightarrow> (error, unit) result \<times> 's"
    and row :: "'s \<Rightarrow> int \<Rightarrow> job option"
    and inv :: "'s \<Rightarrow> bool"
  assumes enqueue_inv: "inv s \<Longrightarrow> inv (snd (enqueue n now s))"
    and enqueue_inserted: "inv s \<Longrightarrow> enqueue n now s = (Ok (Inserted i), s') \<Longrightarrow>
        row s i = None \<and> row s' = (row s)(i \<mapsto> fresh_row i n now) \<and>
        (\<forall>k j j'. n_idempotency_key n = Some k \<longrightarrow> row s j = Some j' \<longrightarrow> j_idempotency_key j' \<noteq> Some k)"
    and enqueue_duplicate: "inv s \<Longrightarrow> enqueue n now s = (Ok (Duplicate i), s') \<Longrightarrow>
        row s' = row s \<and> (\<exists>j. row s i = Some j \<and> n_idempotency_key n \<noteq> None \<and> j_idempotency_key j = n_idempotency_key n)"
    and lease_inv: "inv s \<Longrightarrow> inv (snd (lease q now d mx s))"
    and lease_ok: "inv s \<Longrightarrow> lease q now d mx s = (Ok js, s') \<Longrightarrow>
        distinct (map j_id js) \<and> length js \<le> mx \<and>
        (\<forall>j \<in> set js. \<exists>j0. row s (j_id j) = Some j0 \<and> is_due q now j0 \<and> j = claim now d j0) \<and>
        row s' = (\<lambda>i. if i \<in> j_id ` set js then map_option (claim now d) (row s i) else row s i)"
    and lease_all: "inv s \<Longrightarrow> lease q now d mx s = (Ok js, s') \<Longrightarrow> length js < mx \<Longrightarrow>
        row s i = Some j \<Longrightarrow> is_due q now j \<Longrightarrow> i \<in> j_id ` set js"
    and ack_inv: "inv s \<Longrightarrow> inv (snd (ack i s))"
    and ack_ok: "inv s \<Longrightarrow> ack i s = (Ok (), s') \<Longrightarrow>
        row s' = (row s)(i := map_option (\<lambda>j. j\<lparr>j_status := StDone\<rparr>) (row s i))"
    and retry_inv: "inv s \<Longrightarrow> inv (snd (retry i t s))"
    and retry_ok: "inv s \<Longrightarrow> retry i t s = (Ok (), s') \<Longrightarrow>
        row s' = (row s)(i := map_option (\<lambda>j. j\<lparr>j_status := StPending, j_run_at := t, j_lease_expires_at := None\<rparr>) (row s i))"
    and dead_inv: "inv s \<Longrightarrow> inv (snd (dead_letter i s))"
    and dead_ok: "inv s \<Longrightarrow> dead_letter i s = (Ok (), s') \<Longrightarrow>
        row s' = (row s)(i := map_option (\<lambda>j. j\<lparr>j_status := StDead\<rparr>) (row s i))"
    and requeue_inv: "inv s \<Longrightarrow> inv (snd (requeue_dead i s))"
    and requeue_ok: "inv s \<Longrightarrow> requeue_dead i s = (Ok (), s') \<Longrightarrow>
        row s' = (row s)(i := map_option
          (\<lambda>j. j\<lparr>j_status := StPending, j_run_at := 0, j_attempts := 0, j_lease_expires_at := None\<rparr>) (row s i))"
    and row_id: "inv s \<Longrightarrow> row s i = Some j \<Longrightarrow> j_id j = i"
    and leased_expiry: "inv s \<Longrightarrow> row s i = Some j \<Longrightarrow> j_status j = StLeased \<Longrightarrow> j_lease_expires_at j \<noteq> None"

section \<open>Histories\<close>

text \<open>
  A history of successful operations by any number of clients, in the order in which they take the
  store's lock, labelled with their arguments and answers.
\<close>

datatype store_op =
    OpEnqueue new_job system_time enqueue_outcome
  | OpLease str system_time nat nat "job list"
  | OpAck int
  | OpRetry int system_time
  | OpDead int
  | OpRequeue int

inductive store_step ::
  "(new_job \<Rightarrow> system_time \<Rightarrow> 's \<Rightarrow> (error, enqueue_outcome) result \<times> 's) \<Rightarrow>
   (str \<Rightarrow> system_time \<Rightarrow> nat \<Rightarrow> nat \<Rightarrow> 's \<Rightarrow> (error, job list) result \<times> 's) \<Rightarrow>
   (int \<Rightarrow> 's \<Rightarrow> (error, unit) result \<times> 's) \<Rightarrow>
   (int \<Rightarrow> system_time \<Rightarrow> 's \<Rightarrow> (error, unit) result \<times> 's) \<Rightarrow>
   (int \<Rightarrow> 's \<Rightarrow> (error, unit) result \<times> 's) \<Rightarrow>
   (int \<Rightarrow> 's \<Rightarrow> (error, unit) result \<times> 's) \<Rightarrow> store_op \<Rightarrow> 's \<Rightarrow> 's \<Rightarrow> bool"
  for enqueue lease ack retry dead_letter requeue_dead where
  step_enqueue: "enqueue n now s = (Ok r, s') \<Longrightarrow> store_step enqueue lease ack retry dead_letter requeue_dead (OpEnqueue n now r) s s'"
| step_lease: "lease q now d mx s = (Ok js, s') \<Longrightarrow> store_step enqueue lease ack retry dead_letter requeue_dead (OpLease q now d mx js) s s'"
| step_ack: "ack i s = (Ok (), s') \<Longrightarrow> store_step enqueue lease ack retry dead_letter requeue_dead (OpAck i) s s'"
| step_retry: "retry i t s = (Ok (), s') \<Longrightarrow> store_step enqueue lease ack retry dead_letter requeue_dead (OpRetry i t) s s'"
| step_dead: "dead_letter i s = (Ok (), s') \<Longrightarrow> store_step enqueue lease ack retry dead_letter requeue_dead (OpDead i) s s'"
| step_requeue: "requeue_dead i s = (Ok (), s') \<Longrightarrow> store_step enqueue lease ack retry dead_letter requeue_dead (OpRequeue i) s s'"

text \<open>A path of labelled steps.\<close>

fun path :: "('l \<Rightarrow> 's \<Rightarrow> 's \<Rightarrow> bool) \<Rightarrow> 'l list \<Rightarrow> 's \<Rightarrow> 's \<Rightarrow> bool" where
  "path step [] s s' \<longleftrightarrow> s' = s"
| "path step (l # ls) s s' \<longleftrightarrow> (\<exists>s1. step l s s1 \<and> path step ls s1 s')"

lemma path_append: "path step (xs @ ys) s s' \<longleftrightarrow> (\<exists>s1. path step xs s s1 \<and> path step ys s1 s')"
  by (induction xs arbitrary: s) auto

text \<open>The identifiers an operation writes other than by claiming them, and those it claims.\<close>

fun op_writes :: "store_op \<Rightarrow> int set" where
  "op_writes (OpAck i) = {i}"
| "op_writes (OpRetry i _) = {i}"
| "op_writes (OpDead i) = {i}"
| "op_writes (OpRequeue i) = {i}"
| "op_writes _ = {}"

fun op_claims :: "store_op \<Rightarrow> int set" where
  "op_claims (OpLease q now d mx js) = j_id ` set js"
| "op_claims _ = {}"

fun op_ends :: "store_op \<Rightarrow> int set" where
  "op_ends (OpAck i) = {i}"
| "op_ends (OpDead i) = {i}"
| "op_ends _ = {}"

fun op_lease_time :: "store_op \<Rightarrow> system_time" where
  "op_lease_time (OpLease q now d mx js) = now"
| "op_lease_time _ = 0"

fun outcome_id :: "enqueue_outcome \<Rightarrow> int" where
  "outcome_id (Inserted i) = i"
| "outcome_id (Duplicate i) = i"

definition unique_keys :: "(int \<Rightarrow> job option) \<Rightarrow> bool" where
  "unique_keys r \<longleftrightarrow> (\<forall>i i' j j' k. r i = Some j \<longrightarrow> r i' = Some j' \<longrightarrow>
     j_idempotency_key j = Some k \<longrightarrow> j_idempotency_key j' = Some k \<longrightarrow> i = i')"

lemma unique_keys_map:
  assumes "unique_keys r" "\<And>i j'. r' i = Some j' \<Longrightarrow> \<exists>j. r i = Some j \<and> j_idempotency_key j = j_idempotency_key j'"
  shows "unique_keys r'"
  using assms unfolding unique_keys_def by metis

context job_store
begin

lemma step_inv:
  assumes "store_step enqueue lease ack retry dead_letter requeue_dead l s s'" "inv s"
  shows "inv s'"
  using assms
proof (cases rule: store_step.cases)
  case (step_enqueue n now r)
  with enqueue_inv [OF assms(2), of n now] show ?thesis by simp
next
  case (step_lease q now d mx js)
  with lease_inv [OF assms(2), of q now d mx] show ?thesis by simp
next
  case (step_ack i)
  with ack_inv [OF assms(2), of i] show ?thesis by simp
next
  case (step_retry i t)
  with retry_inv [OF assms(2), of i t] show ?thesis by simp
next
  case (step_dead i)
  with dead_inv [OF assms(2), of i] show ?thesis by simp
next
  case (step_requeue i)
  with requeue_inv [OF assms(2), of i] show ?thesis by simp
qed

text \<open>What one operation does to a row that exists: it stays, with its key and queue.\<close>

lemma step_row:
  assumes "store_step enqueue lease ack retry dead_letter requeue_dead l s s'" "inv s" "row s i = Some j"
  shows "\<exists>j'. row s' i = Some j' \<and> j_idempotency_key j' = j_idempotency_key j \<and> j_queue j' = j_queue j \<and>
    (i \<notin> op_writes l \<longrightarrow> i \<notin> op_claims l \<longrightarrow> j' = j) \<and>
    (i \<notin> op_ends l \<longrightarrow> j_status j \<in> {StPending, StLeased} \<longrightarrow> j_status j' \<in> {StPending, StLeased})"
  using assms(1)
proof (cases rule: store_step.cases)
  case (step_enqueue n now r)
  then show ?thesis
    using enqueue_inserted [OF assms(2), of n now] enqueue_duplicate [OF assms(2), of n now] assms(3)
    by (cases r) auto
next
  case (step_lease q now d mx js)
  with lease_ok [OF assms(2), of q now d mx js s'] assms(3) show ?thesis by (auto simp: claim_def)
next
  case (step_ack k)
  with ack_ok [OF assms(2), of k s'] assms(3) show ?thesis by auto
next
  case (step_retry k t)
  with retry_ok [OF assms(2), of k t s'] assms(3) show ?thesis by auto
next
  case (step_dead k)
  with dead_ok [OF assms(2), of k s'] assms(3) show ?thesis by auto
next
  case (step_requeue k)
  with requeue_ok [OF assms(2), of k s'] assms(3) show ?thesis by auto
qed

abbreviation step where "step \<equiv> store_step enqueue lease ack retry dead_letter requeue_dead"

lemma path_row:
  assumes "path step ls s s'" "inv s" "row s i = Some j"
  shows "inv s' \<and> (\<exists>j'. row s' i = Some j' \<and> j_idempotency_key j' = j_idempotency_key j \<and> j_queue j' = j_queue j \<and>
    ((\<forall>l \<in> set ls. i \<notin> op_ends l) \<longrightarrow> j_status j \<in> {StPending, StLeased} \<longrightarrow> j_status j' \<in> {StPending, StLeased}))"
  using assms
proof (induction ls arbitrary: s j)
  case (Cons l ls)
  then obtain s1 where s1: "step l s s1" "path step ls s1 s'" by auto
  from step_row [OF s1(1) Cons.prems(2,3)] obtain j1 where j1: "row s1 i = Some j1"
    "j_idempotency_key j1 = j_idempotency_key j" "j_queue j1 = j_queue j"
    "i \<notin> op_ends l \<longrightarrow> j_status j \<in> {StPending, StLeased} \<longrightarrow> j_status j1 \<in> {StPending, StLeased}" by blast
  from Cons.IH [OF s1(2) step_inv [OF s1(1) Cons.prems(2)] j1(1)] j1 show ?case by auto
qed simp

lemma step_unique:
  assumes "step l s s'" "inv s" "unique_keys (row s)"
  shows "unique_keys (row s')"
  using assms(1)
proof (cases rule: store_step.cases)
  case (step_enqueue n now r)
  show ?thesis
  proof (cases r)
    case (Inserted i)
    with step_enqueue enqueue_inserted [OF assms(2), of n now i s'] assms(3) show ?thesis
      by (auto simp: unique_keys_def fresh_row_def)
  next
    case (Duplicate i)
    with step_enqueue enqueue_duplicate [OF assms(2), of n now i s'] assms(3) show ?thesis by simp
  qed
next
  case (step_lease q now d mx js)
  then have "row s' = (\<lambda>i. if i \<in> j_id ` set js then map_option (claim now d) (row s i) else row s i)"
    using lease_ok [OF assms(2)] by blast
  then show ?thesis by (intro unique_keys_map [OF assms(3)]) (auto simp: claim_def split: if_splits)
next
  case (step_ack i)
  show ?thesis
    by (rule unique_keys_map [OF assms(3)], unfold ack_ok [OF assms(2) step_ack(2)]) (auto split: if_splits)
next
  case (step_retry i t)
  show ?thesis
    by (rule unique_keys_map [OF assms(3)], unfold retry_ok [OF assms(2) step_retry(2)]) (auto split: if_splits)
next
  case (step_dead i)
  show ?thesis
    by (rule unique_keys_map [OF assms(3)], unfold dead_ok [OF assms(2) step_dead(2)]) (auto split: if_splits)
next
  case (step_requeue i)
  show ?thesis
    by (rule unique_keys_map [OF assms(3)], unfold requeue_ok [OF assms(2) step_requeue(2)]) (auto split: if_splits)
qed

lemma path_unique: "path step ls s s' \<Longrightarrow> inv s \<Longrightarrow> unique_keys (row s) \<Longrightarrow> unique_keys (row s')"
  by (induction ls arbitrary: s) (auto intro: step_unique step_inv)

text \<open>A live lease keeps every other lease away.\<close>

lemma lease_exclusive:
  assumes "path step ls s s'" "inv s" "row s i = Some j" "j_status j = StLeased" "j_lease_expires_at j = Some e"
    "\<forall>l \<in> set ls. i \<notin> op_writes l \<and> op_lease_time l \<le> e"
  shows "(\<forall>l \<in> set ls. i \<notin> op_claims l) \<and> row s' i = Some j"
  using assms
proof (induction ls arbitrary: s)
  case (Cons l ls)
  then obtain s1 where s1: "step l s s1" "path step ls s1 s'" by auto
  have free: "i \<notin> op_claims l"
    using s1(1)
  proof (cases rule: store_step.cases)
    case (step_lease q now d mx js)
    have "\<not> is_due q now j" using Cons.prems(4-6) step_lease(1) by (simp add: is_due_def)
    then show ?thesis using lease_ok [OF Cons.prems(2) step_lease(2)] Cons.prems(3) step_lease(1) by fastforce
  qed simp_all
  with step_row [OF s1(1) Cons.prems(2,3)] Cons.prems(6) have "row s1 i = Some j" by auto
  with Cons.IH [OF s1(2) step_inv [OF s1(1) Cons.prems(2)]] Cons.prems free show ?case by auto
qed simp

text \<open>An idempotency key names one job for ever.\<close>

lemma enqueue_same_key:
  assumes "inv s" "enqueue n now s = (Ok r, s1)" "path step ls s1 s2" "enqueue n' now' s2 = (Ok r', s3)"
    "n_idempotency_key n = Some k" "n_idempotency_key n' = Some k" "unique_keys (row s)"
  shows "r' = Duplicate (outcome_id r) \<and> row s3 = row s2"
proof -
  let ?i = "outcome_id r"
  have "step (OpEnqueue n now r) s s1" using assms(2) by (rule store_step.step_enqueue)
  then have inv1: "inv s1" and u1: "unique_keys (row s1)"
    using step_inv step_unique assms(1,7) by blast+
  have "\<exists>j. row s1 ?i = Some j \<and> j_idempotency_key j = Some k"
  proof (cases r)
    case (Inserted i)
    with enqueue_inserted [OF assms(1), of n now i s1] assms(2,5) show ?thesis by (simp add: fresh_row_def)
  next
    case (Duplicate i)
    with enqueue_duplicate [OF assms(1), of n now i s1] assms(2,5) show ?thesis by auto
  qed
  with path_row [OF assms(3) inv1] obtain j where j: "row s2 ?i = Some j" "j_idempotency_key j = Some k" "inv s2" by metis
  have u2: "unique_keys (row s2)" using path_unique [OF assms(3) inv1 u1] .
  show ?thesis
  proof (cases r')
    case (Inserted i')
    with enqueue_inserted [OF j(3), of n' now' i' s3] assms(4,6) j(1,2) show ?thesis by auto
  next
    case (Duplicate i')
    with enqueue_duplicate [OF j(3), of n' now' i' s3] assms(4,6) j(1,2) u2 show ?thesis
      by (auto simp: unique_keys_def)
  qed
qed

text \<open>At least once: a job that was neither acknowledged nor dead-lettered is claimable from some instant on.\<close>

lemma claimable_again:
  assumes "inv s" "row s i = Some j" "j_status j \<in> {StPending, StLeased}"
  shows "\<exists>T. \<forall>now d mx js s'. T \<le> now \<longrightarrow> lease (j_queue j) now d mx s = (Ok js, s') \<longrightarrow> length js < mx \<longrightarrow> i \<in> j_id ` set js"
proof -
  have "\<exists>T. \<forall>now \<ge> T. is_due (j_queue j) now j"
  proof (cases "j_status j = StLeased")
    case True
    then obtain e where "j_lease_expires_at j = Some e" using leased_expiry [OF assms(1,2)] by auto
    with True show ?thesis by (intro exI [of _ "Suc e"]) (simp add: is_due_def Suc_le_eq)
  qed (use assms(3) in \<open>auto simp: is_due_def\<close>)
  then show ?thesis using lease_all [OF assms(1) _ _ assms(2)] by blast
qed

end

section \<open>The in-memory store keeps the contract\<close>

definition mem_row :: "mem_jobs \<Rightarrow> int \<Rightarrow> job option" where
  "mem_row s = map_of (mj_jobs s)"

definition row_ok :: "int \<Rightarrow> job \<Rightarrow> bool" where
  "row_ok i j \<longleftrightarrow> j_id j = i \<and> (j_status j = StLeased \<longrightarrow> j_lease_expires_at j \<noteq> None)"

definition jobs_inv :: "mem_jobs \<Rightarrow> bool" where
  "jobs_inv s \<longleftrightarrow> distinct (map fst (mj_jobs s)) \<and>
     (\<forall>i j. mem_row s i = Some j \<longrightarrow> row_ok i j \<and> i < mj_next_id s) \<and>
     (\<forall>k i. mj_keys s k = Some i \<longleftrightarrow> (\<exists>j. mem_row s i = Some j \<and> j_idempotency_key j = Some k))"

lemma mem_row_update: "mem_row (update_row i f s) = (mem_row s)(i := map_option f (mem_row s i))"
proof -
  have "map_of (map (\<lambda>(k, j). if k = i then (k, f j) else (k, j)) xs) = (map_of xs)(i := map_option f (map_of xs i))" for xs
    by (induction xs) auto
  then show ?thesis by (simp add: mem_row_def update_row_def)
qed

lemma update_row_simps [simp]:
  "mj_keys (update_row i f s) = mj_keys s" "mj_next_id (update_row i f s) = mj_next_id s"
  "map fst (mj_jobs (update_row i f s)) = map fst (mj_jobs s)"
  by (auto simp: update_row_def)

lemma jobs_inv_update:
  assumes "jobs_inv s" "\<And>j. row_ok i j \<Longrightarrow> row_ok i (f j)" "\<And>j. j_idempotency_key (f j) = j_idempotency_key j"
  shows "jobs_inv (update_row i f s)"
proof -
  have rows: "row_ok k j \<and> k < mj_next_id s" if "mem_row (update_row i f s) k = Some j" for k j
    using that assms(1,2) by (auto simp: mem_row_update jobs_inv_def split: if_splits)
  have "(\<exists>j. mem_row (update_row i f s) k = Some j \<and> j_idempotency_key j = Some key) \<longleftrightarrow>
      (\<exists>j. mem_row s k = Some j \<and> j_idempotency_key j = Some key)" for k key
    using assms(3) by (cases "mem_row s k") (auto simp: mem_row_update)
  with rows assms(1) show ?thesis unfolding jobs_inv_def update_row_simps by blast
qed

lemma jobs_inv_new: "jobs_inv mem_jobs_new"
  by (simp add: jobs_inv_def mem_jobs_new_def mem_row_def)

lemma mem_row_in: "jobs_inv s \<Longrightarrow> mem_row s i = Some j \<longleftrightarrow> (i, j) \<in> set (mj_jobs s)"
  by (simp add: jobs_inv_def mem_row_def)

text \<open>The claims of one lease, taken one after another.\<close>

lemma mem_row_claims:
  "mem_row (foldl (\<lambda>s j. update_row (j_id j) f s) s js) =
     (\<lambda>i. if i \<in> j_id ` set js then map_option f (mem_row s i) else mem_row s i)"
  if "distinct (map j_id js)"
  using that
proof (induction js arbitrary: s)
  case (Cons j js)
  then show ?case by (auto simp: mem_row_update fun_eq_iff)
qed simp

lemma jobs_inv_claims: "jobs_inv s \<Longrightarrow> jobs_inv (foldl (\<lambda>s j. update_row (j_id j) (claim now d) s) s js)"
proof (induction js arbitrary: s)
  case (Cons j js)
  have "jobs_inv (update_row (j_id j) (claim now d) s)"
    by (rule jobs_inv_update [OF Cons.prems]) (simp_all add: claim_def row_ok_def)
  then show ?case by (simp add: Cons.IH)
qed simp

lemma mem_due_rows:
  assumes "jobs_inv s"
  shows "set (mem_due q now s) = {j. mem_row s (j_id j) = Some j \<and> is_due q now j}"
    and "distinct (map j_id (mem_due q now s))"
proof -
  have ids: "j_id j = i" if "(i, j) \<in> set (mj_jobs s)" for i j
    using that assms mem_row_in [OF assms] by (auto simp: jobs_inv_def row_ok_def)
  then have eq: "map j_id (map snd (mj_jobs s)) = map fst (mj_jobs s)" by auto
  have "distinct (map j_id (map snd (mj_jobs s)))" unfolding eq using assms by (simp add: jobs_inv_def)
  then have "distinct (map j_id (filter (is_due q now) (map snd (mj_jobs s))))" by (rule distinct_map_filter)
  then show "distinct (map j_id (mem_due q now s))"
    unfolding mem_due_def by (simp add: distinct_map inj_on_def)
  show "set (mem_due q now s) = {j. mem_row s (j_id j) = Some j \<and> is_due q now j}"
  proof (rule set_eqI)
    fix j
    have "j \<in> set (mem_due q now s) \<longleftrightarrow> (\<exists>i. (i, j) \<in> set (mj_jobs s)) \<and> is_due q now j"
      unfolding mem_due_def by (force simp: image_iff)
    also have "(\<exists>i. (i, j) \<in> set (mj_jobs s)) \<longleftrightarrow> (j_id j, j) \<in> set (mj_jobs s)" using ids by blast
    finally show "j \<in> set (mem_due q now s) \<longleftrightarrow> j \<in> {j. mem_row s (j_id j) = Some j \<and> is_due q now j}"
      by (simp add: mem_row_in [OF assms])
  qed
qed

lemma mem_lease_simps:
  "mem_lease q now d mx s = (Ok js, s') \<longleftrightarrow>
     js = map (claim now d) (take mx (mem_due q now s)) \<and>
     s' = foldl (\<lambda>s j. update_row (j_id j) (claim now d) s) s (take mx (mem_due q now s))"
  by (auto simp: mem_lease_def Let_def)

lemma claim_id [simp]: "j_id (claim now d j) = j_id j" by (simp add: claim_def)

text \<open>A successful insertion: a fresh identifier, one row more, its key taken.\<close>

lemma mem_enqueue_fresh:
  fixes now :: system_time
  assumes "jobs_inv s" "\<And>k. n_idempotency_key n = Some k \<Longrightarrow> mj_keys s k = None"
  defines "i \<equiv> mj_next_id s"
  defines "s' \<equiv> s\<lparr>mj_next_id := i + 1,
      mj_keys := (case n_idempotency_key n of None \<Rightarrow> mj_keys s | Some k \<Rightarrow> (mj_keys s)(k \<mapsto> i)),
      mj_jobs := mj_jobs s @ [(i, fresh_row i n now)]\<rparr>"
  shows "mem_enqueue n now s = (Ok (Inserted i), s')" "mem_row s i = None"
    "mem_row s' = (mem_row s)(i \<mapsto> fresh_row i n now)" "jobs_inv s'"
proof -
  show "mem_enqueue n now s = (Ok (Inserted i), s')"
    using assms(2) by (auto simp: mem_enqueue_def Let_def i_def s'_def split: option.splits)
  show none: "mem_row s i = None" using assms(1) by (cases "mem_row s i") (auto simp: jobs_inv_def i_def)
  then show row: "mem_row s' = (mem_row s)(i \<mapsto> fresh_row i n now)"
    by (auto simp: mem_row_def s'_def map_add_def fun_eq_iff split: option.splits)
  have "i \<notin> fst ` set (mj_jobs s)" using none by (simp add: mem_row_def map_of_eq_None_iff)
  then have "distinct (map fst (mj_jobs s'))" using assms(1) by (simp add: jobs_inv_def s'_def)
  moreover have "row_ok j r \<and> j < mj_next_id s'" if "mem_row s' j = Some r" for j r
  proof -
    have "mj_next_id s' = i + 1" by (simp add: s'_def)
    moreover have "j = i \<and> r = fresh_row i n now \<or> mem_row s j = Some r" using that unfolding row by (auto split: if_splits)
    ultimately show ?thesis using assms(1) by (fastforce simp: jobs_inv_def row_ok_def fresh_row_def i_def)
  qed
  moreover have "mj_keys s' k = Some j \<longleftrightarrow> (\<exists>r. mem_row s' j = Some r \<and> j_idempotency_key r = Some k)" for k j
  proof -
    have k: "mj_keys s k = Some j \<longleftrightarrow> (\<exists>r. mem_row s j = Some r \<and> j_idempotency_key r = Some k)" for k j
      using assms(1) by (simp add: jobs_inv_def)
    then have ki: "mj_keys s k \<noteq> Some i" using none by simp
    show ?thesis
    proof (cases "n_idempotency_key n = Some k")
      case True
      then have "mj_keys s k = None" by (rule assms(2))
      then have "mem_row s j = Some r \<Longrightarrow> j_idempotency_key r \<noteq> Some k" for r using k [of k j] by auto
      with True show ?thesis unfolding row by (auto simp: s'_def fresh_row_def)
    next
      case False
      then have "mj_keys s' k = mj_keys s k" by (auto simp: s'_def split: option.splits)
      with False k [of k j] ki show ?thesis unfolding row by (auto simp: fresh_row_def)
    qed
  qed
  ultimately show "jobs_inv s'" unfolding jobs_inv_def by blast
qed

lemma mem_enqueue_cases:
  assumes "mem_enqueue n now s = (Ok r, s')"
  obtains (dup) k i where "n_idempotency_key n = Some k" "mj_keys s k = Some i" "r = Duplicate i" "s' = s"
  | (ins) "\<And>k. n_idempotency_key n = Some k \<Longrightarrow> mj_keys s k = None" "r = Inserted (mj_next_id s)"
proof (cases "n_idempotency_key n")
  case None
  with assms have "r = Inserted (mj_next_id s)" by (simp add: mem_enqueue_def Let_def)
  with None ins show ?thesis by simp
next
  case (Some k)
  show ?thesis
  proof (cases "mj_keys s k")
    case None
    with Some assms have "r = Inserted (mj_next_id s)" by (simp add: mem_enqueue_def Let_def)
    with None Some ins show ?thesis by simp
  next
    case (Some i)
    with assms \<open>n_idempotency_key n = Some k\<close> have "r = Duplicate i" "s' = s" by (simp_all add: mem_enqueue_def)
    with \<open>n_idempotency_key n = Some k\<close> Some show ?thesis by (intro dup)
  qed
qed

interpretation mem: job_store mem_enqueue mem_lease mem_ack mem_retry mem_dead_letter mem_requeue_dead mem_row jobs_inv
proof
  fix s i j assume inv: "jobs_inv s"
  note upd = jobs_inv_update [OF inv]
  show "jobs_inv (snd (mem_ack i s))" "jobs_inv (snd (mem_dead_letter i s))" "jobs_inv (snd (mem_requeue_dead i s))"
    by (auto simp: mem_ack_def mem_dead_letter_def mem_requeue_dead_def row_ok_def intro!: upd)
  show "jobs_inv (snd (mem_retry i t s))" for t by (auto simp: mem_retry_def row_ok_def intro!: upd)
  show "jobs_inv (snd (mem_lease q now d mx s))" for q now d mx
    using jobs_inv_claims [OF inv] by (simp add: mem_lease_def Let_def)
  show "mem_row s i = Some j \<Longrightarrow> j_id j = i" "mem_row s i = Some j \<Longrightarrow> j_status j = StLeased \<Longrightarrow> j_lease_expires_at j \<noteq> None"
    using inv by (auto simp: jobs_inv_def row_ok_def)
  show "jobs_inv (snd (mem_enqueue n now s))" for n now
  proof -
    have "\<exists>r s'. mem_enqueue n now s = (Ok r, s')" by (auto simp: mem_enqueue_def Let_def split: option.split)
    then obtain r s' where e: "mem_enqueue n now s = (Ok r, s')" by blast
    then show ?thesis
    proof (cases rule: mem_enqueue_cases)
      case ins
      with mem_enqueue_fresh(1,4) [where n = n and now = now, OF inv] show ?thesis by simp
    qed (use e inv in simp)
  qed
  show "mem_row s i = None \<and> mem_row s' = (mem_row s)(i \<mapsto> fresh_row i n now) \<and>
        (\<forall>k j j'. n_idempotency_key n = Some k \<longrightarrow> mem_row s j = Some j' \<longrightarrow> j_idempotency_key j' \<noteq> Some k)"
    if e: "mem_enqueue n now s = (Ok (Inserted i), s')" for n now s'
    using e
  proof (cases rule: mem_enqueue_cases)
    case ins
    note f = mem_enqueue_fresh(1,3) [where n = n and now = now, OF inv ins(1)] mem_enqueue_fresh(2) [OF inv ins(1)]
    have "\<forall>k j j'. n_idempotency_key n = Some k \<longrightarrow> mem_row s j = Some j' \<longrightarrow> j_idempotency_key j' \<noteq> Some k"
      using ins(1) inv unfolding jobs_inv_def by (metis option.distinct(1))
    with f e ins(2) show ?thesis by simp
  qed simp
  show "mem_row s' = mem_row s \<and> (\<exists>j. mem_row s i = Some j \<and> n_idempotency_key n \<noteq> None \<and> j_idempotency_key j = n_idempotency_key n)"
    if "mem_enqueue n now s = (Ok (Duplicate i), s')" for n now s'
    using that inv by (auto simp: mem_enqueue_def Let_def jobs_inv_def split: option.splits)
next
  fix s i s' assume "jobs_inv s"
  show "mem_ack i s = (Ok (), s') \<Longrightarrow> mem_row s' = (mem_row s)(i := map_option (\<lambda>j. j\<lparr>j_status := StDone\<rparr>) (mem_row s i))"
    by (auto simp: mem_ack_def mem_row_update)
  show "mem_dead_letter i s = (Ok (), s') \<Longrightarrow> mem_row s' = (mem_row s)(i := map_option (\<lambda>j. j\<lparr>j_status := StDead\<rparr>) (mem_row s i))"
    by (auto simp: mem_dead_letter_def mem_row_update)
  show "mem_requeue_dead i s = (Ok (), s') \<Longrightarrow> mem_row s' = (mem_row s)(i := map_option
      (\<lambda>j. j\<lparr>j_status := StPending, j_run_at := 0, j_attempts := 0, j_lease_expires_at := None\<rparr>) (mem_row s i))"
    by (auto simp: mem_requeue_dead_def mem_row_update)
  show "mem_retry i t s = (Ok (), s') \<Longrightarrow> mem_row s' = (mem_row s)(i := map_option
      (\<lambda>j. j\<lparr>j_status := StPending, j_run_at := t, j_lease_expires_at := None\<rparr>) (mem_row s i))" for t
    by (auto simp: mem_retry_def mem_row_update)
next
  fix s q now d mx js s' assume inv: "jobs_inv s" and eq: "mem_lease q now d mx s = (Ok js, s')"
  note due = mem_due_rows [OF inv, of q now]
  let ?due = "take mx (mem_due q now s)"
  have js: "js = map (claim now d) ?due" "j_id ` set js = j_id ` set ?due"
    using eq by (auto simp: mem_lease_simps image_image)
  have dist: "distinct (map j_id ?due)" using due(2) by (simp add: take_map [symmetric])
  show "distinct (map j_id js) \<and> length js \<le> mx \<and>
      (\<forall>j \<in> set js. \<exists>j0. mem_row s (j_id j) = Some j0 \<and> is_due q now j0 \<and> j = claim now d j0) \<and>
      mem_row s' = (\<lambda>i. if i \<in> j_id ` set js then map_option (claim now d) (mem_row s i) else mem_row s i)"
  proof (intro conjI)
    show "distinct (map j_id js)" using dist by (simp add: js(1) o_def)
    show "length js \<le> mx" by (simp add: js(1))
    show "\<forall>j \<in> set js. \<exists>j0. mem_row s (j_id j) = Some j0 \<and> is_due q now j0 \<and> j = claim now d j0"
      using due(1) by (auto simp: js(1) dest: in_set_takeD)
    show "mem_row s' = (\<lambda>i. if i \<in> j_id ` set js then map_option (claim now d) (mem_row s i) else mem_row s i)"
      using mem_row_claims [OF dist] eq unfolding js(2) by (simp add: mem_lease_simps)
  qed
  show "i \<in> j_id ` set js" if "length js < mx" "mem_row s i = Some j" "is_due q now j" for i j
  proof -
    have "j_id j = i" using inv that(2) by (simp add: jobs_inv_def row_ok_def)
    then have "j \<in> set (mem_due q now s)" using due(1) that(2,3) by simp
    moreover have "?due = mem_due q now s" using that(1) js(1) by simp
    ultimately show ?thesis using js(2) \<open>j_id j = i\<close> by force
  qed
qed

abbreviation mem_step :: "store_op \<Rightarrow> mem_jobs \<Rightarrow> mem_jobs \<Rightarrow> bool" where
  "mem_step \<equiv> store_step mem_enqueue mem_lease mem_ack mem_retry mem_dead_letter mem_requeue_dead"

lemma mem_reachable:
  assumes "path mem_step ls mem_jobs_new s"
  shows "jobs_inv s" "unique_keys (mem_row s)"
proof -
  have "\<And>s0. path mem_step ls s0 s \<Longrightarrow> jobs_inv s0 \<Longrightarrow> jobs_inv s"
    by (induction ls) (auto dest: mem.step_inv)
  with assms jobs_inv_new show "jobs_inv s" by blast
  show "unique_keys (mem_row s)"
    using mem.path_unique [OF assms jobs_inv_new] by (simp add: unique_keys_def mem_row_def mem_jobs_new_def)
qed

lemma sorted_wrt_due:
  assumes "jobs_inv s"
  shows "sorted_wrt (\<lambda>a b. claim_key a < claim_key b) (mem_due q now s)"
proof -
  have "sorted (map claim_key (mem_due q now s))" by (simp add: mem_due_def)
  moreover have "distinct (map claim_key (mem_due q now s))"
    using mem_due_rows(2) [OF assms, of q now] by (auto simp: distinct_map inj_on_def claim_key_def)
  ultimately have "sorted_wrt (<) (map claim_key (mem_due q now s))" by (simp add: strict_sorted_iff)
  then show ?thesis by (simp add: sorted_wrt_map)
qed

text \<open>An example history: a keyed job is enqueued on an empty store and leased.\<close>

definition example_job :: new_job where
  "example_job = with_idempotency_key (''k'') (new_job_new (''j'') (''q''))"

definition example_enqueued :: mem_jobs where
  "example_enqueued = snd (mem_enqueue example_job 7 mem_jobs_new)"

definition example_leased :: mem_jobs where
  "example_leased = snd (mem_lease (''q'') 8 60 3 example_enqueued)"

lemma example_enqueue: "mem_enqueue example_job 7 mem_jobs_new = (Ok (Inserted 1), example_enqueued)"
  by (simp add: example_enqueued_def mem_enqueue_def mem_jobs_new_def Let_def example_job_def
      with_idempotency_key_def new_job_new_def)

lemma example_rows: "mj_jobs example_enqueued = [(1, fresh_row 1 example_job 7)]" "mj_keys example_enqueued = [''k'' \<mapsto> 1]"
  by (simp_all add: example_enqueued_def mem_enqueue_def mem_jobs_new_def Let_def example_job_def
      with_idempotency_key_def new_job_new_def)

lemma example_lease:
  "mem_lease (''q'') 8 60 3 example_enqueued = (Ok [claim 8 60 (fresh_row 1 example_job 7)], example_leased)"
  by (simp add: example_leased_def mem_lease_def Let_def mem_due_def example_rows is_due_def
      fresh_row_def example_job_def with_idempotency_key_def new_job_new_def claim_def update_row_def)

lemma example_leased_row: "mem_row example_leased 1 = Some (claim 8 60 (fresh_row 1 example_job 7))"
  by (simp add: example_leased_def mem_lease_def Let_def mem_due_def example_rows is_due_def mem_row_def
      fresh_row_def example_job_def with_idempotency_key_def new_job_new_def claim_def update_row_def)

lemma example_paths:
  "path mem_step [] mem_jobs_new mem_jobs_new"
  "path mem_step [OpEnqueue example_job 7 (Inserted 1)] mem_jobs_new example_enqueued"
  "path mem_step [OpEnqueue example_job 7 (Inserted 1),
     OpLease (''q'') 8 60 3 [claim 8 60 (fresh_row 1 example_job 7)]] mem_jobs_new example_leased"
  "path mem_step [OpLease (''q'') 8 60 3 [claim 8 60 (fresh_row 1 example_job 7)]] example_enqueued example_leased"
  using example_enqueue example_lease by (auto intro!: store_step.intros exI)

section \<open>Properties\<close>

text \<open>A lease claims the earliest due jobs and nothing else. In every reachable store the claimed rows
  are due rows of the queue (pending and due, or leased with an expired lease), in order of their due
  time and identifier; a due row is left out only when the batch is full, and then it comes after all
  claimed ones; every claimed row is leased with one attempt more, and every other row is unchanged.\<close>

lemma lease_earliest_first:
  assumes "path mem_step ls mem_jobs_new s" "mem_lease q now d mx s = (Ok js, s')"
  shows "sorted_wrt (\<lambda>a b. claim_key a < claim_key b) js \<and>
    (\<forall>j \<in> set js. \<exists>j0. mem_row s (j_id j) = Some j0 \<and> is_due q now j0 \<and> j = claim now d j0) \<and>
    (\<forall>i j0. mem_row s i = Some j0 \<and> is_due q now j0 \<and> i \<notin> j_id ` set js \<longrightarrow>
       length js = mx \<and> (\<forall>j \<in> set js. claim_key j < claim_key j0)) \<and>
    mem_row s' = (\<lambda>i. if i \<in> j_id ` set js then map_option (claim now d) (mem_row s i) else mem_row s i)"
proof -
  note inv = mem_reachable(1) [OF assms(1)]
  note ok = mem.lease_ok [OF inv assms(2)]
  have key: "claim_key (claim now d j) = claim_key j" for j by (simp add: claim_key_def claim_def)
  have js: "js = map (claim now d) (take mx (mem_due q now s))" using assms(2) by (simp add: mem_lease_simps)
  note sorted = sorted_wrt_due [OF inv, of q now]
  have split: "sorted_wrt (\<lambda>a b. claim_key a < claim_key b) (take mx (mem_due q now s) @ drop mx (mem_due q now s))"
    using sorted by simp
  have "sorted_wrt (\<lambda>a b. claim_key a < claim_key b) js"
    using sorted_wrt_take [OF sorted] by (simp add: js sorted_wrt_map key)
  moreover have "length js = mx \<and> (\<forall>j \<in> set js. claim_key j < claim_key j0)"
    if j0: "mem_row s i = Some j0" "is_due q now j0" "i \<notin> j_id ` set js" for i j0
  proof -
    have "\<not> length js < mx" using mem.lease_all [OF inv assms(2) _ j0(1,2)] j0(3) by blast
    with ok have len: "length js = mx" by auto
    have "j_id j0 = i" using mem.row_id [OF inv j0(1)] .
    then have "j0 \<in> set (mem_due q now s)" using mem_due_rows(1) [OF inv] j0 by simp
    moreover have "j_id ` set js = j_id ` set (take mx (mem_due q now s))" by (simp add: js image_image)
    with j0(3) \<open>j_id j0 = i\<close> have "j0 \<notin> set (take mx (mem_due q now s))" by auto
    ultimately have "j0 \<in> set (drop mx (mem_due q now s))"
      by (metis Un_iff append_take_drop_id set_append)
    moreover have "claim_key j < claim_key j'"
      if "j \<in> set (take mx (mem_due q now s))" "j' \<in> set (drop mx (mem_due q now s))" for j j'
      using split that unfolding sorted_wrt_append by blast
    ultimately show ?thesis using len by (auto simp: js key)
  qed
  ultimately show ?thesis using ok by blast
qed

text \<open>C9: a leased job belongs to its worker until the lease runs out. From any reachable store in which a
  job is leased until \<open>e\<close>, no lease at an instant up to \<open>e\<close> claims it, whatever other operations are
  interleaved on other jobs, and its row is untouched.\<close>

theorem lease_is_exclusive:
  assumes "path mem_step ls0 mem_jobs_new s" "path mem_step ls s s'" "mem_row s i = Some j"
    "j_status j = StLeased" "j_lease_expires_at j = Some e"
    "\<forall>l \<in> set ls. i \<notin> op_writes l \<and> op_lease_time l \<le> e"
  shows "(\<forall>l \<in> set ls. i \<notin> op_claims l) \<and> mem_row s' i = Some j"
  using mem.lease_exclusive [OF assms(2) mem_reachable(1) [OF assms(1)] assms(3-6)] .

theorem lease_is_exclusive_witness:
  "\<exists>js s'. mem_lease (''q'') 68 60 3 example_leased = (Ok js, s') \<and> 1 \<notin> j_id ` set js \<and>
     mem_row s' 1 = Some (claim 8 60 (fresh_row 1 example_job 7))"
proof -
  let ?r = "mem_lease (''q'') 68 60 3 example_leased"
  obtain js s' where r: "?r = (Ok js, s')" by (auto simp: mem_lease_def Let_def)
  then have "path mem_step [OpLease (''q'') 68 60 3 js] example_leased s'" by (auto intro: store_step.intros)
  from lease_is_exclusive [OF example_paths(3) this example_leased_row, of 68] r show ?thesis
    by (auto simp: claim_def)
qed

text \<open>An idempotency key names one job for ever. Once a job was enqueued under a key, every later
  enqueue with that key, after any history (acknowledgement and dead-lettering included), is a no-op
  that reports the first job's identifier.\<close>

lemma enqueue_idempotent:
  assumes "path mem_step ls0 mem_jobs_new s" "mem_enqueue n now s = (Ok r, s1)" "path mem_step ls s1 s2"
    "mem_enqueue n' now' s2 = (Ok r', s3)" "n_idempotency_key n = Some k" "n_idempotency_key n' = Some k"
  shows "r' = Duplicate (outcome_id r) \<and> mem_row s3 = mem_row s2"
  using mem.enqueue_same_key [OF mem_reachable(1) [OF assms(1)] assms(2-6) mem_reachable(2) [OF assms(1)]] .

text \<open>C10: delivery is at least once. A job that was enqueued and, in whatever history followed, neither
  acknowledged nor dead-lettered is still in the store, and from some instant on every lease of its
  queue whose batch has room claims it, even if every worker that held it crashed.\<close>

theorem delivered_at_least_once:
  assumes "path mem_step ls0 mem_jobs_new s" "mem_enqueue n now s = (Ok (Inserted i), s1)"
    "path mem_step ls s1 s2" "\<forall>l \<in> set ls. i \<notin> op_ends l"
  shows "\<exists>T. \<forall>t d mx js s3. T \<le> t \<longrightarrow> mem_lease (n_queue n) t d mx s2 = (Ok js, s3) \<longrightarrow> length js < mx \<longrightarrow>
    i \<in> j_id ` set js"
proof -
  note inv = mem_reachable(1) [OF assms(1)]
  have inv1: "jobs_inv s1" using mem.enqueue_inv [OF inv, of n now] assms(2) by simp
  have "mem_row s1 i = Some (fresh_row i n now)" using mem.enqueue_inserted [OF inv assms(2)] by simp
  from mem.path_row [OF assms(3) inv1 this] assms(4) obtain j where
    j: "jobs_inv s2" "mem_row s2 i = Some j" "j_queue j = n_queue n" "j_status j \<in> {StPending, StLeased}"
    by (auto simp: fresh_row_def)
  from mem.claimable_again [OF j(1,2,4)] show ?thesis unfolding j(3) .
qed

theorem delivered_at_least_once_witness:
  "\<exists>T. \<forall>t d mx js s3. T \<le> t \<longrightarrow> mem_lease (''q'') t d mx example_leased = (Ok js, s3) \<longrightarrow> length js < mx \<longrightarrow>
    1 \<in> j_id ` set js"
  using delivered_at_least_once [OF example_paths(1) example_enqueue example_paths(4)]
  by (simp add: example_job_def with_idempotency_key_def new_job_new_def)

end
