(* ===== verification/JC_Jobs.thy ===== *)
theory JC_Jobs
  imports JC_JobStore JC_App
begin

text \<open>
  The job engine, \<open>jerrycan-jobs/src/worker.rs\<close> and \<open>lib.rs\<close>: the worker's poll-batch tick with its
  retry policy, the engine's builder, the cron leader and the loops the engine registers.

  The store behind \<open>Arc<dyn JobStore>\<close> is a record of the trait's operations on a state \<open>'s\<close>. A task
  function is user code: from its forked context, its payload and the store it yields its run and the
  store at the moment the worker goes on, whatever the task itself and other clients did to it by
  then. The durations of runs are nanoseconds here; store operations take no time in the model.
  \<open>now + backoff\<close> is far below the end of \<open>SystemTime\<close>.
\<close>

section \<open>Configuration and backoff\<close>

record job_config =
  backoff_base :: nat
  backoff_cap :: nat
  lease_duration :: nat
  exec_timeout :: nat
  poll_interval :: nat
  batch :: nat

definition job_config_default :: job_config where
  "job_config_default =
     \<lparr>backoff_base = 1 * NANOS, backoff_cap = 5 * 60 * NANOS, lease_duration = 6 * 60 * NANOS,
      exec_timeout = 5 * 60 * NANOS, poll_interval = 1 * NANOS, batch = 10\<rparr>"

text \<open>The greatest \<open>Duration\<close>: \<open>u64\<close> seconds and 999999999 nanoseconds.\<close>

definition DURATION_MAX :: nat where "DURATION_MAX = 2 ^ 64 * NANOS - 1"

definition saturating_mul :: "nat \<Rightarrow> nat \<Rightarrow> nat" where
  "saturating_mul d k = min (d * k) DURATION_MAX"

text \<open>The shift stays below 32, so \<open>checked_shl\<close> always succeeds.\<close>

definition backoff_for :: "nat \<Rightarrow> nat \<Rightarrow> nat \<Rightarrow> nat" where
  "backoff_for attempts base cap =
     (let shift = min (attempts - 1) 20 in min (saturating_mul base (2 ^ shift)) cap)"

section \<open>The worker\<close>

record 's job_store_ops =
  so_enqueue :: "new_job \<Rightarrow> system_time \<Rightarrow> 's \<Rightarrow> (error, enqueue_outcome) result \<times> 's"
  so_lease :: "str \<Rightarrow> system_time \<Rightarrow> nat \<Rightarrow> nat \<Rightarrow> 's \<Rightarrow> (error, job list) result \<times> 's"
  so_ack :: "int \<Rightarrow> 's \<Rightarrow> (error, unit) result \<times> 's"
  so_retry :: "int \<Rightarrow> system_time \<Rightarrow> 's \<Rightarrow> (error, unit) result \<times> 's"
  so_dead_letter :: "int \<Rightarrow> 's \<Rightarrow> (error, unit) result \<times> 's"
  so_list_dead :: "str \<Rightarrow> nat \<Rightarrow> 's \<Rightarrow> (error, job list) result"
  so_requeue_dead :: "int \<Rightarrow> 's \<Rightarrow> (error, unit) result \<times> 's"

definition mem_ops :: "mem_jobs job_store_ops" where
  "mem_ops = \<lparr>so_enqueue = mem_enqueue, so_lease = mem_lease, so_ack = mem_ack, so_retry = mem_retry,
     so_dead_letter = mem_dead_letter, so_list_dead = mem_list_dead, so_requeue_dead = mem_requeue_dead\<rparr>"

lemma mem_ops_simps [simp]:
  "so_enqueue mem_ops = mem_enqueue" "so_lease mem_ops = mem_lease" "so_ack mem_ops = mem_ack"
  "so_retry mem_ops = mem_retry" "so_dead_letter mem_ops = mem_dead_letter"
  "so_list_dead mem_ops = mem_list_dead" "so_requeue_dead mem_ops = mem_requeue_dead"
  by (simp_all add: mem_ops_def)

type_synonym ('r, 'v, 's) job_fn = "('r, 'v) request_ctx \<Rightarrow> json \<Rightarrow> 's \<Rightarrow> (error, unit) result run \<times> 's"

record ('r, 'v, 's) worker =
  w_store :: "'s job_store_ops"
  w_dispatch :: "str \<Rightarrow> ('r, 'v, 's) job_fn option"
  w_config :: job_config

definition worker_fail :: "('r, 'v, 's) worker \<Rightarrow> job \<Rightarrow> system_time \<Rightarrow> 's \<Rightarrow> (error, unit) result \<times> 's" where
  "worker_fail w j now s =
     (if j_max_attempts j \<le> j_attempts j then so_dead_letter (w_store w) (j_id j) s
      else so_retry (w_store w) (j_id j)
             (now + backoff_for (j_attempts j) (backoff_base (w_config w)) (backoff_cap (w_config w))) s)"

fun after :: "nat \<Rightarrow> 'a run \<Rightarrow> 'a run" where
  "after t (Done t' x) = Done (t + t') x"
| "after t Hang = Hang"
| "after t (Panic t') = Panic (t + t')"

text \<open>
  The loop over the leased jobs. A panic of a task unwinds through the tick and leaves the rest of
  the batch leased; an error of the store leaves the loop by \<open>?\<close>.
\<close>

fun run_jobs ::
  "('r, 'v, 's) worker \<Rightarrow> system_time \<Rightarrow> 'r \<Rightarrow> ('r, 'v) request_ctx \<Rightarrow> job list \<Rightarrow> 's \<Rightarrow> (error, unit) result run \<times> 's" where
  "run_jobs w now ph base [] s = (Done 0 (Ok ()), s)"
| "run_jobs w now ph base (j # js) s =
     (case w_dispatch w (j_name j) of
        None \<Rightarrow>
          (case so_dead_letter (w_store w) (j_id j) s of
             (Err e, s1) \<Rightarrow> (Done 0 (Err e), s1)
           | (Ok _, s1) \<Rightarrow> run_jobs w now ph base js s1)
      | Some task \<Rightarrow>
          (case task (fork ph base) (j_payload j) s of (r, s1) \<Rightarrow>
             (case with_timeout (exec_timeout (w_config w)) r of
                Hang \<Rightarrow> (Hang, s1)
              | Panic t \<Rightarrow> (Panic t, s1)
              | Done t outcome \<Rightarrow>
                  (case (case outcome of
                           Ok (Ok _) \<Rightarrow> so_ack (w_store w) (j_id j) s1
                         | Ok (Err _) \<Rightarrow> worker_fail w j now s1
                         | Err _ \<Rightarrow> worker_fail w j now s1) of
                     (Err e, s2) \<Rightarrow> (Done t (Err e), s2)
                   | (Ok _, s2) \<Rightarrow>
                       (case run_jobs w now ph base js s2 of (r', s3) \<Rightarrow> (after t r', s3))))))"

definition effective_lease :: "job_config \<Rightarrow> nat" where
  "effective_lease c = max (lease_duration c) (exec_timeout c)"

definition tick ::
  "('r, 'v, 's) worker \<Rightarrow> str \<Rightarrow> system_time \<Rightarrow> 'r \<Rightarrow> ('r, 'v) request_ctx \<Rightarrow> 's \<Rightarrow> (error, nat) result run \<times> 's" where
  "tick w queue now ph base s =
     (case so_lease (w_store w) queue now (effective_lease (w_config w)) (batch (w_config w)) s of
        (Err e, s1) \<Rightarrow> (Done 0 (Err e), s1)
      | (Ok jobs, s1) \<Rightarrow>
          (case run_jobs w now ph base jobs s1 of (r, s2) \<Rightarrow>
             (map_run (map_sum (\<lambda>e. e) (\<lambda>_. length jobs)) r, s2)))"

section \<open>The engine\<close>

text \<open>
  The extension's value. \<open>cron_state\<close>, shared behind a mutex by all clones, is passed explicitly; a
  Postgres leader (\<open>pg_leader\<close>) is its \<open>cron_tick\<close>, a parameter.
\<close>

type_synonym cron_entry = "str \<times> cron_schedule \<times> str"

record ('r, 'v, 's) jobs =
  jb_store :: "'s job_store_ops"
  jb_config :: job_config
  jb_dispatch :: "str \<Rightarrow> ('r, 'v, 's) job_fn option"
  jb_queues :: "(str \<times> nat) list"
  jb_crons :: "cron_entry list"
  jb_pg_leader :: "(cron_entry list \<Rightarrow> system_time \<Rightarrow> 's \<Rightarrow> (error, nat) result \<times> 's) option"

definition jobs_over :: "'s job_store_ops \<Rightarrow> ('r, 'v, 's) jobs" where
  "jobs_over ops = \<lparr>jb_store = ops, jb_config = job_config_default, jb_dispatch = (\<lambda>_. None), jb_queues = [],
     jb_crons = [], jb_pg_leader = None\<rparr>"

definition jobs_in_memory :: "('r, 'v, mem_jobs) jobs" where "jobs_in_memory = jobs_over mem_ops"

definition jobs_store :: "'s job_store_ops \<Rightarrow> ('r, 'v, 's) jobs \<Rightarrow> ('r, 'v, 's) jobs" where
  "jobs_store ops jb = jb\<lparr>jb_store := ops, jb_pg_leader := None\<rparr>"

definition jobs_config :: "job_config \<Rightarrow> ('r, 'v, 's) jobs \<Rightarrow> ('r, 'v, 's) jobs" where
  "jobs_config c jb = jb\<lparr>jb_config := c\<rparr>"

definition jobs_register :: "str \<Rightarrow> ('r, 'v, 's) job_fn \<Rightarrow> ('r, 'v, 's) jobs \<Rightarrow> ('r, 'v, 's) jobs" where
  "jobs_register name f jb = jb\<lparr>jb_dispatch := (jb_dispatch jb)(name \<mapsto> f)\<rparr>"

definition jobs_queue :: "str \<Rightarrow> nat \<Rightarrow> ('r, 'v, 's) jobs \<Rightarrow> ('r, 'v, 's) jobs" where
  "jobs_queue name concurrency jb = jb\<lparr>jb_queues := jb_queues jb @ [(name, max concurrency 1)]\<rparr>"

text \<open>A bad expression panics while the application is built: \<open>Inl\<close> is the panic, with the parser's error.\<close>

definition jobs_cron :: "str \<Rightarrow> str \<Rightarrow> str \<Rightarrow> ('r, 'v, 's) jobs \<Rightarrow> (cron_error, ('r, 'v, 's) jobs) result option" where
  "jobs_cron job expr queue jb =
     map_option (map_sum (\<lambda>e. e) (\<lambda>sched. jb\<lparr>jb_crons := jb_crons jb @ [(job, sched, queue)]\<rparr>)) (cron_parse expr)"

definition jobs_handle_enqueue ::
  "('r, 'v, 's) jobs \<Rightarrow> new_job \<Rightarrow> system_time \<Rightarrow> 's \<Rightarrow> (error, enqueue_outcome) result \<times> 's" where
  "jobs_handle_enqueue jb = so_enqueue (jb_store jb)"

subsection \<open>The cron leader\<close>

definition cron_idempotency_key :: "str \<Rightarrow> system_time \<Rightarrow> str" where
  "cron_idempotency_key job fire = ''cron:'' @ job @ '':'' @ show_nat (fire div 10 ^ 6)"

record due =
  due_job :: str
  due_queue :: str
  due_at :: system_time
  due_key :: str

type_synonym cron_state = "str \<Rightarrow> system_time option"

text \<open>The three phases of \<open>cron_tick_once\<close>: what is due, under the lock; the enqueues, without it; the
  record of what was enqueued.\<close>

definition cron_due :: "cron_entry list \<Rightarrow> cron_state \<Rightarrow> system_time \<Rightarrow> due list" where
  "cron_due crons st now = List.map_filter (\<lambda>(job, sched, queue).
     map_option (\<lambda>fire. \<lparr>due_job = job, due_queue = queue, due_at = fire, due_key = cron_idempotency_key job fire\<rparr>)
       (due_fire sched (st job) now)) crons"

definition due_request :: "due \<Rightarrow> new_job" where
  "due_request d = with_run_at (due_at d) (with_idempotency_key (due_key d) (new_job_new (due_job d) (due_queue d)))"

fun enqueue_due :: "'s job_store_ops \<Rightarrow> system_time \<Rightarrow> due list \<Rightarrow> 's \<Rightarrow> nat \<times> due list \<times> 's" where
  "enqueue_due ops now [] s = (0, [], s)"
| "enqueue_due ops now (d # ds) s =
     (case so_enqueue ops (due_request d) now s of (r, s1) \<Rightarrow>
        (case enqueue_due ops now ds s1 of (n, adv, s2) \<Rightarrow>
           (case r of
              Ok (Inserted _) \<Rightarrow> (n + 1, d # adv, s2)
            | Ok (Duplicate _) \<Rightarrow> (n, d # adv, s2)
            | Err _ \<Rightarrow> (n, adv, s2))))"

definition record_fires :: "due list \<Rightarrow> cron_state \<Rightarrow> cron_state" where
  "record_fires adv st = foldl (\<lambda>m d. m(due_job d \<mapsto> due_at d)) st adv"

definition cron_tick_once ::
  "('r, 'v, 's) jobs \<Rightarrow> system_time \<Rightarrow> cron_state \<Rightarrow> 's \<Rightarrow> nat \<times> cron_state \<times> 's" where
  "cron_tick_once jb now st s =
     (case enqueue_due (jb_store jb) now (cron_due (jb_crons jb) st now) s of
        (n, adv, s') \<Rightarrow> (n, record_fires adv st, s'))"

definition cron_poll_once ::
  "('r, 'v, 's) jobs \<Rightarrow> system_time \<Rightarrow> cron_state \<Rightarrow> 's \<Rightarrow> (error, nat) result \<times> cron_state \<times> 's" where
  "cron_poll_once jb now st s =
     (case jb_pg_leader jb of
        Some cron_tick \<Rightarrow> (case cron_tick (jb_crons jb) now s of (r, s') \<Rightarrow> (r, st, s'))
      | None \<Rightarrow> (case cron_tick_once jb now st s of (n, st', s') \<Rightarrow> (Ok n, st', s')))"

subsection \<open>The loops registered with the application\<close>

text \<open>A loop is run on the instants at which its timer fires before shutdown is signalled. An error of a
  tick is logged; a panic ends the worker's loop (the flag says whether the loop reached shutdown).\<close>

datatype serve_task = WorkerLoop str | CronLoop

definition jobs_extension :: "('r, 'v, 's) jobs \<Rightarrow> (str \<times> serve_task) list" where
  "jobs_extension jb =
     concat (map (\<lambda>(q, concurrency). map (\<lambda>i. (''jobs-worker-'' @ q @ ''-'' @ show_nat i, WorkerLoop q)) [0..<concurrency])
       (jb_queues jb)) @
     (if jb_crons jb = [] then [] else [(''jobs-cron'', CronLoop)])"

fun worker_polls ::
  "('r, 'v, 's) worker \<Rightarrow> str \<Rightarrow> 'r \<Rightarrow> ('r, 'v) request_ctx \<Rightarrow> system_time list \<Rightarrow> 's \<Rightarrow> bool \<times> 's" where
  "worker_polls w q ph ctx [] s = (True, s)"
| "worker_polls w q ph ctx (now # nows) s =
     (case tick w q now ph (fork ph ctx) s of
        (Done _ _, s') \<Rightarrow> worker_polls w q ph ctx nows s'
      | (Panic _, s') \<Rightarrow> (False, s')
      | (Hang, s') \<Rightarrow> (False, s'))"

fun cron_polls :: "('r, 'v, 's) jobs \<Rightarrow> system_time list \<Rightarrow> cron_state \<Rightarrow> 's \<Rightarrow> cron_state \<times> 's" where
  "cron_polls jb [] st s = (st, s)"
| "cron_polls jb (now # nows) st s =
     (case cron_poll_once jb now st s of (_, st', s') \<Rightarrow> cron_polls jb nows st' s')"

text \<open>Both loops first resolve the clock of their task context; without one they do not start.\<close>

definition worker_loop ::
  "('r, 'v, 's) jobs \<Rightarrow> str \<Rightarrow> 'r \<Rightarrow> ('r, 'v) request_ctx \<Rightarrow> system_time list \<Rightarrow> 's \<Rightarrow> bool \<times> 's" where
  "worker_loop jb q ph ctx nows s =
     (case resolve 33 ctx ''Clock'' of
        Some (Ok _, ctx') \<Rightarrow>
          worker_polls \<lparr>w_store = jb_store jb, w_dispatch = jb_dispatch jb, w_config = jb_config jb\<rparr> q ph ctx' nows s
      | _ \<Rightarrow> (False, s))"

definition cron_loop ::
  "('r, 'v, 's) jobs \<Rightarrow> 'r \<Rightarrow> ('r, 'v) request_ctx \<Rightarrow> system_time list \<Rightarrow> cron_state \<Rightarrow> 's \<Rightarrow> cron_state \<times> 's" where
  "cron_loop jb ph ctx nows st s =
     (case resolve 33 ctx ''Clock'' of Some (Ok _, _) \<Rightarrow> cron_polls jb nows st s | _ \<Rightarrow> (st, s))"

section \<open>Lemmas on the worker\<close>

fun run_time :: "'a run \<Rightarrow> nat option" where
  "run_time (Done t _) = Some t"
| "run_time (Panic t) = Some t"
| "run_time Hang = None"

lemma run_time_after [simp]: "run_time (after t r) = map_option ((+) t) (run_time r)"
  by (cases r) auto

lemma run_time_map [simp]: "run_time (map_run f r) = run_time r"
  by (cases r) auto

lemma with_timeout_time: "\<exists>t. run_time (with_timeout b r) = Some t \<and> t \<le> b"
  by (cases r) auto

lemma with_timeout_cases:
  obtains t x where "with_timeout b r = Done t x" "t \<le> b"
  | t where "with_timeout b r = Panic t" "t \<le> b"
  by (cases r; cases "with_timeout b r") (auto split: if_splits)

text \<open>A batch of \<open>n\<close> jobs takes at most \<open>n\<close> execution timeouts.\<close>

lemma run_jobs_time:
  "\<exists>t. run_time (fst (run_jobs w now ph base js s)) = Some t \<and> t \<le> length js * exec_timeout (w_config w)"
proof (induction js arbitrary: s)
  case (Cons j js)
  let ?b = "exec_timeout (w_config w)"
  show ?case
  proof (cases "w_dispatch w (j_name j)")
    case None
    obtain x s1 where d: "so_dead_letter (w_store w) (j_id j) s = (x, s1)" by fastforce
    obtain t where "run_time (fst (run_jobs w now ph base js s1)) = Some t" "t \<le> length js * ?b"
      using Cons.IH by blast
    with None d show ?thesis by (cases x) auto
  next
    case (Some task)
    obtain r s1 where r: "task (fork ph base) (j_payload j) s = (r, s1)" by fastforce
    show ?thesis
    proof (cases rule: with_timeout_cases [of ?b r])
      case (1 t outcome)
      let ?settle = "case outcome of Ok (Ok _) \<Rightarrow> so_ack (w_store w) (j_id j) s1
        | Ok (Err _) \<Rightarrow> worker_fail w j now s1 | Err _ \<Rightarrow> worker_fail w j now s1"
      obtain x s2 where x: "?settle = (x, s2)" by fastforce
      obtain t' where "run_time (fst (run_jobs w now ph base js s2)) = Some t'" "t' \<le> length js * ?b"
        using Cons.IH by blast
      with Some r 1 x show ?thesis by (cases x) (auto split: prod.split)
    next
      case (2 t)
      with Some r show ?thesis by simp
    qed
  qed
qed simp

text \<open>What the tick leaves in the row of a job whose task ran as \<open>r\<close>, or that had no task.\<close>

definition settle :: "job_config \<Rightarrow> system_time \<Rightarrow> (error, unit) result run option \<Rightarrow> job \<Rightarrow> job" where
  "settle c now r j =
     (case r of
        None \<Rightarrow> j\<lparr>j_status := StDead\<rparr>
      | Some r \<Rightarrow>
          if \<exists>t \<le> exec_timeout c. r = Done t (Ok ()) then j\<lparr>j_status := StDone\<rparr>
          else if j_max_attempts j \<le> j_attempts j then j\<lparr>j_status := StDead\<rparr>
          else j\<lparr>j_status := StPending,
                 j_run_at := now + backoff_for (j_attempts j) (backoff_base c) (backoff_cap c),
                 j_lease_expires_at := None\<rparr>)"

text \<open>While tasks run, whatever they or other clients do to the store, nobody else writes or claims the
  jobs \<open>ids\<close>.\<close>

definition keeps_off :: "int set \<Rightarrow> ('r, 'v, mem_jobs) worker \<Rightarrow> bool" where
  "keeps_off ids w \<longleftrightarrow> (\<forall>name task ctx p s. w_dispatch w name = Some task \<longrightarrow>
     (\<exists>ls. path mem_step ls s (snd (task ctx p s)) \<and> (\<forall>l \<in> set ls. ids \<inter> (op_writes l \<union> op_claims l) = {})))"

lemma path_keeps:
  assumes "path mem_step ls s s'" "jobs_inv s" "\<forall>l \<in> set ls. i \<notin> op_writes l \<and> i \<notin> op_claims l" "mem_row s i = Some j"
  shows "mem_row s' i = Some j"
  using assms
proof (induction ls arbitrary: s)
  case (Cons l ls)
  then obtain s1 where s1: "mem_step l s s1" "path mem_step ls s1 s'" by auto
  have "mem_row s1 i = Some j" using mem.step_row [OF s1(1) Cons.prems(2,4)] Cons.prems(3) by auto
  with Cons.IH [OF s1(2) mem.step_inv [OF s1(1) Cons.prems(2)]] Cons.prems(3) show ?case by simp
qed simp

lemma path_inv: "path mem_step ls s s' \<Longrightarrow> jobs_inv s \<Longrightarrow> jobs_inv s'"
  by (induction ls arbitrary: s) (auto dest: mem.step_inv)

text \<open>The end of one job's turn: its row is settled, no other row changes.\<close>

lemma turn_settles:
  fixes now :: system_time
  assumes "jobs_inv s" "mem_row s (j_id j) = Some j" "w_store w = mem_ops"
    "with_timeout (exec_timeout (w_config w)) r = Done t outcome"
  defines "res \<equiv> (case outcome of Ok (Ok _) \<Rightarrow> so_ack (w_store w) (j_id j) s
        | Ok (Err _) \<Rightarrow> worker_fail w j now s | Err _ \<Rightarrow> worker_fail w j now s)"
  shows "fst res = Ok () \<and> jobs_inv (snd res) \<and>
    mem_row (snd res) = (mem_row s)(j_id j \<mapsto> settle (w_config w) now (Some r) j)"
proof -
  have good: "(\<exists>t \<le> exec_timeout (w_config w). r = Done t (Ok ())) \<longleftrightarrow> outcome = Ok (Ok ())"
    using assms(4) by (cases r) (auto split: if_splits)
  note inv = mem.ack_inv [OF assms(1)] mem.dead_inv [OF assms(1)] mem.retry_inv [OF assms(1)]
  have f: "fst (worker_fail w j now s) = Ok () \<and> jobs_inv (snd (worker_fail w j now s)) \<and>
      mem_row (snd (worker_fail w j now s)) = (mem_row s)(j_id j \<mapsto> settle (w_config w) now (Some r) j)"
    if "outcome \<noteq> Ok (Ok ())"
    using that good inv assms(2,3)
    by (auto simp: worker_fail_def settle_def mem_dead_letter_def mem_retry_def mem_row_update Let_def)
  have a: "fst (mem_ack (j_id j) s) = Ok () \<and> jobs_inv (snd (mem_ack (j_id j) s)) \<and>
      mem_row (snd (mem_ack (j_id j) s)) = (mem_row s)(j_id j \<mapsto> settle (w_config w) now (Some r) j)"
    if "outcome = Ok (Ok ())"
    using that good inv assms(2) by (auto simp: settle_def mem_ack_def mem_row_update)
  show ?thesis
  proof (cases "outcome = Ok (Ok ())")
    case True
    with a assms(3) show ?thesis by (simp add: res_def)
  next
    case False
    then have "res = worker_fail w j now s" by (auto simp: res_def split: sum.split)
    with f [OF False] show ?thesis by simp
  qed
qed

definition task_runs :: "('r, 'v, 's) worker \<Rightarrow> 'r \<Rightarrow> ('r, 'v) request_ctx \<Rightarrow> job \<Rightarrow> (error, unit) result run option \<Rightarrow> bool" where
  "task_runs w ph base j r \<longleftrightarrow>
     (case w_dispatch w (j_name j) of None \<Rightarrow> r = None
      | Some task \<Rightarrow> (\<exists>s. r = Some (fst (task (fork ph base) (j_payload j) s))))"

lemma run_jobs_settles:
  assumes "run_jobs w now ph base js s = (Done t (Ok u), s')" "w_store w = mem_ops" "jobs_inv s"
    "distinct (map j_id js)" "\<forall>j \<in> set js. mem_row s (j_id j) = Some j" "j_id ` set js \<subseteq> ids" "keeps_off ids w"
  shows "jobs_inv s' \<and>
    (\<forall>j \<in> set js. \<exists>r. task_runs w ph base j r \<and> mem_row s' (j_id j) = Some (settle (w_config w) now r j)) \<and>
    (\<forall>i \<in> ids - j_id ` set js. \<forall>j. mem_row s i = Some j \<longrightarrow> mem_row s' i = Some j)"
  using assms(1,3-6)
proof (induction js arbitrary: s t)
  case (Cons j js)
  have step: ?case
    if run: "run_jobs w now ph base js s2 = (Done t' (Ok u), s')" and inv2: "jobs_inv s2"
      and runs: "task_runs w ph base j r" and row: "mem_row s2 (j_id j) = Some (settle (w_config w) now r j)"
      and others: "\<forall>i \<in> ids - {j_id j}. \<forall>j'. mem_row s i = Some j' \<longrightarrow> mem_row s2 i = Some j'" for s2 t' r
  proof -
    have "j_id j' \<in> ids - {j_id j}" if "j' \<in> set js" for j'
      using that Cons.prems(3,5) by (auto simp: image_iff)
    then have "\<forall>j' \<in> set js. mem_row s2 (j_id j') = Some j'"
      using others Cons.prems(4) by simp
    then have IH: "jobs_inv s'"
      "\<forall>j \<in> set js. \<exists>r. task_runs w ph base j r \<and> mem_row s' (j_id j) = Some (settle (w_config w) now r j)"
      "\<forall>i \<in> ids - j_id ` set js. \<forall>j. mem_row s2 i = Some j \<longrightarrow> mem_row s' i = Some j"
      using Cons.IH [OF run inv2] Cons.prems(3,5) by auto
    have "j_id j \<in> ids - j_id ` set js" using Cons.prems(3,5) by auto
    with IH(3) row have "mem_row s' (j_id j) = Some (settle (w_config w) now r j)" by blast
    with IH others runs show ?thesis by auto
  qed
  show ?case
  proof (cases "w_dispatch w (j_name j)")
    case None
    obtain s2 where d: "mem_dead_letter (j_id j) s = (Ok (), s2)" by (simp add: mem_dead_letter_def)
    have row2: "mem_row s2 = (mem_row s)(j_id j \<mapsto> settle (w_config w) now None j)"
      using mem.dead_ok [OF Cons.prems(2) d] Cons.prems(4) by (simp add: settle_def)
    have "jobs_inv s2" using mem.dead_inv [OF Cons.prems(2), of "j_id j"] d by simp
    moreover have "run_jobs w now ph base js s2 = (Done t (Ok u), s')"
      using Cons.prems(1) None d assms(2) by simp
    ultimately show ?thesis using None row2 by (intro step [of s2 t None]) (auto simp: task_runs_def)
  next
    case (Some task)
    obtain r s1 where r: "task (fork ph base) (j_payload j) s = (r, s1)" by fastforce
    then obtain ls where ls: "path mem_step ls s s1" "\<forall>l \<in> set ls. ids \<inter> (op_writes l \<union> op_claims l) = {}"
      using assms(7) Some unfolding keeps_off_def by (metis snd_conv)
    have inv1: "jobs_inv s1" using path_inv [OF ls(1) Cons.prems(2)] .
    have keep: "mem_row s1 i = Some j'" if "i \<in> ids" "mem_row s i = Some j'" for i j'
      using path_keeps [OF ls(1) Cons.prems(2) _ that(2)] ls(2) that(1) by blast
    show ?thesis
    proof (cases rule: with_timeout_cases [of "exec_timeout (w_config w)" r])
      case (1 t0 outcome)
      let ?res = "case outcome of Ok (Ok _) \<Rightarrow> so_ack (w_store w) (j_id j) s1
        | Ok (Err _) \<Rightarrow> worker_fail w j now s1 | Err _ \<Rightarrow> worker_fail w j now s1"
      obtain x s2 where x: "?res = (x, s2)" by fastforce
      have "mem_row s1 (j_id j) = Some j" using keep Cons.prems(4,5) by simp
      from turn_settles [OF inv1 this assms(2) 1(1), of now] x have s2: "x = Ok ()" "jobs_inv s2"
        "mem_row s2 = (mem_row s1)(j_id j \<mapsto> settle (w_config w) now (Some r) j)" by auto
      obtain r' s3 where r': "run_jobs w now ph base js s2 = (r', s3)" by fastforce
      with Cons.prems(1) Some r 1 x s2(1) have "after t0 r' = Done t (Ok u)" "s3 = s'" by auto
      then obtain t' where "run_jobs w now ph base js s2 = (Done t' (Ok u), s')" using r' by (cases r') auto
      moreover have "task_runs w ph base j (Some r)"
        using Some r by (auto simp: task_runs_def intro!: exI [of _ s])
      ultimately show ?thesis using s2 keep by (intro step [of s2 t' "Some r"]) auto
    next
      case (2 t0)
      with Cons.prems(1) Some r show ?thesis by simp
    qed
  qed
qed simp

section \<open>Lemmas on the cron leader\<close>

text \<open>The key of a job and a minute determines both.\<close>

lemma show_nat_no_colon: "CHR '':'' \<notin> set (show_nat n)"
  using show_nat_ascii [of n] by (auto simp: list_all_iff byte_in_def)

lemma last_separator_unique:
  assumes "a @ c # b = a' @ c # b'" "c \<notin> set b" "c \<notin> set b'"
  shows "a = a' \<and> b = b'"
  using assms by (auto simp: append_eq_append_conv2 Cons_eq_append_conv append_eq_Cons_conv)

lemma minute_millis: "minute_time k div 1000000 = k * 60000"
  by (simp add: minute_time_def NANOS_def SECS_PER_MINUTE_def)

lemma cron_key_inj:
  assumes "cron_idempotency_key job (minute_time k) = cron_idempotency_key job' (minute_time k')"
  shows "job = job' \<and> k = k'"
proof -
  from assms have "job @ CHR '':'' # show_nat (k * 60000) = job' @ CHR '':'' # show_nat (k' * 60000)"
    by (simp add: cron_idempotency_key_def minute_millis)
  from last_separator_unique [OF this show_nat_no_colon show_nat_no_colon]
  have "job = job'" "show_nat (k * 60000) = show_nat (k' * 60000)" by simp_all
  moreover from this(2) have "k * 60000 = k' * 60000" using show_nat_digits(1) by (metis option.inject)
  ultimately show ?thesis by simp
qed

text \<open>What one poll finds due and records, where every job has one cron entry.\<close>

lemma cron_due_iff:
  "d \<in> set (cron_due crons st now) \<longleftrightarrow> (\<exists>job sched queue fire. (job, sched, queue) \<in> set crons \<and>
     due_fire sched (st job) now = Some fire \<and>
     d = \<lparr>due_job = job, due_queue = queue, due_at = fire, due_key = cron_idempotency_key job fire\<rparr>)"
  by (induction crons) (auto simp: cron_due_def map_filter_simps split: option.splits)

lemma record_fires_other:
  "job \<notin> fst ` set crons \<Longrightarrow> record_fires (cron_due crons st0 now) st job = st job"
proof (induction crons arbitrary: st)
  case (Cons c crons)
  then show ?case
    by (cases c) (auto simp: cron_due_def record_fires_def map_filter_simps split: option.splits)
qed (simp add: cron_due_def record_fires_def map_filter_simps)

lemma record_fires_due:
  assumes "distinct (map fst crons)" "(job, sched, queue) \<in> set crons"
  shows "record_fires (cron_due crons st0 now) st job =
    (case due_fire sched (st0 job) now of None \<Rightarrow> st job | Some f \<Rightarrow> Some f)"
  using assms
proof (induction crons arbitrary: st)
  case (Cons c crons)
  obtain job1 sched1 queue1 where c: "c = (job1, sched1, queue1)" by (cases c)
  have cons: "record_fires (cron_due (c # crons) st0 now) st =
      record_fires (cron_due crons st0 now)
        (case due_fire sched1 (st0 job1) now of None \<Rightarrow> st | Some f \<Rightarrow> st(job1 \<mapsto> f))"
    by (auto simp: c cron_due_def record_fires_def map_filter_simps split: option.splits)
  show ?case
  proof (cases "(job, sched, queue) \<in> set crons")
    case True
    then have "job \<in> fst ` set crons" by force
    then have "job \<noteq> job1" using Cons.prems(1) by (auto simp: c)
    with Cons.IH [OF _ True] Cons.prems(1) show ?thesis unfolding cons by (auto split: option.splits)
  next
    case False
    with Cons.prems c have eq: "job1 = job" "sched1 = sched" "job \<notin> fst ` set crons" by auto
    show ?thesis unfolding cons by (auto simp: record_fires_other [OF eq(3)] eq(1,2) split: option.splits)
  qed
qed simp

lemma mem_enqueue_total: "\<exists>r s'. mem_enqueue n now s = (Ok r, s')"
  by (auto simp: mem_enqueue_def Let_def split: option.split)

text \<open>The enqueues of one poll, on the in-memory store.\<close>

lemma enqueue_due_mem:
  assumes "enqueue_due mem_ops now ds s = (n, adv, s')" "jobs_inv s"
  shows "adv = ds \<and> (\<exists>ls. path mem_step ls s s') \<and>
    (\<forall>i j. mem_row s i = Some j \<longrightarrow> mem_row s' i = Some j) \<and>
    (\<forall>d \<in> set ds. \<exists>i j. mem_row s' i = Some j \<and> j_idempotency_key j = Some (due_key d)) \<and>
    (\<forall>i j. mem_row s' i = Some j \<longrightarrow> mem_row s i = Some j \<or> (\<exists>d \<in> set ds. j = fresh_row i (due_request d) now))"
  using assms
proof (induction ds arbitrary: s n adv)
  case Nil
  then show ?case by (auto intro!: exI [of _ "[]"])
next
  case (Cons d ds)
  obtain r s1 where r: "mem_enqueue (due_request d) now s = (Ok r, s1)" using mem_enqueue_total by blast
  obtain n1 adv1 where tl: "enqueue_due mem_ops now ds s1 = (n1, adv1, s')" "adv = d # adv1"
    using Cons.prems(1) r by (cases r) (auto split: prod.splits)
  have inv1: "jobs_inv s1" using mem.enqueue_inv [OF Cons.prems(2), of "due_request d" now] r by simp
  have step: "mem_step (OpEnqueue (due_request d) now r) s s1" using r by (rule store_step.step_enqueue)
  have key: "n_idempotency_key (due_request d) = Some (due_key d)"
    by (simp add: due_request_def with_run_at_def with_idempotency_key_def)
  have one: "(\<forall>i j. mem_row s i = Some j \<longrightarrow> mem_row s1 i = Some j) \<and>
      (\<exists>i j. mem_row s1 i = Some j \<and> j_idempotency_key j = Some (due_key d)) \<and>
      (\<forall>i j. mem_row s1 i = Some j \<longrightarrow> mem_row s i = Some j \<or> j = fresh_row i (due_request d) now)"
  proof (cases r)
    case (Inserted i)
    with mem.enqueue_inserted [OF Cons.prems(2)] r have
      "mem_row s i = None \<and> mem_row s1 = (mem_row s)(i \<mapsto> fresh_row i (due_request d) now)" by blast
    then show ?thesis using key by (auto simp: fresh_row_def)
  next
    case (Duplicate i)
    with mem.enqueue_duplicate [OF Cons.prems(2), of "due_request d" now i s1] r key show ?thesis by auto
  qed
  obtain ls where ls: "path mem_step ls s1 s'" using Cons.IH [OF tl(1) inv1] by blast
  from Cons.IH [OF tl(1) inv1] have IH: "adv1 = ds"
    "\<forall>i j. mem_row s1 i = Some j \<longrightarrow> mem_row s' i = Some j"
    "\<forall>d \<in> set ds. \<exists>i j. mem_row s' i = Some j \<and> j_idempotency_key j = Some (due_key d)"
    "\<forall>i j. mem_row s' i = Some j \<longrightarrow> mem_row s1 i = Some j \<or> (\<exists>d \<in> set ds. j = fresh_row i (due_request d) now)"
    by blast+
  have "path mem_step (OpEnqueue (due_request d) now r # ls) s s'" using step ls by auto
  moreover have "\<forall>d' \<in> set (d # ds). \<exists>i j. mem_row s' i = Some j \<and> j_idempotency_key j = Some (due_key d')"
    using one IH(2,3) by (metis set_ConsD)
  moreover have "\<forall>i j. mem_row s' i = Some j \<longrightarrow>
      mem_row s i = Some j \<or> (\<exists>d' \<in> set (d # ds). j = fresh_row i (due_request d') now)"
    using one IH(4) by (metis list.set_intros)
  ultimately show ?case using one IH(1,2) tl(2) by blast
qed

text \<open>All polls of a leader that starts with no record.\<close>

lemma cron_polls_mem:
  assumes "cron_polls jb nows st s = (st', s')" "jb_store jb = mem_ops" "jb_pg_leader jb = None"
    "distinct (map fst (jb_crons jb))" "jobs_inv s"
  shows "(\<exists>ls. path mem_step ls s s') \<and>
    (\<forall>i j. mem_row s i = Some j \<longrightarrow> mem_row s' i = Some j) \<and>
    (\<forall>(job, sched, queue) \<in> set (jb_crons jb). \<forall>f \<in> set (fired sched (st job) nows).
       \<exists>i j. mem_row s' i = Some j \<and> j_idempotency_key j = Some (cron_idempotency_key job f)) \<and>
    (\<forall>i j. mem_row s' i = Some j \<longrightarrow> mem_row s i = Some j \<or>
       (\<exists>(job, sched, queue) \<in> set (jb_crons jb). \<exists>f \<in> set (fired sched (st job) nows). \<exists>now \<in> set nows.
          j = fresh_row i (due_request \<lparr>due_job = job, due_queue = queue, due_at = f,
                due_key = cron_idempotency_key job f\<rparr>) now))"
  using assms(1,5)
proof (induction nows arbitrary: st s)
  case Nil
  then show ?case by (auto simp: fired_def map_filter_simps intro!: exI [of _ "[]"])
next
  case (Cons now nows)
  let ?ds = "cron_due (jb_crons jb) st now"
  obtain n adv s1 where e: "enqueue_due mem_ops now ?ds s = (n, adv, s1)" using prod_cases3 by blast
  let ?st1 = "record_fires ?ds st"
  from enqueue_due_mem [OF e Cons.prems(2)] obtain ls1 where one: "adv = ?ds" "path mem_step ls1 s s1"
    "\<forall>i j. mem_row s i = Some j \<longrightarrow> mem_row s1 i = Some j"
    "\<forall>d \<in> set ?ds. \<exists>i j. mem_row s1 i = Some j \<and> j_idempotency_key j = Some (due_key d)"
    "\<forall>i j. mem_row s1 i = Some j \<longrightarrow> mem_row s i = Some j \<or> (\<exists>d \<in> set ?ds. j = fresh_row i (due_request d) now)"
    by blast
  have inv1: "jobs_inv s1" using path_inv [OF one(2) Cons.prems(2)] .
  have rest: "cron_polls jb nows ?st1 s1 = (st', s')"
    using Cons.prems(1) e one(1) by (simp add: cron_poll_once_def cron_tick_once_def assms(2,3))
  obtain ls2 where ls2: "path mem_step ls2 s1 s'" using Cons.IH [OF rest inv1] by blast
  from Cons.IH [OF rest inv1] have keep: "\<forall>i j. mem_row s1 i = Some j \<longrightarrow> mem_row s' i = Some j"
    and keys: "\<forall>(job, sched, queue) \<in> set (jb_crons jb). \<forall>f \<in> set (fired sched (?st1 job) nows).
       \<exists>i j. mem_row s' i = Some j \<and> j_idempotency_key j = Some (cron_idempotency_key job f)"
    and new: "\<forall>i j. mem_row s' i = Some j \<longrightarrow> mem_row s1 i = Some j \<or>
       (\<exists>(job, sched, queue) \<in> set (jb_crons jb). \<exists>f \<in> set (fired sched (?st1 job) nows). \<exists>now \<in> set nows.
          j = fresh_row i (due_request \<lparr>due_job = job, due_queue = queue, due_at = f,
                due_key = cron_idempotency_key job f\<rparr>) now)"
    by blast+
  have fired: "fired sched (st job) (now # nows) =
      (case due_fire sched (st job) now of None \<Rightarrow> [] | Some f \<Rightarrow> [f]) @ fired sched (?st1 job) nows"
    if "(job, sched, queue) \<in> set (jb_crons jb)" for job sched queue
    using record_fires_due [OF assms(4) that, of st now st]
    by (auto simp: fired_def map_filter_simps split: option.splits)
  have "path mem_step (ls1 @ ls2) s s'" using one(2) ls2 by (auto simp: path_append)
  moreover have "\<exists>i j. mem_row s' i = Some j \<and> j_idempotency_key j = Some (cron_idempotency_key job f)"
    if c: "(job, sched, queue) \<in> set (jb_crons jb)" and f: "f \<in> set (fired sched (st job) (now # nows))" for job sched queue f
  proof (cases "due_fire sched (st job) now = Some f")
    case True
    with c have "\<lparr>due_job = job, due_queue = queue, due_at = f, due_key = cron_idempotency_key job f\<rparr> \<in> set ?ds"
      by (auto simp: cron_due_iff)
    with one(4) keep show ?thesis by fastforce
  next
    case False
    then have "f \<in> set (fired sched (?st1 job) nows)" using f unfolding fired [OF c] by (auto split: option.splits)
    with keys c show ?thesis by blast
  qed
  moreover have "mem_row s i = Some j \<or>
       (\<exists>(job, sched, queue) \<in> set (jb_crons jb). \<exists>f \<in> set (fired sched (st job) (now # nows)). \<exists>now \<in> set (now # nows).
          j = fresh_row i (due_request \<lparr>due_job = job, due_queue = queue, due_at = f,
                due_key = cron_idempotency_key job f\<rparr>) now)"
    if "mem_row s' i = Some j" for i j
  proof (cases "mem_row s1 i = Some j")
    case True
    with one(5) show ?thesis
    proof (cases "mem_row s i = Some j")
      case False
      with True one(5) obtain d where "d \<in> set ?ds" "j = fresh_row i (due_request d) now" by blast
      then obtain job sched queue f where d: "(job, sched, queue) \<in> set (jb_crons jb)" "due_fire sched (st job) now = Some f"
        "j = fresh_row i (due_request \<lparr>due_job = job, due_queue = queue, due_at = f, due_key = cron_idempotency_key job f\<rparr>) now"
        unfolding cron_due_iff by blast
      have "f \<in> set (fired sched (st job) (now # nows))" unfolding fired [OF d(1)] using d(2) by simp
      with d show ?thesis by fastforce
    qed simp
  next
    case False
    with new that obtain job sched queue f now' where d: "(job, sched, queue) \<in> set (jb_crons jb)"
      "f \<in> set (fired sched (?st1 job) nows)" "now' \<in> set nows"
      "j = fresh_row i (due_request \<lparr>due_job = job, due_queue = queue, due_at = f, due_key = cron_idempotency_key job f\<rparr>) now'"
      by blast
    then have "f \<in> set (fired sched (st job) (now # nows))" unfolding fired [OF d(1)] by simp
    with d show ?thesis by fastforce
  qed
  ultimately show ?case using one(3) keep by blast
qed

section \<open>Properties\<close>

text \<open>C11: the worker settles every job of its batch. If a tick over a reachable store runs to its end, and
  nobody else writes or claims the batch's jobs while its tasks run, then it reports as many jobs as
  it leased, at most the configured batch, and the row of each is done when its task succeeded within
  the execution timeout, dead when it has no handler or failed (or timed out) on its last attempt,
  and otherwise pending again, due after the backoff: no job stays leased.\<close>

theorem tick_settles_batch:
  assumes "path mem_step ls mem_jobs_new s" "w_store w = mem_ops"
    "mem_lease q now (effective_lease (w_config w)) (batch (w_config w)) s = (Ok js, s1)"
    "keeps_off (j_id ` set js) w" "tick w q now ph base s = (Done t (Ok n), s2)"
  shows "n = length js \<and> n \<le> batch (w_config w) \<and>
    (\<forall>j \<in> set js. \<exists>r. task_runs w ph base j r \<and> mem_row s2 (j_id j) = Some (settle (w_config w) now r j) \<and>
       j_status (settle (w_config w) now r j) \<noteq> StLeased)"
proof -
  note inv = mem_reachable(1) [OF assms(1)]
  note ok = mem.lease_ok [OF inv assms(3)]
  have inv1: "jobs_inv s1" using mem.lease_inv [OF inv, of q now _ "batch (w_config w)"] assms(3) by (metis snd_conv)
  have rows: "\<forall>j \<in> set js. mem_row s1 (j_id j) = Some j" using ok by auto
  obtain r where r: "run_jobs w now ph base js s1 = (r, s2)" "Done t (Ok n) = map_run (map_sum (\<lambda>e. e) (\<lambda>_. length js)) r"
    using assms(5) by (auto simp: tick_def assms(2,3) split: prod.splits)
  then obtain x where x: "r = Done t x" "Ok n = map_sum (\<lambda>e. e) (\<lambda>_. length js) x" by (cases r) auto
  then obtain u where u: "r = Done t (Ok u)" "n = length js" by (cases x) auto
  have "settle (w_config w) now r' j = j' \<Longrightarrow> j_status j' \<noteq> StLeased" for r' j j'
    by (auto simp: settle_def split: option.splits if_splits)
  with run_jobs_settles [OF r(1) [unfolded u(1)] assms(2) inv1 _ rows order_refl assms(4)] ok u(2)
  show ?thesis by blast
qed

text \<open>An example worker: one task that takes four minutes and succeeds, with the default configuration.\<close>

definition four_minutes :: nat where "four_minutes = 4 * 60 * NANOS"

definition example_worker :: "('r, 'v, mem_jobs) worker" where
  "example_worker = \<lparr>w_store = mem_ops, w_dispatch = [''j'' \<mapsto> (\<lambda>ctx p s. (Done four_minutes (Ok ()), s))],
     w_config = job_config_default\<rparr>"

definition plain_job :: new_job where "plain_job = new_job_new ''j'' ''q''"

definition two_jobs :: mem_jobs where
  "two_jobs = \<lparr>mj_jobs = [(1, fresh_row 1 plain_job 0), (2, fresh_row 2 plain_job 0)], mj_keys = (\<lambda>_. None), mj_next_id = 3\<rparr>"

lemma two_jobs_path:
  "path mem_step [OpEnqueue plain_job 0 (Inserted 1), OpEnqueue plain_job 0 (Inserted 2)] mem_jobs_new two_jobs"
proof -
  let ?s1 = "\<lparr>mj_jobs = [(1, fresh_row 1 plain_job 0)], mj_keys = (\<lambda>_. None), mj_next_id = 2\<rparr>"
  have "mem_enqueue plain_job 0 mem_jobs_new = (Ok (Inserted 1), ?s1)"
    "mem_enqueue plain_job 0 ?s1 = (Ok (Inserted 2), two_jobs)"
    by (simp_all add: mem_enqueue_def plain_job_def new_job_new_def mem_jobs_new_def two_jobs_def Let_def)
  then have "mem_step (OpEnqueue plain_job 0 (Inserted 1)) mem_jobs_new ?s1"
    "mem_step (OpEnqueue plain_job 0 (Inserted 2)) ?s1 two_jobs"
    by (auto intro: store_step.step_enqueue)
  then show ?thesis by auto
qed

text \<open>The two jobs, leased at instant 0 by the default configuration.\<close>

definition leased_job :: "int \<Rightarrow> job" where
  "leased_job i = claim 0 (6 * 60 * NANOS) (fresh_row i plain_job 0)"

definition two_leased :: mem_jobs where
  "two_leased = two_jobs\<lparr>mj_jobs := [(1, leased_job 1), (2, leased_job 2)]\<rparr>"

lemma leased_job_simps:
  "j_id (leased_job i) = i" "j_name (leased_job i) = ''j''" "j_queue (leased_job i) = ''q''"
  "j_status (leased_job i) = StLeased" "j_lease_expires_at (leased_job i) = Some (6 * 60 * NANOS)"
  "j_attempts (leased_job i) = 1" "j_run_at (leased_job i) = 0"
  by (simp_all add: leased_job_def claim_def fresh_row_def plain_job_def new_job_new_def)

lemma fresh_plain_simps:
  "j_id (fresh_row i plain_job 0) = i" "j_queue (fresh_row i plain_job 0) = ''q''"
  "j_status (fresh_row i plain_job 0) = StPending" "j_run_at (fresh_row i plain_job 0) = 0"
  by (simp_all add: fresh_row_def plain_job_def new_job_new_def)

lemma default_lease [simp]: "effective_lease job_config_default = 6 * 60 * NANOS" "batch job_config_default = 10"
  "exec_timeout job_config_default = 5 * 60 * NANOS"
  by (simp_all add: effective_lease_def job_config_default_def)

lemma two_lease: "mem_lease ''q'' 0 (6 * 60 * NANOS) 10 two_jobs = (Ok [leased_job 1, leased_job 2], two_leased)"
  by (simp add: mem_lease_def Let_def mem_due_def two_jobs_def is_due_def fresh_plain_simps claim_key_def
      two_leased_def leased_job_def update_row_def)

lemma example_worker_simps [simp]: "w_config example_worker = job_config_default" "w_store example_worker = mem_ops"
  by (simp_all add: example_worker_def)

lemma example_run:
  "run_jobs example_worker 0 ph base [leased_job 1] two_leased =
     (Done four_minutes (Ok ()), update_row 1 (\<lambda>j. j\<lparr>j_status := StDone\<rparr>) two_leased)"
  "run_jobs example_worker 0 ph base [leased_job 1, leased_job 2] two_leased =
     (Done (2 * four_minutes) (Ok ()),
      update_row 2 (\<lambda>j. j\<lparr>j_status := StDone\<rparr>) (update_row 1 (\<lambda>j. j\<lparr>j_status := StDone\<rparr>) two_leased))"
  by (simp_all add: example_worker_def leased_job_simps four_minutes_def NANOS_def mem_ack_def)

lemma example_tick:
  "tick example_worker ''q'' 0 ph base two_jobs =
     (Done (2 * four_minutes) (Ok 2),
      update_row 2 (\<lambda>j. j\<lparr>j_status := StDone\<rparr>) (update_row 1 (\<lambda>j. j\<lparr>j_status := StDone\<rparr>) two_leased))"
  using two_lease by (simp add: tick_def example_run(2) del: run_jobs.simps)

lemma example_keeps_off: "keeps_off ids example_worker"
  unfolding keeps_off_def by (auto simp: example_worker_def split: if_splits intro!: exI [of _ "[]"])

theorem tick_settles_batch_witness:
  "\<exists>t n s2. tick example_worker ''q'' 0 () (task_context_new () env_default Map.empty :: (unit, nat) request_ctx) two_jobs =
      (Done t (Ok n), s2) \<and> n = 2 \<and>
     (\<exists>r. mem_row s2 2 = Some (settle job_config_default 0 r (leased_job 2)))"
proof -
  let ?w = "example_worker :: (unit, nat, mem_jobs) worker"
  let ?c = "task_context_new () env_default Map.empty :: (unit, nat) request_ctx"
  have w: "w_config ?w = job_config_default" "w_store ?w = mem_ops" by (simp_all add: example_worker_def)
  have lease: "mem_lease ''q'' 0 (effective_lease (w_config ?w)) (batch (w_config ?w)) two_jobs =
      (Ok [leased_job 1, leased_job 2], two_leased)" using two_lease w by simp
  from tick_settles_batch [OF two_jobs_path w(2) lease example_keeps_off example_tick] show ?thesis
    using example_tick [of "()" ?c] by (auto simp: w leased_job_simps)
qed

text \<open>A tick always ends, whatever the tasks do: tasks that never finish, panic or overrun are cut off,
  so the tick takes at most \<open>batch\<close> execution timeouts; and where the lease covers that, no lease of
  the batch has run out when the tick ends.\<close>

lemma tick_bounded:
  "\<exists>t. run_time (fst (tick (w\<lparr>w_store := mem_ops\<rparr>) q now ph base s)) = Some t \<and>
     t \<le> batch (w_config w) * exec_timeout (w_config w) \<and>
     (batch (w_config w) * exec_timeout (w_config w) \<le> lease_duration (w_config w) \<longrightarrow>
        (\<forall>js s1. mem_lease q now (effective_lease (w_config w)) (batch (w_config w)) s = (Ok js, s1) \<longrightarrow>
          (\<forall>j \<in> set js. \<exists>e. j_lease_expires_at j = Some e \<and> now + t \<le> e)))"
proof -
  let ?w = "w\<lparr>w_store := mem_ops\<rparr>"
  let ?c = "w_config w"
  obtain js s1 where l: "mem_lease q now (effective_lease ?c) (batch ?c) s = (Ok js, s1)" by (auto simp: mem_lease_def Let_def)
  obtain t where t: "run_time (fst (run_jobs ?w now ph base js s1)) = Some t" "t \<le> length js * exec_timeout ?c"
    using run_jobs_time [of ?w] by (metis worker.select_convs(3) worker.surjective worker.update_convs(1))
  have len: "length js \<le> batch ?c" and exp: "\<forall>j \<in> set js. j_lease_expires_at j = Some (now + effective_lease ?c)"
    using l by (auto simp: mem_lease_simps claim_def)
  have bound: "t \<le> batch ?c * exec_timeout ?c" using t(2) mult_le_mono1 [OF len] by (rule le_trans)
  have "run_time (fst (tick ?w q now ph base s)) = Some t"
    using t(1) l by (auto simp: tick_def split: prod.split)
  moreover have "\<exists>e. j_lease_expires_at j = Some e \<and> now + t \<le> e"
    if "batch ?c * exec_timeout ?c \<le> lease_duration ?c"
      "mem_lease q now (effective_lease ?c) (batch ?c) s = (Ok js', s1')" "j \<in> set js'" for js' s1' j
    using that bound exp l by (auto simp: effective_lease_def)
  ultimately show ?thesis using bound by blast
qed

definition wide_lease_worker :: "('r, 'v, mem_jobs) worker" where
  "wide_lease_worker = example_worker\<lparr>w_config := job_config_default\<lparr>lease_duration := 50 * 60 * NANOS\<rparr>\<rparr>"

text \<open>With the default configuration a running job can be claimed by a second worker. Two jobs whose
  tasks take four minutes each, within the execution timeout of five, are leased together at instant
  0; the worker runs the second from minute four to minute eight, and at minute seven its lease of
  six minutes has run out and another worker's lease gets it.\<close>

lemma batch_overruns_lease:
  fixes base :: "('r, 'v) request_ctx"
  shows "mem_lease ''q'' 0 (effective_lease job_config_default) (batch job_config_default) two_jobs =
      (Ok [leased_job 1, leased_job 2], two_leased) \<and>
    four_minutes \<le> exec_timeout job_config_default \<and>
    (\<exists>s2. run_jobs example_worker 0 ph base [leased_job 1] two_leased = (Done four_minutes (Ok ()), s2) \<and>
       fst (tick example_worker ''q'' 0 ph base two_jobs) = Done (2 * four_minutes) (Ok 2) \<and>
       7 * 60 * NANOS < 2 * four_minutes \<and>
       fst (mem_lease ''q'' (7 * 60 * NANOS) (effective_lease job_config_default) (batch job_config_default) s2) =
         Ok [claim (7 * 60 * NANOS) (6 * 60 * NANOS) (leased_job 2)])"
proof -
  let ?s2 = "update_row 1 (\<lambda>j. j\<lparr>j_status := StDone\<rparr>) two_leased"
  have "fst (mem_lease ''q'' (7 * 60 * NANOS) (6 * 60 * NANOS) 10 ?s2) =
      Ok [claim (7 * 60 * NANOS) (6 * 60 * NANOS) (leased_job 2)]"
    by (simp add: mem_lease_def Let_def mem_due_def update_row_def two_leased_def is_due_def leased_job_simps NANOS_def)
  moreover have "four_minutes \<le> 5 * 60 * NANOS" "7 * 60 * NANOS < 2 * four_minutes"
    by (simp_all add: four_minutes_def NANOS_def)
  ultimately show ?thesis
    using two_lease example_run(1) [of ph base] example_tick [of ph base] by (simp del: run_jobs.simps)
qed

text \<open>The retry backoff is a capped exponential. It never exceeds the cap, never shrinks with the
  attempts, is \<open>base * 2 ^ (attempts - 1)\<close> up to the cap for the first 21 attempts, and is constant from
  there on; so it reaches the cap only if \<open>base * 2 ^ 20\<close> does.\<close>

lemma backoff_capped_exponential:
  assumes "cap \<le> DURATION_MAX"
  shows "backoff_for a base cap \<le> cap \<and> backoff_for a base cap \<le> backoff_for (Suc a) base cap \<and>
    (1 \<le> a \<and> a \<le> 21 \<longrightarrow> backoff_for a base cap = min (base * 2 ^ (a - 1)) cap) \<and>
    (21 \<le> a \<longrightarrow> backoff_for a base cap = min (base * 2 ^ 20) cap)"
proof -
  have b: "backoff_for a base cap = min (base * 2 ^ min (a - 1) 20) cap" for a
    using assms by (simp add: backoff_for_def saturating_mul_def Let_def min.assoc min_absorb2)
  have "base * 2 ^ min (a - 1) 20 \<le> base * 2 ^ min (Suc a - 1) 20"
    by (intro mult_le_mono2 power_increasing) auto
  then have "backoff_for a base cap \<le> backoff_for (Suc a) base cap" unfolding b by (intro min.mono) auto
  moreover have "min (a - 1) 20 = a - 1" if "a \<le> 21" using that by linarith
  moreover have "min (a - 1) 20 = 20" if "21 \<le> a" using that by linarith
  ultimately show ?thesis unfolding b by (metis min.cobounded2)
qed

text \<open>C12: the in-memory cron leader enqueues every fired tick exactly once. In an engine whose jobs have
  one cron entry each, after polls at any instants from a start without a record: every tick that the
  schedule's skip-missed rule fires has exactly one row with its key (a row kept from before a restart
  counts); every new row is pending on the entry's queue, due at the tick's instant and keyed by it;
  and no row that was there has changed.\<close>

theorem cron_engine_exactly_once:
  assumes "path mem_step ls mem_jobs_new s" "jb_store jb = mem_ops" "jb_pg_leader jb = None"
    "distinct (map fst (jb_crons jb))" "cron_polls jb nows Map.empty s = (st', s')"
  shows "(\<forall>i j. mem_row s i = Some j \<longrightarrow> mem_row s' i = Some j) \<and>
    (\<forall>(job, sched, queue) \<in> set (jb_crons jb). \<forall>f \<in> set (fired sched None nows).
       \<exists>!i. \<exists>j. mem_row s' i = Some j \<and> j_idempotency_key j = Some (cron_idempotency_key job f)) \<and>
    (\<forall>i j. mem_row s' i = Some j \<and> mem_row s i = None \<longrightarrow>
       (\<exists>(job, sched, queue) \<in> set (jb_crons jb). \<exists>f \<in> set (fired sched None nows).
          j_name j = job \<and> j_queue j = queue \<and> j_run_at j = f \<and> j_status j = StPending \<and>
          j_idempotency_key j = Some (cron_idempotency_key job f)))"
proof -
  note inv = mem_reachable(1) [OF assms(1)]
  note polls = cron_polls_mem [OF assms(5,2-4) inv]
  from polls obtain ls' where "path mem_step ls' s s'" by blast
  then have uniq: "unique_keys (mem_row s')"
    using mem.path_unique inv mem_reachable(2) [OF assms(1)] by blast
  have once: "\<exists>!i. \<exists>j. mem_row s' i = Some j \<and> j_idempotency_key j = Some (cron_idempotency_key job f)"
    if "(job, sched, queue) \<in> set (jb_crons jb)" "f \<in> set (fired sched None nows)" for job sched queue f
  proof -
    have "\<exists>i j. mem_row s' i = Some j \<and> j_idempotency_key j = Some (cron_idempotency_key job f)"
      using polls that by auto
    with uniq show ?thesis unfolding unique_keys_def by blast
  qed
  have new: "\<exists>(job, sched, queue) \<in> set (jb_crons jb). \<exists>f \<in> set (fired sched None nows).
        j_name j = job \<and> j_queue j = queue \<and> j_run_at j = f \<and> j_status j = StPending \<and>
        j_idempotency_key j = Some (cron_idempotency_key job f)"
    if "mem_row s' i = Some j" "mem_row s i = None" for i j
  proof -
    from polls have "\<forall>i j. mem_row s' i = Some j \<longrightarrow> mem_row s i = Some j \<or>
       (\<exists>(job, sched, queue) \<in> set (jb_crons jb). \<exists>f \<in> set (fired sched None nows). \<exists>now \<in> set nows.
          j = fresh_row i (due_request \<lparr>due_job = job, due_queue = queue, due_at = f,
                due_key = cron_idempotency_key job f\<rparr>) now)" by blast
    with that have "\<exists>(job, sched, queue) \<in> set (jb_crons jb). \<exists>f \<in> set (fired sched None nows). \<exists>now \<in> set nows.
          j = fresh_row i (due_request \<lparr>due_job = job, due_queue = queue, due_at = f,
                due_key = cron_idempotency_key job f\<rparr>) now" by fastforce
    then obtain job sched queue f now where d: "(job, sched, queue) \<in> set (jb_crons jb)"
      "f \<in> set (fired sched None nows)"
      "j = fresh_row i (due_request \<lparr>due_job = job, due_queue = queue, due_at = f, due_key = cron_idempotency_key job f\<rparr>) now"
      by blast
    have "j_name j = job \<and> j_queue j = queue \<and> j_run_at j = f \<and> j_status j = StPending \<and>
        j_idempotency_key j = Some (cron_idempotency_key job f)"
      by (simp add: d(3) fresh_row_def due_request_def with_run_at_def with_idempotency_key_def new_job_new_def)
    with d(1,2) show ?thesis by blast
  qed
  show ?thesis
  proof (intro conjI)
    show "\<forall>i j. mem_row s i = Some j \<longrightarrow> mem_row s' i = Some j" using polls by blast
    show "\<forall>(job, sched, queue) \<in> set (jb_crons jb). \<forall>f \<in> set (fired sched None nows).
        \<exists>!i. \<exists>j. mem_row s' i = Some j \<and> j_idempotency_key j = Some (cron_idempotency_key job f)"
    proof
      fix c assume c: "c \<in> set (jb_crons jb)"
      obtain job sched queue where "c = (job, sched, queue)" by (cases c)
      with c once [of job sched queue] show "case c of (job, sched, queue) \<Rightarrow> \<forall>f \<in> set (fired sched None nows).
          \<exists>!i. \<exists>j. mem_row s' i = Some j \<and> j_idempotency_key j = Some (cron_idempotency_key job f)" by simp
    qed
  qed (intro allI impI, elim conjE, rule new)
qed

definition example_engine :: "(unit, nat, mem_jobs) jobs" where
  "example_engine = jobs_in_memory\<lparr>jb_crons := [(''report'', every_minute, ''q'')]\<rparr>"

theorem cron_engine_exactly_once_witness:
  "\<exists>st' s'. cron_polls example_engine [minute_time 2 + 5, minute_time 2 + 9] Map.empty mem_jobs_new = (st', s') \<and>
     (\<exists>!i. \<exists>j. mem_row s' i = Some j \<and> j_idempotency_key j = Some (cron_idempotency_key ''report'' (minute_time 2)))"
proof -
  let ?nows = "[minute_time 2 + 5, minute_time 2 + 9]"
  obtain st' s' where p: "cron_polls example_engine ?nows Map.empty mem_jobs_new = (st', s')" by fastforce
  have e: "jb_store example_engine = mem_ops" "jb_pg_leader example_engine = None"
    "jb_crons example_engine = [(''report'', every_minute, ''q'')]"
    by (simp_all add: example_engine_def jobs_in_memory_def jobs_over_def)
  have f: "fires every_minute 2" by code_simp
  have d: "5 < minute_time 1" "9 < minute_time 1" by (simp_all add: minute_time_def NANOS_def SECS_PER_MINUTE_def)
  have "fired every_minute None ?nows = [minute_time 2]"
    by (simp add: fired_def due_fire_def prev_in_minute [OF f d(1)] prev_in_minute [OF f d(2)] map_filter_simps)
  with cron_engine_exactly_once [OF example_paths(1) e(1,2) _ p] p e(3) show ?thesis by auto
qed

end
