(* ===== verification/JC_Realtime.thy ===== *)
theory JC_Realtime
  imports JC_Error "HOL-Library.AList"
begin

text \<open>
  Realtime channels and presence, \<open>jerrycan-realtime/src\<close>: the configuration and the principal
  (\<open>lib.rs\<close>), the frames (\<open>protocol.rs\<close>), channel names, join gating and the scope filter
  (\<open>channel.rs\<close>), the change event (\<open>changes/mod.rs\<close>) and the presence map (\<open>presence.rs\<close>).

  A \<open>HashMap\<close> is an association list with distinct keys; where the code turns one into a JSON object
  the object is sorted by key, as \<open>serde_json::Map\<close> is. Reading the frames is \<open>serde\<close>'s: the frames
  are a datatype and their decoder is a parameter of the hub.
\<close>

section \<open>Configuration\<close>

record principal =
  pr_user :: str
  pr_tenant :: "str option"
  pr_role :: "str option"

datatype topic_scope = ScopeNone | ScopeAuth | ScopeTenant

record change_spec =
  cs_entity :: str
  cs_table :: str
  cs_pk :: str
  cs_tenant :: "str option"
  cs_owner :: "str option"
  cs_hidden :: "str list"

definition change_spec_new :: "str \<Rightarrow> str \<Rightarrow> str \<Rightarrow> change_spec" where
  "change_spec_new entity table pk =
     \<lparr>cs_entity = entity, cs_table = table, cs_pk = pk, cs_tenant = None, cs_owner = None, cs_hidden = []\<rparr>"

definition set_tenant_column :: "str option \<Rightarrow> change_spec \<Rightarrow> change_spec" where
  "set_tenant_column c s = s\<lparr>cs_tenant := c\<rparr>"
definition set_owner_column :: "str option \<Rightarrow> change_spec \<Rightarrow> change_spec" where
  "set_owner_column c s = s\<lparr>cs_owner := c\<rparr>"
definition set_hidden_columns :: "str list \<Rightarrow> change_spec \<Rightarrow> change_spec" where
  "set_hidden_columns cs s = s\<lparr>cs_hidden := cs\<rparr>"

record rt_config =
  rc_changes :: "change_spec list"
  rc_broadcast :: "(str \<times> topic_scope) list"
  rc_presence :: "(str \<times> topic_scope) list"

text \<open>The builder \<open>Realtime\<close>; the database and the Redis address only select adapters.\<close>

record 'r realtime =
  rt_mount :: str
  rt_config :: rt_config
  rt_resolver :: "'r option"

definition rt_builder :: "'r realtime" where
  "rt_builder = \<lparr>rt_mount = ''/realtime'',
     rt_config = \<lparr>rc_changes = [], rc_broadcast = [], rc_presence = []\<rparr>, rt_resolver = None\<rparr>"

definition rt_set_principal :: "'r \<Rightarrow> 'r realtime \<Rightarrow> 'r realtime" where
  "rt_set_principal f rt = rt\<lparr>rt_resolver := Some f\<rparr>"
definition rt_set_mount :: "str \<Rightarrow> 'r realtime \<Rightarrow> 'r realtime" where
  "rt_set_mount p rt = rt\<lparr>rt_mount := p\<rparr>"
definition rt_add_changes :: "change_spec \<Rightarrow> 'r realtime \<Rightarrow> 'r realtime" where
  "rt_add_changes s rt = rt\<lparr>rt_config := (rt_config rt)\<lparr>rc_changes := rc_changes (rt_config rt) @ [s]\<rparr>\<rparr>"
definition rt_add_broadcast :: "str \<Rightarrow> topic_scope \<Rightarrow> 'r realtime \<Rightarrow> 'r realtime" where
  "rt_add_broadcast n sc rt = rt\<lparr>rt_config := (rt_config rt)\<lparr>rc_broadcast := rc_broadcast (rt_config rt) @ [(n, sc)]\<rparr>\<rparr>"
definition rt_add_presence :: "str \<Rightarrow> topic_scope \<Rightarrow> 'r realtime \<Rightarrow> 'r realtime" where
  "rt_add_presence n sc rt = rt\<lparr>rt_config := (rt_config rt)\<lparr>rc_presence := rc_presence (rt_config rt) @ [(n, sc)]\<rparr>\<rparr>"

section \<open>Frames and events\<close>

type_synonym frame_ref = "nat option"

datatype client_msg =
    CJoin str frame_ref
  | CLeave str frame_ref
  | CPublish str json frame_ref
  | CTrack str json frame_ref
  | CUntrack str frame_ref
  | CHeartbeat frame_ref

datatype server_msg =
    SJoined str frame_ref
  | SLeft str frame_ref
  | SEvent str json
  | SPresenceState str json
  | SPresenceDiff str json json
  | SHeartbeatAck frame_ref
  | SResync str
  | SError str str "str option" frame_ref

datatype change_op = OpInsert | OpUpdate | OpDelete

record change_event =
  ev_entity :: str
  ev_op :: change_op
  ev_pk :: str
  ev_row :: "json option"
  ev_tenant :: "str option"
  ev_old_tenant :: "str option"
  ev_owner :: "str option"

section \<open>Channels\<close>

datatype channel_id = Changes str | Broadcast str | Presence str

definition channel_parse :: "str \<Rightarrow> channel_id option" where
  "channel_parse s =
     (case split_once CHR '':'' s of
        None \<Rightarrow> None
      | Some (kind, name) \<Rightarrow>
          if name = [] then None
          else if kind = ''changes'' then Some (Changes name)
          else if kind = ''broadcast'' then Some (Broadcast name)
          else if kind = ''presence'' then Some (Presence name)
          else None)"

fun as_string :: "channel_id \<Rightarrow> str" where
  "as_string (Changes e) = ''changes:'' @ e"
| "as_string (Broadcast n) = ''broadcast:'' @ n"
| "as_string (Presence n) = ''presence:'' @ n"

definition scope_allows :: "topic_scope \<Rightarrow> principal option \<Rightarrow> (str, unit) result" where
  "scope_allows scope p =
     (case scope of
        ScopeNone \<Rightarrow> Ok ()
      | ScopeAuth \<Rightarrow> (case p of None \<Rightarrow> Err ''authentication required'' | Some _ \<Rightarrow> Ok ())
      | ScopeTenant \<Rightarrow>
          (case Option.bind p pr_tenant of None \<Rightarrow> Err ''tenant membership required'' | Some _ \<Rightarrow> Ok ()))"

text \<open>The first entry of a topic list counts, as \<open>iter().find\<close> does.\<close>

fun may_join :: "channel_id \<Rightarrow> rt_config \<Rightarrow> principal option \<Rightarrow> (str, unit) result" where
  "may_join (Changes entity) cfg p =
     (if \<not> list_ex (\<lambda>c. cs_entity c = entity) (rc_changes cfg) then Err ''unknown channel''
      else (case p of None \<Rightarrow> Err ''authentication required'' | Some _ \<Rightarrow> Ok ()))"
| "may_join (Broadcast name) cfg p =
     (case map_of (rc_broadcast cfg) name of None \<Rightarrow> Err ''unknown channel'' | Some sc \<Rightarrow> scope_allows sc p)"
| "may_join (Presence name) cfg p =
     (case map_of (rc_presence cfg) name of None \<Rightarrow> Err ''unknown channel'' | Some sc \<Rightarrow> scope_allows sc p)"

text \<open>The filter reads the scope keys of the event only.\<close>

definition change_visible :: "change_spec \<Rightarrow> change_event \<Rightarrow> principal option \<Rightarrow> bool" where
  "change_visible spec ev who =
     (case who of None \<Rightarrow> False
      | Some p \<Rightarrow>
          (case (cs_tenant spec, ev_tenant ev) of
             (Some _, Some t) \<Rightarrow> pr_tenant p = Some t
           | (Some _, None) \<Rightarrow> False
           | (None, _) \<Rightarrow>
               (case (cs_owner spec, ev_owner ev) of
                  (None, _) \<Rightarrow> True
                | (Some _, Some u) \<Rightarrow> pr_user p = u
                | (Some _, None) \<Rightarrow> False)))"

definition delete_view_for_old_tenant :: "change_spec \<Rightarrow> change_event \<Rightarrow> principal option \<Rightarrow> bool" where
  "delete_view_for_old_tenant spec ev who =
     (case who of None \<Rightarrow> False
      | Some p \<Rightarrow>
          if cs_tenant spec = None then False
          else (case (ev_old_tenant ev, ev_tenant ev) of
                  (Some old, new) \<Rightarrow> if Some old \<noteq> new then pr_tenant p = Some old else False
                | (None, _) \<Rightarrow> False))"

definition project_row :: "json \<Rightarrow> str list \<Rightarrow> json" where
  "project_row row hidden =
     (case row of
        JObject m \<Rightarrow> if hidden \<noteq> [] then JObject (filter (\<lambda>(k, _). k \<notin> set hidden) m) else row
      | _ \<Rightarrow> row)"

section \<open>The presence map\<close>

record partition =
  pt_topic :: str
  pt_tenant :: "str option"

record presence_entry =
  pe_node :: nat
  pe_meta :: json

record presence_map =
  pm_entries :: "(partition \<times> (str \<times> presence_entry) list) list"
  pm_seen :: "nat \<Rightarrow> nat option"

definition pm_default :: presence_map where "pm_default = \<lparr>pm_entries = [], pm_seen = (\<lambda>_. None)\<rparr>"

definition pm_bucket :: "partition \<Rightarrow> presence_map \<Rightarrow> (str \<times> presence_entry) list" where
  "pm_bucket part m = (case map_of (pm_entries m) part of None \<Rightarrow> [] | Some b \<Rightarrow> b)"

definition pm_set :: "partition \<Rightarrow> str \<Rightarrow> nat \<Rightarrow> json \<Rightarrow> nat \<Rightarrow> presence_map \<Rightarrow> json option \<times> presence_map" where
  "pm_set part key node meta now m =
     (Some (JObject [(key, meta)]),
      m\<lparr>pm_seen := (pm_seen m)(node \<mapsto> now),
        pm_entries := AList.update part
          (AList.update key \<lparr>pe_node = node, pe_meta = meta\<rparr> (pm_bucket part m)) (pm_entries m)\<rparr>)"

definition pm_clear :: "partition \<Rightarrow> str \<Rightarrow> nat \<Rightarrow> presence_map \<Rightarrow> json option \<times> presence_map" where
  "pm_clear part key node m =
     (case map_of (pm_entries m) part of
        None \<Rightarrow> (None, m)
      | Some bucket \<Rightarrow>
          (case map_of bucket key of
             Some e \<Rightarrow>
               if pe_node e = node
               then (Some (JObject [(key, pe_meta e)]),
                     m\<lparr>pm_entries := AList.update part (AList.delete key bucket) (pm_entries m)\<rparr>)
               else (None, m)
           | None \<Rightarrow> (None, m)))"

definition metas :: "(str \<times> presence_entry) list \<Rightarrow> json" where
  "metas b = JObject (sort_key fst (map (\<lambda>(k, e). (k, pe_meta e)) b))"

definition pm_state :: "partition \<Rightarrow> presence_map \<Rightarrow> json" where
  "pm_state part m = metas (pm_bucket part m)"

definition touch_node :: "nat \<Rightarrow> nat \<Rightarrow> presence_map \<Rightarrow> presence_map" where
  "touch_node node now m = m\<lparr>pm_seen := (pm_seen m)(node \<mapsto> now)\<rparr>"

definition node_dead :: "nat \<Rightarrow> nat \<Rightarrow> presence_map \<Rightarrow> nat \<Rightarrow> bool" where
  "node_dead now ttl m node = (case pm_seen m node of None \<Rightarrow> True | Some seen \<Rightarrow> ttl < now - seen)"

definition pm_sweep :: "nat \<Rightarrow> nat \<Rightarrow> presence_map \<Rightarrow> (partition \<times> json) list \<times> presence_map" where
  "pm_sweep now ttl m =
     (let dead = (\<lambda>(k, e). node_dead now ttl m (pe_node e))
      in (List.map_filter (\<lambda>(part, b). if filter dead b = [] then None else Some (part, metas (filter dead b))) (pm_entries m),
          m\<lparr>pm_entries := filter (\<lambda>(part, b). b \<noteq> [])
               (map (\<lambda>(part, b). (part, filter (\<lambda>x. \<not> dead x) b)) (pm_entries m)),
            pm_seen := (\<lambda>n. if node_dead now ttl m n then None else pm_seen m n)\<rparr>))"

definition local_entries :: "nat \<Rightarrow> presence_map \<Rightarrow> (str \<times> str option \<times> str) list" where
  "local_entries node m = concat (map (\<lambda>(part, b).
     map (\<lambda>(k, _). (pt_topic part, pt_tenant part, k)) (filter (\<lambda>(_, e). pe_node e = node) b)) (pm_entries m))"

section \<open>Channel names and scopes\<close>

lemma channel_parse_as_string:
  "channel_parse (as_string ch) = Some ch \<longleftrightarrow> (case ch of Changes n \<Rightarrow> n \<noteq> [] | Broadcast n \<Rightarrow> n \<noteq> [] | Presence n \<Rightarrow> n \<noteq> [])"
  by (cases ch) (auto simp: channel_parse_def)

lemma as_string_channel_parse: "channel_parse s = Some ch \<Longrightarrow> as_string ch = s"
  by (auto simp: channel_parse_def split: option.splits if_splits prod.splits dest!: split_once_Some)

lemma as_string_inj: "as_string a = as_string b \<longleftrightarrow> a = b"
  by (cases a; cases b) auto

lemma scope_allows_Ok:
  "scope_allows sc p = Ok () \<longleftrightarrow>
     (case sc of ScopeNone \<Rightarrow> True | ScopeAuth \<Rightarrow> p \<noteq> None | ScopeTenant \<Rightarrow> Option.bind p pr_tenant \<noteq> None)"
  by (auto simp: scope_allows_def split: topic_scope.splits option.splits)

text \<open>What the scope filter lets through: nothing for anonymous clients, and for a scoped entity the
  subscriber's own tenant or own rows only.\<close>

lemma change_visible_iff:
  "change_visible spec ev who \<longleftrightarrow> (\<exists>p. who = Some p \<and>
     (case cs_tenant spec of
        Some _ \<Rightarrow> ev_tenant ev \<noteq> None \<and> pr_tenant p = ev_tenant ev
      | None \<Rightarrow> cs_owner spec = None \<or> ev_owner ev = Some (pr_user p)))"
  by (auto simp: change_visible_def split: option.splits)

lemma delete_view_iff:
  "delete_view_for_old_tenant spec ev who \<longleftrightarrow> (\<exists>p old. who = Some p \<and> cs_tenant spec \<noteq> None \<and>
     ev_old_tenant ev = Some old \<and> ev_tenant ev \<noteq> Some old \<and> pr_tenant p = Some old)"
  by (auto simp: delete_view_for_old_tenant_def split: option.splits)

lemma project_row_hidden: "project_row row hidden = JObject kvs \<Longrightarrow> k \<in> fst ` set kvs \<Longrightarrow> k \<notin> set hidden"
  by (auto simp: project_row_def split: json.splits if_splits)

section \<open>Presence maps as finite maps\<close>

definition pm_get :: "presence_map \<Rightarrow> partition \<Rightarrow> str \<Rightarrow> presence_entry option" where
  "pm_get m part = map_of (pm_bucket part m)"

definition pm_inv :: "presence_map \<Rightarrow> bool" where
  "pm_inv m \<longleftrightarrow> distinct (map fst (pm_entries m)) \<and> (\<forall>(part, b) \<in> set (pm_entries m). distinct (map fst b))"

lemma pm_inv_default: "pm_inv pm_default" by (simp add: pm_inv_def pm_default_def)

lemma pm_bucket_distinct: "pm_inv m \<Longrightarrow> distinct (map fst (pm_bucket part m))"
  by (auto simp: pm_inv_def pm_bucket_def split: option.splits dest: map_of_SomeD)

lemma pm_bucket_update:
  "pm_bucket part' (m\<lparr>pm_entries := AList.update part b (pm_entries m)\<rparr>) =
     (if part' = part then b else pm_bucket part' m)"
  by (simp add: pm_bucket_def update_conv')

lemma set_update_subset: "x \<in> set (AList.update k v xs) \<Longrightarrow> x = (k, v) \<or> x \<in> set xs"
  by (induction xs) (auto split: if_splits)

lemma pm_inv_update:
  assumes "pm_inv m" "distinct (map fst b)"
  shows "pm_inv (m\<lparr>pm_entries := AList.update part b (pm_entries m)\<rparr>)"
  using assms by (auto simp: pm_inv_def distinct_update dest!: set_update_subset)

lemma pm_bucket_seen [simp]: "pm_bucket part (m\<lparr>pm_seen := f\<rparr>) = pm_bucket part m"
  by (simp add: pm_bucket_def)

lemma pm_inv_seen [simp]: "pm_inv (m\<lparr>pm_seen := f\<rparr>) = pm_inv m"
  by (simp add: pm_inv_def)

lemma pm_set_simps:
  assumes "pm_set part key node meta now m = (d, m')" "pm_inv m"
  shows "d = Some (JObject [(key, meta)])" "pm_inv m'"
    "pm_get m' part' = (if part' = part then (pm_get m part)(key \<mapsto> \<lparr>pe_node = node, pe_meta = meta\<rparr>) else pm_get m part')"
    "pm_seen m' = (pm_seen m)(node \<mapsto> now)"
proof -
  let ?b = "AList.update key \<lparr>pe_node = node, pe_meta = meta\<rparr> (pm_bucket part m)"
  let ?m = "m\<lparr>pm_seen := (pm_seen m)(node \<mapsto> now)\<rparr>"
  have m': "m' = ?m\<lparr>pm_entries := AList.update part ?b (pm_entries ?m)\<rparr>" and d: "d = Some (JObject [(key, meta)])"
    using assms(1) by (auto simp: pm_set_def)
  show "d = Some (JObject [(key, meta)])" by (rule d)
  have "distinct (map fst ?b)" using pm_bucket_distinct [OF assms(2)] by (simp add: distinct_update)
  then show "pm_inv m'" unfolding m' using assms(2) by (intro pm_inv_update) simp_all
  show "pm_get m' part' = (if part' = part then (pm_get m part)(key \<mapsto> \<lparr>pe_node = node, pe_meta = meta\<rparr>) else pm_get m part')"
    unfolding pm_get_def m' pm_bucket_update by (simp add: update_conv')
  show "pm_seen m' = (pm_seen m)(node \<mapsto> now)" by (simp add: m')
qed

lemma pm_clear_simps:
  assumes "pm_clear part key node m = (d, m')" "pm_inv m"
  shows "pm_inv m'" "pm_seen m' = pm_seen m"
    "(case pm_get m part key of
        Some e \<Rightarrow> if pe_node e = node
          then d = Some (JObject [(key, pe_meta e)]) \<and> pm_get m' = (pm_get m)(part := (pm_get m part)(key := None))
          else d = None \<and> m' = m
      | None \<Rightarrow> d = None \<and> m' = m)"
proof -
  have dist: "distinct (map fst (AList.delete key (pm_bucket part m)))"
    using pm_bucket_distinct [OF assms(2)] by (rule distinct_delete)
  have "(case pm_get m part key of
        Some e \<Rightarrow> if pe_node e = node
          then d = Some (JObject [(key, pe_meta e)]) \<and>
            m' = m\<lparr>pm_entries := AList.update part (AList.delete key (pm_bucket part m)) (pm_entries m)\<rparr>
          else d = None \<and> m' = m
      | None \<Rightarrow> d = None \<and> m' = m)"
    using assms(1) by (auto simp: pm_clear_def pm_get_def pm_bucket_def split: option.splits if_splits)
  moreover have "pm_get (m\<lparr>pm_entries := AList.update part (AList.delete key (pm_bucket part m)) (pm_entries m)\<rparr>) =
      (pm_get m)(part := (pm_get m part)(key := None))"
    by (auto simp: pm_get_def pm_bucket_update delete_conv' fun_eq_iff)
  ultimately show "pm_inv m'" "pm_seen m' = pm_seen m"
    "(case pm_get m part key of
        Some e \<Rightarrow> if pe_node e = node
          then d = Some (JObject [(key, pe_meta e)]) \<and> pm_get m' = (pm_get m)(part := (pm_get m part)(key := None))
          else d = None \<and> m' = m
      | None \<Rightarrow> d = None \<and> m' = m)"
    using pm_inv_update [OF assms(2) dist, of part] assms(2) by (auto split: option.splits if_splits)
qed

lemma map_of_filter_distinct:
  "distinct (map fst b) \<Longrightarrow> map_of (filter keep b) key =
     (case map_of b key of Some e \<Rightarrow> if keep (key, e) then Some e else None | None \<Rightarrow> None)"
  by (induction b) (auto split: option.splits dest: map_of_SomeD intro: map_of_eq_None_iff [THEN iffD2] simp: image_iff map_of_eq_None_iff)

lemma map_of_sort_distinct: "distinct (map fst xs) \<Longrightarrow> map_of (sort_key fst xs) = map_of xs"
  by (subst map_of_inject_set) (simp_all add: distinct_map)

definition json_view :: "json \<Rightarrow> str \<Rightarrow> json option" where
  "json_view j = (case j of JObject kvs \<Rightarrow> map_of kvs | _ \<Rightarrow> Map.empty)"

lemma json_view_metas: "distinct (map fst b) \<Longrightarrow> json_view (metas b) k = map_option pe_meta (map_of b k)"
proof -
  assume d: "distinct (map fst b)"
  have keys: "map fst (map (\<lambda>(k, e). (k, pe_meta e)) b) = map fst b" by auto
  have "map_of (map (\<lambda>(k, e). (k, pe_meta e)) b) k = map_option pe_meta (map_of b k)" by (induction b) auto
  with map_of_sort_distinct [of "map (\<lambda>(k, e). (k, pe_meta e)) b"] d show ?thesis
    unfolding keys by (simp add: json_view_def metas_def)
qed

definition pm_view :: "presence_map \<Rightarrow> partition \<Rightarrow> str \<Rightarrow> json option" where
  "pm_view m part = json_view (pm_state part m)"

lemma pm_view_get: "pm_inv m \<Longrightarrow> pm_view m part k = map_option pe_meta (pm_get m part k)"
  by (simp add: pm_view_def pm_state_def pm_get_def json_view_metas pm_bucket_distinct)

lemma pm_sweep_entries:
  assumes "pm_sweep now ttl m = (out, m')" "pm_inv m"
  defines "dead \<equiv> (\<lambda>(k :: str, e). node_dead now ttl m (pe_node e))"
  shows "pm_inv m'" "pm_bucket part m' = filter (\<lambda>x. \<not> dead x) (pm_bucket part m)"
    "map_of out part = (if filter dead (pm_bucket part m) = [] then None else Some (metas (filter dead (pm_bucket part m))))"
proof -
  let ?es = "pm_entries m"
  have es: "distinct (map fst ?es)" "\<forall>(part, b) \<in> set ?es. distinct (map fst b)" using assms(2) by (auto simp: pm_inv_def)
  have m': "pm_entries m' = filter (\<lambda>(part, b). b \<noteq> []) (map (\<lambda>(part, b). (part, filter (\<lambda>x. \<not> dead x) b)) ?es)"
    and out: "out = List.map_filter (\<lambda>(part, b). if filter dead b = [] then None else Some (part, metas (filter dead b))) ?es"
    using assms(1) unfolding pm_sweep_def Let_def dead_def [symmetric] by (clarsimp, blast)+
  have keys: "map fst (map (\<lambda>(part, b). (part, filter (\<lambda>x. \<not> dead x) b)) ?es) = map fst ?es" by auto
  have mo: "map_of (map (\<lambda>(part, b). (part, filter (\<lambda>x. \<not> dead x) b)) xs) part = map_option (filter (\<lambda>x. \<not> dead x)) (map_of xs part)" for part xs
    by (induction xs) auto
  show "pm_inv m'"
    unfolding pm_inv_def
  proof (intro conjI)
    show "distinct (map fst (pm_entries m'))" unfolding m' by (rule distinct_map_filter) (simp only: keys es(1))
    show "\<forall>(part, b) \<in> set (pm_entries m'). distinct (map fst b)"
      using es(2) by (force simp: m' intro: distinct_map_filter)
  qed
  show "pm_bucket part m' = filter (\<lambda>x. \<not> dead x) (pm_bucket part m)"
  proof -
    have "distinct (map fst (map (\<lambda>(part, b). (part, filter (\<lambda>x. \<not> dead x) b)) ?es))" by (simp only: keys es(1))
    from map_of_filter_distinct [OF this, of "\<lambda>(part, b). b \<noteq> []" part]
    show ?thesis unfolding pm_bucket_def m' mo by (auto split: option.splits if_splits)
  qed
  have "map_of (List.map_filter (\<lambda>(part, b). if filter dead b = [] then None else Some (part, metas (filter dead b))) xs) part =
      (case map_of xs part of None \<Rightarrow> None
       | Some b \<Rightarrow> if filter dead b = [] then None else Some (metas (filter dead b)))"
    if "distinct (map fst xs)" for xs
    using that
  proof (induction xs)
    case (Cons x xs)
    then have "fst x = part \<Longrightarrow> map_of xs part = None" by (auto simp: map_of_eq_None_iff)
    with Cons show ?case by (cases x) (auto simp: map_filter_simps)
  qed (simp add: map_filter_simps)
  from this [OF es(1)] show "map_of out part = (if filter dead (pm_bucket part m) = [] then None else Some (metas (filter dead (pm_bucket part m))))"
    by (auto simp: out pm_bucket_def split: option.splits)
qed

lemma pm_sweep_get:
  assumes "pm_sweep now ttl m = (out, m')" "pm_inv m"
  shows "pm_get m' part k = (case pm_get m part k of None \<Rightarrow> None
     | Some e \<Rightarrow> if node_dead now ttl m (pe_node e) then None else Some e)"
  unfolding pm_get_def pm_sweep_entries(2) [OF assms]
  using map_of_filter_distinct [OF pm_bucket_distinct [OF assms(2)], of _ part k] by (auto split: option.splits)

section \<open>Runs of presence operations and their diffs\<close>

datatype presence_op =
    PSet partition str nat json nat
  | PClear partition str nat
  | PTouch nat nat
  | PSweep nat nat

text \<open>The diffs (partition, joins, leaves) an operation broadcasts, and the new map.\<close>

fun pm_step :: "presence_op \<Rightarrow> presence_map \<Rightarrow> (partition \<times> json \<times> json) list \<times> presence_map" where
  "pm_step (PSet part key node meta now) m =
     (case pm_set part key node meta now m of
        (Some joins, m') \<Rightarrow> ([(part, joins, JObject [])], m') | (None, m') \<Rightarrow> ([], m'))"
| "pm_step (PClear part key node) m =
     (case pm_clear part key node m of
        (Some leaves, m') \<Rightarrow> ([(part, JObject [], leaves)], m') | (None, m') \<Rightarrow> ([], m'))"
| "pm_step (PTouch node now) m = ([], touch_node node now m)"
| "pm_step (PSweep now ttl) m =
     (case pm_sweep now ttl m of (out, m') \<Rightarrow> (map (\<lambda>(part, leaves). (part, JObject [], leaves)) out, m'))"

fun pm_run :: "presence_op list \<Rightarrow> presence_map \<Rightarrow> (partition \<times> json \<times> json) list \<times> presence_map" where
  "pm_run [] m = ([], m)"
| "pm_run (op # ops) m =
     (case pm_step op m of (ds, m1) \<Rightarrow> (case pm_run ops m1 of (ds', m2) \<Rightarrow> (ds @ ds', m2)))"

definition apply_diff :: "json \<Rightarrow> json \<Rightarrow> (str \<Rightarrow> json option) \<Rightarrow> str \<Rightarrow> json option" where
  "apply_diff joins leaves v k =
     (case json_view joins k of Some x \<Rightarrow> Some x | None \<Rightarrow> if json_view leaves k = None then v k else None)"

text \<open>A subscriber of one partition applies the diffs of that partition in order.\<close>

definition apply_diffs :: "partition \<Rightarrow> (partition \<times> json \<times> json) list \<Rightarrow> (str \<Rightarrow> json option) \<Rightarrow> str \<Rightarrow> json option" where
  "apply_diffs part ds v = foldl (\<lambda>v (p, joins, leaves). if p = part then apply_diff joins leaves v else v) v ds"

lemma apply_diffs_simps [simp]:
  "apply_diffs part [] v = v"
  "apply_diffs part ((p, j, l) # ds) v = apply_diffs part ds (if p = part then apply_diff j l v else v)"
  "apply_diffs part (ds @ ds') v = apply_diffs part ds' (apply_diffs part ds v)"
  by (simp_all add: apply_diffs_def)

lemma json_view_object [simp]: "json_view (JObject kvs) = map_of kvs"
  by (simp add: json_view_def)

lemma apply_diffs_sweep:
  "distinct (map fst out) \<Longrightarrow>
     apply_diffs part (map (\<lambda>(p, leaves). (p, JObject [], leaves)) out) v =
       (case map_of out part of None \<Rightarrow> v | Some leaves \<Rightarrow> apply_diff (JObject []) leaves v)"
proof (induction out arbitrary: v)
  case (Cons x out)
  obtain p l where x: "x = (p, l)" by (cases x)
  show ?case
  proof (cases "p = part")
    case True
    then have "map_of out part = None" using Cons.prems x by (auto simp: map_of_eq_None_iff)
    with Cons True x show ?thesis by simp
  qed (use Cons x in simp)
qed simp

lemma sweep_out_distinct:
  assumes "pm_sweep now ttl m = (out, m')" "pm_inv m"
  shows "distinct (map fst out)"
proof -
  let ?f = "\<lambda>P (part, b). if P b = [] then None else Some (part, metas (P b))"
  have sub: "set (map fst (List.map_filter (?f P) xs)) \<subseteq> set (map fst xs)"
    for P and xs :: "(partition \<times> (str \<times> presence_entry) list) list"
    by (induction xs) (auto simp: map_filter_simps split: option.splits if_splits)
  have "distinct (map fst xs) \<Longrightarrow> distinct (map fst (List.map_filter (?f P) xs))"
    for P and xs :: "(partition \<times> (str \<times> presence_entry) list) list"
  proof (induction xs)
    case (Cons x xs)
    with sub [of P xs] show ?case by (cases x) (auto simp: map_filter_simps)
  qed (simp add: map_filter_simps)
  with assms show ?thesis by (auto simp: pm_sweep_def Let_def pm_inv_def)
qed

lemma pm_step_correct:
  assumes "pm_step op m = (ds, m')" "pm_inv m"
  shows "pm_inv m' \<and> pm_view m' part = apply_diffs part ds (pm_view m part)"
proof (cases op)
  case (PSet p key node meta now)
  obtain d m1 where s: "pm_set p key node meta now m = (d, m1)" by fastforce
  note f = pm_set_simps [OF s assms(2)]
  have "ds = [(p, JObject [(key, meta)], JObject [])]" "m' = m1" using assms(1) PSet s f(1) by auto
  with f show ?thesis
    by (auto simp: fun_eq_iff pm_view_get assms(2) apply_diff_def)
next
  case (PClear p key node)
  obtain d m1 where s: "pm_clear p key node m = (d, m1)" by fastforce
  note f = pm_clear_simps [OF s assms(2)]
  have m': "m' = m1" using assms(1) PClear s by (auto split: option.splits)
  show ?thesis
  proof (cases d)
    case None
    then have "m1 = m" using f(3) by (auto split: option.splits if_splits)
    with None assms PClear s show ?thesis by auto
  next
    case (Some x)
    then obtain e where e: "pm_get m p key = Some e" "x = JObject [(key, pe_meta e)]"
      "pm_get m1 = (pm_get m)(p := (pm_get m p)(key := None))"
      using f(3) by (auto split: option.splits if_splits)
    have "ds = [(p, JObject [], x)]" using assms(1) PClear s Some by auto
    with e f(1) m' show ?thesis by (auto simp: fun_eq_iff pm_view_get assms(2) apply_diff_def)
  qed
next
  case (PTouch node now)
  with assms have m': "m' = m\<lparr>pm_seen := (pm_seen m)(node \<mapsto> now)\<rparr>" "ds = []" by (auto simp: touch_node_def)
  show ?thesis using assms(2) by (simp add: m' pm_view_def pm_state_def)
next
  case (PSweep now ttl)
  obtain out m1 where s: "pm_sweep now ttl m = (out, m1)" by fastforce
  let ?dead = "\<lambda>(k :: str, e). node_dead now ttl m (pe_node e)"
  note f = pm_sweep_entries [OF s assms(2)]
  have m': "m' = m1" "ds = map (\<lambda>(p, leaves). (p, JObject [], leaves)) out" using assms(1) PSweep s by auto
  have d: "distinct (map fst (filter ?dead (pm_bucket part m)))"
    using pm_bucket_distinct [OF assms(2)] by (rule distinct_map_filter)
  have leaves: "json_view (metas (filter ?dead (pm_bucket part m))) k =
      (case pm_get m part k of None \<Rightarrow> None | Some e \<Rightarrow> if node_dead now ttl m (pe_node e) then Some (pe_meta e) else None)" for k
    using map_of_filter_distinct [OF pm_bucket_distinct [OF assms(2)], of ?dead part k]
    by (auto simp: json_view_metas [OF d] pm_get_def split: option.splits)
  have "pm_view m1 part k = (case map_of out part of None \<Rightarrow> pm_view m part
      | Some l \<Rightarrow> apply_diff (JObject []) l (pm_view m part)) k" for k
  proof (cases "filter ?dead (pm_bucket part m) = []")
    case True
    then have "map_of out part = None" using f(3) by simp
    moreover have "pm_get m part k = Some e \<Longrightarrow> \<not> node_dead now ttl m (pe_node e)" for e
      using leaves [of k] unfolding True by (auto simp: metas_def split: if_splits)
    ultimately show ?thesis
      using pm_sweep_get [OF s assms(2), of part k] f(1) assms(2) by (auto simp: pm_view_get split: option.splits)
  next
    case False
    then have "map_of out part = Some (metas (filter ?dead (pm_bucket part m)))" using f(3) by simp
    then show ?thesis
      using pm_sweep_get [OF s assms(2), of part k] f(1) assms(2) leaves [of k]
      by (auto simp: pm_view_get apply_diff_def split: option.splits)
  qed
  then show ?thesis
    using f(1) apply_diffs_sweep [OF sweep_out_distinct [OF s assms(2)], of part "pm_view m part"]
    by (auto simp: m' fun_eq_iff)
qed

lemma pm_run_correct:
  assumes "pm_run ops m = (ds, m')" "pm_inv m"
  shows "pm_inv m' \<and> pm_view m' part = apply_diffs part ds (pm_view m part)"
  using assms
proof (induction ops arbitrary: m ds)
  case (Cons op ops)
  obtain ds1 m1 where s1: "pm_step op m = (ds1, m1)" by fastforce
  obtain ds2 m2 where s2: "pm_run ops m1 = (ds2, m2)" by fastforce
  have eq: "m2 = m'" "ds = ds1 @ ds2" using Cons.prems(1) s1 s2 by auto
  have "pm_inv m1" "pm_view m1 part = apply_diffs part ds1 (pm_view m part)"
    using pm_step_correct [OF s1 Cons.prems(2)] by blast+
  with Cons.IH [OF s2 [unfolded eq(1)]] show ?case by (simp add: eq(2))
qed simp

section \<open>Properties\<close>

text \<open>The incremental presence protocol is exact. From any reachable presence map, a subscriber that
  starts from the full state of its partition and applies the diffs of that partition in order holds
  exactly the state of the partition after any further joins, replacements, leaves, heartbeats and
  sweeps of dead nodes, whichever node they come from.\<close>

lemma presence_diffs_track_state:
  assumes "pm_run ops0 pm_default = (ds0, m)" "pm_run ops m = (ds, m')"
  shows "json_view (pm_state part m') = apply_diffs part ds (json_view (pm_state part m))"
  using pm_run_correct [OF assms(2), of part] pm_run_correct [OF assms(1) pm_inv_default, of part]
  by (simp add: pm_view_def)

text \<open>A sweep removes exactly the entries of dead nodes. After it, an entry of a reachable presence map
  is still there, unchanged, iff its owner was seen within the time to live; the leaves it reports for
  a partition are exactly the entries that are gone, and a partition without any reports none.\<close>

lemma presence_sweep_exact:
  assumes "pm_run ops pm_default = (ds, m)" "pm_sweep now ttl m = (out, m')"
  shows "pm_get m' part k = (case pm_get m part k of None \<Rightarrow> None
      | Some e \<Rightarrow> (case pm_seen m (pe_node e) of Some t \<Rightarrow> if now - t \<le> ttl then Some e else None | None \<Rightarrow> None)) \<and>
    (case map_of out part of
       None \<Rightarrow> pm_get m' part = pm_get m part
     | Some leaves \<Rightarrow> json_view leaves \<noteq> Map.empty \<and>
         json_view leaves k = (if pm_get m' part k = None then map_option pe_meta (pm_get m part k) else None))"
proof -
  have inv: "pm_inv m" using pm_run_correct [OF assms(1) pm_inv_default] by blast
  let ?dead = "\<lambda>(k :: str, e). node_dead now ttl m (pe_node e)"
  note get = pm_sweep_get [OF assms(2) inv]
  have d: "distinct (map fst (filter ?dead (pm_bucket part m)))"
    using pm_bucket_distinct [OF inv] by (rule distinct_map_filter)
  have leaves: "json_view (metas (filter ?dead (pm_bucket part m))) k =
      (case pm_get m part k of None \<Rightarrow> None | Some e \<Rightarrow> if node_dead now ttl m (pe_node e) then Some (pe_meta e) else None)" for k
    using map_of_filter_distinct [OF pm_bucket_distinct [OF inv], of ?dead part k]
    by (auto simp: json_view_metas [OF d] pm_get_def split: option.splits)
  have "pm_get m' part k = (case pm_get m part k of None \<Rightarrow> None
      | Some e \<Rightarrow> (case pm_seen m (pe_node e) of Some t \<Rightarrow> if now - t \<le> ttl then Some e else None | None \<Rightarrow> None))"
    by (auto simp: get node_dead_def split: option.splits)
  moreover have "case map_of out part of
       None \<Rightarrow> pm_get m' part = pm_get m part
     | Some leaves \<Rightarrow> json_view leaves \<noteq> Map.empty \<and>
         json_view leaves k = (if pm_get m' part k = None then map_option pe_meta (pm_get m part k) else None)"
  proof (cases "filter ?dead (pm_bucket part m) = []")
    case True
    have "pm_get m part k' = Some e \<Longrightarrow> \<not> node_dead now ttl m (pe_node e)" for e k'
      using leaves [of k'] unfolding True by (auto simp: metas_def split: if_splits)
    then have "pm_get m' part = pm_get m part" by (auto simp: get fun_eq_iff split: option.splits)
    with True show ?thesis by (simp add: pm_sweep_entries(3) [OF assms(2) inv])
  next
    case False
    then obtain x xs where x: "filter ?dead (pm_bucket part m) = x # xs" by (cases "filter ?dead (pm_bucket part m)") auto
    have "json_view (metas (filter ?dead (pm_bucket part m))) (fst x) \<noteq> None"
      using json_view_metas [OF d, of "fst x"] unfolding x by (cases x) simp
    then have "json_view (metas (filter ?dead (pm_bucket part m))) \<noteq> Map.empty" by auto
    with False show ?thesis
      unfolding pm_sweep_entries(3) [OF assms(2) inv] by (auto simp: leaves get split: option.splits)
  qed
  ultimately show ?thesis by blast
qed

end
