(* ===== verification/JC_Hub.thy ===== *)
theory JC_Hub
  imports JC_Realtime
begin

text \<open>
  The realtime hub, \<open>jerrycan-realtime/src\<close>: connections and client frames (\<open>lib.rs\<close>), broadcast
  (\<open>broadcast.rs\<close>), presence (\<open>presence.rs\<close>), the bus (\<open>bus.rs\<close>) and the socket loop (\<open>ws.rs\<close>).

  A connection's outbound channel is its bounded queue; \<open>h_bus\<close> is the log of what the node has
  published. A handler is one step: between the critical sections of a handler another task can only
  remove the connection, which the later sections test again. The log is delivered in any order, any
  number of times, to any node, which covers lagging subscribers and lost messages of a shared bus.
  Instants are milliseconds.
\<close>

section \<open>The hub\<close>

definition CONN_QUEUE :: nat where "CONN_QUEUE = 128"

datatype bus_message =
    BChange change_event
  | BBroadcast str "str option" json "(nat \<times> nat) option"
  | BPresenceSet str "str option" str nat json
  | BPresenceClear str "str option" str nat
  | BPresenceSnapshot nat "(str \<times> str option \<times> str) list"
  | BResync "str option"
  | BChangesHealth bool

record subscriber =
  sb_principal :: "principal option"
  sb_queue :: "server_msg list"
  sb_channels :: "channel_id list"
  sb_tracked :: "(channel_id \<times> str) list"

record hub =
  h_config :: rt_config
  h_node :: nat
  h_conns :: "(nat \<times> subscriber) list"
  h_presence :: presence_map
  h_unavailable :: bool
  h_next_conn :: nat
  h_bus :: "bus_message list"

definition hub_new :: "rt_config \<Rightarrow> nat \<Rightarrow> hub" where
  "hub_new cfg node = \<lparr>h_config = cfg, h_node = node, h_conns = [], h_presence = pm_default,
     h_unavailable = False, h_next_conn = 1, h_bus = []\<rparr>"

definition bus_publish :: "bus_message \<Rightarrow> hub \<Rightarrow> hub" where
  "bus_publish m h = h\<lparr>h_bus := h_bus h @ [m]\<rparr>"

definition try_send :: "server_msg \<Rightarrow> subscriber \<Rightarrow> subscriber option" where
  "try_send m sub = (if length (sb_queue sub) < CONN_QUEUE then Some (sub\<lparr>sb_queue := sb_queue sub @ [m]\<rparr>) else None)"

definition hub_connect :: "principal option \<Rightarrow> hub \<Rightarrow> nat \<times> hub" where
  "hub_connect who h =
     (h_next_conn h,
      h\<lparr>h_next_conn := h_next_conn h + 1,
        h_conns := AList.update (h_next_conn h)
          \<lparr>sb_principal = who, sb_queue = [], sb_channels = [], sb_tracked = []\<rparr> (h_conns h)\<rparr>)"

section \<open>Presence of a connection\<close>

definition presence_key :: "principal option \<Rightarrow> nat \<Rightarrow> str" where
  "presence_key who conn = (case who of Some p \<Rightarrow> pr_user p | None \<Rightarrow> ''conn:'' @ show_nat conn)"

definition presence_tenant :: "rt_config \<Rightarrow> str \<Rightarrow> principal option \<Rightarrow> str option" where
  "presence_tenant cfg topic who =
     (case map_of (rc_presence cfg) topic of Some ScopeTenant \<Rightarrow> Option.bind who pr_tenant | _ \<Rightarrow> None)"

text \<open>The leaves of everything a connection still owns.\<close>

definition owned_clears :: "hub \<Rightarrow> subscriber \<Rightarrow> bus_message list" where
  "owned_clears h sub = List.map_filter (\<lambda>(ch, key). case ch of
       Presence topic \<Rightarrow> Some (BPresenceClear topic (presence_tenant (h_config h) topic (sb_principal sub)) key (h_node h))
     | _ \<Rightarrow> None) (sb_tracked sub)"

definition presence_disconnect :: "nat \<Rightarrow> hub \<Rightarrow> hub" where
  "presence_disconnect conn h =
     (case map_of (h_conns h) conn of
        None \<Rightarrow> h
      | Some sub \<Rightarrow> foldl (\<lambda>h m. bus_publish m h) (h\<lparr>h_conns := AList.delete conn (h_conns h)\<rparr>) (owned_clears h sub))"

definition hub_disconnect :: "nat \<Rightarrow> hub \<Rightarrow> hub" where "hub_disconnect conn h = presence_disconnect conn h"

definition drop_connection :: "nat \<Rightarrow> hub \<Rightarrow> hub" where
  "drop_connection cid h =
     (case map_of (h_conns h) cid of
        None \<Rightarrow> h
      | Some sub \<Rightarrow> foldl (\<lambda>h m. bus_publish m h) (h\<lparr>h_conns := AList.delete cid (h_conns h)\<rparr>) (owned_clears h sub))"

definition send_to :: "nat \<Rightarrow> server_msg \<Rightarrow> hub \<Rightarrow> hub" where
  "send_to conn m h =
     (case map_of (h_conns h) conn of
        None \<Rightarrow> h
      | Some sub \<Rightarrow>
          (case try_send m sub of
             Some sub' \<Rightarrow> h\<lparr>h_conns := AList.update conn sub' (h_conns h)\<rparr>
           | None \<Rightarrow> drop_connection conn h))"

definition on_join_presence :: "nat \<Rightarrow> channel_id \<Rightarrow> hub \<Rightarrow> hub" where
  "on_join_presence conn ch h =
     (case ch of
        Presence topic \<Rightarrow>
          (case map_of (h_conns h) conn of
             None \<Rightarrow> h
           | Some sub \<Rightarrow>
               send_to conn (SPresenceState (as_string ch)
                 (pm_state \<lparr>pt_topic = topic, pt_tenant = presence_tenant (h_config h) topic (sb_principal sub)\<rparr> (h_presence h))) h)
      | _ \<Rightarrow> h)"

section \<open>Client frames\<close>

definition contains :: "str \<Rightarrow> str \<Rightarrow> bool" where
  "contains sub s = list_ex (\<lambda>n. take (length sub) (drop n s) = sub) [0..<Suc (length s)]"

definition hub_join :: "nat \<Rightarrow> str \<Rightarrow> frame_ref \<Rightarrow> hub \<Rightarrow> hub" where
  "hub_join conn channel r h =
     (case channel_parse channel of
        None \<Rightarrow> send_to conn (SError ''JC0404'' ''unknown channel namespace'' (Some channel) r) h
      | Some ch \<Rightarrow>
          if (case ch of Changes _ \<Rightarrow> True | _ \<Rightarrow> False) \<and> h_unavailable h
          then send_to conn (SError ''JC0530'' ''realtime changes require Postgres'' (Some channel) r) h
          else
            (case map_of (h_conns h) conn of
               None \<Rightarrow> h
             | Some sub \<Rightarrow>
                 (case may_join ch (h_config h) (sb_principal sub) of
                    Err reason \<Rightarrow>
                      if reason = ''unknown channel''
                      then send_to conn (SError ''JC0404'' ''unknown channel'' (Some channel) r) h
                      else send_to conn (SError (if contains ''authentication'' reason then ''JC0401'' else ''JC0403'')
                             reason (Some channel) r) h
                  | Ok _ \<Rightarrow>
                      on_join_presence conn ch
                        (send_to conn (SJoined channel r)
                          (h\<lparr>h_conns := AList.update conn (sub\<lparr>sb_channels := List.insert ch (sb_channels sub)\<rparr>) (h_conns h)\<rparr>)))))"

definition hub_leave :: "nat \<Rightarrow> str \<Rightarrow> frame_ref \<Rightarrow> hub \<Rightarrow> hub" where
  "hub_leave conn channel r h =
     send_to conn (SLeft channel r)
       (case (channel_parse channel, map_of (h_conns h) conn) of
          (Some ch, Some sub) \<Rightarrow>
            h\<lparr>h_conns := AList.update conn (sub\<lparr>sb_channels := removeAll ch (sb_channels sub)\<rparr>) (h_conns h)\<rparr>
        | _ \<Rightarrow> h)"

definition client_publish :: "nat \<Rightarrow> str \<Rightarrow> json \<Rightarrow> frame_ref \<Rightarrow> hub \<Rightarrow> hub" where
  "client_publish conn channel payload r h =
     (case channel_parse channel of
        Some (Broadcast topic) \<Rightarrow>
          (case map_of (h_conns h) conn of
             None \<Rightarrow> h
           | Some sub \<Rightarrow>
               if Broadcast topic \<notin> set (sb_channels sub)
               then send_to conn (SError ''JC0403'' ''join the channel before publishing'' (Some channel) r) h
               else bus_publish (BBroadcast topic
                      (case map_of (rc_broadcast (h_config h)) topic of
                         Some ScopeTenant \<Rightarrow> Option.bind (sb_principal sub) pr_tenant | _ \<Rightarrow> None)
                      payload (Some (h_node h, conn))) h)
      | _ \<Rightarrow> send_to conn (SError ''JC0404'' ''publish targets a broadcast channel'' (Some channel) r) h)"

definition client_track :: "nat \<Rightarrow> str \<Rightarrow> json \<Rightarrow> frame_ref \<Rightarrow> hub \<Rightarrow> hub" where
  "client_track conn channel state r h =
     (case channel_parse channel of
        Some (Presence topic) \<Rightarrow>
          (case map_of (h_conns h) conn of
             None \<Rightarrow> h
           | Some sub \<Rightarrow>
               if Presence topic \<notin> set (sb_channels sub)
               then (case try_send (SError ''JC0403'' ''join the presence channel before tracking'' (Some channel) r) sub of
                       Some sub' \<Rightarrow> h\<lparr>h_conns := AList.update conn sub' (h_conns h)\<rparr>
                     | None \<Rightarrow> h)
               else
                 (let key = presence_key (sb_principal sub) conn in
                  bus_publish (BPresenceSet topic (presence_tenant (h_config h) topic (sb_principal sub)) key (h_node h) state)
                    (h\<lparr>h_conns := AList.update conn (sub\<lparr>sb_tracked := List.insert (Presence topic, key) (sb_tracked sub)\<rparr>) (h_conns h)\<rparr>)))
      | _ \<Rightarrow> send_to conn (SError ''JC0404'' ''track targets a presence channel'' (Some channel) r) h)"

definition client_untrack :: "nat \<Rightarrow> str \<Rightarrow> frame_ref \<Rightarrow> hub \<Rightarrow> hub" where
  "client_untrack conn channel r h =
     (case channel_parse channel of
        Some (Presence topic) \<Rightarrow>
          (case map_of (h_conns h) conn of
             None \<Rightarrow> h
           | Some sub \<Rightarrow>
               (let key = presence_key (sb_principal sub) conn in
                if (Presence topic, key) \<in> set (sb_tracked sub)
                then bus_publish (BPresenceClear topic (presence_tenant (h_config h) topic (sb_principal sub)) key (h_node h))
                       (h\<lparr>h_conns := AList.update conn (sub\<lparr>sb_tracked := removeAll (Presence topic, key) (sb_tracked sub)\<rparr>) (h_conns h)\<rparr>)
                else h))
      | _ \<Rightarrow> h)"

text \<open>One text frame; \<open>parse\<close> is the frame decoder with its error text.\<close>

definition handle_client :: "(str \<Rightarrow> (str, client_msg) result) \<Rightarrow> nat \<Rightarrow> str \<Rightarrow> hub \<Rightarrow> hub" where
  "handle_client parse conn text h =
     (case parse text of
        Err e \<Rightarrow> send_to conn (SError ''JC0422'' (''unparseable frame: '' @ e) None None) h
      | Ok (CHeartbeat r) \<Rightarrow> send_to conn (SHeartbeatAck r) h
      | Ok (CJoin channel r) \<Rightarrow> hub_join conn channel r h
      | Ok (CLeave channel r) \<Rightarrow> hub_leave conn channel r h
      | Ok (CPublish channel payload r) \<Rightarrow> client_publish conn channel payload r h
      | Ok (CTrack channel state r) \<Rightarrow> client_track conn channel state r h
      | Ok (CUntrack channel r) \<Rightarrow> client_untrack conn channel r h)"

section \<open>Server-side publishing\<close>

definition em_dash :: str where "em_dash = map char_of [226 :: nat, 128, 148]"

definition server_publish_scope :: "str \<Rightarrow> hub \<Rightarrow> (error, topic_scope) result" where
  "server_publish_scope topic h =
     (case map_of (rc_broadcast (h_config h)) topic of
        Some sc \<Rightarrow> Ok sc
      | None \<Rightarrow> Err (error_new 404 ''JC0404'' (''no broadcast topic `'' @ topic @
          ''` is declared '' @ em_dash @ '' server publish targets a declared broadcast topic'')))"

definition publish_from_server :: "str \<Rightarrow> json \<Rightarrow> hub \<Rightarrow> (error, unit) result \<times> hub" where
  "publish_from_server topic payload h =
     (case server_publish_scope topic h of
        Err e \<Rightarrow> (Err e, h)
      | Ok sc \<Rightarrow>
          if sc = ScopeTenant
          then (Err (error_new 403 ''JC0403'' (''broadcast topic `'' @ topic @
            ''` is tenant-scoped; a plain `publish` is un-partitioned and would leak across tenants, so it is refused. Use `publish_to(tenant_id, '' @
            [CHR 0x22] @ topic @ [CHR 0x22] @ '', payload)` to reach a single tenant'' @ [CHR 0x27] @ ''s sockets '' @ em_dash @
            '' and do NOT downgrade the topic'' @ [CHR 0x27] @ ''s scope to work around this: `none`/`auth` topics are visible to every tenant'')), h)
          else (Ok (), bus_publish (BBroadcast topic None payload None) h))"

definition publish_to_tenant :: "str \<Rightarrow> str \<Rightarrow> json \<Rightarrow> hub \<Rightarrow> (error, unit) result \<times> hub" where
  "publish_to_tenant tenant topic payload h =
     (case server_publish_scope topic h of
        Err e \<Rightarrow> (Err e, h)
      | Ok sc \<Rightarrow>
          if sc \<noteq> ScopeTenant
          then (Err (error_new 403 ''JC0403'' (''broadcast topic `'' @ topic @
            ''` is not tenant-scoped; `publish_to` partitions per tenant, so on an un-partitioned `none`/`auth` topic the tenant argument would be silently ignored. Use `publish('' @
            [CHR 0x22] @ topic @ [CHR 0x22] @ '', payload)` for it'')), h)
          else (Ok (), bus_publish (BBroadcast topic (Some tenant) payload None) h))"

section \<open>Delivery from the bus\<close>

text \<open>
  The loop of every delivery: each connection is offered at most one message (\<open>pick\<close>); the connections
  whose queue is full are collected.
\<close>

definition fan_out :: "(nat \<Rightarrow> subscriber \<Rightarrow> server_msg option) \<Rightarrow> (nat \<times> subscriber) list \<Rightarrow> (nat \<times> subscriber) list \<times> nat list" where
  "fan_out pick conns =
     (map (\<lambda>(cid, sub). (cid, case pick cid sub of
        None \<Rightarrow> sub | Some m \<Rightarrow> (case try_send m sub of Some sub' \<Rightarrow> sub' | None \<Rightarrow> sub))) conns,
      map fst (filter (\<lambda>(cid, sub). case pick cid sub of None \<Rightarrow> False | Some m \<Rightarrow> try_send m sub = None) conns))"

definition broadcast_pick :: "str \<Rightarrow> str option \<Rightarrow> json \<Rightarrow> (nat \<times> nat) option \<Rightarrow> nat \<Rightarrow> nat \<Rightarrow> subscriber \<Rightarrow> server_msg option" where
  "broadcast_pick topic tenant payload origin node cid sub =
     (if Broadcast topic \<notin> set (sb_channels sub) then None
      else if origin = Some (node, cid) then None
      else if (case tenant of None \<Rightarrow> False | Some t \<Rightarrow> Option.bind (sb_principal sub) pr_tenant \<noteq> Some t) then None
      else Some (SEvent (as_string (Broadcast topic)) payload))"

text \<open>A slow consumer of a broadcast is removed from the registry.\<close>

definition deliver_broadcast :: "str \<Rightarrow> str option \<Rightarrow> json \<Rightarrow> (nat \<times> nat) option \<Rightarrow> hub \<Rightarrow> hub" where
  "deliver_broadcast topic tenant payload origin h =
     (case fan_out (broadcast_pick topic tenant payload origin (h_node h)) (h_conns h) of
        (conns, drops) \<Rightarrow> foldl (\<lambda>h cid. h\<lparr>h_conns := AList.delete cid (h_conns h)\<rparr>) (h\<lparr>h_conns := conns\<rparr>) drops)"

definition op_str :: "change_op \<Rightarrow> str" where
  "op_str op = (case op of OpInsert \<Rightarrow> ''insert'' | OpUpdate \<Rightarrow> ''update'' | OpDelete \<Rightarrow> ''delete'')"

definition change_pick :: "change_spec \<Rightarrow> change_event \<Rightarrow> nat \<Rightarrow> subscriber \<Rightarrow> server_msg option" where
  "change_pick spec ev cid sub =
     (let row = map_option (\<lambda>r. project_row r (cs_hidden spec)) (ev_row ev);
          ch = as_string (Changes (ev_entity ev)) in
      if Changes (ev_entity ev) \<notin> set (sb_channels sub) then None
      else if change_visible spec ev (sb_principal sub)
      then Some (SEvent ch (JObject [(''pk'', JString (ev_pk ev)),
             (''row'', case row of None \<Rightarrow> JNull | Some r \<Rightarrow> r), (''type'', JString (op_str (ev_op ev)))]))
      else if delete_view_for_old_tenant spec ev (sb_principal sub)
      then Some (SEvent ch (JObject [(''pk'', JString (ev_pk ev)), (''type'', JString ''delete'')]))
      else None)"

definition deliver_change :: "change_event \<Rightarrow> hub \<Rightarrow> hub" where
  "deliver_change ev h =
     (case List.find (\<lambda>s. cs_entity s = ev_entity ev) (rc_changes (h_config h)) of
        None \<Rightarrow> h
      | Some spec \<Rightarrow>
          (case fan_out (change_pick spec ev) (h_conns h) of
             (conns, drops) \<Rightarrow> foldl (\<lambda>h cid. drop_connection cid h) (h\<lparr>h_conns := conns\<rparr>) drops))"

definition diff_pick :: "rt_config \<Rightarrow> partition \<Rightarrow> json \<Rightarrow> json \<Rightarrow> nat \<Rightarrow> subscriber \<Rightarrow> server_msg option" where
  "diff_pick cfg part joins leaves cid sub =
     (if Presence (pt_topic part) \<notin> set (sb_channels sub) then None
      else if presence_tenant cfg (pt_topic part) (sb_principal sub) \<noteq> pt_tenant part then None
      else Some (SPresenceDiff (as_string (Presence (pt_topic part))) joins leaves))"

definition broadcast_presence_diff :: "partition \<Rightarrow> json \<Rightarrow> json \<Rightarrow> hub \<Rightarrow> hub" where
  "broadcast_presence_diff part joins leaves h =
     (case fan_out (diff_pick (h_config h) part joins leaves) (h_conns h) of
        (conns, drops) \<Rightarrow> foldl (\<lambda>h cid. drop_connection cid h) (h\<lparr>h_conns := conns\<rparr>) drops)"

definition deliver_presence_set :: "str \<Rightarrow> str option \<Rightarrow> str \<Rightarrow> nat \<Rightarrow> json \<Rightarrow> nat \<Rightarrow> hub \<Rightarrow> hub" where
  "deliver_presence_set topic tenant key node meta now h =
     (let part = \<lparr>pt_topic = topic, pt_tenant = tenant\<rparr> in
      case pm_set part key node meta now (h_presence h) of
        (joins, m) \<Rightarrow>
          (case joins of
             Some j \<Rightarrow> broadcast_presence_diff part j (JObject []) (h\<lparr>h_presence := m\<rparr>)
           | None \<Rightarrow> h\<lparr>h_presence := m\<rparr>))"

definition deliver_presence_clear :: "str \<Rightarrow> str option \<Rightarrow> str \<Rightarrow> nat \<Rightarrow> hub \<Rightarrow> hub" where
  "deliver_presence_clear topic tenant key node h =
     (let part = \<lparr>pt_topic = topic, pt_tenant = tenant\<rparr> in
      case pm_clear part key node (h_presence h) of
        (leaves, m) \<Rightarrow>
          (case leaves of
             Some l \<Rightarrow> broadcast_presence_diff part (JObject []) l (h\<lparr>h_presence := m\<rparr>)
           | None \<Rightarrow> h\<lparr>h_presence := m\<rparr>))"

definition deliver_presence_snapshot :: "nat \<Rightarrow> nat \<Rightarrow> hub \<Rightarrow> hub" where
  "deliver_presence_snapshot node now h = h\<lparr>h_presence := touch_node node now (h_presence h)\<rparr>"

text \<open>The resync frame is offered; a full queue loses it.\<close>

definition deliver_resync :: "str option \<Rightarrow> hub \<Rightarrow> hub" where
  "deliver_resync entity h = h\<lparr>h_conns := map (\<lambda>(cid, sub). (cid,
     foldl (\<lambda>sub ch. case ch of
        Changes e \<Rightarrow>
          if (case entity of None \<Rightarrow> True | Some want \<Rightarrow> want = e)
          then (case try_send (SResync (as_string ch)) sub of Some sub' \<Rightarrow> sub' | None \<Rightarrow> sub)
          else sub
      | _ \<Rightarrow> sub) sub (sb_channels sub))) (h_conns h)\<rparr>"

definition hub_deliver :: "nat \<Rightarrow> bus_message \<Rightarrow> hub \<Rightarrow> hub" where
  "hub_deliver now m h =
     (case m of
        BBroadcast topic tenant payload origin \<Rightarrow> deliver_broadcast topic tenant payload origin h
      | BChange ev \<Rightarrow> deliver_change ev (h\<lparr>h_unavailable := False\<rparr>)
      | BPresenceSet topic tenant key node meta \<Rightarrow> deliver_presence_set topic tenant key node meta now h
      | BPresenceClear topic tenant key node \<Rightarrow> deliver_presence_clear topic tenant key node h
      | BPresenceSnapshot node entries \<Rightarrow> deliver_presence_snapshot node now h
      | BResync entity \<Rightarrow> deliver_resync entity h
      | BChangesHealth u \<Rightarrow> h\<lparr>h_unavailable := u\<rparr>)"

definition NODE_TTL_MS :: nat where "NODE_TTL_MS = 90000"

definition presence_tick :: "nat \<Rightarrow> hub \<Rightarrow> hub" where
  "presence_tick now h =
     (let h1 = bus_publish (BPresenceSnapshot (h_node h) (local_entries (h_node h) (h_presence h))) h in
      case pm_sweep now NODE_TTL_MS (touch_node (h_node h) now (h_presence h1)) of
        (leaves, m) \<Rightarrow>
          foldl (\<lambda>h (part, diff). broadcast_presence_diff part (JObject []) diff h) (h1\<lparr>h_presence := m\<rparr>) leaves)"

section \<open>The socket\<close>

definition MAX_WS_MESSAGE_SIZE :: nat where "MAX_WS_MESSAGE_SIZE = 256 * 1024"

text \<open>\<open>hdr\<close> is a header's text, \<open>derive\<close> the accept key of the WebSocket library.\<close>

definition handshake_accept :: "(str \<Rightarrow> str) \<Rightarrow> (str \<Rightarrow> str option) \<Rightarrow> (error, str) result" where
  "handshake_accept derive hdr =
     (let connection_ok = (case hdr ''connection'' of None \<Rightarrow> False
            | Some v \<Rightarrow> list_ex (\<lambda>t. eq_ignore_ascii_case (trim t) ''upgrade'') (split_on CHR '','' v));
          upgrade_ok = (case hdr ''upgrade'' of None \<Rightarrow> False | Some v \<Rightarrow> eq_ignore_ascii_case v ''websocket'')
      in if \<not> connection_ok \<or> \<not> upgrade_ok
         then Err (error_new 426 ''JC0400'' (''this endpoint speaks WebSocket '' @ em_dash @
           '' send Connection: Upgrade / Upgrade: websocket''))
         else if (case hdr ''sec-websocket-version'' of None \<Rightarrow> True | Some v \<Rightarrow> trim v \<noteq> ''13'')
         then Err (bad_request ''unsupported Sec-WebSocket-Version (need 13)'')
         else (case hdr ''sec-websocket-key'' of
                 None \<Rightarrow> Err (bad_request ''missing Sec-WebSocket-Key'')
               | Some key \<Rightarrow> Ok (derive key)))"

definition principal_from_resolver :: "(error, principal) result \<Rightarrow> (error, principal option) result" where
  "principal_from_resolver r =
     (case r of Ok p \<Rightarrow> Ok (Some p) | Err e \<Rightarrow> if status e = 401 then Ok None else Err e)"

text \<open>
  The connection's loop over what its \<open>select\<close> yields, with the instant: an outbound frame is taken off
  the queue, an inbound text, ping or pong renews the idle deadline, and anything else that ends the
  connection does so. It ends by disconnecting.
\<close>

datatype conn_event = EvOut bool | EvOutClosed | EvText str | EvPing | EvBinary | EvCloseFrame | EvReadError | EvIdle

definition IDLE_MS :: nat where "IDLE_MS = 60000"

definition pop_queue :: "nat \<Rightarrow> hub \<Rightarrow> hub" where
  "pop_queue conn h =
     (case map_of (h_conns h) conn of
        None \<Rightarrow> h
      | Some sub \<Rightarrow> h\<lparr>h_conns := AList.update conn (sub\<lparr>sb_queue := tl (sb_queue sub)\<rparr>) (h_conns h)\<rparr>)"

fun conn_loop :: "(str \<Rightarrow> (str, client_msg) result) \<Rightarrow> nat \<Rightarrow> (nat \<times> conn_event) list \<Rightarrow> nat \<Rightarrow> hub \<Rightarrow> hub" where
  "conn_loop parse conn [] deadline h = h"
| "conn_loop parse conn ((now, ev) # evs) deadline h =
     (case ev of
        EvOut sent \<Rightarrow> if sent then conn_loop parse conn evs deadline (pop_queue conn h) else hub_disconnect conn (pop_queue conn h)
      | EvText t \<Rightarrow> conn_loop parse conn evs (now + IDLE_MS) (handle_client parse conn t h)
      | EvPing \<Rightarrow> conn_loop parse conn evs (now + IDLE_MS) h
      | EvBinary \<Rightarrow> conn_loop parse conn evs deadline h
      | EvIdle \<Rightarrow> if deadline \<le> now then hub_disconnect conn h else conn_loop parse conn evs deadline h
      | _ \<Rightarrow> hub_disconnect conn h)"

section \<open>A cluster of nodes\<close>

text \<open>One step of a node. \<open>msgs\<close> is what some node has published; \<open>step_source\<close> is the change source of
  the node, \<open>step_trigger\<close> its trigger adapter, \<open>step_pop\<close> a client reading its queue.\<close>

inductive hub_step :: "(str \<Rightarrow> (str, client_msg) result) \<Rightarrow> bus_message set \<Rightarrow> hub \<Rightarrow> hub \<Rightarrow> bool"
  for parse msgs where
  step_connect: "hub_step parse msgs h (snd (hub_connect who h))"
| step_frame: "hub_step parse msgs h (handle_client parse conn text h)"
| step_pop: "hub_step parse msgs h (pop_queue conn h)"
| step_disconnect: "hub_step parse msgs h (hub_disconnect conn h)"
| step_deliver: "m \<in> msgs \<Longrightarrow> hub_step parse msgs h (hub_deliver now m h)"
| step_tick: "hub_step parse msgs h (presence_tick now h)"
| step_server: "hub_step parse msgs h (snd (publish_from_server topic payload h))"
| step_server_to: "hub_step parse msgs h (snd (publish_to_tenant tenant topic payload h))"
| step_source: "(case m of BChange _ \<Rightarrow> True | BResync _ \<Rightarrow> True | BChangesHealth _ \<Rightarrow> True | _ \<Rightarrow> False) \<Longrightarrow>
    hub_step parse msgs h (bus_publish m h)"
| step_trigger: "hub_step parse msgs h (deliver_change ev h)"

inductive cluster :: "(str \<Rightarrow> (str, client_msg) result) \<Rightarrow> rt_config \<Rightarrow> hub list \<Rightarrow> bool" for parse cfg where
  cluster_init: "cluster parse cfg (map (hub_new cfg) nodes)"
| cluster_step: "cluster parse cfg hs \<Longrightarrow> n < length hs \<Longrightarrow>
    hub_step parse (\<Union>h \<in> set hs. set (h_bus h)) (hs ! n) h' \<Longrightarrow> cluster parse cfg (hs[n := h'])"

section \<open>The fields the operations touch\<close>

lemma publish_fields [simp]:
  "h_conns (bus_publish m h) = h_conns h" "h_config (bus_publish m h) = h_config h" "h_node (bus_publish m h) = h_node h"
  "h_presence (bus_publish m h) = h_presence h" "h_next_conn (bus_publish m h) = h_next_conn h"
  "h_bus (bus_publish m h) = h_bus h @ [m]" "h_unavailable (bus_publish m h) = h_unavailable h"
  by (simp_all add: bus_publish_def)

lemma publish_all:
  "h_conns (foldl (\<lambda>h m. bus_publish m h) h ms) = h_conns h"
  "h_config (foldl (\<lambda>h m. bus_publish m h) h ms) = h_config h"
  "h_node (foldl (\<lambda>h m. bus_publish m h) h ms) = h_node h"
  "h_presence (foldl (\<lambda>h m. bus_publish m h) h ms) = h_presence h"
  "h_next_conn (foldl (\<lambda>h m. bus_publish m h) h ms) = h_next_conn h"
  "h_bus (foldl (\<lambda>h m. bus_publish m h) h ms) = h_bus h @ ms"
  by (induction ms arbitrary: h) simp_all

lemma drop_connection_fields:
  "h_conns (drop_connection cid h) = AList.delete cid (h_conns h)"
  "h_config (drop_connection cid h) = h_config h" "h_node (drop_connection cid h) = h_node h"
  "h_presence (drop_connection cid h) = h_presence h" "h_next_conn (drop_connection cid h) = h_next_conn h"
  "h_bus (drop_connection cid h) = h_bus h @ (case map_of (h_conns h) cid of None \<Rightarrow> [] | Some sub \<Rightarrow> owned_clears h sub)"
proof -
  have "map_of (h_conns h) cid = None \<Longrightarrow> AList.delete cid (h_conns h) = h_conns h"
    unfolding map_of_eq_None_iff by (rule delete_id)
  then show "h_conns (drop_connection cid h) = AList.delete cid (h_conns h)"
    by (cases "map_of (h_conns h) cid") (simp_all add: drop_connection_def publish_all)
qed (cases "map_of (h_conns h) cid"; simp add: drop_connection_def publish_all owned_clears_def)+

lemma disconnect_drop: "hub_disconnect conn h = drop_connection conn h"
  by (simp add: hub_disconnect_def presence_disconnect_def drop_connection_def)

section \<open>What the fan-out does to one connection\<close>

definition offer :: "(nat \<Rightarrow> subscriber \<Rightarrow> server_msg option) \<Rightarrow> nat \<Rightarrow> subscriber \<Rightarrow> subscriber option" where
  "offer pick cid sub = (case pick cid sub of None \<Rightarrow> Some sub | Some m \<Rightarrow> try_send m sub)"

lemma map_of_map_keyed: "map_of (map (\<lambda>(k, v). (k, f k v)) xs) k = map_option (f k) (map_of xs k)"
  by (induction xs) auto

lemma map_of_fold_delete: "map_of (foldl (\<lambda>xs c. AList.delete c xs) xs cs) k = (if k \<in> set cs then None else map_of xs k)"
  by (induction cs arbitrary: xs) (auto simp: delete_conv')

lemma fan_out_conns:
  assumes "fan_out pick conns = (conns', drops)" "distinct (map fst conns)"
  shows "map_of (foldl (\<lambda>xs c. AList.delete c xs) conns' drops) cid = Option.bind (map_of conns cid) (offer pick cid)"
proof -
  have drops: "cid \<in> set drops \<longleftrightarrow> (\<exists>sub. map_of conns cid = Some sub \<and> offer pick cid sub = None)"
    using assms by (force simp: fan_out_def offer_def split: option.splits dest: map_of_SomeD intro: map_of_is_SomeI)
  have "conns' = map (\<lambda>(cid, sub). (cid, case offer pick cid sub of Some sub' \<Rightarrow> sub' | None \<Rightarrow> sub)) conns"
    using assms(1) by (auto simp: fan_out_def offer_def split: option.splits)
  then have "map_of conns' cid = map_option (\<lambda>sub. case offer pick cid sub of Some sub' \<Rightarrow> sub' | None \<Rightarrow> sub) (map_of conns cid)"
    by (simp add: map_of_map_keyed)
  with drops show ?thesis
    by (cases "map_of conns cid"; cases "offer pick cid (the (map_of conns cid))") (auto simp: map_of_fold_delete)
qed

lemma fold_delete_conns:
  "h_conns (foldl (\<lambda>h cid. h\<lparr>h_conns := AList.delete cid (h_conns h)\<rparr>) h drops) =
     foldl (\<lambda>xs c. AList.delete c xs) (h_conns h) drops"
  by (induction drops arbitrary: h) simp_all

lemma fold_drop_conns:
  "h_conns (foldl (\<lambda>h cid. drop_connection cid h) h drops) = foldl (\<lambda>xs c. AList.delete c xs) (h_conns h) drops"
  by (induction drops arbitrary: h) (simp_all add: drop_connection_fields)

lemma deliver_broadcast_conn:
  "distinct (map fst (h_conns h)) \<Longrightarrow> map_of (h_conns (deliver_broadcast topic tenant payload origin h)) cid =
     Option.bind (map_of (h_conns h) cid) (offer (broadcast_pick topic tenant payload origin (h_node h)) cid)"
  unfolding deliver_broadcast_def
  by (split prod.splits) (simp add: fold_delete_conns fan_out_conns)

lemma deliver_change_conn:
  "distinct (map fst (h_conns h)) \<Longrightarrow> map_of (h_conns (deliver_change ev h)) cid =
     (case List.find (\<lambda>s. cs_entity s = ev_entity ev) (rc_changes (h_config h)) of
        None \<Rightarrow> map_of (h_conns h) cid
      | Some spec \<Rightarrow> Option.bind (map_of (h_conns h) cid) (offer (change_pick spec ev) cid))"
  unfolding deliver_change_def
  by (auto simp: fold_drop_conns fan_out_conns split: prod.splits option.split)

lemma diff_conn:
  "distinct (map fst (h_conns h)) \<Longrightarrow> map_of (h_conns (broadcast_presence_diff part joins leaves h)) cid =
     Option.bind (map_of (h_conns h) cid) (offer (diff_pick (h_config h) part joins leaves) cid)"
  unfolding broadcast_presence_diff_def
  by (split prod.splits) (simp add: fold_drop_conns fan_out_conns)

section \<open>The invariant of a node\<close>

definition topic_tenant_ok :: "(str \<times> topic_scope) list \<Rightarrow> str \<Rightarrow> str option \<Rightarrow> bool" where
  "topic_tenant_ok topics topic tenant \<longleftrightarrow>
     (case map_of topics topic of None \<Rightarrow> False | Some sc \<Rightarrow> (tenant \<noteq> None) = (sc = ScopeTenant))"

definition msg_ok :: "rt_config \<Rightarrow> bus_message \<Rightarrow> bool" where
  "msg_ok cfg m = (case m of
       BBroadcast topic tenant _ _ \<Rightarrow> topic_tenant_ok (rc_broadcast cfg) topic tenant
     | BPresenceSet topic tenant _ _ _ \<Rightarrow> topic_tenant_ok (rc_presence cfg) topic tenant
     | BPresenceClear topic tenant _ _ \<Rightarrow> topic_tenant_ok (rc_presence cfg) topic tenant
     | _ \<Rightarrow> True)"

definition sub_ok :: "rt_config \<Rightarrow> subscriber \<Rightarrow> bool" where
  "sub_ok cfg sub \<longleftrightarrow>
     (\<forall>ch \<in> set (sb_channels sub). may_join ch cfg (sb_principal sub) = Ok ()) \<and>
     (\<forall>(ch, key) \<in> set (sb_tracked sub). may_join ch cfg (sb_principal sub) = Ok ()) \<and>
     length (sb_queue sub) \<le> CONN_QUEUE"

definition hub_ok :: "rt_config \<Rightarrow> hub \<Rightarrow> bool" where
  "hub_ok cfg h \<longleftrightarrow> h_config h = cfg \<and> distinct (map fst (h_conns h)) \<and>
     (\<forall>(cid, sub) \<in> set (h_conns h). cid < h_next_conn h \<and> sub_ok cfg sub) \<and>
     (\<forall>m \<in> set (h_bus h). msg_ok cfg m)"

lemma hub_ok_conn: "hub_ok cfg h \<Longrightarrow> map_of (h_conns h) cid = Some sub \<Longrightarrow> sub_ok cfg sub \<and> cid < h_next_conn h"
  by (auto simp: hub_ok_def dest: map_of_SomeD)

lemma hub_ok_cfg: "hub_ok cfg h \<Longrightarrow> h_config h = cfg \<and> distinct (map fst (h_conns h))"
  by (simp add: hub_ok_def)

lemma hub_ok_new: "hub_ok cfg (hub_new cfg node)"
  by (simp add: hub_ok_def hub_new_def)

lemma hub_ok_publish: "hub_ok cfg h \<Longrightarrow> msg_ok cfg m \<Longrightarrow> hub_ok cfg (bus_publish m h)"
  by (simp add: hub_ok_def)

lemma hub_ok_publish_all: "hub_ok cfg h \<Longrightarrow> \<forall>m \<in> set ms. msg_ok cfg m \<Longrightarrow> hub_ok cfg (foldl (\<lambda>h m. bus_publish m h) h ms)"
  by (induction ms arbitrary: h) (auto intro: hub_ok_publish)

lemma hub_ok_update:
  "hub_ok cfg h \<Longrightarrow> sub_ok cfg sub \<Longrightarrow> cid < h_next_conn h \<Longrightarrow> hub_ok cfg (h\<lparr>h_conns := AList.update cid sub (h_conns h)\<rparr>)"
  by (auto simp: hub_ok_def distinct_update dest!: set_update_subset)

lemma hub_ok_delete: "hub_ok cfg h \<Longrightarrow> hub_ok cfg (h\<lparr>h_conns := AList.delete cid (h_conns h)\<rparr>)"
  using distinct_delete [of "h_conns h" cid] by (auto simp: hub_ok_def AList.delete_eq)

lemma hub_ok_presence [simp]:
  "hub_ok cfg (h\<lparr>h_presence := m\<rparr>) = hub_ok cfg h" "hub_ok cfg (h\<lparr>h_unavailable := u\<rparr>) = hub_ok cfg h"
  by (simp_all add: hub_ok_def)

lemma presence_tenant_ok:
  "may_join (Presence topic) cfg who = Ok () \<Longrightarrow> topic_tenant_ok (rc_presence cfg) topic (presence_tenant cfg topic who)"
  by (auto simp: topic_tenant_ok_def presence_tenant_def scope_allows_Ok split: option.splits topic_scope.splits)

lemma owned_clears_ok:
  assumes "sub_ok (h_config h) sub" "m \<in> set (owned_clears h sub)"
  shows "msg_ok (h_config h) m"
proof -
  from assms(2) obtain topic key where "(Presence topic, key) \<in> set (sb_tracked sub)"
    "m = BPresenceClear topic (presence_tenant (h_config h) topic (sb_principal sub)) key (h_node h)"
    by (force simp: owned_clears_def List.map_filter_def split: channel_id.splits)
  with assms(1) show ?thesis by (auto simp: msg_ok_def sub_ok_def presence_tenant_ok)
qed

lemma hub_ok_drop: "hub_ok cfg h \<Longrightarrow> hub_ok cfg (drop_connection cid h)"
  unfolding drop_connection_def
  using hub_ok_conn [of cfg h cid] hub_ok_cfg [of cfg h] owned_clears_ok
  by (auto split: option.split intro!: hub_ok_publish_all hub_ok_delete)

lemma hub_ok_drops: "hub_ok cfg h \<Longrightarrow> hub_ok cfg (foldl (\<lambda>h cid. drop_connection cid h) h cids)"
  by (induction cids arbitrary: h) (auto intro: hub_ok_drop)

lemma hub_ok_deletes: "hub_ok cfg h \<Longrightarrow> hub_ok cfg (foldl (\<lambda>h cid. h\<lparr>h_conns := AList.delete cid (h_conns h)\<rparr>) h cids)"
  by (induction cids arbitrary: h) (auto intro: hub_ok_delete)

lemma sub_ok_send: "sub_ok cfg sub \<Longrightarrow> try_send m sub = Some sub' \<Longrightarrow> sub_ok cfg sub'"
  by (auto simp: sub_ok_def try_send_def split: if_splits)

lemma hub_ok_map:
  assumes "hub_ok cfg h" "\<And>cid sub. sub_ok cfg sub \<Longrightarrow> sub_ok cfg (f cid sub)"
  shows "hub_ok cfg (h\<lparr>h_conns := map (\<lambda>(cid, sub). (cid, f cid sub)) (h_conns h)\<rparr>)"
proof -
  have "map fst (map (\<lambda>(cid, sub). (cid, f cid sub)) (h_conns h)) = map fst (h_conns h)" by auto
  then have "distinct (map fst (map (\<lambda>(cid, sub). (cid, f cid sub)) (h_conns h)))"
    using assms(1) by (simp only: hub_ok_def)
  with assms show ?thesis by (auto simp: hub_ok_def simp del: map_map)
qed

lemma hub_ok_fan_out:
  assumes "hub_ok cfg h" "fan_out pick (h_conns h) = (conns, drops)"
  shows "hub_ok cfg (h\<lparr>h_conns := conns\<rparr>)"
proof -
  have "conns = map (\<lambda>(cid, sub). (cid, case pick cid sub of
        None \<Rightarrow> sub | Some m \<Rightarrow> (case try_send m sub of Some sub' \<Rightarrow> sub' | None \<Rightarrow> sub))) (h_conns h)"
    using assms(2) by (simp add: fan_out_def)
  then show ?thesis using assms(1) by (auto intro!: hub_ok_map split: option.split intro: sub_ok_send)
qed

lemma hub_ok_send_to: "hub_ok cfg h \<Longrightarrow> hub_ok cfg (send_to conn m h)"
  unfolding send_to_def
  using hub_ok_conn [of cfg h conn]
  by (auto split: option.split intro: hub_ok_drop hub_ok_update sub_ok_send)

section \<open>Every step keeps the invariant\<close>

lemma hub_ok_connect: "hub_ok cfg h \<Longrightarrow> hub_ok cfg (snd (hub_connect who h))"
  by (auto simp: hub_connect_def hub_ok_def distinct_update sub_ok_def less_Suc_eq dest!: set_update_subset)

lemma hub_ok_on_join: "hub_ok cfg h \<Longrightarrow> hub_ok cfg (on_join_presence conn ch h)"
  by (auto simp: on_join_presence_def split: channel_id.split option.split intro: hub_ok_send_to)

text \<open>Facts about a subscriber that a handler finds in the registry.\<close>

lemma sub_ok_channel: "sub_ok cfg sub \<Longrightarrow> ch \<in> set (sb_channels sub) \<Longrightarrow> may_join ch cfg (sb_principal sub) = Ok ()"
  by (simp add: sub_ok_def)

lemma sub_ok_insert:
  "sub_ok cfg sub \<Longrightarrow> may_join ch cfg (sb_principal sub) = Ok () \<Longrightarrow> sub_ok cfg (sub\<lparr>sb_channels := List.insert ch (sb_channels sub)\<rparr>)"
  by (simp add: sub_ok_def)

lemma sub_ok_remove: "sub_ok cfg sub \<Longrightarrow> sub_ok cfg (sub\<lparr>sb_channels := removeAll ch (sb_channels sub)\<rparr>)"
  by (simp add: sub_ok_def)

lemma sub_ok_track:
  "sub_ok cfg sub \<Longrightarrow> may_join ch cfg (sb_principal sub) = Ok () \<Longrightarrow> sub_ok cfg (sub\<lparr>sb_tracked := List.insert (ch, key) (sb_tracked sub)\<rparr>)"
  by (simp add: sub_ok_def)

lemma sub_ok_untrack: "sub_ok cfg sub \<Longrightarrow> sub_ok cfg (sub\<lparr>sb_tracked := removeAll x (sb_tracked sub)\<rparr>)"
  by (simp add: sub_ok_def)

lemma sub_ok_tracked: "sub_ok cfg sub \<Longrightarrow> (ch, key) \<in> set (sb_tracked sub) \<Longrightarrow> may_join ch cfg (sb_principal sub) = Ok ()"
  by (auto simp: sub_ok_def)

lemma hub_ok_join:
  assumes ok: "hub_ok cfg h"
  shows "hub_ok cfg (hub_join conn channel r h)"
proof (cases "channel_parse channel")
  case (Some ch)
  have cfg: "h_config h = cfg" using ok by (simp add: hub_ok_def)
  show ?thesis
  proof (cases "map_of (h_conns h) conn")
    case s: (Some sub)
    show ?thesis
      using hub_ok_conn [OF ok s] ok
      by (auto simp: hub_join_def Some s cfg sub_ok_insert hub_ok_update hub_ok_send_to hub_ok_on_join
          split: sum.split simp del: may_join.simps)
  qed (simp add: hub_join_def Some ok hub_ok_send_to)
qed (simp add: hub_join_def ok hub_ok_send_to)

lemma hub_ok_leave:
  assumes ok: "hub_ok cfg h"
  shows "hub_ok cfg (hub_leave conn channel r h)"
proof (cases "map_of (h_conns h) conn")
  case s: (Some sub)
  show ?thesis
    using hub_ok_conn [OF ok s] ok
    by (auto simp: hub_leave_def s split: option.split intro!: hub_ok_send_to hub_ok_update sub_ok_remove)
qed (use ok in \<open>simp add: hub_leave_def hub_ok_send_to split: option.split\<close>)

lemma broadcast_tenant_ok:
  "may_join (Broadcast topic) cfg who = Ok () \<Longrightarrow>
     topic_tenant_ok (rc_broadcast cfg) topic (case map_of (rc_broadcast cfg) topic of Some ScopeTenant \<Rightarrow> Option.bind who pr_tenant | _ \<Rightarrow> None)"
  by (auto simp: topic_tenant_ok_def scope_allows_Ok split: option.splits topic_scope.splits)

lemma hub_ok_client_publish:
  assumes ok: "hub_ok cfg h"
  shows "hub_ok cfg (client_publish conn channel payload r h)"
proof (cases "\<exists>topic sub. channel_parse channel = Some (Broadcast topic) \<and> map_of (h_conns h) conn = Some sub")
  case True
  then obtain topic sub where t: "channel_parse channel = Some (Broadcast topic)" and s: "map_of (h_conns h) conn = Some sub" by blast
  have cfg: "h_config h = cfg" using ok by (simp add: hub_ok_def)
  show ?thesis
    unfolding client_publish_def t s option.case channel_id.case cfg
    using sub_ok_channel [OF hub_ok_conn [OF ok s, THEN conjunct1], of "Broadcast topic"] ok
    by (auto simp: msg_ok_def intro!: hub_ok_send_to hub_ok_publish broadcast_tenant_ok simp del: may_join.simps)
next
  case False
  with ok show ?thesis by (auto simp: client_publish_def hub_ok_send_to split: option.split channel_id.split)
qed

lemma hub_ok_track:
  assumes ok: "hub_ok cfg h"
  shows "hub_ok cfg (client_track conn channel state r h)"
proof (cases "\<exists>topic sub. channel_parse channel = Some (Presence topic) \<and> map_of (h_conns h) conn = Some sub")
  case True
  then obtain topic sub where t: "channel_parse channel = Some (Presence topic)" and s: "map_of (h_conns h) conn = Some sub" by blast
  have cfg: "h_config h = cfg" using ok by (simp add: hub_ok_def)
  show ?thesis
    unfolding client_track_def t s option.case channel_id.case cfg Let_def
    using sub_ok_channel [OF hub_ok_conn [OF ok s, THEN conjunct1], of "Presence topic"] hub_ok_conn [OF ok s] ok
    by (auto simp: msg_ok_def split: option.split simp del: may_join.simps
        intro!: hub_ok_publish hub_ok_update sub_ok_track presence_tenant_ok intro: sub_ok_send)
next
  case False
  with ok show ?thesis by (auto simp: client_track_def hub_ok_send_to split: option.split channel_id.split)
qed

lemma hub_ok_untrack:
  assumes ok: "hub_ok cfg h"
  shows "hub_ok cfg (client_untrack conn channel r h)"
proof (cases "\<exists>topic sub. channel_parse channel = Some (Presence topic) \<and> map_of (h_conns h) conn = Some sub")
  case True
  then obtain topic sub where t: "channel_parse channel = Some (Presence topic)" and s: "map_of (h_conns h) conn = Some sub" by blast
  have cfg: "h_config h = cfg" using ok by (simp add: hub_ok_def)
  show ?thesis
    unfolding client_untrack_def t s option.case channel_id.case cfg Let_def
    using sub_ok_tracked [OF hub_ok_conn [OF ok s, THEN conjunct1]] hub_ok_conn [OF ok s] ok
    by (auto simp: msg_ok_def simp del: may_join.simps
        intro!: hub_ok_publish hub_ok_update sub_ok_untrack presence_tenant_ok)
next
  case False
  with ok show ?thesis by (auto simp: client_untrack_def split: option.split channel_id.split)
qed

lemma hub_ok_frame: "hub_ok cfg h \<Longrightarrow> hub_ok cfg (handle_client parse conn t h)"
  by (auto simp: handle_client_def hub_ok_send_to hub_ok_join hub_ok_leave hub_ok_client_publish hub_ok_track hub_ok_untrack
      split: sum.split client_msg.split)

lemma hub_ok_deliver_broadcast: "hub_ok cfg h \<Longrightarrow> hub_ok cfg (deliver_broadcast topic tenant payload origin h)"
  by (auto simp: deliver_broadcast_def split: prod.split intro!: hub_ok_deletes intro: hub_ok_fan_out)

lemma hub_ok_deliver_change: "hub_ok cfg h \<Longrightarrow> hub_ok cfg (deliver_change ev h)"
  by (auto simp: deliver_change_def split: prod.split option.split intro!: hub_ok_drops intro: hub_ok_fan_out)

lemma hub_ok_diff: "hub_ok cfg h \<Longrightarrow> hub_ok cfg (broadcast_presence_diff part joins leaves h)"
  by (auto simp: broadcast_presence_diff_def split: prod.split intro!: hub_ok_drops intro: hub_ok_fan_out)

lemma hub_ok_diffs:
  "hub_ok cfg h \<Longrightarrow> hub_ok cfg (foldl (\<lambda>h (part, diff). broadcast_presence_diff part (JObject []) diff h) h ds)"
  by (induction ds arbitrary: h) (auto intro: hub_ok_diff)

lemma hub_ok_resync: "hub_ok cfg h \<Longrightarrow> hub_ok cfg (deliver_resync entity h)"
  unfolding deliver_resync_def
proof (rule hub_ok_map, assumption)
  fix cid sub
  let ?f = "\<lambda>sub ch. case ch of
        Changes e \<Rightarrow>
          if (case entity of None \<Rightarrow> True | Some want \<Rightarrow> want = e)
          then (case try_send (SResync (as_string ch)) sub of Some sub' \<Rightarrow> sub' | None \<Rightarrow> sub)
          else sub
      | _ \<Rightarrow> sub"
  assume "sub_ok cfg sub"
  moreover have "sub_ok cfg s \<Longrightarrow> sub_ok cfg (?f s ch)" for s ch
    by (auto split: channel_id.split option.split intro: sub_ok_send)
  then have "sub_ok cfg s \<Longrightarrow> sub_ok cfg (foldl ?f s chs)" for s chs by (induction chs arbitrary: s) auto
  ultimately show "sub_ok cfg (foldl ?f sub (sb_channels sub))" by blast
qed

lemma hub_ok_deliver: "hub_ok cfg h \<Longrightarrow> hub_ok cfg (hub_deliver now m h)"
  by (auto simp: hub_deliver_def hub_ok_deliver_broadcast hub_ok_deliver_change deliver_presence_set_def
      deliver_presence_clear_def deliver_presence_snapshot_def hub_ok_diff hub_ok_resync Let_def
      split: bus_message.split prod.split option.split)

lemma hub_ok_tick: "hub_ok cfg h \<Longrightarrow> hub_ok cfg (presence_tick now h)"
  by (auto simp: presence_tick_def Let_def msg_ok_def split: prod.split intro!: hub_ok_diffs hub_ok_publish)

lemma hub_ok_pop: "hub_ok cfg h \<Longrightarrow> hub_ok cfg (pop_queue conn h)"
  unfolding pop_queue_def
  using hub_ok_conn [of cfg h conn] by (auto split: option.split intro!: hub_ok_update simp: sub_ok_def)

lemma hub_ok_server: "hub_ok cfg h \<Longrightarrow> hub_ok cfg (snd (publish_from_server topic payload h))"
  unfolding publish_from_server_def server_publish_scope_def
  using hub_ok_cfg [of cfg h]
  by (auto split: option.split sum.split intro!: hub_ok_publish simp: msg_ok_def topic_tenant_ok_def)

lemma hub_ok_server_to: "hub_ok cfg h \<Longrightarrow> hub_ok cfg (snd (publish_to_tenant tenant topic payload h))"
  unfolding publish_to_tenant_def server_publish_scope_def
  using hub_ok_cfg [of cfg h]
  by (auto split: option.split sum.split intro!: hub_ok_publish simp: msg_ok_def topic_tenant_ok_def)

lemma hub_step_ok: "hub_step parse msgs h h' \<Longrightarrow> hub_ok cfg h \<Longrightarrow> hub_ok cfg h'"
  by (induction rule: hub_step.induct)
    (auto simp: hub_ok_connect hub_ok_frame hub_ok_pop disconnect_drop hub_ok_drop hub_ok_deliver hub_ok_tick
      hub_ok_server hub_ok_server_to hub_ok_deliver_change msg_ok_def split: bus_message.splits intro!: hub_ok_publish)

text \<open>A connection's whole loop is made of such steps.\<close>

lemma conn_loop_ok: "hub_ok cfg h \<Longrightarrow> hub_ok cfg (conn_loop parse conn evs deadline h)"
  by (induction parse conn evs deadline h rule: conn_loop.induct)
    (auto simp: disconnect_drop hub_ok_drop hub_ok_pop hub_ok_frame split: conn_event.split)

lemma cluster_ok: "cluster parse cfg hs \<Longrightarrow> h \<in> set hs \<Longrightarrow> hub_ok cfg h"
proof (induction arbitrary: h rule: cluster.induct)
  case (cluster_init nodes)
  then show ?case by (auto simp: hub_ok_new)
next
  case (cluster_step hs n h')
  have "hub_ok cfg h'" by (rule hub_step_ok [OF cluster_step.hyps(3)]) (use cluster_step.hyps(2) cluster_step.IH in simp)
  moreover have "h = h' \<or> h \<in> set hs" using cluster_step.prems set_update_subset_insert [of hs n h'] by blast
  ultimately show ?case using cluster_step.IH by blast
qed

section \<open>What a presence subscriber sees\<close>

text \<open>A client folds the presence diffs of one channel into its view.\<close>

definition view_frames :: "str \<Rightarrow> server_msg list \<Rightarrow> (str \<Rightarrow> json option) \<Rightarrow> str \<Rightarrow> json option" where
  "view_frames chan fs v = foldl (\<lambda>v f. case f of
     SPresenceDiff c joins leaves \<Rightarrow> if c = chan then apply_diff joins leaves v else v | _ \<Rightarrow> v) v fs"

lemma view_frames_simps [simp]:
  "view_frames chan [] v = v" "view_frames chan (fs @ gs) v = view_frames chan gs (view_frames chan fs v)"
  "view_frames chan [SPresenceDiff c j l] v = (if c = chan then apply_diff j l v else v)"
  "view_frames chan [SEvent c d] v = v" "view_frames chan [SResync c] v = v"
  by (simp_all add: view_frames_def)

text \<open>\<open>gets P ds sub sub'\<close>: \<open>sub'\<close> is \<open>sub\<close> with frames queued that carry exactly the diffs \<open>ds\<close> of \<open>P\<close>.\<close>

definition gets :: "partition \<Rightarrow> (partition \<times> json \<times> json) list \<Rightarrow> subscriber \<Rightarrow> subscriber \<Rightarrow> bool" where
  "gets P ds sub sub' \<longleftrightarrow> (\<exists>fs. sub' = sub\<lparr>sb_queue := sb_queue sub @ fs\<rparr> \<and>
     (\<forall>v. view_frames (as_string (Presence (pt_topic P))) fs v = apply_diffs P ds v))"

lemma gets_refl: "gets P [] sub sub"
  unfolding gets_def by (rule exI [of _ "[]"]) simp

lemma gets_trans: "gets P ds sub sub1 \<Longrightarrow> gets P ds' sub1 sub2 \<Longrightarrow> gets P (ds @ ds') sub sub2"
  unfolding gets_def by (elim exE conjE, rule_tac x = "fs @ fsa" in exI) simp

lemma gets_fields: "gets P ds sub sub' \<Longrightarrow> sb_principal sub' = sb_principal sub \<and> sb_channels sub' = sb_channels sub"
  by (auto simp: gets_def)

text \<open>The subscriber's own partition of a topic.\<close>

definition own_partition :: "rt_config \<Rightarrow> str \<Rightarrow> subscriber \<Rightarrow> partition" where
  "own_partition cfg topic sub = \<lparr>pt_topic = topic, pt_tenant = presence_tenant cfg topic (sb_principal sub)\<rparr>"

lemma offer_diff_gets:
  assumes "offer (diff_pick cfg part joins leaves) cid sub = Some sub'" "Presence topic \<in> set (sb_channels sub)"
  shows "gets (own_partition cfg topic sub) [(part, joins, leaves)] sub sub'"
proof -
  let ?chan = "as_string (Presence topic)"
  let ?P = "own_partition cfg topic sub"
  let ?ok = "Presence (pt_topic part) \<in> set (sb_channels sub) \<and> presence_tenant cfg (pt_topic part) (sb_principal sub) = pt_tenant part"
  have own: "part = ?P \<longleftrightarrow> pt_topic part = topic \<and> presence_tenant cfg topic (sb_principal sub) = pt_tenant part"
    unfolding own_partition_def by (cases part) auto
  show ?thesis
  proof (cases ?ok)
    case True
    then have "sub' = sub\<lparr>sb_queue := sb_queue sub @ [SPresenceDiff (as_string (Presence (pt_topic part))) joins leaves]\<rparr>"
      using assms(1) by (auto simp: offer_def diff_pick_def try_send_def split: if_splits)
    moreover have "as_string (Presence (pt_topic part)) = ?chan \<longleftrightarrow> part = ?P"
      using True own by (auto simp: as_string_inj)
    ultimately show ?thesis unfolding gets_def own_partition_def
      by (intro exI [of _ "[SPresenceDiff (as_string (Presence (pt_topic part))) joins leaves]"])
        (simp add: own_partition_def)
  next
    case False
    then have "sub' = sub" "part \<noteq> ?P" using assms own by (auto simp: offer_def diff_pick_def split: if_splits)
    then show ?thesis using gets_refl [of ?P sub] by (simp add: gets_def)
  qed
qed

lemma hub_diff_gets:
  assumes "hub_ok cfg h" "map_of (h_conns h) cid = Some sub" "Presence topic \<in> set (sb_channels sub)"
    and "map_of (h_conns (broadcast_presence_diff part joins leaves h)) cid = Some sub'"
  shows "gets (own_partition cfg topic sub) [(part, joins, leaves)] sub sub'"
  using assms hub_ok_cfg [OF assms(1)] diff_conn [of h part joins leaves cid]
  by (auto intro!: offer_diff_gets)

lemma diff_conn_subset:
  "hub_ok cfg h \<Longrightarrow> map_of (h_conns (broadcast_presence_diff part joins leaves h)) cid = Some sub' \<Longrightarrow> map_of (h_conns h) cid \<noteq> None"
  using hub_ok_cfg [of cfg h] diff_conn [of h part joins leaves cid] by (cases "map_of (h_conns h) cid") auto

lemma diffs_conn_subset:
  "hub_ok cfg h \<Longrightarrow> map_of (h_conns (foldl (\<lambda>h (part, diff). broadcast_presence_diff part (JObject []) diff h) h ds)) cid = Some sub' \<Longrightarrow>
     map_of (h_conns h) cid \<noteq> None"
proof (induction ds arbitrary: h)
  case (Cons d ds)
  obtain part diff where d: "d = (part, diff)" by (cases d)
  have "map_of (h_conns (broadcast_presence_diff part (JObject []) diff h)) cid \<noteq> None"
    using Cons.IH [OF hub_ok_diff [OF Cons.prems(1)]] Cons.prems(2) d by simp
  then show ?case using diff_conn_subset [OF Cons.prems(1)] by blast
qed simp

lemma hub_diffs_gets:
  assumes "hub_ok cfg h" "map_of (h_conns h) cid = Some sub" "Presence topic \<in> set (sb_channels sub)"
    and "map_of (h_conns (foldl (\<lambda>h (part, diff). broadcast_presence_diff part (JObject []) diff h) h ds)) cid = Some sub'"
  shows "gets (own_partition cfg topic sub) (map (\<lambda>(part, diff). (part, JObject [], diff)) ds) sub sub'"
  using assms
proof (induction ds arbitrary: h sub)
  case Nil
  then show ?case by (simp add: gets_refl)
next
  case (Cons d ds)
  obtain part diff where d: "d = (part, diff)" by (cases d)
  let ?h1 = "broadcast_presence_diff part (JObject []) diff h"
  have end_: "map_of (h_conns (foldl (\<lambda>h (part, diff). broadcast_presence_diff part (JObject []) diff h) ?h1 ds)) cid = Some sub'"
    using Cons.prems(4) d by simp
  obtain sub1 where s1: "map_of (h_conns ?h1) cid = Some sub1"
    using diffs_conn_subset [OF hub_ok_diff [OF Cons.prems(1)] end_] by blast
  note g1 = hub_diff_gets [OF Cons.prems(1-3) s1]
  have "own_partition cfg topic sub1 = own_partition cfg topic sub" using gets_fields [OF g1] by (simp add: own_partition_def)
  with Cons.IH [OF hub_ok_diff [OF Cons.prems(1)] s1 _ end_] gets_fields [OF g1] Cons.prems(3) gets_trans [OF g1]
  show ?case by (simp add: d)
qed

text \<open>The presence map of a reachable hub is well formed.\<close>

lemma presence_unchanged [simp]:
  "h_presence (send_to conn m h) = h_presence h"
  "h_presence (deliver_broadcast topic tenant payload origin h) = h_presence h"
  "h_presence (deliver_change ev h) = h_presence h"
  "h_presence (broadcast_presence_diff part joins leaves h) = h_presence h"
proof -
  have drops: "h_presence (foldl (\<lambda>h cid. drop_connection cid h) h cids) = h_presence h" for cids h
    by (induction cids arbitrary: h) (simp_all add: drop_connection_fields)
  have dels: "h_presence (foldl (\<lambda>h cid. h\<lparr>h_conns := AList.delete cid (h_conns h)\<rparr>) h cids) = h_presence h" for cids h
    by (induction cids arbitrary: h) simp_all
  show "h_presence (send_to conn m h) = h_presence h"
    by (simp add: send_to_def drop_connection_fields split: option.split)
  show "h_presence (deliver_broadcast topic tenant payload origin h) = h_presence h"
    by (simp add: deliver_broadcast_def dels split: prod.split)
  show "h_presence (deliver_change ev h) = h_presence h"
    by (simp add: deliver_change_def drops split: prod.split option.split)
  show "h_presence (broadcast_presence_diff part joins leaves h) = h_presence h"
    by (simp add: broadcast_presence_diff_def drops split: prod.split)
qed

lemma presence_diffs_unchanged:
  "h_presence (foldl (\<lambda>h (part, diff). broadcast_presence_diff part (JObject []) diff h) h ds) = h_presence h"
  by (induction ds arbitrary: h) auto

lemma handle_client_presence: "h_presence (handle_client parse conn t h) = h_presence h"
  by (simp add: handle_client_def hub_join_def hub_leave_def client_publish_def client_track_def client_untrack_def
      on_join_presence_def Let_def split: sum.split client_msg.split option.split channel_id.split)

text \<open>What a delivery or a tick does to the presence map is a step of the map.\<close>

definition delivery_op :: "nat \<Rightarrow> bus_message \<Rightarrow> presence_op option" where
  "delivery_op now m = (case m of
       BPresenceSet topic tenant key node meta \<Rightarrow> Some (PSet \<lparr>pt_topic = topic, pt_tenant = tenant\<rparr> key node meta now)
     | BPresenceClear topic tenant key node \<Rightarrow> Some (PClear \<lparr>pt_topic = topic, pt_tenant = tenant\<rparr> key node)
     | BPresenceSnapshot node _ \<Rightarrow> Some (PTouch node now)
     | _ \<Rightarrow> None)"

lemma hub_deliver_presence:
  "h_presence (hub_deliver now m h) = (case delivery_op now m of None \<Rightarrow> h_presence h | Some op \<Rightarrow> snd (pm_step op (h_presence h)))"
  by (simp add: hub_deliver_def delivery_op_def deliver_presence_set_def deliver_presence_clear_def
      deliver_presence_snapshot_def deliver_resync_def Let_def split: bus_message.split prod.split option.split)

lemma presence_tick_presence:
  "h_presence (presence_tick now h) = snd (pm_step (PSweep now NODE_TTL_MS) (touch_node (h_node h) now (h_presence h)))"
  by (simp add: presence_tick_def Let_def presence_diffs_unchanged split: prod.split)

lemma pm_inv_step: "pm_inv m \<Longrightarrow> pm_inv (snd (pm_step op m))"
  using pm_step_correct [of op m "fst (pm_step op m)" "snd (pm_step op m)"] by simp

lemma pm_inv_touch: "pm_inv m \<Longrightarrow> pm_inv (touch_node node now m)"
  by (simp add: touch_node_def)

lemma hub_step_pm_inv: "hub_step parse msgs h h' \<Longrightarrow> pm_inv (h_presence h) \<Longrightarrow> pm_inv (h_presence h')"
  by (induction rule: hub_step.induct)
    (auto simp: hub_connect_def handle_client_presence pop_queue_def disconnect_drop drop_connection_fields hub_deliver_presence
      presence_tick_presence publish_from_server_def publish_to_tenant_def pm_inv_step pm_inv_touch simp del: pm_step.simps
      split: option.split sum.split)

lemma cluster_pm_inv: "cluster parse cfg hs \<Longrightarrow> h \<in> set hs \<Longrightarrow> pm_inv (h_presence h)"
proof (induction arbitrary: h rule: cluster.induct)
  case (cluster_init nodes)
  then show ?case by (auto simp: hub_new_def pm_inv_default)
next
  case (cluster_step hs n h')
  have "pm_inv (h_presence h')" by (rule hub_step_pm_inv [OF cluster_step.hyps(3)]) (use cluster_step.hyps(2) cluster_step.IH in simp)
  moreover have "h = h' \<or> h \<in> set hs" using cluster_step.prems set_update_subset_insert [of hs n h'] by blast
  ultimately show ?case using cluster_step.IH by blast
qed

text \<open>Other deliveries queue no presence frame.\<close>

lemma offer_event_gets:
  assumes "offer pick cid sub = Some sub'" "\<And>m. pick cid sub = Some m \<Longrightarrow> \<exists>c d. m = SEvent c d"
  shows "gets P [] sub sub'"
proof (cases "pick cid sub")
  case None
  with assms(1) show ?thesis using gets_refl by (auto simp: offer_def)
next
  case (Some m)
  moreover from assms(2) [OF this] obtain c d where "m = SEvent c d" by blast
  ultimately show ?thesis using assms(1) unfolding gets_def
    by (intro exI [of _ "[m]"]) (auto simp: offer_def try_send_def split: if_splits)
qed

lemma resync_gets:
  "gets P [] sub (foldl (\<lambda>sub ch. case ch of
        Changes e \<Rightarrow>
          if (case entity of None \<Rightarrow> True | Some want \<Rightarrow> want = e)
          then (case try_send (SResync (as_string ch)) sub of Some sub' \<Rightarrow> sub' | None \<Rightarrow> sub)
          else sub
      | _ \<Rightarrow> sub) sub chs)" (is "gets P [] sub (foldl ?f sub chs)")
proof (induction chs arbitrary: sub)
  case (Cons ch chs)
  have send: "try_send (SResync c) sub = Some s \<Longrightarrow> gets P [] sub s" for c s
    unfolding gets_def by (rule exI [of _ "[SResync c]"]) (auto simp: try_send_def split: if_splits)
  then have "gets P [] sub (?f sub ch)" by (auto simp: gets_refl split: channel_id.split option.split)
  from gets_trans [OF this Cons.IH] show ?case by simp
qed (simp add: gets_refl)

lemma hub_deliver_gets:
  assumes ok: "hub_ok cfg h" and sub: "map_of (h_conns h) cid = Some sub" "Presence topic \<in> set (sb_channels sub)"
    and sub': "map_of (h_conns (hub_deliver now m h)) cid = Some sub'"
  shows "gets (own_partition cfg topic sub)
    (case delivery_op now m of None \<Rightarrow> [] | Some op \<Rightarrow> fst (pm_step op (h_presence h))) sub sub'"
proof (cases m)
  case (BChange ev)
  have "distinct (map fst (h_conns (h\<lparr>h_unavailable := False\<rparr>)))" using hub_ok_cfg [OF ok] by simp
  from deliver_change_conn [OF this, of ev cid] sub sub' show ?thesis
    by (auto simp: BChange delivery_op_def hub_deliver_def change_pick_def Let_def gets_refl
        intro!: offer_event_gets split: option.splits if_splits)
next
  case (BBroadcast t tenant payload origin)
  with deliver_broadcast_conn [OF conjunct2 [OF hub_ok_cfg [OF ok]], of t tenant payload origin cid] sub sub' show ?thesis
    by (auto simp: delivery_op_def hub_deliver_def broadcast_pick_def intro!: offer_event_gets split: if_splits)
next
  case (BPresenceSet t tenant key node meta)
  let ?part = "\<lparr>pt_topic = t, pt_tenant = tenant\<rparr>"
  obtain d m' where s: "pm_set ?part key node meta now (h_presence h) = (d, m')" by fastforce
  then have d: "d = Some (JObject [(key, meta)])" by (simp add: pm_set_def)
  have "hub_ok cfg (h\<lparr>h_presence := m'\<rparr>)" using ok by simp
  from hub_diff_gets [OF this _ sub(2), of cid] s sub sub' show ?thesis
    by (simp add: BPresenceSet delivery_op_def hub_deliver_def deliver_presence_set_def Let_def d)
next
  case (BPresenceClear t tenant key node)
  let ?part = "\<lparr>pt_topic = t, pt_tenant = tenant\<rparr>"
  obtain d m' where s: "pm_clear ?part key node (h_presence h) = (d, m')" by fastforce
  have "hub_ok cfg (h\<lparr>h_presence := m'\<rparr>)" using ok by simp
  from hub_diff_gets [OF this _ sub(2), of cid] s sub sub' show ?thesis
    by (cases d) (simp_all add: BPresenceClear delivery_op_def hub_deliver_def deliver_presence_clear_def Let_def gets_refl)
next
  case (BPresenceSnapshot node es)
  with sub sub' show ?thesis by (simp add: delivery_op_def hub_deliver_def deliver_presence_snapshot_def gets_refl)
next
  case (BResync entity)
  with sub sub' show ?thesis
    by (auto simp: delivery_op_def hub_deliver_def deliver_resync_def map_of_map_keyed intro!: resync_gets)
next
  case (BChangesHealth u)
  with sub sub' show ?thesis by (simp add: delivery_op_def hub_deliver_def gets_refl)
qed

lemma presence_tick_gets:
  assumes ok: "hub_ok cfg h" and sub: "map_of (h_conns h) cid = Some sub" "Presence topic \<in> set (sb_channels sub)"
    and sub': "map_of (h_conns (presence_tick now h)) cid = Some sub'"
  shows "gets (own_partition cfg topic sub)
    (fst (pm_step (PSweep now NODE_TTL_MS) (touch_node (h_node h) now (h_presence h)))) sub sub'"
proof -
  obtain out m' where s: "pm_sweep now NODE_TTL_MS (touch_node (h_node h) now (h_presence h)) = (out, m')" by fastforce
  let ?h = "(bus_publish (BPresenceSnapshot (h_node h) (local_entries (h_node h) (h_presence h))) h)\<lparr>h_presence := m'\<rparr>"
  have "hub_ok cfg ?h" using ok by (simp add: hub_ok_publish msg_ok_def)
  from hub_diffs_gets [OF this _ sub(2), of cid out] s sub sub' show ?thesis by (simp add: presence_tick_def Let_def)
qed

section \<open>Properties\<close>

lemma offer_broadcast:
  "offer (broadcast_pick topic tenant payload origin node) cid sub =
     (if Broadcast topic \<in> set (sb_channels sub) \<and> origin \<noteq> Some (node, cid) \<and>
         (tenant = None \<or> Option.bind (sb_principal sub) pr_tenant = tenant)
      then try_send (SEvent (as_string (Broadcast topic)) payload) sub else Some sub)"
  by (auto simp: offer_def broadcast_pick_def split: option.splits)

text \<open>C13: authorisation is an invariant of a cluster of hubs. In every reachable state of every node, for
  any interleaving of client frames, bus deliveries, ticks, server publishes and disconnects, a
  connection is subscribed only to channels its principal may join, tracks presence only there, and
  has at most \<open>CONN_QUEUE\<close> frames queued; and a broadcast or presence message on the bus carries a
  tenant exactly when its topic is tenant-scoped.\<close>

theorem subscriptions_authorised:
  assumes "cluster parse cfg hs" "h \<in> set hs"
  shows "(\<forall>cid sub. map_of (h_conns h) cid = Some sub \<longrightarrow> cid < h_next_conn h \<and>
      (\<forall>ch \<in> set (sb_channels sub). may_join ch cfg (sb_principal sub) = Ok ()) \<and>
      (\<forall>(ch, key) \<in> set (sb_tracked sub). may_join ch cfg (sb_principal sub) = Ok ()) \<and>
      length (sb_queue sub) \<le> CONN_QUEUE) \<and>
    (\<forall>m \<in> set (h_bus h). msg_ok cfg m)"
  using cluster_ok [OF assms] hub_ok_conn [of cfg h] unfolding sub_ok_def by (auto simp: hub_ok_def)

lemma cluster_bus_step:
  "cluster parse cfg [h] \<Longrightarrow> hub_step parse (set (h_bus h)) h h' \<Longrightarrow> cluster parse cfg [h']"
  using cluster_step [of parse cfg "[h]" 0 h'] by simp

definition chat_config :: rt_config where
  "chat_config = \<lparr>rc_changes = [], rc_broadcast = [(''room'', ScopeTenant)], rc_presence = []\<rparr>"

definition member_of :: "str \<Rightarrow> str \<Rightarrow> principal" where
  "member_of user tenant = \<lparr>pr_user = user, pr_tenant = Some tenant, pr_role = None\<rparr>"

definition parse_join :: "str \<Rightarrow> (str, client_msg) result" where
  "parse_join t = Ok (CJoin t None)"

definition room_hub :: hub where
  "room_hub = handle_client parse_join 2 ''broadcast:room'' (handle_client parse_join 1 ''broadcast:room''
     (snd (hub_connect (Some (member_of ''bob'' ''acme'')) (snd (hub_connect (Some (member_of ''ann'' ''acme'')) (hub_new chat_config 7))))))"

lemma room_reachable: "cluster parse_join chat_config [room_hub]"
  unfolding room_hub_def
  by (intro cluster_bus_step [OF _ step_frame] cluster_bus_step [OF _ step_connect])
    (use cluster_init [of parse_join chat_config "[7]"] in simp)

lemma room_eval:
  "h_conns room_hub =
     [(1, \<lparr>sb_principal = Some (member_of ''ann'' ''acme''), sb_queue = [SJoined ''broadcast:room'' None],
           sb_channels = [Broadcast ''room''], sb_tracked = []\<rparr>),
      (2, \<lparr>sb_principal = Some (member_of ''bob'' ''acme''), sb_queue = [SJoined ''broadcast:room'' None],
           sb_channels = [Broadcast ''room''], sb_tracked = []\<rparr>)]"
  "h_node room_hub = 7" "h_config room_hub = chat_config" "h_bus room_hub = []"
  by (simp_all add: room_hub_def handle_client_def parse_join_def hub_join_def channel_parse_def hub_connect_def
      hub_new_def chat_config_def member_of_def scope_allows_def send_to_def try_send_def CONN_QUEUE_def
      on_join_presence_def List.insert_def eval_nat_numeral)

theorem subscriptions_authorised_witness:
  "may_join (Broadcast ''room'') chat_config (Some (member_of ''ann'' ''acme'')) = Ok ()"
  using subscriptions_authorised [OF room_reachable, of room_hub, THEN conjunct1, rule_format, of 1]
  by (simp add: room_eval del: may_join.simps)

lemma owned_clears_no_broadcast: "BBroadcast a x y z \<notin> set (owned_clears h sub)"
  by (auto simp: owned_clears_def List.map_filter_def split: channel_id.splits)

lemma send_to_no_broadcast: "h_bus (send_to conn m h) \<noteq> h_bus h @ [BBroadcast a x y z]"
proof
  assume "h_bus (send_to conn m h) = h_bus h @ [BBroadcast a x y z]"
  then obtain sub where "owned_clears h sub = [BBroadcast a x y z]"
    by (auto simp: send_to_def drop_connection_fields split: option.splits)
  then show False using owned_clears_no_broadcast [of a x y z h sub] by simp
qed

text \<open>C14: tenant isolation of broadcasts, end to end. When a client frame on one node publishes to a
  tenant-scoped topic, the publisher is a member of some tenant, and when the message is delivered at
  any node, at any later time, the connections that get it are exactly the subscribers of the topic of
  that same tenant other than the publisher itself; they get the publisher's payload unchanged on the
  publisher's channel, and nothing else about them changes. A recipient whose queue is full is dropped
  and a non-recipient is untouched.\<close>

theorem broadcast_tenant_isolation:
  assumes "cluster parse cfg hs" "h0 \<in> set hs" "map_of (rc_broadcast cfg) topic = Some ScopeTenant"
    and "h_bus (client_publish conn channel payload r h0) = h_bus h0 @ [BBroadcast topic tenant sent origin]"
    and "cluster parse cfg hs'" "h \<in> set hs'" "map_of (h_conns h) cid = Some sub"
  shows "\<exists>p t. Option.bind (map_of (h_conns h0) conn) sb_principal = Some p \<and> pr_tenant p = Some t \<and>
    map_of (h_conns (hub_deliver now (BBroadcast topic tenant sent origin) h)) cid =
      (if Broadcast topic \<in> set (sb_channels sub) \<and> Option.bind (sb_principal sub) pr_tenant = Some t \<and>
          (h_node h, cid) \<noteq> (h_node h0, conn)
       then if length (sb_queue sub) < CONN_QUEUE
            then Some (sub\<lparr>sb_queue := sb_queue sub @ [SEvent channel payload]\<rparr>) else None
       else Some sub)"
proof -
  have ok0: "hub_ok cfg h0" and ok: "hub_ok cfg h" using cluster_ok assms by blast+
  have "\<exists>s0. channel_parse channel = Some (Broadcast topic) \<and> map_of (h_conns h0) conn = Some s0 \<and>
      Broadcast topic \<in> set (sb_channels s0) \<and> tenant = Option.bind (sb_principal s0) pr_tenant \<and>
      sent = payload \<and> origin = Some (h_node h0, conn)"
    using assms(3,4) hub_ok_cfg [OF ok0]
    by (auto simp: client_publish_def send_to_no_broadcast split: option.splits channel_id.splits if_splits)
  then obtain s0 where s0: "channel_parse channel = Some (Broadcast topic)" "map_of (h_conns h0) conn = Some s0"
      "Broadcast topic \<in> set (sb_channels s0)" "tenant = Option.bind (sb_principal s0) pr_tenant"
      "sent = payload" "origin = Some (h_node h0, conn)" by blast
  have "may_join (Broadcast topic) cfg (sb_principal s0) = Ok ()"
    using sub_ok_channel [OF hub_ok_conn [OF ok0 s0(2), THEN conjunct1] s0(3)] .
  then obtain p t where pt: "sb_principal s0 = Some p" "pr_tenant p = Some t" using assms(3)
    by (cases "sb_principal s0") (auto simp: scope_allows_Ok)
  then have "tenant = Some t" using s0(4) by simp
  with pt s0 as_string_channel_parse [OF s0(1)] hub_ok_cfg [OF ok] assms(7) show ?thesis
    by (auto simp: hub_deliver_def deliver_broadcast_conn offer_broadcast try_send_def)
qed

theorem broadcast_tenant_isolation_witness:
  "map_of (h_conns (hub_deliver 0 (BBroadcast ''room'' (Some ''acme'') JNull (Some (7, 1))) room_hub)) 2 =
     Some \<lparr>sb_principal = Some (member_of ''bob'' ''acme''), sb_queue = [SJoined ''broadcast:room'' None, SEvent ''broadcast:room'' JNull],
           sb_channels = [Broadcast ''room''], sb_tracked = []\<rparr>"
proof -
  have "h_bus (client_publish 1 ''broadcast:room'' JNull None room_hub) =
      h_bus room_hub @ [BBroadcast ''room'' (Some ''acme'') JNull (Some (7, 1))]"
    by (simp add: client_publish_def channel_parse_def room_eval chat_config_def member_of_def)
  from broadcast_tenant_isolation [OF room_reachable _ _ this room_reachable, of room_hub 2]
  show ?thesis by (auto simp: room_eval chat_config_def member_of_def CONN_QUEUE_def)
qed

text \<open>C15: row-level authorisation of change events. When a node delivers a database change, a connection
  whose state changes is an authenticated subscriber of the entity and gets one frame: either the change
  with the row, when the scope column of the entity names the subscriber's own tenant (or, without a
  tenant column, its own user or nothing), the row free of the hidden columns; or, when the row has left
  the subscriber's tenant, a bare deletion with the primary key only.\<close>

theorem change_delivery_scoped:
  assumes "cluster parse cfg hs" "h \<in> set hs" "map_of (h_conns h) cid = Some sub"
    and "map_of (h_conns (hub_deliver now (BChange ev) h)) cid = Some sub'" "sub' \<noteq> sub"
  shows "\<exists>spec p d. spec \<in> set (rc_changes cfg) \<and> cs_entity spec = ev_entity ev \<and> sb_principal sub = Some p \<and>
    Changes (ev_entity ev) \<in> set (sb_channels sub) \<and>
    sub' = sub\<lparr>sb_queue := sb_queue sub @ [SEvent (''changes:'' @ ev_entity ev) d]\<rparr> \<and>
    ((\<exists>row. d = JObject [(''pk'', JString (ev_pk ev)), (''row'', row), (''type'', JString (op_str (ev_op ev)))] \<and>
        (\<forall>kvs k. row = JObject kvs \<longrightarrow> k \<in> fst ` set kvs \<longrightarrow> k \<notin> set (cs_hidden spec)) \<and>
        (case cs_tenant spec of
           Some _ \<Rightarrow> ev_tenant ev \<noteq> None \<and> pr_tenant p = ev_tenant ev
         | None \<Rightarrow> cs_owner spec = None \<or> ev_owner ev = Some (pr_user p))) \<or>
     (d = JObject [(''pk'', JString (ev_pk ev)), (''type'', JString ''delete'')] \<and> cs_tenant spec \<noteq> None \<and>
        pr_tenant p \<noteq> None \<and> pr_tenant p = ev_old_tenant ev \<and> ev_tenant ev \<noteq> ev_old_tenant ev))"
proof -
  have ok: "hub_ok cfg h" using cluster_ok assms by blast
  have cfg: "h_config h = cfg" "distinct (map fst (h_conns (h\<lparr>h_unavailable := False\<rparr>)))"
    using hub_ok_cfg [OF ok] by simp_all
  obtain spec where spec: "List.find (\<lambda>s. cs_entity s = ev_entity ev) (rc_changes cfg) = Some spec"
    and off: "offer (change_pick spec ev) cid sub = Some sub'"
    using assms(3-5) cfg(1) deliver_change_conn [OF cfg(2), of ev cid] by (auto simp: hub_deliver_def split: option.splits)
  have s: "spec \<in> set (rc_changes cfg)" "cs_entity spec = ev_entity ev"
    using spec by (auto simp: find_Some_iff)
  from off assms(5) obtain m where m: "change_pick spec ev cid sub = Some m" "sub' = sub\<lparr>sb_queue := sb_queue sub @ [m]\<rparr>"
    by (auto simp: offer_def try_send_def split: option.splits if_splits)
  then have ch: "Changes (ev_entity ev) \<in> set (sb_channels sub)" by (auto simp: change_pick_def Let_def split: if_splits)
  show ?thesis
  proof (cases "change_visible spec ev (sb_principal sub)")
    case True
    let ?row = "case map_option (\<lambda>r. project_row r (cs_hidden spec)) (ev_row ev) of None \<Rightarrow> JNull | Some r \<Rightarrow> r"
    from True obtain p where p: "sb_principal sub = Some p" "case cs_tenant spec of
           Some _ \<Rightarrow> ev_tenant ev \<noteq> None \<and> pr_tenant p = ev_tenant ev
         | None \<Rightarrow> cs_owner spec = None \<or> ev_owner ev = Some (pr_user p)" by (auto simp: change_visible_iff)
    moreover have "m = SEvent (''changes:'' @ ev_entity ev)
        (JObject [(''pk'', JString (ev_pk ev)), (''row'', ?row), (''type'', JString (op_str (ev_op ev)))])"
      using m(1) True ch by (simp add: change_pick_def Let_def)
    moreover have "\<forall>kvs k. ?row = JObject kvs \<longrightarrow> k \<in> fst ` set kvs \<longrightarrow> k \<notin> set (cs_hidden spec)"
      by (auto split: option.splits dest: project_row_hidden)
    ultimately show ?thesis using s ch m(2) by blast
  next
    case False
    with m(1) ch have "delete_view_for_old_tenant spec ev (sb_principal sub)"
      and "m = SEvent (''changes:'' @ ev_entity ev) (JObject [(''pk'', JString (ev_pk ev)), (''type'', JString ''delete'')])"
      by (auto simp: change_pick_def Let_def split: if_splits)
    with s ch m(2) show ?thesis by (fastforce simp: delete_view_iff)
  qed
qed

definition orders_config :: rt_config where
  "orders_config = \<lparr>rc_changes = [set_tenant_column (Some ''tenant_id'') (change_spec_new ''Order'' ''orders'' ''id'')],
     rc_broadcast = [], rc_presence = []\<rparr>"

definition orders_hub :: hub where
  "orders_hub = handle_client parse_join 1 ''changes:Order'' (snd (hub_connect (Some (member_of ''ann'' ''acme'')) (hub_new orders_config 7)))"

definition moved_order :: change_event where
  "moved_order = \<lparr>ev_entity = ''Order'', ev_op = OpUpdate, ev_pk = ''5'', ev_row = Some (JObject []),
     ev_tenant = Some ''globex'', ev_old_tenant = Some ''acme'', ev_owner = None\<rparr>"

lemma orders_reachable: "cluster parse_join orders_config [orders_hub]"
  unfolding orders_hub_def
  by (intro cluster_bus_step [OF _ step_frame] cluster_bus_step [OF _ step_connect])
    (use cluster_init [of parse_join orders_config "[7]"] in simp)

lemma orders_eval:
  "h_conns orders_hub = [(1, \<lparr>sb_principal = Some (member_of ''ann'' ''acme''), sb_queue = [SJoined ''changes:Order'' None],
      sb_channels = [Changes ''Order''], sb_tracked = []\<rparr>)]"
  "h_config orders_hub = orders_config"
  by (simp_all add: orders_hub_def handle_client_def parse_join_def hub_join_def channel_parse_def hub_connect_def
      hub_new_def orders_config_def change_spec_new_def set_tenant_column_def send_to_def try_send_def CONN_QUEUE_def
      on_join_presence_def List.insert_def)

theorem change_delivery_scoped_witness:
  "\<exists>sub' d. map_of (h_conns (hub_deliver 0 (BChange moved_order) orders_hub)) 1 = Some sub' \<and>
     sb_queue sub' = [SJoined ''changes:Order'' None, SEvent ''changes:Order'' d] \<and> (\<forall>kvs. d = JObject kvs \<longrightarrow> ''row'' \<notin> fst ` set kvs)"
proof -
  let ?h = "orders_hub\<lparr>h_unavailable := False\<rparr>"
  obtain sub where sub: "map_of (h_conns orders_hub) 1 = Some sub" "sb_principal sub = Some (member_of ''ann'' ''acme'')"
      "sb_queue sub = [SJoined ''changes:Order'' None]" "sb_channels sub = [Changes ''Order'']"
    by (simp add: orders_eval)
  have "\<exists>sub'. map_of (h_conns (hub_deliver 0 (BChange moved_order) orders_hub)) 1 = Some sub' \<and> sub' \<noteq> sub"
    using sub deliver_change_conn [of ?h moved_order 1]
    by (auto simp: hub_deliver_def orders_eval orders_config_def moved_order_def change_spec_new_def set_tenant_column_def
        offer_def change_pick_def change_visible_def delete_view_for_old_tenant_def member_of_def try_send_def CONN_QUEUE_def Let_def
        dest: arg_cong [where f = sb_queue])
  then obtain sub' where s': "map_of (h_conns (hub_deliver 0 (BChange moved_order) orders_hub)) 1 = Some sub'" "sub' \<noteq> sub" by blast
  from change_delivery_scoped [OF orders_reachable _ sub(1) s'] s'(1) sub(2,3) show ?thesis
    by (fastforce simp: moved_order_def orders_config_def change_spec_new_def set_tenant_column_def member_of_def)
qed


text \<open>C16: presence diffs keep every subscriber in step. In a reachable hub, whatever bus message is
  delivered or whenever the periodic tick runs, a subscriber of a presence channel that stays connected
  is queued frames after its old ones such that folding the presence diffs of its channel into the old
  state of its own partition (topic and tenant) gives exactly the new state of that partition: no diff
  is missed and none of another tenant's partition arrives.\<close>

theorem presence_subscriber_tracks:
  assumes "cluster parse cfg hs" "h \<in> set hs" "map_of (h_conns h) cid = Some sub" "Presence topic \<in> set (sb_channels sub)"
    and "h' = hub_deliver now m h \<or> h' = presence_tick now h" "map_of (h_conns h') cid = Some sub'"
  shows "\<exists>fs. sb_queue sub' = sb_queue sub @ fs \<and>
    json_view (pm_state (own_partition cfg topic sub) (h_presence h')) =
      view_frames (''presence:'' @ topic) fs (json_view (pm_state (own_partition cfg topic sub) (h_presence h)))"
proof -
  let ?P = "own_partition cfg topic sub"
  have ok: "hub_ok cfg h" and inv: "pm_inv (h_presence h)" using cluster_ok cluster_pm_inv assms by blast+
  have step: "pm_view (snd (pm_step op pm)) ?P = apply_diffs ?P (fst (pm_step op pm)) (pm_view pm ?P)" if "pm_inv pm" for op pm
    using pm_step_correct [of op pm "fst (pm_step op pm)" "snd (pm_step op pm)" ?P] that by simp
  have touch: "pm_view (touch_node node now pm) ?P = pm_view pm ?P" for node pm
    by (simp add: touch_node_def pm_view_def pm_state_def)
  have "\<exists>ds. gets ?P ds sub sub' \<and> pm_view (h_presence h') ?P = apply_diffs ?P ds (pm_view (h_presence h) ?P)"
    using assms(5)
  proof
    assume h': "h' = hub_deliver now m h"
    show ?thesis
      using hub_deliver_gets [OF ok assms(3,4), of now m sub'] assms(6) step [OF inv]
      by (cases "delivery_op now m") (auto simp: h' hub_deliver_presence simp del: pm_step.simps)
  next
    assume h': "h' = presence_tick now h"
    show ?thesis
      using presence_tick_gets [OF ok assms(3,4), of now sub'] assms(6) step [OF pm_inv_touch [OF inv]]
      by (auto simp: h' presence_tick_presence touch simp del: pm_step.simps)
  qed
  then show ?thesis by (auto simp: gets_def pm_view_def own_partition_def)
qed

definition lobby_config :: rt_config where
  "lobby_config = \<lparr>rc_changes = [], rc_broadcast = [], rc_presence = [(''lobby'', ScopeNone)]\<rparr>"

definition lobby_hub :: hub where
  "lobby_hub = handle_client parse_join 1 ''presence:lobby'' (snd (hub_connect None (hub_new lobby_config 7)))"

lemma lobby_reachable: "cluster parse_join lobby_config [lobby_hub]"
  unfolding lobby_hub_def
  by (intro cluster_bus_step [OF _ step_frame] cluster_bus_step [OF _ step_connect])
    (use cluster_init [of parse_join lobby_config "[7]"] in simp)

lemma lobby_eval:
  "h_conns lobby_hub = [(1, \<lparr>sb_principal = None, sb_queue = [SJoined ''presence:lobby'' None, SPresenceState ''presence:lobby'' (JObject [])],
      sb_channels = [Presence ''lobby''], sb_tracked = []\<rparr>)]"
  "h_config lobby_hub = lobby_config" "h_presence lobby_hub = pm_default"
  by (simp_all add: lobby_hub_def handle_client_def parse_join_def hub_join_def channel_parse_def hub_connect_def
      hub_new_def lobby_config_def scope_allows_def send_to_def try_send_def CONN_QUEUE_def presence_tenant_def
      on_join_presence_def List.insert_def pm_state_def pm_bucket_def pm_default_def metas_def)

theorem presence_subscriber_tracks_witness:
  "\<exists>sub' fs. map_of (h_conns (hub_deliver 5 (BPresenceSet ''lobby'' None ''u1'' 9 (JBool True)) lobby_hub)) 1 = Some sub' \<and>
     sb_queue sub' = [SJoined ''presence:lobby'' None, SPresenceState ''presence:lobby'' (JObject [])] @ fs \<and>
     view_frames ''presence:lobby'' fs Map.empty ''u1'' = Some (JBool True)"
proof -
  let ?m = "BPresenceSet ''lobby'' None ''u1'' 9 (JBool True)"
  obtain sub where sub: "map_of (h_conns lobby_hub) 1 = Some sub" "Presence ''lobby'' \<in> set (sb_channels sub)"
      "sb_queue sub = [SJoined ''presence:lobby'' None, SPresenceState ''presence:lobby'' (JObject [])]" "sb_principal sub = None"
    by (simp add: lobby_eval)
  let ?P = "own_partition lobby_config ''lobby'' sub"
  have P: "?P = \<lparr>pt_topic = ''lobby'', pt_tenant = None\<rparr>"
    by (simp add: own_partition_def presence_tenant_def lobby_config_def)
  have d: "distinct (map fst (h_conns (lobby_hub\<lparr>h_presence := pm\<rparr>)))" for pm by (simp add: lobby_eval)
  have "\<exists>sub'. map_of (h_conns (hub_deliver 5 ?m lobby_hub)) 1 = Some sub'"
    by (simp add: hub_deliver_def deliver_presence_set_def pm_set_def Let_def diff_conn [OF d] lobby_eval offer_def diff_pick_def
        try_send_def CONN_QUEUE_def presence_tenant_def)
  then obtain sub' where s': "map_of (h_conns (hub_deliver 5 ?m lobby_hub)) 1 = Some sub'" by blast
  have pres: "json_view (pm_state \<lparr>pt_topic = ''lobby'', pt_tenant = None\<rparr> (h_presence (hub_deliver 5 ?m lobby_hub))) ''u1'' = Some (JBool True)"
    "json_view (pm_state \<lparr>pt_topic = ''lobby'', pt_tenant = None\<rparr> (h_presence lobby_hub)) = Map.empty"
    by (simp_all add: lobby_eval hub_deliver_presence delivery_op_def pm_set_def pm_default_def pm_bucket_def pm_state_def metas_def json_view_def)
  from presence_subscriber_tracks [OF lobby_reachable _ sub(1,2) disjI1 [OF refl] s'] s' sub(3) pres show ?thesis
    by (auto simp: P)
qed

lemma deletes_fields:
  "h_bus (foldl (\<lambda>h cid. h\<lparr>h_conns := AList.delete cid (h_conns h)\<rparr>) h cids) = h_bus h"
  "h_node (foldl (\<lambda>h cid. h\<lparr>h_conns := AList.delete cid (h_conns h)\<rparr>) h cids) = h_node h"
  by (induction cids arbitrary: h) simp_all

lemma deliver_broadcast_fields:
  "h_bus (deliver_broadcast topic tenant payload origin h) = h_bus h"
  "h_node (deliver_broadcast topic tenant payload origin h) = h_node h"
  by (simp_all add: deliver_broadcast_def deletes_fields split: prod.split)

text \<open>A broadcast to a slow consumer leaves a phantom. A connection that receives a broadcast while its
  queue is full is removed without a presence leave, unlike on every other path: the bus carries nothing
  for it, the connection loop's own disconnect afterwards finds it gone and publishes nothing, and its
  presence entry survives every later tick of its node.\<close>

lemma broadcast_drop_leaves_presence:
  assumes "cluster parse cfg hs" "h \<in> set hs" "map_of (h_conns h) cid = Some sub" "length (sb_queue sub) = CONN_QUEUE"
    and "Broadcast topic \<in> set (sb_channels sub)" "origin \<noteq> Some (h_node h, cid)" "tenant = None \<or> Option.bind (sb_principal sub) pr_tenant = tenant"
    and "pm_get (h_presence h) part key = Some e" "pe_node e = h_node h"
  shows "let h' = hub_disconnect cid (hub_deliver now (BBroadcast topic tenant payload origin) h) in
    map_of (h_conns h') cid = None \<and> h_bus h' = h_bus h \<and>
    pm_get (h_presence (presence_tick later h')) part key = Some e"
proof -
  let ?h1 = "hub_deliver now (BBroadcast topic tenant payload origin) h"
  have ok: "hub_ok cfg h" and inv: "pm_inv (h_presence h)" using cluster_ok cluster_pm_inv assms by blast+
  have gone: "map_of (h_conns ?h1) cid = None"
    using assms deliver_broadcast_conn [OF conjunct2 [OF hub_ok_cfg [OF ok]], of topic tenant payload origin cid]
    by (simp add: hub_deliver_def offer_broadcast try_send_def)
  then have h': "hub_disconnect cid ?h1 = ?h1" by (simp add: hub_disconnect_def presence_disconnect_def)
  have same: "h_bus ?h1 = h_bus h" "h_node ?h1 = h_node h" "h_presence ?h1 = h_presence h"
    by (simp_all add: hub_deliver_def deliver_broadcast_fields)
  obtain out pm' where s: "pm_sweep later NODE_TTL_MS (touch_node (h_node h) later (h_presence h)) = (out, pm')" by fastforce
  have "pm_get pm' part key = Some e"
    using pm_sweep_get [OF s pm_inv_touch [OF inv], of part key] assms(8,9)
    by (simp add: pm_get_def node_dead_def touch_node_def)
  with gone h' same s show ?thesis by (simp add: Let_def presence_tick_presence)
qed

definition demo_config :: rt_config where
  "demo_config = \<lparr>rc_changes = [], rc_broadcast = [(''room'', ScopeNone)], rc_presence = [(''lobby'', ScopeNone)]\<rparr>"

definition demo_parse :: "str \<Rightarrow> (str, client_msg) result" where
  "demo_parse t = Ok (if t = ''hb'' then CHeartbeat None else if t = ''track'' then CTrack ''presence:lobby'' (JBool True) None else CJoin t None)"

definition demo_start :: hub where
  "demo_start = hub_deliver 0 (BPresenceSet ''lobby'' None ''conn:1'' 7 (JBool True))
     (handle_client demo_parse 1 ''track'' (handle_client demo_parse 1 ''broadcast:room''
        (handle_client demo_parse 1 ''presence:lobby'' (snd (hub_connect None (hub_new demo_config 7))))))"

definition heartbeats :: "nat \<Rightarrow> hub \<Rightarrow> hub" where
  "heartbeats n h = foldl (\<lambda>h _. handle_client demo_parse 1 ''hb'' h) h [0..<n]"

lemma heartbeats_Suc: "heartbeats (Suc n) h = handle_client demo_parse 1 ''hb'' (heartbeats n h)" "heartbeats 0 h = h"
  by (simp_all add: heartbeats_def)

lemma show_nat_1: "show_nat (Suc 0) = ''1''"
  by code_simp

lemma demo_eval:
  "map_of (h_conns demo_start) 1 = Some \<lparr>sb_principal = None, sb_queue = [SJoined ''presence:lobby'' None,
      SPresenceState ''presence:lobby'' (JObject []), SJoined ''broadcast:room'' None,
      SPresenceDiff ''presence:lobby'' (JObject [(''conn:1'', JBool True)]) (JObject [])],
    sb_channels = [Broadcast ''room'', Presence ''lobby''], sb_tracked = [(Presence ''lobby'', ''conn:1'')]\<rparr>"
  "pm_get (h_presence demo_start) \<lparr>pt_topic = ''lobby'', pt_tenant = None\<rparr> ''conn:1'' = Some \<lparr>pe_node = 7, pe_meta = JBool True\<rparr>"
  "h_node demo_start = 7"
  by code_simp+

lemma demo_heartbeats:
  "n \<le> 124 \<Longrightarrow> map_of (h_conns (heartbeats n demo_start)) 1 =
     map_option (\<lambda>sub. sub\<lparr>sb_queue := sb_queue sub @ replicate n (SHeartbeatAck None)\<rparr>) (map_of (h_conns demo_start) 1) \<and>
   h_presence (heartbeats n demo_start) = h_presence demo_start \<and> h_node (heartbeats n demo_start) = 7"
  by (induction n) (simp_all add: heartbeats_Suc handle_client_def demo_parse_def send_to_def demo_eval [simplified] try_send_def CONN_QUEUE_def
      update_conv' replicate_append_same)

lemma demo_reachable: "cluster demo_parse demo_config [heartbeats n demo_start]"
proof (induction n)
  case 0
  have "cluster demo_parse demo_config [handle_client demo_parse 1 ''track'' (handle_client demo_parse 1 ''broadcast:room''
        (handle_client demo_parse 1 ''presence:lobby'' (snd (hub_connect None (hub_new demo_config 7)))))]"
    by (intro cluster_bus_step [OF _ step_frame] cluster_bus_step [OF _ step_connect])
      (use cluster_init [of demo_parse demo_config "[7]"] in simp)
  then show ?case unfolding heartbeats_Suc demo_start_def
    by (rule cluster_bus_step [OF _ step_deliver])
      code_simp
next
  case (Suc n)
  then show ?case unfolding heartbeats_Suc by (rule cluster_bus_step [OF _ step_frame])
qed

end
