(* ===== verification/JC_Auth.thy ===== *)
theory JC_Auth
  imports JC_Error
begin

text \<open>
  Authentication, \<open>jerrycan-auth/src\<close>: key derivation and the environment (\<open>lib.rs\<close>), HS256 tokens
  (\<open>jwt.rs\<close>), sealed session cookies (\<open>session.rs\<close>), the extractors and role guards (\<open>guard.rs\<close>),
  webhook signatures (\<open>webhook.rs\<close>), password hashes (\<open>password.rs\<close>) and API keys (\<open>api_key.rs\<close>).

  The cryptography and base64 are crates outside the repository: they are the record \<open>crypto\<close>, with
  their documented behaviour as the predicate \<open>crypto_laws\<close>. Random bytes, the clock and the JSON
  readers of the application's types are arguments.
\<close>

section \<open>The primitives\<close>

record crypto =
  sha256 :: "bytes \<Rightarrow> bytes"
  hmac_sha256 :: "bytes \<Rightarrow> bytes \<Rightarrow> bytes"
  hmac_sha1 :: "bytes \<Rightarrow> bytes \<Rightarrow> bytes"
  b64url :: "bytes \<Rightarrow> str"
  unb64url :: "str \<Rightarrow> bytes option"
  b64std :: "bytes \<Rightarrow> str"
  unb64std :: "str \<Rightarrow> bytes option"
  seal :: "bytes \<Rightarrow> bytes \<Rightarrow> bytes \<Rightarrow> bytes option"
  unseal :: "bytes \<Rightarrow> bytes \<Rightarrow> bytes \<Rightarrow> bytes option"

definition b64url_char :: "char \<Rightarrow> bool" where
  "b64url_char c \<longleftrightarrow> byte_in 48 57 c \<or> byte_in 65 90 c \<or> byte_in 97 122 c \<or> c = CHR ''-'' \<or> c = CHR ''_''"

text \<open>
  What the code relies on: the base64 decoders are strict, so they accept exactly what the encoders
  write, in the URL-safe alphabet; digests have 32 bytes; the AEAD is deterministic for a key and a
  nonce and opens exactly what it seals (\<open>seal key nonce plaintext\<close>).
\<close>

definition crypto_laws :: "crypto \<Rightarrow> bool" where
  "crypto_laws cr \<longleftrightarrow>
     (\<forall>s b. (unb64url cr s = Some b) = (s = b64url cr b)) \<and>
     (\<forall>b. list_all b64url_char (b64url cr b)) \<and>
     (\<forall>s b. (unb64std cr s = Some b) = (s = b64std cr b)) \<and>
     (\<forall>b. length (sha256 cr b) = 32) \<and>
     (\<forall>k n c p. (unseal cr k n c = Some p) = (seal cr k n p = Some c))"

section \<open>Session stores\<close>

definition COOKIE_NAME :: str where "COOKIE_NAME = ''jerrycan_session''"

record session_store =
  ss_primary :: bytes
  ss_fallbacks :: "bytes list"

definition session_store_new :: "bytes \<Rightarrow> session_store" where
  "session_store_new key = \<lparr>ss_primary = key, ss_fallbacks = []\<rparr>"

definition with_keys :: "bytes \<Rightarrow> bytes list \<Rightarrow> session_store" where
  "with_keys primary fallbacks = \<lparr>ss_primary = primary, ss_fallbacks = fallbacks\<rparr>"

text \<open>\<open>ser\<close> is the serialiser of the value with its error text, \<open>de\<close> its deserialiser.\<close>

definition session_encode ::
    "crypto \<Rightarrow> ('a \<Rightarrow> (str, bytes) result) \<Rightarrow> session_store \<Rightarrow> bytes \<Rightarrow> 'a \<Rightarrow> (error, str) result" where
  "session_encode cr ser st nonce v =
     (case ser v of
        Err e \<Rightarrow> Err (internal (''session serialize: '' @ e))
      | Ok plaintext \<Rightarrow>
          (case seal cr (ss_primary st) nonce plaintext of
             None \<Rightarrow> Err (internal ''session encrypt failed'')
           | Some ciphertext \<Rightarrow> Ok (b64url cr (nonce @ ciphertext))))"

text \<open>\<open>find_map\<close> over the keys: the first that opens.\<close>

fun first_open :: "crypto \<Rightarrow> bytes list \<Rightarrow> bytes \<Rightarrow> bytes \<Rightarrow> bytes option" where
  "first_open cr [] nonce c = None"
| "first_open cr (k # ks) nonce c =
     (case unseal cr k nonce c of Some p \<Rightarrow> Some p | None \<Rightarrow> first_open cr ks nonce c)"

definition session_decode ::
    "crypto \<Rightarrow> (bytes \<Rightarrow> 'a option) \<Rightarrow> session_store \<Rightarrow> str \<Rightarrow> (error, 'a) result" where
  "session_decode cr de st token =
     (case unb64url cr token of
        None \<Rightarrow> Err unauthorized
      | Some combined \<Rightarrow>
          if length combined < 12 then Err unauthorized
          else (case first_open cr (ss_primary st # ss_fallbacks st) (take 12 combined) (drop 12 combined) of
                  None \<Rightarrow> Err unauthorized
                | Some plaintext \<Rightarrow> (case de plaintext of None \<Rightarrow> Err unauthorized | Some v \<Rightarrow> Ok v)))"

definition set_cookie ::
    "crypto \<Rightarrow> ('a \<Rightarrow> (str, bytes) result) \<Rightarrow> session_store \<Rightarrow> bytes \<Rightarrow> 'a \<Rightarrow> (error, str) result" where
  "set_cookie cr ser st nonce v =
     bind_result (session_encode cr ser st nonce v) (\<lambda>token.
       Ok (COOKIE_NAME @ ''='' @ token @ ''; HttpOnly; Secure; SameSite=Lax; Path=/''))"

definition clear_cookie :: str where
  "clear_cookie = COOKIE_NAME @ ''=; HttpOnly; Secure; SameSite=Lax; Path=/; Max-Age=0''"

definition read_cookie :: "str \<Rightarrow> str option" where
  "read_cookie header =
     map_option snd (List.find (\<lambda>(k, _). k = COOKIE_NAME)
       (List.map_filter (\<lambda>kv. split_once CHR ''='' (trim kv)) (split_on CHR '';'' header)))"

section \<open>The auth extension\<close>

definition MIN_SECRET_LEN :: nat where "MIN_SECRET_LEN = 32"

definition derive_key :: "crypto \<Rightarrow> str \<Rightarrow> str \<Rightarrow> bytes" where
  "derive_key cr secret label = sha256 cr (secret @ label)"

definition dev_context_allowed :: "str \<Rightarrow> bool" where
  "dev_context_allowed env \<longleftrightarrow>
     to_ascii_lowercase (trim env) \<in> {'''', ''dev'', ''development'', ''test'', ''local''}"

record auth =
  au_sessions :: session_store
  au_tokens :: session_store
  au_jwt_key :: bytes

definition with_secrets :: "crypto \<Rightarrow> str \<Rightarrow> str list \<Rightarrow> auth" where
  "with_secrets cr prim retired =
     \<lparr>au_sessions = with_keys (derive_key cr prim ''session'') (map (\<lambda>s. derive_key cr s ''session'') retired),
      au_tokens = with_keys (derive_key cr prim ''oauth-token'') (map (\<lambda>s. derive_key cr s ''oauth-token'') retired),
      au_jwt_key = derive_key cr prim ''jwt''\<rparr>"

definition with_secret :: "crypto \<Rightarrow> str \<Rightarrow> auth" where
  "with_secret cr secret = with_secrets cr secret []"

definition DEV_SECRET :: str where
  "DEV_SECRET = ''jerrycan-insecure-development-secret-do-not-use!!''"

definition from_env_parts :: "crypto \<Rightarrow> bool \<Rightarrow> str option \<Rightarrow> str \<Rightarrow> (error, auth) result" where
  "from_env_parts cr is_prod secret retired_raw =
     (let retired = filter (\<lambda>s. s \<noteq> []) (map trim (split_on CHR '','' retired_raw)) in
      case (if is_prod then List.find (\<lambda>s. length s < MIN_SECRET_LEN) retired else None) of
        Some short \<Rightarrow> Err (internal (''JERRYCAN_SECRET_OLD entries must each be at least '' @ show_nat MIN_SECRET_LEN @
          '' bytes in production (got one of length '' @ show_nat (length short) @ '')''))
      | None \<Rightarrow>
          (case secret of
             Some s \<Rightarrow>
               if MIN_SECRET_LEN \<le> length s then Ok (with_secrets cr s retired)
               else if is_prod
               then Err (internal (''JERRYCAN_SECRET must be at least '' @ show_nat MIN_SECRET_LEN @ '' bytes in production''))
               else Ok (with_secrets cr DEV_SECRET retired)
           | None \<Rightarrow>
               if is_prod then Err (internal ''JERRYCAN_SECRET is required in production (JERRYCAN_ENV=prod)'')
               else Ok (with_secrets cr DEV_SECRET retired)))"

text \<open>The three variables as the process sees them.\<close>

definition from_env :: "crypto \<Rightarrow> str option \<Rightarrow> str option \<Rightarrow> str option \<Rightarrow> (error, auth) result" where
  "from_env cr env secret retired =
     from_env_parts cr (\<not> dev_context_allowed (case env of None \<Rightarrow> '''' | Some e \<Rightarrow> e)) secret
       (case retired of None \<Rightarrow> '''' | Some r \<Rightarrow> r)"

section \<open>HS256 tokens\<close>

definition unb64 :: "crypto \<Rightarrow> str \<Rightarrow> (error, bytes) result" where
  "unb64 cr s = (case unb64url cr s of None \<Rightarrow> Err unauthorized | Some b \<Rightarrow> Ok b)"

definition jwt_sign :: "crypto \<Rightarrow> str \<Rightarrow> bytes \<Rightarrow> str" where
  "jwt_sign cr msg key = b64url cr (hmac_sha256 cr key msg)"

definition JWT_HEADER :: str where
  "JWT_HEADER = [CHR ''{'', CHR 0x22] @ ''alg'' @ [CHR 0x22, CHR '':'', CHR 0x22] @ ''HS256'' @
     [CHR 0x22, CHR '','', CHR 0x22] @ ''typ'' @ [CHR 0x22, CHR '':'', CHR 0x22] @ ''JWT'' @ [CHR 0x22, CHR ''}'']"

definition jwt_encode :: "crypto \<Rightarrow> ('a \<Rightarrow> (str, bytes) result) \<Rightarrow> 'a \<Rightarrow> bytes \<Rightarrow> (error, str) result" where
  "jwt_encode cr ser claims key =
     (case ser claims of
        Err e \<Rightarrow> Err (internal (''jwt serialize: '' @ e))
      | Ok payload_json \<Rightarrow>
          (let msg = b64url cr JWT_HEADER @ ''.'' @ b64url cr payload_json in
           Ok (msg @ ''.'' @ jwt_sign cr msg key)))"

text \<open>\<open>Value::get("exp").and_then(as_u64)\<close>: an object's field, when it is an integer of 64 bits.\<close>

definition exp_of :: "json option \<Rightarrow> nat option" where
  "exp_of parsed =
     (case parsed of
        Some (JObject kvs) \<Rightarrow>
          (case map_of kvs ''exp'' of
             Some (JNumber n) \<Rightarrow> if 0 \<le> n \<and> n < 2 ^ 64 then Some (nat n) else None
           | _ \<Rightarrow> None)
      | _ \<Rightarrow> None)"

text \<open>\<open>parse\<close> reads any JSON value, \<open>de\<close> the claims.\<close>

definition jwt_decode ::
    "crypto \<Rightarrow> (bytes \<Rightarrow> json option) \<Rightarrow> (bytes \<Rightarrow> 'a option) \<Rightarrow> nat \<Rightarrow> str \<Rightarrow> bytes \<Rightarrow> (error, 'a) result" where
  "jwt_decode cr parse de now token key =
     (case split_on CHR ''.'' token of
        [p0, p1, p2] \<Rightarrow>
          bind_result (unb64 cr p2) (\<lambda>provided.
            if hmac_sha256 cr key (p0 @ ''.'' @ p1) \<noteq> provided then Err unauthorized
            else bind_result (unb64 cr p1) (\<lambda>payload.
              if (case exp_of (parse payload) of None \<Rightarrow> False | Some e \<Rightarrow> e \<le> now) then Err unauthorized
              else (case de payload of None \<Rightarrow> Err unauthorized | Some v \<Rightarrow> Ok v)))
      | _ \<Rightarrow> Err unauthorized)"

section \<open>Extractors and guards\<close>

text \<open>\<open>resolved\<close> is the outcome of resolving \<open>Auth\<close>, \<open>hdr\<close> a header's text.\<close>

definition session_from_request ::
    "crypto \<Rightarrow> (bytes \<Rightarrow> 'a option) \<Rightarrow> (error, auth) result \<Rightarrow> (str \<Rightarrow> str option) \<Rightarrow> (error, 'a) result" where
  "session_from_request cr de resolved hdr =
     bind_result resolved (\<lambda>auth.
       case hdr ''cookie'' of
         None \<Rightarrow> Err unauthorized
       | Some cookie_header \<Rightarrow>
           (case read_cookie cookie_header of
              None \<Rightarrow> Err unauthorized
            | Some token \<Rightarrow> session_decode cr de (au_sessions auth) token))"

definition strip_str :: "str \<Rightarrow> str \<Rightarrow> str option" where
  "strip_str prefix s = (if take (length prefix) s = prefix then Some (drop (length prefix) s) else None)"

definition bearer_from_request ::
    "crypto \<Rightarrow> (bytes \<Rightarrow> json option) \<Rightarrow> (bytes \<Rightarrow> 'a option) \<Rightarrow> nat \<Rightarrow> (error, auth) result \<Rightarrow>
       (str \<Rightarrow> str option) \<Rightarrow> (error, 'a) result" where
  "bearer_from_request cr parse de now resolved hdr =
     bind_result resolved (\<lambda>auth.
       case hdr ''authorization'' of
         None \<Rightarrow> Err unauthorized
       | Some v \<Rightarrow>
           (case strip_str ''Bearer '' v of
              None \<Rightarrow> Err unauthorized
            | Some token \<Rightarrow> jwt_decode cr parse de now token (au_jwt_key auth)))"

definition require_role :: "str \<Rightarrow> str \<Rightarrow> (error, unit) result" where
  "require_role actual required = (if actual = required then Ok () else Err forbidden)"

definition require_any_role :: "str \<Rightarrow> str list \<Rightarrow> (error, unit) result" where
  "require_any_role actual allowed = (if actual \<in> set allowed then Ok () else Err forbidden)"

section \<open>Webhook signatures\<close>

definition from_digit :: "nat \<Rightarrow> char" where
  "from_digit n = (if n < 10 then char_of (48 + n) else char_of (87 + n))"

definition to_digit16 :: "char \<Rightarrow> nat option" where
  "to_digit16 c =
     (let n = of_char c in
      if 48 \<le> n \<and> n \<le> 57 then Some (n - 48)
      else if 97 \<le> n \<and> n \<le> 102 then Some (n - 87)
      else if 65 \<le> n \<and> n \<le> 70 then Some (n - 55)
      else None)"

definition hex_encode :: "bytes \<Rightarrow> str" where
  "hex_encode b = concat (map (\<lambda>c. [from_digit (of_char c div 16), from_digit (of_char c mod 16)]) b)"

fun hex_pairs :: "str \<Rightarrow> bytes option" where
  "hex_pairs (a # b # s) =
     (case to_digit16 a of None \<Rightarrow> None
      | Some hi \<Rightarrow> (case to_digit16 b of None \<Rightarrow> None
         | Some lo \<Rightarrow> map_option (\<lambda>rest. char_of (hi * 16 + lo) # rest) (hex_pairs s)))"
| "hex_pairs _ = Some []"

definition hex_decode :: "str \<Rightarrow> bytes option" where
  "hex_decode s = (if length s mod 2 \<noteq> 0 then None else hex_pairs s)"

definition sign_sha256_hex :: "crypto \<Rightarrow> bytes \<Rightarrow> bytes \<Rightarrow> str" where
  "sign_sha256_hex cr secret msg = hex_encode (hmac_sha256 cr secret msg)"

definition verify_sha256_hex :: "crypto \<Rightarrow> bytes \<Rightarrow> bytes \<Rightarrow> str \<Rightarrow> bool" where
  "verify_sha256_hex cr secret msg signature_hex =
     (case hex_decode signature_hex of None \<Rightarrow> False | Some s \<Rightarrow> hmac_sha256 cr secret msg = s)"

definition sign_sha1_base64 :: "crypto \<Rightarrow> bytes \<Rightarrow> bytes \<Rightarrow> str" where
  "sign_sha1_base64 cr secret msg = b64std cr (hmac_sha1 cr secret msg)"

definition verify_sha1_base64 :: "crypto \<Rightarrow> bytes \<Rightarrow> bytes \<Rightarrow> str \<Rightarrow> bool" where
  "verify_sha1_base64 cr secret msg signature_b64 =
     (case unb64std cr signature_b64 of None \<Rightarrow> False | Some s \<Rightarrow> hmac_sha1 cr secret msg = s)"

section \<open>Passwords\<close>

definition is_bcrypt :: "str \<Rightarrow> bool" where
  "is_bcrypt phc \<longleftrightarrow> strip_str ''$2a$'' phc \<noteq> None \<or> strip_str ''$2b$'' phc \<noteq> None \<or> strip_str ''$2y$'' phc \<noteq> None"

text \<open>\<open>bcrypt\<close> is the bcrypt verifier (no value when the hash is malformed), \<open>phc_parse\<close> and \<open>argon2\<close> the
  reader of hash strings and the argon2 verifier.\<close>

definition verify_password ::
    "(str \<Rightarrow> str \<Rightarrow> bool option) \<Rightarrow> (str \<Rightarrow> 'h option) \<Rightarrow> (str \<Rightarrow> 'h \<Rightarrow> bool) \<Rightarrow> str \<Rightarrow> str \<Rightarrow> (error, bool) result" where
  "verify_password bcrypt phc_parse argon2 password phc =
     (if is_bcrypt phc
      then (case bcrypt password phc of None \<Rightarrow> Err (internal ''stored password hash is malformed'') | Some b \<Rightarrow> Ok b)
      else (case phc_parse phc of
              None \<Rightarrow> Err (internal ''stored password hash is malformed'')
            | Some h \<Rightarrow> Ok (argon2 password h)))"

definition needs_rehash :: "str \<Rightarrow> bool" where "needs_rehash phc = is_bcrypt phc"

definition hash_password :: "('s \<Rightarrow> str \<Rightarrow> (str, str) result) \<Rightarrow> 's \<Rightarrow> str \<Rightarrow> (error, str) result" where
  "hash_password argon2_hash salt password =
     (case argon2_hash salt password of Ok h \<Rightarrow> Ok h | Err e \<Rightarrow> Err (internal (''password hash failed: '' @ e)))"

section \<open>API keys\<close>

record minted_key =
  mk_plaintext :: str
  mk_prefix :: str
  mk_hash :: str

definition hash_key :: "crypto \<Rightarrow> str \<Rightarrow> str" where
  "hash_key cr plaintext = hex_encode (sha256 cr plaintext)"

text \<open>\<open>random\<close> are the 32 bytes drawn.\<close>

definition mint :: "crypto \<Rightarrow> bytes \<Rightarrow> str \<Rightarrow> minted_key" where
  "mint cr random prefix =
     (let plaintext = prefix @ ''_'' @ b64url cr random
      in \<lparr>mk_plaintext = plaintext, mk_prefix = prefix, mk_hash = hash_key cr plaintext\<rparr>)"

definition decode_hex_digest :: "str \<Rightarrow> bytes option" where
  "decode_hex_digest s = (if length s \<noteq> 64 then None else hex_pairs s)"

definition verify_key :: "crypto \<Rightarrow> str \<Rightarrow> str \<Rightarrow> bool" where
  "verify_key cr plaintext stored_hash =
     (case decode_hex_digest stored_hash of
        None \<Rightarrow> False
      | Some stored \<Rightarrow>
          hmac_sha256 cr (replicate 32 (char_of (0 :: nat))) stored =
            hmac_sha256 cr (replicate 32 (char_of (0 :: nat))) (sha256 cr plaintext))"

record api_key_record =
  ak_id :: int
  ak_prefix :: str
  ak_hash :: str
  ak_scopes :: "str list"

definition require_scope :: "str list \<Rightarrow> str \<Rightarrow> (error, unit) result" where
  "require_scope scopes needed =
     (if list_ex (\<lambda>s. s = ''*'' \<or> s = needed) scopes then Ok () else Err forbidden)"

text \<open>The in-memory store, and the store an application provides: a lookup that may fail.\<close>

type_synonym key_table = "str \<Rightarrow> api_key_record option"

definition keys_insert :: "api_key_record \<Rightarrow> key_table \<Rightarrow> key_table" where
  "keys_insert r m = m(ak_hash r \<mapsto> r)"

definition keys_lookup :: "key_table \<Rightarrow> str \<Rightarrow> (error, api_key_record option) result" where
  "keys_lookup m h = Ok (m h)"

definition strip_bearer_prefix :: "str \<Rightarrow> str option" where
  "strip_bearer_prefix au =
     (case split_once CHR '' '' au of
        None \<Rightarrow> None
      | Some (scheme, token) \<Rightarrow> if eq_ignore_ascii_case scheme ''bearer'' then Some token else None)"

definition extract_key :: "(str \<Rightarrow> str option) \<Rightarrow> str option" where
  "extract_key hdr =
     (case Option.bind (hdr ''authorization'') strip_bearer_prefix of
        Some (c # cs) \<Rightarrow> Some (c # cs)
      | _ \<Rightarrow> (case hdr ''x-api-key'' of Some (c # cs) \<Rightarrow> Some (c # cs) | _ \<Rightarrow> None))"

definition api_key_from_request ::
    "crypto \<Rightarrow> (error, str \<Rightarrow> (error, api_key_record option) result) result \<Rightarrow> (str \<Rightarrow> str option) \<Rightarrow>
       (error, api_key_record) result" where
  "api_key_from_request cr resolved hdr =
     bind_result resolved (\<lambda>lookup.
       case extract_key hdr of
         None \<Rightarrow> Err unauthorized
       | Some presented \<Rightarrow>
           bind_result (lookup (hash_key cr presented)) (\<lambda>found.
             case found of Some r \<Rightarrow> Ok r | None \<Rightarrow> Err unauthorized))"

section \<open>Hexadecimal\<close>

lemma to_digit16_from_digit: "n < 16 \<Longrightarrow> to_digit16 (from_digit n) = Some n"
  by (auto simp: from_digit_def to_digit16_def Let_def)

lemma byte_split: "char_of ((of_char c :: nat) div 16 * 16 + of_char c mod 16) = c"
  by simp

lemma hex_pairs_encode: "hex_pairs (hex_encode b) = Some b"
  using of_char_less_256
  by (induction b) (simp_all add: hex_encode_def to_digit16_from_digit less_mult_imp_div_less)

lemma hex_encode_length: "length (hex_encode b) = 2 * length b"
  by (induction b) (simp_all add: hex_encode_def)

lemma hex_roundtrip: "hex_decode (hex_encode b) = Some b"
  by (simp add: hex_decode_def hex_encode_length hex_pairs_encode)

text \<open>A digit read back is the lowercase digit.\<close>

lemma from_digit_inj: "n < 16 \<Longrightarrow> k < 16 \<Longrightarrow> from_digit n = from_digit k \<longleftrightarrow> n = k"
  using to_digit16_from_digit by (metis option.inject)

lemma to_digit16_Some: "to_digit16 c = Some n \<longleftrightarrow> n < 16 \<and> byte_lower c = from_digit n"
proof -
  let ?m = "of_char c :: nat"
  have lower: "(of_char (byte_lower c) :: nat) = (if 65 \<le> ?m \<and> ?m \<le> 90 then ?m + 32 else ?m)"
    by (simp add: byte_lower_def)
  have digit: "n < 16 \<Longrightarrow> (of_char (from_digit n) :: nat) = (if n < 10 then 48 + n else 87 + n)"
    by (simp add: from_digit_def)
  have "byte_lower c = from_digit n \<longleftrightarrow> (of_char (byte_lower c) :: nat) = of_char (from_digit n)" by simp
  then have "n < 16 \<Longrightarrow> byte_lower c = from_digit n \<longleftrightarrow>
      (if 65 \<le> ?m \<and> ?m \<le> 90 then ?m + 32 else ?m) = (if n < 10 then 48 + n else 87 + n)"
    using lower digit by simp
  then show ?thesis unfolding to_digit16_def Let_def by (auto split: if_splits)
qed

lemma hex_pairs_Some: "even (length s) \<Longrightarrow> hex_pairs s = Some b \<longleftrightarrow> to_ascii_lowercase s = hex_encode b"
proof (induction s arbitrary: b rule: hex_pairs.induct)
  case (1 x y s)
  show ?case
  proof
    assume "hex_pairs (x # y # s) = Some b"
    then obtain hi lo rest where d: "to_digit16 x = Some hi" "to_digit16 y = Some lo" "hex_pairs s = Some rest"
        "b = char_of (hi * 16 + lo) # rest"
      by (auto split: option.splits)
    then have "hi < 16" "lo < 16" by (auto simp: to_digit16_Some)
    then have "(of_char (char_of (hi * 16 + lo) :: char) :: nat) = hi * 16 + lo" by simp
    moreover have "to_ascii_lowercase s = hex_encode rest" using "1.IH" [OF d(1,2), of rest] "1.prems" d(3) by simp
    ultimately show "to_ascii_lowercase (x # y # s) = hex_encode b"
      using d by (simp add: to_ascii_lowercase_def hex_encode_def to_digit16_Some)
  next
    assume e: "to_ascii_lowercase (x # y # s) = hex_encode b"
    then obtain c rest where b: "b = c # rest" by (cases b) (auto simp: hex_encode_def to_ascii_lowercase_def)
    have d: "to_digit16 x = Some (of_char c div 16)" "to_digit16 y = Some (of_char c mod 16)"
      using e of_char_less_256 [of c] by (auto simp: b to_digit16_Some hex_encode_def to_ascii_lowercase_def less_mult_imp_div_less)
    have "to_ascii_lowercase s = hex_encode rest" using e by (simp add: b hex_encode_def to_ascii_lowercase_def)
    with "1.IH" [OF d] "1.prems" d b show "hex_pairs (x # y # s) = Some b" by simp
  qed
qed (auto simp: to_ascii_lowercase_def hex_encode_def)

lemma hex_decode_Some: "hex_decode s = Some b \<longleftrightarrow> to_ascii_lowercase s = hex_encode b"
proof (cases "even (length s)")
  case False
  have "to_ascii_lowercase s = hex_encode b \<Longrightarrow> length s = 2 * length b"
    using hex_encode_length [of b] by (metis length_map to_ascii_lowercase_def)
  with False show ?thesis by (auto simp: hex_decode_def odd_iff_mod_2_eq_one)
qed (simp add: hex_decode_def hex_pairs_Some even_iff_mod_2_eq_zero)

lemma hex_encode_inj: "hex_encode a = hex_encode b \<longleftrightarrow> a = b"
  using hex_roundtrip by (metis option.inject)

section \<open>Laws of the primitives\<close>

lemma crypto_lawsD:
  assumes "crypto_laws cr"
  shows "unb64url cr s = Some b \<longleftrightarrow> s = b64url cr b" "list_all b64url_char (b64url cr b)"
    "unb64std cr s = Some b \<longleftrightarrow> s = b64std cr b" "length (sha256 cr b) = 32"
    "unseal cr k n c = Some p \<longleftrightarrow> seal cr k n p = Some c"
  using assms unfolding crypto_laws_def by blast+

lemma b64url_char_visible: "b64url_char c \<Longrightarrow> byte_in 33 126 c \<and> c \<noteq> CHR ''.'' \<and> c \<noteq> CHR '';'' \<and> c \<noteq> CHR ''=''"
  by (auto simp: b64url_char_def byte_in_def)

lemma b64url_no_sep:
  assumes "crypto_laws cr" "c \<in> {CHR ''.'', CHR '';'', CHR ''=''}"
  shows "c \<notin> set (b64url cr b)"
  using crypto_lawsD(2) [OF assms(1), of b] assms(2) b64url_char_visible by (auto simp: list_all_iff)

lemma b64url_no_dot: "crypto_laws cr \<Longrightarrow> CHR ''.'' \<notin> set (b64url cr b)"
  by (rule b64url_no_sep) simp_all

section \<open>Tokens\<close>

lemma split_on_three:
  "split_on c s = [a, b, d] \<longleftrightarrow> s = a @ c # b @ c # d \<and> c \<notin> set a \<and> c \<notin> set b \<and> c \<notin> set d"
proof
  assume l: "split_on c s = [a, b, d]"
  have "join_with [c] (split_on c s) = s" for s
  proof (induction s)
    case (Cons x s)
    obtain q qs where "split_on c s = q # qs" by (cases "split_on c s") auto
    with Cons show ?case by (cases qs) auto
  qed simp
  from this [of s] l split_on_pieces [of _ c s] show "s = a @ c # b @ c # d \<and> c \<notin> set a \<and> c \<notin> set b \<and> c \<notin> set d"
    by auto
next
  assume "s = a @ c # b @ c # d \<and> c \<notin> set a \<and> c \<notin> set b \<and> c \<notin> set d"
  then show "split_on c s = [a, b, d]"
    by (metis append_Cons append_Nil split_on_append_sep split_on_no_sep)
qed

lemma jwt_decode_parts:
  "split_on CHR ''.'' token = [p0, p1, p2] \<Longrightarrow> jwt_decode cr parse de now token key =
     (case unb64url cr p2 of None \<Rightarrow> Err unauthorized
      | Some provided \<Rightarrow>
          if hmac_sha256 cr key (p0 @ ''.'' @ p1) \<noteq> provided then Err unauthorized
          else (case unb64url cr p1 of None \<Rightarrow> Err unauthorized
             | Some payload \<Rightarrow>
                 if (case exp_of (parse payload) of None \<Rightarrow> False | Some e \<Rightarrow> e \<le> now) then Err unauthorized
                 else (case de payload of None \<Rightarrow> Err unauthorized | Some v \<Rightarrow> Ok v)))"
  by (auto simp: jwt_decode_def unb64_def split: option.split)

lemma jwt_decode_other: "length (split_on CHR ''.'' token) \<noteq> 3 \<Longrightarrow> jwt_decode cr parse de now token key = Err unauthorized"
  by (auto simp: jwt_decode_def split: list.splits)

lemma jwt_decode_error: "jwt_decode cr parse de now token key = Err e \<Longrightarrow> e = unauthorized"
  by (auto simp: jwt_decode_def unb64_def split: list.splits option.splits if_splits)

lemma unb64url_b64url: "crypto_laws cr \<Longrightarrow> unb64url cr (b64url cr b) = Some b"
  by (simp add: crypto_lawsD(1))

lemma jwt_decode_signed:
  assumes "crypto_laws cr" "CHR ''.'' \<notin> set h"
  shows "jwt_decode cr parse de now
      (h @ ''.'' @ b64url cr payload @ ''.'' @ b64url cr (hmac_sha256 cr key (h @ ''.'' @ b64url cr payload))) key =
    (if (case exp_of (parse payload) of None \<Rightarrow> False | Some e \<Rightarrow> e \<le> now) then Err unauthorized
     else (case de payload of None \<Rightarrow> Err unauthorized | Some v \<Rightarrow> Ok v))"
proof -
  have "split_on CHR ''.'' (h @ ''.'' @ b64url cr payload @ ''.'' @ b64url cr (hmac_sha256 cr key (h @ ''.'' @ b64url cr payload))) =
      [h, b64url cr payload, b64url cr (hmac_sha256 cr key (h @ ''.'' @ b64url cr payload))]"
    unfolding split_on_three using assms(2) b64url_no_sep [OF assms(1)] by auto
  then show ?thesis by (simp add: jwt_decode_parts unb64url_b64url [OF assms(1)])
qed

lemma jwt_encode_signed:
  assumes "ser claims = Ok payload" "jwt_encode cr ser claims key = Ok token"
  shows "token = b64url cr JWT_HEADER @ ''.'' @ b64url cr payload @ ''.'' @
    b64url cr (hmac_sha256 cr key (b64url cr JWT_HEADER @ ''.'' @ b64url cr payload))"
  using assms by (auto simp: jwt_encode_def Let_def jwt_sign_def)

text \<open>
  The expiry as the documents have it, without the code's reading of it: an object either has no \<open>exp\<close>,
  or one that is a number of seconds and lies ahead. A token has a regular expiry when the \<open>exp\<close> of its payload, if any,
  is a whole number of 64 bits without a sign.
\<close>

definition unexpired :: "nat \<Rightarrow> json option \<Rightarrow> bool" where
  "unexpired now parsed =
     (case parsed of
        Some (JObject kvs) \<Rightarrow> (case map_of kvs ''exp'' of None \<Rightarrow> True | Some (JNumber n) \<Rightarrow> int now < n | _ \<Rightarrow> False)
      | _ \<Rightarrow> True)"

definition expiry_regular :: "json option \<Rightarrow> bool" where
  "expiry_regular parsed =
     (case parsed of
        Some (JObject kvs) \<Rightarrow> (case map_of kvs ''exp'' of None \<Rightarrow> True | Some (JNumber n) \<Rightarrow> 0 \<le> n \<and> n < 2 ^ 64 | _ \<Rightarrow> False)
      | _ \<Rightarrow> True)"

lemma unexpired_iff: "expiry_regular parsed \<Longrightarrow> unexpired now parsed \<longleftrightarrow> (\<forall>e. exp_of parsed = Some e \<longrightarrow> now < e)"
  by (auto simp: expiry_regular_def unexpired_def exp_of_def split: option.splits json.splits if_splits)

lemma jwt_accepts:
  assumes "crypto_laws cr"
  shows "jwt_decode cr parse de now token key = Ok v \<longleftrightarrow>
      (\<exists>h payload. CHR ''.'' \<notin> set h \<and>
         token = h @ ''.'' @ b64url cr payload @ ''.'' @ b64url cr (hmac_sha256 cr key (h @ ''.'' @ b64url cr payload)) \<and>
         (\<forall>e. exp_of (parse payload) = Some e \<longrightarrow> now < e) \<and> de payload = Some v)" (is "?l \<longleftrightarrow> ?r")
proof
    assume ?l
    then have "length (split_on CHR ''.'' token) = 3" by (metis jwt_decode_other sum.distinct(1))
    then obtain p0 p1 p2 where parts: "split_on CHR ''.'' token = [p0, p1, p2]"
      by (auto simp: numeral_3_eq_3 length_Suc_conv)
    from \<open>?l\<close> obtain payload where "unb64url cr p2 = Some (hmac_sha256 cr key (p0 @ ''.'' @ p1))" "unb64url cr p1 = Some payload"
      "\<forall>e. exp_of (parse payload) = Some e \<longrightarrow> now < e" "de payload = Some v"
      unfolding jwt_decode_parts [OF parts] by (auto split: option.splits if_splits)
    with parts [unfolded split_on_three] show ?r by (auto simp: crypto_lawsD(1) [OF assms])
  next
    assume ?r
    then obtain h payload where r: "CHR ''.'' \<notin> set h"
      "token = h @ ''.'' @ b64url cr payload @ ''.'' @ b64url cr (hmac_sha256 cr key (h @ ''.'' @ b64url cr payload))"
      "\<forall>e. exp_of (parse payload) = Some e \<longrightarrow> now < e" "de payload = Some v" by blast
    from jwt_decode_signed [OF assms r(1), of parse de now payload key] r(3,4) show ?l
      unfolding r(2) by (auto split: option.split simp: not_le)
qed

text \<open>C22: what the verifier of bearer tokens accepts, exactly, among the tokens with a regular expiry. Such a token
  is accepted, with a value, iff it is \<open>h.p.s\<close> where \<open>p\<close> is the encoding of a payload that reads as that
  value, \<open>s\<close> is the encoded HMAC of \<open>h.p\<close> under the key (whatever algorithm the header names), and the
  payload has no expiry or one that lies ahead. Everything else is the one error 401. An expiry that is
  not regular (negative, fractional, no number) is outside of this property: the documentation says that
  it is enforced when present, the code takes it for none (\<open>jwt_negative_exp_never_expires\<close>).\<close>

theorem jwt_accepts_exactly:
  assumes "crypto_laws cr"
    and "\<And>h payload s. token = h @ ''.'' @ b64url cr payload @ ''.'' @ s \<Longrightarrow> expiry_regular (parse payload)"
  shows "(\<forall>v. jwt_decode cr parse de now token key = Ok v \<longleftrightarrow>
      (\<exists>h payload. CHR ''.'' \<notin> set h \<and>
         token = h @ ''.'' @ b64url cr payload @ ''.'' @ b64url cr (hmac_sha256 cr key (h @ ''.'' @ b64url cr payload)) \<and>
         unexpired now (parse payload) \<and> de payload = Some v)) \<and>
    (\<forall>e. jwt_decode cr parse de now token key = Err e \<longrightarrow> e = unauthorized)"
proof (intro conjI allI impI)
  have current: "unexpired now (parse payload) \<longleftrightarrow> (\<forall>e. exp_of (parse payload) = Some e \<longrightarrow> now < e)"
    if "token = h @ ''.'' @ b64url cr payload @ ''.'' @ s" for h payload s
    by (rule unexpired_iff) (rule assms(2) [OF that])
  show "jwt_decode cr parse de now token key = Ok v \<longleftrightarrow>
      (\<exists>h payload. CHR ''.'' \<notin> set h \<and>
         token = h @ ''.'' @ b64url cr payload @ ''.'' @ b64url cr (hmac_sha256 cr key (h @ ''.'' @ b64url cr payload)) \<and>
         unexpired now (parse payload) \<and> de payload = Some v)" for v
    unfolding jwt_accepts [OF assms(1)] by (intro ex_cong1 conj_cong refl) (rule current [symmetric])
qed (rule jwt_decode_error)

text \<open>An instance of the primitives: hexadecimal for base64, reversal and padding for the digests, and
  a cipher that prefixes the key and the nonce.\<close>

definition pad32 :: "bytes \<Rightarrow> bytes" where
  "pad32 b = take 32 (rev b @ replicate 32 (char_of (0 :: nat)))"

lemma pad32_length: "length (pad32 b) = 32"
  by (simp add: pad32_def min_def)

definition demo_crypto :: crypto where
  "demo_crypto = \<lparr>sha256 = pad32, hmac_sha256 = (\<lambda>k m. pad32 (k @ m)), hmac_sha1 = (\<lambda>k m. pad32 (m @ k)),
     b64url = hex_encode, unb64url = (\<lambda>s. case hex_decode s of None \<Rightarrow> None | Some b \<Rightarrow> if hex_encode b = s then Some b else None),
     b64std = hex_encode, unb64std = (\<lambda>s. case hex_decode s of None \<Rightarrow> None | Some b \<Rightarrow> if hex_encode b = s then Some b else None),
     seal = (\<lambda>k n p. Some (k @ n @ p)),
     unseal = (\<lambda>k n c. if take (length k + length n) c = k @ n then Some (drop (length k + length n) c) else None)\<rparr>"

lemma demo_laws: "crypto_laws demo_crypto"
proof -
  have "b64url_char (from_digit n)" if "n < 16" for n
    using that by (auto simp: b64url_char_def from_digit_def byte_in_def)
  then have "list_all b64url_char (hex_encode b)" for b
    using of_char_less_256 by (auto simp: hex_encode_def list_all_iff less_mult_imp_div_less)
  moreover have "(case hex_decode s of None \<Rightarrow> None | Some b \<Rightarrow> if hex_encode b = s then Some b else None) = Some b \<longleftrightarrow> s = hex_encode b" for s b
    using hex_roundtrip [of b] by (auto split: option.splits)
  moreover have "(if take (length k + length n) c = k @ n then Some (drop (length k + length n) c) else None) = Some p \<longleftrightarrow> k @ n @ p = c"
    for k n p c :: bytes
    by (auto simp flip: append_assoc) (metis append_take_drop_id)
  ultimately show ?thesis by (simp add: crypto_laws_def demo_crypto_def pad32_length)
qed

text \<open>The payload of the witness: subject and expiry, as a JSON value and as bytes.\<close>

definition demo_claims_value :: json where
  "demo_claims_value = JObject [(''exp'', JNumber 9), (''sub'', JString ''u1'')]"

definition demo_token :: str where
  "demo_token = ''h.'' @ hex_encode ''p'' @ ''.'' @ hex_encode (pad32 (''k'' @ ''h.'' @ hex_encode ''p''))"

theorem jwt_accepts_exactly_witness:
  "jwt_decode demo_crypto (\<lambda>_. Some demo_claims_value) Some 5 demo_token ''k'' = Ok ''p'' \<and>
   (\<exists>e. jwt_decode demo_crypto (\<lambda>_. Some demo_claims_value) Some 9 demo_token ''k'' = Err e)"
proof -
  have regular: "expiry_regular (Some demo_claims_value)" by (simp add: expiry_regular_def demo_claims_value_def)
  note exact = jwt_accepts_exactly [of demo_crypto demo_token "\<lambda>_. Some demo_claims_value" Some _ "''k''", OF demo_laws regular]
  have "jwt_decode demo_crypto (\<lambda>_. Some demo_claims_value) Some 5 demo_token ''k'' = Ok ''p''"
    unfolding exact [THEN conjunct1, rule_format]
    by (rule exI [of _ "''h''"]) (simp add: demo_crypto_def demo_token_def demo_claims_value_def unexpired_def)
  moreover have "jwt_decode demo_crypto (\<lambda>_. Some demo_claims_value) Some 9 demo_token ''k'' \<noteq> Ok v" for v
    unfolding exact [THEN conjunct1, rule_format] by (simp add: demo_claims_value_def unexpired_def)
  ultimately show ?thesis by (metis sum.exhaust)
qed

text \<open>Issuing and verifying agree. A token issued for claims whose encoding reads back verifies
  under the same key as those claims until its expiry, and from its expiry on is 401.\<close>

lemma jwt_roundtrip:
  assumes "crypto_laws cr" "ser claims = Ok payload" "de payload = Some claims" "jwt_encode cr ser claims key = Ok token"
  shows "jwt_decode cr parse de now token key =
    (case exp_of (parse payload) of Some e \<Rightarrow> if now < e then Ok claims else Err unauthorized | None \<Rightarrow> Ok claims)"
  unfolding jwt_encode_signed [OF assms(2,4)]
  unfolding jwt_decode_signed [OF assms(1) b64url_no_dot [OF assms(1)]]
  by (simp add: assms(3) not_le split: option.split)

text \<open>An expiry that is not an integer of 64 bits, such as a negative one, is no expiry to the verifier.\<close>

lemma jwt_negative_exp_never_expires:
  assumes "crypto_laws cr" "ser claims = Ok payload" "de payload = Some claims" "jwt_encode cr ser claims key = Ok token"
    and "parse payload = Some (JObject kvs)" "map_of kvs ''exp'' = Some (JNumber n)" "n < 0"
  shows "jwt_decode cr parse de now token key = Ok claims"
  unfolding jwt_encode_signed [OF assms(2,4)]
  unfolding jwt_decode_signed [OF assms(1) b64url_no_dot [OF assms(1)]]
  using assms(5-7) by (simp add: assms(3) exp_of_def)

section \<open>Sessions\<close>

lemma first_open_Some:
  "first_open cr ks n c = Some p \<longleftrightarrow>
     (\<exists>pre k post. ks = pre @ k # post \<and> (\<forall>k' \<in> set pre. unseal cr k' n c = None) \<and> unseal cr k n c = Some p)"
proof (induction ks)
  case (Cons k0 ks)
  show ?case
  proof (cases "unseal cr k0 n c")
    case None
    show ?thesis (is "_ \<longleftrightarrow> ?r")
    proof
      assume "first_open cr (k0 # ks) n c = Some p"
      with None Cons obtain pre k post where "ks = pre @ k # post" "\<forall>k' \<in> set pre. unseal cr k' n c = None" "unseal cr k n c = Some p"
        by auto
      then show ?r using None by (intro exI [of _ "k0 # pre"] exI [of _ k] exI [of _ post]) simp
    next
      assume ?r
      then obtain pre k post where r: "k0 # ks = pre @ k # post" "\<forall>k' \<in> set pre. unseal cr k' n c = None" "unseal cr k n c = Some p"
        by blast
      with None obtain pre' where "pre = k0 # pre'" by (cases pre) auto
      with r None Cons show "first_open cr (k0 # ks) n c = Some p" by auto
    qed
  next
    case (Some q)
    then have "k0 # ks = pre @ k # post \<Longrightarrow> (\<forall>k' \<in> set pre. unseal cr k' n c = None) \<Longrightarrow> pre = [] \<and> k = k0" for pre k post
      by (cases pre) auto
    with Some show ?thesis by fastforce
  qed
qed simp

lemma session_decode_error: "session_decode cr de st token = Err e \<Longrightarrow> e = unauthorized"
  by (auto simp: session_decode_def split: option.splits if_splits)

lemma session_decode_Ok:
  assumes "crypto_laws cr"
  shows "session_decode cr de st token = Ok v \<longleftrightarrow>
    (\<exists>nonce c p. length nonce = 12 \<and> token = b64url cr (nonce @ c) \<and>
       first_open cr (ss_primary st # ss_fallbacks st) nonce c = Some p \<and> de p = Some v)"
proof
  assume "session_decode cr de st token = Ok v"
  then obtain combined p where "unb64url cr token = Some combined" "12 \<le> length combined"
      "first_open cr (ss_primary st # ss_fallbacks st) (take 12 combined) (drop 12 combined) = Some p" "de p = Some v"
    by (auto simp: session_decode_def not_less split: option.splits if_splits simp del: first_open.simps)
  then show "\<exists>nonce c p. length nonce = 12 \<and> token = b64url cr (nonce @ c) \<and>
       first_open cr (ss_primary st # ss_fallbacks st) nonce c = Some p \<and> de p = Some v"
    using crypto_lawsD(1) [OF assms, of token combined]
    by (intro exI [of _ "take 12 combined"] exI [of _ "drop 12 combined"] exI [of _ p]) (simp del: first_open.simps)
next
  assume "\<exists>nonce c p. length nonce = 12 \<and> token = b64url cr (nonce @ c) \<and>
       first_open cr (ss_primary st # ss_fallbacks st) nonce c = Some p \<and> de p = Some v"
  then obtain nonce c p where "length nonce = 12" "token = b64url cr (nonce @ c)"
      "first_open cr (ss_primary st # ss_fallbacks st) nonce c = Some p" "de p = Some v" by blast
  then show "session_decode cr de st token = Ok v"
    by (simp add: session_decode_def unb64url_b64url [OF assms] del: first_open.simps)
qed

text \<open>C23: which session tokens a store accepts, exactly. A token reads as a value iff it is the encoding of a
  12-byte nonce followed by the sealing, under one of the store's keys, of a plaintext that reads as that
  value, where no key before it in the order primary, then retired, opens it. Nothing forged or sealed
  under a dropped key is accepted, and every rejection is the same 401.\<close>

theorem session_accepts_exactly:
  assumes "crypto_laws cr"
  shows "(\<forall>v. session_decode cr de st token = Ok v \<longleftrightarrow>
      (\<exists>nonce c pre k post p. length nonce = 12 \<and> token = b64url cr (nonce @ c) \<and>
         ss_primary st # ss_fallbacks st = pre @ k # post \<and> (\<forall>k' \<in> set pre. \<forall>q. seal cr k' nonce q \<noteq> Some c) \<and>
         seal cr k nonce p = Some c \<and> de p = Some v)) \<and>
    (\<forall>e. session_decode cr de st token = Err e \<longrightarrow> e = unauthorized)"
proof -
  have none: "unseal cr k n c = None \<longleftrightarrow> (\<forall>q. seal cr k n q \<noteq> Some c)" for k n c
    using crypto_lawsD(5) [OF assms, of k n c] by (metis not_Some_eq)
  show ?thesis
    unfolding session_decode_Ok [OF assms] first_open_Some none crypto_lawsD(5) [OF assms]
    using session_decode_error by blast
qed

theorem session_accepts_exactly_witness:
  "session_decode demo_crypto Some (with_keys ''new'' [''old'']) (hex_encode (replicate 12 CHR ''n'' @ ''old'' @ replicate 12 CHR ''n'' @ ''v'')) = Ok ''v''"
proof (rule session_accepts_exactly [OF demo_laws, THEN conjunct1, rule_format, THEN iffD2])
  let ?n = "replicate 12 CHR ''n''"
  show "\<exists>nonce c pre k post p. length nonce = 12 \<and> hex_encode (?n @ ''old'' @ ?n @ ''v'') = b64url demo_crypto (nonce @ c) \<and>
      ss_primary (with_keys ''new'' [''old'']) # ss_fallbacks (with_keys ''new'' [''old'']) = pre @ k # post \<and>
      (\<forall>k' \<in> set pre. \<forall>q. seal demo_crypto k' nonce q \<noteq> Some c) \<and>
      seal demo_crypto k nonce p = Some c \<and> Some p = Some ''v''"
    by (rule exI [of _ ?n], rule exI [of _ "''old'' @ ?n @ ''v''"], rule exI [of _ "[''new'']"], rule exI [of _ "''old''"],
        rule exI [of _ "[]"], rule exI [of _ "''v''"]) (simp add: with_keys_def demo_crypto_def)
qed

section \<open>Cookies\<close>

lemma trim_front_space: "trim_front white_space_encodings (CHR '' '' # s) = trim_front white_space_encodings s"
  by (simp add: trim_front.simps [of white_space_encodings "CHR '' '' # s"] strip_one_space)

lemma trim_space: "trim (CHR '' '' # s) = trim s"
  by (simp add: trim_def trim_front_space)

lemma cookie_visible: "crypto_laws cr \<Longrightarrow> token = b64url cr b \<Longrightarrow> trim (COOKIE_NAME @ ''='' @ token) = COOKIE_NAME @ ''='' @ token"
proof (rule trim_visible)
  assume cr: "crypto_laws cr" "token = b64url cr b"
  show "byte_in 33 126 (last (COOKIE_NAME @ ''='' @ token))"
  proof (cases "token = []")
    case False
    then have "last token \<in> set token" by simp
    then show ?thesis using crypto_lawsD(2) [OF cr(1), of b] cr(2) b64url_char_visible False by (auto simp: list_all_iff)
  qed (simp add: COOKIE_NAME_def byte_in_def)
qed (simp_all add: COOKIE_NAME_def byte_in_def)

text \<open>A cookie of another name, as a browser sends it in the header.\<close>

definition other_cookie :: "str \<Rightarrow> bool" where
  "other_cookie s \<longleftrightarrow> CHR '';'' \<notin> set s \<and> (case split_once CHR ''='' (trim s) of None \<Rightarrow> True | Some (k, _) \<Rightarrow> k \<noteq> COOKIE_NAME)"

lemma split_once_name: "c \<notin> set a \<Longrightarrow> split_once c (a @ c # b) = Some (a, b)"
  by (induction a) auto

lemma read_cookie_find:
  assumes "crypto_laws cr" "token = b64url cr b" "list_all other_cookie before"
  shows "read_cookie (join_with ''; '' (before @ (COOKIE_NAME @ ''='' @ token) # after)) = Some token"
proof -
  let ?pair = "COOKIE_NAME @ ''='' @ token"
  let ?find = "\<lambda>ps. List.find (\<lambda>(k, _). k = COOKIE_NAME) (List.map_filter (\<lambda>kv. split_once CHR ''='' (trim kv)) ps)"
  have tok: "CHR '';'' \<notin> set token" using b64url_no_sep [OF assms(1)] assms(2) by auto
  have own: "split_once CHR ''='' (trim ?pair) = Some (COOKIE_NAME, token)"
    unfolding cookie_visible [OF assms(1,2)] using split_once_name [of "CHR ''=''" COOKIE_NAME token] by (simp add: COOKIE_NAME_def)
  have pair: "CHR '';'' \<notin> set ?pair" using tok by (simp add: COOKIE_NAME_def)
  have "?find (split_on CHR '';'' (sp @ join_with ''; '' (bs @ ?pair # after))) = Some (COOKIE_NAME, token)"
    if "list_all other_cookie bs" "sp = [] \<or> sp = '' ''" for bs sp
    using that
  proof (induction bs arbitrary: sp)
    case Nil
    have t: "trim (sp @ ?pair) = trim ?pair" using Nil.prems(2) trim_space by auto
    show ?case
    proof (cases after)
      case Nil': Nil
      have "CHR '';'' \<notin> set (sp @ ?pair)" using pair Nil.prems(2) by auto
      with t own show ?thesis by (simp add: Nil' split_on_no_sep map_filter_simps)
    next
      case (Cons a as)
      have "CHR '';'' \<notin> set (sp @ ?pair)" using pair Nil.prems(2) by auto
      then have "split_on CHR '';'' (sp @ ?pair @ CHR '';'' # '' '' @ join_with ''; '' (a # as)) =
          (sp @ ?pair) # split_on CHR '';'' ('' '' @ join_with ''; '' (a # as))"
        using split_on_append_sep [of "CHR '';''" "sp @ ?pair"] by (simp add: split_on_no_sep)
      with t own show ?thesis by (simp add: Cons map_filter_simps)
    qed
  next
    case (Cons o' bs)
    have o': "CHR '';'' \<notin> set (sp @ o')" "trim (sp @ o') = trim o'"
      using Cons.prems trim_space by (auto simp: other_cookie_def)
    have "join_with ''; '' ((o' # bs) @ ?pair # after) = o' @ ''; '' @ join_with ''; '' (bs @ ?pair # after)"
      by (cases bs) simp_all
    then have "split_on CHR '';'' (sp @ join_with ''; '' ((o' # bs) @ ?pair # after)) =
        (sp @ o') # split_on CHR '';'' ('' '' @ join_with ''; '' (bs @ ?pair # after))"
      using split_on_append_sep [of "CHR '';''" "sp @ o'" "'' '' @ join_with ''; '' (bs @ ?pair # after)"] o'(1)
      by (simp add: split_on_no_sep)
    moreover have "case split_once CHR ''='' (trim (sp @ o')) of None \<Rightarrow> True | Some (k, _) \<Rightarrow> k \<noteq> COOKIE_NAME"
      using Cons.prems(1) by (simp add: other_cookie_def o'(2))
    ultimately show ?case using Cons.IH [of "'' ''"] Cons.prems(1)
      by (auto simp: map_filter_simps split: option.splits)
  qed
  from this [OF assms(3), of "[]"] show ?thesis by (simp add: read_cookie_def)
qed

text \<open>C24: a session survives the round trip through a browser and a rotation of the secret. A cookie set
  under a secret is sent back among any cookies of other names; an application whose primary secret has
  been replaced, and which lists the old one among its retired secrets, reads the same value from it,
  provided that no key it tries before the old one happens to open the ciphertext.\<close>

theorem session_rotation_roundtrip:
  assumes "crypto_laws cr" "length nonce = 12" "ser v = Ok plain" "de plain = Some v"
    and "set_cookie cr ser (au_sessions (with_secrets cr old older)) nonce v = Ok header"
    and "seal cr (derive_key cr old ''session'') nonce plain = Some c"
    and "\<forall>s \<in> set (new # pre). unseal cr (derive_key cr s ''session'') nonce c = None"
    and "list_all other_cookie before"
    and "hdr ''cookie'' = Some (join_with ''; '' (before @ takeWhile (\<lambda>x. x \<noteq> CHR '';'') header # after))"
  shows "session_from_request cr de (Ok (with_secrets cr new (pre @ old # post))) hdr = Ok v"
proof -
  let ?token = "b64url cr (nonce @ c)"
  have header: "header = COOKIE_NAME @ ''='' @ ?token @ ''; HttpOnly; Secure; SameSite=Lax; Path=/''"
    using assms(3,5,6) by (auto simp: set_cookie_def session_encode_def with_secrets_def with_keys_def)
  have "\<forall>x \<in> set (COOKIE_NAME @ ''='' @ ?token). x \<noteq> CHR '';''"
    using b64url_no_sep [OF assms(1), of "CHR '';''" "nonce @ c"] by (auto simp: COOKIE_NAME_def)
  then have "takeWhile (\<lambda>x. x \<noteq> CHR '';'') ((COOKIE_NAME @ ''='' @ ?token) @ ''; HttpOnly; Secure; SameSite=Lax; Path=/'') = COOKIE_NAME @ ''='' @ ?token"
    by (subst takeWhile_append2) auto
  then have sent: "takeWhile (\<lambda>x. x \<noteq> CHR '';'') header = COOKIE_NAME @ ''='' @ ?token" by (simp add: header)
  have cookie: "read_cookie (join_with ''; '' (before @ (COOKIE_NAME @ ''='' @ ?token) # after)) = Some ?token"
    by (rule read_cookie_find [OF assms(1) refl assms(8)])
  let ?key = "\<lambda>s. derive_key cr s ''session''"
  have "?key new # map ?key (pre @ old # post) = (map ?key (new # pre)) @ ?key old # map ?key post" by simp
  moreover have "\<forall>k' \<in> set (map ?key (new # pre)). unseal cr k' nonce c = None" using assms(7) by auto
  moreover have "unseal cr (?key old) nonce c = Some plain" using assms(6) crypto_lawsD(5) [OF assms(1)] by simp
  ultimately have "first_open cr (?key new # map ?key (pre @ old # post)) nonce c = Some plain"
    unfolding first_open_Some by blast
  then have "session_decode cr de (au_sessions (with_secrets cr new (pre @ old # post))) ?token = Ok v"
    unfolding session_decode_Ok [OF assms(1)] using assms(2,4)
    by (intro exI [of _ nonce] exI [of _ c] exI [of _ plain]) (simp add: with_secrets_def with_keys_def del: first_open.simps)
  with cookie show ?thesis by (simp add: session_from_request_def assms(9) sent)
qed

theorem session_rotation_roundtrip_witness:
  "\<exists>header. set_cookie demo_crypto Ok (au_sessions (with_secret demo_crypto ''old'')) (replicate 12 CHR ''n'') ''v'' = Ok header \<and>
     session_from_request demo_crypto Some (Ok (with_secrets demo_crypto ''new'' [''old'']))
       (\<lambda>_. Some (join_with ''; '' [''theme=dark'', takeWhile (\<lambda>x. x \<noteq> CHR '';'') header])) = Ok ''v''"
proof -
  let ?n = "replicate 12 CHR ''n''" and ?k = "derive_key demo_crypto ''old'' ''session''"
  have len: "length (derive_key demo_crypto s l) = 32" for s l by (simp add: derive_key_def demo_crypto_def pad32_length)
  obtain header where h: "set_cookie demo_crypto Ok (au_sessions (with_secrets demo_crypto ''old'' [])) ?n ''v'' = Ok header"
    by (simp add: set_cookie_def session_encode_def demo_crypto_def)
  have sealed: "seal demo_crypto ?k ?n ''v'' = Some (?k @ ?n @ ''v'')" by (simp add: demo_crypto_def)
  have "derive_key demo_crypto ''new'' ''session'' \<noteq> ?k" by (simp add: derive_key_def demo_crypto_def pad32_def)
  then have closed: "unseal demo_crypto (derive_key demo_crypto ''new'' ''session'') ?n (?k @ ?n @ ''v'') = None"
    using len [of "''new''" "''session''"] len [of "''old''" "''session''"]
    by (auto simp: demo_crypto_def simp flip: append_assoc dest!: arg_cong [where f = "take 32"])
  have other: "list_all other_cookie [''theme=dark'']"
    using trim_visible [of "''theme=dark''"] by (simp add: other_cookie_def byte_in_def COOKIE_NAME_def)
  from session_rotation_roundtrip [OF demo_laws _ refl _ h sealed _ other, of Some "''new''" "[]" _ "[]" "[]"] closed h show ?thesis
    by (auto simp: with_secret_def)
qed

section \<open>Secrets\<close>

text \<open>C25: outside development the environment fails closed. When \<open>JERRYCAN_ENV\<close>, trimmed and in lower case,
  is not empty and not one of the four development markers, an auth extension is built only from a given
  secret of at least 32 bytes, with that secret as primary and with the non-empty entries of the retired
  list, all of at least 32 bytes; the built-in development secret is never used.\<close>

theorem from_env_fails_closed:
  assumes "env = Some e" "to_ascii_lowercase (trim e) \<notin> {'''', ''dev'', ''development'', ''test'', ''local''}"
    and "from_env cr env secret retired = Ok au"
  shows "\<exists>s rs. secret = Some s \<and> 32 \<le> length s \<and> (\<forall>r \<in> set rs. 32 \<le> length r) \<and>
    rs = filter (\<lambda>r. r \<noteq> []) (map trim (split_on CHR '','' (case retired of None \<Rightarrow> '''' | Some r \<Rightarrow> r))) \<and>
    au = with_secrets cr s rs"
proof -
  let ?rs = "filter (\<lambda>r. r \<noteq> []) (map trim (split_on CHR '','' (case retired of None \<Rightarrow> '''' | Some r \<Rightarrow> r)))"
  have prod: "\<not> dev_context_allowed e" using assms(2) by (simp add: dev_context_allowed_def)
  then have "from_env_parts cr True secret (case retired of None \<Rightarrow> '''' | Some r \<Rightarrow> r) = Ok au"
    using assms(1,3) by (simp add: from_env_def)
  then have none: "List.find (\<lambda>s. length s < MIN_SECRET_LEN) ?rs = None"
    and s: "\<exists>s. secret = Some s \<and> MIN_SECRET_LEN \<le> length s \<and> au = with_secrets cr s ?rs"
    by (auto simp: from_env_parts_def Let_def split: option.splits if_splits)
  from none have "\<forall>r \<in> set ?rs. 32 \<le> length r" unfolding find_None_iff by (auto simp: MIN_SECRET_LEN_def not_less)
  with s show ?thesis by (auto simp: MIN_SECRET_LEN_def)
qed

theorem from_env_fails_closed_witness:
  "from_env demo_crypto (Some ''prod'') (Some ''short'') None \<noteq> Ok (with_secrets demo_crypto DEV_SECRET [])"
proof
  assume ok: "from_env demo_crypto (Some ''prod'') (Some ''short'') None = Ok (with_secrets demo_crypto DEV_SECRET [])"
  have "trim ''prod'' = ''prod''" by (rule trim_visible) (simp_all add: byte_in_def)
  then have "to_ascii_lowercase (trim ''prod'') \<notin> {'''', ''dev'', ''development'', ''test'', ''local''}"
    by (simp add: to_ascii_lowercase_def byte_lower_def)
  from from_env_fails_closed [OF refl this ok] show False by simp
qed

text \<open>The labels keep the derived keys apart: no two of them end alike, so neither do the hashed inputs.\<close>

lemma derived_inputs_apart:
  assumes "l \<in> {''session'', ''oauth-token'', ''jwt''}" "l' \<in> {''session'', ''oauth-token'', ''jwt''}" "s @ l = s' @ l'"
  shows "s = s' \<and> l = l'"
proof -
  have "last (s @ l) = last (s' @ l')" "last (butlast (s @ l)) = last (butlast (s' @ l'))" using assms(3) by simp_all
  with assms show ?thesis by (auto simp: butlast_append)
qed

text \<open>One secret seeds three independent keys. When the digest does not collide on the inputs that are
  hashed, no session key of an auth extension is one of its token keys, and its token-signing key is
  neither, whatever the primary and retired secrets are.\<close>

lemma derived_keys_separated:
  assumes "inj_on (sha256 cr) {s @ l |s l. s \<in> set (prim # retired) \<and> l \<in> {''session'', ''oauth-token'', ''jwt''}}"
    and "au = with_secrets cr prim retired"
  shows "set (ss_primary (au_sessions au) # ss_fallbacks (au_sessions au)) \<inter>
      set (ss_primary (au_tokens au) # ss_fallbacks (au_tokens au)) = {} \<and>
    au_jwt_key au \<notin> set (ss_primary (au_sessions au) # ss_fallbacks (au_sessions au)) \<union>
      set (ss_primary (au_tokens au) # ss_fallbacks (au_tokens au))"
proof -
  have sep: "derive_key cr s l \<noteq> derive_key cr s' l'"
    if "s \<in> set (prim # retired)" "s' \<in> set (prim # retired)" "l \<noteq> l'"
      "l \<in> {''session'', ''oauth-token'', ''jwt''}" "l' \<in> {''session'', ''oauth-token'', ''jwt''}" for s s' l l'
  proof
    assume "derive_key cr s l = derive_key cr s' l'"
    then have "s @ l = s' @ l'"
      unfolding derive_key_def by (rule inj_onD [OF assms(1)]) (use that in blast)+
    with derived_inputs_apart [OF that(4,5)] that(3) show False by blast
  qed
  have keys: "set (ss_primary (au_sessions au) # ss_fallbacks (au_sessions au)) = (\<lambda>s. derive_key cr s ''session'') ` set (prim # retired)"
    "set (ss_primary (au_tokens au) # ss_fallbacks (au_tokens au)) = (\<lambda>s. derive_key cr s ''oauth-token'') ` set (prim # retired)"
    "au_jwt_key au = derive_key cr prim ''jwt''"
    by (auto simp: assms(2) with_secrets_def with_keys_def)
  have "derive_key cr s ''session'' \<noteq> derive_key cr s' ''oauth-token''" "derive_key cr prim ''jwt'' \<noteq> derive_key cr s ''session''"
      "derive_key cr prim ''jwt'' \<noteq> derive_key cr s ''oauth-token''"
    if "s \<in> set (prim # retired)" "s' \<in> set (prim # retired)" for s s'
    using that by (intro sep; simp)+
  then show ?thesis unfolding keys by blast
qed

section \<open>Webhooks and API keys\<close>

text \<open>A webhook signature is accepted exactly when, in lower case, it is the one the provider would
  write: the hexadecimal HMAC of the exact bytes under the secret. Malformed, short and long texts are
  refused.\<close>

lemma webhook_verify_exact:
  "verify_sha256_hex cr secret msg sig \<longleftrightarrow> to_ascii_lowercase sig = sign_sha256_hex cr secret msg"
proof (cases "hex_decode sig")
  case None
  then show ?thesis using hex_decode_Some [of sig] by (auto simp: verify_sha256_hex_def sign_sha256_hex_def)
next
  case (Some b)
  then have "to_ascii_lowercase sig = hex_encode b" by (simp add: hex_decode_Some)
  with Some show ?thesis by (auto simp: verify_sha256_hex_def sign_sha256_hex_def hex_encode_inj)
qed

lemma webhook_sha1_exact:
  "crypto_laws cr \<Longrightarrow> verify_sha1_base64 cr secret msg sig \<longleftrightarrow> sig = sign_sha1_base64 cr secret msg"
  using crypto_lawsD(3) [of cr sig "hmac_sha1 cr secret msg"]
  unfolding verify_sha1_base64_def sign_sha1_base64_def by (cases "unb64std cr sig") (simp_all, blast)

lemma minted_key_verifies: "crypto_laws cr \<Longrightarrow> verify_key cr (mk_plaintext (mint cr random prefix)) (mk_hash (mint cr random prefix))"
  by (simp add: verify_key_def mint_def Let_def hash_key_def decode_hex_digest_def hex_encode_length hex_pairs_encode crypto_lawsD(4))

text \<open>Hashing the keys is invisible to clients. A store into which records have been inserted under the
  hashes of their plaintext keys answers a request exactly like a table of the plaintext keys: the last
  record inserted for the presented key, or 401, provided the digest does not collide on the keys.\<close>

lemma api_keys_refine_plaintext:
  assumes "inj_on (sha256 cr) (insert presented (fst ` set keys))"
    and "\<forall>(p, r) \<in> set keys. ak_hash r = hash_key cr p"
    and "extract_key hdr = Some presented"
  shows "api_key_from_request cr (Ok (keys_lookup (foldl (\<lambda>m (p, r). keys_insert r m) Map.empty keys))) hdr =
    (case map_of (rev keys) presented of Some r \<Rightarrow> Ok r | None \<Rightarrow> Err unauthorized)"
proof -
  have "(foldl (\<lambda>m (p, r). keys_insert r m) m0 ks) (hash_key cr presented) =
      (case map_of (rev ks) presented of Some r \<Rightarrow> Some r | None \<Rightarrow> m0 (hash_key cr presented))"
    if "set ks \<subseteq> set keys" for ks m0
    using that
  proof (induction ks arbitrary: m0)
    case (Cons k ks)
    obtain p r where k: "k = (p, r)" by (cases k)
    with Cons.prems assms(2) have "ak_hash r = hash_key cr p" and "p \<in> fst ` set keys" by (auto simp: image_iff intro: bexI [of _ k])
    moreover from this(2) have "hash_key cr p = hash_key cr presented \<longleftrightarrow> p = presented"
      using assms(1) by (auto simp: hash_key_def hex_encode_inj inj_on_def)
    ultimately show ?case using Cons.IH [of "keys_insert r m0"] Cons.prems
      by (auto simp: k keys_insert_def map_add_def split: option.splits)
  qed simp
  from this [of keys Map.empty] show ?thesis
    by (auto simp: api_key_from_request_def assms(3) keys_lookup_def split: option.splits)
qed

end
