(* ===== verification/JC_OAuth.thy ===== *)
theory JC_OAuth
  imports JC_Auth JC_Router
begin

text \<open>
  The OAuth2 authorization-code client, \<open>jerrycan-auth/src/oauth.rs\<close>: providers, the authorize URL with
  PKCE, the code and refresh exchanges, form encoding, and the transport with its guard against
  plaintext. The HTTP client is a function from a request to its outcome; \<open>de\<close> is the derived reader of
  a token response with its error text.
\<close>

section \<open>Providers and responses\<close>

record provider =
  auth_url :: str
  token_url :: str
  default_scopes :: "str list"


definition provider_github :: provider where
  "provider_github = \<lparr>auth_url = ''https://github.com/login/oauth/authorize'',
     token_url = ''https://github.com/login/oauth/access_token'', default_scopes = [''read:user'', ''user:email'']\<rparr>"

definition provider_hubspot :: provider where
  "provider_hubspot = \<lparr>auth_url = ''https://app.hubspot.com/oauth/authorize'',
     token_url = ''https://api.hubapi.com/oauth/v1/token'', default_scopes = [''oauth'']\<rparr>"

definition provider_salesforce :: provider where
  "provider_salesforce = \<lparr>auth_url = ''https://login.salesforce.com/services/oauth2/authorize'',
     token_url = ''https://login.salesforce.com/services/oauth2/token'', default_scopes = [''api'', ''refresh_token'']\<rparr>"

record token_response =
  tr_access_token :: str
  tr_token_type :: str
  tr_refresh_token :: "str option"
  tr_expires_in :: "nat option"
  tr_scope :: "str option"



section \<open>Encoding\<close>

definition unreserved :: "char \<Rightarrow> bool" where
  "unreserved c \<longleftrightarrow> byte_in 65 90 c \<or> byte_in 97 122 c \<or> byte_in 48 57 c \<or> c \<in> {CHR ''-'', CHR ''_'', CHR ''.'', CHR ''~''}"

definition to_ascii_upper :: "char \<Rightarrow> char" where
  "to_ascii_upper c = (if byte_in 97 122 c then char_of ((of_char c :: nat) - 32) else c)"

definition oauth_encode :: "str \<Rightarrow> str" where
  "oauth_encode s = concat (map (\<lambda>c.
     if unreserved c then [c]
     else [CHR ''%'', to_ascii_upper (from_digit (of_char c div 16)), to_ascii_upper (from_digit (of_char c mod 16))]) s)"


section \<open>The client\<close>

record oauth_client =
  oc_provider :: provider
  oc_client_id :: str
  oc_client_secret :: str
  oc_redirect_uri :: str

definition scope_string :: "oauth_client \<Rightarrow> str list \<Rightarrow> str" where
  "scope_string oc scopes =
     (if scopes = [] then join_with '' '' (default_scopes (oc_provider oc)) else join_with '' '' scopes)"

definition authorize_url :: "oauth_client \<Rightarrow> str \<Rightarrow> str list \<Rightarrow> str" where
  "authorize_url oc state scopes =
     auth_url (oc_provider oc) @ ''?response_type=code&client_id='' @ oauth_encode (oc_client_id oc) @
     ''&redirect_uri='' @ oauth_encode (oc_redirect_uri oc) @ ''&scope='' @ oauth_encode (scope_string oc scopes) @
     ''&state='' @ oauth_encode state"

text \<open>The verifier is 32 random bytes, encoded.\<close>

definition pkce_generate :: "crypto \<Rightarrow> bytes \<Rightarrow> str" where
  "pkce_generate cr random = b64url cr random"

definition pkce_challenge :: "crypto \<Rightarrow> str \<Rightarrow> str" where
  "pkce_challenge cr verifier = b64url cr (sha256 cr verifier)"

definition authorize_url_pkce :: "crypto \<Rightarrow> bytes \<Rightarrow> oauth_client \<Rightarrow> str \<Rightarrow> str list \<Rightarrow> str \<times> str" where
  "authorize_url_pkce cr random oc state scopes =
     (let verifier = pkce_generate cr random in
      (authorize_url oc state scopes @ ''&code_challenge='' @ oauth_encode (pkce_challenge cr verifier) @
         ''&code_challenge_method=S256'', verifier))"


definition refresh_form :: "oauth_client \<Rightarrow> str \<Rightarrow> (str \<times> str) list" where
  "refresh_form oc token =
     [(''grant_type'', ''refresh_token''), (''refresh_token'', token), (''client_id'', oc_client_id oc),
      (''client_secret'', oc_client_secret oc)]"

section \<open>The transport\<close>

fun split_str_once :: "str \<Rightarrow> str \<Rightarrow> (str \<times> str) option" where
  "split_str_once sep [] = (if sep = [] then Some ([], []) else None)"
| "split_str_once sep (x # xs) =
     (if take (length sep) (x # xs) = sep then Some ([], drop (length sep) (x # xs))
      else map_option (\<lambda>(a, b). (x # a, b)) (split_str_once sep xs))"

definition rsplit_once :: "char \<Rightarrow> str \<Rightarrow> (str \<times> str) option" where
  "rsplit_once c s = map_option (\<lambda>(a, b). (rev b, rev a)) (split_once c (rev s))"

text \<open>The host of \<open>authority/path?query#fragment\<close>, if the code accepts the authority.\<close>

definition plain_host :: "str \<Rightarrow> str option" where
  "plain_host rest =
     (let authority = takeWhile (\<lambda>c. c \<notin> {CHR ''/'', CHR ''?'', CHR ''#''}) rest in
      if CHR ''@'' \<in> set authority then None
      else (case strip_prefix CHR ''['' authority of
              Some after \<Rightarrow> map_option fst (split_once CHR '']'' after)
            | None \<Rightarrow> Some (case rsplit_once CHR '':'' authority of None \<Rightarrow> authority | Some (h, _) \<Rightarrow> h)))"

definition loopback_host :: "str \<Rightarrow> bool" where
  "loopback_host host \<longleftrightarrow> eq_ignore_ascii_case host ''localhost'' \<or> host = ''127.0.0.1'' \<or> host = ''::1''"

definition is_loopback_http_ok :: "str \<Rightarrow> bool" where
  "is_loopback_http_ok url =
     (case split_str_once ''://'' url of
        None \<Rightarrow> False
      | Some (scheme, rest) \<Rightarrow>
          if eq_ignore_ascii_case scheme ''https'' then True
          else if \<not> eq_ignore_ascii_case scheme ''http'' then False
          else (case plain_host rest of None \<Rightarrow> False | Some host \<Rightarrow> loopback_host host))"




definition oauth_refresh :: "(str \<Rightarrow> (str \<times> str) list \<Rightarrow> 'r) \<Rightarrow> oauth_client \<Rightarrow> str \<Rightarrow> 'r" where
  "oauth_refresh transport oc token = transport (token_url (oc_provider oc)) (refresh_form oc token)"

section \<open>Percent-encoding\<close>

lemma hex_upper: "n < 16 \<Longrightarrow> hex (to_ascii_upper (from_digit n)) = Some n"
  by (auto simp: hex_def to_ascii_upper_def from_digit_def byte_in_def)

lemma encode_decode: "decode_bytes (oauth_encode s) = Some s"
proof (induction s)
  case (Cons c s)
  have "(of_char c :: nat) div 16 < 16" using of_char_less_256 [of c] by linarith
  then have "\<not> unreserved c \<Longrightarrow> decode_bytes (oauth_encode (c # s)) = Some (c # s)"
    using Cons by (simp add: oauth_encode_def hex_upper)
  moreover have "unreserved c \<Longrightarrow> c \<noteq> CHR ''%''" by (auto simp: unreserved_def byte_in_def)
  ultimately show ?case using Cons by (cases "unreserved c") (simp_all add: oauth_encode_def)
qed (simp add: oauth_encode_def)

lemma encode_chars: "c \<in> set (oauth_encode s) \<Longrightarrow> unreserved c \<or> c = CHR ''%''"
proof (induction s)
  case (Cons x s)
  have up: "unreserved (to_ascii_upper (from_digit n))" if "n < 16" for n
    using that by (auto simp: unreserved_def to_ascii_upper_def from_digit_def byte_in_def)
  have "(of_char x :: nat) div 16 < 16" using of_char_less_256 [of x] by linarith
  with Cons up [of "of_char x div 16"] up [of "of_char x mod 16"] show ?case
    by (auto simp: oauth_encode_def split: if_splits)
qed (simp add: oauth_encode_def)

lemma encode_no_sep: "c \<in> {CHR ''&'', CHR ''='', CHR ''?''} \<Longrightarrow> c \<notin> set (oauth_encode s)"
  using encode_chars [of c s] by (auto simp: unreserved_def byte_in_def)

text \<open>Reading a query or a form: the pieces between \<open>&\<close>, split at their first \<open>=\<close>, percent-decoded.\<close>

definition read_pairs :: "str \<Rightarrow> (bytes option \<times> bytes option) option list" where
  "read_pairs q = map (\<lambda>p. map_option (\<lambda>(k, v). (decode_bytes k, decode_bytes v)) (split_once CHR ''='' p)) (split_on CHR ''&'' q)"

definition exactly :: "(str \<times> str) list \<Rightarrow> (bytes option \<times> bytes option) option list" where
  "exactly ps = map (\<lambda>(k, v). Some (Some k, Some v)) ps"


lemma split_on_join:
  assumes "ps \<noteq> []" "\<forall>p \<in> set ps. c \<notin> set p"
  shows "split_on c (join_with [c] ps) = ps"
  using assms
proof (induction ps)
  case (Cons p ps)
  show ?case
  proof (cases ps)
    case Nil
    with Cons show ?thesis by (simp add: split_on_no_sep)
  next
    case (Cons q qs)
    with Cons.IH Cons.prems split_on_append_sep [of c p "join_with [c] ps"] show ?thesis by (simp add: split_on_no_sep)
  qed
qed simp


section \<open>Properties\<close>

text \<open>The authorize URL carries exactly the parameters of the flow. Whatever the client id, the redirect
  URI, the scopes and the state contain, the part of the URL after the endpoint reads, by the decoder
  of the framework's own router, as the seven parameters with exactly those values: no value can add,
  hide or change another parameter.\<close>

lemma authorize_url_parameters:
  assumes "CHR ''?'' \<notin> set (auth_url (oc_provider oc))" "authorize_url_pkce cr random oc state scopes = (url, verifier)"
  shows "\<exists>query. split_once CHR ''?'' url = Some (auth_url (oc_provider oc), query) \<and>
    read_pairs query = exactly
      [(''response_type'', ''code''), (''client_id'', oc_client_id oc), (''redirect_uri'', oc_redirect_uri oc),
       (''scope'', scope_string oc scopes), (''state'', state),
       (''code_challenge'', b64url cr (sha256 cr verifier)), (''code_challenge_method'', ''S256'')]"
proof -
  let ?ps = "[''response_type=code'', ''client_id='' @ oauth_encode (oc_client_id oc),
      ''redirect_uri='' @ oauth_encode (oc_redirect_uri oc), ''scope='' @ oauth_encode (scope_string oc scopes),
      ''state='' @ oauth_encode state, ''code_challenge='' @ oauth_encode (pkce_challenge cr verifier), ''code_challenge_method=S256'']"
  have url: "url = auth_url (oc_provider oc) @ CHR ''?'' # join_with [CHR ''&''] ?ps"
    using assms(2) by (auto simp: authorize_url_pkce_def authorize_url_def Let_def)
  have split: "split_on CHR ''&'' (join_with [CHR ''&''] ?ps) = ?ps"
    by (rule split_on_join) (use encode_no_sep [of "CHR ''&''"] in simp_all)
  have plain: "split_once CHR ''='' ''response_type=code'' = Some (''response_type'', ''code'')"
    "split_once CHR ''='' ''code_challenge_method=S256'' = Some (''code_challenge_method'', ''S256'')"
    by simp_all
  have "read_pairs (join_with [CHR ''&''] ?ps) = exactly
      [(''response_type'', ''code''), (''client_id'', oc_client_id oc), (''redirect_uri'', oc_redirect_uri oc),
       (''scope'', scope_string oc scopes), (''state'', state),
       (''code_challenge'', pkce_challenge cr verifier), (''code_challenge_method'', ''S256'')]"
    unfolding read_pairs_def split exactly_def by (simp add: encode_decode)
  then show ?thesis using split_once_name [OF assms(1)] url by (auto simp: pkce_challenge_def)
qed


text \<open>
  The host that a client connects to, read as RFC 3986 and the URL standard have it and without the code's own
  functions: the authority ends at the first slash, backslash, question mark or hash; what is before its last \<open>@\<close> are
  credentials; the host is in brackets or ends at the first colon, and only a port of digits may follow
  it. There is no host when the authority does not read like that: such a URL is none to a client.
\<close>

definition port_part :: "str \<Rightarrow> bool" where
  "port_part s \<longleftrightarrow> s = [] \<or> (hd s = CHR '':'' \<and> list_all (byte_in 48 57) (tl s))"

definition host_of_hostport :: "str \<Rightarrow> str option" where
  "host_of_hostport hp =
     (if take 1 hp = ''['' then
        (let inner = takeWhile (\<lambda>c. c \<noteq> CHR '']'') (drop 1 hp); tail = drop (length inner + 1) hp
         in if take 1 tail = '']'' \<and> port_part (drop 1 tail) then Some inner else None)
      else
        (let host = takeWhile (\<lambda>c. c \<noteq> CHR '':'') hp
         in if port_part (drop (length host) hp) then Some host else None))"

definition url_host :: "str \<Rightarrow> str option" where
  "url_host rest =
     (let authority = takeWhile (\<lambda>c. c \<notin> {CHR ''/'', CHR 0x5C, CHR ''?'', CHR ''#''}) rest
      in host_of_hostport (rev (takeWhile (\<lambda>c. c \<noteq> CHR ''@'') (rev authority))))"










text \<open>The guard looks at a bracketed host only up to the bracket, whatever follows it.\<close>

lemma bracketed_host_ignores_rest:
  "is_loopback_http_ok ''http://[::1]evil.example/token''" "url_host ''[::1]evil.example/token'' = None"
  by code_simp+

end
