(* ===== verification/JC_IdToken.thy ===== *)
theory JC_IdToken
  imports JC_OAuth
begin

text \<open>
  Third-party ID tokens, \<open>jerrycan-auth/src/idtoken.rs\<close>: the verifier's configuration, its key cache, the
  checks around the JWT library, and the fetch of key sets. The library is the record \<open>jwt_lib\<close> (header
  reader, RSA keys, decoding under a validation), with its documented behaviour as \<open>jwt_lib_laws\<close>; the
  RSA check is a parameter of it. \<open>key_for_kid\<close> is one look-up as a whole; the steps of look-ups that
  overlap are \<open>jwks_step\<close>. Instants and durations are milliseconds, claims' times are seconds.
\<close>

section \<open>Key sets and claims\<close>

record jwk =
  jw_kty :: str
  jw_kid :: "str option"
  jw_alg :: "str option"
  jw_n :: "str option"
  jw_e :: "str option"

type_synonym jwks = "jwk list"

definition jwks_find :: "str \<Rightarrow> jwks \<Rightarrow> jwk option" where
  "jwks_find kid ks = List.find (\<lambda>k. eq_ignore_ascii_case (jw_kty k) ''RSA'' \<and> jw_kid k = Some kid) ks"

record id_claims =
  ic_sub :: str
  ic_iss :: str
  ic_exp :: nat
  ic_iat :: "nat option"
  ic_email :: "str option"
  ic_nonce :: "str option"
  ic_extra :: "(str \<times> json) list"

definition email_verified :: "id_claims \<Rightarrow> bool" where
  "email_verified c =
     (case map_of (ic_extra c) ''email_verified'' of
        Some (JBool b) \<Rightarrow> b
      | Some (JString s) \<Rightarrow> eq_ignore_ascii_case s ''true''
      | _ \<Rightarrow> False)"

definition unauth :: "str \<Rightarrow> error" where "unauth m = error_new 401 ''JC0401'' m"

section \<open>The verifier\<close>

record verifier =
  vf_issuers :: "str list"
  vf_jwks_uri :: str
  vf_audiences :: "str list"
  vf_leeway :: nat
  vf_nonce :: "str option"
  vf_ttl :: nat
  vf_min_refetch :: nat

definition DEFAULT_JWKS_TTL :: nat where "DEFAULT_JWKS_TTL = 3600 * 1000"
definition DEFAULT_LEEWAY_SECS :: nat where "DEFAULT_LEEWAY_SECS = 60"
definition DEFAULT_MIN_REFETCH :: nat where "DEFAULT_MIN_REFETCH = 60 * 1000"

definition verifier_custom :: "str list \<Rightarrow> str \<Rightarrow> str list \<Rightarrow> verifier" where
  "verifier_custom issuers uri audiences =
     \<lparr>vf_issuers = issuers, vf_jwks_uri = uri, vf_audiences = audiences, vf_leeway = DEFAULT_LEEWAY_SECS,
      vf_nonce = None, vf_ttl = DEFAULT_JWKS_TTL, vf_min_refetch = DEFAULT_MIN_REFETCH\<rparr>"

definition verifier_google :: "str \<Rightarrow> verifier" where
  "verifier_google audience = verifier_custom [''https://accounts.google.com'', ''accounts.google.com'']
     ''https://www.googleapis.com/oauth2/v3/certs'' [audience]"

definition verifier_apple :: "str \<Rightarrow> verifier" where
  "verifier_apple audience = verifier_custom [''https://appleid.apple.com''] ''https://appleid.apple.com/auth/keys'' [audience]"

definition with_ttl :: "nat \<Rightarrow> verifier \<Rightarrow> verifier" where "with_ttl d v = v\<lparr>vf_ttl := d\<rparr>"
definition with_leeway :: "nat \<Rightarrow> verifier \<Rightarrow> verifier" where "with_leeway s v = v\<lparr>vf_leeway := s\<rparr>"
definition with_min_refetch_interval :: "nat \<Rightarrow> verifier \<Rightarrow> verifier" where
  "with_min_refetch_interval d v = v\<lparr>vf_min_refetch := d\<rparr>"
definition require_nonce :: "str \<Rightarrow> verifier \<Rightarrow> verifier" where "require_nonce n v = v\<lparr>vf_nonce := Some n\<rparr>"
definition add_audience :: "str \<Rightarrow> verifier \<Rightarrow> verifier" where
  "add_audience a v = v\<lparr>vf_audiences := vf_audiences v @ [a]\<rparr>"

section \<open>The key cache\<close>

record cache_entry =
  ce_jwks :: jwks
  ce_fetched_at :: nat

datatype plan = UseKey jwk | Refetch | FailKid

definition key_plan :: "verifier \<Rightarrow> nat \<Rightarrow> str \<Rightarrow> cache_entry option \<Rightarrow> plan" where
  "key_plan v now kid cache =
     (case cache of
        None \<Rightarrow> Refetch
      | Some entry \<Rightarrow>
          (let age = now - ce_fetched_at entry in
           case jwks_find kid (ce_jwks entry) of
             Some k \<Rightarrow> if age < vf_ttl v then UseKey k else Refetch
           | None \<Rightarrow> if vf_min_refetch v \<le> age then Refetch else FailKid))"

definition no_key :: error where "no_key = unauth ''id token: no JWKS key matches the token kid''"

text \<open>\<open>fetched\<close> is what the source answers if it is asked, \<open>at\<close> the instant at which that is stored. The last
  component says whether it was asked.\<close>

definition key_for_kid ::
    "verifier \<Rightarrow> (error, jwks) result \<Rightarrow> nat \<Rightarrow> nat \<Rightarrow> str \<Rightarrow> cache_entry option \<Rightarrow>
       (error, jwk) result \<times> cache_entry option \<times> bool" where
  "key_for_kid v fetched at now kid cache =
     (case key_plan v now kid cache of
        UseKey k \<Rightarrow> (Ok k, cache, False)
      | FailKid \<Rightarrow> (Err no_key, cache, False)
      | Refetch \<Rightarrow>
          (case fetched of
             Err e \<Rightarrow> (Err e, cache, True)
           | Ok ks \<Rightarrow>
               (case jwks_find kid ks of Some k \<Rightarrow> Ok k | None \<Rightarrow> Err no_key,
                Some \<lparr>ce_jwks = ks, ce_fetched_at = at\<rparr>, True)))"

section \<open>The JWT library\<close>

datatype jws_alg = RS256 | OtherAlg str

datatype jwt_error =
    InvalidToken | InvalidSignature | InvalidIssuer | InvalidAudience | ExpiredSignature
  | ImmatureSignature | InvalidAlgorithm | MissingRequiredClaim str | InvalidKeyFormat | OtherJwtError

record validation =
  vl_algorithms :: "jws_alg list"
  vl_issuers :: "str list"
  vl_audiences :: "str list"
  vl_required :: "str list"
  vl_leeway :: nat
  vl_exp :: bool
  vl_nbf :: bool

record 'k jwt_lib =
  jl_header :: "str \<Rightarrow> (jws_alg \<times> str option) option"
  jl_rsa :: "str \<Rightarrow> str \<Rightarrow> 'k option"
  jl_decode :: "nat \<Rightarrow> str \<Rightarrow> 'k \<Rightarrow> validation \<Rightarrow> (jwt_error, id_claims) result"

text \<open>
  What \<open>decode\<close> documents: claims are returned only for a token whose algorithm is allowed and whose
  signature verifies, whose issuer is among those set, which has the required claims, whose audience (if
  it has one) intersects the accepted ones, and whose times are right up to the leeway. \<open>sig_ok tok k\<close>,
  \<open>auds tok\<close> and \<open>nbf tok\<close> are the token's RSA check and claims.
\<close>

definition jwt_lib_laws ::
    "'k jwt_lib \<Rightarrow> (str \<Rightarrow> 'k \<Rightarrow> bool) \<Rightarrow> (str \<Rightarrow> str list option) \<Rightarrow> (str \<Rightarrow> nat option) \<Rightarrow> bool" where
  "jwt_lib_laws lib sig_ok auds nbf \<longleftrightarrow>
     (\<forall>secs tok k vl c. jl_decode lib secs tok k vl = Ok c \<longrightarrow>
        sig_ok tok k \<and> (\<exists>alg kid. jl_header lib tok = Some (alg, kid) \<and> alg \<in> set (vl_algorithms vl)) \<and>
        ic_iss c \<in> set (vl_issuers vl) \<and>
        (''aud'' \<in> set (vl_required vl) \<longrightarrow> auds tok \<noteq> None) \<and>
        (\<forall>as. auds tok = Some as \<longrightarrow> set as \<inter> set (vl_audiences vl) \<noteq> {}) \<and>
        (vl_exp vl \<longrightarrow> secs \<le> ic_exp c + vl_leeway vl) \<and>
        (vl_nbf vl \<longrightarrow> (\<forall>t. nbf tok = Some t \<longrightarrow> t \<le> secs + vl_leeway vl)))"

definition decoding_key :: "'k jwt_lib \<Rightarrow> jwk \<Rightarrow> (error, 'k) result" where
  "decoding_key lib k =
     (if \<not> eq_ignore_ascii_case (jw_kty k) ''RSA'' then Err (unauth ''id token: matched JWKS key is not RSA'')
      else (case (jw_n k, jw_e k) of
              (Some n, Some e) \<Rightarrow>
                (case jl_rsa lib n e of
                   None \<Rightarrow> Err (unauth ''id token: RSA JWK has invalid modulus/exponent'')
                 | Some key \<Rightarrow> Ok key)
            | _ \<Rightarrow> Err (unauth ''id token: RSA JWK is missing modulus/exponent'')))"

definition map_jwt_error :: "jwt_error \<Rightarrow> error" where
  "map_jwt_error e = unauth (''id token: '' @
     (case e of
        InvalidToken \<Rightarrow> ''malformed token''
      | InvalidSignature \<Rightarrow> ''bad signature''
      | InvalidIssuer \<Rightarrow> ''wrong issuer''
      | InvalidAudience \<Rightarrow> ''wrong audience''
      | ExpiredSignature \<Rightarrow> ''expired''
      | ImmatureSignature \<Rightarrow> ''not yet valid (nbf)''
      | InvalidAlgorithm \<Rightarrow> ''wrong algorithm''
      | MissingRequiredClaim _ \<Rightarrow> ''missing a required claim''
      | _ \<Rightarrow> ''verification failed''))"

definition token_validation :: "verifier \<Rightarrow> validation" where
  "token_validation v = \<lparr>vl_algorithms = [RS256], vl_issuers = vf_issuers v, vl_audiences = vf_audiences v,
     vl_required = [''exp'', ''aud''], vl_leeway = vf_leeway v, vl_exp = True, vl_nbf = True\<rparr>"

text \<open>\<open>secs\<close> is the time the library reads.\<close>

definition verify_token ::
    "'k jwt_lib \<Rightarrow> verifier \<Rightarrow> (error, jwks) result \<Rightarrow> nat \<Rightarrow> nat \<Rightarrow> nat \<Rightarrow> str \<Rightarrow> cache_entry option \<Rightarrow>
       (error, id_claims) result \<times> cache_entry option \<times> bool" where
  "verify_token lib v fetched at now secs token cache =
     (case jl_header lib token of
        None \<Rightarrow> (Err (unauth ''id token: malformed JWS header''), cache, False)
      | Some (alg, kid_opt) \<Rightarrow>
          if alg \<noteq> RS256 then (Err (unauth ''id token: unsupported alg (only RS256 is accepted)''), cache, False)
          else (case kid_opt of
                  None \<Rightarrow> (Err (unauth ''id token: JWS header has no kid''), cache, False)
                | Some kid \<Rightarrow>
                    (case key_for_kid v fetched at now kid cache of
                       (found, cache', asked) \<Rightarrow>
                         (bind_result found (\<lambda>k. bind_result (decoding_key lib k) (\<lambda>key.
                            case jl_decode lib secs token key (token_validation v) of
                              Err e \<Rightarrow> Err (map_jwt_error e)
                            | Ok claims \<Rightarrow>
                                (case vf_nonce v of
                                   Some expected \<Rightarrow>
                                     if ic_nonce claims \<noteq> Some expected then Err (unauth ''id token: nonce mismatch'') else Ok claims
                                 | None \<Rightarrow> Ok claims))),
                          cache', asked))))"

text \<open>The process-wide provider of the algorithms: RS256 over an RSA key only.\<close>

definition factory_check :: "jws_alg \<Rightarrow> bool \<Rightarrow> (jwt_error, unit) result" where
  "factory_check alg rsa_family =
     (if alg \<noteq> RS256 then Err InvalidAlgorithm else if \<not> rsa_family then Err InvalidKeyFormat else Ok ())"

section \<open>Fetching a key set\<close>

definition fetch_url_allowed :: "str \<Rightarrow> bool" where
  "fetch_url_allowed url =
     (case split_str_once ''://'' url of
        None \<Rightarrow> False
      | Some (scheme, rest) \<Rightarrow>
          if eq_ignore_ascii_case scheme ''https'' then True
          else if \<not> eq_ignore_ascii_case scheme ''http'' then False
          else (case plain_host rest of None \<Rightarrow> False | Some host \<Rightarrow> loopback_host host))"

datatype get_outcome = GetBuildFailed str | GetFailed | GetReadFailed nat | GetAnswer nat bytes

text \<open>\<open>fetch1\<close> is the HTTP client: a GET of a URL; the status is known before the body is read.\<close>

definition fetch_jwks :: "(bytes \<Rightarrow> jwks option) \<Rightarrow> (str \<Rightarrow> get_outcome) \<Rightarrow> str \<Rightarrow> (error, jwks) result" where
  "fetch_jwks de fetch1 uri =
     (if \<not> fetch_url_allowed uri
      then Err (internal ''id token: refusing to fetch a JWKS over plaintext http:// from a non-loopback host'')
      else
        (let bad_status = (\<lambda>st. internal (''id token: JWKS endpoint returned status '' @ show_nat st)) in
         case fetch1 uri of
           GetBuildFailed e \<Rightarrow> Err (internal (''id token: building JWKS request failed: '' @ e))
         | GetFailed \<Rightarrow> Err (internal ''id token: JWKS request failed'')
         | GetReadFailed st \<Rightarrow>
             if st < 200 \<or> 299 < st then Err (bad_status st)
             else Err (internal ''id token: reading JWKS body failed'')
         | GetAnswer st body \<Rightarrow>
             if st < 200 \<or> 299 < st then Err (bad_status st)
             else (case de body of
                     None \<Rightarrow> Err (internal ''id token: JWKS body was not a valid JSON key set'')
                   | Some ks \<Rightarrow> Ok ks)))"

section \<open>Look-ups that overlap\<close>

text \<open>
  The cache is locked only to look into it and to store; between the two a look-up that asks the source
  waits, and others run. The state is the cache and the look-ups that wait, with their starts. A step
  looks a key id up, or the source answers one of those that wait, at the instant at which that is
  stored, or fails it.
\<close>

record jwks_state =
  js_cache :: "cache_entry option"
  js_waiting :: "(nat \<times> str) list"

datatype jwks_act = LookUp nat str | Answered nat nat jwks | FetchFailed nat nat

fun act_time :: "jwks_act \<Rightarrow> nat" where
  "act_time (LookUp now kid) = now"
| "act_time (Answered i at ks) = at"
| "act_time (FetchFailed i at) = at"

definition drop_nth :: "nat \<Rightarrow> 'a list \<Rightarrow> 'a list" where
  "drop_nth i xs = take i xs @ drop (i + 1) xs"

fun jwks_step :: "verifier \<Rightarrow> jwks_act \<Rightarrow> jwks_state \<Rightarrow> jwks_state option" where
  "jwks_step v (LookUp now kid) st =
     (case key_plan v now kid (js_cache st) of
        Refetch \<Rightarrow> Some (st\<lparr>js_waiting := js_waiting st @ [(now, kid)]\<rparr>)
      | _ \<Rightarrow> Some st)"
| "jwks_step v (Answered i at ks) st =
     (if i < length (js_waiting st)
      then Some \<lparr>js_cache = Some \<lparr>ce_jwks = ks, ce_fetched_at = at\<rparr>, js_waiting = drop_nth i (js_waiting st)\<rparr> else None)"
| "jwks_step v (FetchFailed i at) st =
     (if i < length (js_waiting st) then Some (st\<lparr>js_waiting := drop_nth i (js_waiting st)\<rparr>) else None)"

fun jwks_run :: "verifier \<Rightarrow> jwks_act list \<Rightarrow> jwks_state \<Rightarrow> jwks_state option" where
  "jwks_run v [] st = Some st"
| "jwks_run v (x # xs) st = Option.bind (jwks_step v x st) (jwks_run v xs)"

text \<open>A look-up that nothing overlaps leaves the cache that its two steps leave, one after the other.\<close>

lemma key_for_kid_steps:
  assumes "js_waiting st = []"
  shows "map_option js_cache (jwks_run v (case key_plan v now kid (js_cache st) of
        Refetch \<Rightarrow> [LookUp now kid, Answered 0 at ks] | _ \<Rightarrow> [LookUp now kid]) st) =
      Some (fst (snd (key_for_kid v (Ok ks) at now kid (js_cache st))))"
  using assms by (simp add: key_for_kid_def split: plan.splits)

lemma jwks_find_Some: "jwks_find kid ks = Some k \<Longrightarrow> k \<in> set ks \<and> eq_ignore_ascii_case (jw_kty k) ''RSA'' \<and> jw_kid k = Some kid"
  by (auto simp: jwks_find_def find_Some_iff)

lemma key_for_kid_Ok:
  assumes "key_for_kid v fetched at now kid cache = (Ok k, cache', asked)"
  shows "eq_ignore_ascii_case (jw_kty k) ''RSA'' \<and> jw_kid k = Some kid \<and>
    (\<exists>ks. k \<in> set ks \<and> (if asked then fetched = Ok ks
       else (\<exists>t. cache = Some \<lparr>ce_jwks = ks, ce_fetched_at = t\<rparr> \<and> now - t < vf_ttl v)))"
proof (cases "key_plan v now kid cache")
  case (UseKey k')
  then obtain entry where "cache = Some entry" "jwks_find kid (ce_jwks entry) = Some k'" "now - ce_fetched_at entry < vf_ttl v"
    by (auto simp: key_plan_def Let_def split: option.splits if_splits)
  with UseKey assms jwks_find_Some [of kid "ce_jwks entry" k'] show ?thesis
    by (cases entry) (auto simp: key_for_kid_def)
next
  case Refetch
  with assms show ?thesis by (auto simp: key_for_kid_def dest: jwks_find_Some split: sum.splits option.splits)
qed (use assms in \<open>simp add: key_for_kid_def\<close>)

text \<open>The cache is the last answer, or what it was.\<close>

fun note_answer :: "jwks_act \<Rightarrow> cache_entry option \<Rightarrow> cache_entry option" where
  "note_answer (Answered i at ks) cache = Some \<lparr>ce_jwks = ks, ce_fetched_at = at\<rparr>"
| "note_answer x cache = cache"

lemma jwks_run_cache: "jwks_run v acts st = Some st' \<Longrightarrow> js_cache st' = fold note_answer acts (js_cache st)"
proof (induction acts arbitrary: st)
  case (Cons x acts)
  then obtain s1 where s1: "jwks_step v x st = Some s1" "jwks_run v acts s1 = Some st'" by (auto simp: bind_eq_Some_conv)
  then have "js_cache s1 = note_answer x (js_cache st)" by (cases x) (auto split: plan.splits if_splits)
  then show ?case using Cons.IH [OF s1(2)] by simp
qed simp

lemma last_answer:
  "\<exists>e'. fold note_answer acts (Some e) = Some e' \<and> (e' = e \<or> (\<exists>x \<in> set acts. act_time x = ce_fetched_at e'))"
proof (induction acts arbitrary: e)
  case (Cons x acts)
  then show ?case by (cases x) fastforce+
qed simp

lemma jwks_run_append: "jwks_run v (xs @ ys) st = Option.bind (jwks_run v xs st) (jwks_run v ys)"
  by (induction xs arbitrary: st) (simp_all split: bind_split)

text \<open>A key that the provider serves is found as soon as the cooldown since the last fetch has passed.\<close>

lemma rotated_key_found:
  assumes "jwks_find kid ks = Some k" "\<forall>e. cache = Some e \<longrightarrow> vf_min_refetch v \<le> now - ce_fetched_at e"
  shows "\<exists>k'. fst (key_for_kid v (Ok ks) at now kid cache) = Ok k' \<and> jw_kid k' = Some kid"
proof (cases "key_plan v now kid cache")
  case (UseKey k')
  then have "jw_kid k' = Some kid"
    by (auto simp: key_plan_def Let_def dest: jwks_find_Some split: option.splits if_splits)
  with UseKey show ?thesis by (simp add: key_for_kid_def)
next
  case Refetch
  with assms(1) jwks_find_Some [OF assms(1)] show ?thesis by (simp add: key_for_kid_def)
next
  case FailKid
  with assms(2) show ?thesis by (auto simp: key_plan_def Let_def split: option.splits if_splits)
qed

text \<open>
  What the cooldown does not bound. While the source fails and nothing is cached, every look-up asks it
  again; and look-ups that come before an answer each ask it, whatever their key ids.
\<close>

lemma failing_source_asked_each_time:
  "jwks_run v [LookUp now kid, FetchFailed (length ws) at] \<lparr>js_cache = None, js_waiting = ws\<rparr> = Some \<lparr>js_cache = None, js_waiting = ws\<rparr>"
  "jwks_step v (LookUp now kid) \<lparr>js_cache = None, js_waiting = ws\<rparr> = Some \<lparr>js_cache = None, js_waiting = ws @ [(now, kid)]\<rparr>"
  by (simp_all add: key_plan_def drop_nth_def)

lemma overlapping_lookups_each_ask:
  assumes "js_cache st = None \<or> (\<exists>e. js_cache st = Some e \<and> (\<forall>x \<in> set ls. jwks_find (snd x) (ce_jwks e) = None \<and>
      ce_fetched_at e + vf_min_refetch v \<le> fst x))"
  shows "jwks_run v (map (\<lambda>(now, kid). LookUp now kid) ls) st = Some (st\<lparr>js_waiting := js_waiting st @ ls\<rparr>)"
  using assms
proof (induction ls arbitrary: st)
  case (Cons x ls)
  obtain now kid where x: "x = (now, kid)" by (cases x)
  have "key_plan v now kid (js_cache st) = Refetch" using Cons.prems x by (auto simp: key_plan_def Let_def)
  moreover have "jwks_run v (map (\<lambda>(now, kid). LookUp now kid) ls) (st\<lparr>js_waiting := js_waiting st @ [x]\<rparr>) =
      Some (st\<lparr>js_waiting := js_waiting st @ x # ls\<rparr>)"
    using Cons.IH [of "st\<lparr>js_waiting := js_waiting st @ [x]\<rparr>"] Cons.prems by auto
  ultimately show ?case by (simp add: x)
qed simp

section \<open>Properties\<close>

text \<open>C27: what a verified ID token guarantees. When verification returns claims, the token's header names RS256
  and a key id; the key is an RSA key of that id from a key set just fetched or cached for less than the
  time to live, and the token's signature verifies under it; the issuer is a configured one, the token
  has an audience and one of them is accepted; expiry and not-before hold up to the leeway; and a
  required nonce is there.\<close>

theorem id_token_verified:
  assumes "jwt_lib_laws lib sig_ok auds nbf"
    and "verify_token lib v fetched at now secs token cache = (Ok claims, cache', asked)"
  shows "\<exists>kid k key. jl_header lib token = Some (RS256, Some kid) \<and>
    eq_ignore_ascii_case (jw_kty k) ''RSA'' \<and> jw_kid k = Some kid \<and>
    (\<exists>ks. k \<in> set ks \<and> (if asked then fetched = Ok ks
       else (\<exists>t. cache = Some \<lparr>ce_jwks = ks, ce_fetched_at = t\<rparr> \<and> now - t < vf_ttl v))) \<and>
    decoding_key lib k = Ok key \<and> sig_ok token key \<and>
    ic_iss claims \<in> set (vf_issuers v) \<and> (\<exists>as. auds token = Some as \<and> set as \<inter> set (vf_audiences v) \<noteq> {}) \<and>
    secs \<le> ic_exp claims + vf_leeway v \<and> (\<forall>t. nbf token = Some t \<longrightarrow> t \<le> secs + vf_leeway v) \<and>
    (\<forall>n. vf_nonce v = Some n \<longrightarrow> ic_nonce claims = Some n)"
proof -
  obtain kid where hdr: "jl_header lib token = Some (RS256, Some kid)"
    using assms(2) by (auto simp: verify_token_def split: option.splits prod.splits if_splits)
  obtain found c2 a2 where kk: "key_for_kid v fetched at now kid cache = (found, c2, a2)" using prod_cases3 by blast
  from assms(2) hdr kk have a2: "a2 = asked" by (auto simp: verify_token_def)
  from assms(2) hdr kk obtain k key where k: "found = Ok k" "decoding_key lib k = Ok key"
      and body: "(case jl_decode lib secs token key (token_validation v) of
          Err e \<Rightarrow> Err (map_jwt_error e)
        | Ok claims \<Rightarrow>
            (case vf_nonce v of
               Some expected \<Rightarrow>
                 if ic_nonce claims \<noteq> Some expected then Err (unauth ''id token: nonce mismatch'') else Ok claims
             | None \<Rightarrow> Ok claims)) = Ok claims"
    unfolding verify_token_def by (simp add: bind_result_Ok) blast
  from body have dec: "jl_decode lib secs token key (token_validation v) = Ok claims"
      and nonce: "\<forall>n. vf_nonce v = Some n \<longrightarrow> ic_nonce claims = Some n"
    by (auto split: option.splits sum.splits if_splits)
  note law = assms(1) [unfolded jwt_lib_laws_def, rule_format, OF dec]
  have lib: "sig_ok token key" "ic_iss claims \<in> set (vf_issuers v)" "auds token \<noteq> None"
    "\<forall>as. auds token = Some as \<longrightarrow> set as \<inter> set (vf_audiences v) \<noteq> {}"
    "secs \<le> ic_exp claims + vf_leeway v" "\<forall>t. nbf token = Some t \<longrightarrow> t \<le> secs + vf_leeway v"
    using law by (simp_all add: token_validation_def)
  with key_for_kid_Ok [OF kk [unfolded k(1) a2]] hdr k(2) nonce show ?thesis
    by (intro exI [of _ kid] exI [of _ k] exI [of _ key]) auto
qed

definition demo_key :: jwk where
  "demo_key = \<lparr>jw_kty = ''RSA'', jw_kid = Some ''k1'', jw_alg = None, jw_n = Some ''n'', jw_e = Some ''e''\<rparr>"

definition demo_claims :: id_claims where
  "demo_claims = \<lparr>ic_sub = ''u'', ic_iss = ''accounts.google.com'', ic_exp = 100, ic_iat = None, ic_email = None,
     ic_nonce = None, ic_extra = []\<rparr>"

text \<open>A library whose decoder checks everything it is told to, on one token.\<close>

definition demo_lib :: "str jwt_lib" where
  "demo_lib = \<lparr>jl_header = (\<lambda>_. Some (RS256, Some ''k1'')), jl_rsa = (\<lambda>n e. Some (n @ e)),
     jl_decode = (\<lambda>secs tok k vl.
       if tok = ''token'' \<and> k = ''ne'' \<and> RS256 \<in> set (vl_algorithms vl) \<and> ic_iss demo_claims \<in> set (vl_issuers vl) \<and>
          ''client'' \<in> set (vl_audiences vl) \<and> secs \<le> 100 + vl_leeway vl
       then Ok demo_claims else Err InvalidToken)\<rparr>"

lemma demo_lib_laws: "jwt_lib_laws demo_lib (\<lambda>tok k. tok = ''token'' \<and> k = ''ne'') (\<lambda>_. Some [''client'']) (\<lambda>_. None)"
  by (auto simp: jwt_lib_laws_def demo_lib_def demo_claims_def split: if_splits)

theorem id_token_verified_witness:
  "ic_iss demo_claims \<in> set (vf_issuers (verifier_google ''client'')) \<and> jw_kid demo_key = Some ''k1''"
proof -
  have "verify_token demo_lib (verifier_google ''client'') (Ok [demo_key]) 0 0 0 ''token'' None =
      (Ok demo_claims, Some \<lparr>ce_jwks = [demo_key], ce_fetched_at = 0\<rparr>, True)"
    by (simp add: verify_token_def demo_lib_def key_for_kid_def key_plan_def jwks_find_def demo_key_def decoding_key_def
        eq_ignore_ascii_case_def verifier_google_def verifier_custom_def token_validation_def demo_claims_def)
  from id_token_verified [OF demo_lib_laws this] show ?thesis by (auto simp: demo_key_def)
qed

text \<open>C28: after an answer the provider is left alone for a while. Look-ups with whatever key ids begin, wait for the
  source and end in any interleaving, with the clock not going backwards. A look-up that comes after an
  answer was stored asks the source again only when at least the smaller of the time to live and the
  cooldown has passed since; before that it changes nothing, and it has the cached key if there is one.
  So fetches that do not overlap are spaced. Look-ups that come before an answer is stored may each ask the source:
  they are not bounded (\<open>overlapping_lookups_each_ask\<close>), nor are those after a failure
  (\<open>failing_source_asked_each_time\<close>).\<close>

theorem jwks_fetches_spaced:
  assumes "jwks_run v (pre @ Answered i at ks # mid) st0 = Some st"
    and "sorted (map act_time (pre @ Answered i at ks # mid @ [LookUp now kid]))"
    and "jwks_step v (LookUp now kid) st = Some st'"
  shows "(js_waiting st' \<noteq> js_waiting st \<longrightarrow> at + min (vf_ttl v) (vf_min_refetch v) \<le> now) \<and>
    (now < at + min (vf_ttl v) (vf_min_refetch v) \<longrightarrow> st' = st \<and>
       (\<exists>e. js_cache st = Some e \<and> at \<le> ce_fetched_at e \<and>
          key_plan v now kid (js_cache st) = (case jwks_find kid (ce_jwks e) of Some k \<Rightarrow> UseKey k | None \<Rightarrow> FailKid)))"
proof -
  obtain s1 where s1: "jwks_run v mid s1 = Some st" "js_cache s1 = Some \<lparr>ce_jwks = ks, ce_fetched_at = at\<rparr>"
    using assms(1) by (auto simp: jwks_run_append bind_eq_Some_conv split: if_splits)
  obtain e where e: "js_cache st = Some e" "e = \<lparr>ce_jwks = ks, ce_fetched_at = at\<rparr> \<or> (\<exists>x \<in> set mid. act_time x = ce_fetched_at e)"
    using last_answer [of mid "\<lparr>ce_jwks = ks, ce_fetched_at = at\<rparr>"] jwks_run_cache [OF s1(1)] s1(2) by auto
  have le: "at \<le> ce_fetched_at e" "ce_fetched_at e \<le> now"
    using e(2) assms(2) by (auto simp: sorted_append)
  have plan: "key_plan v now kid (js_cache st) = (case jwks_find kid (ce_jwks e) of Some k \<Rightarrow> UseKey k | None \<Rightarrow> FailKid)"
    if "now < at + min (vf_ttl v) (vf_min_refetch v)"
    using that le e(1) by (auto simp: key_plan_def Let_def split: option.splits)
  then have "st' = st" if "now < at + min (vf_ttl v) (vf_min_refetch v)"
    using that assms(3) by (auto split: option.splits)
  then show ?thesis using plan e(1) le(1)
    by (cases "now < at + min (vf_ttl v) (vf_min_refetch v)") (simp_all add: not_less)
qed

theorem jwks_fetches_spaced_witness:
  "let v = verifier_google ''c''; acts = [LookUp 0 ''x'', LookUp 3 ''y'', Answered 0 5 [demo_key], Answered 0 7 [demo_key]]
   in \<exists>st. jwks_run v acts \<lparr>js_cache = None, js_waiting = []\<rparr> = Some st \<and> jwks_step v (LookUp 60004 ''z'') st = Some st \<and>
        key_plan v 60004 ''z'' (js_cache st) = FailKid"
proof -
  let ?v = "verifier_google ''c''" and ?e = "\<lparr>ce_jwks = [demo_key], ce_fetched_at = 7\<rparr>"
  let ?acts = "[LookUp 0 ''x'', LookUp 3 ''y'', Answered 0 5 [demo_key]] @ Answered 0 7 [demo_key] # []"
  let ?st = "\<lparr>js_cache = Some ?e, js_waiting = []\<rparr>"
  have m: "vf_ttl ?v = 3600000" "vf_min_refetch ?v = 60000"
    by (simp_all add: verifier_google_def verifier_custom_def DEFAULT_JWKS_TTL_def DEFAULT_MIN_REFETCH_def)
  have r: "jwks_run ?v ?acts \<lparr>js_cache = None, js_waiting = []\<rparr> = Some ?st"
    by (simp add: key_plan_def drop_nth_def)
  have n: "jwks_find ''z'' [demo_key] = None" by (simp add: jwks_find_def demo_key_def)
  have l: "jwks_step ?v (LookUp 60004 ''z'') ?st = Some ?st" by (simp add: key_plan_def n m)
  have "key_plan ?v 60004 ''z'' (js_cache ?st) = FailKid"
    using jwks_fetches_spaced [OF r _ l] n m by simp
  with r l show ?thesis by (simp add: Let_def)
qed

end
