(* ===== verification/JC_Storage.thy ===== *)
theory JC_Storage
  imports JC_Auth JC_Http
begin

text \<open>
  Object storage, \<open>jerrycan-storage/src\<close>: key validation and the blob-store contract (\<open>store.rs\<close>), signed
  URLs (\<open>sign.rs\<close>), the metadata rows (\<open>meta.rs\<close>) and the service (\<open>lib.rs\<close>).

  A blob store is a record of operations on its state; what the service relies on is the locale
  \<open>blob_store\<close>, interpreted on \<open>MemoryStore\<close>. The table \<open>storage_objects\<close> is the list of its rows, and a
  statement is what it says on that list; a failing insert is an argument, the other statements succeed. The steps of an upload are
  definitions of their own, because two uploads interleave between them.
\<close>

unbundle bit_operations_syntax

section \<open>Keys\<close>

definition key_char :: "char \<Rightarrow> bool" where
  "key_char c \<longleftrightarrow> byte_in 48 57 c \<or> byte_in 65 90 c \<or> byte_in 97 122 c \<or> c \<in> {CHR ''-'', CHR ''_'', CHR ''.'', CHR ''/''}"

definition valid_key :: "str \<Rightarrow> bool" where
  "valid_key key \<longleftrightarrow> key \<noteq> [] \<and> length key \<le> 1024 \<and> hd key \<noteq> CHR ''/'' \<and> last key \<noteq> CHR ''/'' \<and>
     \<not> list_ex (\<lambda>seg. seg = [] \<or> seg = ''.'' \<or> seg = ''..'') (split_on CHR ''/'' key) \<and> list_all key_char key"

definition validate_key :: "str \<Rightarrow> (error, unit) result" where
  "validate_key key =
     (if valid_key key then Ok ()
      else Err (bad_request (''storage: invalid object key `'' @ key @ ''` '' @ map char_of [226 :: nat, 128, 148] @
        '' allowed [A-Za-z0-9._/-], no empty/./.. segments, no leading or trailing slash'')))"

definition internal_storage_error :: error where "internal_storage_error = internal ''storage error''"

text \<open>\<open>root.join(bucket).join(key)\<close>, as path components under the root.\<close>

definition path_for :: "str list \<Rightarrow> str \<Rightarrow> str \<Rightarrow> (error, str list) result" where
  "path_for root bucket key =
     bind_result (validate_key key) (\<lambda>_. Ok (root @ [bucket] @ split_on CHR ''/'' key))"

section \<open>Blob stores\<close>

record 'st blob_ops =
  b_put :: "str \<Rightarrow> str \<Rightarrow> bytes \<Rightarrow> str \<Rightarrow> 'st \<Rightarrow> (error, unit) result \<times> 'st"
  b_get :: "str \<Rightarrow> str \<Rightarrow> 'st \<Rightarrow> (error, bytes) result"
  b_delete :: "str \<Rightarrow> str \<Rightarrow> 'st \<Rightarrow> (error, unit) result \<times> 'st"
  b_presign :: "str \<Rightarrow> str \<Rightarrow> nat \<Rightarrow> 'st \<Rightarrow> (error, str option) result"

type_synonym mem_blobs = "str \<times> str \<Rightarrow> bytes option"

definition memory_ops :: "mem_blobs blob_ops" where
  "memory_ops = \<lparr>
     b_put = (\<lambda>bucket key body mime m.
       case validate_key key of Err e \<Rightarrow> (Err e, m) | Ok _ \<Rightarrow> (Ok (), m((bucket, key) \<mapsto> body))),
     b_get = (\<lambda>bucket key m. case m (bucket, key) of None \<Rightarrow> Err not_found | Some b \<Rightarrow> Ok b),
     b_delete = (\<lambda>bucket key m. (Ok (), m((bucket, key) := None))),
     b_presign = (\<lambda>bucket key ttl m. Ok None)\<rparr>"

text \<open>The file system, as the standard library shows it, and \<open>LocalStore\<close> on it.\<close>

datatype io_error = IoNotFound | IoOther

record 'f fs_lib =
  fs_create_dir_all :: "str list \<Rightarrow> 'f \<Rightarrow> (io_error, unit) result \<times> 'f"
  fs_write :: "str list \<Rightarrow> bytes \<Rightarrow> 'f \<Rightarrow> (io_error, unit) result \<times> 'f"
  fs_read :: "str list \<Rightarrow> 'f \<Rightarrow> (io_error, bytes) result"
  fs_remove_file :: "str list \<Rightarrow> 'f \<Rightarrow> (io_error, unit) result \<times> 'f"

definition map_io :: "(io_error, 'a) result \<Rightarrow> (error, 'a) result" where
  "map_io r = (case r of Ok v \<Rightarrow> Ok v | Err _ \<Rightarrow> Err internal_storage_error)"

definition local_put :: "'f fs_lib \<Rightarrow> str list \<Rightarrow> str \<Rightarrow> str \<Rightarrow> bytes \<Rightarrow> str \<Rightarrow> 'f \<Rightarrow> (error, unit) result \<times> 'f" where
  "local_put fs root bucket key body mime st =
     (case path_for root bucket key of
        Err e \<Rightarrow> (Err e, st)
      | Ok path \<Rightarrow>
          (case fs_create_dir_all fs (butlast path) st of
             (Err e, st1) \<Rightarrow> (map_io (Err e), st1)
           | (Ok _, st1) \<Rightarrow> (case fs_write fs path body st1 of (r, st2) \<Rightarrow> (map_io r, st2))))"

definition local_get :: "'f fs_lib \<Rightarrow> str list \<Rightarrow> str \<Rightarrow> str \<Rightarrow> 'f \<Rightarrow> (error, bytes) result" where
  "local_get fs root bucket key st =
     bind_result (path_for root bucket key) (\<lambda>path.
       case fs_read fs path st of
         Ok b \<Rightarrow> Ok b
       | Err IoNotFound \<Rightarrow> Err not_found
       | Err IoOther \<Rightarrow> Err internal_storage_error)"

definition local_delete :: "'f fs_lib \<Rightarrow> str list \<Rightarrow> str \<Rightarrow> str \<Rightarrow> 'f \<Rightarrow> (error, unit) result \<times> 'f" where
  "local_delete fs root bucket key st =
     (case path_for root bucket key of
        Err e \<Rightarrow> (Err e, st)
      | Ok path \<Rightarrow>
          (case fs_remove_file fs path st of
             (Ok _, st1) \<Rightarrow> (Ok (), st1)
           | (Err IoNotFound, st1) \<Rightarrow> (Ok (), st1)
           | (Err IoOther, st1) \<Rightarrow> (Err internal_storage_error, st1)))"

definition local_ops :: "'f fs_lib \<Rightarrow> str list \<Rightarrow> 'f blob_ops" where
  "local_ops fs root = \<lparr>b_put = local_put fs root, b_get = local_get fs root, b_delete = local_delete fs root,
     b_presign = (\<lambda>bucket key ttl st. Ok None)\<rparr>"

section \<open>Signed URLs\<close>

definition mac_for :: "crypto \<Rightarrow> bytes \<Rightarrow> str \<Rightarrow> str \<Rightarrow> nat \<Rightarrow> bytes" where
  "mac_for cr key bucket object_id exp_unix = hmac_sha256 cr key (bucket @ ''|'' @ object_id @ ''|'' @ show_nat exp_unix)"

definition url_sign :: "crypto \<Rightarrow> bytes \<Rightarrow> str \<Rightarrow> str \<Rightarrow> nat \<Rightarrow> str" where
  "url_sign cr key bucket object_id exp_unix = hex_encode (mac_for cr key bucket object_id exp_unix)"

definition url_verify :: "crypto \<Rightarrow> bytes \<Rightarrow> str \<Rightarrow> str \<Rightarrow> nat \<Rightarrow> str \<Rightarrow> nat \<Rightarrow> bool" where
  "url_verify cr key bucket object_id exp_unix sig_hex now_unix =
     (if exp_unix \<le> now_unix then False
      else (case hex_decode sig_hex of
              None \<Rightarrow> False
            | Some s \<Rightarrow> mac_for cr key bucket object_id exp_unix = s))"

section \<open>Metadata\<close>

record object_meta =
  om_id :: str
  om_bucket :: str
  om_key :: str
  om_owner :: "str option"
  om_tenant :: "str option"
  om_size :: int
  om_mime :: str
  om_checksum :: str
  om_created_at :: int

record scope =
  sc_owner :: "str option"
  sc_tenant :: "str option"

definition scope_default :: scope where "scope_default = \<lparr>sc_owner = None, sc_tenant = None\<rparr>"

text \<open>A version 4 UUID from 16 random bytes.\<close>

definition uuid_bytes :: "bytes \<Rightarrow> bytes" where
  "uuid_bytes b = b[6 := char_of ((of_char (b ! 6) AND 0x0F) OR 0x40 :: nat),
                    8 := char_of ((of_char (b ! 8) AND 0x3F) OR 0x80 :: nat)]"

definition new_object_id :: "bytes \<Rightarrow> str" where
  "new_object_id random =
     (let h = hex_encode (uuid_bytes random) in
      take 8 h @ ''-'' @ take 4 (drop 8 h) @ ''-'' @ take 4 (drop 12 h) @ ''-'' @ take 4 (drop 16 h) @ ''-'' @ take 12 (drop 20 h))"

definition scope_matches :: "scope \<Rightarrow> object_meta \<Rightarrow> bool" where
  "scope_matches sc r \<longleftrightarrow>
     (case sc_owner sc of None \<Rightarrow> True | Some owner \<Rightarrow> om_owner r = Some owner) \<and>
     (case sc_tenant sc of None \<Rightarrow> True | Some tenant \<Rightarrow> om_tenant r = Some tenant)"

definition unique_violation :: error where
  "unique_violation = conflict ''conflict: a row with this key already exists''"

text \<open>The primary key and the unique index on bucket and key; \<open>fault\<close> is another failure of the statement.\<close>

definition insert_row :: "error option \<Rightarrow> object_meta \<Rightarrow> object_meta list \<Rightarrow> (error, unit) result \<times> object_meta list" where
  "insert_row fault m rows =
     (case fault of
        Some e \<Rightarrow> (Err e, rows)
      | None \<Rightarrow>
          if list_ex (\<lambda>r. om_id r = om_id m \<or> om_bucket r = om_bucket m \<and> om_key r = om_key m) rows
          then (Err unique_violation, rows)
          else (Ok (), rows @ [m]))"

definition key_exists :: "str \<Rightarrow> str \<Rightarrow> object_meta list \<Rightarrow> bool" where
  "key_exists bucket key rows = list_ex (\<lambda>r. om_bucket r = bucket \<and> om_key r = key) rows"

definition get_scoped :: "str \<Rightarrow> str \<Rightarrow> scope \<Rightarrow> object_meta list \<Rightarrow> object_meta option" where
  "get_scoped bucket i sc rows = List.find (\<lambda>r. om_bucket r = bucket \<and> om_id r = i \<and> scope_matches sc r) rows"

definition list_scoped :: "str \<Rightarrow> scope \<Rightarrow> object_meta list \<Rightarrow> object_meta list" where
  "list_scoped bucket sc rows = sort_key om_key (filter (\<lambda>r. om_bucket r = bucket \<and> scope_matches sc r) rows)"

definition delete_row :: "str \<Rightarrow> str \<Rightarrow> object_meta list \<Rightarrow> object_meta list" where
  "delete_row bucket i rows = filter (\<lambda>r. \<not> (om_bucket r = bucket \<and> om_id r = i)) rows"

section \<open>Buckets\<close>

record bucket =
  bk_name :: str
  bk_public :: bool
  bk_owner_prefix :: bool
  bk_max_size :: nat
  bk_allowed_mime :: "str list"
  bk_mount_prefix :: str

definition mime_base :: "str \<Rightarrow> str" where
  "mime_base mime = to_ascii_lowercase (trim (hd (split_on CHR '';'' mime)))"

definition strip_glob :: "str \<Rightarrow> str option" where
  "strip_glob pat = (if 2 \<le> length pat \<and> drop (length pat - 2) pat = ''/*'' then Some (take (length pat - 2) pat) else None)"

definition allows_mime :: "bucket \<Rightarrow> str \<Rightarrow> bool" where
  "allows_mime bk mime =
     (if bk_allowed_mime bk = [] then True
      else list_ex (\<lambda>pat0. let pat = to_ascii_lowercase pat0 in
        if pat = ''*/*'' then True
        else (case strip_glob pat of
                Some prefix \<Rightarrow> hd (split_on CHR ''/'' (mime_base mime)) = prefix
              | None \<Rightarrow> mime_base mime = pat)) (bk_allowed_mime bk))"

definition assert_prefix :: "bucket \<Rightarrow> scope option \<Rightarrow> object_meta \<Rightarrow> (error, unit) result" where
  "assert_prefix bk sc m =
     (if \<not> bk_owner_prefix bk then Ok ()
      else (case Option.bind sc sc_owner of
              None \<Rightarrow> Ok ()
            | Some owner \<Rightarrow> if hd (split_on CHR ''/'' (om_key m)) = owner then Ok () else Err not_found))"

section \<open>The service\<close>

record 'st world =
  w_rows :: "object_meta list"
  w_blobs :: 'st

record 'st storage =
  so_ops :: "'st blob_ops"
  so_sign_key :: "bytes option"

definition with_store :: "'st blob_ops \<Rightarrow> 'st storage" where
  "with_store ops = \<lparr>so_ops = ops, so_sign_key = None\<rparr>"

definition with_sign_secret :: "str \<Rightarrow> 'st storage \<Rightarrow> 'st storage" where
  "with_sign_secret secret s = s\<lparr>so_sign_key := Some secret\<rparr>"

definition sign_key :: "'st storage \<Rightarrow> (error, bytes) result" where
  "sign_key s = (case so_sign_key s of Some k \<Rightarrow> Ok k | None \<Rightarrow> Err signing_unconfigured)"

text \<open>Upload, first part: what is decided before anything is read or written.\<close>

definition put_prepare ::
    "crypto \<Rightarrow> bytes \<Rightarrow> int \<Rightarrow> bucket \<Rightarrow> scope \<Rightarrow> str \<Rightarrow> str \<Rightarrow> bytes \<Rightarrow> (error, object_meta) result" where
  "put_prepare cr random now bk sc key mime body =
     bind_result (validate_key key) (\<lambda>_.
       if bk_max_size bk < length body then Err payload_too_large
       else
         (let base = mime_base mime; mime' = (if base = [] then ''application/octet-stream'' else base) in
          if \<not> allows_mime bk mime' then Err unsupported_media_type
          else
            bind_result
              (if bk_owner_prefix bk
               then (case sc_owner sc of
                       None \<Rightarrow> Err (internal ''storage: owner_prefix bucket used without an owner scope'')
                     | Some owner \<Rightarrow> Ok (owner @ ''/'' @ key))
               else Ok key)
              (\<lambda>key'. Ok \<lparr>om_id = new_object_id random, om_bucket = bk_name bk, om_key = key', om_owner = sc_owner sc,
                 om_tenant = sc_tenant sc, om_size = int (length body), om_mime = mime',
                 om_checksum = hex_encode (sha256 cr body), om_created_at = now\<rparr>)))"

text \<open>Then the duplicate check, the blob, and the row with its compensation.\<close>

definition put_check :: "object_meta \<Rightarrow> 'st world \<Rightarrow> (error, unit) result" where
  "put_check m w =
     (if key_exists (om_bucket m) (om_key m) (w_rows w) then Err unique_violation else Ok ())"

definition put_blob :: "'st storage \<Rightarrow> object_meta \<Rightarrow> bytes \<Rightarrow> 'st world \<Rightarrow> (error, unit) result \<times> 'st world" where
  "put_blob s m body w =
     (case b_put (so_ops s) (om_bucket m) (om_key m) body (om_mime m) (w_blobs w) of
        (r, st) \<Rightarrow> (r, w\<lparr>w_blobs := st\<rparr>))"

definition put_row :: "'st storage \<Rightarrow> error option \<Rightarrow> object_meta \<Rightarrow> 'st world \<Rightarrow> (error, object_meta) result \<times> 'st world" where
  "put_row s fault m w =
     (case insert_row fault m (w_rows w) of
        (Ok _, rows) \<Rightarrow> (Ok m, w\<lparr>w_rows := rows\<rparr>)
      | (Err e, _) \<Rightarrow>
          (Err e, if code e \<noteq> ''JC0409''
                  then w\<lparr>w_blobs := snd (b_delete (so_ops s) (om_bucket m) (om_key m) (w_blobs w))\<rparr>
                  else w))"

definition put_object ::
    "crypto \<Rightarrow> 'st storage \<Rightarrow> error option \<Rightarrow> bytes \<Rightarrow> int \<Rightarrow> bucket \<Rightarrow> scope \<Rightarrow> str \<Rightarrow> str \<Rightarrow> bytes \<Rightarrow> 'st world \<Rightarrow>
       (error, object_meta) result \<times> 'st world" where
  "put_object cr s fault random now bk sc key mime body w =
     (case put_prepare cr random now bk sc key mime body of
        Err e \<Rightarrow> (Err e, w)
      | Ok m \<Rightarrow>
          (case put_check m w of
             Err e \<Rightarrow> (Err e, w)
           | Ok _ \<Rightarrow>
               (case put_blob s m body w of
                  (Err e, w') \<Rightarrow> (Err e, w')
                | (Ok _, w') \<Rightarrow> put_row s fault m w')))"

definition scope_or_default :: "scope option \<Rightarrow> scope" where
  "scope_or_default sc = (case sc of None \<Rightarrow> scope_default | Some x \<Rightarrow> x)"

definition get_object ::
    "'st storage \<Rightarrow> bucket \<Rightarrow> scope option \<Rightarrow> str \<Rightarrow> 'st world \<Rightarrow> (error, object_meta \<times> bytes) result" where
  "get_object s bk sc i w =
     (case get_scoped (bk_name bk) i (scope_or_default sc) (w_rows w) of
        None \<Rightarrow> Err not_found
      | Some m \<Rightarrow>
          bind_result (assert_prefix bk sc m) (\<lambda>_.
            bind_result (b_get (so_ops s) (bk_name bk) (om_key m) (w_blobs w)) (\<lambda>b. Ok (m, b))))"

definition list_objects :: "bucket \<Rightarrow> scope option \<Rightarrow> 'st world \<Rightarrow> (error, object_meta list) result" where
  "list_objects bk sc w = Ok (list_scoped (bk_name bk) (scope_or_default sc) (w_rows w))"

text \<open>Deletion: the look-up, the row, the blob.\<close>

definition delete_find :: "bucket \<Rightarrow> scope \<Rightarrow> str \<Rightarrow> 'st world \<Rightarrow> (error, object_meta) result" where
  "delete_find bk sc i w =
     (case get_scoped (bk_name bk) i sc (w_rows w) of
        None \<Rightarrow> Err not_found
      | Some m \<Rightarrow> bind_result (assert_prefix bk (Some sc) m) (\<lambda>_. Ok m))"

definition delete_meta :: "bucket \<Rightarrow> str \<Rightarrow> 'st world \<Rightarrow> 'st world" where
  "delete_meta bk i w = w\<lparr>w_rows := delete_row (bk_name bk) i (w_rows w)\<rparr>"

definition delete_blob :: "'st storage \<Rightarrow> bucket \<Rightarrow> object_meta \<Rightarrow> 'st world \<Rightarrow> (error, unit) result \<times> 'st world" where
  "delete_blob s bk m w =
     (case b_delete (so_ops s) (bk_name bk) (om_key m) (w_blobs w) of (r, st) \<Rightarrow> (r, w\<lparr>w_blobs := st\<rparr>))"

definition delete_object :: "'st storage \<Rightarrow> bucket \<Rightarrow> scope \<Rightarrow> str \<Rightarrow> 'st world \<Rightarrow> (error, unit) result \<times> 'st world" where
  "delete_object s bk sc i w =
     (case delete_find bk sc i w of
        Err e \<Rightarrow> (Err e, w)
      | Ok m \<Rightarrow> delete_blob s bk m (delete_meta bk i w))"

record signed_url =
  su_url :: str
  su_expires_at :: nat

definition clamp :: "nat \<Rightarrow> nat \<Rightarrow> nat \<Rightarrow> nat" where "clamp lo hi x = max lo (min hi x)"

definition sign_object ::
    "crypto \<Rightarrow> 'st storage \<Rightarrow> bucket \<Rightarrow> scope \<Rightarrow> str \<Rightarrow> nat \<Rightarrow> nat \<Rightarrow> 'st world \<Rightarrow> (error, signed_url) result" where
  "sign_object cr s bk sc i ttl_secs now w =
     (let ttl = clamp 1 86400 ttl_secs in
      case get_scoped (bk_name bk) i sc (w_rows w) of
        None \<Rightarrow> Err not_found
      | Some m \<Rightarrow>
          bind_result (assert_prefix bk (Some sc) m) (\<lambda>_.
            bind_result (b_presign (so_ops s) (bk_name bk) (om_key m) ttl (w_blobs w)) (\<lambda>native.
              case native of
                Some url \<Rightarrow> Ok \<lparr>su_url = url, su_expires_at = now + ttl\<rparr>
              | None \<Rightarrow>
                  bind_result (sign_key s) (\<lambda>k.
                    Ok \<lparr>su_url = bk_mount_prefix bk @ ''/'' @ bk_name bk @ ''/'' @ i @ ''?exp='' @ show_nat (now + ttl) @
                          ''&sig='' @ url_sign cr k (bk_name bk) i (now + ttl),
                        su_expires_at = now + ttl\<rparr>))))"

definition get_signed ::
    "crypto \<Rightarrow> 'st storage \<Rightarrow> bucket \<Rightarrow> str \<Rightarrow> nat \<Rightarrow> str \<Rightarrow> nat \<Rightarrow> 'st world \<Rightarrow> (error, object_meta \<times> bytes) result" where
  "get_signed cr s bk i exp_unix sig now w =
     bind_result (sign_key s) (\<lambda>k.
       if \<not> url_verify cr k (bk_name bk) i exp_unix sig now then Err unauthorized
       else (case get_scoped (bk_name bk) i scope_default (w_rows w) of
               None \<Rightarrow> Err not_found
             | Some m \<Rightarrow>
                 bind_result (b_get (so_ops s) (bk_name bk) (om_key m) (w_blobs w)) (\<lambda>b. Ok (m, b))))"

definition object_response :: "'h http_lib \<Rightarrow> object_meta \<Rightarrow> bytes \<Rightarrow> bool \<Rightarrow> (error, 'h response) result" where
  "object_response lib m b public =
     (let hs = [(''content-type'', om_mime m), (''etag'', [CHR 0x22] @ om_checksum m @ [CHR 0x22]),
          (''cache-control'', if public then ''public, max-age=3600'' else ''private, no-store''),
          (''x-content-type-options'', ''nosniff''),
          (''content-disposition'', ''attachment; filename='' @ [CHR 0x22] @ om_id m @ [CHR 0x22])] in
      if list_all (\<lambda>(_, v). hv_from_str lib v \<noteq> None) hs
      then Ok ((response_new lib (body_full b))\<lparr>r_headers := foldl (\<lambda>h (n, v). hm_append lib n v h) (hm_new lib) hs\<rparr>)
      else Err (internal ''storage: building object response: failed to parse header value''))"

datatype backend = BackendLocal str | BackendS3 str

text \<open>The configuration: which backend, and whether there is a signing secret. \<open>s3\<close> says whether the S3 backend
  is compiled in and accepts the URL.\<close>

definition from_config :: "(str \<Rightarrow> (error, unit) result) option \<Rightarrow> str \<Rightarrow> str option \<Rightarrow> (error, backend \<times> str option) result" where
  "from_config s3 url secret =
     bind_result
       (case strip_str ''local:'' url of
          Some root \<Rightarrow> Ok (BackendLocal root)
        | None \<Rightarrow>
            if strip_str ''s3://'' url \<noteq> None
            then (case s3 of
                    Some check \<Rightarrow> bind_result (check url) (\<lambda>_. Ok (BackendS3 url))
                  | None \<Rightarrow> Err (internal (''JERRYCAN_STORAGE is s3://'' @ map char_of [226 :: nat, 128, 166] @
                      '' but the S3 backend is not compiled in '' @ map char_of [226 :: nat, 128, 148] @
                      '' enable the `storage-s3` facade feature'')))
            else Err (internal (''JERRYCAN_STORAGE: unrecognized value `'' @ url @ ''` '' @ map char_of [226 :: nat, 128, 148] @
              '' use local:<root> or s3://bucket?region='' @ map char_of [226 :: nat, 128, 166] @ ''&endpoint='' @ map char_of [226 :: nat, 128, 166])))
       (\<lambda>b. Ok (b, secret))"

definition storage_from_env :: "(str \<Rightarrow> (error, unit) result) option \<Rightarrow> str option \<Rightarrow> str option \<Rightarrow> (error, backend \<times> str option) result" where
  "storage_from_env s3 url secret = from_config s3 (case url of None \<Rightarrow> ''local:./storage'' | Some u \<Rightarrow> u) secret"

section \<open>The contract of a blob store\<close>

text \<open>
  What the service needs: a put that succeeded reads back, and an operation on one path leaves the bytes
  readable at every other one. An operation that fails promises nothing about its own path.
\<close>

locale blob_store =
  fixes ops :: "'st blob_ops"
  assumes put_reads_back: "b_put ops bucket key body mime st = (Ok (), st') \<Longrightarrow> b_get ops bucket key st' = Ok body"
    and put_keeps: "b_put ops bucket key body mime st = (res, st') \<Longrightarrow> b_get ops bu' ke' st = Ok b \<Longrightarrow>
      (bu', ke') \<noteq> (bucket, key) \<Longrightarrow> b_get ops bu' ke' st' = Ok b"
    and delete_keeps: "b_delete ops bucket key st = (res, st') \<Longrightarrow> b_get ops bu' ke' st = Ok b \<Longrightarrow>
      (bu', ke') \<noteq> (bucket, key) \<Longrightarrow> b_get ops bu' ke' st' = Ok b"
begin

lemma put_keeps_snd: "b_get ops bu' ke' st = Ok b \<Longrightarrow> (bu', ke') \<noteq> (bucket, key) \<Longrightarrow>
    b_get ops bu' ke' (snd (b_put ops bucket key body mime st)) = Ok b"
  by (metis put_keeps prod.collapse)

lemma delete_keeps_snd: "b_get ops bu' ke' st = Ok b \<Longrightarrow> (bu', ke') \<noteq> (bucket, key) \<Longrightarrow>
    b_get ops bu' ke' (snd (b_delete ops bucket key st)) = Ok b"
  by (metis delete_keeps prod.collapse)

end

text \<open>A store that also works: no failures on valid keys, and deletion removes.\<close>

locale working_store = blob_store +
  assumes put_works: "valid_key key \<Longrightarrow> fst (b_put ops bucket key body mime st) = Ok ()"
    and delete_works: "valid_key key \<Longrightarrow> fst (b_delete ops bucket key st) = Ok ()"
    and delete_removes: "b_delete ops bucket key st = (Ok (), st') \<Longrightarrow> b_get ops bucket key st' = Err not_found"

lemma validate_key_Ok: "validate_key key = Ok u \<longleftrightarrow> valid_key key"
  by (simp add: validate_key_def)

lemma validate_valid: "valid_key key \<Longrightarrow> validate_key key = Ok ()"
  by (simp add: validate_key_def)

interpretation mem_store: working_store memory_ops
  by unfold_locales (auto simp: memory_ops_def validate_valid split: sum.splits if_splits)

text \<open>Documented behaviour of the file system: a write reads back, creating directories does not change what
  reads, and writing or removing one file leaves the others. With it, \<open>LocalStore\<close> keeps the contract too.\<close>

definition fs_laws :: "'f fs_lib \<Rightarrow> bool" where
  "fs_laws fs \<longleftrightarrow>
     (\<forall>p b st st'. fs_write fs p b st = (Ok (), st') \<longrightarrow> fs_read fs p st' = Ok b) \<and>
     (\<forall>p b q c st. fs_read fs q st = Ok c \<longrightarrow> q \<noteq> p \<longrightarrow> fs_read fs q (snd (fs_write fs p b st)) = Ok c) \<and>
     (\<forall>p q c st. fs_read fs q st = Ok c \<longrightarrow> fs_read fs q (snd (fs_create_dir_all fs p st)) = Ok c) \<and>
     (\<forall>p q c st. fs_read fs q st = Ok c \<longrightarrow> q \<noteq> p \<longrightarrow> fs_read fs q (snd (fs_remove_file fs p st)) = Ok c)"

lemma split_on_inj: "split_on c a = split_on c b \<Longrightarrow> a = b"
proof (induction a arbitrary: b)
  case Nil
  then show ?case by (cases b) (auto split: list.splits if_splits)
next
  case (Cons x xs)
  then show ?case by (cases b) (auto split: list.splits if_splits)
qed

lemma split_on_set: "x \<in> set p \<Longrightarrow> p \<in> set (split_on c s) \<Longrightarrow> x \<in> set s"
proof (induction s arbitrary: p)
  case (Cons y s)
  obtain q qs where q: "split_on c s = q # qs" by (cases "split_on c s") simp_all
  show ?case
  proof (cases "y = c")
    case True
    then show ?thesis using Cons by auto
  next
    case False
    then consider "p = y # q" | "p \<in> set qs" using Cons.prems q by auto
    then show ?thesis using Cons.prems(1) Cons.IH [of q] Cons.IH [of p] by cases (auto simp: q)
  qed
qed simp

lemma path_for_inj: "path_for root bu ke = Ok p \<Longrightarrow> path_for root bu' ke' = Ok p \<Longrightarrow> (bu', ke') = (bu, ke)"
  by (auto simp: path_for_def bind_result_Ok dest: split_on_inj)

lemma local_get_Ok: "local_get fs root bu ke st = Ok b \<longleftrightarrow> (\<exists>p. path_for root bu ke = Ok p \<and> fs_read fs p st = Ok b)"
proof (cases "path_for root bu ke")
  case (Inr p)
  then show ?thesis by (cases "fs_read fs p st") (auto simp: local_get_def split: io_error.splits)
qed (simp add: local_get_def)

lemma local_store_contract:
  assumes "fs_laws fs"
  shows "blob_store (local_ops fs root)"
proof unfold_locales
  note laws = assms [unfolded fs_laws_def]
  fix bucket key body mime st st'
  assume "b_put (local_ops fs root) bucket key body mime st = (Ok (), st')"
  then show "b_get (local_ops fs root) bucket key st' = Ok body"
    using laws by (auto simp: local_ops_def local_put_def local_get_Ok map_io_def split: sum.splits prod.splits)
next
  note laws = assms [unfolded fs_laws_def]
  fix bucket key body mime st res st' bu' ke' b
  assume p: "b_put (local_ops fs root) bucket key body mime st = (res, st')"
    and g: "b_get (local_ops fs root) bu' ke' st = Ok b" and n: "(bu', ke') \<noteq> (bucket, key)"
  from g obtain q where q: "path_for root bu' ke' = Ok q" "fs_read fs q st = Ok b"
    by (auto simp: local_ops_def local_get_Ok)
  have "fs_read fs q st' = Ok b"
  proof (cases "path_for root bucket key")
    case (Inl e)
    then show ?thesis using p q by (simp add: local_ops_def local_put_def)
  next
    case (Inr path)
    then have "q \<noteq> path" using n path_for_inj [OF _ q(1)] by auto
    moreover have "fs_read fs q (snd (fs_create_dir_all fs (butlast path) st)) = Ok b" using laws q by blast
    ultimately show ?thesis using p Inr laws
      by (auto simp: local_ops_def local_put_def split: sum.splits prod.splits) (metis snd_conv)+
  qed
  with q show "b_get (local_ops fs root) bu' ke' st' = Ok b" by (auto simp: local_ops_def local_get_Ok)
next
  note laws = assms [unfolded fs_laws_def]
  fix bucket key st res st' bu' ke' b
  assume p: "b_delete (local_ops fs root) bucket key st = (res, st')"
    and g: "b_get (local_ops fs root) bu' ke' st = Ok b" and n: "(bu', ke') \<noteq> (bucket, key)"
  from g obtain q where q: "path_for root bu' ke' = Ok q" "fs_read fs q st = Ok b"
    by (auto simp: local_ops_def local_get_Ok)
  have "fs_read fs q st' = Ok b"
  proof (cases "path_for root bucket key")
    case (Inl e)
    then show ?thesis using p q by (simp add: local_ops_def local_delete_def)
  next
    case (Inr path)
    then have "q \<noteq> path" using n path_for_inj [OF _ q(1)] by auto
    then have "fs_read fs q (snd (fs_remove_file fs path st)) = Ok b" using laws q by blast
    then show ?thesis using p Inr
      by (auto simp: local_ops_def local_delete_def split: sum.splits prod.splits io_error.splits)
  qed
  with q show "b_get (local_ops fs root) bu' ke' st' = Ok b" by (auto simp: local_ops_def local_get_Ok)
qed

text \<open>Keys become paths: the components under the bucket are ordinary names.\<close>

lemma path_for_safe:
  assumes "path_for root bucket key = Ok p"
  shows "\<exists>parts. p = root @ bucket # parts \<and> parts \<noteq> [] \<and> (\<forall>c \<in> set parts. c \<noteq> [] \<and> c \<noteq> ''.'' \<and> c \<noteq> ''..'' \<and> list_all key_char c \<and> CHR ''/'' \<notin> set c)"
proof -
  have v: "valid_key key" and p: "p = root @ bucket # split_on CHR ''/'' key"
    using assms by (auto simp: path_for_def bind_result_Ok validate_key_Ok)
  have "list_all key_char c" if "c \<in> set (split_on CHR ''/'' key)" for c
    using v split_on_set [OF _ that] by (auto simp: valid_key_def list_all_iff)
  moreover have "c \<noteq> [] \<and> c \<noteq> ''.'' \<and> c \<noteq> ''..''" if "c \<in> set (split_on CHR ''/'' key)" for c
    using v that by (auto simp: valid_key_def list_ex_iff)
  ultimately show ?thesis using p by (auto dest: split_on_pieces)
qed

section \<open>Rows and bytes agree\<close>

definition row_backed :: "crypto \<Rightarrow> 'st blob_ops \<Rightarrow> 'st \<Rightarrow> object_meta \<Rightarrow> bool" where
  "row_backed cr ops st r \<longleftrightarrow>
     (\<exists>b. b_get ops (om_bucket r) (om_key r) st = Ok b \<and> om_size r = int (length b) \<and> om_checksum r = hex_encode (sha256 cr b))"

definition storage_ok :: "crypto \<Rightarrow> 'st storage \<Rightarrow> 'st world \<Rightarrow> bool" where
  "storage_ok cr s w \<longleftrightarrow>
     distinct (map om_id (w_rows w)) \<and> distinct (map (\<lambda>r. (om_bucket r, om_key r)) (w_rows w)) \<and>
     (\<forall>r \<in> set (w_rows w). row_backed cr (so_ops s) (w_blobs w) r)"

lemma row_backedI [intro]:
  "b_get ops (om_bucket r) (om_key r) st = Ok b \<Longrightarrow> om_size r = int (length b) \<Longrightarrow>
     om_checksum r = hex_encode (sha256 cr b) \<Longrightarrow> row_backed cr ops st r"
  by (auto simp: row_backed_def)

lemma row_backed_put:
  "blob_store ops \<Longrightarrow> row_backed cr ops st r \<Longrightarrow> (om_bucket r, om_key r) \<noteq> (bu, ke) \<Longrightarrow>
     row_backed cr ops (snd (b_put ops bu ke body mime st)) r"
  unfolding row_backed_def by (blast intro: blob_store.put_keeps_snd)

lemma row_backed_delete:
  "blob_store ops \<Longrightarrow> row_backed cr ops st r \<Longrightarrow> (om_bucket r, om_key r) \<noteq> (bu, ke) \<Longrightarrow>
     row_backed cr ops (snd (b_delete ops bu ke st)) r"
  unfolding row_backed_def by (blast intro: blob_store.delete_keeps_snd)

text \<open>What an upload that passes its checks has decided.\<close>

lemma put_prepare_Ok:
  assumes "put_prepare cr random now bk sc key mime body = Ok m"
  shows "valid_key key \<and> length body \<le> bk_max_size bk \<and> om_id m = new_object_id random \<and> om_bucket m = bk_name bk \<and>
    om_owner m = sc_owner sc \<and> om_tenant m = sc_tenant sc \<and> om_size m = int (length body) \<and>
    om_checksum m = hex_encode (sha256 cr body) \<and> om_created_at m = now \<and> allows_mime bk (om_mime m) \<and>
    (if bk_owner_prefix bk then \<exists>owner. sc_owner sc = Some owner \<and> om_key m = owner @ ''/'' @ key else om_key m = key)"
  using assms
  by (auto simp: put_prepare_def bind_result_Ok validate_key_Ok Let_def split: if_splits option.splits)

lemma put_check_free: "put_check m w = Ok u \<Longrightarrow> r \<in> set (w_rows w) \<Longrightarrow> (om_bucket r, om_key r) \<noteq> (om_bucket m, om_key m)"
  by (auto simp: put_check_def key_exists_def list_ex_iff split: if_splits)

lemma put_row_cases:
  obtains "put_row s fault m w = (Ok m, w\<lparr>w_rows := w_rows w @ [m]\<rparr>)" "fault = None"
      "\<forall>r \<in> set (w_rows w). om_id r \<noteq> om_id m \<and> (om_bucket r, om_key r) \<noteq> (om_bucket m, om_key m)"
  | e where "put_row s fault m w = (Err e, w)"
  | e where "put_row s fault m w = (Err e, w\<lparr>w_blobs := snd (b_delete (so_ops s) (om_bucket m) (om_key m) (w_blobs w))\<rparr>)"
proof (cases fault)
  case None
  show ?thesis
  proof (cases "list_ex (\<lambda>r. om_id r = om_id m \<or> om_bucket r = om_bucket m \<and> om_key r = om_key m) (w_rows w)")
    case True
    then show ?thesis using that(2) [of unique_violation] None
      by (simp add: put_row_def insert_row_def unique_violation_def conflict_def error_new_def)
  next
    case False
    then show ?thesis using that(1) None by (auto simp: put_row_def insert_row_def list_ex_iff)
  qed
next
  case (Some e)
  then show ?thesis using that(2,3) [of e] by (cases "code e = ''JC0409''") (simp_all add: put_row_def insert_row_def)
qed

lemma put_object_ok:
  assumes bs: "blob_store (so_ops s)" and ok: "storage_ok cr s w"
  shows "storage_ok cr s (snd (put_object cr s fault random now bk sc key mime body w))"
proof (cases "put_prepare cr random now bk sc key mime body")
  case (Inl e)
  with ok show ?thesis by (simp add: put_object_def)
next
  case (Inr m)
  note m = put_prepare_Ok [OF Inr]
  show ?thesis
  proof (cases "put_check m w")
    case (Inl e)
    with ok Inr show ?thesis by (simp add: put_object_def)
  next
    case (Inr u)
    note free = put_check_free [OF Inr]
    obtain res st where put: "b_put (so_ops s) (om_bucket m) (om_key m) body (om_mime m) (w_blobs w) = (res, st)"
      by fastforce
    let ?w = "w\<lparr>w_blobs := st\<rparr>"
    have kept: "\<forall>r \<in> set (w_rows w). row_backed cr (so_ops s) st r"
      using ok row_backed_put [OF bs _ free] put by (metis storage_ok_def snd_conv)
    then have w: "storage_ok cr s ?w" using ok by (simp add: storage_ok_def)
    show ?thesis
    proof (cases res)
      case (Inl e)
      with w put Inr \<open>put_prepare _ _ _ _ _ _ _ _ = _\<close> show ?thesis by (simp add: put_object_def put_blob_def)
    next
      case (Inr u')
      have eq: "put_object cr s fault random now bk sc key mime body w = put_row s fault m ?w"
        using put Inr \<open>put_check m w = _\<close> \<open>put_prepare _ _ _ _ _ _ _ _ = _\<close> by (simp add: put_object_def put_blob_def)
      have new: "row_backed cr (so_ops s) st m"
        using blob_store.put_reads_back [OF bs] put Inr m by auto
      show ?thesis
      proof (cases rule: put_row_cases [of s fault m ?w])
        case 1
        then show ?thesis using w new eq by (auto simp: storage_ok_def image_iff)
      next
        case (2 e)
        then show ?thesis using w eq by simp
      next
        case (3 e)
        then show ?thesis using ok kept eq row_backed_delete [OF bs _ free] by (auto simp: storage_ok_def)
      qed
    qed
  qed
qed

lemma find_Some_set: "List.find P xs = Some x \<Longrightarrow> x \<in> set xs \<and> P x"
  by (induction xs) (auto split: if_splits)

lemma find_None_iff': "List.find P xs = None \<longleftrightarrow> (\<forall>x \<in> set xs. \<not> P x)"
  by (induction xs) auto

lemma get_scoped_Some:
  "get_scoped bu i sc rows = Some m \<Longrightarrow> m \<in> set rows \<and> om_bucket m = bu \<and> om_id m = i \<and> scope_matches sc m"
  unfolding get_scoped_def by (drule find_Some_set) simp

lemma find_unique:
  assumes "distinct (map f xs)" "x \<in> set xs" "P x" "\<And>y. P y \<Longrightarrow> f y = f x"
  shows "List.find P xs = Some x"
proof (cases "List.find P xs")
  case None
  with assms(2,3) find_None_iff' [of P xs] show ?thesis by blast
next
  case (Some y)
  then have y: "y \<in> set xs" "P y" by (simp_all add: find_Some_set)
  then have "y = x" using assms(1,2) assms(4) [OF y(2)] by (auto simp: distinct_map dest: inj_onD)
  with Some show ?thesis by simp
qed

lemma get_scoped_own:
  "storage_ok cr s w \<Longrightarrow> m \<in> set (w_rows w) \<Longrightarrow> scope_matches sc m \<Longrightarrow>
     get_scoped (om_bucket m) (om_id m) sc (w_rows w) = Some m"
  unfolding get_scoped_def by (rule find_unique [of om_id]) (auto simp: storage_ok_def)

lemma delete_find_Ok:
  "delete_find bk sc i w = Ok m \<Longrightarrow> m \<in> set (w_rows w) \<and> om_bucket m = bk_name bk \<and> om_id m = i \<and> scope_matches sc m"
  by (auto simp: delete_find_def bind_result_Ok dest: get_scoped_Some split: option.splits)

lemma distinct_pair_neq:
  "distinct (map f xs) \<Longrightarrow> x \<in> set xs \<Longrightarrow> y \<in> set xs \<Longrightarrow> x \<noteq> y \<Longrightarrow> f x \<noteq> f y"
  by (simp add: distinct_map inj_on_def) blast

lemma delete_object_rows:
  assumes "delete_find bk sc i w = Ok m" "storage_ok cr s w"
  shows "w_rows (snd (delete_object s bk sc i w)) = filter (\<lambda>r. r \<noteq> m) (w_rows w)"
    and "w_blobs (snd (delete_object s bk sc i w)) = snd (b_delete (so_ops s) (om_bucket m) (om_key m) (w_blobs w))"
proof -
  note m = delete_find_Ok [OF assms(1)]
  have "(om_bucket r = bk_name bk \<and> om_id r = i) = (r = m)" if "r \<in> set (w_rows w)" for r
    using that m assms(2) distinct_pair_neq [of om_id "w_rows w" r m] by (auto simp: storage_ok_def)
  then show "w_rows (snd (delete_object s bk sc i w)) = filter (\<lambda>r. r \<noteq> m) (w_rows w)"
    using assms(1) by (auto simp: delete_object_def delete_blob_def delete_meta_def delete_row_def split: prod.splits intro: filter_cong)
  show "w_blobs (snd (delete_object s bk sc i w)) = snd (b_delete (so_ops s) (om_bucket m) (om_key m) (w_blobs w))"
    using assms(1) m by (simp add: delete_object_def delete_blob_def delete_meta_def split: prod.splits)
qed

lemma delete_object_ok:
  assumes bs: "blob_store (so_ops s)" and ok: "storage_ok cr s w"
  shows "storage_ok cr s (snd (delete_object s bk sc i w))"
proof (cases "delete_find bk sc i w")
  case (Inl e)
  with ok show ?thesis by (simp add: delete_object_def)
next
  case (Inr m)
  note m = delete_find_Ok [OF Inr]
  have free: "(om_bucket r, om_key r) \<noteq> (om_bucket m, om_key m)" if "r \<in> set (w_rows w)" "r \<noteq> m" for r
    using distinct_pair_neq [of "\<lambda>r. (om_bucket r, om_key r)" "w_rows w" r m] that m ok by (auto simp: storage_ok_def)
  show ?thesis
    using ok row_backed_delete [OF bs _ free]
    by (auto simp: storage_ok_def delete_object_rows [OF Inr ok] distinct_map inj_on_def)
qed

text \<open>A sequence of uploads (each with the failure its insert runs into, if any) and deletions.\<close>

datatype storage_op =
    Upload "error option" bytes int bucket scope str str bytes
  | Remove bucket scope str

fun storage_run :: "crypto \<Rightarrow> 'st storage \<Rightarrow> storage_op list \<Rightarrow> 'st world \<Rightarrow> 'st world" where
  "storage_run cr s [] w = w"
| "storage_run cr s (Upload fault random now bk sc key mime body # ops) w =
     storage_run cr s ops (snd (put_object cr s fault random now bk sc key mime body w))"
| "storage_run cr s (Remove bk sc i # ops) w = storage_run cr s ops (snd (delete_object s bk sc i w))"

lemma storage_run_ok: "blob_store (so_ops s) \<Longrightarrow> storage_ok cr s w \<Longrightarrow> storage_ok cr s (storage_run cr s ops w)"
  by (induction cr s ops w rule: storage_run.induct) (simp_all add: put_object_ok delete_object_ok)

lemma get_object_own:
  assumes "storage_ok cr s w" "m \<in> set (w_rows w)" "scope_matches (scope_or_default sc) m" "om_bucket m = bk_name bk" "assert_prefix bk sc m = Ok ()"
  shows "\<exists>b. get_object s bk sc (om_id m) w = Ok (m, b) \<and> om_size m = int (length b) \<and> om_checksum m = hex_encode (sha256 cr b)"
proof -
  obtain b where b: "b_get (so_ops s) (om_bucket m) (om_key m) (w_blobs w) = Ok b" "om_size m = int (length b)" "om_checksum m = hex_encode (sha256 cr b)"
    using assms(1,2) by (auto simp: storage_ok_def row_backed_def)
  with get_scoped_own [OF assms(1-3)] assms(4,5) show ?thesis by (simp add: get_object_def)
qed

definition demo_bucket :: bucket where
  "demo_bucket = \<lparr>bk_name = ''files'', bk_public = False, bk_owner_prefix = False, bk_max_size = 100, bk_allowed_mime = [], bk_mount_prefix = ''/storage''\<rparr>"

text \<open>The rows of an owner-prefixed bucket have their owner in front of the key, when the bucket is declared once.\<close>

definition declared_once :: "bucket \<Rightarrow> storage_op list \<Rightarrow> bool" where
  "declared_once bk ops \<longleftrightarrow>
     list_all (\<lambda>x. case x of Upload fault random now bk' sc key mime body \<Rightarrow> bk_name bk' = bk_name bk \<longrightarrow> bk' = bk | Remove bk' sc i \<Rightarrow> True) ops"

definition prefixed :: "bucket \<Rightarrow> object_meta \<Rightarrow> bool" where
  "prefixed bk r \<longleftrightarrow> (om_bucket r = bk_name bk \<and> bk_owner_prefix bk \<longrightarrow> (\<exists>owner key. om_owner r = Some owner \<and> om_key r = owner @ ''/'' @ key))"

lemma put_object_rows:
  "r \<in> set (w_rows (snd (put_object cr s fault random now bk sc key mime body w))) \<Longrightarrow>
     r \<in> set (w_rows w) \<or> put_prepare cr random now bk sc key mime body = Ok r"
  by (auto simp: put_object_def put_blob_def put_row_def insert_row_def split: sum.splits prod.splits option.splits if_splits)

lemma delete_object_subset: "set (w_rows (snd (delete_object s bk sc i w))) \<subseteq> set (w_rows w)"
  by (auto simp: delete_object_def delete_blob_def delete_meta_def delete_row_def split: sum.splits prod.splits)

lemma storage_run_prefixed:
  "declared_once bk ops \<Longrightarrow> \<forall>r \<in> set (w_rows w). prefixed bk r \<Longrightarrow> r \<in> set (w_rows (storage_run cr s ops w)) \<Longrightarrow> prefixed bk r"
proof (induction ops arbitrary: w)
  case (Cons x ops)
  have rest: "declared_once bk ops" using Cons.prems(1) by (simp add: declared_once_def)
  show ?case
  proof (cases x)
    case (Upload fault random now bk' sc key mime body)
    have "prefixed bk q" if "put_prepare cr random now bk' sc key mime body = Ok q" for q
      using put_prepare_Ok [OF that] Cons.prems(1) Upload by (auto simp: prefixed_def declared_once_def)
    then show ?thesis using Cons.IH [OF rest] put_object_rows Cons.prems(2,3) Upload by (metis storage_run.simps(2))
  next
    case (Remove bk' sc i)
    then show ?thesis using Cons.IH [OF rest] delete_object_subset Cons.prems(2,3) by (metis storage_run.simps(3) subsetD)
  qed
qed simp

text \<open>C30: Whatever uploads and deletions have run one after another, with inserts failing anywhere, every object a
  listing shows downloads in the same scope, with as many bytes as its row says and the digest its row has: there is never a
  listed row whose download is 404 or serves other bytes. The bucket is declared once under its name; in an
  owner-prefixed bucket this needs an owner without a slash, since the prefix check compares one path
  segment: the rows of an owner with a slash are listed and 404 (\<open>slash_owner_locked_out\<close>), which the
  comment on uploads does not say.\<close>

theorem storage_rows_backed:
  assumes "blob_store (so_ops s)" "declared_once bk ops"
    "list_objects bk sc (storage_run cr s ops \<lparr>w_rows = [], w_blobs = st\<rparr>) = Ok rows" "m \<in> set rows"
    "\<And>scope owner. bk_owner_prefix bk \<Longrightarrow> sc = Some scope \<Longrightarrow> sc_owner scope = Some owner \<Longrightarrow> CHR ''/'' \<notin> set owner"
  shows "\<exists>b. get_object s bk sc (om_id m) (storage_run cr s ops \<lparr>w_rows = [], w_blobs = st\<rparr>) = Ok (m, b) \<and>
    om_size m = int (length b) \<and> om_checksum m = hex_encode (sha256 cr b)"
proof -
  let ?w = "storage_run cr s ops \<lparr>w_rows = [], w_blobs = st\<rparr>"
  have ok: "storage_ok cr s ?w"
    by (rule storage_run_ok [OF assms(1)]) (simp add: storage_ok_def)
  have m: "m \<in> set (w_rows ?w)" "om_bucket m = bk_name bk" "scope_matches (scope_or_default sc) m"
    using assms(3,4) by (auto simp: list_objects_def list_scoped_def)
  have "prefixed bk m" by (rule storage_run_prefixed [OF assms(2) _ m(1)]) simp
  then have "assert_prefix bk sc m = Ok ()"
    using m(2,3) assms(5)
    by (cases sc) (auto simp: prefixed_def assert_prefix_def scope_or_default_def scope_matches_def str_simps split: option.splits)
  then show ?thesis using get_object_own [OF ok m(1,3,2)] by blast
qed

definition demo_meta :: "bytes \<Rightarrow> str \<Rightarrow> bytes \<Rightarrow> object_meta" where
  "demo_meta random key body = \<lparr>om_id = new_object_id random, om_bucket = ''files'', om_key = key, om_owner = None, om_tenant = None,
     om_size = int (length body), om_mime = ''application/octet-stream'', om_checksum = hex_encode (sha256 demo_crypto body), om_created_at = 5\<rparr>"

lemma trim_Nil: "trim [] = []"
proof -
  have "trim_front e [] = []" for e
    using strip_one_shrinks [of e "[]"] trim_front.simps [of e "[]"] by (cases "strip_one e []") simp_all
  then show ?thesis by (simp add: trim_def)
qed

lemma demo_prepare:
  "valid_key key \<Longrightarrow> length body \<le> 100 \<Longrightarrow>
     put_prepare demo_crypto random 5 demo_bucket scope_default key [] body = Ok (demo_meta random key body)"
  by (simp add: put_prepare_def validate_valid demo_bucket_def demo_meta_def Let_def mime_base_def trim_Nil
      to_ascii_lowercase_def allows_mime_def scope_default_def)

text \<open>The upload of the witness, by an owner into an owner-prefixed bucket.\<close>

definition prefixed_bucket :: bucket where "prefixed_bucket = demo_bucket\<lparr>bk_owner_prefix := True\<rparr>"

definition ann_scope :: scope where "ann_scope = scope_default\<lparr>sc_owner := Some ''ann''\<rparr>"

definition ann_meta :: object_meta where
  "ann_meta = (demo_meta (replicate 16 CHR ''r'') ''ann/k'' ''hi'')\<lparr>om_owner := Some ''ann''\<rparr>"

definition ann_upload :: "storage_op list" where
  "ann_upload = [Upload None (replicate 16 CHR ''r'') 5 prefixed_bucket ann_scope ''k'' [] ''hi'']"

lemma ann_prepare: "put_prepare demo_crypto (replicate 16 CHR ''r'') 5 prefixed_bucket ann_scope ''k'' [] ''hi'' = Ok ann_meta"
proof -
  have "valid_key ''k''" by code_simp
  then show ?thesis
    by (simp add: put_prepare_def validate_valid prefixed_bucket_def demo_bucket_def ann_meta_def demo_meta_def ann_scope_def Let_def
        mime_base_def trim_Nil to_ascii_lowercase_def allows_mime_def scope_default_def)
qed

theorem storage_rows_backed_witness:
  "list_objects prefixed_bucket (Some ann_scope) (storage_run demo_crypto (with_store memory_ops) ann_upload
       \<lparr>w_rows = [], w_blobs = (\<lambda>_. None)\<rparr>) = Ok [ann_meta] \<and>
   (\<exists>b. get_object (with_store memory_ops) prefixed_bucket (Some ann_scope) (om_id ann_meta)
      (storage_run demo_crypto (with_store memory_ops) ann_upload \<lparr>w_rows = [], w_blobs = (\<lambda>_. None)\<rparr>) = Ok (ann_meta, b))"
proof -
  let ?s = "with_store memory_ops"
  let ?w = "storage_run demo_crypto ?s ann_upload \<lparr>w_rows = [], w_blobs = (\<lambda>_. None)\<rparr>"
  have v: "valid_key ''ann/k''" "om_key ann_meta = ''ann/k''" by code_simp (simp add: ann_meta_def demo_meta_def)
  have "w_rows ?w = [ann_meta]"
    using v by (simp add: ann_upload_def put_object_def ann_prepare put_check_def key_exists_def put_blob_def put_row_def insert_row_def
        with_store_def memory_ops_def validate_valid)
  then have l: "list_objects prefixed_bucket (Some ann_scope) ?w = Ok [ann_meta]"
    by (simp add: list_objects_def list_scoped_def scope_or_default_def scope_matches_def scope_default_def ann_scope_def
        prefixed_bucket_def demo_bucket_def ann_meta_def demo_meta_def)
  have "blob_store (so_ops ?s)" by (simp add: with_store_def mem_store.blob_store_axioms)
  moreover have "declared_once prefixed_bucket ann_upload" by (simp add: declared_once_def ann_upload_def)
  moreover have "CHR ''/'' \<notin> set owner" if "Some ann_scope = Some sc" "sc_owner sc = Some owner" for sc owner
    using that by (auto simp: ann_scope_def)
  ultimately have "\<exists>b. get_object ?s prefixed_bucket (Some ann_scope) (om_id ann_meta) ?w = Ok (ann_meta, b) \<and>
      om_size ann_meta = int (length b) \<and> om_checksum ann_meta = hex_encode (sha256 demo_crypto b)"
    by (intro storage_rows_backed [OF _ _ l]) auto
  with l show ?thesis by blast
qed

text \<open>An upload that returns is downloadable at once by its uploader; after its deletion it is not.\<close>

text \<open>C31: An upload in a scope, when it answers with a row, is read back by the same scope with exactly the bytes
  uploaded, and every earlier object is still there; deleting it afterwards makes it 404. In an owner-prefixed
  bucket this needs an owner without a slash, since the prefix check compares one path segment.\<close>

theorem upload_reads_back:
  assumes "working_store (so_ops s)" "storage_ok cr s w"
    "put_object cr s fault random now bk sc key mime body w = (Ok m, w')"
    "\<And>owner. bk_owner_prefix bk \<Longrightarrow> sc_owner sc = Some owner \<Longrightarrow> CHR ''/'' \<notin> set owner"
  shows "get_object s bk (Some sc) (om_id m) w' = Ok (m, body) \<and> w_rows w' = w_rows w @ [m] \<and>
    get_object s bk (Some sc) (om_id m) (snd (delete_object s bk sc (om_id m) w')) = Err not_found"
proof -
  have bs: "blob_store (so_ops s)" using assms(1) by (rule working_store.axioms)
  obtain m0 st where prep: "put_prepare cr random now bk sc key mime body = Ok m0" and check: "put_check m0 w = Ok ()"
    and put: "b_put (so_ops s) (om_bucket m0) (om_key m0) body (om_mime m0) (w_blobs w) = (Ok (), st)"
    and row: "put_row s fault m0 (w\<lparr>w_blobs := st\<rparr>) = (Ok m, w')"
    using assms(3) by (auto simp: put_object_def put_blob_def split: sum.splits prod.splits)
  from row have w': "m0 = m" "w_rows w' = w_rows w @ [m]" "w_blobs w' = st"
    by (cases rule: put_row_cases [of s fault m0 "w\<lparr>w_blobs := st\<rparr>"]; auto)+
  note m = put_prepare_Ok [OF prep, unfolded w'(1)]
  have ok: "storage_ok cr s w'" using put_object_ok [OF bs assms(2), of fault random now bk sc key mime body] assms(3) by simp
  have sm: "scope_matches sc m" using m by (simp add: scope_matches_def split: option.splits)
  have pre: "assert_prefix bk (Some sc) m = Ok ()"
    using m assms(4) by (auto simp: assert_prefix_def str_simps split: option.splits)
  have own: "get_scoped (bk_name bk) (om_id m) sc (w_rows w') = Some m"
    using get_scoped_own [OF ok _ sm] w' m by auto
  have "b_get (so_ops s) (bk_name bk) (om_key m) st = Ok body"
    using blob_store.put_reads_back [OF bs put] w'(1) m by simp
  then have get: "get_object s bk (Some sc) (om_id m) w' = Ok (m, body)"
    using own pre w' by (simp add: get_object_def scope_or_default_def)
  have "delete_find bk sc (om_id m) w' = Ok m" using own pre by (simp add: delete_find_def)
  from delete_object_rows(1) [OF this ok]
  have rows: "w_rows (snd (delete_object s bk sc (om_id m) w')) = filter (\<lambda>r. r \<noteq> m) (w_rows w')" .
  have "om_id r \<noteq> om_id m" if "r \<in> set (w_rows w')" "r \<noteq> m" for r
    using distinct_pair_neq [of om_id "w_rows w'" r m] that ok w'(2) by (auto simp: storage_ok_def)
  then have "get_scoped (bk_name bk) (om_id m) sc (w_rows (snd (delete_object s bk sc (om_id m) w'))) = None"
    unfolding rows get_scoped_def by (auto simp: find_None_iff')
  with get w'(2) show ?thesis by (simp add: get_object_def scope_or_default_def)
qed

theorem upload_reads_back_witness:
  "let w = \<lparr>w_rows = [], w_blobs = (\<lambda>_. None)\<rparr>; s = with_store memory_ops; m = demo_meta (replicate 16 CHR ''r'') ''k'' ''hi'' in
   \<exists>w'. put_object demo_crypto s None (replicate 16 CHR ''r'') 5 demo_bucket scope_default ''k'' [] ''hi'' w = (Ok m, w') \<and>
     get_object s demo_bucket (Some scope_default) (om_id m) w' = Ok (m, ''hi'')"
proof -
  let ?w = "\<lparr>w_rows = [], w_blobs = (\<lambda>_. None)\<rparr>" and ?s = "with_store memory_ops" and ?m = "demo_meta (replicate 16 CHR ''r'') ''k'' ''hi''"
  have "valid_key ''k''" by code_simp
  then have p: "put_object demo_crypto ?s None (replicate 16 CHR ''r'') 5 demo_bucket scope_default ''k'' [] ''hi'' ?w =
      (Ok ?m, \<lparr>w_rows = [?m], w_blobs = [(''files'', ''k'') \<mapsto> ''hi'']\<rparr>)"
    by (simp add: put_object_def demo_prepare put_check_def key_exists_def put_blob_def put_row_def insert_row_def
        with_store_def memory_ops_def validate_valid demo_meta_def [of _ "''k''"])
  have ws: "working_store (so_ops ?s)" by (simp add: with_store_def mem_store.working_store_axioms)
  have ok: "storage_ok demo_crypto ?s ?w" by (simp add: storage_ok_def)
  from upload_reads_back [OF ws ok p] have "get_object ?s demo_bucket (Some scope_default) (om_id ?m) \<lparr>w_rows = [?m], w_blobs = [(''files'', ''k'') \<mapsto> ''hi'']\<rparr> = Ok (?m, ''hi'')"
    by (simp add: demo_bucket_def)
  with p show ?thesis unfolding Let_def by blast
qed

section \<open>Scopes\<close>

lemma get_scoped_foreign:
  assumes "storage_ok cr s w" "r \<in> set (w_rows w)" "\<not> scope_matches sc r"
  shows "get_scoped bu (om_id r) sc (w_rows w) = None"
proof -
  have "om_id y = om_id r \<Longrightarrow> y \<in> set (w_rows w) \<Longrightarrow> y = r" for y
    using assms(1,2) by (auto simp: storage_ok_def distinct_map dest: inj_onD)
  then show ?thesis using assms(3) by (auto simp: get_scoped_def find_None_iff')
qed

text \<open>C32: A caller sees only its own objects. A listing and a download stay inside the caller's scope; for an object
  of somebody else, download, deletion and signing all answer 404 and deletion changes nothing; and whatever a
  caller deletes, the objects of others stay listed, with their bytes.\<close>

theorem storage_scope_isolation:
  assumes "blob_store (so_ops s)" "storage_ok cr s w"
  shows "(\<forall>rows. list_objects bk (Some sc) w = Ok rows \<longrightarrow> (\<forall>m \<in> set rows. m \<in> set (w_rows w) \<and> scope_matches sc m)) \<and>
    (\<forall>i m b. get_object s bk (Some sc) i w = Ok (m, b) \<longrightarrow> m \<in> set (w_rows w) \<and> scope_matches sc m) \<and>
    (\<forall>r \<in> set (w_rows w). \<not> scope_matches sc r \<longrightarrow>
       get_object s bk (Some sc) (om_id r) w = Err not_found \<and>
       delete_object s bk sc (om_id r) w = (Err not_found, w) \<and>
       sign_object cr s bk sc (om_id r) ttl now w = Err not_found \<and>
       (\<forall>i. r \<in> set (w_rows (snd (delete_object s bk sc i w))) \<and>
          row_backed cr (so_ops s) (w_blobs (snd (delete_object s bk sc i w))) r))"
proof (intro conjI ballI allI impI)
  fix rows m
  assume "list_objects bk (Some sc) w = Ok rows" "m \<in> set rows"
  then have "m \<in> set (w_rows w) \<and> scope_matches sc m" by (auto simp: list_objects_def list_scoped_def scope_or_default_def)
  then show "m \<in> set (w_rows w)" "scope_matches sc m" by auto
next
  fix i m b
  assume "get_object s bk (Some sc) i w = Ok (m, b)"
  then have "get_scoped (bk_name bk) i sc (w_rows w) = Some m"
    by (auto simp: get_object_def scope_or_default_def bind_result_Ok split: option.splits)
  then show "m \<in> set (w_rows w)" "scope_matches sc m" by (auto dest: get_scoped_Some)
next
  fix r
  assume r: "r \<in> set (w_rows w)" "\<not> scope_matches sc r"
  note none = get_scoped_foreign [OF assms(2) r]
  show "get_object s bk (Some sc) (om_id r) w = Err not_found" "delete_object s bk sc (om_id r) w = (Err not_found, w)"
    "sign_object cr s bk sc (om_id r) ttl now w = Err not_found"
    by (simp_all add: get_object_def scope_or_default_def none delete_object_def delete_find_def sign_object_def)
  fix i
  have in_rows: "r \<in> set (w_rows (snd (delete_object s bk sc i w)))"
  proof (cases "delete_find bk sc i w")
    case (Inr m)
    then have "r \<noteq> m" using delete_find_Ok [OF Inr] r by blast
    then show ?thesis using r by (simp add: delete_object_rows [OF Inr assms(2)])
  qed (simp add: delete_object_def r)
  then show "r \<in> set (w_rows (snd (delete_object s bk sc i w)))" .
  show "row_backed cr (so_ops s) (w_blobs (snd (delete_object s bk sc i w))) r"
    using delete_object_ok [OF assms, of bk sc i] in_rows by (simp add: storage_ok_def)
qed

definition demo_world :: "mem_blobs world" where
  "demo_world = \<lparr>w_rows = [(demo_meta (replicate 16 CHR ''r'') ''k'' ''hi'')\<lparr>om_owner := Some ''ann''\<rparr>], w_blobs = [(''files'', ''k'') \<mapsto> ''hi'']\<rparr>"

lemma demo_world_ok: "storage_ok demo_crypto (with_store memory_ops) demo_world"
  by (simp add: storage_ok_def demo_world_def demo_meta_def row_backed_def with_store_def memory_ops_def)

theorem storage_scope_isolation_witness:
  "\<not> scope_matches \<lparr>sc_owner = Some ''bob'', sc_tenant = None\<rparr> (hd (w_rows demo_world)) \<and>
   delete_object (with_store memory_ops) demo_bucket \<lparr>sc_owner = Some ''bob'', sc_tenant = None\<rparr> (om_id (hd (w_rows demo_world))) demo_world =
     (Err not_found, demo_world)"
proof -
  let ?r = "hd (w_rows demo_world)"
  have r: "?r \<in> set (w_rows demo_world)" by (simp add: demo_world_def)
  have f: "\<not> scope_matches \<lparr>sc_owner = Some ''bob'', sc_tenant = None\<rparr> ?r" by (simp add: demo_world_def scope_matches_def)
  have "blob_store (so_ops (with_store memory_ops))" by (simp add: with_store_def mem_store.blob_store_axioms)
  from storage_scope_isolation [OF this demo_world_ok] r f show ?thesis by blast
qed

section \<open>Signed URLs\<close>

text \<open>The signed text determines the object and the expiry; across buckets, when their names have no bar.\<close>

lemma append_sep_inj: "c \<notin> set a \<Longrightarrow> c \<notin> set b \<Longrightarrow> a @ c # x = b @ c # y \<Longrightarrow> a = b \<and> x = y"
proof (induction a arbitrary: b)
  case Nil
  then show ?case by (cases b) auto
next
  case (Cons p ps)
  then show ?case by (cases b) auto
qed

lemma show_nat_no_bar: "CHR ''|'' \<notin> set (show_nat n)"
  using show_nat_ascii [of n] by (auto simp: list_all_iff byte_in_def)

lemma signed_text_inj:
  assumes "bu @ ''|'' @ i @ ''|'' @ show_nat e = bu' @ ''|'' @ i' @ ''|'' @ show_nat e'"
    and "CHR ''|'' \<notin> set bu" "CHR ''|'' \<notin> set bu'"
  shows "bu = bu' \<and> i = i' \<and> show_nat e = show_nat e'"
proof -
  have b: "bu = bu'" "i @ CHR ''|'' # show_nat e = i' @ CHR ''|'' # show_nat e'"
    using append_sep_inj [OF assms(2,3), of "i @ ''|'' @ show_nat e"] assms(1) by auto
  from b(2) have "rev (show_nat e) @ CHR ''|'' # rev i = rev (show_nat e') @ CHR ''|'' # rev i'"
    by (metis append.assoc append_Cons append_Nil rev.simps(2) rev_append rev_rev_ident)
  then have "rev (show_nat e) = rev (show_nat e') \<and> rev i = rev i'"
    by (intro append_sep_inj) (simp_all add: show_nat_no_bar)
  with b show ?thesis by simp
qed

lemma url_verify_exact:
  "url_verify cr key bu i e sig now \<longleftrightarrow> now < e \<and> to_ascii_lowercase sig = url_sign cr key bu i e"
  unfolding url_verify_def url_sign_def hex_decode_Some [symmetric] by (auto split: option.splits)

lemma lower_hex: "to_ascii_lowercase (hex_encode b) = hex_encode b"
  using hex_decode_Some [of "hex_encode b" b] hex_roundtrip by blast

text \<open>A signed URL is issued for an object of the caller's scope and says until when; redeeming it serves that
  object's row and bytes at every instant before the expiry and is 401 from the expiry on. Conversely, whatever is
  redeemed was presented before its expiry with the MAC of this bucket, object and expiry, in either case of hex.\<close>

lemma signed_url_opens_object:
  assumes "storage_ok cr s w" "m \<in> set (w_rows w)" "om_bucket m = bk_name bk" "scope_matches sc m" "assert_prefix bk (Some sc) m = Ok ()"
    "so_sign_key s = Some k" "b_presign (so_ops s) (bk_name bk) (om_key m) (clamp 1 86400 ttl) (w_blobs w) = Ok None"
  shows "(\<exists>b. sign_object cr s bk sc (om_id m) ttl now w =
       Ok \<lparr>su_url = bk_mount_prefix bk @ ''/'' @ bk_name bk @ ''/'' @ om_id m @ ''?exp='' @ show_nat (now + clamp 1 86400 ttl) @ ''&sig='' @
             url_sign cr k (bk_name bk) (om_id m) (now + clamp 1 86400 ttl), su_expires_at = now + clamp 1 86400 ttl\<rparr> \<and>
     (\<forall>t. get_signed cr s bk (om_id m) (now + clamp 1 86400 ttl) (url_sign cr k (bk_name bk) (om_id m) (now + clamp 1 86400 ttl)) t w =
        (if t < now + clamp 1 86400 ttl then Ok (m, b) else Err unauthorized))) \<and>
    (\<forall>i e sig t res. get_signed cr s bk i e sig t w = Ok res \<longrightarrow> t < e \<and> to_ascii_lowercase sig = url_sign cr k (bk_name bk) i e)"
proof (intro conjI)
  obtain b where b: "b_get (so_ops s) (bk_name bk) (om_key m) (w_blobs w) = Ok b"
    using assms(1-3) by (auto simp: storage_ok_def row_backed_def)
  have own: "get_scoped (bk_name bk) (om_id m) sc (w_rows w) = Some m" "get_scoped (bk_name bk) (om_id m) scope_default (w_rows w) = Some m"
    using get_scoped_own [OF assms(1,2), of sc] get_scoped_own [OF assms(1,2), of scope_default] assms(3,4)
    by (simp_all add: scope_matches_def scope_default_def)
  have low: "to_ascii_lowercase (url_sign cr k (bk_name bk) (om_id m) e) = url_sign cr k (bk_name bk) (om_id m) e" for e
    by (simp add: url_sign_def lower_hex)
  show "\<exists>b. sign_object cr s bk sc (om_id m) ttl now w =
       Ok \<lparr>su_url = bk_mount_prefix bk @ ''/'' @ bk_name bk @ ''/'' @ om_id m @ ''?exp='' @ show_nat (now + clamp 1 86400 ttl) @ ''&sig='' @
             url_sign cr k (bk_name bk) (om_id m) (now + clamp 1 86400 ttl), su_expires_at = now + clamp 1 86400 ttl\<rparr> \<and>
     (\<forall>t. get_signed cr s bk (om_id m) (now + clamp 1 86400 ttl) (url_sign cr k (bk_name bk) (om_id m) (now + clamp 1 86400 ttl)) t w =
        (if t < now + clamp 1 86400 ttl then Ok (m, b) else Err unauthorized))"
    by (rule exI [of _ b]) (simp add: sign_object_def get_signed_def sign_key_def assms own b url_verify_exact low Let_def del: One_nat_def)
  show "\<forall>i e sig t res. get_signed cr s bk i e sig t w = Ok res \<longrightarrow> t < e \<and> to_ascii_lowercase sig = url_sign cr k (bk_name bk) i e"
    using assms(6) by (auto simp: get_signed_def sign_key_def url_verify_exact split: if_splits)
qed

section \<open>Interleavings\<close>

lemma working_put:
  assumes "working_store (so_ops s)" "valid_key (om_key m)"
  shows "\<exists>st. put_blob s m b w = (Ok (), w\<lparr>w_blobs := st\<rparr>) \<and> b_get (so_ops s) (om_bucket m) (om_key m) st = Ok b"
proof -
  obtain res st where p: "b_put (so_ops s) (om_bucket m) (om_key m) b (om_mime m) (w_blobs w) = (res, st)" by fastforce
  then have "res = Ok ()" using working_store.put_works [OF assms] by (metis fst_conv)
  with p have "b_get (so_ops s) (om_bucket m) (om_key m) st = Ok b"
    using blob_store.put_reads_back [OF working_store.axioms(1) [OF assms(1)]] by blast
  with p \<open>res = Ok ()\<close> show ?thesis by (intro exI [of _ st]) (simp add: put_blob_def)
qed

lemma put_row_new:
  assumes "\<forall>r \<in> set (w_rows w). om_id r \<noteq> om_id m \<and> (om_bucket r, om_key r) \<noteq> (om_bucket m, om_key m)"
  shows "put_row s None m w = (Ok m, w\<lparr>w_rows := w_rows w @ [m]\<rparr>)"
proof -
  have "\<not> list_ex (\<lambda>r. om_id r = om_id m \<or> om_bucket r = om_bucket m \<and> om_key r = om_key m) (w_rows w)"
    using assms by (auto simp: list_ex_iff)
  then show ?thesis by (simp add: put_row_def insert_row_def)
qed

lemma put_row_taken:
  assumes "r \<in> set (w_rows w)" "om_bucket r = om_bucket m" "om_key r = om_key m"
  shows "put_row s None m w = (Err unique_violation, w)"
proof -
  have "list_ex (\<lambda>r. om_id r = om_id m \<or> om_bucket r = om_bucket m \<and> om_key r = om_key m) (w_rows w)"
    using assms by (auto simp: list_ex_iff)
  then show ?thesis by (simp add: put_row_def insert_row_def unique_violation_def conflict_def error_new_def)
qed

lemma get_scoped_new:
  "\<forall>r \<in> set rows. om_id r \<noteq> om_id m \<Longrightarrow> get_scoped (om_bucket m) (om_id m) scope_default (rows @ [m]) = Some m"
  unfolding get_scoped_def by (induction rows) (auto simp: scope_matches_def scope_default_def)

text \<open>Two uploads of one new key that both pass the duplicate check: the second one's bytes are written after
  the first one's row and its conflict keeps them, so the first upload, which was answered with success, serves
  the bytes the server refused, under the first one's size and digest.\<close>

lemma racing_uploads_swap_bytes:
  assumes "working_store (so_ops s)" "valid_key (om_key m1)" "om_bucket m2 = om_bucket m1" "om_key m2 = om_key m1"
    "put_check m1 w = Ok ()" "\<forall>r \<in> set (w_rows w). om_id r \<noteq> om_id m1" "bk_name bk = om_bucket m1"
    "w1 = snd (put_blob s m1 b1 w)" "w2 = snd (put_row s None m1 w1)" "w3 = snd (put_blob s m2 b2 w2)"
  shows "put_check m2 w = Ok () \<and> fst (put_row s None m1 w1) = Ok m1 \<and> put_row s None m2 w3 = (Err unique_violation, w3) \<and>
    list_objects bk None w3 = Ok (list_scoped (om_bucket m1) scope_default (w_rows w @ [m1])) \<and>
    get_object s bk None (om_id m1) w3 = Ok (m1, b2)"
proof -
  note free = put_check_free [OF assms(5)]
  obtain st1 where p1: "put_blob s m1 b1 w = (Ok (), w\<lparr>w_blobs := st1\<rparr>)" using working_put [OF assms(1,2)] by blast
  have r1: "put_row s None m1 w1 = (Ok m1, w1\<lparr>w_rows := w_rows w1 @ [m1]\<rparr>)"
    using put_row_new [of w1 m1 s] free assms(6,8) p1 by auto
  have v2: "valid_key (om_key m2)" using assms(2,4) by simp
  obtain st2 where p2: "put_blob s m2 b2 w2 = (Ok (), w2\<lparr>w_blobs := st2\<rparr>)" "b_get (so_ops s) (om_bucket m2) (om_key m2) st2 = Ok b2"
    using working_put [OF assms(1) v2, of b2 w2] by blast
  have rows: "w_rows w3 = w_rows w @ [m1]" "w_blobs w3 = st2" using assms(8-10) p1 r1 p2(1) by simp_all
  have "put_row s None m2 w3 = (Err unique_violation, w3)"
    using put_row_taken [of m1 w3 m2 s] rows(1) assms(3,4) by simp
  moreover have "get_object s bk None (om_id m1) w3 = Ok (m1, b2)"
    using get_scoped_new [OF assms(6)] p2(2) assms(3,4,7)
    by (simp add: get_object_def scope_or_default_def rows assert_prefix_def)
  ultimately show ?thesis using assms(3-5,7) r1 rows by (simp add: put_check_def list_objects_def scope_or_default_def)
qed

text \<open>An upload between the two steps of a deletion: the row is gone, so the same key is uploaded anew and
  answered with success, and then the deletion removes the new bytes; what stays is a listed row whose download
  is 404.\<close>

lemma deletion_takes_new_upload:
  assumes "working_store (so_ops s)" "valid_key (om_key m)" "om_bucket m' = om_bucket m" "om_key m' = om_key m"
    "delete_find bk sc i w = Ok m" "wd = delete_meta bk i w" "put_check m' wd = Ok ()" "\<forall>r \<in> set (w_rows wd). om_id r \<noteq> om_id m'"
    "w1 = snd (put_blob s m' b' wd)" "w2 = snd (put_row s None m' w1)" "w3 = snd (delete_blob s bk m w2)"
  shows "fst (put_row s None m' w1) = Ok m' \<and> fst (delete_blob s bk m w2) = Ok () \<and>
    list_objects bk None w3 = Ok (list_scoped (om_bucket m) scope_default (w_rows wd @ [m'])) \<and>
    get_object s bk None (om_id m') w3 = Err not_found"
proof -
  note free = put_check_free [OF assms(7)] and m = delete_find_Ok [OF assms(5)]
  have v: "valid_key (om_key m')" using assms(2,4) by simp
  obtain st1 where p1: "put_blob s m' b' wd = (Ok (), wd\<lparr>w_blobs := st1\<rparr>)" using working_put [OF assms(1) v] by blast
  have r1: "put_row s None m' w1 = (Ok m', w1\<lparr>w_rows := w_rows w1 @ [m']\<rparr>)"
    using put_row_new [of w1 m' s] free assms(8,9) p1 by auto
  obtain st2 where d: "b_delete (so_ops s) (bk_name bk) (om_key m) (w_blobs w2) = (Ok (), st2)"
    using working_store.delete_works [OF assms(1,2)] by (metis prod.collapse)
  then have gone: "b_get (so_ops s) (bk_name bk) (om_key m) st2 = Err not_found" by (rule working_store.delete_removes [OF assms(1)])
  have rows: "w_rows w3 = w_rows wd @ [m']" "w_blobs w3 = st2" using assms(9-11) p1 r1 d by (simp_all add: delete_blob_def)
  have "get_object s bk None (om_id m') w3 = Err not_found"
    using get_scoped_new [OF assms(8)] gone assms(3,4) m
    by (simp add: get_object_def scope_or_default_def rows assert_prefix_def)
  with r1 d rows m show ?thesis by (simp add: delete_blob_def list_objects_def scope_or_default_def)
qed

section \<open>Configuration\<close>

text \<open>The signing secret is taken as it is, an empty one too: then every caller can compute every signature.\<close>

lemma empty_secret_signs:
  "storage_from_env s3 (Some ''local:x'') (Some []) = Ok (BackendLocal ''x'', Some [])"
  "sign_key (with_sign_secret [] s) = Ok []"
  by (simp_all add: storage_from_env_def from_config_def strip_str_def with_sign_secret_def sign_key_def)

text \<open>An owner id with a slash locks its owner out: what it uploads into an owner-prefixed bucket is listed to it
  and 404 on download.\<close>

lemma slash_owner_locked_out:
  assumes "put_prepare cr random now bk sc key mime body = Ok m" "bk_owner_prefix bk" "sc_owner sc = Some (a @ ''/'' @ b)"
  shows "scope_matches sc m" "assert_prefix bk (Some sc) m = Err not_found"
proof -
  note m = put_prepare_Ok [OF assms(1)]
  show "scope_matches sc m" using m by (simp add: scope_matches_def split: option.splits)
  have key: "om_key m = a @ CHR ''/'' # (b @ ''/'' @ key)" using m assms(2,3) by auto
  have "hd (split_on CHR ''/'' (om_key m)) \<noteq> a @ ''/'' @ b"
    unfolding key split_on_append_sep using split_on_pieces [of "hd (split_on CHR ''/'' a)" "CHR ''/''" a]
    by (cases "split_on CHR ''/'' a") auto
  then show "assert_prefix bk (Some sc) m = Err not_found" using assms(2,3) by (simp add: assert_prefix_def)
qed

end
