(* ===== verification/JC_S3.thy ===== *)
theory JC_S3
  imports JC_Storage JC_OAuth JC_Clock "HOL-Library.Product_Lexorder" "HOL-Library.Multiset"
begin

text \<open>
  The S3 backend of the object storage, \<open>jerrycan-storage/src\<close>: request signing (\<open>sigv4.rs\<close>), the readers of the
  two answer documents (\<open>xml.rs\<close>) and the store (\<open>s3_store.rs\<close>).

  The HTTP client is a parameter: building a request may fail, sending one changes the state of the network and
  ends in a transport failure or an answer. The XML reader is a parameter too: a body is the list of its events
  up to the end or the first error.
\<close>

section \<open>Signature version 4\<close>

record credentials =
  cr_access_key :: str
  cr_secret_key :: str
  cr_region :: str

definition sha256_hex :: "crypto \<Rightarrow> bytes \<Rightarrow> str" where "sha256_hex cr b = hex_encode (sha256 cr b)"

definition hmac_raw :: "crypto \<Rightarrow> bytes \<Rightarrow> str \<Rightarrow> bytes" where "hmac_raw cr key d = hmac_sha256 cr key d"

definition signing_key :: "crypto \<Rightarrow> str \<Rightarrow> str \<Rightarrow> str \<Rightarrow> str \<Rightarrow> bytes" where
  "signing_key cr secret date region service =
     (let k_date = hmac_raw cr (''AWS4'' @ secret) date;
          k_region = hmac_raw cr k_date region;
          k_service = hmac_raw cr k_region service
      in hmac_raw cr k_service ''aws4_request'')"

definition uri_encode :: "str \<Rightarrow> bool \<Rightarrow> str" where
  "uri_encode s keep_slash = concat (map (\<lambda>b.
     if byte_in 65 90 b \<or> byte_in 97 122 b \<or> byte_in 48 57 b \<or> b \<in> {CHR ''-'', CHR ''_'', CHR ''.'', CHR ''~''} then [b]
     else if b = CHR ''/'' \<and> keep_slash then [b]
     else [CHR ''%'', to_ascii_upper (from_digit (of_char b div 16)), to_ascii_upper (from_digit (of_char b mod 16))]) s)"

type_synonym pairs = "(str \<times> str) list"

definition canonical_query :: "pairs \<Rightarrow> str" where
  "canonical_query query =
     join_with ''&'' (map (\<lambda>(k, v). k @ ''='' @ v) (sort (map (\<lambda>(k, v). (uri_encode k False, uri_encode v False)) query)))"

definition newline :: str where "newline = [CHR 0x0A]"

definition canonical_headers :: "pairs \<Rightarrow> pairs" where
  "canonical_headers headers = sort (map (\<lambda>(k, v). (to_ascii_lowercase k, trim v)) headers)"

definition canonical_request :: "str \<Rightarrow> str \<Rightarrow> pairs \<Rightarrow> pairs \<Rightarrow> str \<Rightarrow> str" where
  "canonical_request method canonical_path query hdrs payload_hash =
     method @ newline @ canonical_path @ newline @ canonical_query query @ newline @
     concat (map (\<lambda>(k, v). k @ '':'' @ v @ newline) hdrs) @ newline @ join_with '';'' (map fst hdrs) @ newline @ payload_hash"

definition credential_scope :: "str \<Rightarrow> str \<Rightarrow> str \<Rightarrow> str" where
  "credential_scope datetime region service = take 8 datetime @ ''/'' @ region @ ''/'' @ service @ ''/aws4_request''"

definition string_to_sign :: "crypto \<Rightarrow> str \<Rightarrow> str \<Rightarrow> str \<Rightarrow> str" where
  "string_to_sign cr datetime sc creq =
     ''AWS4-HMAC-SHA256'' @ newline @ datetime @ newline @ sc @ newline @ sha256_hex cr creq"

definition authorization ::
    "crypto \<Rightarrow> credentials \<Rightarrow> str \<Rightarrow> str \<Rightarrow> str \<Rightarrow> pairs \<Rightarrow> pairs \<Rightarrow> str \<Rightarrow> str \<Rightarrow> str \<times> str" where
  "authorization cr creds service method canonical_path query headers payload_hash datetime =
     (let hdrs = canonical_headers headers;
          signed_headers = join_with '';'' (map fst hdrs);
          sc = credential_scope datetime (cr_region creds) service;
          key = signing_key cr (cr_secret_key creds) (take 8 datetime) (cr_region creds) service;
          signature = hex_encode (hmac_raw cr key
            (string_to_sign cr datetime sc (canonical_request method canonical_path query hdrs payload_hash)))
      in (''AWS4-HMAC-SHA256 Credential='' @ cr_access_key creds @ ''/'' @ sc @ '', SignedHeaders='' @ signed_headers @
            '', Signature='' @ signature, signature))"

text \<open>What follows the scheme of an endpoint.\<close>

definition endpoint_host :: "str \<Rightarrow> str" where
  "endpoint_host endpoint = (case split_str_once ''://'' endpoint of Some (_, rest) \<Rightarrow> rest | None \<Rightarrow> endpoint)"

definition presign_query :: "credentials \<Rightarrow> nat \<Rightarrow> str \<Rightarrow> pairs" where
  "presign_query creds ttl_secs datetime =
     [(''X-Amz-Algorithm'', ''AWS4-HMAC-SHA256''),
      (''X-Amz-Credential'', cr_access_key creds @ ''/'' @ credential_scope datetime (cr_region creds) ''s3''),
      (''X-Amz-Date'', datetime), (''X-Amz-Expires'', show_nat ttl_secs), (''X-Amz-SignedHeaders'', ''host'')]"

definition presign_url :: "crypto \<Rightarrow> credentials \<Rightarrow> str \<Rightarrow> str \<Rightarrow> nat \<Rightarrow> str \<Rightarrow> str" where
  "presign_url cr creds endpoint canonical_path ttl_secs datetime =
     (let query = presign_query creds ttl_secs datetime;
          creq = ''GET'' @ newline @ canonical_path @ newline @ canonical_query query @ newline @ ''host:'' @ endpoint_host endpoint @
            newline @ newline @ ''host'' @ newline @ ''UNSIGNED-PAYLOAD'';
          key = signing_key cr (cr_secret_key creds) (take 8 datetime) (cr_region creds) ''s3'';
          signature = hex_encode (hmac_raw cr key
            (string_to_sign cr datetime (credential_scope datetime (cr_region creds) ''s3'') creq))
      in endpoint @ canonical_path @ ''?'' @ canonical_query query @ ''&X-Amz-Signature='' @ signature)"

section \<open>Answer documents\<close>

text \<open>A text event carries its decoded and unescaped text, if both worked.\<close>

datatype xml_event = XStart str | XText "str option" | XEnd | XOther

fun texts_loop :: "str list \<Rightarrow> str option \<Rightarrow> xml_event list \<Rightarrow> pairs" where
  "texts_loop wanted current [] = []"
| "texts_loop wanted current (XStart name # es) =
     texts_loop wanted (if name \<in> set wanted then Some name else None) es"
| "texts_loop wanted current (XText t # es) =
     (case (current, t) of (Some name, Some v) \<Rightarrow> [(name, v)] | _ \<Rightarrow> []) @ texts_loop wanted None es"
| "texts_loop wanted current (XEnd # es) = texts_loop wanted None es"
| "texts_loop wanted current (XOther # es) = texts_loop wanted current es"

definition texts_of :: "(bytes \<Rightarrow> xml_event list) \<Rightarrow> bytes \<Rightarrow> str list \<Rightarrow> pairs" where
  "texts_of xml body wanted = texts_loop wanted None (xml body)"

definition parse_error_xml :: "(bytes \<Rightarrow> xml_event list) \<Rightarrow> bytes \<Rightarrow> (str \<times> str) option" where
  "parse_error_xml xml body =
     (let found = texts_of xml body [''Code'', ''Message''] in
      case map_of found ''Code'' of
        None \<Rightarrow> None
      | Some cde \<Rightarrow> Some (cde, case map_of found ''Message'' of None \<Rightarrow> [] | Some m \<Rightarrow> m))"

definition parse_upload_id :: "(bytes \<Rightarrow> xml_event list) \<Rightarrow> bytes \<Rightarrow> (error, str) result" where
  "parse_upload_id xml body =
     (case texts_of xml body [''UploadId''] of
        [] \<Rightarrow> Err (internal ''s3: InitiateMultipartUpload response carried no UploadId'')
      | (_, v) # _ \<Rightarrow> Ok v)"

section \<open>Configuration\<close>

record s3_config =
  s3_bucket :: str
  s3_region :: str
  s3_endpoint :: str
  s3_access_key :: str
  s3_secret_key :: str

definition plaintext_endpoint_ok :: "str \<Rightarrow> bool" where
  "plaintext_endpoint_ok endpoint =
     (case split_str_once ''://'' endpoint of
        None \<Rightarrow> False
      | Some (scheme, rest) \<Rightarrow>
          if eq_ignore_ascii_case scheme ''https'' then True
          else if \<not> eq_ignore_ascii_case scheme ''http'' then False
          else
            (let authority = takeWhile (\<lambda>c. c \<notin> {CHR ''/'', CHR ''?'', CHR ''#''}) rest in
             if CHR ''@'' \<in> set authority then False
             else
               (case (case strip_prefix CHR ''['' authority of
                        Some after \<Rightarrow> (case split_once CHR '']'' after of Some (inner, _) \<Rightarrow> Some inner | None \<Rightarrow> None)
                      | None \<Rightarrow> Some (case rsplit_once CHR '':'' authority of None \<Rightarrow> authority | Some (h, _) \<Rightarrow> h)) of
                  None \<Rightarrow> False
                | Some host \<Rightarrow> eq_ignore_ascii_case host ''localhost'' \<or> host = ''127.0.0.1'' \<or> host = ''::1'')))"

fun config_params :: "str list \<Rightarrow> str \<times> str option \<Rightarrow> (error, str \<times> str option) result" where
  "config_params [] acc = Ok acc"
| "config_params (pair # ps) (region, endpoint) =
     (case split_once CHR ''='' pair of
        Some (k, v) \<Rightarrow>
          if k = ''region'' then config_params ps (v, endpoint)
          else if k = ''endpoint'' then config_params ps (region, Some (trim_end_matches CHR ''/'' v))
          else Err (internal (''s3 config: unknown parameter `'' @ pair @ ''` '' @ map char_of [226 :: nat, 128, 148] @ '' supported: region, endpoint''))
      | None \<Rightarrow>
          Err (internal (''s3 config: unknown parameter `'' @ pair @ ''` '' @ map char_of [226 :: nat, 128, 148] @ '' supported: region, endpoint'')))"

definition config_from_url :: "str \<Rightarrow> str option \<Rightarrow> str option \<Rightarrow> (error, s3_config) result" where
  "config_from_url url access_key secret_key =
     (case strip_str ''s3://'' url of
        None \<Rightarrow> Err (internal (''s3 config: `'' @ url @ ''` does not start with s3://''))
      | Some rest \<Rightarrow>
          (let (bucket, query) = (case split_once CHR ''?'' rest of Some bq \<Rightarrow> bq | None \<Rightarrow> (rest, [])) in
           if bucket = []
           then Err (internal (''s3 config: missing bucket '' @ map char_of [226 :: nat, 128, 148] @ '' use s3://<bucket>?region='' @ map char_of [226 :: nat, 128, 166]))
           else
             bind_result (config_params (filter (\<lambda>p. p \<noteq> []) (split_on CHR ''&'' query)) (''us-east-1'', None))
               (\<lambda>(region, endpoint0).
                 let endpoint = (case endpoint0 of Some e \<Rightarrow> e | None \<Rightarrow> ''https://s3.'' @ region @ ''.amazonaws.com'') in
                 if \<not> plaintext_endpoint_ok endpoint
                 then Err (internal (''s3 config: refusing a plaintext http:// endpoint to a non-loopback host '' @
                   map char_of [226 :: nat, 128, 148] @ '' use https:// (http is allowed only for a local MinIO)''))
                 else
                   (case access_key of
                      None \<Rightarrow> Err (internal ''s3 config: AWS_ACCESS_KEY_ID is not set'')
                    | Some ak \<Rightarrow>
                        (case secret_key of
                           None \<Rightarrow> Err (internal ''s3 config: AWS_SECRET_ACCESS_KEY is not set'')
                         | Some sk \<Rightarrow> Ok \<lparr>s3_bucket = bucket, s3_region = region, s3_endpoint = endpoint,
                                          s3_access_key = ak, s3_secret_key = sk\<rparr>)))))"

definition object_path :: "s3_config \<Rightarrow> str \<Rightarrow> str \<Rightarrow> str" where
  "object_path c app_bucket key = ''/'' @ s3_bucket c @ ''/'' @ app_bucket @ ''/'' @ uri_encode key True"

definition config_host :: "s3_config \<Rightarrow> str" where
  "config_host c = (case split_str_once ''://'' (s3_endpoint c) of Some (_, rest) \<Rightarrow> rest | None \<Rightarrow> s3_endpoint c)"

definition config_credentials :: "s3_config \<Rightarrow> credentials" where
  "config_credentials c = \<lparr>cr_access_key = s3_access_key c, cr_secret_key = s3_secret_key c, cr_region = s3_region c\<rparr>"

section \<open>The store\<close>

definition amz_datetime_at :: "nat \<Rightarrow> str" where
  "amz_datetime_at secs =
     (let days = int (secs div 86400);
          h = int ((secs mod 86400) div 3600); mi = int ((secs mod 3600) div 60); s = int (secs mod 60);
          z = days + 719468;
          era = z div 146097;
          doe = z mod 146097;
          yoe = (doe - doe div 1460 + doe div 36524 - doe div 146096) div 365;
          y0 = yoe + era * 400;
          doy = doe - (365 * yoe + yoe div 4 - yoe div 100);
          mp = (5 * doy + 2) div 153;
          d = doy - (153 * mp + 2) div 5 + 1;
          mo = (if mp < 10 then mp + 3 else mp - 9);
          y = (if mo \<le> 2 then y0 + 1 else y0)
      in pad 4 y @ pad 2 mo @ pad 2 d @ ''T'' @ pad 2 h @ pad 2 mi @ pad 2 s @ ''Z'')"

record s3_request =
  rq_method :: str
  rq_uri :: str
  rq_headers :: pairs
  rq_body :: bytes

text \<open>The answer's \<open>ETag\<close> header is the one header the store reads: what is there as a string.\<close>

record s3_answer =
  an_status :: nat
  an_etag :: "str option"
  an_body :: bytes

datatype s3_outcome = SendFailed | BodyFailed | Answered s3_answer

record 'n s3_lib =
  li_crypto :: crypto
  li_xml :: "bytes \<Rightarrow> xml_event list"
  li_now :: "'n \<Rightarrow> nat"
  li_build :: "s3_request \<Rightarrow> str option"
  li_send :: "s3_request \<Rightarrow> 'n \<Rightarrow> s3_outcome \<times> 'n"

definition is_success :: "nat \<Rightarrow> bool" where "is_success st \<longleftrightarrow> 200 \<le> st \<and> st < 300"

definition query_text :: "pairs \<Rightarrow> str" where
  "query_text query =
     (if query = [] then []
      else ''?'' @ join_with ''&'' (map (\<lambda>(k, v).
        if v = [] then uri_encode k False else uri_encode k False @ ''='' @ uri_encode v False) query))"

text \<open>The signed request, from the instant and the arguments of \<open>request\<close>.\<close>

definition signed_request :: "crypto \<Rightarrow> s3_config \<Rightarrow> str \<Rightarrow> str \<Rightarrow> str \<Rightarrow> pairs \<Rightarrow> bytes \<Rightarrow> str option \<Rightarrow> s3_request" where
  "signed_request cr c datetime method path query body content_type =
     (let payload_hash = sha256_hex cr body;
          headers = [(''host'', config_host c), (''x-amz-content-sha256'', payload_hash), (''x-amz-date'', datetime)] @
            (case content_type of Some ct \<Rightarrow> [(''content-type'', ct)] | None \<Rightarrow> []);
          auth = fst (authorization cr (config_credentials c) ''s3'' method path query headers payload_hash datetime)
      in \<lparr>rq_method = method, rq_uri = s3_endpoint c @ path @ query_text query,
          rq_headers = (''authorization'', auth) # filter (\<lambda>(k, _). k \<noteq> ''host'') headers, rq_body = body\<rparr>)"

definition s3_send :: "'n s3_lib \<Rightarrow> s3_config \<Rightarrow> str \<Rightarrow> str \<Rightarrow> pairs \<Rightarrow> bytes \<Rightarrow> str option \<Rightarrow> 'n \<Rightarrow> (error, s3_answer) result \<times> 'n" where
  "s3_send lib c method path query body content_type n =
     (let rq = signed_request (li_crypto lib) c (amz_datetime_at (li_now lib n)) method path query body content_type in
      case li_build lib rq of
        Some e \<Rightarrow> (Err (internal (''s3: building request failed: '' @ e)), n)
      | None \<Rightarrow>
          (case li_send lib rq n of
             (SendFailed, n') \<Rightarrow> (Err (internal ''s3: request to the storage endpoint failed''), n')
           | (BodyFailed, n') \<Rightarrow> (Err (internal ''s3: reading the response body failed''), n')
           | (Answered a, n') \<Rightarrow> (Ok a, n')))"

definition s3_error :: "'n s3_lib \<Rightarrow> s3_answer \<Rightarrow> error" where
  "s3_error lib a =
     (case parse_error_xml (li_xml lib) (an_body a) of
        Some (cde, _) \<Rightarrow>
          if cde = ''NoSuchBucket'' then internal_storage_error
          else if cde = ''NoSuchKey'' \<or> an_status a = 404 then not_found
          else internal_storage_error
      | None \<Rightarrow> if an_status a = 404 then not_found else internal_storage_error)"

definition PART_SIZE :: nat where "PART_SIZE = 8 * 1024 * 1024"

function part_ranges_from :: "nat \<Rightarrow> nat \<Rightarrow> (nat \<times> nat) list" where
  "part_ranges_from start len =
     (if start < len then (start, min (start + PART_SIZE) len) # part_ranges_from (start + PART_SIZE) len else [])"
  by pat_completeness auto
termination
  by (relation "measure (\<lambda>(start, len). len - start)") (auto simp: PART_SIZE_def)

definition part_ranges :: "nat \<Rightarrow> (nat \<times> nat) list" where "part_ranges len = part_ranges_from 0 len"

definition complete_multipart_body :: "(nat \<times> str) list \<Rightarrow> str" where
  "complete_multipart_body parts =
     ''<CompleteMultipartUpload>'' @
     concat (map (\<lambda>(i, etag). ''<Part><PartNumber>'' @ show_nat i @ ''</PartNumber><ETag>'' @ etag @ ''</ETag></Part>'') parts) @
     ''</CompleteMultipartUpload>''"

definition abort_multipart :: "'n s3_lib \<Rightarrow> s3_config \<Rightarrow> str \<Rightarrow> str \<Rightarrow> 'n \<Rightarrow> 'n" where
  "abort_multipart lib c path upload_id n = snd (s3_send lib c ''DELETE'' path [(''uploadId'', upload_id)] [] None n)"

definition byte_slice :: "nat \<Rightarrow> nat \<Rightarrow> bytes \<Rightarrow> bytes" where "byte_slice start end_at b = take (end_at - start) (drop start b)"

fun put_parts ::
    "'n s3_lib \<Rightarrow> s3_config \<Rightarrow> str \<Rightarrow> str \<Rightarrow> bytes \<Rightarrow> nat \<Rightarrow> (nat \<times> nat) list \<Rightarrow> (nat \<times> str) list \<Rightarrow> 'n \<Rightarrow>
       (error, (nat \<times> str) list) result \<times> 'n" where
  "put_parts lib c path upload_id body i [] parts n = (Ok parts, n)"
| "put_parts lib c path upload_id body i ((start, end_at) # rs) parts n =
     (case s3_send lib c ''PUT'' path [(''partNumber'', show_nat (i + 1)), (''uploadId'', upload_id)] (byte_slice start end_at body) None n of
        (Err e, n') \<Rightarrow> (Err e, n')
      | (Ok a, n') \<Rightarrow>
          if \<not> is_success (an_status a)
          then (Err (s3_error lib a), abort_multipart lib c path upload_id n')
          else (case an_etag a of
                  None \<Rightarrow> (Err (internal ''s3: UploadPart response carried no ETag''), n')
                | Some etag \<Rightarrow> put_parts lib c path upload_id body (i + 1) rs (parts @ [(i + 1, etag)]) n'))"

definition put_multipart :: "'n s3_lib \<Rightarrow> s3_config \<Rightarrow> str \<Rightarrow> str \<Rightarrow> bytes \<Rightarrow> str \<Rightarrow> 'n \<Rightarrow> (error, unit) result \<times> 'n" where
  "put_multipart lib c bucket key body mime n =
     (let path = object_path c bucket key in
      case s3_send lib c ''POST'' path [(''uploads'', [])] [] (Some mime) n of
        (Err e, n1) \<Rightarrow> (Err e, n1)
      | (Ok a, n1) \<Rightarrow>
          if \<not> is_success (an_status a) then (Err (s3_error lib a), n1)
          else
            (case parse_upload_id (li_xml lib) (an_body a) of
               Err e \<Rightarrow> (Err e, n1)
             | Ok upload_id \<Rightarrow>
                 (case put_parts lib c path upload_id body 0 (part_ranges (length body)) [] n1 of
                    (Err e, n2) \<Rightarrow> (Err e, n2)
                  | (Ok parts, n2) \<Rightarrow>
                      (case s3_send lib c ''POST'' path [(''uploadId'', upload_id)] (complete_multipart_body parts) (Some ''application/xml'') n2 of
                         (Err e, n3) \<Rightarrow> (Err e, n3)
                       | (Ok a3, n3) \<Rightarrow>
                           if \<not> is_success (an_status a3) \<or> parse_error_xml (li_xml lib) (an_body a3) \<noteq> None
                           then (Err (s3_error lib a3), abort_multipart lib c path upload_id n3)
                           else (Ok (), n3)))))"

definition ensure_bucket :: "'n s3_lib \<Rightarrow> s3_config \<Rightarrow> 'n \<Rightarrow> (error, unit) result \<times> 'n" where
  "ensure_bucket lib c n =
     (case s3_send lib c ''PUT'' (''/'' @ s3_bucket c) [] [] None n of
        (Err e, n') \<Rightarrow> (Err e, n')
      | (Ok a, n') \<Rightarrow>
          (if is_success (an_status a) then Ok ()
           else (case parse_error_xml (li_xml lib) (an_body a) of
                   Some (cde, _) \<Rightarrow>
                     if cde = ''BucketAlreadyOwnedByYou'' \<or> cde = ''BucketAlreadyExists'' then Ok () else Err (s3_error lib a)
                 | None \<Rightarrow> Err (s3_error lib a)), n'))"

definition s3_put :: "'n s3_lib \<Rightarrow> s3_config \<Rightarrow> str \<Rightarrow> str \<Rightarrow> bytes \<Rightarrow> str \<Rightarrow> 'n \<Rightarrow> (error, unit) result \<times> 'n" where
  "s3_put lib c bucket key body mime n =
     (case validate_key key of
        Err e \<Rightarrow> (Err e, n)
      | Ok _ \<Rightarrow>
          if PART_SIZE < length body then put_multipart lib c bucket key body mime n
          else (case s3_send lib c ''PUT'' (object_path c bucket key) [] body (Some mime) n of
                  (Err e, n') \<Rightarrow> (Err e, n')
                | (Ok a, n') \<Rightarrow> (if is_success (an_status a) then Ok () else Err (s3_error lib a), n')))"

definition s3_get :: "'n s3_lib \<Rightarrow> s3_config \<Rightarrow> str \<Rightarrow> str \<Rightarrow> 'n \<Rightarrow> (error, bytes) result \<times> 'n" where
  "s3_get lib c bucket key n =
     (case s3_send lib c ''GET'' (object_path c bucket key) [] [] None n of
        (Err e, n') \<Rightarrow> (Err e, n')
      | (Ok a, n') \<Rightarrow> (if is_success (an_status a) then Ok (an_body a) else Err (s3_error lib a), n'))"

definition s3_delete :: "'n s3_lib \<Rightarrow> s3_config \<Rightarrow> str \<Rightarrow> str \<Rightarrow> 'n \<Rightarrow> (error, unit) result \<times> 'n" where
  "s3_delete lib c bucket key n =
     (case s3_send lib c ''DELETE'' (object_path c bucket key) [] [] None n of
        (Err e, n') \<Rightarrow> (Err e, n')
      | (Ok a, n') \<Rightarrow> (if is_success (an_status a) \<or> an_status a = 404 then Ok () else Err (s3_error lib a), n'))"

definition s3_presign_get :: "'n s3_lib \<Rightarrow> s3_config \<Rightarrow> str \<Rightarrow> str \<Rightarrow> nat \<Rightarrow> 'n \<Rightarrow> (error, str option) result" where
  "s3_presign_get lib c bucket key ttl n =
     Ok (Some (presign_url (li_crypto lib) (config_credentials c) (s3_endpoint c) (object_path c bucket key) (max ttl 1)
       (amz_datetime_at (li_now lib n))))"

section \<open>What a signature covers\<close>

lemma uri_encode_component: "uri_encode s False = oauth_encode s"
  by (induction s) (simp_all add: uri_encode_def oauth_encode_def unreserved_def)

lemma oauth_encode_inj: "oauth_encode a = oauth_encode b \<longleftrightarrow> a = b"
  using encode_decode [of a] encode_decode [of b] by (metis option.inject)

lemma sort_mset: "sort xs = sort ys \<longleftrightarrow> mset xs = mset ys" for xs ys :: "'a :: linorder list"
  by (metis mset_sort properties_for_sort sorted_sort)

definition encoded_pair :: "str \<times> str \<Rightarrow> str \<times> str" where "encoded_pair = (\<lambda>(k, v). (oauth_encode k, oauth_encode v))"

lemma encoded_pair_inj: "inj encoded_pair"
  by (auto simp: inj_def encoded_pair_def oauth_encode_inj split: prod.splits)

definition pair_text :: "str \<times> str \<Rightarrow> str" where "pair_text = (\<lambda>(k, v). k @ ''='' @ v)"

lemma canonical_query_alt: "canonical_query q = join_with ''&'' (map pair_text (sort (map encoded_pair q)))"
  by (simp add: canonical_query_def uri_encode_component encoded_pair_def pair_text_def)

lemma pair_text_inj: "CHR ''='' \<notin> set (fst p) \<Longrightarrow> CHR ''='' \<notin> set (fst p') \<Longrightarrow> pair_text p = pair_text p' \<longleftrightarrow> p = p'"
  using append_sep_inj [of "CHR ''=''" "fst p" "fst p'" "snd p" "snd p'"] by (auto simp: pair_text_def split: prod.splits)

lemma map_inj_eq: "(\<And>x y. x \<in> set xs \<Longrightarrow> y \<in> set ys \<Longrightarrow> f x = f y \<Longrightarrow> x = y) \<Longrightarrow> map f xs = map f ys \<longleftrightarrow> xs = ys"
proof (induction xs arbitrary: ys)
  case (Cons x xs)
  show ?case
  proof (cases ys)
    case (Cons y zs)
    have "map f xs = map f zs \<longleftrightarrow> xs = zs" using Cons.prems Cons by (intro Cons.IH) auto
    then show ?thesis using Cons.prems Cons by auto
  qed simp
qed auto

lemma canonical_query_mset: "canonical_query q = canonical_query q' \<longleftrightarrow> mset q = mset q'"
proof
  let ?ps = "\<lambda>q. map pair_text (sort (map encoded_pair q))"
  have amp: "CHR ''&'' \<notin> set p" if "p \<in> set (?ps q)" for p q
    using that encode_no_sep [of "CHR ''&''"] by (auto simp: pair_text_def encoded_pair_def)
  have ne: "sort (map encoded_pair q) = [] \<longleftrightarrow> q = []" for q by (metis length_0_conv length_map length_sort)
  have split: "?ps q = (if q = [] then [] else split_on CHR ''&'' (canonical_query q))" for q
    using split_on_join [of "?ps q" "CHR ''&''"] amp ne [of q] by (auto simp: canonical_query_alt)
  have empty: "canonical_query q = [] \<longleftrightarrow> q = []" for q
  proof (cases q)
    case (Cons p q1)
    then obtain x xs where x: "sort (map encoded_pair q) = x # xs" by (metis length_0_conv length_map length_sort list.exhaust list.simps(3))
    then show ?thesis using Cons by (cases xs) (auto simp: canonical_query_alt pair_text_def split: prod.splits)
  qed (simp add: canonical_query_def)
  assume eq: "canonical_query q = canonical_query q'"
  then have "?ps q = ?ps q'" using split [of q] split [of q'] empty [of q] empty [of q'] by simp
  moreover have "CHR ''='' \<notin> set (fst p)" if "p \<in> set (sort (map encoded_pair q))" for p q
    using that encode_no_sep [of "CHR ''=''"] by (auto simp: encoded_pair_def)
  ultimately have "sort (map encoded_pair q) = sort (map encoded_pair q')"
    by (subst (asm) map_inj_eq) (metis pair_text_inj)+
  then have "image_mset encoded_pair (mset q) = image_mset encoded_pair (mset q')" by (simp add: sort_mset)
  then show "mset q = mset q'" using injD [OF multiset.inj_map [OF encoded_pair_inj]] by blast
next
  assume "mset q = mset q'"
  then have "sort (map encoded_pair q) = sort (map encoded_pair q')" by (simp add: sort_mset)
  then show "canonical_query q = canonical_query q'" by (simp add: canonical_query_alt)
qed

definition one_line :: "str \<Rightarrow> bool" where "one_line s \<longleftrightarrow> CHR 0x0A \<notin> set s"

definition header_line :: "str \<times> str \<Rightarrow> str" where "header_line = (\<lambda>(k, v). k @ '':'' @ v)"

lemma canonical_request_lines:
  assumes "one_line m" "one_line p" "one_line ph" "\<forall>(k, v) \<in> set hdrs. one_line k \<and> one_line v"
  shows "split_on CHR 0x0A (canonical_request m p q hdrs ph) =
    m # p # canonical_query q # map header_line hdrs @ [[], join_with '';'' (map fst hdrs), ph]"
proof -
  have cq: "one_line (canonical_query q)"
  proof -
    have "c \<noteq> CHR 0x0A" if "c \<in> set (oauth_encode s)" for c s
      using encode_chars [OF that] by (auto simp: unreserved_def byte_in_def)
    then have "\<forall>x \<in> set (map pair_text (sort (map encoded_pair q))). CHR 0x0A \<notin> set x"
      by (auto simp: pair_text_def encoded_pair_def)
    moreover have "\<forall>x \<in> set xs. CHR 0x0A \<notin> set x \<Longrightarrow> CHR 0x0A \<notin> set (join_with ''&'' xs)" for xs
      by (induction "''&'' :: str" xs rule: join_with.induct) auto
    ultimately show ?thesis by (simp add: canonical_query_alt one_line_def)
  qed
  have names: "one_line (join_with '';'' (map fst hdrs))"
  proof -
    have "\<forall>x \<in> set xs. CHR 0x0A \<notin> set x \<Longrightarrow> CHR 0x0A \<notin> set (join_with '';'' xs)" for xs
      by (induction "'';'' :: str" xs rule: join_with.induct) auto
    from this [of "map fst hdrs"] show ?thesis using assms(4) unfolding one_line_def by fastforce
  qed
  have hs: "split_on CHR 0x0A (concat (map (\<lambda>(k, v). k @ '':'' @ v @ newline) hdrs) @ rest) = map header_line hdrs @ split_on CHR 0x0A rest" for rest
    using assms(4)
  proof (induction hdrs)
    case (Cons h hs)
    obtain k v where h: "h = (k, v)" by (cases h)
    have "CHR 0x0A \<notin> set (k @ '':'' @ v)" using Cons.prems h by (auto simp: one_line_def)
    with Cons h split_on_append_sep [of "CHR 0x0A" "k @ '':'' @ v"] show ?case
      by (simp add: header_line_def newline_def split_on_no_sep)
  qed simp
  have step: "one_line a \<Longrightarrow> split_on CHR 0x0A (a @ newline @ rest) = a # split_on CHR 0x0A rest" for a rest
    by (simp add: newline_def split_on_append_sep one_line_def split_on_no_sep)
  have blank: "split_on CHR 0x0A (newline @ rest) = [] # split_on CHR 0x0A rest" for rest
    by (simp add: newline_def)
  have end_line: "split_on CHR 0x0A ph = [ph]" using assms(3) by (simp add: one_line_def split_on_no_sep)
  show ?thesis
    unfolding canonical_request_def step [OF assms(1)] step [OF assms(2)] step [OF cq] hs blank step [OF names] end_line by simp
qed

text \<open>The canonical request that is signed determines the request. With components on one line each, two
  requests have one canonical form exactly when they agree in method, path, query up to the order of its
  parameters, headers, and payload digest: nothing can be moved between the components, and no parameter
  or header can be added, dropped or changed under the same signature.\<close>

lemma signature_covers_request:
  assumes "one_line m" "one_line p" "one_line ph" "\<forall>(k, v) \<in> set hdrs. one_line k \<and> one_line v \<and> CHR '':'' \<notin> set k"
    "one_line m'" "one_line p'" "one_line ph'" "\<forall>(k, v) \<in> set hdrs'. one_line k \<and> one_line v \<and> CHR '':'' \<notin> set k"
  shows "canonical_request m p q hdrs ph = canonical_request m' p' q' hdrs' ph' \<longleftrightarrow>
    m = m' \<and> p = p' \<and> mset q = mset q' \<and> hdrs = hdrs' \<and> ph = ph'"
proof
  assume eq: "canonical_request m p q hdrs ph = canonical_request m' p' q' hdrs' ph'"
  have "\<forall>(k, v) \<in> set hdrs. one_line k \<and> one_line v" "\<forall>(k, v) \<in> set hdrs'. one_line k \<and> one_line v" using assms(4,8) by auto
  from canonical_request_lines [OF assms(1-3) this(1), of q] canonical_request_lines [OF assms(5-7) this(2), of q'] eq
  have l: "m = m'" "p = p'" "canonical_query q = canonical_query q'" "map header_line hdrs = map header_line hdrs'" "ph = ph'"
    by (simp_all add: append_eq_append_conv)
  have "hdrs = hdrs'"
  proof (rule map_inj_eq [THEN iffD1, OF _ l(4)])
    fix x y
    assume xy: "x \<in> set hdrs" "y \<in> set hdrs'" "header_line x = header_line y"
    have "CHR '':'' \<notin> set (fst x)" "CHR '':'' \<notin> set (fst y)" using xy assms(4,8) by auto
    then have "fst x = fst y \<and> snd x = snd y"
      using append_sep_inj [of "CHR '':''" "fst x" "fst y" "snd x" "snd y"] xy(3) by (simp add: header_line_def case_prod_unfold)
    then show "x = y" by (simp add: prod_eq_iff)
  qed
  with l show "m = m' \<and> p = p' \<and> mset q = mset q' \<and> hdrs = hdrs' \<and> ph = ph'" by (simp add: canonical_query_mset)
next
  assume "m = m' \<and> p = p' \<and> mset q = mset q' \<and> hdrs = hdrs' \<and> ph = ph'"
  moreover from this have "canonical_query q = canonical_query q'" by (simp only: canonical_query_mset)
  ultimately show "canonical_request m p q hdrs ph = canonical_request m' p' q' hdrs' ph'"
    by (simp only: canonical_request_def)
qed

text \<open>The signature does not depend on the order in which the caller lists headers or parameters.\<close>

lemma authorization_order_free:
  "mset query = mset query' \<Longrightarrow> mset headers = mset headers' \<Longrightarrow>
     authorization cr creds service method path query headers ph datetime = authorization cr creds service method path query' headers' ph datetime"
proof -
  assume q: "mset query = mset query'" and h: "mset headers = mset headers'"
  have "canonical_headers headers = canonical_headers headers'" using h by (simp add: canonical_headers_def sort_mset)
  moreover have "canonical_query query = canonical_query query'" using q by (simp add: canonical_query_mset)
  ultimately show ?thesis by (simp add: authorization_def canonical_request_def)
qed

section \<open>The time stamp and the endpoint\<close>

text \<open>The second copy of the calendar agrees with the framework's clock: the time stamp signed into every
  request is the date and time of the clock, at every instant.\<close>

lemma amz_datetime_is_civil:
  "amz_datetime_at secs =
     (case civil_from_unix_secs secs of (y, mo, d, h, mi, s) \<Rightarrow> pad 4 y @ pad 2 mo @ pad 2 d @ ''T'' @ pad 2 h @ pad 2 mi @ pad 2 s @ ''Z'')"
proof -
  have era: "(if 0 \<le> z then z else z - 146096) div 146097 = z div 146097" if "0 \<le> z" for z :: int using that by simp
  have doe: "z - z div 146097 * 146097 = z mod 146097" for z :: int by (simp add: minus_div_mult_eq_mod)
  have "(secs mod 86400) div 3600 = secs mod 86400 div 3600" ..
  have mi: "int (secs mod 86400) mod 3600 = int (secs mod 3600)" by (simp add: zmod_int mod_mod_cancel)
  have se: "int (secs mod 86400) mod 60 = int (secs mod 60)" by (simp add: zmod_int mod_mod_cancel)
  have z: "0 \<le> int (secs div 86400) + 719468" by simp
  show ?thesis
    unfolding amz_datetime_at_def civil_from_unix_secs_def civil_from_days_def Let_def era [OF z] doe mi se prod.case
    by (simp only: zdiv_int of_nat_numeral)
qed

lemma endpoint_guard_agrees: "plaintext_endpoint_ok e = is_loopback_http_ok e"
  by (auto simp: plaintext_endpoint_ok_def is_loopback_http_ok_def plain_host_def loopback_host_def Let_def split: option.splits)

text \<open>The header signed as \<open>host\<close> is everything after the scheme, while the client sends the authority.\<close>

lemma signed_host_is_authority:
  assumes "split_str_once ''://'' (s3_endpoint c) = Some (scheme, rest)"
  shows "config_host c = takeWhile (\<lambda>x. x \<notin> {CHR ''/'', CHR ''?'', CHR ''#''}) rest \<longleftrightarrow> set rest \<inter> {CHR ''/'', CHR ''?'', CHR ''#''} = {}"
proof -
  have "config_host c = rest" using assms by (simp add: config_host_def)
  then show ?thesis by (auto simp: takeWhile_eq_all_conv eq_commute [of rest])
qed

section \<open>Multipart uploads\<close>

declare part_ranges_from.simps [simp del]

lemma part_size_pos: "0 < PART_SIZE" by (simp add: PART_SIZE_def)

lemma part_ranges_cover: "concat (map (\<lambda>(a, b). byte_slice a b body) (part_ranges_from start (length body))) = drop start body"
proof (induction start "length body" rule: part_ranges_from.induct)
  case (1 start)
  show ?case
  proof (cases "start < length body")
    case True
    have "byte_slice start (min (start + PART_SIZE) (length body)) body = take PART_SIZE (drop start body)"
      by (simp add: byte_slice_def min_def)
    moreover have "drop start body = take PART_SIZE (drop start body) @ drop (start + PART_SIZE) body"
      by (metis append_take_drop_id drop_drop add.commute)
    ultimately show ?thesis using 1 True by (simp add: part_ranges_from.simps [of start])
  qed (simp add: part_ranges_from.simps [of start])
qed

lemma part_ranges_sizes:
  "(\<forall>(a, b) \<in> set (part_ranges_from start len). a < b \<and> b - a \<le> PART_SIZE \<and> b \<le> len) \<and>
   (\<forall>(a, b) \<in> set (butlast (part_ranges_from start len)). b - a = PART_SIZE)"
proof (induction start len rule: part_ranges_from.induct)
  case (1 start len)
  show ?case
  proof (cases "start < len")
    case True
    let ?rs = "part_ranges_from (start + PART_SIZE) len"
    have "min (start + PART_SIZE) len - start = PART_SIZE" if "?rs \<noteq> []"
      using that part_ranges_from.simps [of "start + PART_SIZE" len] by (auto split: if_splits)
    with 1 [OF True] True part_size_pos show ?thesis
      by (auto simp: part_ranges_from.simps [of start len])
  qed (simp add: part_ranges_from.simps [of start len])
qed

text \<open>The same library, with a record of what is sent and answered.\<close>

type_synonym s3_log = "(s3_request \<times> s3_outcome) list"

definition logged :: "'n s3_lib \<Rightarrow> (s3_log \<times> 'n) s3_lib" where
  "logged lib = \<lparr>li_crypto = li_crypto lib, li_xml = li_xml lib, li_now = (\<lambda>(l, n). li_now lib n), li_build = li_build lib,
     li_send = (\<lambda>rq (l, n). case li_send lib rq n of (res, n') \<Rightarrow> (res, (l @ [(rq, res)], n')))\<rparr>"

lemma logged_send:
  assumes "s3_send (logged lib) c method path query body ct (l, n) = (Ok a, (l', n'))"
  shows "\<exists>t. l' = l @ [(signed_request (li_crypto lib) c t method path query body ct, Answered a)]"
  using assms by (auto simp: s3_send_def logged_def Let_def split: option.splits prod.splits s3_outcome.splits)

text \<open>One part: its number and the upload, its bytes, and an answer that accepts it with an \<open>ETag\<close>.\<close>

definition part_stored :: "crypto \<Rightarrow> s3_config \<Rightarrow> str \<Rightarrow> str \<Rightarrow> nat \<Rightarrow> bytes \<Rightarrow> str \<Rightarrow> s3_request \<times> s3_outcome \<Rightarrow> bool" where
  "part_stored cr c path upload_id i b etag x \<longleftrightarrow>
     (\<exists>t a. x = (signed_request cr c t ''PUT'' path [(''partNumber'', show_nat i), (''uploadId'', upload_id)] b None, Answered a) \<and>
        is_success (an_status a) \<and> an_etag a = Some etag)"

lemma signed_request_fields [simp]:
  "rq_body (signed_request cr c t method path query b ct) = b"
  "rq_method (signed_request cr c t method path query b ct) = method"
  "rq_uri (signed_request cr c t method path query b ct) = s3_endpoint c @ path @ query_text query"
  by (simp_all add: signed_request_def Let_def)

lemma put_parts_log:
  "put_parts (logged lib) c path uid body i rs parts (l, n) = (Ok parts', (l', n')) \<Longrightarrow>
   \<exists>ps etags. l' = l @ ps \<and> length ps = length rs \<and> length etags = length rs \<and>
     (\<forall>j < length rs. part_stored (li_crypto lib) c path uid (i + j + 1) (byte_slice (fst (rs ! j)) (snd (rs ! j)) body) (etags ! j) (ps ! j)) \<and>
     parts' = parts @ zip [i + 1 ..< i + 1 + length rs] etags"
proof (induction rs arbitrary: i parts l n)
  case (Cons r rs)
  obtain a b where r: "r = (a, b)" by (cases r)
  let ?send = "s3_send (logged lib) c ''PUT'' path [(''partNumber'', show_nat (i + 1)), (''uploadId'', uid)] (byte_slice a b body) None (l, n)"
  obtain ans etag l1 n1 where s: "?send = (Ok ans, (l1, n1))" and e: "an_etag ans = Some etag" "is_success (an_status ans)"
      and rest: "put_parts (logged lib) c path uid body (i + 1) rs (parts @ [(i + 1, etag)]) (l1, n1) = (Ok parts', (l', n'))"
    using Cons.prems r by (auto split: sum.splits prod.splits if_splits option.splits)
  from logged_send [OF s] obtain t where
    l1: "l1 = l @ [(signed_request (li_crypto lib) c t ''PUT'' path [(''partNumber'', show_nat (i + 1)), (''uploadId'', uid)] (byte_slice a b body) None, Answered ans)]"
    by blast
  let ?rq = "signed_request (li_crypto lib) c t ''PUT'' path [(''partNumber'', show_nat (i + 1)), (''uploadId'', uid)] (byte_slice a b body) None"
  from Cons.IH [OF rest] obtain ps etags where ih: "l' = l1 @ ps" "length ps = length rs" "length etags = length rs"
      "\<forall>j < length rs. part_stored (li_crypto lib) c path uid (i + 1 + j + 1) (byte_slice (fst (rs ! j)) (snd (rs ! j)) body) (etags ! j) (ps ! j)"
      "parts' = (parts @ [(i + 1, etag)]) @ zip [i + 1 + 1 ..< i + 1 + 1 + length rs] etags"
    by blast
  have "part_stored (li_crypto lib) c path uid (i + j + 1) (byte_slice (fst ((r # rs) ! j)) (snd ((r # rs) ! j)) body) ((etag # etags) ! j) (((?rq, Answered ans) # ps) ! j)"
    if "j < length (r # rs)" for j
    using that ih(4) r e by (cases j) (auto simp: part_stored_def)
  moreover have "parts' = parts @ zip [i + 1 ..< i + 1 + length (r # rs)] (etag # etags)"
    using ih(5) by (simp add: upt_conv_Cons del: upt_Suc)
  ultimately show ?case using ih(1-3) l1 by (intro exI [of _ "(?rq, Answered ans) # ps"] exI [of _ "etag # etags"]) simp
qed simp

lemma put_multipart_stages:
  assumes "put_multipart lib c bucket key body mime n = (Ok (), n')"
  obtains a0 n1 uid parts n2 a3 where
    "s3_send lib c ''POST'' (object_path c bucket key) [(''uploads'', [])] [] (Some mime) n = (Ok a0, n1)"
    "parse_upload_id (li_xml lib) (an_body a0) = Ok uid"
    "put_parts lib c (object_path c bucket key) uid body 0 (part_ranges (length body)) [] n1 = (Ok parts, n2)"
    "s3_send lib c ''POST'' (object_path c bucket key) [(''uploadId'', uid)] (complete_multipart_body parts) (Some ''application/xml'') n2 = (Ok a3, n')"
    "is_success (an_status a3)" "parse_error_xml (li_xml lib) (an_body a3) = None"
  using assms that
  by (auto simp: put_multipart_def Let_def simp del: not_None_eq not_Some_eq split: sum.splits prod.splits if_splits)

lemma uploads_query: "query_text [(''uploads'', [])] = ''?uploads''"
  by code_simp

text \<open>C33: A multipart upload that succeeds has uploaded the body. It sent an initiation, then the parts, numbered from
  one, whose bytes in order are exactly the body, each of at most the part size and all but the last of exactly it,
  each accepted with an ETag, and a completion that lists those numbers with those ETags, all for one upload id;
  and the completion was answered with success and without an error document.\<close>

theorem multipart_uploads_exactly:
  assumes "put_multipart (logged lib) c bucket key body mime ([], n) = (Ok (), (log, n'))"
  shows "\<exists>ini ps fin uid etags a.
    log = ini # ps @ [(fin, Answered a)] \<and> length etags = length ps \<and>
    rq_uri (fst ini) = s3_endpoint c @ object_path c bucket key @ ''?uploads'' \<and>
    (\<forall>j < length ps. part_stored (li_crypto lib) c (object_path c bucket key) uid (j + 1) (rq_body (fst (ps ! j))) (etags ! j) (ps ! j)) \<and>
    concat (map (rq_body \<circ> fst) ps) = body \<and>
    (\<forall>x \<in> set ps. 0 < length (rq_body (fst x)) \<and> length (rq_body (fst x)) \<le> PART_SIZE) \<and>
    (\<forall>x \<in> set (butlast ps). length (rq_body (fst x)) = PART_SIZE) \<and>
    rq_uri fin = s3_endpoint c @ object_path c bucket key @ query_text [(''uploadId'', uid)] \<and>
    rq_body fin = complete_multipart_body (zip [1 ..< 1 + length ps] etags) \<and>
    is_success (an_status a) \<and> parse_error_xml (li_xml lib) (an_body a) = None"
proof -
  let ?path = "object_path c bucket key" and ?rs = "part_ranges (length body)"
  obtain a0 n1 uid parts n2 a3 where st:
    "s3_send (logged lib) c ''POST'' ?path [(''uploads'', [])] [] (Some mime) ([], n) = (Ok a0, n1)"
    "put_parts (logged lib) c ?path uid body 0 ?rs [] n1 = (Ok parts, n2)"
    "s3_send (logged lib) c ''POST'' ?path [(''uploadId'', uid)] (complete_multipart_body parts) (Some ''application/xml'') n2 = (Ok a3, (log, n'))"
    "is_success (an_status a3)" "parse_error_xml (li_xml (logged lib)) (an_body a3) = None"
    by (rule put_multipart_stages [OF assms])
  obtain l1 m1 l2 m2 where n: "n1 = (l1, m1)" "n2 = (l2, m2)" by (cases n1; cases n2)
  obtain t1 where l1: "l1 = [(signed_request (li_crypto lib) c t1 ''POST'' ?path [(''uploads'', [])] [] (Some mime), Answered a0)]"
    using logged_send [OF st(1) [unfolded n(1)]] by auto
  obtain t3 where l3: "log = l2 @ [(signed_request (li_crypto lib) c t3 ''POST'' ?path [(''uploadId'', uid)] (complete_multipart_body parts) (Some ''application/xml''), Answered a3)]"
    using logged_send [OF st(3) [unfolded n(2)]] by auto
  obtain ps etags where ps: "l2 = l1 @ ps" "length ps = length ?rs" "length etags = length ?rs" "parts = zip [1 ..< 1 + length ?rs] etags"
      and stored: "\<forall>j < length ?rs. part_stored (li_crypto lib) c ?path uid (j + 1) (byte_slice (fst (?rs ! j)) (snd (?rs ! j)) body) (etags ! j) (ps ! j)"
    using put_parts_log [OF st(2) [unfolded n]] by auto
  have body: "rq_body (fst (ps ! j)) = byte_slice (fst (?rs ! j)) (snd (?rs ! j)) body" if "j < length ?rs" for j
    using stored that by (auto simp: part_stored_def)
  then have maps: "map (rq_body \<circ> fst) ps = map (\<lambda>(a, b). byte_slice a b body) ?rs"
    using ps(2) by (intro nth_equalityI) (simp_all add: case_prod_unfold)
  have sizes: "\<forall>(a, b) \<in> set ?rs. a < b \<and> b - a \<le> PART_SIZE \<and> b \<le> length body" "\<forall>(a, b) \<in> set (butlast ?rs). b - a = PART_SIZE \<and> b \<le> length body"
    using part_ranges_sizes [of 0 "length body"] by (auto simp: part_ranges_def dest: in_set_butlastD)
  have len: "length (byte_slice a b body) = b - a" if "b \<le> length body" for a b using that by (simp add: byte_slice_def)
  have all: "\<forall>x \<in> set ps. 0 < length (rq_body (fst x)) \<and> length (rq_body (fst x)) \<le> PART_SIZE"
  proof
    fix x assume "x \<in> set ps"
    then have "rq_body (fst x) \<in> set (map (rq_body \<circ> fst) ps)" by (metis comp_apply image_eqI list.set_map)
    then obtain a b where "(a, b) \<in> set ?rs" "rq_body (fst x) = byte_slice a b body" unfolding maps by auto
    with sizes(1) len [of b a] show "0 < length (rq_body (fst x)) \<and> length (rq_body (fst x)) \<le> PART_SIZE" by auto
  qed
  have most: "\<forall>x \<in> set (butlast ps). length (rq_body (fst x)) = PART_SIZE"
  proof
    fix x assume "x \<in> set (butlast ps)"
    then have "rq_body (fst x) \<in> set (map (rq_body \<circ> fst) (butlast ps))" by (metis comp_apply image_eqI list.set_map)
    then obtain a b where "(a, b) \<in> set (butlast ?rs)" "rq_body (fst x) = byte_slice a b body"
      unfolding map_butlast maps by (auto simp flip: map_butlast)
    with sizes(2) len [of b a] show "length (rq_body (fst x)) = PART_SIZE" by auto
  qed
  have "concat (map (rq_body \<circ> fst) ps) = body"
    unfolding maps part_ranges_def part_ranges_cover by simp
  moreover have "\<forall>j < length ps. part_stored (li_crypto lib) c ?path uid (j + 1) (rq_body (fst (ps ! j))) (etags ! j) (ps ! j)"
    using stored body ps(2) by simp
  moreover have "log = hd l1 # ps @ [(signed_request (li_crypto lib) c t3 ''POST'' ?path [(''uploadId'', uid)] (complete_multipart_body parts) (Some ''application/xml''), Answered a3)]"
    using l1 l3 ps(1) by simp
  moreover have "rq_uri (fst (hd l1)) = s3_endpoint c @ ?path @ ''?uploads''" using l1 by (simp add: uploads_query)
  moreover have "parse_error_xml (li_xml lib) (an_body a3) = None" using st(5) by (simp add: logged_def)
  ultimately show ?thesis using all most st(4) ps(2-4)
    by (intro exI [of _ "hd l1"] exI [of _ ps] exI [of _ uid] exI [of _ etags] exI [of _ a3]
        exI [of _ "signed_request (li_crypto lib) c t3 ''POST'' ?path [(''uploadId'', uid)] (complete_multipart_body parts) (Some ''application/xml'')"])
      simp
qed

definition demo_s3 :: "nat s3_lib" where
  "demo_s3 = \<lparr>li_crypto = demo_crypto, li_xml = (\<lambda>b. if b = ''i'' then [XStart ''UploadId'', XText (Some ''u''), XEnd] else []),
     li_now = (\<lambda>_. 0), li_build = (\<lambda>_. None),
     li_send = (\<lambda>rq n. (Answered \<lparr>an_status = 200, an_etag = (if n = 9 then None else Some ''e''), an_body = (if n = 0 \<or> n = 8 then ''i'' else [])\<rparr>, n + 1))\<rparr>"

definition demo_config :: s3_config where
  "demo_config = \<lparr>s3_bucket = ''b'', s3_region = ''r'', s3_endpoint = ''https://h'', s3_access_key = ''a'', s3_secret_key = ''s''\<rparr>"

lemma demo_logged_send:
  "\<exists>l'. s3_send (logged demo_s3) c m p q b ct (l, n) =
     (Ok \<lparr>an_status = 200, an_etag = (if n = 9 then None else Some ''e''), an_body = (if n = 0 \<or> n = 8 then ''i'' else [])\<rparr>, (l', n + 1))"
  by (simp add: s3_send_def logged_def demo_s3_def)

lemma demo_part_ranges: "part_ranges (Suc (Suc 0)) = [(0, 2)]"
  by (simp add: part_ranges_def part_ranges_from.simps PART_SIZE_def)

lemma demo_upload:
  "\<exists>log. put_multipart (logged demo_s3) demo_config ''b'' ''k'' ''hi'' ''t'' ([], 0) = (Ok (), (log, 3))"
proof -
  let ?p = "object_path demo_config ''b'' ''k''"
  have u: "parse_upload_id (li_xml (logged demo_s3)) ''i'' = Ok ''u''" "parse_error_xml (li_xml (logged demo_s3)) [] = None"
    by (simp_all add: parse_upload_id_def parse_error_xml_def texts_of_def logged_def demo_s3_def Let_def)
  obtain l1 where 1: "s3_send (logged demo_s3) demo_config ''POST'' ?p [(''uploads'', [])] [] (Some ''t'') ([], 0) =
      (Ok \<lparr>an_status = 200, an_etag = Some ''e'', an_body = ''i''\<rparr>, (l1, 1))"
    using demo_logged_send [of demo_config "''POST''" ?p "[(''uploads'', [])]" "[]" "Some ''t''" "[]" 0] by auto
  obtain l2 where 2: "s3_send (logged demo_s3) demo_config ''PUT'' ?p [(''partNumber'', show_nat 1), (''uploadId'', ''u'')] ''hi'' None (l1, 1) =
      (Ok \<lparr>an_status = 200, an_etag = Some ''e'', an_body = []\<rparr>, (l2, 2))"
    using demo_logged_send [of demo_config "''PUT''" ?p "[(''partNumber'', show_nat 1), (''uploadId'', ''u'')]" "''hi''" None l1 1]
    by (auto simp: numeral_2_eq_2)
  obtain l3 where 3: "s3_send (logged demo_s3) demo_config ''POST'' ?p [(''uploadId'', ''u'')] (complete_multipart_body [(1, ''e'')]) (Some ''application/xml'') (l2, 2) =
      (Ok \<lparr>an_status = 200, an_etag = Some ''e'', an_body = []\<rparr>, (l3, 3))"
    using demo_logged_send [of demo_config "''POST''" ?p "[(''uploadId'', ''u'')]" "complete_multipart_body [(1, ''e'')]" "Some ''application/xml''" l2 2]
    by (auto simp: numeral_3_eq_3 numeral_2_eq_2)
  have "put_parts (logged demo_s3) demo_config ?p ''u'' ''hi'' 0 [(0, 2)] [] (l1, 1) = (Ok [(1, ''e'')], (l2, 2))"
    using 2 by (simp add: byte_slice_def is_success_def)
  then show ?thesis using 1 3 u by (simp add: put_multipart_def Let_def is_success_def demo_part_ranges del: put_parts.simps)
qed

theorem multipart_uploads_exactly_witness:
  "\<exists>log ini ps fin a. put_multipart (logged demo_s3) demo_config ''b'' ''k'' ''hi'' ''t'' ([], 0) = (Ok (), (log, 3)) \<and>
     log = ini # ps @ [(fin, Answered a)] \<and> concat (map (rq_body \<circ> fst) ps) = ''hi''"
proof -
  from demo_upload obtain log where l: "put_multipart (logged demo_s3) demo_config ''b'' ''k'' ''hi'' ''t'' ([], 0) = (Ok (), (log, 3))" by blast
  with multipart_uploads_exactly [OF l] show ?thesis by metis
qed

text \<open>A failing multipart upload is aborted only when the server refuses a part with a status. When a part is
  answered with success but without an ETag, or the request or its answer is lost, the upload returns at once:
  nothing is sent afterwards, and the initiated upload and its parts stay behind.\<close>

lemma multipart_failure_leaves_upload:
  assumes "s3_send lib c ''POST'' (object_path c bucket key) [(''uploads'', [])] [] (Some mime) n = (Ok a, n1)"
    "is_success (an_status a)" "parse_upload_id (li_xml lib) (an_body a) = Ok uid" "body \<noteq> []"
    "s3_send lib c ''PUT'' (object_path c bucket key) [(''partNumber'', show_nat 1), (''uploadId'', uid)] (take PART_SIZE body) None n1 = (answer, n2)"
  shows "(\<forall>e. answer = Err e \<longrightarrow> put_multipart lib c bucket key body mime n = (Err e, n2)) \<and>
    (\<forall>p. answer = Ok p \<and> is_success (an_status p) \<and> an_etag p = None \<longrightarrow>
       put_multipart lib c bucket key body mime n = (Err (internal ''s3: UploadPart response carried no ETag''), n2)) \<and>
    (\<forall>p. answer = Ok p \<and> \<not> is_success (an_status p) \<longrightarrow>
       put_multipart lib c bucket key body mime n = (Err (s3_error lib p), abort_multipart lib c (object_path c bucket key) uid n2))"
proof -
  have "byte_slice 0 (min PART_SIZE (length body)) body = take PART_SIZE body" by (simp add: byte_slice_def min_def)
  with assms show ?thesis
    using part_ranges_from.simps [of 0 "length body"] by (simp add: put_multipart_def Let_def part_ranges_def)
qed

section \<open>Answers\<close>

text \<open>A missing bucket is an operator's error for every operation that reads the document, but a deletion takes
  any 404 for success.\<close>

lemma missing_bucket:
  assumes "parse_error_xml (li_xml lib) (an_body a) = Some (''NoSuchBucket'', m)" "an_status a = 404"
    "\<And>method path. s3_send lib c method path [] [] None n = (Ok a, n')"
  shows "fst (s3_get lib c bucket key n) = Err internal_storage_error" "fst (s3_delete lib c bucket key n) = Ok ()"
  using assms by (simp_all add: s3_get_def s3_delete_def s3_error_def is_success_def)

lemma config_accepted:
  assumes "config_from_url url ak sk = Ok c"
  shows "is_loopback_http_ok (s3_endpoint c) \<and> s3_bucket c \<noteq> [] \<and> ak = Some (s3_access_key c) \<and> sk = Some (s3_secret_key c)"
  using assms
  by (cases ak; cases sk; cases "strip_str ''s3://'' url") (auto simp: config_from_url_def bind_result_Ok Let_def endpoint_guard_agrees split: option.splits if_splits prod.splits)

end
