(* ===== verification/JC_Validate.thy ===== *)
theory JC_Validate
  imports JC_App JC_Extract
begin

text \<open>
  Validation and the document extension, \<open>jerrycan-validate/src/lib.rs\<close>. An extractor is a function on the request
  as in \<open>JC_Extract\<close>; the \<open>Validate\<close> implementation of a type is an argument.
\<close>

record violation =
  vi_field :: str
  vi_message :: str

definition violation_new :: "str \<Rightarrow> str \<Rightarrow> violation" where
  "violation_new field msg = \<lparr>vi_field = field, vi_message = msg\<rparr>"

definition violations_json :: "violation list \<Rightarrow> json" where
  "violations_json vs = JArray (map (\<lambda>v. JObject [(''field'', JString (vi_field v)), (''message'', JString (vi_message v))]) vs)"

text \<open>\<open>Json\<close> validates its payload.\<close>

definition json_validate :: "('v \<Rightarrow> (violation list, unit) result) \<Rightarrow> 'v \<Rightarrow> (violation list, unit) result" where
  "json_validate check v = check v"

definition extract_valid ::
    "('h request_data \<Rightarrow> (error, 'v) result \<times> 'h request_data) \<Rightarrow> ('v \<Rightarrow> (violation list, unit) result) \<Rightarrow>
       'h request_data \<Rightarrow> (error, 'v) result \<times> 'h request_data" where
  "extract_valid inner check rq =
     (case inner rq of
        (Err e, rq') \<Rightarrow> (Err e, rq')
      | (Ok v, rq') \<Rightarrow>
          (case check v of
             Ok _ \<Rightarrow> (Ok v, rq')
           | Err vs \<Rightarrow> (Err (with_details (violations_json vs) (unprocessable ''validation failed'')), rq')))"

definition http_json :: "'h http_lib \<Rightarrow> str \<Rightarrow> 'h response" where
  "http_json lib doc = insert_header lib ''content-type'' ''application/json'' (into_response lib (RStr doc))"

definition openapi_register :: "'h http_lib \<Rightarrow> str \<Rightarrow> ('h, 'v) app \<Rightarrow> ('h, 'v) app" where
  "openapi_register lib doc a =
     app_route ''/openapi.json'' (route_get (into_handler_fn lib [] (\<lambda>_. Done 0 (RResponse (http_json lib doc))))) a"

section \<open>Lemmas\<close>

text \<open>The violations can be read back from the details: none is dropped or merged.\<close>

lemma violations_json_inj: "violations_json vs = violations_json vs' \<longleftrightarrow> vs = vs'"
proof -
  have "inj (\<lambda>v :: violation. JObject [(''field'', JString (vi_field v)), (''message'', JString (vi_message v))])"
    by (rule injI, rule violation.equality) simp_all
  then show ?thesis by (simp add: violations_json_def)
qed

text \<open>What \<open>Valid<Json<T>>\<close> lets through, and what a client is told otherwise.\<close>

lemma valid_json_exact:
  assumes "extract_valid (extract_json de) (json_validate check) rq = (res, rq')"
  shows "res = Ok v \<longleftrightarrow> (\<exists>b. drain_body rq = (Ok b, rq') \<and> de b = Ok v \<and> check v = Ok ())"
    and "drain_body rq = (Ok b, rq1) \<Longrightarrow> de b = Ok v \<Longrightarrow> check v = Err vs \<Longrightarrow>
      res = Err \<lparr>status = 422, code = ''JC0422'', message = ''validation failed'', details = Some (violations_json vs)\<rparr>"
  using assms
  by (auto simp: extract_valid_def extract_json_def json_validate_def with_details_def unprocessable_def error_new_def split: sum.splits prod.splits)

lemma openapi_answers:
  assumes "http_laws lib" "into_handler_fn lib [] (\<lambda>_. Done 0 (RResponse (http_json lib doc))) ctx = Done t (r, ctx')"
  shows "hm_get_all lib ''content-type'' (r_headers r) = [''application/json'']" "r_status r = 200" "r_body r = body_full doc"
  using assms
  by (auto simp: into_handler_fn_def http_json_def insert_header_def full_response_def response_new_def http_laws_def)

end
