(* ===== verification/JC_Design.thy ===== *)
theory JC_Design
  imports JC_Extract
begin

text \<open>
  The typed design document and what the generators derive from it, \<open>jerrycan/src/platform/design.rs\<close>, with the
  classifiers that \<open>genroute.rs\<close> and \<open>questions.rs\<close> add to it.

  The tree walks of the source (a module, then its subroutes, in document order) are \<open>module_any\<close> and
  \<open>module_find\<close>. Names are bytes; the two places where the source changes the case of other than ASCII letters
  get names that validation has confined to ASCII, or search the result for ASCII text.
\<close>

section \<open>Strings\<close>

fun contains_str :: "str \<Rightarrow> str \<Rightarrow> bool" where
  "contains_str needle [] = (needle = [])"
| "contains_str needle (c # s) = (take (length needle) (c # s) = needle \<or> contains_str needle s)"

text \<open>\<open>str::replace\<close> of a needle that is not empty.\<close>

function replace_str :: "str \<Rightarrow> str \<Rightarrow> str \<Rightarrow> str" where
  "replace_str needle with_str [] = []"
| "replace_str needle with_str (c # s) =
     (if needle \<noteq> [] \<and> take (length needle) (c # s) = needle
      then with_str @ replace_str needle with_str (drop (length needle) (c # s))
      else c # replace_str needle with_str s)"
  by pat_completeness auto
termination
  by (relation "measure (\<lambda>(needle, with_str, s). length s)") (auto simp: Suc_le_eq)

definition rfind :: "char \<Rightarrow> str \<Rightarrow> nat option" where
  "rfind c s = (if c \<in> set s then Some (length s - 1 - length (takeWhile (\<lambda>x. x \<noteq> c) (rev s))) else None)"

definition ends_with :: "str \<Rightarrow> str \<Rightarrow> bool" where
  "ends_with suffix s \<longleftrightarrow> length suffix \<le> length s \<and> drop (length s - length suffix) s = suffix"

definition strip_suffix_str :: "str \<Rightarrow> str \<Rightarrow> str option" where
  "strip_suffix_str suffix s = (if ends_with suffix s then Some (take (length s - length suffix) s) else None)"

fun find_map :: "('a \<Rightarrow> 'b option) \<Rightarrow> 'a list \<Rightarrow> 'b option" where
  "find_map f [] = None"
| "find_map f (x # xs) = (case f x of Some y \<Rightarrow> Some y | None \<Rightarrow> find_map f xs)"

definition or_else :: "'a option \<Rightarrow> 'a option \<Rightarrow> 'a option" where
  "or_else a b = (case a of Some x \<Rightarrow> Some x | None \<Rightarrow> b)"

section \<open>Names\<close>

fun snake_tail :: "str \<Rightarrow> str" where
  "snake_tail [] = []"
| "snake_tail (c # s) = (if byte_in 65 90 c then CHR ''_'' # byte_lower c # snake_tail s else byte_lower c # snake_tail s)"

definition to_snake :: "str \<Rightarrow> str" where
  "to_snake name = (case name of [] \<Rightarrow> [] | c # s \<Rightarrow> byte_lower c # snake_tail s)"

definition fk_of :: "str \<Rightarrow> str" where "fk_of target = to_snake target @ ''_id''"

definition pluralize :: "str \<Rightarrow> str" where
  "pluralize word =
     (if ends_with ''ch'' word \<or> ends_with ''sh'' word \<or> ends_with ''s'' word \<or> ends_with ''x'' word \<or> ends_with ''z'' word
      then word @ ''es''
      else (case strip_suffix_str ''y'' word of
              Some stem \<Rightarrow>
                if stem = [] \<or> last stem \<notin> {CHR ''a'', CHR ''e'', CHR ''i'', CHR ''o'', CHR ''u''} then stem @ ''ies'' else word @ ''s''
            | None \<Rightarrow> word @ ''s''))"

definition default_table_name :: "str \<Rightarrow> str" where "default_table_name entity = pluralize (to_snake entity)"

definition RUST_KEYWORDS :: "str list" where
  "RUST_KEYWORDS =
     [''as'', ''async'', ''await'', ''break'', ''const'', ''continue'', ''crate'', ''dyn'', ''else'', ''enum'', ''extern'',
      ''false'', ''fn'', ''for'', ''if'', ''impl'', ''in'', ''let'', ''loop'', ''match'', ''mod'', ''move'', ''mut'', ''pub'',
      ''ref'', ''return'', ''self'', ''static'', ''struct'', ''super'', ''trait'', ''true'', ''type'', ''unsafe'', ''use'',
      ''where'', ''while'']"

definition UNESCAPABLE_KEYWORDS :: "str list" where "UNESCAPABLE_KEYWORDS = [''crate'', ''self'', ''Self'', ''super'']"

definition is_rust_keyword :: "str \<Rightarrow> bool" where "is_rust_keyword name \<longleftrightarrow> name \<in> set RUST_KEYWORDS"
definition can_be_rust_ident :: "str \<Rightarrow> bool" where "can_be_rust_ident name \<longleftrightarrow> name \<notin> set UNESCAPABLE_KEYWORDS"

definition rust_ident :: "str \<Rightarrow> str" where
  "rust_ident name = (if is_rust_keyword name then ''r#'' @ name else name)"

definition byte_upper :: "char \<Rightarrow> char" where
  "byte_upper c = (if byte_in 97 122 c then char_of ((of_char c :: nat) - 32) else c)"

definition to_pascal :: "str \<Rightarrow> str" where
  "to_pascal snake = concat (map (\<lambda>w. case w of [] \<Rightarrow> [] | c # s \<Rightarrow> byte_upper c # s) (split_on CHR ''_'' snake))"

section \<open>Sizes and durations\<close>

definition checked_mul :: "nat \<Rightarrow> nat \<Rightarrow> nat option" where
  "checked_mul a b = (if a * b < 2 ^ 64 then Some (a * b) else None)"

definition parse_times :: "str \<Rightarrow> nat \<Rightarrow> nat option" where
  "parse_times num m = (case parse_u64 num of Ok v \<Rightarrow> checked_mul (nat v) m | Err _ \<Rightarrow> None)"

definition parse_size :: "str \<Rightarrow> nat option" where
  "parse_size s =
     (case strip_suffix_str ''GB'' s of Some v \<Rightarrow> parse_times v (1024 * 1024 * 1024)
      | None \<Rightarrow> (case strip_suffix_str ''MB'' s of Some v \<Rightarrow> parse_times v (1024 * 1024)
      | None \<Rightarrow> (case strip_suffix_str ''KB'' s of Some v \<Rightarrow> parse_times v 1024
      | None \<Rightarrow> (case strip_suffix_str ''B'' s of Some v \<Rightarrow> parse_times v 1
      | None \<Rightarrow> parse_times s 1))))"

definition parse_duration :: "str \<Rightarrow> nat option" where
  "parse_duration s =
     (case strip_suffix_str ''d'' s of Some v \<Rightarrow> parse_times v 86400
      | None \<Rightarrow> (case strip_suffix_str ''h'' s of Some v \<Rightarrow> parse_times v 3600
      | None \<Rightarrow> (case strip_suffix_str ''m'' s of Some v \<Rightarrow> parse_times v 60
      | None \<Rightarrow> (case strip_suffix_str ''s'' s of Some v \<Rightarrow> parse_times v 1
      | None \<Rightarrow> parse_times s 1))))"

section \<open>The document\<close>

datatype http_method = M_GET | M_POST | M_PUT | M_PATCH | M_DELETE
text \<open>A literal of the document: a number that is not a 64-bit integer is its text.\<close>

datatype literal = JsonLit json | FloatLit str

datatype field_type = FString | FInteger | FFloat | FBoolean | FDatetime | FUuid | FJson
datatype on_delete = Cascade | SetNull | Restrict
datatype auth_model = ModelNone | ModelSession | ModelJwt
datatype realtime_scope = ScopeNone | ScopeTenant | ScopeAuth
datatype visibility = Public | Private
datatype probe_policy = ProbeAuto | ProbeSkip

record cors_design =
  cd_origins :: "str list"
  cd_methods :: "http_method list"
  cd_headers :: "str list"
  cd_allow_credentials :: bool

record rate_limit_design =
  rl_limit :: nat
  rl_window :: str
  rl_api_key_header :: "str option"
  rl_trust_forwarded_for :: bool

record realtime_topic =
  rt_name :: str
  rt_scope :: realtime_scope

record realtime_design =
  rd_changes :: "str list"
  rd_broadcast :: "realtime_topic list"
  rd_presence :: "realtime_topic list"

record auth_design =
  au_model :: auth_model
  au_roles :: "str list"
  au_identity :: "str option"

record field =
  fd_name :: str
  fd_type :: field_type
  fd_required :: bool
  fd_unique :: bool
  fd_index :: bool
  fd_values :: "str list option"
  fd_default :: "literal option"
  fd_min :: "int option"
  fd_max :: "int option"
  fd_min_len :: "nat option"
  fd_max_len :: "nat option"
  fd_write_only :: bool
  fd_reserve_against :: "str option"

record belongs_to =
  bt_entity :: str
  bt_on_delete :: on_delete
  bt_as :: "str option"

record entity =
  en_name :: str
  en_table :: "str option"
  en_belongs_to :: "belongs_to list"
  en_public_read :: bool
  en_unique :: "str list list"
  en_fields :: "field list"

record request_body =
  rb_entity :: "str option"
  rb_fields :: "field list"

record success =
  su_status :: nat
  su_entity :: "str option"
  su_list :: bool

record error_case =
  ec_status :: nat
  ec_code :: "str option"
  ec_when :: str

record api_endpoint =
  ae_operation_id :: str
  ae_method :: http_method
  ae_path :: str
  ae_auth_required :: bool
  ae_required_roles :: "str list"
  ae_public :: bool
  ae_request_body :: "request_body option"
  ae_probe :: probe_policy
  ae_success :: success
  ae_errors :: "error_case list"

datatype module_design = ModuleDesign
  (md_name: str) (md_mount: "str option") (md_description: "str option") (md_entities: "entity list")
  (md_endpoints: "api_endpoint list") (md_subroutes: "module_design list") (md_dependencies: "str list")

record tenancy =
  te_entity :: str
  te_member_roles :: "str list"

record job_design =
  jd_name :: str
  jd_schedule :: "str option"
  jd_queue :: "str option"

record bucket_design =
  bd_name :: str
  bd_visibility :: visibility
  bd_owner :: "str option"
  bd_owner_prefix :: bool
  bd_max_size :: "str option"
  bd_allowed_mime :: "str list"
  bd_write_roles :: "str list"

record storage_design =
  sd_base_path :: "str option"
  sd_buckets :: "bucket_design list"

record design =
  ds_name :: str
  ds_contract_version :: nat
  ds_description :: "str option"
  ds_base_path :: "str option"
  ds_cors :: "cors_design option"
  ds_auth :: "auth_design option"
  ds_dependencies :: "str list"
  ds_tenancy :: "tenancy option"
  ds_jobs :: "job_design list"
  ds_storage :: "storage_design option"
  ds_realtime :: "realtime_design option"
  ds_rate_limit :: "rate_limit_design option"
  ds_modules :: "module_design list"

definition cors_is_any :: "cors_design \<Rightarrow> bool" where
  "cors_is_any c = list_ex (\<lambda>x. x = ''*'') (cd_origins c)"

definition rust_type :: "field_type \<Rightarrow> str" where
  "rust_type t = (case t of FString \<Rightarrow> ''String'' | FDatetime \<Rightarrow> ''String'' | FUuid \<Rightarrow> ''String'' | FInteger \<Rightarrow> ''i64''
     | FFloat \<Rightarrow> ''f64'' | FBoolean \<Rightarrow> ''bool'' | FJson \<Rightarrow> ''serde_json::Value'')"

definition id_is_server_assigned :: "entity \<Rightarrow> bool" where
  "id_is_server_assigned e =
     (case List.find (\<lambda>f. fd_name f = ''id'') (en_fields e) of None \<Rightarrow> True | Some f \<Rightarrow> fd_type f = FInteger)"

definition belongs_fk :: "belongs_to \<Rightarrow> str" where
  "belongs_fk b = (case bt_as b of Some a \<Rightarrow> a @ ''_id'' | None \<Rightarrow> fk_of (bt_entity b))"

definition effective_base_path :: "storage_design \<Rightarrow> str" where
  "effective_base_path s = (case sd_base_path s of Some p \<Rightarrow> p | None \<Rightarrow> ''/storage'')"

definition builder_fn :: "http_method \<Rightarrow> str" where
  "builder_fn m = (case m of M_GET \<Rightarrow> ''get'' | M_POST \<Rightarrow> ''post'' | M_PUT \<Rightarrow> ''put'' | M_PATCH \<Rightarrow> ''patch'' | M_DELETE \<Rightarrow> ''delete'')"

definition as_http_const :: "http_method \<Rightarrow> str" where
  "as_http_const m = (case m of M_GET \<Rightarrow> ''GET'' | M_POST \<Rightarrow> ''POST'' | M_PUT \<Rightarrow> ''PUT'' | M_PATCH \<Rightarrow> ''PATCH'' | M_DELETE \<Rightarrow> ''DELETE'')"

definition is_update :: "http_method \<Rightarrow> bool" where "is_update m \<longleftrightarrow> m = M_PUT \<or> m = M_PATCH"
definition is_inline :: "request_body \<Rightarrow> bool" where "is_inline b \<longleftrightarrow> rb_entity b = None"

definition is_guarded :: "api_endpoint \<Rightarrow> bool" where
  "is_guarded ep \<longleftrightarrow> ae_auth_required ep \<or> ae_required_roles ep \<noteq> []"

definition declares_signature_auth :: "api_endpoint \<Rightarrow> bool" where
  "declares_signature_auth ep =
     list_ex (\<lambda>e. 400 \<le> ec_status e \<and> ec_status e < 500 \<and> contains_str ''signature'' (to_ascii_lowercase (ec_when e))) (ae_errors ep)"

definition effective_mount :: "module_design \<Rightarrow> str" where
  "effective_mount m = (case md_mount m of Some x \<Rightarrow> x | None \<Rightarrow> ''/'' @ md_name m)"

text \<open>The mount with one trailing slash removed, as every resolver joins it.\<close>

definition trimmed_mount :: "module_design \<Rightarrow> str" where
  "trimmed_mount m = (case strip_suffix CHR ''/'' (effective_mount m) of Some x \<Rightarrow> x | None \<Rightarrow> effective_mount m)"

section \<open>Switches\<close>

definition has_dependency :: "str \<Rightarrow> design \<Rightarrow> bool" where
  "has_dependency name d = list_ex (\<lambda>x. x = name) (ds_dependencies d)"

definition base_prefix :: "design \<Rightarrow> str" where
  "base_prefix d = (case ds_base_path d of None \<Rightarrow> [] | Some p \<Rightarrow> if p = [] \<or> p = ''/'' then [] else p)"

definition wants_db :: "design \<Rightarrow> bool" where "wants_db d = has_dependency ''db'' d"
definition wants_validate :: "design \<Rightarrow> bool" where "wants_validate d = has_dependency ''validate'' d"
definition wants_observe :: "design \<Rightarrow> bool" where "wants_observe d = has_dependency ''observe'' d"
definition wants_oauth :: "design \<Rightarrow> bool" where "wants_oauth d = has_dependency ''oauth'' d"

definition wants_auth :: "design \<Rightarrow> bool" where
  "wants_auth d \<longleftrightarrow> (case ds_auth d of Some a \<Rightarrow> au_model a \<noteq> ModelNone | None \<Rightarrow> False) \<or> has_dependency ''auth'' d"

definition auth_model_of :: "design \<Rightarrow> auth_model" where
  "auth_model_of d = (case ds_auth d of Some a \<Rightarrow> au_model a | None \<Rightarrow> ModelNone)"

definition auth_identity :: "design \<Rightarrow> str" where
  "auth_identity d = (case Option.bind (ds_auth d) au_identity of Some i \<Rightarrow> i | None \<Rightarrow> ''User'')"

definition identity_fk_column :: "design \<Rightarrow> str" where "identity_fk_column d = fk_of (auth_identity d)"

definition test_auth_header :: "design \<Rightarrow> str" where
  "test_auth_header d = (if auth_model_of d = ModelJwt then ''authorization'' else ''cookie'')"

definition wants_jobs :: "design \<Rightarrow> bool" where "wants_jobs d \<longleftrightarrow> ds_jobs d \<noteq> []"

definition wants_storage :: "design \<Rightarrow> bool" where
  "wants_storage d \<longleftrightarrow> (case ds_storage d of Some s \<Rightarrow> sd_buckets s \<noteq> [] | None \<Rightarrow> False)"

definition wants_realtime :: "design \<Rightarrow> bool" where
  "wants_realtime d \<longleftrightarrow>
     (case ds_realtime d of Some r \<Rightarrow> rd_changes r \<noteq> [] \<or> rd_broadcast r \<noteq> [] \<or> rd_presence r \<noteq> [] | None \<Rightarrow> False)"

definition wants_rate_limit :: "design \<Rightarrow> bool" where "wants_rate_limit d \<longleftrightarrow> ds_rate_limit d \<noteq> None"

definition server_publishable_broadcast :: "design \<Rightarrow> str option" where
  "server_publishable_broadcast d =
     Option.bind (ds_realtime d) (\<lambda>r. map_option rt_name
       (List.find (\<lambda>t. rt_scope t = ScopeNone \<or> rt_scope t = ScopeAuth) (rd_broadcast r)))"

definition server_publishable_tenant_broadcast :: "design \<Rightarrow> str option" where
  "server_publishable_tenant_broadcast d =
     Option.bind (ds_realtime d) (\<lambda>r. map_option rt_name (List.find (\<lambda>t. rt_scope t = ScopeTenant) (rd_broadcast r)))"

definition facade_features :: "design \<Rightarrow> str list" where
  "facade_features d =
     (if wants_db d then [''db''] else []) @ (if wants_validate d then [''validate''] else []) @
     (if wants_auth d then [''auth''] else []) @ (if wants_observe d then [''observe''] else []) @
     (if wants_jobs d then [''jobs''] else []) @ (if wants_oauth d then [''oauth''] else []) @
     (if wants_storage d then [''storage-s3''] else []) @ (if wants_realtime d then [''realtime''] else []) @
     (if wants_rate_limit d then [''rate-limit''] else [])"

definition field_is_write_only :: "field \<Rightarrow> bool" where
  "field_is_write_only f \<longleftrightarrow> fd_write_only f \<or> eq_ignore_ascii_case (fd_name f) ''password_hash''"

definition field_is_now_default :: "field \<Rightarrow> bool" where
  "field_is_now_default f \<longleftrightarrow> fd_type f = FDatetime \<and> fd_default f = Some (JsonLit (JString ''now''))"

section \<open>Walks over the tree\<close>

text \<open>A module, then its subroutes.\<close>

fun module_any :: "(module_design \<Rightarrow> bool) \<Rightarrow> module_design \<Rightarrow> bool" where
  "module_any P (ModuleDesign n mo de es eps subs deps) =
     (P (ModuleDesign n mo de es eps subs deps) \<or> list_ex (module_any P) subs)"

fun module_find :: "(module_design \<Rightarrow> 'b option) \<Rightarrow> module_design \<Rightarrow> 'b option"
  and modules_find :: "(module_design \<Rightarrow> 'b option) \<Rightarrow> module_design list \<Rightarrow> 'b option" where
  "module_find f (ModuleDesign n mo de es eps subs deps) =
     or_else (f (ModuleDesign n mo de es eps subs deps)) (modules_find f subs)"
| "modules_find f [] = None"
| "modules_find f (m # ms) = or_else (module_find f m) (modules_find f ms)"

definition find_entity :: "design \<Rightarrow> str \<Rightarrow> entity option" where
  "find_entity d name = modules_find (\<lambda>m. List.find (\<lambda>e. en_name e = name) (md_entities m)) (ds_modules d)"

definition table_name :: "design \<Rightarrow> str \<Rightarrow> str" where
  "table_name d entity =
     (case Option.bind (find_entity d entity) en_table of Some t \<Rightarrow> t | None \<Rightarrow> default_table_name entity)"

definition target_key_rust_type :: "design \<Rightarrow> str \<Rightarrow> str" where
  "target_key_rust_type d target =
     (case Option.bind (find_entity d target) (\<lambda>e. List.find (\<lambda>f. fd_name f = ''id'') (en_fields e)) of
        Some f \<Rightarrow> rust_type (fd_type f)
      | None \<Rightarrow> ''i64'')"

definition path_param_key_type :: "design \<Rightarrow> str \<Rightarrow> str" where
  "path_param_key_type d p =
     (case modules_find (\<lambda>m. or_else
             (List.find (\<lambda>n. fk_of n = p) (map en_name (md_entities m)))
             (find_map (\<lambda>e. map_option bt_entity (List.find (\<lambda>b. belongs_fk b = p) (en_belongs_to e))) (md_entities m)))
           (ds_modules d) of
        Some name \<Rightarrow> target_key_rust_type d name
      | None \<Rightarrow> ''i64'')"

section \<open>The entity of a route\<close>

definition collection_path :: "api_endpoint \<Rightarrow> str option" where
  "collection_path ep =
     (let p = ae_path ep in
      case rfind CHR ''{'' p of
        None \<Rightarrow> None
      | Some brace \<Rightarrow>
          (let cut = (case rfind CHR ''/'' (take brace p) of Some i \<Rightarrow> i | None \<Rightarrow> 0) in
           Some (if cut = 0 then ''/'' else take cut p)))"

definition creator_at :: "module_design \<Rightarrow> str \<Rightarrow> api_endpoint option" where
  "creator_at m path = List.find (\<lambda>ep. ae_method ep = M_POST \<and> ae_path ep = path \<and> ae_request_body ep \<noteq> None) (md_endpoints m)"

definition body_entity :: "api_endpoint \<Rightarrow> str option" where
  "body_entity ep = Option.bind (ae_request_body ep) rb_entity"

definition endpoint_repo_entity_strict :: "module_design \<Rightarrow> api_endpoint \<Rightarrow> str option" where
  "endpoint_repo_entity_strict m ep =
     (if md_entities m = [] then None
      else or_else (body_entity ep) (or_else (su_entity (ae_success ep))
             (Option.bind (Option.bind (collection_path ep) (creator_at m)) body_entity)))"

definition endpoint_repo_entity :: "module_design \<Rightarrow> api_endpoint \<Rightarrow> str option" where
  "endpoint_repo_entity m ep =
     or_else (endpoint_repo_entity_strict m ep) (case md_entities m of [] \<Rightarrow> None | e # _ \<Rightarrow> Some (en_name e))"

text \<open>The copy of it in the validator, \<open>questions.rs\<close>.\<close>

definition validator_repo_entity :: "module_design \<Rightarrow> api_endpoint \<Rightarrow> str option" where
  "validator_repo_entity m ep =
     (if md_entities m = [] then None
      else or_else (body_entity ep) (or_else (su_entity (ae_success ep)) (case md_entities m of [] \<Rightarrow> None | e # _ \<Rightarrow> Some (en_name e))))"

section \<open>Tenant ownership\<close>

record join_link =
  jl_child_table :: str
  jl_child_fk :: str
  jl_parent_table :: str

record tenant_path =
  tp_joins :: "join_link list"
  tp_anchor_table :: str
  tp_tenant_fk :: str
  tp_entity_table :: str

definition join_sql :: "tenant_path \<Rightarrow> str" where
  "join_sql t = concat (map (\<lambda>j. '' JOIN '' @ jl_parent_table j @ '' ON '' @ jl_child_table j @ ''.'' @ jl_child_fk j @ '' = '' @
     jl_parent_table j @ ''.id'') (tp_joins t))"

definition tenant_col :: "tenant_path \<Rightarrow> str" where
  "tenant_col t = tp_anchor_table t @ ''.'' @ tp_tenant_fk t"

text \<open>The names that \<open>find_entity\<close> can find bound the depth of the search for chains.\<close>

fun module_names :: "module_design \<Rightarrow> str list" and modules_names :: "module_design list \<Rightarrow> str list" where
  "module_names (ModuleDesign n mo de es eps subs deps) = map en_name es @ modules_names subs"
| "modules_names [] = []"
| "modules_names (m # ms) = module_names m @ modules_names ms"

lemma find_Some_name: "List.find (\<lambda>e. en_name e = name) es = Some e \<Longrightarrow> en_name e = name \<and> e \<in> set es"
  by (induction es) (auto split: if_splits)

lemma modules_find_names:
  "module_find (\<lambda>m. List.find (\<lambda>e. en_name e = name) (md_entities m)) m = Some e \<Longrightarrow> en_name e = name \<and> name \<in> set (module_names m)"
  "modules_find (\<lambda>m. List.find (\<lambda>e. en_name e = name) (md_entities m)) ms = Some e \<Longrightarrow> en_name e = name \<and> name \<in> set (modules_names ms)"
proof (induction m and ms rule: module_names_modules_names.induct)
  case (1 n mo de es eps subs deps)
  then show ?case by (auto simp: or_else_def dest: find_Some_name split: option.splits)
next
  case (3 m ms)
  then show ?case by (auto simp: or_else_def split: option.splits)
qed simp

function tenant_path_chains :: "design \<Rightarrow> str \<Rightarrow> str \<Rightarrow> str list \<Rightarrow> join_link list list" where
  "tenant_path_chains d entity tenant visited =
     (case find_entity d entity of
        None \<Rightarrow> []
      | Some e \<Rightarrow>
          if list_ex (\<lambda>b. bt_entity b = tenant) (en_belongs_to e) then [[]]
          else if entity \<in> set visited then []
          else concat (map (\<lambda>b. map (\<lambda>rest. \<lparr>jl_child_table = table_name d entity, jl_child_fk = belongs_fk b,
                                             jl_parent_table = table_name d (bt_entity b)\<rparr> # rest)
                                  (tenant_path_chains d (bt_entity b) tenant (entity # visited)))
                 (en_belongs_to e)))"
  by pat_completeness (elim Pair_inject, hypsubst, rule refl)
termination
proof (relation "measure (\<lambda>(d, entity, tenant, visited). card (set (modules_names (ds_modules d)) - set visited))")
  fix d entity tenant visited e b
  assume "find_entity d entity = Some e" "entity \<notin> set visited"
  then have "entity \<in> set (modules_names (ds_modules d)) - set visited"
    using modules_find_names(2) [of entity "ds_modules d" e] by (simp add: find_entity_def)
  then have "card (set (modules_names (ds_modules d)) - set (entity # visited)) < card (set (modules_names (ds_modules d)) - set visited)"
    by (intro psubset_card_mono) auto
  then show "((d, bt_entity b, tenant, entity # visited), d, entity, tenant, visited) \<in> measure (\<lambda>(d, entity, tenant, visited). card (set (modules_names (ds_modules d)) - set visited))"
    by simp
qed simp

declare tenant_path_chains.simps [simp del]

text \<open>The same with the step of the search named, to evaluate it.\<close>

definition chain_step :: "design \<Rightarrow> str \<Rightarrow> str \<Rightarrow> str list \<Rightarrow> belongs_to \<Rightarrow> join_link list list" where
  "chain_step d entity tenant visited b =
     map (Cons \<lparr>jl_child_table = table_name d entity, jl_child_fk = belongs_fk b, jl_parent_table = table_name d (bt_entity b)\<rparr>)
       (tenant_path_chains d (bt_entity b) tenant (entity # visited))"

lemma tenant_path_chains_code [code]:
  "tenant_path_chains d entity tenant visited =
     (case find_entity d entity of
        None \<Rightarrow> []
      | Some e \<Rightarrow>
          if list_ex (\<lambda>b. bt_entity b = tenant) (en_belongs_to e) then [[]]
          else if entity \<in> set visited then []
          else concat (map (chain_step d entity tenant visited) (en_belongs_to e)))"
  by (subst tenant_path_chains.simps) (simp add: chain_step_def [abs_def] split: option.splits)

definition tenant_path_of :: "design \<Rightarrow> str \<Rightarrow> tenant_path option" where
  "tenant_path_of d entity =
     (case ds_tenancy d of
        None \<Rightarrow> None
      | Some t \<Rightarrow>
          if entity = te_entity t then None
          else (case tenant_path_chains d entity (te_entity t) [] of
                  [joins] \<Rightarrow> Some \<lparr>tp_joins = joins,
                    tp_anchor_table = (if joins = [] then table_name d entity else jl_parent_table (last joins)),
                    tp_tenant_fk = fk_of (te_entity t), tp_entity_table = table_name d entity\<rparr>
                | _ \<Rightarrow> None))"

definition tenant_path_branch_count :: "design \<Rightarrow> str \<Rightarrow> nat" where
  "tenant_path_branch_count d entity =
     (case ds_tenancy d of
        None \<Rightarrow> 0
      | Some t \<Rightarrow> if entity = te_entity t then 0 else length (tenant_path_chains d entity (te_entity t) []))"

fun collect_tenant_owned :: "design \<Rightarrow> module_design \<Rightarrow> (str \<times> str) list" where
  "collect_tenant_owned d (ModuleDesign n mo de es eps subs deps) =
     map (\<lambda>e. (n, en_name e)) (filter (\<lambda>e. tenant_path_of d (en_name e) \<noteq> None) es) @
     concat (map (collect_tenant_owned d) subs)"

definition tenant_owned :: "design \<Rightarrow> (str \<times> str) list" where
  "tenant_owned d = (if ds_tenancy d = None then [] else concat (map (collect_tenant_owned d) (ds_modules d)))"

section \<open>The tenant shape of a route\<close>

datatype tenant_shape = PathScoped str | MembershipSet | Collection | NoShape

definition declares_entity :: "module_design \<Rightarrow> str \<Rightarrow> bool" where
  "declares_entity m name = list_ex (\<lambda>e. en_name e = name) (md_entities m)"

definition braced :: "str \<Rightarrow> str" where "braced x = ''{'' @ x @ ''}''"

definition endpoint_tenant_shape :: "design \<Rightarrow> module_design \<Rightarrow> api_endpoint \<Rightarrow> tenant_shape" where
  "endpoint_tenant_shape d m ep =
     (case ds_tenancy d of
        None \<Rightarrow> NoShape
      | Some t \<Rightarrow>
          (let is_tenant_module = declares_entity m (te_entity t);
               owns_tenant_entity = list_ex (\<lambda>e. tenant_path_of d (en_name e) \<noteq> None) (md_entities m) in
           if \<not> is_tenant_module \<and> \<not> owns_tenant_entity then NoShape
           else
             (let fk_param = fk_of (te_entity t);
                  resolved = trimmed_mount m @ ae_path ep in
              if is_tenant_module \<and> ae_path ep = ''/'' \<and> ae_method ep \<in> {M_POST, M_GET} then Collection
              else if is_tenant_module \<and> (contains_str (braced fk_param) resolved \<or> contains_str ''{id}'' (ae_path ep)) then PathScoped fk_param
              else if contains_str (braced fk_param) resolved then PathScoped fk_param
              else if owns_tenant_entity then MembershipSet
              else NoShape)))"

definition entity_tenant_shapes :: "design \<Rightarrow> entity \<Rightarrow> bool \<times> bool" where
  "entity_tenant_shapes d e =
     (let bound = (\<lambda>P. list_ex (module_any (\<lambda>m. list_ex (\<lambda>ep. endpoint_repo_entity m ep = Some (en_name e) \<and> P (endpoint_tenant_shape d m ep))
            (md_endpoints m))) (ds_modules d)) in
      (bound (\<lambda>sh. case sh of PathScoped _ \<Rightarrow> True | _ \<Rightarrow> False), bound (\<lambda>sh. sh = MembershipSet)))"

text \<open>From \<open>genroute.rs\<close>.\<close>

definition entity_is_flat_tenant_owned :: "entity \<Rightarrow> design \<Rightarrow> bool" where
  "entity_is_flat_tenant_owned e d =
     (if tenant_path_of d (en_name e) = None then False
      else (case entity_tenant_shapes d e of (saw_path_scoped, saw_flat) \<Rightarrow> \<not> saw_path_scoped \<and> saw_flat))"

definition endpoint_uses_tenant_guard :: "module_design \<Rightarrow> api_endpoint \<Rightarrow> design \<Rightarrow> bool" where
  "endpoint_uses_tenant_guard m ep d = (case endpoint_tenant_shape d m ep of PathScoped _ \<Rightarrow> True | _ \<Rightarrow> False)"

definition entity_has_required_roles_route :: "design \<Rightarrow> str \<Rightarrow> bool" where
  "entity_has_required_roles_route d entity =
     list_ex (module_any (\<lambda>m. list_ex (\<lambda>ep. ae_required_roles ep \<noteq> [] \<and> endpoint_repo_entity m ep = Some entity) (md_endpoints m))) (ds_modules d)"

definition test_credential_role :: "design \<Rightarrow> str" where
  "test_credential_role d =
     (case or_else
             (modules_find (\<lambda>m. Option.bind
                (List.find (\<lambda>ep. ae_required_roles ep \<noteq> [] \<and> endpoint_tenant_shape d m ep \<in> {Collection, NoShape}) (md_endpoints m))
                (\<lambda>ep. case ae_required_roles ep of [] \<Rightarrow> None | r # _ \<Rightarrow> Some r)) (ds_modules d))
             (Option.bind (ds_auth d) (\<lambda>a. case au_roles a of [] \<Rightarrow> None | r # _ \<Rightarrow> Some r)) of
        Some r \<Rightarrow> r
      | None \<Rightarrow> ''admin'')"

section \<open>Per-user ownership and request bodies\<close>

definition is_identity_fk :: "design \<Rightarrow> belongs_to \<Rightarrow> bool" where
  "is_identity_fk d b \<longleftrightarrow> belongs_fk b = identity_fk_column d"

definition has_identity_fk :: "design \<Rightarrow> entity \<Rightarrow> bool" where
  "has_identity_fk d e = list_ex (is_identity_fk d) (en_belongs_to e)"

definition entity_is_per_user_owned :: "design \<Rightarrow> entity \<Rightarrow> bool" where
  "entity_is_per_user_owned d e \<longleftrightarrow> wants_auth d \<and> has_identity_fk d e \<and> tenant_path_of d (en_name e) = None"

definition entity_is_public_read :: "design \<Rightarrow> str \<Rightarrow> bool" where
  "entity_is_public_read d entity =
     (case find_entity d entity of None \<Rightarrow> False | Some e \<Rightarrow> en_public_read e \<and> entity_is_per_user_owned d e)"

definition endpoint_is_public_read_get :: "design \<Rightarrow> module_design \<Rightarrow> api_endpoint \<Rightarrow> bool" where
  "endpoint_is_public_read_get d m ep \<longleftrightarrow> ae_method ep = M_GET \<and> ae_required_roles ep = [] \<and>
     (case endpoint_repo_entity_strict m ep of None \<Rightarrow> False | Some entity \<Rightarrow> entity_is_public_read d entity)"

definition request_entity :: "module_design \<Rightarrow> api_endpoint \<Rightarrow> entity option" where
  "request_entity m ep = Option.bind (body_entity ep) (\<lambda>n. List.find (\<lambda>e. en_name e = n) (md_entities m))"

definition endpoint_omits_identity_fk :: "design \<Rightarrow> module_design \<Rightarrow> api_endpoint \<Rightarrow> bool" where
  "endpoint_omits_identity_fk d m ep \<longleftrightarrow> wants_auth d \<and> is_guarded ep \<and>
     (case body_entity ep of
        None \<Rightarrow> False
      | Some n \<Rightarrow> (case List.find (\<lambda>e. en_name e = n) (md_entities m) of None \<Rightarrow> False | Some e \<Rightarrow> has_identity_fk d e))"

definition has_defaulted_field :: "entity \<Rightarrow> bool" where
  "has_defaulted_field e = list_ex (\<lambda>f. fd_default f \<noteq> None) (en_fields e)"

definition endpoint_omits_defaulted_field :: "module_design \<Rightarrow> api_endpoint \<Rightarrow> bool" where
  "endpoint_omits_defaulted_field m ep = (case request_entity m ep of None \<Rightarrow> False | Some e \<Rightarrow> has_defaulted_field e)"

definition entity_has_default :: "design \<Rightarrow> str \<Rightarrow> bool" where
  "entity_has_default d entity = (case find_entity d entity of None \<Rightarrow> False | Some e \<Rightarrow> has_defaulted_field e)"

text \<open>Here the resolved path carries the mounts of all the modules around.\<close>

fun body_path_has :: "str \<Rightarrow> str \<Rightarrow> str \<Rightarrow> module_design \<Rightarrow> bool" where
  "body_path_has entity token prefix (ModuleDesign n mo de es eps subs deps) =
     (let base = prefix @ trimmed_mount (ModuleDesign n mo de es eps subs deps) in
      list_ex (\<lambda>ep. body_entity ep = Some entity \<and> contains_str token (base @ ae_path ep)) eps \<or>
      list_ex (body_path_has entity token base) subs)"

definition any_body_endpoint_resolved_path_has :: "design \<Rightarrow> str \<Rightarrow> str \<Rightarrow> bool" where
  "any_body_endpoint_resolved_path_has d entity col = list_ex (body_path_has entity (braced col) []) (ds_modules d)"

definition entity_path_fk_columns :: "design \<Rightarrow> str \<Rightarrow> str list" where
  "entity_path_fk_columns d entity =
     (case find_entity d entity of
        None \<Rightarrow> []
      | Some e \<Rightarrow> filter (any_body_endpoint_resolved_path_has d entity) (map belongs_fk (en_belongs_to e)))"

definition endpoint_omits_path_fk :: "design \<Rightarrow> module_design \<Rightarrow> api_endpoint \<Rightarrow> bool" where
  "endpoint_omits_path_fk d m ep = (case request_entity m ep of None \<Rightarrow> False | Some e \<Rightarrow> entity_path_fk_columns d (en_name e) \<noteq> [])"

definition endpoint_uses_request_dto :: "design \<Rightarrow> module_design \<Rightarrow> api_endpoint \<Rightarrow> bool \<Rightarrow> bool" where
  "endpoint_uses_request_dto d m ep auth \<longleftrightarrow>
     auth \<and> endpoint_omits_identity_fk d m ep \<or> endpoint_omits_defaulted_field m ep \<or> endpoint_omits_path_fk d m ep"

definition entity_generates_request_dto :: "design \<Rightarrow> str \<Rightarrow> bool" where
  "entity_generates_request_dto d entity =
     (if \<not> wants_db d then False
      else list_ex (module_any (\<lambda>m. list_ex (\<lambda>ep. body_entity ep = Some entity \<and> endpoint_uses_request_dto d m ep (wants_auth d))
             (md_endpoints m))) (ds_modules d))"

definition entity_generates_update_request_dto :: "design \<Rightarrow> str \<Rightarrow> bool" where
  "entity_generates_update_request_dto d entity =
     (if \<not> wants_db d then False
      else if \<not> entity_has_default d entity then False
      else list_ex (module_any (\<lambda>m. list_ex (\<lambda>ep. is_update (ae_method ep) \<and> body_entity ep = Some entity \<and>
             endpoint_uses_request_dto d m ep (wants_auth d)) (md_endpoints m))) (ds_modules d))"

section \<open>Handlers to scan for leaks\<close>

record handler_ref =
  hr_rel_path :: str
  hr_is_flat :: bool
  hr_owned_desc :: str
  hr_leak_desc :: str
  hr_suggestion :: str
  hr_exempt_fns :: "str set"
  hr_tenant_repo_type :: str
  hr_tenant_guard_type :: str

definition TENANT_SCOPED_SUGGESTION :: str where
  "TENANT_SCOPED_SUGGESTION =
     ''call a scoped accessor instead '' @ [CHR 0xE2, CHR 0x80, CHR 0x94] @
     '' path-scoped routes: all_for/get_for/remove_for with the tenant id; flat (membership-set) routes: '' @
     ''all_for_memberships/get_for_memberships/update_for_memberships/remove_for_memberships (and create_for_memberships) with the '' @
     ''session user'' @ [CHR 0x27] @ ''s id (_user.0.id)''"

definition exempt_fns :: "design \<Rightarrow> module_design \<Rightarrow> str set" where
  "exempt_fns d m =
     (case ds_tenancy d of
        None \<Rightarrow> {}
      | Some t \<Rightarrow> set (map ae_operation_id (filter (\<lambda>ep. endpoint_repo_entity_strict m ep = Some (te_entity t) \<and>
           endpoint_uses_tenant_guard m ep d \<and> is_guarded ep) (md_endpoints m))))"

fun collect_owned_handlers :: "design \<Rightarrow> str \<Rightarrow> module_design \<Rightarrow> handler_ref list" where
  "collect_owned_handlers d src_rel (ModuleDesign n mo de es eps subs deps) =
     (let m = ModuleDesign n mo de es eps subs deps;
          owned = filter (\<lambda>e. tenant_path_of d (en_name e) \<noteq> None) es in
      (if owned = [] then []
       else [\<lparr>hr_rel_path = src_rel @ ''/handlers.rs'', hr_is_flat = list_ex (\<lambda>e. entity_is_flat_tenant_owned e d) owned,
              hr_owned_desc = ''a tenant-owned'', hr_leak_desc = ''another tenant'' @ [CHR 0x27] @ ''s rows'',
              hr_suggestion = TENANT_SCOPED_SUGGESTION, hr_exempt_fns = exempt_fns d m,
              hr_tenant_repo_type = (case ds_tenancy d of None \<Rightarrow> [] | Some t \<Rightarrow> te_entity t @ ''Repo''),
              hr_tenant_guard_type = (case ds_tenancy d of None \<Rightarrow> [] | Some t \<Rightarrow> ''Tenant'')\<rparr>]) @
      concat (map (\<lambda>sub. collect_owned_handlers d
        (src_rel @ ''/subroutes/'' @ map (\<lambda>c. if c = CHR ''-'' then CHR ''_'' else c) (md_name sub)) sub) subs))"

definition tenant_owned_handlers :: "design \<Rightarrow> handler_ref list" where
  "tenant_owned_handlers d =
     (if ds_tenancy d = None then []
      else concat (map (\<lambda>m. collect_owned_handlers d (''crates/routes/'' @ md_name m @ ''/src'') m) (ds_modules d)))"

section \<open>Normalisation\<close>

definition is_own_detail :: "module_design \<Rightarrow> str \<Rightarrow> api_endpoint \<Rightarrow> bool" where
  "is_own_detail m entity ep \<longleftrightarrow> contains_str ''{id}'' (ae_path ep) \<and> endpoint_repo_entity m ep = Some entity"

text \<open>The endpoints to rename are chosen before any path changes.\<close>

fun normalize_own_detail_routes :: "str \<Rightarrow> str \<Rightarrow> module_design \<Rightarrow> module_design" where
  "normalize_own_detail_routes entity fk_token (ModuleDesign n mo de es eps subs deps) =
     (let m = ModuleDesign n mo de es eps subs deps in
      ModuleDesign n mo de es
        (if declares_entity m entity
         then map (\<lambda>ep. if is_own_detail m entity ep then ep\<lparr>ae_path := replace_str ''{id}'' fk_token (ae_path ep)\<rparr> else ep) eps
         else eps)
        (map (normalize_own_detail_routes entity fk_token) subs) deps)"

definition normalize_tenant_detail_routes :: "design \<Rightarrow> design" where
  "normalize_tenant_detail_routes d =
     (case ds_tenancy d of
        None \<Rightarrow> d
      | Some t \<Rightarrow> d\<lparr>ds_modules := map (normalize_own_detail_routes (te_entity t) (braced (fk_of (te_entity t)))) (ds_modules d)\<rparr>)"

section \<open>Chains are the simple paths to the tenant\<close>

definition direct_child :: "design \<Rightarrow> str \<Rightarrow> str \<Rightarrow> bool" where
  "direct_child d tenant x = (case find_entity d x of None \<Rightarrow> False | Some e \<Rightarrow> list_ex (\<lambda>b. bt_entity b = tenant) (en_belongs_to e))"

text \<open>A path of declared references from an entity, through entities that do not belong to the tenant themselves, to one
  that does; and the joins of it.\<close>

fun ownership :: "design \<Rightarrow> str \<Rightarrow> str \<Rightarrow> belongs_to list \<Rightarrow> bool" where
  "ownership d tenant x [] = direct_child d tenant x"
| "ownership d tenant x (b # bs) =
     (\<not> direct_child d tenant x \<and> (\<exists>e. find_entity d x = Some e \<and> b \<in> set (en_belongs_to e)) \<and> ownership d tenant (bt_entity b) bs)"

fun links :: "design \<Rightarrow> str \<Rightarrow> belongs_to list \<Rightarrow> join_link list" where
  "links d x [] = []"
| "links d x (b # bs) = \<lparr>jl_child_table = table_name d x, jl_child_fk = belongs_fk b, jl_parent_table = table_name d (bt_entity b)\<rparr> #
     links d (bt_entity b) bs"

definition walk_nodes :: "str \<Rightarrow> belongs_to list \<Rightarrow> str list" where "walk_nodes x bs = x # map bt_entity bs"

lemma walk_nodes_simps [simp]: "walk_nodes x [] = [x]" "walk_nodes x (b # bs) = x # walk_nodes (bt_entity b) bs"
  by (simp_all add: walk_nodes_def)

lemma walk_nodes_neq [simp]: "walk_nodes x bs \<noteq> []" by (simp add: walk_nodes_def)

lemma chains_avoiding:
  "set (tenant_path_chains d x tenant visited) =
     {links d x bs | bs. ownership d tenant x bs \<and> distinct (butlast (walk_nodes x bs)) \<and> set (butlast (walk_nodes x bs)) \<inter> set visited = {}}"
proof (induction d x tenant visited rule: tenant_path_chains.induct)
  case (1 d x tenant visited)
  show ?case
  proof (cases "find_entity d x")
    case None
    then have "\<not> ownership d tenant x bs" for bs by (cases bs) (simp_all add: direct_child_def)
    with None show ?thesis by (simp add: tenant_path_chains.simps [of d x])
  next
    case (Some e)
    let ?direct = "list_ex (\<lambda>b. bt_entity b = tenant) (en_belongs_to e)"
    have dc: "direct_child d tenant x = ?direct" using Some by (simp add: direct_child_def)
    show ?thesis
    proof (cases ?direct)
      case True
      then have "ownership d tenant x bs \<longleftrightarrow> bs = []" for bs using dc by (cases bs) simp_all
      with True Some show ?thesis by (auto simp: tenant_path_chains.simps [of d x])
    next
      case no: False
      have own: "ownership d tenant x bs \<longleftrightarrow> (\<exists>b cs. bs = b # cs \<and> b \<in> set (en_belongs_to e) \<and> ownership d tenant (bt_entity b) cs)" for bs
        using no dc Some by (cases bs) auto
      show ?thesis
      proof (cases "x \<in> set visited")
        case True
        with no Some own show ?thesis by (auto simp: tenant_path_chains.simps [of d x])
      next
        case False
        have "set (tenant_path_chains d x tenant visited) =
            (\<Union>b \<in> set (en_belongs_to e). (\<lambda>rest. \<lparr>jl_child_table = table_name d x, jl_child_fk = belongs_fk b, jl_parent_table = table_name d (bt_entity b)\<rparr> # rest) `
               {links d (bt_entity b) bs | bs. ownership d tenant (bt_entity b) bs \<and> distinct (butlast (walk_nodes (bt_entity b) bs)) \<and>
                  set (butlast (walk_nodes (bt_entity b) bs)) \<inter> set (x # visited) = {}})"
          using 1 [OF Some no False] no Some False by (simp add: tenant_path_chains.simps [of d x])
        also have "\<dots> = {links d x bs | bs. ownership d tenant x bs \<and> distinct (butlast (walk_nodes x bs)) \<and> set (butlast (walk_nodes x bs)) \<inter> set visited = {}}"
          (is "?A = ?B")
        proof
          show "?A \<subseteq> ?B"
          proof
            fix c assume "c \<in> ?A"
            then obtain b bs where b: "b \<in> set (en_belongs_to e)" "ownership d tenant (bt_entity b) bs" "distinct (butlast (walk_nodes (bt_entity b) bs))"
                "set (butlast (walk_nodes (bt_entity b) bs)) \<inter> set (x # visited) = {}" "c = links d x (b # bs)" by auto
            have "ownership d tenant x (b # bs)" using own b by blast
            then show "c \<in> ?B" using b False by (intro CollectI exI [of _ "b # bs"]) auto
          qed
          show "?B \<subseteq> ?A"
          proof
            fix c assume "c \<in> ?B"
            then obtain bs where bs: "c = links d x bs" "ownership d tenant x bs" "distinct (butlast (walk_nodes x bs))"
                "set (butlast (walk_nodes x bs)) \<inter> set visited = {}" by blast
            from bs(2) own obtain b cs where b: "bs = b # cs" "b \<in> set (en_belongs_to e)" "ownership d tenant (bt_entity b) cs" by blast
            have "links d (bt_entity b) cs \<in> {links d (bt_entity b) bs | bs. ownership d tenant (bt_entity b) bs \<and> distinct (butlast (walk_nodes (bt_entity b) bs)) \<and>
                  set (butlast (walk_nodes (bt_entity b) bs)) \<inter> set (x # visited) = {}}"
              using bs b by (intro CollectI exI [of _ cs]) auto
            then show "c \<in> ?A" using b bs(1) by (intro UN_I [of b]) auto
          qed
        qed
        finally show ?thesis .
      qed
    qed
  qed
qed


text \<open>A shortest path repeats no entity, so the search that forbids repetition misses no owner.\<close>

definition own_dist :: "design \<Rightarrow> str \<Rightarrow> str \<Rightarrow> nat" where
  "own_dist d tenant x = (LEAST n. \<exists>bs. length bs = n \<and> ownership d tenant x bs)"

lemma own_dist_le: "ownership d tenant x bs \<Longrightarrow> own_dist d tenant x \<le> length bs"
  unfolding own_dist_def by (rule Least_le) blast

lemma own_dist_path: "ownership d tenant x bs \<Longrightarrow> \<exists>cs. ownership d tenant x cs \<and> length cs = own_dist d tenant x"
  unfolding own_dist_def by (rule LeastI2 [of _ "length bs"]) auto

lemma shortest_distinct:
  "ownership d tenant x bs \<Longrightarrow> length bs = own_dist d tenant x \<Longrightarrow>
     distinct (walk_nodes x bs) \<and> (\<forall>y \<in> set (walk_nodes x bs). own_dist d tenant y \<le> length bs)"
proof (induction bs arbitrary: x)
  case Nil
  then show ?case by simp
next
  case (Cons b cs)
  from Cons.prems(1) have step: "\<not> direct_child d tenant x" "\<exists>e. find_entity d x = Some e \<and> b \<in> set (en_belongs_to e)"
      "ownership d tenant (bt_entity b) cs" by auto
  have "length cs = own_dist d tenant (bt_entity b)"
  proof (rule antisym)
    obtain cs' where cs': "ownership d tenant (bt_entity b) cs'" "length cs' = own_dist d tenant (bt_entity b)"
      using own_dist_path [OF step(3)] by blast
    have "ownership d tenant x (b # cs')" using step cs' by simp
    from own_dist_le [OF this] show "length cs \<le> own_dist d tenant (bt_entity b)" using cs' Cons.prems(2) by simp
  qed (rule own_dist_le [OF step(3)])
  from Cons.IH [OF step(3) this] Cons.prems(2) show ?case by (auto simp: le_SucI)
qed

definition simple_ownership :: "design \<Rightarrow> str \<Rightarrow> str \<Rightarrow> belongs_to list \<Rightarrow> bool" where
  "simple_ownership d tenant x bs \<longleftrightarrow> ownership d tenant x bs \<and> distinct (butlast (walk_nodes x bs))"

lemma owner_simple: "(\<exists>bs. ownership d tenant x bs) \<longleftrightarrow> (\<exists>bs. simple_ownership d tenant x bs)"
  using own_dist_path shortest_distinct by (auto simp: simple_ownership_def) (metis distinct_butlast)

lemma chains_simple: "set (tenant_path_chains d x tenant []) = links d x ` {bs. simple_ownership d tenant x bs}"
  by (auto simp: chains_avoiding simple_ownership_def)

lemma links_anchor: "links d x bs \<noteq> [] \<Longrightarrow> jl_parent_table (last (links d x bs)) = table_name d (last (walk_nodes x bs))"
proof (induction bs arbitrary: x)
  case (Cons b cs)
  then show ?case by (cases cs) simp_all
qed simp

lemma links_Nil [simp]: "links d x bs = [] \<longleftrightarrow> bs = []"
  by (cases bs) simp_all

lemma tenant_path_simple:
  assumes "ds_tenancy d = Some t" "x \<noteq> te_entity t"
  shows "(0 < tenant_path_branch_count d x \<longleftrightarrow> (\<exists>bs. ownership d (te_entity t) x bs)) \<and>
    (tenant_path_of d x \<noteq> None \<longleftrightarrow> tenant_path_branch_count d x = 1) \<and>
    (\<forall>tp. tenant_path_of d x = Some tp \<longrightarrow> (\<exists>bs. simple_ownership d (te_entity t) x bs \<and>
       (\<forall>cs. simple_ownership d (te_entity t) x cs \<longrightarrow> links d x cs = links d x bs) \<and>
       tp = \<lparr>tp_joins = links d x bs, tp_anchor_table = table_name d (last (walk_nodes x bs)),
             tp_tenant_fk = fk_of (te_entity t), tp_entity_table = table_name d x\<rparr>))"
proof (intro conjI allI impI)
  let ?cs = "tenant_path_chains d x (te_entity t) []"
  have count: "tenant_path_branch_count d x = length ?cs" using assms by (simp add: tenant_path_branch_count_def)
  show "0 < tenant_path_branch_count d x \<longleftrightarrow> (\<exists>bs. ownership d (te_entity t) x bs)"
  proof -
    have "0 < length ?cs \<longleftrightarrow> set ?cs \<noteq> {}" by simp
    also have "\<dots> \<longleftrightarrow> (\<exists>bs. simple_ownership d (te_entity t) x bs)" unfolding chains_simple by blast
    finally show ?thesis by (simp only: count owner_simple)
  qed
  show "tenant_path_of d x \<noteq> None \<longleftrightarrow> tenant_path_branch_count d x = 1"
    using assms by (auto simp: tenant_path_of_def count length_Suc_conv split: list.splits)
  fix tp assume "tenant_path_of d x = Some tp"
  then obtain joins where joins: "?cs = [joins]"
    and tp: "tp = \<lparr>tp_joins = joins, tp_anchor_table = (if joins = [] then table_name d x else jl_parent_table (last joins)),
                    tp_tenant_fk = fk_of (te_entity t), tp_entity_table = table_name d x\<rparr>"
    using assms by (auto simp: tenant_path_of_def split: list.splits)
  have all: "links d x ` {bs. simple_ownership d (te_entity t) x bs} = {joins}" using chains_simple joins by (metis list.set(1) list.simps(15))
  then obtain bs where bs: "simple_ownership d (te_entity t) x bs" "joins = links d x bs" by blast
  have "tp_anchor_table tp = table_name d (last (walk_nodes x bs))"
    using links_anchor [of d x bs] by (cases bs) (simp_all add: tp bs(2))
  then show "\<exists>bs. simple_ownership d (te_entity t) x bs \<and> (\<forall>cs. simple_ownership d (te_entity t) x cs \<longrightarrow> links d x cs = links d x bs) \<and>
       tp = \<lparr>tp_joins = links d x bs, tp_anchor_table = table_name d (last (walk_nodes x bs)),
             tp_tenant_fk = fk_of (te_entity t), tp_entity_table = table_name d x\<rparr>"
    using bs all tp by (intro exI [of _ bs]) (auto simp: image_iff)
qed

text \<open>
  The paths of references themselves, all the way to the tenant: \<open>bs\<close> leads from \<open>x\<close> to an entity, \<open>b\<close> from there to the
  tenant. A path has no detour when no entity before the last refers to the tenant itself.
\<close>

definition refers :: "design \<Rightarrow> str \<Rightarrow> belongs_to \<Rightarrow> bool" where
  "refers d x b \<longleftrightarrow> (\<exists>e. find_entity d x = Some e \<and> b \<in> set (en_belongs_to e))"

fun ref_path :: "design \<Rightarrow> str \<Rightarrow> str \<Rightarrow> belongs_to list \<Rightarrow> bool" where
  "ref_path d tenant x [] = False"
| "ref_path d tenant x [b] = (refers d x b \<and> bt_entity b = tenant)"
| "ref_path d tenant x (b # c # bs) = (refers d x b \<and> bt_entity b \<noteq> tenant \<and> ref_path d tenant (bt_entity b) (c # bs))"

definition no_detour :: "design \<Rightarrow> str \<Rightarrow> str \<Rightarrow> belongs_to list \<Rightarrow> bool" where
  "no_detour d tenant x bs \<longleftrightarrow> (\<forall>y \<in> set (butlast (walk_nodes x bs)). \<forall>b. refers d y b \<longrightarrow> bt_entity b \<noteq> tenant)"

lemma direct_child_refers: "direct_child d tenant x \<longleftrightarrow> (\<exists>b. refers d x b \<and> bt_entity b = tenant)"
  by (auto simp: direct_child_def refers_def list_ex_iff split: option.splits)

lemma ref_path_owned: "ref_path d tenant x ps \<Longrightarrow> \<exists>bs. ownership d tenant x bs"
proof (induction d tenant x ps rule: ref_path.induct)
  case (2 d tenant x b)
  then show ?case by (intro exI [of _ "[]"]) (auto simp: direct_child_refers)
next
  case (3 d tenant x b c bs)
  then obtain cs where "ownership d tenant (bt_entity b) cs" by auto
  then show ?case using 3 by (cases "direct_child d tenant x") (auto simp: refers_def intro: exI [of _ "[]"] exI [of _ "b # cs"])
qed simp

lemma owned_ref_path: "ownership d tenant x bs \<Longrightarrow> (\<exists>b. ref_path d tenant x (bs @ [b])) \<and> no_detour d tenant x bs"
proof (induction d tenant x bs rule: ownership.induct)
  case (1 d tenant x)
  then show ?case by (auto simp: direct_child_refers no_detour_def)
next
  case (2 d tenant x b bs)
  then obtain c where c: "ref_path d tenant (bt_entity b) (bs @ [c])" "no_detour d tenant (bt_entity b) bs" by auto
  have b: "refers d x b" "\<forall>b. refers d x b \<longrightarrow> bt_entity b \<noteq> tenant" using 2 by (auto simp: refers_def direct_child_refers)
  then have "ref_path d tenant x (b # bs @ [c])" using c(1) by (cases "bs @ [c]") auto
  then show ?case using c(2) b by (auto simp: no_detour_def)
qed

lemma ref_path_ownership: "ref_path d tenant x (bs @ [b]) \<Longrightarrow> no_detour d tenant x bs \<Longrightarrow> ownership d tenant x bs"
proof (induction bs arbitrary: x)
  case Nil
  then show ?case by (auto simp: direct_child_refers)
next
  case (Cons c cs)
  then have "refers d x c \<and> ref_path d tenant (bt_entity c) (cs @ [b])" by (cases "cs @ [b]") auto
  then show ?case using Cons by (auto simp: no_detour_def refers_def direct_child_refers)
qed

lemma simple_ownership_distinct: "simple_ownership d tenant x bs \<Longrightarrow> distinct (walk_nodes x bs)"
proof -
  assume s: "simple_ownership d tenant x bs"
  have "direct_child d tenant (last (walk_nodes x bs))" if "ownership d tenant x bs" for x
    using that by (induction d tenant x bs rule: ownership.induct) auto
  then have "last (walk_nodes x bs) \<notin> set (butlast (walk_nodes x bs))"
    using owned_ref_path [of d tenant x bs] s by (auto simp: simple_ownership_def no_detour_def direct_child_refers)
  then have "distinct (butlast (walk_nodes x bs) @ [last (walk_nodes x bs)])" unfolding distinct_append using s by (simp add: simple_ownership_def)
  then show ?thesis by (simp only: append_butlast_last_id [OF walk_nodes_neq])
qed

text \<open>C34: An entity has a chain to the tenant exactly when the declared references lead there at all, whatever cycles they
  have; it gets a tenant path exactly when the search finds one chain. Then that path is a path of references without
  repetition and without detour, its links are the joins, in order, and the anchor is the table of the entity that refers
  to the tenant itself; and every path of references without repetition and without detour has the same joins. A detour,
  by which an entity that refers to the tenant itself reaches it a second time, is not counted
  (\<open>detour_not_counted\<close>), although the text of the error about ambiguous paths speaks of all chains.\<close>

theorem tenant_path_exact:
  assumes "ds_tenancy d = Some t" "x \<noteq> te_entity t"
  shows "(0 < tenant_path_branch_count d x \<longleftrightarrow> (\<exists>ps. ref_path d (te_entity t) x ps)) \<and>
    (tenant_path_of d x \<noteq> None \<longleftrightarrow> tenant_path_branch_count d x = 1) \<and>
    (\<forall>tp. tenant_path_of d x = Some tp \<longrightarrow>
       (\<exists>bs b. ref_path d (te_entity t) x (bs @ [b]) \<and> no_detour d (te_entity t) x bs \<and> distinct (walk_nodes x bs) \<and>
         tp = \<lparr>tp_joins = links d x bs, tp_anchor_table = table_name d (last (walk_nodes x bs)),
               tp_tenant_fk = fk_of (te_entity t), tp_entity_table = table_name d x\<rparr>) \<and>
       (\<forall>cs c. ref_path d (te_entity t) x (cs @ [c]) \<and> no_detour d (te_entity t) x cs \<and> distinct (walk_nodes x cs) \<longrightarrow>
         links d x cs = tp_joins tp))"
proof (intro conjI allI impI)
  note simple = tenant_path_simple [OF assms]
  show "0 < tenant_path_branch_count d x \<longleftrightarrow> (\<exists>ps. ref_path d (te_entity t) x ps)"
    using simple ref_path_owned owned_ref_path by blast
  show "tenant_path_of d x \<noteq> None \<longleftrightarrow> tenant_path_branch_count d x = 1" using simple by blast
  fix tp assume "tenant_path_of d x = Some tp"
  then obtain bs where bs: "simple_ownership d (te_entity t) x bs"
      "\<forall>cs. simple_ownership d (te_entity t) x cs \<longrightarrow> links d x cs = links d x bs"
      "tp = \<lparr>tp_joins = links d x bs, tp_anchor_table = table_name d (last (walk_nodes x bs)),
             tp_tenant_fk = fk_of (te_entity t), tp_entity_table = table_name d x\<rparr>"
    using simple by blast
  show "\<exists>bs b. ref_path d (te_entity t) x (bs @ [b]) \<and> no_detour d (te_entity t) x bs \<and> distinct (walk_nodes x bs) \<and>
         tp = \<lparr>tp_joins = links d x bs, tp_anchor_table = table_name d (last (walk_nodes x bs)),
               tp_tenant_fk = fk_of (te_entity t), tp_entity_table = table_name d x\<rparr>"
    using bs(3) owned_ref_path [of d "te_entity t" x bs] simple_ownership_distinct [OF bs(1)] bs(1) [unfolded simple_ownership_def] by blast
  fix cs c
  assume "ref_path d (te_entity t) x (cs @ [c]) \<and> no_detour d (te_entity t) x cs \<and> distinct (walk_nodes x cs)"
  then have "simple_ownership d (te_entity t) x cs"
    using ref_path_ownership by (auto simp: simple_ownership_def distinct_butlast)
  then show "links d x cs = tp_joins tp" using bs(2,3) by simp
qed

section \<open>Routes of the tenant's own module\<close>

lemma contains_str_Nil [simp]: "contains_str [] s"
  by (cases s) simp_all

lemma contains_str_split: "contains_str needle s \<longleftrightarrow> (\<exists>u v. s = u @ needle @ v)"
proof (induction s)
  case (Cons c s)
  have "take (length needle) (c # s) = needle \<longleftrightarrow> (\<exists>v. c # s = needle @ v)"
    by (metis append_eq_conv_conj append_take_drop_id)
  moreover have "(\<exists>u v. c # s = u @ needle @ v) \<longleftrightarrow> (\<exists>v. c # s = needle @ v) \<or> (\<exists>u v. s = u @ needle @ v)"
    by (metis append_Cons append_Nil list.exhaust list.inject)
  ultimately show ?case using Cons by simp
qed simp

lemma contains_append_left: "contains_str n s \<Longrightarrow> contains_str n (u @ s)"
  unfolding contains_str_split by (metis append.assoc)

lemma replaced_contains: "contains_str needle s \<Longrightarrow> needle \<noteq> [] \<Longrightarrow> contains_str w (replace_str needle w s)"
proof (induction needle w s rule: replace_str.induct)
  case (2 needle w c s)
  show ?case
  proof (cases "take (length needle) (c # s) = needle")
    case True
    then have "replace_str needle w (c # s) = [] @ w @ replace_str needle w (drop (length needle) (c # s))" using 2(4) by simp
    then show ?thesis by (auto simp: contains_str_split simp del: replace_str.simps)
  next
    case False
    then have "contains_str needle s" using 2(3) by simp
    then have "contains_str w (replace_str needle w s)" using 2 False by simp
    then show ?thesis using False contains_append_left [of w _ "[c]"] by simp
  qed
qed simp

lemma no_brace_contains: "c \<in> set n \<Longrightarrow> c \<notin> set s \<Longrightarrow> \<not> contains_str n s"
  by (auto simp: contains_str_split)

fun module_tree :: "module_design \<Rightarrow> module_design list" where
  "module_tree (ModuleDesign n mo de es eps subs deps) = ModuleDesign n mo de es eps subs deps # concat (map module_tree subs)"

definition design_tree :: "design \<Rightarrow> module_design list" where "design_tree d = concat (map module_tree (ds_modules d))"

lemma normalize_keeps [simp]:
  "md_entities (normalize_own_detail_routes te tok m) = md_entities m" "md_mount (normalize_own_detail_routes te tok m) = md_mount m"
  "md_name (normalize_own_detail_routes te tok m) = md_name m"
  by (cases m; simp add: Let_def)+

lemma normalize_mount [simp]: "trimmed_mount (normalize_own_detail_routes te tok m) = trimmed_mount m"
proof -
  have "effective_mount (normalize_own_detail_routes te tok m) = effective_mount m" by (simp only: effective_mount_def normalize_keeps)
  then show ?thesis by (simp only: trimmed_mount_def)
qed

lemma normalize_declares [simp]: "declares_entity (normalize_own_detail_routes te tok m) x = declares_entity m x"
  by (simp add: declares_entity_def)

lemma normalize_endpoints:
  "md_endpoints (normalize_own_detail_routes te tok m) =
     map (\<lambda>ep. if declares_entity m te \<and> is_own_detail m te ep then ep\<lparr>ae_path := replace_str ''{id}'' tok (ae_path ep)\<rparr> else ep) (md_endpoints m)"
  by (cases m) (simp add: Let_def)

lemma normalize_tree: "module_tree (normalize_own_detail_routes te tok m) = map (normalize_own_detail_routes te tok) (module_tree m)"
proof (induction m rule: module_tree.induct)
  case (1 n mo de es eps subs deps)
  then have "map (module_tree \<circ> normalize_own_detail_routes te tok) subs = map (map (normalize_own_detail_routes te tok) \<circ> module_tree) subs"
    by simp
  from arg_cong [OF this, of concat] show ?case by (simp add: Let_def map_concat)
qed

lemma normalized_tenancy [simp]: "ds_tenancy (normalize_tenant_detail_routes d) = ds_tenancy d"
  by (simp add: normalize_tenant_detail_routes_def split: option.splits)

lemma normalized_tree:
  "ds_tenancy d = Some t \<Longrightarrow> design_tree (normalize_tenant_detail_routes d) =
     map (normalize_own_detail_routes (te_entity t) (braced (fk_of (te_entity t)))) (design_tree d)"
  by (simp add: design_tree_def normalize_tenant_detail_routes_def map_concat normalize_tree [THEN ext, unfolded comp_def] comp_def)

text \<open>Inside the tenant's module a path with the tenant's key, or with \<open>{id}\<close>, is path-scoped.\<close>

lemma tenant_module_path_scoped:
  assumes "ds_tenancy d = Some t" "declares_entity m (te_entity t)"
    and "contains_str (braced (fk_of (te_entity t))) (ae_path ep) \<or> contains_str ''{id}'' (ae_path ep)"
  shows "endpoint_tenant_shape d m ep = PathScoped (fk_of (te_entity t))"
proof -
  have "ae_path ep \<noteq> ''/''"
    using assms(3) no_brace_contains [of "CHR ''{''" _ "''/''"] by (auto simp: braced_def)
  then show ?thesis using assms by (auto simp: endpoint_tenant_shape_def Let_def contains_append_left)
qed

text \<open>The guard among the parameters of a generated handler; \<open>auth\<close> is the mode of the generator.\<close>

datatype guard_param = TenantGuard | UserGuard

definition handler_guard :: "bool \<Rightarrow> module_design \<Rightarrow> api_endpoint \<Rightarrow> design \<Rightarrow> guard_param option" where
  "handler_guard auth m ep d =
     (if auth \<and> is_guarded ep then
        (if endpoint_uses_tenant_guard m ep d then Some TenantGuard
         else if \<not> endpoint_is_public_read_get d m ep then Some UserGuard else None)
      else None)"

text \<open>C35: Loading a document renames exactly the detail routes whose entity is the tenant, in the module that declares it,
  from \<open>{id}\<close> to the key of the tenant: every other route of the tree keeps its path, the routes renamed carry
  the key, and the handler of one that asks for authentication, in an application that has it, takes the guard that checks
  membership of the tenant named in the path. A public detail route of the tenant is renamed as well and takes no
  guard.\<close>

theorem own_detail_routes_guarded:
  assumes "ds_tenancy d = Some t"
  shows "list_all2 (\<lambda>m m'. md_entities m' = md_entities m \<and> trimmed_mount m' = trimmed_mount m \<and>
      list_all2 (\<lambda>ep ep'.
          if declares_entity m (te_entity t) \<and> contains_str ''{id}'' (ae_path ep) \<and> endpoint_repo_entity m ep = Some (te_entity t)
          then ep' = ep\<lparr>ae_path := replace_str ''{id}'' (braced (fk_of (te_entity t))) (ae_path ep)\<rparr> \<and>
               contains_str (braced (fk_of (te_entity t))) (ae_path ep') \<and>
               (\<forall>auth. handler_guard auth m' ep' (normalize_tenant_detail_routes d) =
                  (if auth \<and> (ae_auth_required ep \<or> ae_required_roles ep \<noteq> []) then Some TenantGuard else None))
          else ep' = ep)
        (md_endpoints m) (md_endpoints m'))
    (design_tree d) (design_tree (normalize_tenant_detail_routes d))"
proof -
  let ?te = "te_entity t" and ?tok = "braced (fk_of (te_entity t))"
  have "contains_str ?tok (replace_str ''{id}'' ?tok (ae_path ep))" if "contains_str ''{id}'' (ae_path ep)" for ep
    using that by (intro replaced_contains) simp_all
  moreover have "endpoint_uses_tenant_guard (normalize_own_detail_routes ?te ?tok m) ep (normalize_tenant_detail_routes d)"
    if "declares_entity m ?te" "contains_str ?tok (ae_path ep)" for m ep
    using tenant_module_path_scoped [of "normalize_tenant_detail_routes d" t "normalize_own_detail_routes ?te ?tok m" ep] that assms
    by (simp add: endpoint_uses_tenant_guard_def)
  ultimately show ?thesis
    by (auto simp: normalized_tree [OF assms] list_all2_map2 normalize_endpoints is_own_detail_def list_all2_same handler_guard_def
        is_guarded_def)
qed

text \<open>A detail route of another entity hosted in the tenant's module keeps its \<open>{id}\<close> and is still classified as scoped
  to the tenant of the path, so it takes the path-checking guard, although its URL names no tenant at all.\<close>

lemma sibling_detail_route_unbound:
  fixes d m ep t
  defines "m' \<equiv> normalize_own_detail_routes (te_entity t) (braced (fk_of (te_entity t))) m"
  assumes "ds_tenancy d = Some t" "m \<in> set (design_tree d)" "declares_entity m (te_entity t)" "ep \<in> set (md_endpoints m)"
    and "contains_str ''{id}'' (ae_path ep)" "endpoint_repo_entity m ep \<noteq> Some (te_entity t)"
    and "\<not> contains_str (braced (fk_of (te_entity t))) (trimmed_mount m @ ae_path ep)"
  shows "m' \<in> set (design_tree (normalize_tenant_detail_routes d)) \<and> ep \<in> set (md_endpoints m') \<and>
    endpoint_tenant_shape (normalize_tenant_detail_routes d) m' ep = PathScoped (fk_of (te_entity t)) \<and>
    endpoint_uses_tenant_guard m' ep (normalize_tenant_detail_routes d) \<and>
    \<not> contains_str (braced (fk_of (te_entity t))) (trimmed_mount m' @ ae_path ep)"
proof -
  have "ep \<in> set (md_endpoints m')"
    using assms by (auto simp: m'_def normalize_endpoints is_own_detail_def image_iff intro!: bexI [of _ ep])
  moreover have "endpoint_tenant_shape (normalize_tenant_detail_routes d) m' ep = PathScoped (fk_of (te_entity t))"
    using assms by (intro tenant_module_path_scoped) simp_all
  ultimately show ?thesis using assms by (simp add: endpoint_uses_tenant_guard_def normalized_tree)
qed


section \<open>Names round-trip\<close>

text \<open>The shapes of names that the validator admits, \<open>questions.rs\<close>.\<close>

definition ascii_alnum :: "char \<Rightarrow> bool" where
  "ascii_alnum c \<longleftrightarrow> byte_in 48 57 c \<or> byte_in 65 90 c \<or> byte_in 97 122 c"

definition is_kebab :: "str \<Rightarrow> bool" where
  "is_kebab s = (case s of [] \<Rightarrow> False | c # _ \<Rightarrow>
     byte_in 97 122 c \<and> list_all (\<lambda>c. byte_in 97 122 c \<or> byte_in 48 57 c \<or> c = CHR ''-'') s)"

definition is_snake :: "str \<Rightarrow> bool" where
  "is_snake s = (case s of [] \<Rightarrow> False | c # _ \<Rightarrow>
     byte_in 97 122 c \<and> list_all (\<lambda>c. byte_in 97 122 c \<or> byte_in 48 57 c \<or> c = CHR ''_'') s)"

definition is_pascal :: "str \<Rightarrow> bool" where
  "is_pascal s = (case s of [] \<Rightarrow> False | c # _ \<Rightarrow> byte_in 65 90 c \<and> list_all ascii_alnum s)"

lemma byte_lower_nat: "(of_char (byte_lower c) :: nat) = (if byte_in 65 90 c then of_char c + 32 else of_char c)"
  by (simp add: byte_lower_def byte_in_def)

lemma byte_upper_lower: "byte_in 65 90 c \<Longrightarrow> byte_upper (byte_lower c) = c"
  unfolding byte_upper_def by (simp add: byte_lower_nat byte_in_def)

lemma byte_lower_other: "\<not> byte_in 65 90 c \<Longrightarrow> byte_lower c = c"
  by (auto simp: byte_lower_def byte_in_def)

lemma underscore_code: "of_char (CHR ''_'') = (95 :: nat)"
  by simp

lemma alnum_lower_neq: "ascii_alnum c \<Longrightarrow> byte_lower c \<noteq> CHR ''_''"
proof
  assume "ascii_alnum c" "byte_lower c = CHR ''_''"
  then have "(of_char (byte_lower c) :: nat) = 95" by simp
  then show False using \<open>ascii_alnum c\<close> by (auto simp: byte_lower_nat ascii_alnum_def byte_in_def split: if_splits)
qed

lemma to_pascal_words:
  "list_all ascii_alnum s \<Longrightarrow> x \<noteq> CHR ''_'' \<Longrightarrow> to_pascal (x # snake_tail s) = byte_upper x # s"
proof (induction s arbitrary: x)
  case Nil
  then show ?case by (simp add: to_pascal_def)
next
  case (Cons c s)
  then have c: "ascii_alnum c" "list_all ascii_alnum s" by simp_all
  then have neq: "byte_lower c \<noteq> CHR ''_''" by (simp add: alnum_lower_neq)
  from Cons.IH [OF c(2) neq] have IH: "to_pascal (byte_lower c # snake_tail s) = byte_upper (byte_lower c) # s" .
  show ?case
  proof (cases "byte_in 65 90 c")
    case True
    then have "x # snake_tail (c # s) = [x] @ CHR ''_'' # byte_lower c # snake_tail s" by simp
    then have "split_on CHR ''_'' (x # snake_tail (c # s)) = [x] # split_on CHR ''_'' (byte_lower c # snake_tail s)"
      using Cons.prems(2) by (simp only: split_on_append_sep) (simp add: split_on_no_sep)
    with IH True show ?thesis by (simp add: to_pascal_def byte_upper_lower)
  next
    case False
    let ?ws = "split_on CHR ''_'' (snake_tail s)"
    from False have c': "byte_lower c = c" by (rule byte_lower_other)
    from IH neq have tail: "hd ?ws @ concat (map (\<lambda>w. case w of [] \<Rightarrow> [] | c # s \<Rightarrow> byte_upper c # s) (tl ?ws)) = s"
      by (cases ?ws) (simp_all add: to_pascal_def c')
    obtain w ws where "?ws = w # ws" by (cases ?ws) simp_all
    with tail show ?thesis using Cons.prems(2) neq False c' by (simp add: to_pascal_def)
  qed
qed

text \<open>Turning the name of an entity into the snake case of its table and key, and that into the name of a type, gives the
  name back; so no two entities with names the validator admits derive the same key column.\<close>

lemma pascal_snake_roundtrip:
  assumes "is_pascal x"
  shows "to_pascal (to_snake x) = x \<and> (\<forall>y. is_pascal y \<and> fk_of y = fk_of x \<longrightarrow> y = x)"
proof -
  have inverse: "to_pascal (to_snake y) = y" if y: "is_pascal y" for y
  proof -
    obtain c s where "y = c # s" "byte_in 65 90 c" "list_all ascii_alnum s" using y by (auto simp: is_pascal_def split: list.splits)
    then show ?thesis
      using to_pascal_words [of s "byte_lower c"] alnum_lower_neq [of c] by (simp add: to_snake_def ascii_alnum_def byte_upper_lower)
  qed
  then show ?thesis using assms by (metis append_same_eq fk_of_def)
qed

section \<open>Sizes and durations are exact\<close>

lemma parse_times_bounded: "parse_times s m = Some n \<Longrightarrow> n < 2 ^ 64"
  by (auto simp: parse_times_def checked_mul_def split: sum.splits if_splits)

lemma parse_size_bounded: "parse_size s = Some n \<Longrightarrow> n < 2 ^ 64"
  by (auto simp: parse_size_def split: option.splits dest: parse_times_bounded)

lemma parse_duration_bounded: "parse_duration s = Some n \<Longrightarrow> n < 2 ^ 64"
  by (auto simp: parse_duration_def split: option.splits dest: parse_times_bounded)

lemma strip_suffix_own [simp]: "strip_suffix_str suf (s @ suf) = Some s"
  by (simp add: strip_suffix_str_def ends_with_def)

lemma parse_duration_units:
  "parse_duration (s @ ''d'') = parse_times s 86400" "parse_duration (s @ ''h'') = parse_times s 3600"
  "parse_duration (s @ ''m'') = parse_times s 60" "parse_duration (s @ ''s'') = parse_times s 1"
proof -
  have other: "strip_suffix_str [c] (s @ [c']) = None" if "c \<noteq> c'" for c c'
    using that by (simp add: strip_suffix_str_def ends_with_def)
  show "parse_duration (s @ ''d'') = parse_times s 86400" by (simp add: parse_duration_def)
  show "parse_duration (s @ ''h'') = parse_times s 3600" by (simp add: parse_duration_def other)
  show "parse_duration (s @ ''m'') = parse_times s 60" by (simp add: parse_duration_def other)
  show "parse_duration (s @ ''s'') = parse_times s 1" by (simp add: parse_duration_def other)
qed

section \<open>Where the derivations part\<close>

lemma reserved_not_escaped:
  "list_all (\<lambda>w. \<not> is_rust_keyword w \<and> can_be_rust_ident w \<and> rust_ident w = w)
     [''abstract'', ''become'', ''box'', ''do'', ''final'', ''gen'', ''macro'', ''override'', ''priv'', ''try'', ''typeof'', ''unsized'',
      ''virtual'', ''yield'']"
  by code_simp

lemma validator_repo_agrees:
  "endpoint_repo_entity m ep = validator_repo_entity m ep" if "body_entity ep \<noteq> None \<or> su_entity (ae_success ep) \<noteq> None \<or> collection_path ep = None"
  using that by (auto simp: endpoint_repo_entity_def endpoint_repo_entity_strict_def validator_repo_entity_def or_else_def split: option.splits list.splits)


text \<open>A document in which the rest shows: the module of the tenant hosts a sibling entity, a subroute is mounted under the
  key of the tenant, and the references have a cycle.\<close>

definition demo_belongs :: "str \<Rightarrow> belongs_to" where
  "demo_belongs x = \<lparr>bt_entity = x, bt_on_delete = Cascade, bt_as = None\<rparr>"

definition demo_entity :: "str \<Rightarrow> str list \<Rightarrow> entity" where
  "demo_entity name parents = \<lparr>en_name = name, en_table = None, en_belongs_to = map demo_belongs parents, en_public_read = False,
     en_unique = [], en_fields = []\<rparr>"

definition demo_field :: "str \<Rightarrow> field_type \<Rightarrow> field" where
  "demo_field name ty = \<lparr>fd_name = name, fd_type = ty, fd_required = True, fd_unique = False, fd_index = False, fd_values = None,
     fd_default = None, fd_min = None, fd_max = None, fd_min_len = None, fd_max_len = None, fd_write_only = False,
     fd_reserve_against = None\<rparr>"

definition demo_endpoint :: "http_method \<Rightarrow> str \<Rightarrow> str option \<Rightarrow> str option \<Rightarrow> api_endpoint" where
  "demo_endpoint m p body ok = \<lparr>ae_operation_id = ''op'', ae_method = m, ae_path = p, ae_auth_required = True, ae_required_roles = [],
     ae_public = False, ae_request_body = map_option (\<lambda>e. \<lparr>rb_entity = Some e, rb_fields = []\<rparr>) body, ae_probe = ProbeAuto,
     ae_success = \<lparr>su_status = 200, su_entity = ok, su_list = False\<rparr>, ae_errors = []\<rparr>"

definition demo_tasks :: module_design where
  "demo_tasks = ModuleDesign ''tasks'' None None [demo_entity ''Task'' [''Project'', ''Task'']]
     [demo_endpoint M_POST ''/'' (Some ''Task'') None, demo_endpoint M_GET ''/{id}'' None (Some ''Task'')] [] []"

definition demo_projects :: module_design where
  "demo_projects = ModuleDesign ''projects'' (Some ''/orgs/{org_id}'') None [demo_entity ''Project'' [''Org'']]
     [demo_endpoint M_GET ''/projects'' None (Some ''Project'')] [demo_tasks] []"

definition demo_orgs :: module_design where
  "demo_orgs = ModuleDesign ''orgs'' None None [demo_entity ''Org'' [], demo_entity ''Plan'' []]
     [demo_endpoint M_POST ''/'' (Some ''Org'') None, demo_endpoint M_GET ''/{id}'' None (Some ''Org''),
      demo_endpoint M_POST ''/plans'' (Some ''Plan'') None, demo_endpoint M_DELETE ''/plans/{id}'' None None] [] []"

definition demo_design :: design where
  "demo_design = \<lparr>ds_name = ''demo'', ds_contract_version = 1, ds_description = None, ds_base_path = None, ds_cors = None,
     ds_auth = Some \<lparr>au_model = ModelSession, au_roles = [], au_identity = None\<rparr>, ds_dependencies = [''db''],
     ds_tenancy = Some \<lparr>te_entity = ''Org'', te_member_roles = []\<rparr>, ds_jobs = [], ds_storage = None, ds_realtime = None,
     ds_rate_limit = None, ds_modules = [demo_orgs, demo_projects]\<rparr>"

lemmas demo_defs = demo_field_def demo_design_def demo_orgs_def demo_projects_def demo_tasks_def demo_endpoint_def demo_entity_def demo_belongs_def

text \<open>The route \<open>DELETE /plans/{id}\<close> of the sibling, by its collection's creator.\<close>

lemma demo_sibling:
  "demo_orgs \<in> set (design_tree demo_design)" "declares_entity demo_orgs ''Org''"
  "demo_endpoint M_DELETE ''/plans/{id}'' None None \<in> set (md_endpoints demo_orgs)"
  "endpoint_repo_entity demo_orgs (demo_endpoint M_DELETE ''/plans/{id}'' None None) = Some ''Plan''"
  "contains_str ''{id}'' ''/plans/{id}''" "\<not> contains_str (braced (fk_of ''Org'')) (trimmed_mount demo_orgs @ ''/plans/{id}'')"
  subgoal by (simp add: design_tree_def demo_design_def demo_orgs_def)
  subgoal by code_simp
  subgoal by (simp add: demo_orgs_def)
  subgoal by code_simp
  subgoal by code_simp
  subgoal by code_simp
  done

theorem own_detail_routes_guarded_witness:
  "list_all2 (\<lambda>m m'. md_entities m' = md_entities m \<and> length (md_endpoints m') = length (md_endpoints m))
     (design_tree demo_design) (design_tree (normalize_tenant_detail_routes demo_design)) \<and>
   map ae_path (md_endpoints (hd (design_tree (normalize_tenant_detail_routes demo_design)))) = [''/'', ''/{org_id}'', ''/plans'', ''/plans/{id}'']"
proof
  have t: "ds_tenancy demo_design = Some \<lparr>te_entity = ''Org'', te_member_roles = []\<rparr>" by (simp add: demo_design_def)
  show "list_all2 (\<lambda>m m'. md_entities m' = md_entities m \<and> length (md_endpoints m') = length (md_endpoints m))
     (design_tree demo_design) (design_tree (normalize_tenant_detail_routes demo_design))"
    by (rule list_all2_mono [OF own_detail_routes_guarded [OF t]]) (auto dest: list_all2_lengthD)
  show "map ae_path (md_endpoints (hd (design_tree (normalize_tenant_detail_routes demo_design)))) = [''/'', ''/{org_id}'', ''/plans'', ''/plans/{id}'']"
    by code_simp
qed

theorem tenant_path_exact_witness:
  "0 < tenant_path_branch_count demo_design ''Task'' \<and> tenant_path_of demo_design ''Task'' =
     Some \<lparr>tp_joins = [\<lparr>jl_child_table = ''tasks'', jl_child_fk = ''project_id'', jl_parent_table = ''projects''\<rparr>],
       tp_anchor_table = ''projects'', tp_tenant_fk = ''org_id'', tp_entity_table = ''tasks''\<rparr>"
proof
  let ?b = "demo_belongs ''Project''"
  have found: "find_entity demo_design ''Task'' = Some (demo_entity ''Task'' [''Project'', ''Task''])"
       "find_entity demo_design ''Project'' = Some (demo_entity ''Project'' [''Org''])"
    by (simp_all add: demo_defs find_entity_def or_else_def)
  then have "\<exists>ps. ref_path demo_design ''Org'' ''Task'' ps"
    by (intro exI [of _ "[?b, demo_belongs ''Org'']"]) (simp add: refers_def demo_entity_def demo_belongs_def)
  then show "0 < tenant_path_branch_count demo_design ''Task''"
    using tenant_path_exact [of demo_design "\<lparr>te_entity = ''Org'', te_member_roles = []\<rparr>" "''Task''"]
    by (simp add: demo_design_def [THEN arg_cong, of ds_tenancy])
  show "tenant_path_of demo_design ''Task'' =
     Some \<lparr>tp_joins = [\<lparr>jl_child_table = ''tasks'', jl_child_fk = ''project_id'', jl_parent_table = ''projects''\<rparr>],
       tp_anchor_table = ''projects'', tp_tenant_fk = ''org_id'', tp_entity_table = ''tasks''\<rparr>"
  proof -
    note step = tenant_path_chains.simps [of demo_design]
    have tables: "table_name demo_design ''Task'' = ''tasks''" "table_name demo_design ''Project'' = ''projects''"
      "fk_of ''Project'' = ''project_id''" "fk_of ''Org'' = ''org_id''" by code_simp+
    have "tenant_path_chains demo_design ''Task'' ''Org'' [''Task''] = []"
      "tenant_path_chains demo_design ''Project'' ''Org'' [''Task''] = [[]]"
      by (simp_all add: step [of "''Task''"] step [of "''Project''"] found demo_entity_def demo_belongs_def)
    then have "tenant_path_chains demo_design ''Task'' ''Org'' [] =
        [[\<lparr>jl_child_table = ''tasks'', jl_child_fk = ''project_id'', jl_parent_table = ''projects''\<rparr>]]"
      by (simp add: step [of "''Task''" _ "[]"] found demo_entity_def demo_belongs_def tables belongs_fk_def)
    then show ?thesis by (simp add: tenant_path_of_def demo_design_def [THEN arg_cong, of ds_tenancy] tables)
  qed
qed

text \<open>The classifier of shapes reads the mount of the module alone; the request body's rule reads the mounts above it too.\<close>

lemma shape_ignores_ancestors:
  "endpoint_tenant_shape demo_design demo_tasks (demo_endpoint M_POST ''/'' (Some ''Task'') None) = MembershipSet"
  "any_body_endpoint_resolved_path_has demo_design ''Task'' ''org_id''"
  by code_simp+

lemma validator_repo_differs:
  "endpoint_repo_entity demo_orgs (demo_endpoint M_DELETE ''/plans/{id}'' None None) = Some ''Plan''"
  "validator_repo_entity demo_orgs (demo_endpoint M_DELETE ''/plans/{id}'' None None) = Some ''Org''"
  by code_simp+

text \<open>
  An entity that refers to the tenant and to an entity of the tenant: two paths of references lead to the tenant, the
  search finds one chain, so that the entity has a tenant path and no ambiguity is reported.
\<close>

definition detour_design :: design where
  "detour_design = demo_design\<lparr>ds_modules := [ModuleDesign ''orgs'' None None
     [demo_entity ''Org'' [], demo_entity ''Site'' [''Org''], demo_entity ''Meter'' [''Org'', ''Site'']] [] [] []]\<rparr>"

lemma detour_not_counted:
  "ref_path detour_design ''Org'' ''Meter'' [demo_belongs ''Org'']"
  "ref_path detour_design ''Org'' ''Meter'' [demo_belongs ''Site'', demo_belongs ''Org'']"
  "tenant_path_branch_count detour_design ''Meter'' = 1"
proof -
  have f: "find_entity detour_design ''Meter'' = Some (demo_entity ''Meter'' [''Org'', ''Site''])"
    "find_entity detour_design ''Site'' = Some (demo_entity ''Site'' [''Org''])"
    by (simp_all add: detour_design_def find_entity_def or_else_def demo_entity_def)
  then show "ref_path detour_design ''Org'' ''Meter'' [demo_belongs ''Org'']"
    "ref_path detour_design ''Org'' ''Meter'' [demo_belongs ''Site'', demo_belongs ''Org'']"
    by (simp_all add: refers_def demo_entity_def demo_belongs_def)
  have "tenant_path_chains detour_design ''Meter'' ''Org'' [] = [[]]"
    by (simp add: tenant_path_chains.simps [of detour_design "''Meter''"] f demo_entity_def demo_belongs_def)
  then show "tenant_path_branch_count detour_design ''Meter'' = 1"
    by (simp add: tenant_path_branch_count_def detour_design_def [THEN arg_cong, of ds_tenancy] demo_design_def [THEN arg_cong, of ds_tenancy])
qed

end
