(* ===== verification/JC_Conflict.thy ===== *)
theory JC_Conflict
  imports JC_Design JC_RouteTwin JC_App "HOL-Library.Multiset"
begin

text \<open>
  The fatal conflicts of a design, \<open>design_conflict\<close> of \<open>jerrycan/src/platform/questions.rs\<close>, with the two route tables
  of \<open>genroute.rs\<close> that its route rule reads. A conflict has a constructor per message, with the values the message
  interpolates; the prose is left out. Then the modules of the application that is generated (\<open>builder_calls\<close> of
  \<open>genroute.rs\<close>, the mounts of \<open>mounting.rs\<close>), and when the runtime's builder takes them.
\<close>

section \<open>Route tables\<close>

record route_entry =
  re_method :: str
  re_path :: str
  re_module :: str
  re_handler :: str

fun route_rows :: "str \<Rightarrow> str \<Rightarrow> module_design \<Rightarrow> route_entry list" where
  "route_rows prefix tm (ModuleDesign n mo de es eps subs deps) =
     (let base = prefix @ effective_mount (ModuleDesign n mo de es eps subs deps) in
      map (\<lambda>ep. \<lparr>re_method = as_http_const (ae_method ep), re_path = trim_end_matches CHR ''/'' base @ ae_path ep,
                 re_module = tm, re_handler = ae_operation_id ep\<rparr>) eps @
      concat (map (route_rows base tm) subs))"

definition route_map :: "design \<Rightarrow> route_entry list" where
  "route_map d = concat (map (\<lambda>m. route_rows [] (md_name m) m) (ds_modules d))"

definition emits_member_surface :: "module_design \<Rightarrow> bool \<Rightarrow> bool \<Rightarrow> design \<Rightarrow> bool" where
  "emits_member_surface m db auth d \<longleftrightarrow>
     db \<and> auth \<and> (case ds_tenancy d of None \<Rightarrow> False | Some t \<Rightarrow> declares_entity m (te_entity t))"

definition member_surface :: "str \<Rightarrow> str \<Rightarrow> design \<Rightarrow> route_entry list" where
  "member_surface base tm d =
     (case ds_tenancy d of
        None \<Rightarrow> []
      | Some t \<Rightarrow>
          (let snake = to_snake (te_entity t);
               collection = trim_end_matches CHR ''/'' base @ ''/'' @ braced (fk_of (te_entity t)) @ ''/members'';
               item = collection @ ''/{user_id}'';
               row = (\<lambda>method path handler. \<lparr>re_method = method, re_path = path, re_module = tm, re_handler = handler\<rparr>) in
           [row ''GET'' collection (''list_'' @ snake @ ''_members''), row ''POST'' collection (''add_'' @ snake @ ''_member''),
            row ''PATCH'' item (''set_'' @ snake @ ''_member_role''), row ''DELETE'' item (''remove_'' @ snake @ ''_member'')]))"

fun member_rows :: "bool \<Rightarrow> bool \<Rightarrow> design \<Rightarrow> str \<Rightarrow> str \<Rightarrow> module_design \<Rightarrow> route_entry list" where
  "member_rows db auth d prefix tm (ModuleDesign n mo de es eps subs deps) =
     (let m = ModuleDesign n mo de es eps subs deps; base = prefix @ effective_mount m in
      (if emits_member_surface m db auth d then member_surface base tm d else []) @
      concat (map (member_rows db auth d base tm) subs))"

definition implicit_member_routes :: "design \<Rightarrow> route_entry list" where
  "implicit_member_routes d = concat (map (\<lambda>m. member_rows (wants_db d) (wants_auth d) d [] (md_name m) m) (ds_modules d))"

section \<open>Conflicts\<close>

datatype fatal_conflict =
    UnknownIdentity str str
  | TenantIsIdentity str str
  | NoMemberRoles
  | MemberRoleShape str
  | MemberRoleTwice str
  | EntityShadowsDto str str
  | InlineNameTaken str str str "str \<times> str"
  | InlineNameTwice str str str str str
  | RouteConflict design_conflict

definition jc_code :: "fatal_conflict \<Rightarrow> str" where
  "jc_code c = (case c of UnknownIdentity _ _ \<Rightarrow> ''JC0566'' | TenantIsIdentity _ _ \<Rightarrow> ''JC0540'' | NoMemberRoles \<Rightarrow> ''JC0548''
     | MemberRoleShape _ \<Rightarrow> ''JC0548'' | MemberRoleTwice _ \<Rightarrow> ''JC0548'' | EntityShadowsDto _ _ \<Rightarrow> ''JC0541''
     | InlineNameTaken _ _ _ _ \<Rightarrow> ''JC0561'' | InlineNameTwice _ _ _ _ _ \<Rightarrow> ''JC0561'' | RouteConflict dc \<Rightarrow> conflict_code dc)"

definition MEMBERSHIP_PRINCIPAL_COLUMN :: str where "MEMBERSHIP_PRINCIPAL_COLUMN = ''user_id''"

definition is_enum_value :: "str \<Rightarrow> bool" where
  "is_enum_value s \<longleftrightarrow> s \<noteq> [] \<and> list_all (\<lambda>c. ascii_alnum c \<or> c = CHR ''_'' \<or> c = CHR ''-'') s"

fun member_roles_scan :: "str set \<Rightarrow> str list \<Rightarrow> fatal_conflict option" where
  "member_roles_scan seen [] = None"
| "member_roles_scan seen (role # rs) =
     (if \<not> is_enum_value role then Some (MemberRoleShape role)
      else if role \<in> seen then Some (MemberRoleTwice role)
      else member_roles_scan (insert role seen) rs)"

definition member_roles_conflict :: "design \<Rightarrow> fatal_conflict option" where
  "member_roles_conflict d =
     (case ds_tenancy d of
        None \<Rightarrow> None
      | Some t \<Rightarrow> if te_member_roles t = [] then Some NoMemberRoles else member_roles_scan {} (te_member_roles t))"

definition design_names :: "design \<Rightarrow> str list" where "design_names d = modules_names (ds_modules d)"

definition request_dto_name_collision :: "design \<Rightarrow> fatal_conflict option" where
  "request_dto_name_collision d =
     (let names = design_names d in
      find_map (\<lambda>name. case strip_suffix_str ''Request'' name of
          None \<Rightarrow> None
        | Some base \<Rightarrow> if base = [] \<or> base \<notin> set names \<or> \<not> entity_generates_request_dto d base then None
                       else Some (EntityShadowsDto name base)) names)"

text \<open>The names that the entities take, first come first served, with what takes them: \<open>model\<close>, \<open>request\<close> or \<open>update\<close>.\<close>

definition entity_reserves :: "design \<Rightarrow> str \<Rightarrow> (str \<times> str \<times> str) list" where
  "entity_reserves d name =
     [(name, ''model'', name)] @
     (if entity_generates_request_dto d name then [(name @ ''Request'', ''request'', name)] else []) @
     (if entity_generates_update_request_dto d name then [(name @ ''UpdateRequest'', ''update'', name)] else [])"

definition reserved_names :: "design \<Rightarrow> (str \<times> str \<times> str) list" where
  "reserved_names d = concat (map (entity_reserves d) (design_names d))"

definition is_inline_endpoint :: "api_endpoint \<Rightarrow> bool" where
  "is_inline_endpoint ep \<longleftrightarrow> (case ae_request_body ep of None \<Rightarrow> False | Some rb \<Rightarrow> is_inline rb)"

fun collect_inline :: "module_design \<Rightarrow> (str \<times> api_endpoint) list" where
  "collect_inline (ModuleDesign n mo de es eps subs deps) =
     map (Pair n) (filter is_inline_endpoint eps) @ concat (map collect_inline subs)"

definition inline_bodies :: "design \<Rightarrow> (str \<times> api_endpoint) list" where
  "inline_bodies d = concat (map collect_inline (ds_modules d))"

definition inline_dto_name :: "api_endpoint \<Rightarrow> str" where
  "inline_dto_name ep = to_pascal (ae_operation_id ep) @ ''Request''"

fun inline_scan :: "(str \<times> str \<times> str) list \<Rightarrow> (str \<times> str \<times> str) list \<Rightarrow> (str \<times> api_endpoint) list \<Rightarrow> fatal_conflict option" where
  "inline_scan reserved seen [] = None"
| "inline_scan reserved seen ((m, ep) # rest) =
     (let name = inline_dto_name ep; op = ae_operation_id ep in
      case map_of reserved name of
        Some origin \<Rightarrow> Some (InlineNameTaken op m name origin)
      | None \<Rightarrow>
          (case map_of seen name of
             Some (prev_op, prev_module) \<Rightarrow> Some (InlineNameTwice name prev_op prev_module op m)
           | None \<Rightarrow> inline_scan reserved ((name, op, m) # seen) rest))"

definition inline_dto_name_collision :: "design \<Rightarrow> fatal_conflict option" where
  "inline_dto_name_collision d = inline_scan (reserved_names d) [] (inline_bodies d)"

definition route_conflict :: "design \<Rightarrow> fatal_conflict option" where
  "route_conflict d =
     (let n = (if ds_tenancy d \<noteq> None then normalize_tenant_detail_routes d else d) in
      map_option RouteConflict (router_param_conflict (map re_path (route_map n)) (map re_path (implicit_member_routes n))))"

definition identity_conflict :: "design \<Rightarrow> fatal_conflict option" where
  "identity_conflict d =
     (case Option.bind (ds_auth d) au_identity of
        Some identity \<Rightarrow> if find_entity d identity = None then Some (UnknownIdentity identity (identity_fk_column d)) else None
      | None \<Rightarrow> None)"

definition tenant_identity_conflict :: "design \<Rightarrow> fatal_conflict option" where
  "tenant_identity_conflict d =
     (case ds_tenancy d of
        None \<Rightarrow> None
      | Some t \<Rightarrow>
          (let tenant_fk = fk_of (te_entity t) in
           if tenant_fk = identity_fk_column d \<or> tenant_fk = MEMBERSHIP_PRINCIPAL_COLUMN
           then Some (TenantIsIdentity (te_entity t) tenant_fk) else None))"

definition find_design_conflict :: "design \<Rightarrow> fatal_conflict option" where
  "find_design_conflict d =
     or_else (identity_conflict d) (or_else (tenant_identity_conflict d) (or_else (member_roles_conflict d)
       (or_else (request_dto_name_collision d) (or_else (inline_dto_name_collision d) (route_conflict d)))))"

lemma or_else_None [simp]: "or_else a b = None \<longleftrightarrow> a = None \<and> b = None"
  by (simp add: or_else_def split: option.splits)

lemma find_design_conflict_None:
  "find_design_conflict d = None \<longleftrightarrow> identity_conflict d = None \<and> tenant_identity_conflict d = None \<and>
     member_roles_conflict d = None \<and> request_dto_name_collision d = None \<and> inline_dto_name_collision d = None \<and> route_conflict d = None"
  by (simp add: find_design_conflict_def)

section \<open>What no conflict gives\<close>



lemma inline_scan_None:
  "inline_scan reserved seen bs = None \<longleftrightarrow>
     distinct (map (inline_dto_name \<circ> snd) bs) \<and> set (map (inline_dto_name \<circ> snd) bs) \<inter> (fst ` set reserved \<union> fst ` set seen) = {}"
proof (induction reserved seen bs rule: inline_scan.induct)
  case (2 reserved seen m ep rest)
  show ?case
  proof (cases "map_of reserved (inline_dto_name ep)")
    case r: None
    then have r': "inline_dto_name ep \<notin> fst ` set reserved" by (simp add: map_of_eq_None_iff)
    show ?thesis
    proof (cases "map_of seen (inline_dto_name ep)")
      case s: None
      then have "inline_dto_name ep \<notin> fst ` set seen" by (simp add: map_of_eq_None_iff)
      with r r' s 2 show ?thesis by (auto simp: Let_def)
    next
      case (Some p)
      then have "inline_dto_name ep \<in> fst ` set seen" by (metis map_of_eq_None_iff option.distinct(1))
      with r Some show ?thesis by (auto simp: Let_def split: prod.splits)
    qed
  next
    case (Some p)
    then have "inline_dto_name ep \<in> fst ` set reserved" by (metis map_of_eq_None_iff option.distinct(1))
    with Some show ?thesis by (auto simp: Let_def)
  qed
qed simp

text \<open>The inline request bodies pass exactly when the types generated for them have names of their own: no two of the
  design are equal, and none is the name of an entity's model, of its request type or of its update type.\<close>

lemma inline_dto_names_fresh:
  "inline_dto_name_collision d = None \<longleftrightarrow>
     distinct (map (inline_dto_name \<circ> snd) (inline_bodies d)) \<and>
     (\<forall>name \<in> set (map (inline_dto_name \<circ> snd) (inline_bodies d)). name \<notin> set (design_names d) \<and>
       (\<forall>x \<in> set (design_names d). (entity_generates_request_dto d x \<longrightarrow> name \<noteq> x @ ''Request'') \<and>
          (entity_generates_update_request_dto d x \<longrightarrow> name \<noteq> x @ ''UpdateRequest'')))"
proof -
  have "name \<in> fst ` set (entity_reserves d x) \<longleftrightarrow> name = x \<or>
      entity_generates_request_dto d x \<and> name = x @ ''Request'' \<or> entity_generates_update_request_dto d x \<and> name = x @ ''UpdateRequest''" for name x
    by (auto simp: entity_reserves_def)
  moreover have "fst ` set (reserved_names d) = (\<Union>x \<in> set (design_names d). fst ` set (entity_reserves d x))"
    by (auto simp: reserved_names_def)
  ultimately have "name \<in> fst ` set (reserved_names d) \<longleftrightarrow> (\<exists>x \<in> set (design_names d). name = x \<or>
      entity_generates_request_dto d x \<and> name = x @ ''Request'' \<or> entity_generates_update_request_dto d x \<and> name = x @ ''UpdateRequest'')" for name
    by simp
  then show ?thesis
    unfolding inline_dto_name_collision_def inline_scan_None disjoint_iff by (intro conj_cong refl) auto
qed


section \<open>The application that is generated\<close>

text \<open>
  \<open>builder_calls\<close> registers the endpoints of a module grouped by their path, in the order in which the paths are first
  seen; then the two member routes; then it mounts the subroutes. The functions behind the routes, \<open>h\<close> by module and
  Rust path, and the environment and middleware of a module, \<open>conf\<close> (the repositories it provides and what
  \<open>deps::configure\<close> adds), are code of the application.
\<close>

fun path_order :: "str list \<Rightarrow> api_endpoint list \<Rightarrow> str list" where
  "path_order seen [] = seen"
| "path_order seen (ep # eps) = path_order (if ae_path ep \<in> set seen then seen else seen @ [ae_path ep]) eps"

definition by_path :: "api_endpoint list \<Rightarrow> str \<Rightarrow> api_endpoint list" where
  "by_path eps path = filter (\<lambda>ep. ae_path ep = path) eps"

definition method_chain :: "(str \<Rightarrow> 'h) \<Rightarrow> api_endpoint list \<Rightarrow> 'h method_router" where
  "method_chain h eps =
     foldl (\<lambda>r ep. mr_on (as_http_const (ae_method ep)) (h (''handlers::'' @ ae_operation_id ep)) r) mr_new eps"

definition member_collection :: "tenancy \<Rightarrow> str" where
  "member_collection t = ''/'' @ braced (fk_of (te_entity t)) @ ''/members''"

definition member_routes :: "(str \<Rightarrow> 'h) \<Rightarrow> design \<Rightarrow> (str \<times> 'h method_router) list" where
  "member_routes h d =
     (case ds_tenancy d of
        None \<Rightarrow> []
      | Some t \<Rightarrow>
          [(member_collection t, mr_on ''POST'' (h ''members::add_member'') (route_get (h ''members::list_members''))),
           (member_collection t @ ''/{user_id}'',
            mr_on ''DELETE'' (h ''members::remove_member'') (route_patch (h ''members::set_member_role'')))])"

fun generated_module ::
    "(str \<Rightarrow> ('r, 'v) dep_env \<times> 'm list) \<Rightarrow> (str \<Rightarrow> str \<Rightarrow> 'h) \<Rightarrow> bool \<Rightarrow> bool \<Rightarrow> design \<Rightarrow> module_design \<Rightarrow> ('h, 'r, 'v, 'm) module" where
  "generated_module conf h db auth d (ModuleDesign n mo de es eps subs deps) =
     Module n
       (map (\<lambda>path. (path, method_chain (h n) (by_path eps path))) (path_order [] eps) @
        (if emits_member_surface (ModuleDesign n mo de es eps subs deps) db auth d then member_routes (h n) d else []))
       (map (\<lambda>sub. (effective_mount sub, generated_module conf h db auth d sub)) subs)
       (fst (conf n)) (snd (conf n))"

definition join_mount :: "str \<Rightarrow> str \<Rightarrow> str" where
  "join_mount base mount = (if base = [] then mount else if mount = ''/'' then base else base @ mount)"

text \<open>The modules \<open>ms\<close> mounted under the prefix of the application, as \<open>expected_main\<close> emits them after the part \<open>a\<close> of the
  application builder that comes before the mounts.\<close>

definition generated_app ::
    "(str \<Rightarrow> ('h request_data, 'v) dep_env \<times> ('h, 'v) middleware list) \<Rightarrow> (str \<Rightarrow> str \<Rightarrow> ('h, 'v) handler_fn) \<Rightarrow>
       design \<Rightarrow> module_design list \<Rightarrow> ('h, 'v) app \<Rightarrow> ('h, 'v) app" where
  "generated_app conf h d ms a =
     foldl (\<lambda>a m. app_mount (join_mount (base_prefix d) (effective_mount m)) (generated_module conf h (wants_db d) (wants_auth d) d m) a) a ms"

text \<open>The paths a module registers, each once, in the spelling of the route tables.\<close>

definition member_paths :: "design \<Rightarrow> str list" where
  "member_paths d = (case ds_tenancy d of None \<Rightarrow> [] | Some t \<Rightarrow> [member_collection t, member_collection t @ ''/{user_id}''])"

fun declared_paths :: "bool \<Rightarrow> bool \<Rightarrow> design \<Rightarrow> str \<Rightarrow> module_design \<Rightarrow> str list" where
  "declared_paths db auth d prefix (ModuleDesign n mo de es eps subs deps) =
     (let m = ModuleDesign n mo de es eps subs deps; base = prefix @ effective_mount m in
      map (\<lambda>path. trim_end_matches CHR ''/'' base @ path)
        (path_order [] eps @ (if emits_member_surface m db auth d then member_paths d else [])) @
      concat (map (declared_paths db auth d base) subs))"

definition registered_paths :: "design \<Rightarrow> str list" where
  "registered_paths d = concat (map (declared_paths (wants_db d) (wants_auth d) d []) (ds_modules d))"

text \<open>What the questions of a module ask of its paths: they start with a slash, and no method is declared twice for one.\<close>

definition plain_module :: "module_design \<Rightarrow> bool" where
  "plain_module m \<longleftrightarrow> take 1 (effective_mount m) = ''/'' \<and>
     list_all (\<lambda>ep. take 1 (ae_path ep) = ''/'') (md_endpoints m) \<and> distinct (map (\<lambda>ep. (ae_method ep, ae_path ep)) (md_endpoints m))"

lemma path_order_props:
  "distinct seen \<Longrightarrow> distinct (path_order seen eps)"
  "set (path_order seen eps) = set seen \<union> ae_path ` set eps"
  by (induction seen eps rule: path_order.induct) auto

lemma method_chain_handlers:
  "map fst (mr_handlers (method_chain h eps)) = map (as_http_const \<circ> ae_method) eps"
proof -
  have "map fst (mr_handlers (foldl (\<lambda>r ep. mr_on (as_http_const (ae_method ep)) (h (''handlers::'' @ ae_operation_id ep)) r) r eps)) =
      map fst (mr_handlers r) @ map (as_http_const \<circ> ae_method) eps" for r
    by (induction eps arbitrary: r) (simp_all add: mr_on_def)
  then show ?thesis by (simp add: method_chain_def mr_new_def)
qed

lemma as_http_const_inj: "as_http_const a = as_http_const b \<longleftrightarrow> a = b"
  by (cases a; cases b) (simp_all add: as_http_const_def)

lemma grouped_methods_once:
  "distinct (map (\<lambda>ep. (ae_method ep, ae_path ep)) eps) \<Longrightarrow> distinct (map (as_http_const \<circ> ae_method) (by_path eps path))"
  by (induction eps) (auto simp: by_path_def as_http_const_inj)

lemma member_routes_paths: "map fst (member_routes h d) = member_paths d"
  by (simp add: member_routes_def member_paths_def split: option.splits)

lemma member_routes_methods: "(p, ms) \<in> set (member_routes h d) \<Longrightarrow> distinct (map fst (mr_handlers ms))"
  by (auto simp: member_routes_def mr_on_def mr_new_def route_get_def route_patch_def split: option.splits)

section \<open>Its paths in the router\<close>

lemma segments_join:
  assumes "take 1 p = ''/''"
  shows "segments (x @ p) = segments x @ segments p"
proof -
  from assms obtain q where p: "p = CHR ''/'' # q" by (cases p) auto
  show ?thesis unfolding p segments_def by (simp add: split_on_append_sep)
qed

lemma segments_trim: "segments (trim_end_matches CHR ''/'' a) = segments a"
proof -
  have "segments (join_paths a []) = segments a" using join_paths_segments [of a "[]"] by (simp add: segments_def)
  then show ?thesis by (auto simp: join_paths_def Let_def trim_start_matches_def segments_def split: if_splits)
qed

lemma segments_join_mount: "take 1 mount = ''/'' \<Longrightarrow> segments (join_mount base mount) = segments base @ segments mount"
  using segments_join by (auto simp: join_mount_def segments_def)

lemma member_paths_slash: "p \<in> set (member_paths d) \<Longrightarrow> take 1 p = ''/''"
  by (auto simp: member_paths_def member_collection_def split: option.splits)

lemma flatten_generated:
  assumes "\<forall>x \<in> set (module_tree m). plain_module x"
    and "segments P = pre @ segments (prefix @ effective_mount m)"
  shows "map (segments \<circ> fl_path) (flatten (generated_module conf h db auth d m) P e w) =
      map (\<lambda>p. pre @ segments p) (declared_paths db auth d prefix m)"
  using assms
proof (induction db auth d prefix m arbitrary: P e w rule: declared_paths.induct)
  case (1 db auth d prefix n mo de es eps subs deps)
  let ?m = "ModuleDesign n mo de es eps subs deps"
  let ?base = "prefix @ effective_mount ?m" and ?eps = "path_order [] eps"
  let ?mem = "if emits_member_surface ?m db auth d then member_paths d else []"
  have plain: "plain_module ?m" using 1(2) by simp
  have slash: "take 1 p = ''/''" if "p \<in> set (?eps @ ?mem)" for p
    using that plain member_paths_slash by (auto simp: path_order_props plain_module_def list_all_iff split: if_splits)
  have own: "segments (join_paths P p) = pre @ segments (trim_end_matches CHR ''/'' ?base @ p)" if "p \<in> set (?eps @ ?mem)" for p
    using slash [OF that] 1(3) by (simp add: join_paths_segments segments_join segments_trim)
  let ?rs = "map (\<lambda>path. (path, method_chain (h n) (by_path eps path))) ?eps @
      (if emits_member_surface ?m db auth d then member_routes (h n) d else [])"
  have fsts: "map fst ?rs = ?eps @ ?mem" by (simp add: member_routes_paths comp_def)
  have here: "map (segments \<circ> fl_path) (map (\<lambda>(path, ms). flat_of e' w' (join_paths P path) ms) ?rs) =
      map (\<lambda>p. pre @ segments p) (map (\<lambda>path. trim_end_matches CHR ''/'' ?base @ path) (?eps @ ?mem))" for e' w'
  proof -
    have "map (segments \<circ> fl_path) (map (\<lambda>(path, ms). flat_of e' w' (join_paths P path) ms) rs) =
        map (\<lambda>p. segments (join_paths P p)) (map fst rs)" for rs
      by (simp add: flat_of_def case_prod_unfold comp_def)
    from this [of ?rs] have "map (segments \<circ> fl_path) (map (\<lambda>(path, ms). flat_of e' w' (join_paths P path) ms) ?rs) =
        map (\<lambda>p. segments (join_paths P p)) (?eps @ ?mem)" unfolding fsts .
    also have "\<dots> = map (\<lambda>p. pre @ segments (trim_end_matches CHR ''/'' ?base @ p)) (?eps @ ?mem)"
      by (rule map_cong [OF refl own])
    finally show ?thesis by (simp only: map_map comp_def)
  qed
  have sub: "map (segments \<circ> fl_path) (flatten (generated_module conf h db auth d s) (join_paths P (effective_mount s)) e' w') =
      map (\<lambda>p. pre @ segments p) (declared_paths db auth d ?base s)" if "s \<in> set subs" for s e' w'
  proof (rule 1(1) [OF refl refl that])
    show "\<forall>x \<in> set (module_tree s). plain_module x" using 1(2) that by auto
    then have "take 1 (effective_mount s) = ''/''" by (cases s) (simp add: plain_module_def)
    then show "segments (join_paths P (effective_mount s)) = pre @ segments (?base @ effective_mount s)"
      using 1(3) segments_join [of "effective_mount s" ?base] by (simp add: join_paths_segments)
  qed
  have "map (segments \<circ> fl_path) (concat (map (\<lambda>(sub_prefix, child). flatten child (join_paths P sub_prefix) e' w')
        (map (\<lambda>sub. (effective_mount sub, generated_module conf h db auth d sub)) subs))) =
      map (\<lambda>p. pre @ segments p) (concat (map (declared_paths db auth d ?base) subs))" for e' w'
    using sub [of _ e' w'] by (simp add: map_concat comp_def cong: map_cong)
  from arg_cong2 [OF here this, of "(@)" "merge_from e (fst (conf n))" "w @ snd (conf n)" "merge_from e (fst (conf n))" "w @ snd (conf n)"]
  show ?case
    unfolding generated_module.simps flatten.simps declared_paths.simps Let_def map_append [of _ _ "concat _"] .
qed

lemma flatten_methods_once:
  assumes "\<forall>x \<in> set (module_tree m). plain_module x"
    and "f \<in> set (flatten (generated_module conf h db auth d m) P e w)"
  shows "distinct (map fst (mr_handlers (fl_methods f)))"
  using assms
proof (induction conf h db auth d m arbitrary: P e w rule: generated_module.induct)
  case (1 conf h db auth d n mo de es eps subs deps)
  let ?m = "ModuleDesign n mo de es eps subs deps"
  have plain: "plain_module ?m" using 1(2) by simp
  from 1(3) consider (own) path where "fl_methods f = method_chain (h n) (by_path eps path)"
    | (members) p where "(p, fl_methods f) \<in> set (member_routes (h n) d)"
    | (sub) s P' e' w' where "s \<in> set subs" "f \<in> set (flatten (generated_module conf h db auth d s) P' e' w')"
    by (auto simp: Let_def flat_of_def split: if_splits)
  then show ?case
  proof cases
    case own
    then show ?thesis using plain grouped_methods_once by (simp add: method_chain_handlers plain_module_def)
  next
    case members
    then show ?thesis by (rule member_routes_methods)
  next
    case sub
    then show ?thesis using 1(1) [OF sub(1) _ sub(2)] 1(2) by auto
  qed
qed

lemma declared_paths_set:
  "set (declared_paths db auth d prefix m) = re_path ` (set (route_rows prefix tm m) \<union> set (member_rows db auth d prefix tm m))"
proof (induction db auth d prefix m rule: declared_paths.induct)
  case (1 db auth d prefix n mo de es eps subs deps)
  let ?m = "ModuleDesign n mo de es eps subs deps"
  let ?b = "prefix @ effective_mount ?m"
  let ?under = "\<lambda>p. trim_end_matches CHR ''/'' ?b @ p"
  have surface: "re_path ` set (member_surface ?b tm d) = ?under ` set (member_paths d)"
    by (cases "ds_tenancy d") (simp_all add: member_surface_def member_paths_def member_collection_def Let_def)
  have rows: "re_path ` set (route_rows prefix tm ?m) = ?under ` ae_path ` set eps \<union> (\<Union>s \<in> set subs. re_path ` set (route_rows ?b tm s))"
    by (simp add: Let_def image_Un image_UN image_image)
  have members: "re_path ` set (member_rows db auth d prefix tm ?m) =
      (if emits_member_surface ?m db auth d then ?under ` set (member_paths d) else {}) \<union> (\<Union>s \<in> set subs. re_path ` set (member_rows db auth d ?b tm s))"
    by (simp add: Let_def image_Un image_UN surface)
  have "set (declared_paths db auth d prefix ?m) =
      ?under ` ae_path ` set eps \<union> (if emits_member_surface ?m db auth d then ?under ` set (member_paths d) else {}) \<union>
      (\<Union>s \<in> set subs. set (declared_paths db auth d ?b s))"
    by (simp add: Let_def path_order_props image_Un Un_assoc)
  also have "(\<Union>s \<in> set subs. set (declared_paths db auth d ?b s)) =
      (\<Union>s \<in> set subs. re_path ` set (route_rows ?b tm s)) \<union> (\<Union>s \<in> set subs. re_path ` set (member_rows db auth d ?b tm s))"
    using 1 [OF refl refl] by (simp add: image_Un UN_Un_distrib)
  finally show ?case unfolding image_Un rows members by (simp only: Un_ac)
qed

lemmas declared_paths_set_name = declared_paths_set [of _ _ _ _ m "md_name m" for m]

lemma registered_paths_set:
  "set (registered_paths d) = set (map re_path (route_map d @ implicit_member_routes d))"
  unfolding registered_paths_def route_map_def implicit_member_routes_def set_concat set_map set_append image_Un image_UN image_image
  unfolding UN_Un_distrib [symmetric] image_Un [symmetric] declared_paths_set_name ..

lemma agree_below: "agree (pre @ ps) (pre @ qs) \<longleftrightarrow> agree ps qs"
proof (induction pre)
  case (Cons x pre)
  have "agree (x # us) (x # vs) \<longleftrightarrow> agree us vs" for us vs
    by (cases x) (auto simp: agree_iff in_caps_simps simp del: caps_from.simps(2-3))
  with Cons show ?case by simp
qed simp

lemma walk_agree:
  assumes "twin_walk paths empty_twin = None" and "p \<in> set paths" "q \<in> set paths"
  shows "agree (pats_of p) (pats_of q) \<and> (pats_of p = pats_of q \<longrightarrow> p = q)"
proof -
  let ?R = "\<lambda>p q. agree (pats_of p) (pats_of q) \<and> (pats_of p = pats_of q \<longrightarrow> p = q)"
  have "symp ?R" by (auto intro!: sympI agree_sym)
  moreover have "sorted_wrt ?R paths"
    using assms(1) unfolding twin_walk_None twin.insert_all_iff by (simp add: registrable_def [abs_def])
  ultimately show ?thesis using assms(2,3) sorted_wrt_symp [of ?R paths] by (simp add: agree_refl)
qed

lemma walk_distinct:
  assumes "twin_walk paths empty_twin = None" and "set xs \<subseteq> set paths"
  shows "sorted_wrt (\<lambda>p q. agree (pats_of p) (pats_of q) \<and> pats_of p \<noteq> pats_of q) xs \<longleftrightarrow> distinct xs"
  using assms(2)
proof (induction xs)
  case (Cons p xs)
  have "(\<forall>q \<in> set xs. agree (pats_of p) (pats_of q) \<and> pats_of p \<noteq> pats_of q) \<longleftrightarrow> p \<notin> set xs"
    using walk_agree [OF assms(1)] Cons.prems by (auto simp: subset_iff)
  with Cons show ?case by simp
qed simp

lemma mset_concat_map: "mset xs = mset ys \<Longrightarrow> mset (concat (map f xs)) = mset (concat (map f ys))"
  by (simp only: mset_concat sum_mset_sum_list [symmetric] mset_map)

lemma mounted_parts:
  "a_mounts (generated_app conf h d ms a) = a_mounts a @
     map (\<lambda>m. (join_mount (base_prefix d) (effective_mount m), generated_module conf h (wants_db d) (wants_auth d) d m)) ms"
  "a_routes (generated_app conf h d ms a) = a_routes a" "a_env (generated_app conf h d ms a) = a_env a"
  "a_middleware (generated_app conf h d ms a) = a_middleware a" "a_cors (generated_app conf h d ms a) = a_cors a"
  by (induction ms arbitrary: a) (simp_all add: generated_app_def app_mount_def)

text \<open>When the walk of the validator finds nothing, the router refuses the modules exactly when a path is registered twice.\<close>

lemma generated_app_builds_iff:
  assumes walk: "twin_walk (map re_path (route_map d) @ map re_path (implicit_member_routes d)) empty_twin = None"
    and plain: "\<forall>x \<in> set (design_tree d). plain_module x"
    and a: "a_routes a = []" "a_mounts a = []" "a_cors a = None"
    and ms: "mset ms = mset (ds_modules d)"
  shows "is_ok (build (generated_app conf h d ms a)) \<longleftrightarrow> distinct (registered_paths d)"
proof -
  let ?paths = "concat (map (declared_paths (wants_db d) (wants_auth d) d []) ms)"
  let ?flats = "all_flats (generated_app conf h d ms a)"
  let ?base = "segments (base_prefix d)"
  have in_tree: "\<forall>x \<in> set (module_tree m). plain_module x" "take 1 (effective_mount m) = ''/''" if "m \<in> set ms" for m
  proof -
    have "m \<in> set (ds_modules d)" using ms mset_eq_setD [of ms] that by simp
    then show "\<forall>x \<in> set (module_tree m). plain_module x" using plain by (auto simp: design_tree_def)
    then show "take 1 (effective_mount m) = ''/''" by (cases m) (simp add: plain_module_def)
  qed
  have flats: "?flats = concat (map (\<lambda>m. flatten (generated_module conf h (wants_db d) (wants_auth d) d m)
      (join_mount (base_prefix d) (effective_mount m)) (a_env a) (a_middleware a)) ms)"
    by (simp add: all_flats_def mounted_parts a comp_def)
  have once: "distinct (map fst (mr_handlers (fl_methods f)))" if "f \<in> set ?flats" for f
    using that flatten_methods_once [OF in_tree(1)] unfolding flats by auto
  have one: "map (segments \<circ> fl_path) (flatten (generated_module conf h (wants_db d) (wants_auth d) d m)
      (join_mount (base_prefix d) (effective_mount m)) (a_env a) (a_middleware a)) =
      map (\<lambda>p. ?base @ segments p) (declared_paths (wants_db d) (wants_auth d) d [] m)" if "m \<in> set ms" for m
    by (rule flatten_generated [OF in_tree(1) [OF that]]) (simp add: segments_join_mount [OF in_tree(2) [OF that]])
  have segs: "map (segments \<circ> fl_path) ?flats = map (\<lambda>p. ?base @ segments p) ?paths"
    unfolding flats map_concat map_map by (intro arg_cong [of _ _ concat] map_cong refl) (simp add: one)
  let ?S = "\<lambda>u v. agree (map pat_of u) (map pat_of v) \<and> map pat_of u \<noteq> map pat_of v"
  have "sorted_wrt (\<lambda>f f'. agree (pats_of (fl_path f)) (pats_of (fl_path f')) \<and> pats_of (fl_path f) \<noteq> pats_of (fl_path f')) ?flats \<longleftrightarrow>
      sorted_wrt ?S (map (segments \<circ> fl_path) ?flats)"
    by (simp add: sorted_wrt_map pats_of_def)
  also have "\<dots> \<longleftrightarrow> sorted_wrt (\<lambda>p q. agree (pats_of p) (pats_of q) \<and> pats_of p \<noteq> pats_of q) ?paths"
    unfolding segs by (simp add: sorted_wrt_map pats_of_def agree_below)
  also have "\<dots> \<longleftrightarrow> distinct ?paths"
  proof (rule walk_distinct [OF walk])
    have "set ?paths = set (registered_paths d)" using ms mset_eq_setD [of ms] by (simp add: registered_paths_def)
    then show "set ?paths \<subseteq> set (map re_path (route_map d) @ map re_path (implicit_member_routes d))"
      using registered_paths_set [of d] by simp
  qed
  also have "\<dots> \<longleftrightarrow> distinct (registered_paths d)"
    unfolding registered_paths_def by (rule mset_eq_imp_distinct_iff [OF mset_concat_map [OF ms]])
  finally show ?thesis using once by (auto simp: build_ok_iff mounted_parts a)
qed

lemma no_route_conflict:
  fixes d defines "n \<equiv> normalize_tenant_detail_routes d"
  assumes "find_design_conflict d = None"
  shows "\<forall>mr \<in> set (implicit_member_routes n). \<forall>dr \<in> set (route_map n). segments (re_path dr) \<noteq> segments (re_path mr)"
    and "twin_walk (map re_path (route_map n) @ map re_path (implicit_member_routes n)) empty_twin = None"
proof -
  have n: "(if ds_tenancy d \<noteq> None then n else d) = n"
    by (simp add: n_def normalize_tenant_detail_routes_def split: option.splits)
  have "route_conflict d = None" using assms(2) by (simp add: find_design_conflict_None)
  then have "router_param_conflict (map re_path (route_map n)) (map re_path (implicit_member_routes n)) = None"
    unfolding route_conflict_def n_def [symmetric] n Let_def by simp
  then show "\<forall>mr \<in> set (implicit_member_routes n). \<forall>dr \<in> set (route_map n). segments (re_path dr) \<noteq> segments (re_path mr)"
    and "twin_walk (map re_path (route_map n) @ map re_path (implicit_member_routes n)) empty_twin = None"
    by (auto simp: router_param_conflict_def find_None_iff split: option.splits)
qed


text \<open>Two modules may be mounted at one place, and the walk takes a second path of the same spelling for a second method on
  the first: nothing is reported, and the application does not start.\<close>

definition ping_module :: "str \<Rightarrow> module_design" where
  "ping_module name = ModuleDesign name (Some ''/v1'') None []
     [(demo_endpoint M_GET ''/ping'' None None)\<lparr>ae_operation_id := ''ping'', ae_auth_required := False, ae_public := True\<rparr>] [] []"

definition two_mounts :: design where
  "two_mounts = demo_design\<lparr>ds_tenancy := None, ds_modules := [ping_module ''a'', ping_module ''b'']\<rparr>"

lemma two_mounts_refused:
  fixes a :: "('h, 'v) app"
  assumes "a_routes a = []" "a_mounts a = []" "a_cors a = None"
  shows "find_design_conflict two_mounts = None" "\<not> is_ok (build (generated_app conf h two_mounts (ds_modules two_mounts) a))"
proof -
  have none: "find_design_conflict two_mounts = None" and norm: "normalize_tenant_detail_routes two_mounts = two_mounts"
    and plain: "list_all plain_module (design_tree two_mounts)" and twice: "\<not> distinct (registered_paths two_mounts)" by code_simp+
  then show "find_design_conflict two_mounts = None" by simp
  show "\<not> is_ok (build (generated_app conf h two_mounts (ds_modules two_mounts) a))"
    using generated_app_builds_iff [OF no_route_conflict(2) [OF none, unfolded norm] _ assms refl] plain twice by (simp add: list_all_iff)
qed

section \<open>Two types of one name\<close>




end
