(* ===== verification/JC_Fields.thy ===== *)
theory JC_Fields
  imports JC_Conflict
begin

text \<open>
  The checks of one field, \<open>check_field_shape\<close> and \<open>default_type_error\<close> of \<open>jerrycan/src/platform/questions.rs\<close>.

  A question is a pointer into the document and a reason; a reason has a constructor per message, with the values the
  message interpolates, and the prose is left out.
\<close>

section \<open>Questions\<close>

datatype default_reason =
    DefaultNoDb str
  | NowMisplaced str
  | NowMiscased str literal
  | DefaultNotListed str literal "str list"
  | DefaultType str literal field_type
  | DefaultRange str literal "int option" "int option"
  | DefaultLength str literal nat "nat option" "nat option"

datatype field_reason =
    ValuesNotString str
  | ValuesEmpty str
  | ValueShape str str
  | IdWriteOnly
  | IdBound str
  | BoundNotInteger str str
  | EmptyRange str int int
  | UniqueRange str int int int
  | LengthNotString str str
  | LengthWithValues str str
  | EmptyLengthRange str nat nat
  | RequiredEmpty str
  | UniqueEmpty str
  | LengthCeiling str nat
  | BadDefault default_reason

section \<open>Defaults\<close>

definition char_count :: "str \<Rightarrow> nat" where
  "char_count s = length (filter (\<lambda>c. \<not> byte_in 128 191 c) s)"

definition lit_str :: "literal \<Rightarrow> str option" where
  "lit_str v = (case v of JsonLit (JString s) \<Rightarrow> Some s | _ \<Rightarrow> None)"

definition is_i64 :: "int \<Rightarrow> bool" where "is_i64 n \<longleftrightarrow> - (2 ^ 63) \<le> n \<and> n < 2 ^ 63"

definition lit_i64 :: "literal \<Rightarrow> int option" where
  "lit_i64 v = (case v of JsonLit (JNumber n) \<Rightarrow> if is_i64 n then Some n else None | _ \<Rightarrow> None)"

definition lit_u64 :: "literal \<Rightarrow> int option" where
  "lit_u64 v = (case v of JsonLit (JNumber n) \<Rightarrow> if 0 \<le> n \<and> n < 2 ^ 64 then Some n else None | _ \<Rightarrow> None)"

definition lit_is_number :: "literal \<Rightarrow> bool" where
  "lit_is_number v = (case v of JsonLit (JNumber _) \<Rightarrow> True | FloatLit _ \<Rightarrow> True | _ \<Rightarrow> False)"

definition lit_is_bool :: "literal \<Rightarrow> bool" where
  "lit_is_bool v = (case v of JsonLit (JBool _) \<Rightarrow> True | _ \<Rightarrow> False)"

definition literal_matches :: "field_type \<Rightarrow> literal \<Rightarrow> bool" where
  "literal_matches ty v = (case ty of
     FString \<Rightarrow> lit_str v \<noteq> None | FDatetime \<Rightarrow> lit_str v \<noteq> None | FUuid \<Rightarrow> lit_str v \<noteq> None
   | FInteger \<Rightarrow> lit_i64 v \<noteq> None \<or> lit_u64 v \<noteq> None | FFloat \<Rightarrow> lit_is_number v | FBoolean \<Rightarrow> lit_is_bool v | FJson \<Rightarrow> True)"

definition opt_test :: "('a \<Rightarrow> bool) \<Rightarrow> 'a option \<Rightarrow> bool" where
  "opt_test P x = (case x of None \<Rightarrow> False | Some y \<Rightarrow> P y)"

definition now_error :: "field \<Rightarrow> literal \<Rightarrow> default_reason option" where
  "now_error f v =
     (case lit_str v of
        None \<Rightarrow> None
      | Some s \<Rightarrow>
          if s = ''now'' \<and> fd_type f \<noteq> FDatetime then Some (NowMisplaced (fd_name f))
          else if s \<noteq> ''now'' \<and> eq_ignore_ascii_case s ''now'' \<and> fd_type f = FDatetime then Some (NowMiscased (fd_name f) v)
          else None)"

definition bound_error :: "field \<Rightarrow> literal \<Rightarrow> default_reason option" where
  "bound_error f v =
     (if fd_type f = FInteger \<and> (fd_min f \<noteq> None \<or> fd_max f \<noteq> None) \<and>
         (case lit_i64 v of Some n \<Rightarrow> opt_test (\<lambda>mn. n < mn) (fd_min f) \<or> opt_test (\<lambda>mx. n > mx) (fd_max f) | None \<Rightarrow> fd_max f \<noteq> None)
      then Some (DefaultRange (fd_name f) v (fd_min f) (fd_max f))
      else if fd_type f = FString \<and> (fd_min_len f \<noteq> None \<or> fd_max_len f \<noteq> None)
      then (case lit_str v of
              None \<Rightarrow> None
            | Some s \<Rightarrow>
                (let n = char_count s in
                 if opt_test (\<lambda>mn. n < mn) (fd_min_len f) \<or> opt_test (\<lambda>mx. n > mx) (fd_max_len f)
                 then Some (DefaultLength (fd_name f) v n (fd_min_len f) (fd_max_len f)) else None))
      else None)"

definition default_type_error :: "field \<Rightarrow> bool \<Rightarrow> default_reason option" where
  "default_type_error f wants =
     (case fd_default f of
        None \<Rightarrow> None
      | Some v \<Rightarrow>
          if \<not> wants then Some (DefaultNoDb (fd_name f))
          else (case now_error f v of
                  Some e \<Rightarrow> Some e
                | None \<Rightarrow>
                    (case fd_values f of
                       Some vs \<Rightarrow> if opt_test (\<lambda>s. s \<in> set vs) (lit_str v) then None else Some (DefaultNotListed (fd_name f) v vs)
                     | None \<Rightarrow> if \<not> literal_matches (fd_type f) v then Some (DefaultType (fd_name f) v (fd_type f)) else bound_error f v)))"

section \<open>The shape of a field\<close>

definition values_shape :: "field \<Rightarrow> str \<Rightarrow> (str \<times> field_reason) list" where
  "values_shape f fptr =
     (case fd_values f of
        None \<Rightarrow> []
      | Some vs \<Rightarrow>
          if fd_type f \<noteq> FString then [(fptr @ ''/values'', ValuesNotString (fd_name f))]
          else if vs = [] then [(fptr @ ''/values'', ValuesEmpty (fd_name f))]
          else (case List.find (\<lambda>v. \<not> is_enum_value v) vs of
                  Some bad \<Rightarrow> [(fptr @ ''/values'', ValueShape (fd_name f) bad)]
                | None \<Rightarrow> []))"

definition id_shape :: "field \<Rightarrow> str \<Rightarrow> (str \<times> field_reason) list" where
  "id_shape f fptr =
     (if fd_write_only f then [(fptr @ ''/write_only'', IdWriteOnly)] else []) @
     map (\<lambda>(key, present). (fptr @ ''/'' @ key, IdBound key))
       (filter snd [(''min'', fd_min f \<noteq> None), (''max'', fd_max f \<noteq> None), (''min_len'', fd_min_len f \<noteq> None), (''max_len'', fd_max_len f \<noteq> None)])"

definition range_shape :: "field \<Rightarrow> str \<Rightarrow> (str \<times> field_reason) list" where
  "range_shape f fptr =
     (if fd_min f = None \<and> fd_max f = None then []
      else if fd_type f \<noteq> FInteger
      then map (\<lambda>(key, present). (fptr @ ''/'' @ key, BoundNotInteger (fd_name f) key))
             (filter snd [(''min'', fd_min f \<noteq> None), (''max'', fd_max f \<noteq> None)])
      else if (case (fd_min f, fd_max f) of (Some mn, Some mx) \<Rightarrow> mn > mx | _ \<Rightarrow> False)
      then [(fptr @ ''/min'', EmptyRange (fd_name f) (the (fd_min f)) (the (fd_max f)))]
      else if fd_unique f
      then (let mn = (case fd_min f of Some n \<Rightarrow> n | None \<Rightarrow> - (2 ^ 63)); mx = (case fd_max f of Some n \<Rightarrow> n | None \<Rightarrow> 2 ^ 63 - 1) in
            if mx - mn + 1 < 3
            then [(fptr @ ''/'' @ (if fd_min f \<noteq> None then ''min'' else ''max''), UniqueRange (fd_name f) mn mx (mx - mn + 1))] else [])
      else [])"

definition length_shape :: "field \<Rightarrow> str \<Rightarrow> (str \<times> field_reason) list" where
  "length_shape f fptr =
     (if fd_min_len f = None \<and> fd_max_len f = None then []
      else if fd_type f \<noteq> FString
      then map (\<lambda>(key, present). (fptr @ ''/'' @ key, LengthNotString (fd_name f) key))
             (filter snd [(''min_len'', fd_min_len f \<noteq> None), (''max_len'', fd_max_len f \<noteq> None)])
      else if fd_values f \<noteq> None
      then (let key = if fd_min_len f \<noteq> None then ''min_len'' else ''max_len'' in [(fptr @ ''/'' @ key, LengthWithValues (fd_name f) key)])
      else if (case (fd_min_len f, fd_max_len f) of (Some mn, Some mx) \<Rightarrow> mn > mx | _ \<Rightarrow> False)
      then [(fptr @ ''/min_len'', EmptyLengthRange (fd_name f) (the (fd_min_len f)) (the (fd_max_len f)))]
      else if fd_max_len f = Some 0 \<and> fd_required f then [(fptr @ ''/max_len'', RequiredEmpty (fd_name f))]
      else if fd_max_len f = Some 0 \<and> fd_unique f then [(fptr @ ''/max_len'', UniqueEmpty (fd_name f))]
      else if opt_test (\<lambda>n. n > 4096) (fd_min_len f) then [(fptr @ ''/min_len'', LengthCeiling (fd_name f) (the (fd_min_len f)))]
      else [])"

definition check_field_shape :: "field \<Rightarrow> str \<Rightarrow> bool \<Rightarrow> (str \<times> field_reason) list" where
  "check_field_shape f fptr wants =
     values_shape f fptr @
     (if fd_name f = ''id'' then id_shape f fptr else range_shape f fptr @ length_shape f fptr) @
     (case default_type_error f wants of Some e \<Rightarrow> [(fptr @ ''/default'', BadDefault e)] | None \<Rightarrow> [])"

section \<open>What a field admits\<close>

definition int_fits :: "field \<Rightarrow> int \<Rightarrow> bool" where
  "int_fits f n \<longleftrightarrow> is_i64 n \<and> (\<forall>mn. fd_min f = Some mn \<longrightarrow> mn \<le> n) \<and> (\<forall>mx. fd_max f = Some mx \<longrightarrow> n \<le> mx)"

definition str_fits :: "field \<Rightarrow> str \<Rightarrow> bool" where
  "str_fits f s \<longleftrightarrow> (\<forall>vs. fd_values f = Some vs \<longrightarrow> s \<in> set vs) \<and> (\<forall>mn. fd_min_len f = Some mn \<longrightarrow> mn \<le> char_count s) \<and>
     (\<forall>mx. fd_max_len f = Some mx \<longrightarrow> char_count s \<le> mx)"

definition bounds_typed :: "field \<Rightarrow> bool" where
  "bounds_typed f \<longleftrightarrow> (\<forall>n. fd_min f = Some n \<or> fd_max f = Some n \<longrightarrow> is_i64 n)"

lemma range_shape_ok:
  assumes "range_shape f p = []" "fd_type f = FInteger" "bounds_typed f"
  shows "\<exists>n. int_fits f n" "fd_unique f \<Longrightarrow> \<exists>n. int_fits f n \<and> int_fits f (n + 1) \<and> int_fits f (n + 2)"
proof -
  let ?mn = "case fd_min f of Some n \<Rightarrow> n | None \<Rightarrow> - (2 ^ 63)" and ?mx = "case fd_max f of Some n \<Rightarrow> n | None \<Rightarrow> 2 ^ 63 - 1"
  have fits: "int_fits f n" if "?mn \<le> n" "n \<le> ?mx" for n
    using that assms(3) by (auto simp: int_fits_def bounds_typed_def is_i64_def split: option.splits)
  have "?mn \<le> ?mx" using assms by (auto simp: range_shape_def bounds_typed_def is_i64_def split: option.splits if_splits)
  then show "\<exists>n. int_fits f n" using fits [of ?mn] by blast
  assume "fd_unique f"
  then have "?mn + 2 \<le> ?mx" using assms by (auto simp: range_shape_def Let_def split: option.splits if_splits)
  then show "\<exists>n. int_fits f n \<and> int_fits f (n + 1) \<and> int_fits f (n + 2)"
    using fits [of ?mn] fits [of "?mn + 1"] fits [of "?mn + 2"] by (intro exI [of _ ?mn]) simp
qed

lemma char_count_ascii: "char_count (replicate n CHR ''a'') = n"
  by (induction n) (simp_all add: char_count_def byte_in_def)

lemma char_count_Cons: "\<not> byte_in 128 191 c \<Longrightarrow> char_count (c # s) = Suc (char_count s)"
  by (simp add: char_count_def)

lemma length_shape_ok:
  assumes "length_shape f p = []" "fd_type f = FString" "fd_values f = None"
  shows "\<exists>s. str_fits f s \<and> char_count s \<le> 4096 \<and> (fd_required f \<longrightarrow> s \<noteq> [])"
    and "fd_unique f \<Longrightarrow> \<exists>a b c. str_fits f a \<and> str_fits f b \<and> str_fits f c \<and> distinct [a, b, c]"
proof -
  let ?n = "max 1 (case fd_min_len f of Some n \<Rightarrow> n | None \<Rightarrow> 0)"
  have fits: "str_fits f s" if "char_count s = ?n" "fd_max_len f \<noteq> Some 0" for s
    using that assms by (auto simp: str_fits_def length_shape_def opt_test_def split: option.splits if_splits)
  have ceiling: "?n \<le> 4096" using assms by (auto simp: length_shape_def opt_test_def split: option.splits if_splits)
  show "\<exists>s. str_fits f s \<and> char_count s \<le> 4096 \<and> (fd_required f \<longrightarrow> s \<noteq> [])"
  proof (cases "fd_max_len f = Some 0")
    case True
    then have "\<not> fd_required f" "str_fits f []"
      using assms by (auto simp: str_fits_def length_shape_def char_count_def split: option.splits if_splits)
    then show ?thesis by (intro exI [of _ "[]"]) (simp add: char_count_def)
  next
    case False
    have "replicate ?n CHR ''a'' \<noteq> []" by simp
    with False ceiling fits [of "replicate ?n CHR ''a''"] show ?thesis
      by (intro exI [of _ "replicate ?n CHR ''a''"]) (simp only: char_count_ascii simp_thms)
  qed
  assume "fd_unique f"
  then have "fd_max_len f \<noteq> Some 0" using assms by (auto simp: length_shape_def split: if_splits)
  moreover obtain k where "?n = Suc k" by (cases ?n) auto
  then have "char_count (c # replicate k CHR ''a'') = ?n" if "c \<in> {CHR ''a'', CHR ''b'', CHR ''c''}" for c
    using that by (auto simp: char_count_Cons char_count_ascii byte_in_def)
  ultimately show "\<exists>a b c. str_fits f a \<and> str_fits f b \<and> str_fits f c \<and> distinct [a, b, c]"
    using fits by (intro exI [of _ "CHR ''a'' # replicate k CHR ''a''"] exI [of _ "CHR ''b'' # replicate k CHR ''a''"]
      exI [of _ "CHR ''c'' # replicate k CHR ''a''"]) simp
qed


lemma id_shape_ok: "id_shape f p = [] \<Longrightarrow> fd_min f = None \<and> fd_max f = None \<and> fd_min_len f = None \<and> fd_max_len f = None \<and> \<not> fd_write_only f"
  by (auto simp: id_shape_def split: if_splits)

lemma check_field_shape_ok:
  assumes "check_field_shape f p wants = []"
  shows "values_shape f p = [] \<and> range_shape f p = [] \<and> length_shape f p = [] \<and> default_type_error f wants = None"
proof (cases "fd_name f = ''id''")
  case True
  then have "id_shape f p = []" using assms by (simp add: check_field_shape_def)
  then have "range_shape f p = [] \<and> length_shape f p = []" using id_shape_ok [of f p] by (simp add: range_shape_def length_shape_def)
  then show ?thesis using assms by (simp add: check_field_shape_def split: option.splits)
next
  case False
  then show ?thesis using assms by (simp add: check_field_shape_def split: option.splits)
qed

lemma values_shape_ok:
  "values_shape f p = [] \<Longrightarrow> fd_values f = Some vs \<Longrightarrow> fd_type f = FString \<and> vs \<noteq> [] \<and> list_all is_enum_value vs"
  by (auto simp: values_shape_def List.find_None_iff list_all_iff split: if_splits option.splits)

lemma accepted_integer_default:
  assumes "check_field_shape f p wants = []" "fd_default f = Some v" "fd_type f = FInteger"
  shows "\<exists>n. v = JsonLit (JNumber n) \<and> (n < 2 ^ 63 \<longrightarrow> int_fits f n)"
proof -
  note ok = check_field_shape_ok [OF assms(1)]
  have no_values: "fd_values f = None" using values_shape_ok [of f p] ok assms(3) by (cases "fd_values f") auto
  then have m: "literal_matches FInteger v" "bound_error f v = None"
    using ok assms by (auto simp: default_type_error_def split: if_splits option.splits)
  then obtain n where n: "v = JsonLit (JNumber n)" "is_i64 n \<or> 0 \<le> n \<and> n < 2 ^ 64"
    by (auto simp: literal_matches_def lit_i64_def lit_u64_def split: literal.splits json.splits if_splits)
  have "int_fits f n" if "n < 2 ^ 63"
  proof -
    have i: "is_i64 n" using that n(2) by (auto simp: is_i64_def)
    then show ?thesis using m(2) n(1) assms(3)
      by (auto simp: int_fits_def bound_error_def lit_i64_def opt_test_def split: if_splits option.splits)
  qed
  with n(1) show ?thesis by blast
qed

lemma accepted_string_default:
  assumes "check_field_shape f p wants = []" "fd_default f = Some v" "fd_type f = FString"
  shows "\<exists>s. v = JsonLit (JString s) \<and> str_fits f s"
proof -
  note ok = check_field_shape_ok [OF assms(1)]
  have "\<exists>s. lit_str v = Some s \<and> str_fits f s"
  proof (cases "fd_values f")
    case None
    then have "literal_matches FString v" "bound_error f v = None"
      using ok assms by (auto simp: default_type_error_def split: if_splits option.splits)
    then show ?thesis using assms(3) None
      by (auto simp: literal_matches_def bound_error_def str_fits_def opt_test_def Let_def split: if_splits option.splits)
  next
    case (Some vs)
    then have "opt_test (\<lambda>s. s \<in> set vs) (lit_str v)"
      using ok assms by (auto simp: default_type_error_def split: if_splits option.splits)
    moreover have "fd_min_len f = None \<and> fd_max_len f = None"
      using ok assms(3) Some by (auto simp: length_shape_def Let_def split: if_splits)
    ultimately show ?thesis using Some by (auto simp: str_fits_def opt_test_def split: option.splits)
  qed
  then show ?thesis by (auto simp: lit_str_def split: literal.splits json.splits)
qed

lemma three_members: "3 \<le> card (set vs) \<Longrightarrow> \<exists>a b c. a \<in> set vs \<and> b \<in> set vs \<and> c \<in> set vs \<and> distinct [a, b, c]"
proof -
  assume "3 \<le> card (set vs)"
  then have "3 \<le> length (remdups vs)" by (simp add: length_remdups_card_conv)
  then obtain a b c r where "remdups vs = a # b # c # r" by (auto simp: numeral_3_eq_3 Suc_le_length_iff)
  then have "set (a # b # c # r) \<subseteq> set vs" "distinct (a # b # c # r)" by (metis set_remdups order_refl, metis distinct_remdups)
  then show ?thesis by (intro exI [of _ a] exI [of _ b] exI [of _ c]) auto
qed

text \<open>C37: A field without questions, its bounds being the 64-bit integers their type makes them, can be filled. An integer or a string field admits a value, and a string without a list of
  values one of at most 4096 characters, non-empty when it is required. One that is unique admits three different values,
  as the generated tests need, when it is an integer, a string without a list of values, or a string whose list has three:
  the rules do not ask for three, and accept a unique field with a list of one (\<open>unique_single_value_accepted\<close>), against the
  generator's comment. A default exists only with a database; that of a string field is one of the strings it admits, and
  that of an integer field a number, which the field admits when it is below \<open>2 ^ 63\<close>: the rules accept larger ones
  (\<open>default_beyond_i64_accepted\<close>), which the column does not hold.\<close>

theorem accepted_field_satisfiable:
  assumes "check_field_shape f p wants = []" "bounds_typed f"
  shows "(fd_type f = FInteger \<longrightarrow> (\<exists>n. int_fits f n) \<and>
            (fd_unique f \<longrightarrow> (\<exists>a b c. int_fits f a \<and> int_fits f b \<and> int_fits f c \<and> distinct [a, b, c]))) \<and>
    (fd_type f = FString \<longrightarrow> (\<exists>s. str_fits f s \<and> (fd_values f = None \<longrightarrow> char_count s \<le> 4096 \<and> (fd_required f \<longrightarrow> s \<noteq> []))) \<and>
            (fd_unique f \<and> (\<forall>vs. fd_values f = Some vs \<longrightarrow> 3 \<le> card (set vs)) \<longrightarrow> (\<exists>a b c. str_fits f a \<and> str_fits f b \<and> str_fits f c \<and> distinct [a, b, c]))) \<and>
    (\<forall>v. fd_default f = Some v \<longrightarrow> wants \<and>
       (fd_type f = FInteger \<longrightarrow> (\<exists>n. v = JsonLit (JNumber n) \<and> (n < 2 ^ 63 \<longrightarrow> int_fits f n) \<and> (2 ^ 63 \<le> n \<longrightarrow> \<not> is_i64 n))) \<and>
       (fd_type f = FString \<longrightarrow> (\<exists>s. v = JsonLit (JString s) \<and> str_fits f s)))"
proof (intro conjI impI allI)
  note ok = check_field_shape_ok [OF assms(1)]
  { assume ty: "fd_type f = FInteger"
    show "\<exists>n. int_fits f n" using range_shape_ok(1) ok ty assms(2) by blast
    assume "fd_unique f"
    then obtain n where "int_fits f n" "int_fits f (n + 1)" "int_fits f (n + 2)" using range_shape_ok(2) ok ty assms(2) by blast
    then show "\<exists>a b c. int_fits f a \<and> int_fits f b \<and> int_fits f c \<and> distinct [a, b, c]"
      by (intro exI [of _ n] exI [of _ "n + 1"] exI [of _ "n + 2"]) simp }
  { assume ty: "fd_type f = FString"
    have listed: "str_fits f s" if "fd_values f = Some vs" "s \<in> set vs" for vs s
      using ok ty that by (auto simp: str_fits_def length_shape_def Let_def split: if_splits)
    show "\<exists>s. str_fits f s \<and> (fd_values f = None \<longrightarrow> char_count s \<le> 4096 \<and> (fd_required f \<longrightarrow> s \<noteq> []))"
    proof (cases "fd_values f")
      case None
      then show ?thesis using length_shape_ok(1) ok ty by blast
    next
      case (Some vs)
      then have "vs \<noteq> []" using values_shape_ok ok by blast
      then show ?thesis using Some listed [OF Some] by (intro exI [of _ "hd vs"]) simp
    qed
    assume unique: "fd_unique f \<and> (\<forall>vs. fd_values f = Some vs \<longrightarrow> 3 \<le> card (set vs))"
    show "\<exists>a b c. str_fits f a \<and> str_fits f b \<and> str_fits f c \<and> distinct [a, b, c]"
    proof (cases "fd_values f")
      case None
      then show ?thesis using length_shape_ok(2) ok ty unique by blast
    next
      case (Some vs)
      then show ?thesis using three_members [of vs] unique listed [OF Some] by metis
    qed }
  fix v assume v: "fd_default f = Some v"
  then show "wants" using ok by (auto simp: default_type_error_def split: if_splits)
  show "\<exists>n. v = JsonLit (JNumber n) \<and> (n < 2 ^ 63 \<longrightarrow> int_fits f n) \<and> (2 ^ 63 \<le> n \<longrightarrow> \<not> is_i64 n)" if "fd_type f = FInteger"
    using accepted_integer_default [OF assms(1) v that] by (auto simp: is_i64_def)
  show "\<exists>s. v = JsonLit (JString s) \<and> str_fits f s" if "fd_type f = FString"
    using accepted_string_default [OF assms(1) v that] .
qed

theorem accepted_field_satisfiable_witness:
  "\<exists>a b c. int_fits ((demo_field ''seats'' FInteger)\<lparr>fd_unique := True, fd_min := Some 4, fd_max := Some 6\<rparr>) a \<and>
     int_fits ((demo_field ''seats'' FInteger)\<lparr>fd_unique := True, fd_min := Some 4, fd_max := Some 6\<rparr>) b \<and>
     int_fits ((demo_field ''seats'' FInteger)\<lparr>fd_unique := True, fd_min := Some 4, fd_max := Some 6\<rparr>) c \<and> distinct [a, b, c]"
proof -
  let ?f = "(demo_field ''seats'' FInteger)\<lparr>fd_unique := True, fd_min := Some 4, fd_max := Some 6\<rparr>"
  have "check_field_shape ?f ''/f'' True = []" by code_simp
  moreover have "bounds_typed ?f" by (simp add: bounds_typed_def is_i64_def demo_field_def)
  ultimately show ?thesis using accepted_field_satisfiable [of ?f "''/f''" True] by (simp add: demo_field_def)
qed

text \<open>A refusal of a range is right: the range is empty, or too narrow for three values.\<close>

lemma range_refusals_right:
  "(q, EmptyRange name mn mx) \<in> set (range_shape f p) \<Longrightarrow> \<not> int_fits f n"
  "(q, UniqueRange name mn mx k) \<in> set (range_shape f p) \<Longrightarrow> int_fits f a \<Longrightarrow> int_fits f b \<Longrightarrow> int_fits f c \<Longrightarrow> \<not> distinct [a, b, c]"
  by (auto simp: range_shape_def int_fits_def is_i64_def Let_def split: if_splits option.splits)

text \<open>What the rules let pass: a unique enumeration with a single value, and an integer default that no 64-bit signed column holds.\<close>

lemma unique_single_value_accepted:
  "check_field_shape ((demo_field ''kind'' FString)\<lparr>fd_unique := True, fd_values := Some [''only'']\<rparr>) ''/f'' True = []"
  by code_simp

lemma default_beyond_i64_accepted:
  "check_field_shape ((demo_field ''count'' FInteger)\<lparr>fd_default := Some (JsonLit (JNumber (2 ^ 63)))\<rparr>) ''/f'' True = []"
  "\<not> is_i64 (2 ^ 63)"
  by code_simp+

end
