(* ===== verification/JC_Questions.thy ===== *)
theory JC_Questions
  imports JC_Fields
begin

text \<open>
  The design validator, \<open>validate\<close> of \<open>jerrycan/src/platform/questions.rs\<close>: every rule as the list of its questions, in the
  order in which the source asks them. A document passes when the list is empty.

  The rules walk the tree of modules, a module before its subroutes, and point into it: \<open>walk_module\<close> and
  \<open>walk_modules\<close>.
\<close>

section \<open>Reasons\<close>

datatype top_reason =
    AppNotKebab str | ContractVersion | NoModules | BasePathStart str | BasePathSlashes str
  | NoOrigins | MixedOrigins | CredentialedAny | OriginShape str | ModuleTwice str

datatype module_reason =
    ModuleNotKebab str | MountStart str | MountSlashes str
  | EntityNotPascal str | EntityKeyword str | EntityPrelude str | TableNotSnake str | NoFields str | FieldNotSnake str | FieldKeyword str
  | NoEndpoints str | OperationNotSnake str | OperationTwice str str | PathStart str | TooManyParams str nat | UnbalancedBraces str
  | RouteTwice http_method str str | SuccessStatus nat | EntityNotInModule str str

datatype endpoint_reason =
    BodyBoth str | BodyNeither str | InlineNameless | InlineFieldTwice str str | InlineDefault str str | InlineWriteOnly str str
  | ErrorStatus nat | ErrorCode str | RoleNotMember str | RoleNotDeclared str bool | PublicAndAuth str | PublicAndRoles str
  | GuardedWithoutAuth str

datatype entity_reason =
    JsonField str | IdType str | FkFieldClash str str | UnknownTarget str
  | DualCreate str http_method str str str
  | UniqueTooFew str nat "str list" | UniqueUnknown str nat str | UniqueTwice str nat "str list"
  | ReserveTwice str nat "str list" | ReserveNoDb str str | ReserveNotInteger str str field_type | ReserveNullable str str str
  | ReserveId str | ReserveSelf str str | ReserveAgainstId str str | ReserveUnknown str str str | CapacityNotInteger str str str field_type
  | CapacityNullable str str str
  | AliasShape str str str | AliasIdentity str str str str | AliasTenant str str str str | AnchorAliased str str str str
  | FkTaken str str str bool | FkTwice str str str nat

datatype tenant_reason =
    TenantUnknown str | TenancyWithoutAuth | PublicTenantOwned | AnonymousTenant str http_method str str | AmbiguousPath str | MixedShape str
  | DecorativeParam str str str str | MemberSurface str str bool bool str str | TenantDetailParam str http_method str str str str
  | PublicReadNoAuth str | PublicReadNoFk str | PublicReadTenant str | UnguardedRead str str | OpenWrite str http_method str str

datatype extension_reason =
    JobsWithoutDb | JobNotSnake str | JobTwice str | QueueNotSnake str | ScheduleShape str
  | StorageVersion | StorageWithoutDb | StorageWithoutAuth | StoragePathStart str | StoragePathSlashes str
  | BucketNotKebab str | BucketKeyword str str | BucketTwice str | BucketMountTaken str str | OwnerUnknown str | OwnerAmbiguous str str
  | PrefixWithoutOwner str | OwnerWithoutPrefix str str | MaxSize str | MimePattern str | WriteRoleUnknown str str "str list"
  | WriteRolesUnscoped str

datatype stream_reason =
    RealtimeVersion | RealtimeWithoutDb | ChangesWithoutAuth | ChangesUnknown str | ChangesTransitive str
  | TopicNotSnake str str | TopicTwice str str | TopicWithoutTenancy str str | TopicWithoutAuth str str
  | LimitZero | WindowShape str | HeaderShape str

datatype reason =
    Top top_reason | Mod module_reason | Endp endpoint_reason | Ent entity_reason | Fld field_reason | Ten tenant_reason
  | Ext extension_reason | Strm stream_reason

type_synonym question = "str \<times> reason"

definition ask :: "bool \<Rightarrow> str \<Rightarrow> reason \<Rightarrow> question list" where
  "ask cond p r = (if cond then [(p, r)] else [])"

lemma ask_Nil [simp]: "ask cond p r = [] \<longleftrightarrow> \<not> cond" by (simp add: ask_def)

definition at :: "str \<Rightarrow> str \<Rightarrow> nat \<Rightarrow> str" where "at p key i = p @ ''/'' @ key @ ''/'' @ show_nat i"

definition each :: "(nat \<Rightarrow> 'a \<Rightarrow> question list) \<Rightarrow> 'a list \<Rightarrow> question list" where
  "each f xs = concat (map (\<lambda>(i, x). f i x) (enumerate 0 xs))"

lemma each_Nil_D: "each f xs = [] \<Longrightarrow> x \<in> set xs \<Longrightarrow> \<exists>i. f i x = []"
proof -
  assume none: "each f xs = []" and "x \<in> set xs"
  then obtain i where "i < length xs" "x = xs ! i" by (auto simp: in_set_conv_nth)
  then have "(i, x) \<in> set (enumerate 0 xs)" by (simp add: in_set_enumerate_eq)
  with none show ?thesis by (fastforce simp: each_def)
qed

fun walk_module :: "(str \<Rightarrow> module_design \<Rightarrow> question list) \<Rightarrow> str \<Rightarrow> module_design \<Rightarrow> question list"
  and walk_modules :: "(str \<Rightarrow> module_design \<Rightarrow> question list) \<Rightarrow> str \<Rightarrow> nat \<Rightarrow> module_design list \<Rightarrow> question list" where
  "walk_module f p (ModuleDesign n mo de es eps subs deps) =
     f p (ModuleDesign n mo de es eps subs deps) @ walk_modules f (p @ ''/subroutes/'') 0 subs"
| "walk_modules f p i [] = []"
| "walk_modules f p i (m # ms) = walk_module f (p @ show_nat i) m @ walk_modules f p (Suc i) ms"

definition walk_design :: "(str \<Rightarrow> module_design \<Rightarrow> question list) \<Rightarrow> design \<Rightarrow> question list" where
  "walk_design f d = walk_modules f ''/modules/'' 0 (ds_modules d)"

lemma walk_asks_all:
  "walk_module f p m = [] \<Longrightarrow> x \<in> set (module_tree m) \<Longrightarrow> \<exists>q. f q x = []"
  "walk_modules f p i ms = [] \<Longrightarrow> x \<in> set (concat (map module_tree ms)) \<Longrightarrow> \<exists>q. f q x = []"
  by (induction f p m and f p i ms rule: walk_module_walk_modules.induct) auto

lemma walk_design_all: "walk_design f d = [] \<Longrightarrow> m \<in> set (design_tree d) \<Longrightarrow> \<exists>p. f p m = []"
  unfolding walk_design_def design_tree_def by (rule walk_asks_all(2))

section \<open>The application\<close>

definition count_char :: "char \<Rightarrow> str \<Rightarrow> nat" where "count_char c s = length (filter (\<lambda>x. x = c) s)"

definition starts_with :: "str \<Rightarrow> str \<Rightarrow> bool" where "starts_with p s \<longleftrightarrow> take (length p) s = p"

definition slash_trouble :: "str \<Rightarrow> bool" where
  "slash_trouble s \<longleftrightarrow> contains_str ''//'' s \<or> length s > 1 \<and> ends_with ''/'' s"

definition origin_shape :: "str \<Rightarrow> bool" where
  "origin_shape org = ((starts_with ''http://'' org \<or> starts_with ''https://'' org) \<and> \<not> ends_with ''/'' org \<and> count_char CHR ''/'' org = 2)"

definition cors_questions :: "cors_design \<Rightarrow> question list" where
  "cors_questions c =
     (let any = list_ex (\<lambda>x. x = ''*'') (cd_origins c) in
      ask (cd_origins c = []) ''/cors/origins'' (Top NoOrigins) @
      ask (any \<and> length (cd_origins c) > 1) ''/cors/origins'' (Top MixedOrigins) @
      ask (any \<and> cd_allow_credentials c) ''/cors/allow_credentials'' (Top CredentialedAny) @
      each (\<lambda>i org. ask (org \<noteq> ''*'' \<and> \<not> origin_shape org) (at ''/cors'' ''origins'' i) (Top (OriginShape org))) (cd_origins c))"

definition app_questions :: "design \<Rightarrow> question list" where
  "app_questions d =
     ask (\<not> is_kebab (ds_name d)) ''/name'' (Top (AppNotKebab (ds_name d))) @
     ask (ds_contract_version d > 2) ''/contract_version'' (Top ContractVersion) @
     ask (ds_modules d = []) ''/modules'' (Top NoModules) @
     (case ds_base_path d of
        None \<Rightarrow> []
      | Some base \<Rightarrow>
          if base = [] \<or> base = ''/'' then []
          else ask (\<not> starts_with ''/'' base) ''/base_path'' (Top (BasePathStart base)) @
               ask (contains_str ''//'' base \<or> ends_with ''/'' base) ''/base_path'' (Top (BasePathSlashes base))) @
     (case ds_cors d of None \<Rightarrow> [] | Some c \<Rightarrow> cors_questions c)"

section \<open>Modules\<close>

definition RESERVED_PRELUDE_IDENTS :: "str list" where
  "RESERVED_PRELUDE_IDENTS =
     [''App'', ''Clock'', ''CorsConfig'', ''CorsOrigins'', ''Created'', ''Dep'', ''Error'', ''Extension'', ''Headers'', ''IntoResponse'',
      ''Json'', ''Middleware'', ''MiddlewareFuture'', ''Module'', ''Multipart'', ''Next'', ''NoContent'', ''Path'', ''Query'', ''RawBody'',
      ''Redirect'', ''RequestCtx'', ''Result'', ''StreamBody'', ''TestApp'', ''TestPart'', ''delete'', ''get'', ''main'', ''now_rfc3339'',
      ''patch'', ''post'', ''put'']"

definition field_name_questions :: "field \<Rightarrow> str \<Rightarrow> question list" where
  "field_name_questions f p =
     ask (\<not> is_snake (fd_name f)) (p @ ''/name'') (Mod (FieldNotSnake (fd_name f))) @
     ask (\<not> can_be_rust_ident (fd_name f)) (p @ ''/name'') (Mod (FieldKeyword (fd_name f)))"

definition entity_questions :: "str \<Rightarrow> nat \<Rightarrow> entity \<Rightarrow> question list" where
  "entity_questions ptr i e =
     (let p = at ptr ''entities'' i in
      ask (\<not> is_pascal (en_name e)) (p @ ''/name'') (Mod (EntityNotPascal (en_name e))) @
      ask (is_rust_keyword (en_name e)) (p @ ''/name'') (Mod (EntityKeyword (en_name e))) @
      ask (en_name e \<in> set RESERVED_PRELUDE_IDENTS) (p @ ''/name'') (Mod (EntityPrelude (en_name e))) @
      (case en_table e of None \<Rightarrow> [] | Some t \<Rightarrow> ask (\<not> is_snake t) (p @ ''/table'') (Mod (TableNotSnake t))) @
      ask (en_fields e = []) (p @ ''/fields'') (Mod (NoFields (en_name e))) @
      each (\<lambda>j f. field_name_questions f (at p ''fields'' j)) (en_fields e))"

fun inline_fields :: "str \<Rightarrow> str \<Rightarrow> bool \<Rightarrow> str set \<Rightarrow> nat \<Rightarrow> field list \<Rightarrow> question list" where
  "inline_fields eptr op wants seen j [] = []"
| "inline_fields eptr op wants seen j (f # fs) =
     (let p = at (eptr @ ''/request_body'') ''fields'' j in
      field_name_questions f p @
      ask (fd_name f \<in> seen) (p @ ''/name'') (Endp (InlineFieldTwice (fd_name f) (to_pascal op))) @
      map (\<lambda>(q, r). (q, Fld r)) (check_field_shape f p wants) @
      ask (fd_default f \<noteq> None) (p @ ''/default'') (Endp (InlineDefault (fd_name f) op)) @
      ask (field_is_write_only f) (p @ ''/write_only'') (Endp (InlineWriteOnly (fd_name f) op)) @
      inline_fields eptr op wants (insert (fd_name f) seen) (Suc j) fs)"

definition body_questions :: "design \<Rightarrow> module_design \<Rightarrow> str \<Rightarrow> api_endpoint \<Rightarrow> question list" where
  "body_questions d m eptr ep =
     (case ae_request_body ep of
        None \<Rightarrow> []
      | Some rb \<Rightarrow>
          (case rb_entity rb of
             Some ent \<Rightarrow>
               if rb_fields rb \<noteq> [] then [(eptr @ ''/request_body'', Endp (BodyBoth (ae_operation_id ep)))]
               else ask (\<not> declares_entity m ent) (eptr @ ''/request_body/entity'') (Mod (EntityNotInModule ent (md_name m)))
           | None \<Rightarrow>
               if rb_fields rb = [] then [(eptr @ ''/request_body'', Endp (BodyNeither (ae_operation_id ep)))]
               else ask (trim (ae_operation_id ep) = []) (eptr @ ''/request_body/fields'') (Endp InlineNameless) @
                    inline_fields eptr (ae_operation_id ep) (wants_db d) {} 0 (rb_fields rb)))"

definition error_code_shape :: "str \<Rightarrow> bool" where
  "error_code_shape c \<longleftrightarrow> length c = 6 \<and> starts_with ''JC'' c \<and> list_all (byte_in 48 57) (drop 2 c)"

definition error_questions :: "str \<Rightarrow> error_case list \<Rightarrow> question list" where
  "error_questions eptr errors =
     each (\<lambda>j ec. ask (ec_status ec < 400 \<or> 599 < ec_status ec) (at eptr ''errors'' j @ ''/status'') (Endp (ErrorStatus (ec_status ec))) @
                  (case ec_code ec of None \<Rightarrow> [] | Some c \<Rightarrow> ask (\<not> error_code_shape c) (at eptr ''errors'' j @ ''/code'') (Endp (ErrorCode c)))) errors"

definition member_roles_of :: "design \<Rightarrow> str list" where
  "member_roles_of d = (case ds_tenancy d of None \<Rightarrow> [] | Some t \<Rightarrow> te_member_roles t)"

definition declared_roles :: "design \<Rightarrow> str list" where
  "declared_roles d = (case ds_auth d of None \<Rightarrow> [] | Some a \<Rightarrow> au_roles a)"

definition membership_role_route :: "design \<Rightarrow> module_design \<Rightarrow> api_endpoint \<Rightarrow> bool" where
  "membership_role_route d m ep \<longleftrightarrow> (case endpoint_tenant_shape d m ep of PathScoped _ \<Rightarrow> True | MembershipSet \<Rightarrow> True | _ \<Rightarrow> False)"

definition role_questions :: "design \<Rightarrow> module_design \<Rightarrow> str \<Rightarrow> api_endpoint \<Rightarrow> question list" where
  "role_questions d m eptr ep =
     concat (map (\<lambda>role.
        if membership_role_route d m ep then ask (role \<notin> set (member_roles_of d)) (eptr @ ''/required_roles'') (Endp (RoleNotMember role))
        else ask (role \<notin> set (declared_roles d)) (eptr @ ''/required_roles'') (Endp (RoleNotDeclared role (ds_auth d \<noteq> None))))
       (ae_required_roles ep))"

definition endpoint_questions ::
    "design \<Rightarrow> module_design \<Rightarrow> str \<Rightarrow> str set \<Rightarrow> (http_method \<times> str) set \<Rightarrow> api_endpoint \<Rightarrow> question list" where
  "endpoint_questions d m eptr seen_ops seen_routes ep =
     ask (\<not> is_snake (ae_operation_id ep)) (eptr @ ''/operation_id'') (Mod (OperationNotSnake (ae_operation_id ep))) @
     ask (ae_operation_id ep \<in> seen_ops) (eptr @ ''/operation_id'') (Mod (OperationTwice (ae_operation_id ep) (md_name m))) @
     ask (\<not> starts_with ''/'' (ae_path ep)) (eptr @ ''/path'') (Mod (PathStart (ae_path ep))) @
     ask (count_char CHR ''{'' (ae_path ep) > 3) (eptr @ ''/path'') (Mod (TooManyParams (ae_path ep) (count_char CHR ''{'' (ae_path ep)))) @
     ask (count_char CHR ''{'' (ae_path ep) \<noteq> count_char CHR ''}'' (ae_path ep)) (eptr @ ''/path'') (Mod (UnbalancedBraces (ae_path ep))) @
     ask ((ae_method ep, ae_path ep) \<in> seen_routes) (eptr @ ''/path'') (Mod (RouteTwice (ae_method ep) (ae_path ep) (md_name m))) @
     ask (su_status (ae_success ep) < 200 \<or> 399 < su_status (ae_success ep)) (eptr @ ''/success/status'') (Mod (SuccessStatus (su_status (ae_success ep)))) @
     (case su_entity (ae_success ep) of None \<Rightarrow> []
      | Some ent \<Rightarrow> ask (\<not> declares_entity m ent) (eptr @ ''/success/entity'') (Mod (EntityNotInModule ent (md_name m)))) @
     body_questions d m eptr ep @
     error_questions eptr (ae_errors ep) @
     role_questions d m eptr ep @
     ask (ae_public ep \<and> ae_auth_required ep) eptr (Endp (PublicAndAuth (ae_operation_id ep))) @
     ask (ae_public ep \<and> ae_required_roles ep \<noteq> []) eptr (Endp (PublicAndRoles (ae_operation_id ep)))"

fun endpoint_scan ::
    "design \<Rightarrow> module_design \<Rightarrow> str \<Rightarrow> str set \<Rightarrow> (http_method \<times> str) set \<Rightarrow> nat \<Rightarrow> api_endpoint list \<Rightarrow> question list" where
  "endpoint_scan d m ptr seen_ops seen_routes i [] = []"
| "endpoint_scan d m ptr seen_ops seen_routes i (ep # eps) =
     endpoint_questions d m (at ptr ''endpoints'' i) seen_ops seen_routes ep @
     endpoint_scan d m ptr (insert (ae_operation_id ep) seen_ops) (insert (ae_method ep, ae_path ep) seen_routes) (Suc i) eps"

definition module_questions :: "design \<Rightarrow> str \<Rightarrow> module_design \<Rightarrow> question list" where
  "module_questions d ptr m =
     ask (\<not> is_kebab (md_name m)) (ptr @ ''/name'') (Mod (ModuleNotKebab (md_name m))) @
     (case md_mount m of
        None \<Rightarrow> []
      | Some mount \<Rightarrow> ask (\<not> starts_with ''/'' mount) (ptr @ ''/mount'') (Mod (MountStart mount)) @
                      ask (slash_trouble mount) (ptr @ ''/mount'') (Mod (MountSlashes mount))) @
     each (entity_questions ptr) (md_entities m) @
     ask (md_endpoints m = []) (ptr @ ''/endpoints'') (Mod (NoEndpoints (md_name m))) @
     endpoint_scan d m ptr {} {} 0 (md_endpoints m)"

definition validate_module :: "design \<Rightarrow> str \<Rightarrow> module_design \<Rightarrow> question list" where
  "validate_module d ptr m = walk_module (module_questions d) ptr m"

fun top_modules :: "design \<Rightarrow> str set \<Rightarrow> nat \<Rightarrow> module_design list \<Rightarrow> question list" where
  "top_modules d seen i [] = []"
| "top_modules d seen i (m # ms) =
     ask (md_name m \<in> seen) (''/modules/'' @ show_nat i @ ''/name'') (Top (ModuleTwice (md_name m))) @
     validate_module d (''/modules/'' @ show_nat i) m @
     top_modules d (insert (md_name m) seen) (Suc i) ms"

end
