(* ===== verification/JC_Validator.thy ===== *)
theory JC_Validator
  imports JC_Questions
begin

text \<open>
  The rules of the validator that read the whole design, and \<open>validate\<close> itself
  (\<open>jerrycan/src/platform/questions.rs\<close>); then what a design without questions has.
\<close>

definition active_auth :: "design \<Rightarrow> bool" where
  "active_auth d \<longleftrightarrow> (case ds_auth d of Some a \<Rightarrow> au_model a \<noteq> ModelNone | None \<Rightarrow> False)"

section \<open>Guards, columns, references\<close>

definition guard_questions :: "str \<Rightarrow> module_design \<Rightarrow> question list" where
  "guard_questions ptr m =
     each (\<lambda>i ep. ask (is_guarded ep) (at ptr ''endpoints'' i) (Endp (GuardedWithoutAuth (ae_operation_id ep)))) (md_endpoints m)"

definition field_position :: "('a \<Rightarrow> bool) \<Rightarrow> 'a list \<Rightarrow> nat option" where
  "field_position P xs = (if list_ex P xs then Some (length (takeWhile (\<lambda>x. \<not> P x) xs)) else None)"

definition db_field_questions :: "bool \<Rightarrow> str \<Rightarrow> module_design \<Rightarrow> question list" where
  "db_field_questions json_ok ptr m =
     each (\<lambda>i e.
       each (\<lambda>j f.
         if \<not> json_ok \<and> fd_type f = FJson then [(at (at ptr ''entities'' i) ''fields'' j @ ''/type'', Ent (JsonField (fd_name f)))]
         else ask (fd_name f = ''id'' \<and> fd_type f \<notin> {FInteger, FString, FUuid}) (at (at ptr ''entities'' i) ''fields'' j @ ''/type'')
                (Ent (IdType (en_name e)))) (en_fields e) @
       concat (map (\<lambda>b.
         (case field_position (\<lambda>f. fd_name f = belongs_fk b) (en_fields e) of
            None \<Rightarrow> []
          | Some j \<Rightarrow> [(at (at ptr ''entities'' i) ''fields'' j, Ent (FkFieldClash (belongs_fk b) (bt_entity b)))])) (en_belongs_to e)))
     (md_entities m)"

definition relation_questions :: "design \<Rightarrow> str \<Rightarrow> module_design \<Rightarrow> question list" where
  "relation_questions d ptr m =
     each (\<lambda>i e.
       each (\<lambda>k b. ask (bt_entity b \<notin> set (design_names d)) (at (at ptr ''entities'' i) ''belongs_to'' k) (Ent (UnknownTarget (bt_entity b))))
         (en_belongs_to e) @
       each (\<lambda>j f. map (\<lambda>(q, r). (q, Fld r)) (check_field_shape f (at (at ptr ''entities'' i) ''fields'' j) (wants_db d))) (en_fields e))
     (md_entities m)"

definition dual_create_question :: "design \<Rightarrow> str \<Rightarrow> str \<Rightarrow> api_endpoint \<Rightarrow> question list" where
  "dual_create_question d base p ep =
     (case body_entity ep of
        None \<Rightarrow> []
      | Some entity \<Rightarrow>
          if ae_method ep \<notin> {M_POST, M_PUT, M_PATCH} then []
          else (case List.find (\<lambda>col. \<not> contains_str (braced col) (base @ ae_path ep)) (entity_path_fk_columns d entity) of
                  None \<Rightarrow> []
                | Some col \<Rightarrow> [(p, Ent (DualCreate (ae_operation_id ep) (ae_method ep) (ae_path ep) entity col))]))"

fun dual_module :: "design \<Rightarrow> str \<Rightarrow> str \<Rightarrow> module_design \<Rightarrow> question list"
  and dual_modules :: "design \<Rightarrow> str \<Rightarrow> nat \<Rightarrow> str \<Rightarrow> module_design list \<Rightarrow> question list" where
  "dual_module d ptr prefix (ModuleDesign n mo de es eps subs deps) =
     (let base = prefix @ trimmed_mount (ModuleDesign n mo de es eps subs deps) in
      each (\<lambda>i ep. dual_create_question d base (at ptr ''endpoints'' i) ep) eps @ dual_modules d (ptr @ ''/subroutes/'') 0 base subs)"
| "dual_modules d ptr i prefix [] = []"
| "dual_modules d ptr i prefix (m # ms) = dual_module d (ptr @ show_nat i) prefix m @ dual_modules d ptr (Suc i) prefix ms"

section \<open>Tenancy\<close>

definition public_tenant_questions :: "design \<Rightarrow> str \<Rightarrow> module_design \<Rightarrow> question list" where
  "public_tenant_questions d ptr m =
     each (\<lambda>i ep. ask (ae_public ep \<and> opt_test (\<lambda>name. tenant_path_of d name \<noteq> None) (validator_repo_entity m ep))
       (at ptr ''endpoints'' i) (Ten PublicTenantOwned)) (md_endpoints m)"

definition anonymous_tenant_questions :: "design \<Rightarrow> str \<Rightarrow> str \<Rightarrow> module_design \<Rightarrow> question list" where
  "anonymous_tenant_questions d tenant ptr m =
     each (\<lambda>i ep.
       (case endpoint_repo_entity_strict m ep of
          None \<Rightarrow> []
        | Some entity \<Rightarrow>
            ask ((entity = tenant \<or> tenant_path_of d entity \<noteq> None) \<and> \<not> ae_public ep \<and> \<not> is_guarded ep \<and> \<not> declares_signature_auth ep)
              (at ptr ''endpoints'' i) (Ten (AnonymousTenant (ae_operation_id ep) (ae_method ep) (ae_path ep) entity)))) (md_endpoints m)"

definition ambiguous_questions :: "design \<Rightarrow> str \<Rightarrow> module_design \<Rightarrow> question list" where
  "ambiguous_questions d ptr m =
     each (\<lambda>i e. ask (2 \<le> tenant_path_branch_count d (en_name e)) (at ptr ''entities'' i) (Ten (AmbiguousPath (en_name e)))) (md_entities m)"

definition mixed_questions :: "design \<Rightarrow> str \<Rightarrow> module_design \<Rightarrow> question list" where
  "mixed_questions d ptr m =
     each (\<lambda>i e. if tenant_path_of d (en_name e) = None then []
                 else ask (fst (entity_tenant_shapes d e) \<and> snd (entity_tenant_shapes d e)) (at ptr ''entities'' i) (Ten (MixedShape (en_name e))))
       (md_entities m)"

lemma split_once_shorter: "split_once c s = Some (a, b) \<Longrightarrow> length b < length s"
  by (induction s arbitrary: a b) (auto split: if_splits)

function mount_params :: "str \<Rightarrow> str list" where
  "mount_params s =
     (case split_once CHR ''{'' s of
        None \<Rightarrow> []
      | Some (before, rest) \<Rightarrow> (case split_once CHR ''}'' rest of None \<Rightarrow> [] | Some (p, rest') \<Rightarrow> p # mount_params rest'))"
  by pat_completeness auto
termination
  by (relation "measure length") (auto dest!: split_once_shorter)

declare mount_params.simps [simp del]

definition recognized_params :: "design \<Rightarrow> str \<Rightarrow> entity list \<Rightarrow> str list" where
  "recognized_params d canonical owned =
     canonical # concat (map (\<lambda>e.
       (case tenant_path_of d (en_name e) of None \<Rightarrow> [] | Some p \<Rightarrow> map jl_child_fk (tp_joins p)) @ map belongs_fk (en_belongs_to e)) owned)"

definition mount_param_questions :: "design \<Rightarrow> str \<Rightarrow> str \<Rightarrow> module_design \<Rightarrow> question list" where
  "mount_param_questions d canonical ptr m =
     (let owned = filter (\<lambda>e. tenant_path_of d (en_name e) \<noteq> None) (md_entities m); mount = effective_mount m in
      if owned = [] then []
      else concat (map (\<lambda>p. ask (p \<notin> set (recognized_params d canonical owned)) (ptr @ ''/mount'')
             (Ten (DecorativeParam (md_name m) mount p canonical))) (mount_params mount)))"

definition member_surface_questions :: "design \<Rightarrow> str \<Rightarrow> str \<Rightarrow> module_design \<Rightarrow> question list" where
  "member_surface_questions d tenant ptr m =
     (let reserved_table = to_snake tenant @ ''_members''; reserved_struct = tenant @ ''Member'' in
      each (\<lambda>i e.
        if en_name e = tenant then []
        else (let name_collides = (en_name e = reserved_struct); table_collides = (table_name d (en_name e) = reserved_table) in
              ask (name_collides \<or> table_collides) (at ptr ''entities'' i @ (if name_collides then ''/name'' else []))
                (Ten (MemberSurface (en_name e) tenant name_collides table_collides reserved_struct reserved_table)))) (md_entities m))"

definition tenancy_questions :: "design \<Rightarrow> tenancy \<Rightarrow> question list" where
  "tenancy_questions d t =
     ask (te_entity t \<notin> set (design_names d)) ''/tenancy/entity'' (Ten (TenantUnknown (te_entity t))) @
     ask (\<not> active_auth d) ''/tenancy'' (Ten TenancyWithoutAuth) @
     walk_design (public_tenant_questions d) d @
     (if active_auth d then walk_design (anonymous_tenant_questions d (te_entity t)) d else []) @
     walk_design (ambiguous_questions d) d @
     walk_design (mixed_questions d) d @
     walk_design (mount_param_questions d (fk_of (te_entity t))) d @
     walk_design (member_surface_questions d (te_entity t)) d"

definition trailing_path_param :: "str \<Rightarrow> str option" where
  "trailing_path_param path =
     (case rfind CHR ''{'' path of
        None \<Rightarrow> None
      | Some i \<Rightarrow> map_option fst (split_once CHR ''}'' (drop (i + 1) path)))"

definition tenant_detail_questions :: "str \<Rightarrow> str \<Rightarrow> str \<Rightarrow> module_design \<Rightarrow> question list" where
  "tenant_detail_questions tenant fk ptr m =
     each (\<lambda>i ep.
       if endpoint_repo_entity_strict m ep \<noteq> Some tenant then []
       else (case trailing_path_param (ae_path ep) of
               None \<Rightarrow> []
             | Some p \<Rightarrow> ask (\<not> contains_str (braced fk) (trimmed_mount m @ ae_path ep)) (at ptr ''endpoints'' i)
                          (Ten (TenantDetailParam (ae_operation_id ep) (ae_method ep) (ae_path ep) tenant p fk)))) (md_endpoints m)"

definition detail_rule :: "design \<Rightarrow> question list" where
  "detail_rule d =
     (case ds_tenancy d of
        None \<Rightarrow> []
      | Some t \<Rightarrow> walk_design (tenant_detail_questions (te_entity t) (fk_of (te_entity t))) (normalize_tenant_detail_routes d))"

section \<open>Public reads\<close>

definition public_read_entity :: "design \<Rightarrow> str \<Rightarrow> nat \<Rightarrow> entity \<Rightarrow> question list" where
  "public_read_entity d ptr i e =
     (if \<not> en_public_read e then []
      else ask (\<not> wants_auth d) (at ptr ''entities'' i) (Ten (PublicReadNoAuth (en_name e))) @
           ask (\<not> has_identity_fk d e) (at ptr ''entities'' i) (Ten (PublicReadNoFk (en_name e))) @
           ask (tenant_path_of d (en_name e) \<noteq> None) (at ptr ''entities'' i) (Ten (PublicReadTenant (en_name e))))"

definition named_entity :: "module_design \<Rightarrow> str \<Rightarrow> entity option" where
  "named_entity m name = List.find (\<lambda>e. en_name e = name) (md_entities m)"

definition public_read_endpoint :: "design \<Rightarrow> module_design \<Rightarrow> str \<Rightarrow> nat \<Rightarrow> api_endpoint \<Rightarrow> question list" where
  "public_read_endpoint d m ptr i ep =
     (if ae_method ep = M_GET
      then (case Option.bind (endpoint_repo_entity_strict m ep) (named_entity m) of
              None \<Rightarrow> []
            | Some e \<Rightarrow> ask (\<not> is_guarded ep \<and> wants_db d \<and> entity_is_per_user_owned d e \<and> \<not> entity_is_public_read d (en_name e))
                         (at ptr ''endpoints'' i) (Ten (UnguardedRead (ae_operation_id ep) (en_name e))))
      else if ae_public ep \<or> \<not> is_guarded ep
      then (case find_map (\<lambda>name. List.find (\<lambda>e. en_name e = name \<and> en_public_read e) (md_entities m))
                   (List.map_filter (\<lambda>x. x) [validator_repo_entity m ep, endpoint_repo_entity_strict m ep]) of
              None \<Rightarrow> []
            | Some e \<Rightarrow> [(at ptr ''endpoints'' i, Ten (OpenWrite (ae_operation_id ep) (ae_method ep) (ae_path ep) (en_name e)))])
      else [])"

definition public_read_questions :: "design \<Rightarrow> str \<Rightarrow> module_design \<Rightarrow> question list" where
  "public_read_questions d ptr m = each (public_read_entity d ptr) (md_entities m) @ each (public_read_endpoint d m ptr) (md_endpoints m)"

section \<open>Unique groups, counters, references with aliases\<close>

definition entity_columns :: "entity \<Rightarrow> str list" where
  "entity_columns e = map fd_name (en_fields e) @ map belongs_fk (en_belongs_to e)"

fun unique_groups :: "entity \<Rightarrow> str \<Rightarrow> str list list \<Rightarrow> nat \<Rightarrow> str list list \<Rightarrow> question list" where
  "unique_groups e p seen g [] = []"
| "unique_groups e p seen g (grp # gs) =
     ask (length (remdups grp) < 2) (at p ''unique'' g) (Ent (UniqueTooFew (en_name e) g grp)) @
     concat (map (\<lambda>col. ask (col \<notin> set (entity_columns e)) (at p ''unique'' g) (Ent (UniqueUnknown (en_name e) g col))) grp) @
     (if list_ex (\<lambda>s. set s = set grp) seen
      then (at p ''unique'' g, Ent (UniqueTwice (en_name e) g grp)) # unique_groups e p seen (Suc g) gs
      else unique_groups e p (seen @ [grp]) (Suc g) gs)"

definition unique_questions :: "str \<Rightarrow> module_design \<Rightarrow> question list" where
  "unique_questions ptr m = each (\<lambda>i e. unique_groups e (at ptr ''entities'' i) [] 0 (en_unique e)) (md_entities m)"

definition capacity_questions :: "entity \<Rightarrow> field \<Rightarrow> str \<Rightarrow> str \<Rightarrow> question list" where
  "capacity_questions e f cap p =
     (if cap = fd_name f then [(p, Ent (ReserveSelf (en_name e) cap))]
      else if cap = ''id'' then [(p, Ent (ReserveAgainstId (en_name e) (fd_name f)))]
      else (case List.find (\<lambda>g. fd_name g = cap) (en_fields e) of
              None \<Rightarrow> [(p, Ent (ReserveUnknown (en_name e) (fd_name f) cap))]
            | Some capf \<Rightarrow>
                ask (fd_type capf \<noteq> FInteger) p (Ent (CapacityNotInteger (en_name e) (fd_name f) cap (fd_type capf))) @
                ask (\<not> fd_required capf) p (Ent (CapacityNullable (en_name e) (fd_name f) cap))))"

definition reserve_field_questions :: "design \<Rightarrow> entity \<Rightarrow> str \<Rightarrow> nat \<times> field \<Rightarrow> question list" where
  "reserve_field_questions d e ep fi =
     (case fi of (i, f) \<Rightarrow>
        (case fd_reserve_against f of
           None \<Rightarrow> []
         | Some cap \<Rightarrow>
             (let p = at ep ''fields'' i in
              ask (\<not> wants_db d) p (Ent (ReserveNoDb (en_name e) (fd_name f))) @
              ask (fd_type f \<noteq> FInteger) p (Ent (ReserveNotInteger (en_name e) (fd_name f) (fd_type f))) @
              ask (\<not> fd_required f) p (Ent (ReserveNullable (en_name e) (fd_name f) cap)) @
              ask (fd_name f = ''id'') p (Ent (ReserveId (en_name e))) @
              capacity_questions e f cap p)))"

definition reserve_questions :: "design \<Rightarrow> str \<Rightarrow> module_design \<Rightarrow> question list" where
  "reserve_questions d ptr m =
     each (\<lambda>i e.
       (let reservers = filter (\<lambda>(j, f). fd_reserve_against f \<noteq> None) (enumerate 0 (en_fields e)) in
        ask (1 < length reservers) (at ptr ''entities'' i) (Ent (ReserveTwice (en_name e) (length reservers) (map (fd_name \<circ> snd) reservers))) @
        concat (map (reserve_field_questions d e (at ptr ''entities'' i)) reservers))) (md_entities m)"

definition alias_clash_questions :: "design \<Rightarrow> entity \<Rightarrow> str \<Rightarrow> belongs_to \<Rightarrow> question list" where
  "alias_clash_questions d e p b =
     (let col = belongs_fk b; identity_fk = identity_fk_column d in
      ask (active_auth d \<and> col = identity_fk \<and> fk_of (bt_entity b) \<noteq> identity_fk) p (Ent (AliasIdentity (en_name e) (bt_entity b) col identity_fk)) @
      (case ds_tenancy d of
         None \<Rightarrow> []
       | Some t \<Rightarrow>
           ask (col = fk_of (te_entity t) \<and> bt_entity b \<noteq> te_entity t) p (Ent (AliasTenant (en_name e) (bt_entity b) col (te_entity t))) @
           ask (bt_entity b = te_entity t \<and> en_name e \<noteq> te_entity t \<and> col \<noteq> fk_of (te_entity t)) p
             (Ent (AnchorAliased (en_name e) (te_entity t) col (fk_of (te_entity t))))) @
      ask (col = ''id'' \<or> col \<in> set (map fd_name (en_fields e))) p (Ent (FkTaken (en_name e) (bt_entity b) col (col = ''id''))))"

fun alias_scan :: "design \<Rightarrow> entity \<Rightarrow> str \<Rightarrow> (str \<times> nat) list \<Rightarrow> nat \<Rightarrow> belongs_to list \<Rightarrow> question list" where
  "alias_scan d e ep seen i [] = []"
| "alias_scan d e ep seen i (b # bs) =
     (let p = at ep ''belongs_to'' i; col = belongs_fk b in
      if (case bt_as b of Some a \<Rightarrow> \<not> is_snake a | None \<Rightarrow> False)
      then (p, Ent (AliasShape (en_name e) (bt_entity b) (the (bt_as b)))) # alias_scan d e ep seen (Suc i) bs
      else alias_clash_questions d e p b @
           (case map_of seen col of
              Some first \<Rightarrow> (p, Ent (FkTwice (en_name e) (bt_entity b) col first)) # alias_scan d e ep seen (Suc i) bs
            | None \<Rightarrow> alias_scan d e ep ((col, i) # seen) (Suc i) bs))"

definition alias_questions :: "design \<Rightarrow> str \<Rightarrow> module_design \<Rightarrow> question list" where
  "alias_questions d ptr m = each (\<lambda>i e. alias_scan d e (at ptr ''entities'' i) [] 0 (en_belongs_to e)) (md_entities m)"

section \<open>Jobs, storage, realtime, rate limits\<close>

definition cron_shaped :: "str \<Rightarrow> bool" where
  "cron_shaped schedule \<longleftrightarrow>
     (let fields = split_whitespace schedule in
      length fields = 5 \<and>
      list_all (\<lambda>f. f \<noteq> [] \<and> list_all (\<lambda>c. byte_in 48 57 c \<or> c = CHR ''*'' \<or> c = CHR '','' \<or> c = CHR ''/'' \<or> c = CHR ''-'') f) fields)"

fun job_scan :: "str set \<Rightarrow> nat \<Rightarrow> job_design list \<Rightarrow> question list" where
  "job_scan seen i [] = []"
| "job_scan seen i (j # js) =
     (let p = ''/jobs/'' @ show_nat i in
      ask (\<not> is_snake (jd_name j)) (p @ ''/name'') (Ext (JobNotSnake (jd_name j))) @
      ask (jd_name j \<in> seen) (p @ ''/name'') (Ext (JobTwice (jd_name j))) @
      (case jd_queue j of None \<Rightarrow> [] | Some queue \<Rightarrow> ask (\<not> is_snake queue) (p @ ''/queue'') (Ext (QueueNotSnake queue))) @
      (case jd_schedule j of None \<Rightarrow> [] | Some s \<Rightarrow> ask (\<not> cron_shaped s) (p @ ''/schedule'') (Ext (ScheduleShape s))) @
      job_scan (insert (jd_name j) seen) (Suc i) js)"

definition job_questions :: "design \<Rightarrow> question list" where
  "job_questions d = ask (wants_jobs d \<and> \<not> wants_db d) ''/jobs'' (Ext JobsWithoutDb) @ job_scan {} 0 (ds_jobs d)"

definition mime_segment :: "str \<Rightarrow> bool" where
  "mime_segment s \<longleftrightarrow> s \<noteq> [] \<and> list_all (\<lambda>c. byte_in 97 122 c \<or> byte_in 48 57 c \<or> c = CHR ''.'' \<or> c = CHR ''+'' \<or> c = CHR ''-'') s"

definition mime_pattern :: "str \<Rightarrow> bool" where
  "mime_pattern m =
     (case split_once CHR ''/'' m of
        None \<Rightarrow> False
      | Some (t, sub) \<Rightarrow> mime_segment t \<and> (mime_segment sub \<or> sub = ''*'') \<or> t = ''*'' \<and> sub = ''*'')"

definition bucket_owner_questions :: "design \<Rightarrow> str \<Rightarrow> bucket_design \<Rightarrow> question list" where
  "bucket_owner_questions d p b =
     (case bd_owner b of
        None \<Rightarrow> ask (bd_owner_prefix b) (p @ ''/owner_prefix'') (Ext (PrefixWithoutOwner (bd_name b)))
      | Some owner \<Rightarrow>
          ask (owner \<notin> set (design_names d)) (p @ ''/owner'') (Ext (OwnerUnknown owner)) @
          ask (2 \<le> tenant_path_branch_count d owner) (p @ ''/owner'') (Ext (OwnerAmbiguous (bd_name b) owner)) @
          ask (\<not> bd_owner_prefix b) (p @ ''/owner_prefix'') (Ext (OwnerWithoutPrefix (bd_name b) owner)))"

definition write_role_questions :: "design \<Rightarrow> str \<Rightarrow> bucket_design \<Rightarrow> question list" where
  "write_role_questions d p b =
     (if bd_write_roles b = [] then []
      else (case ds_tenancy d of
              Some t \<Rightarrow>
                if bd_owner b = Some (te_entity t)
                then each (\<lambda>k wr. ask (wr \<notin> set (te_member_roles t)) (at p ''write_roles'' k)
                       (Ext (WriteRoleUnknown (bd_name b) wr (te_member_roles t)))) (bd_write_roles b)
                else [(p @ ''/write_roles'', Ext (WriteRolesUnscoped (bd_name b)))]
            | None \<Rightarrow> [(p @ ''/write_roles'', Ext (WriteRolesUnscoped (bd_name b)))]))"

definition bucket_questions :: "design \<Rightarrow> str \<Rightarrow> str set \<Rightarrow> str \<Rightarrow> bucket_design \<Rightarrow> question list" where
  "bucket_questions d base seen p b =
     (let ident = map (\<lambda>c. if c = CHR ''-'' then CHR ''_'' else c) (bd_name b); mount = base @ ''/'' @ bd_name b in
      ask (\<not> is_kebab (bd_name b)) (p @ ''/name'') (Ext (BucketNotKebab (bd_name b))) @
      ask (is_rust_keyword ident) (p @ ''/name'') (Ext (BucketKeyword (bd_name b) ident)) @
      ask (bd_name b \<in> seen) (p @ ''/name'') (Ext (BucketTwice (bd_name b))) @
      ask (mount \<in> set (map effective_mount (ds_modules d))) (p @ ''/name'') (Ext (BucketMountTaken (bd_name b) mount)) @
      bucket_owner_questions d p b @
      (case bd_max_size b of None \<Rightarrow> [] | Some mx \<Rightarrow> ask (parse_size mx = None) (p @ ''/max_size'') (Ext (MaxSize mx))) @
      each (\<lambda>j m. ask (\<not> mime_pattern m) (at p ''allowed_mime'' j) (Ext (MimePattern m))) (bd_allowed_mime b) @
      write_role_questions d p b)"

fun bucket_scan :: "design \<Rightarrow> str \<Rightarrow> str set \<Rightarrow> nat \<Rightarrow> bucket_design list \<Rightarrow> question list" where
  "bucket_scan d base seen i [] = []"
| "bucket_scan d base seen i (b # bs) =
     bucket_questions d base seen (''/storage/buckets/'' @ show_nat i) b @ bucket_scan d base (insert (bd_name b) seen) (Suc i) bs"

definition storage_questions :: "design \<Rightarrow> storage_design \<Rightarrow> question list" where
  "storage_questions d s =
     ask (ds_contract_version d < 2) ''/storage'' (Ext StorageVersion) @
     ask (\<not> wants_db d) ''/storage'' (Ext StorageWithoutDb) @
     ask (\<not> active_auth d) ''/storage'' (Ext StorageWithoutAuth) @
     (case sd_base_path s of
        None \<Rightarrow> []
      | Some base \<Rightarrow> ask (\<not> starts_with ''/'' base) ''/storage/base_path'' (Ext (StoragePathStart base)) @
                     ask (slash_trouble base) ''/storage/base_path'' (Ext (StoragePathSlashes base))) @
     bucket_scan d (effective_base_path s) {} 0 (sd_buckets s)"

fun topic_scan :: "design \<Rightarrow> str \<Rightarrow> str set \<Rightarrow> nat \<Rightarrow> realtime_topic list \<Rightarrow> question list" where
  "topic_scan d kind seen i [] = []"
| "topic_scan d kind seen i (t # ts) =
     (let p = at ''/realtime'' kind i in
      ask (\<not> is_snake (rt_name t)) (p @ ''/name'') (Strm (TopicNotSnake kind (rt_name t))) @
      ask (rt_name t \<in> seen) (p @ ''/name'') (Strm (TopicTwice kind (rt_name t))) @
      ask (rt_scope t = ScopeTenant \<and> ds_tenancy d = None) p (Strm (TopicWithoutTenancy kind (rt_name t))) @
      ask (rt_scope t \<noteq> ScopeNone \<and> \<not> active_auth d) p (Strm (TopicWithoutAuth kind (rt_name t))) @
      topic_scan d kind (insert (rt_name t) seen) (Suc i) ts)"

definition realtime_questions :: "design \<Rightarrow> realtime_design \<Rightarrow> question list" where
  "realtime_questions d rt =
     ask (ds_contract_version d < 2) ''/realtime'' (Strm RealtimeVersion) @
     ask (\<not> wants_db d) ''/realtime'' (Strm RealtimeWithoutDb) @
     ask (rd_changes rt \<noteq> [] \<and> \<not> active_auth d) ''/realtime/changes'' (Strm ChangesWithoutAuth) @
     each (\<lambda>i entity. ask (entity \<notin> set (design_names d)) (at ''/realtime'' ''changes'' i) (Strm (ChangesUnknown entity))) (rd_changes rt) @
     (if ds_tenancy d = None then []
      else each (\<lambda>i entity. ask (opt_test (\<lambda>p. tp_joins p \<noteq> []) (tenant_path_of d entity)) (at ''/realtime'' ''changes'' i)
             (Strm (ChangesTransitive entity))) (rd_changes rt)) @
     topic_scan d ''broadcast'' {} 0 (rd_broadcast rt) @
     topic_scan d ''presence'' {} 0 (rd_presence rt)"

definition rate_limit_questions :: "rate_limit_design \<Rightarrow> question list" where
  "rate_limit_questions rl =
     ask (rl_limit rl = 0) ''/rate_limit/limit'' (Strm LimitZero) @
     ask (\<not> opt_test (\<lambda>secs. 0 < secs) (parse_duration (rl_window rl))) ''/rate_limit/window'' (Strm (WindowShape (rl_window rl))) @
     (case rl_api_key_header rl of
        None \<Rightarrow> []
      | Some header \<Rightarrow> ask (\<not> (header \<noteq> [] \<and> list_all (\<lambda>c. ascii_alnum c \<or> c = CHR ''-'') header)) ''/rate_limit/api_key_header''
                        (Strm (HeaderShape header)))"

section \<open>The validator\<close>

definition validate_design :: "design \<Rightarrow> question list" where
  "validate_design d =
     app_questions d @
     top_modules d {} 0 (ds_modules d) @
     (if wants_auth d then [] else walk_design guard_questions d) @
     (if wants_db d then walk_design (db_field_questions (1 \<le> ds_contract_version d)) d else []) @
     walk_design (relation_questions d) d @
     dual_modules d ''/modules/'' 0 [] (ds_modules d) @
     (case ds_tenancy d of None \<Rightarrow> [] | Some t \<Rightarrow> tenancy_questions d t) @
     detail_rule d @
     walk_design (public_read_questions d) d @
     walk_design unique_questions d @
     walk_design (reserve_questions d) d @
     walk_design (alias_questions d) d @
     job_questions d @
     (case ds_storage d of None \<Rightarrow> [] | Some s \<Rightarrow> storage_questions d s) @
     (case ds_realtime d of None \<Rightarrow> [] | Some rt \<Rightarrow> realtime_questions d rt) @
     (case ds_rate_limit d of None \<Rightarrow> [] | Some rl \<Rightarrow> rate_limit_questions rl)"


section \<open>What an accepted design has\<close>

lemma validate_design_ok:
  assumes "validate_design d = []"
  shows "top_modules d {} 0 (ds_modules d) = []" "walk_design (relation_questions d) d = []"
    "ds_tenancy d = Some t \<Longrightarrow> tenancy_questions d t = []" "walk_design unique_questions d = []"
    "walk_design (reserve_questions d) d = []" "walk_design (alias_questions d) d = []"
  using assms by (simp_all add: validate_design_def)

lemma top_modules_ok:
  "top_modules d seen i ms = [] \<Longrightarrow> m \<in> set (concat (map module_tree ms)) \<Longrightarrow> \<exists>p. module_questions d p m = []"
proof (induction d seen i ms rule: top_modules.induct)
  case (2 d seen i m' ms)
  then show ?case using walk_asks_all(1) [of "module_questions d" "''/modules/'' @ show_nat i" m' m] by (auto simp: validate_module_def)
qed simp

lemma endpoint_scan_ok:
  "endpoint_scan d m ptr so sr i eps = [] \<Longrightarrow> ep \<in> set eps \<Longrightarrow> \<exists>p so sr. endpoint_questions d m p so sr ep = []"
  by (induction d m ptr so sr i eps rule: endpoint_scan.induct) auto

lemma accepted_endpoint:
  assumes "validate_design d = []" "m \<in> set (design_tree d)" "ep \<in> set (md_endpoints m)"
  shows "\<exists>p so sr. endpoint_questions d m p so sr ep = []"
proof -
  obtain p where "module_questions d p m = []"
    using top_modules_ok [OF validate_design_ok(1) [OF assms(1)]] assms(2) by (auto simp: design_tree_def)
  then have "endpoint_scan d m p {} {} 0 (md_endpoints m) = []" by (simp add: module_questions_def)
  from endpoint_scan_ok [OF this assms(3)] show ?thesis .
qed

lemma accepted_public: "validate_design d = [] \<Longrightarrow> m \<in> set (design_tree d) \<Longrightarrow> ep \<in> set (md_endpoints m) \<Longrightarrow> ae_public ep \<Longrightarrow> \<not> is_guarded ep"
  using accepted_endpoint [of d m ep] by (auto simp: endpoint_questions_def is_guarded_def)

text \<open>The paths of a design without questions are what the registration of its routes relies on.\<close>

lemma endpoint_scan_once:
  "endpoint_scan d m ptr so sr i eps = [] \<Longrightarrow>
     distinct (map (\<lambda>ep. (ae_method ep, ae_path ep)) eps) \<and> (\<lambda>ep. (ae_method ep, ae_path ep)) ` set eps \<inter> sr = {}"
  by (induction d m ptr so sr i eps rule: endpoint_scan.induct) (auto simp: endpoint_questions_def)

lemma accepted_plain:
  assumes "validate_design d = []" "m \<in> set (design_tree d)"
  shows "plain_module m"
proof -
  obtain p where p: "module_questions d p m = []"
    using top_modules_ok [OF validate_design_ok(1) [OF assms(1)]] assms(2) by (auto simp: design_tree_def)
  then have "take 1 (effective_mount m) = ''/''" by (auto simp: module_questions_def effective_mount_def starts_with_def split: option.splits)
  moreover have "distinct (map (\<lambda>ep. (ae_method ep, ae_path ep)) (md_endpoints m))"
    using endpoint_scan_once [of d m p "{}" "{}" 0 "md_endpoints m"] p by (simp add: module_questions_def)
  moreover have "take 1 (ae_path ep) = ''/''" if "ep \<in> set (md_endpoints m)" for ep
    using accepted_endpoint [OF assms that] by (auto simp: endpoint_questions_def starts_with_def)
  ultimately show ?thesis by (simp add: plain_module_def list_all_iff)
qed

lemma tenancy_ok:
  assumes "validate_design d = []" "ds_tenancy d = Some t"
  shows "te_entity t \<in> set (design_names d)" "active_auth d" "walk_design (public_tenant_questions d) d = []"
    "walk_design (anonymous_tenant_questions d (te_entity t)) d = []" "walk_design (ambiguous_questions d) d = []"
    "walk_design (mixed_questions d) d = []" "walk_design (mount_param_questions d (fk_of (te_entity t))) d = []"
    "walk_design (member_surface_questions d (te_entity t)) d = []"
  using validate_design_ok(3) [OF assms] by (simp_all add: tenancy_questions_def split: if_splits)

text \<open>C39: In an accepted design with tenancy, a route that an explicit signal ties to the tenant or to an entity it owns is
  guarded, or proves itself by a signature, or is declared public; and a public one is either the tenant's own or one that the
  rule against public routes resolves to another entity.\<close>

theorem accepted_tenant_routes_guarded:
  assumes "validate_design d = []" "ds_tenancy d = Some t" "m \<in> set (design_tree d)" "ep \<in> set (md_endpoints m)"
    and "endpoint_repo_entity_strict m ep = Some x" "x = te_entity t \<or> tenant_path_of d x \<noteq> None"
  shows "is_guarded ep \<or> declares_signature_auth ep \<or>
    ae_public ep \<and> \<not> is_guarded ep \<and> (tenant_path_of d x = None \<or> validator_repo_entity m ep \<noteq> Some x)"
proof (cases "ae_public ep")
  case True
  obtain p where "public_tenant_questions d p m = []" using walk_design_all [OF tenancy_ok(3) [OF assms(1,2)] assms(3)] by blast
  then obtain i where "\<not> (ae_public ep \<and> opt_test (\<lambda>name. tenant_path_of d name \<noteq> None) (validator_repo_entity m ep))"
    unfolding public_tenant_questions_def using assms(4) each_Nil_D by fastforce
  then show ?thesis using True accepted_public [OF assms(1,3,4)] by (auto simp: opt_test_def split: option.splits)
next
  case False
  obtain p where "anonymous_tenant_questions d (te_entity t) p m = []"
    using walk_design_all [OF tenancy_ok(4) [OF assms(1,2)] assms(3)] by blast
  then show ?thesis unfolding anonymous_tenant_questions_def using each_Nil_D [OF _ assms(4)] assms(5,6) False by fastforce
qed


lemma find_entity_in_tree: "find_entity d x = Some e \<Longrightarrow> en_name e = x \<and> (\<exists>m \<in> set (design_tree d). e \<in> set (md_entities m))"
proof -
  let ?f = "\<lambda>m. List.find (\<lambda>e. en_name e = x) (md_entities m)"
  have "module_find ?f m = Some e \<Longrightarrow> \<exists>m' \<in> set (module_tree m). ?f m' = Some e"
       "modules_find ?f ms = Some e \<Longrightarrow> \<exists>m' \<in> set (concat (map module_tree ms)). ?f m' = Some e" for m ms
    by (induction m and ms rule: module_names_modules_names.induct) (auto simp: or_else_def split: option.splits)
  then show "find_entity d x = Some e \<Longrightarrow> ?thesis"
    unfolding find_entity_def design_tree_def by (fastforce dest: find_Some_name)
qed

lemma names_in_tree:
  "x \<in> set (design_names d) \<longleftrightarrow> (\<exists>m \<in> set (design_tree d). \<exists>e \<in> set (md_entities m). en_name e = x)"
proof -
  have "set (module_names m) = (\<Union>m' \<in> set (module_tree m). en_name ` set (md_entities m'))"
       "set (modules_names ms) = (\<Union>m' \<in> set (concat (map module_tree ms)). en_name ` set (md_entities m'))" for m ms
    by (induction m and ms rule: module_names_modules_names.induct) auto
  then show ?thesis by (auto simp: design_names_def design_tree_def)
qed

lemma anchor_canonical:
  assumes "alias_scan d e p seen i bs = []" "b \<in> set bs" "ds_tenancy d = Some t" "bt_entity b = te_entity t" "en_name e \<noteq> te_entity t"
  shows "belongs_fk b = fk_of (te_entity t)"
  using assms
proof (induction d e p seen i bs rule: alias_scan.induct)
  case (2 d e ep seen i b' bs)
  then have "alias_clash_questions d e (at ep ''belongs_to'' i) b' = []" by (auto simp: Let_def split: if_splits)
  then have "b = b' \<Longrightarrow> belongs_fk b = fk_of (te_entity t)" using 2(6-) by (auto simp: alias_clash_questions_def Let_def)
  moreover have "b \<in> set bs \<Longrightarrow> belongs_fk b = fk_of (te_entity t)"
    using 2 by (auto simp: Let_def split: if_splits option.splits)
  ultimately show ?case using 2(5) by auto
qed simp

lemma accepted_entity:
  assumes "validate_design d = []" "m \<in> set (design_tree d)" "e \<in> set (md_entities m)"
  shows "\<exists>p. alias_scan d e p [] 0 (en_belongs_to e) = []" "\<exists>p. unique_groups e p [] 0 (en_unique e) = []"
    "b \<in> set (en_belongs_to e) \<Longrightarrow> bt_entity b \<in> set (design_names d)"
    "f \<in> set (en_fields e) \<Longrightarrow> \<exists>p. check_field_shape f p (wants_db d) = []"
proof -
  show "\<exists>p. alias_scan d e p [] 0 (en_belongs_to e) = []"
    using walk_design_all [OF validate_design_ok(6) [OF assms(1)] assms(2)] each_Nil_D [OF _ assms(3)] by (fastforce simp: alias_questions_def)
  show "\<exists>p. unique_groups e p [] 0 (en_unique e) = []"
    using walk_design_all [OF validate_design_ok(4) [OF assms(1)] assms(2)] each_Nil_D [OF _ assms(3)] by (fastforce simp: unique_questions_def)
  obtain p where "relation_questions d p m = []" using walk_design_all [OF validate_design_ok(2) [OF assms(1)] assms(2)] by blast
  then obtain i where i: "each (\<lambda>k b. ask (bt_entity b \<notin> set (design_names d)) (at (at p ''entities'' i) ''belongs_to'' k) (Ent (UnknownTarget (bt_entity b))))
         (en_belongs_to e) = []"
     "each (\<lambda>j f. map (\<lambda>(q, r). (q, Fld r)) (check_field_shape f (at (at p ''entities'' i) ''fields'' j) (wants_db d))) (en_fields e) = []"
    using each_Nil_D [OF _ assms(3)] unfolding relation_questions_def by fastforce
  show "b \<in> set (en_belongs_to e) \<Longrightarrow> bt_entity b \<in> set (design_names d)" using each_Nil_D [OF i(1)] by simp
  show "f \<in> set (en_fields e) \<Longrightarrow> \<exists>p. check_field_shape f p (wants_db d) = []" using each_Nil_D [OF i(2)] by fastforce
qed

text \<open>The tenant is on no path to itself before the end: who refers to it directly is where the path ends.\<close>

lemma ownership_avoids_tenant: "ownership d tenant x bs \<Longrightarrow> x \<noteq> tenant \<Longrightarrow> tenant \<notin> set (walk_nodes x bs)"
proof (induction bs arbitrary: x)
  case (Cons b bs)
  then have "bt_entity b \<noteq> tenant" by (auto simp: direct_child_def list_ex_iff)
  with Cons show ?case by auto
qed simp

lemma ownership_end: "ownership d tenant x bs \<Longrightarrow> direct_child d tenant (last (walk_nodes x bs))"
  by (induction bs arbitrary: x) auto

lemma links_named:
  "ownership d tenant x bs \<Longrightarrow> j \<in> set (links d x bs) \<Longrightarrow>
     \<exists>y e b. find_entity d y = Some e \<and> b \<in> set (en_belongs_to e) \<and> find_entity d (bt_entity b) \<noteq> None \<and>
       jl_child_table j = table_name d y \<and> jl_child_fk j = belongs_fk b \<and> jl_parent_table j = table_name d (bt_entity b)"
proof (induction bs arbitrary: x)
  case (Cons b bs)
  from Cons.prems(1) obtain e where e: "find_entity d x = Some e" "b \<in> set (en_belongs_to e)" "ownership d tenant (bt_entity b) bs" by auto
  then have "find_entity d (bt_entity b) \<noteq> None" by (cases bs) (auto simp: direct_child_def split: option.splits)
  moreover from Cons.prems(2) consider "j = \<lparr>jl_child_table = table_name d x, jl_child_fk = belongs_fk b, jl_parent_table = table_name d (bt_entity b)\<rparr>"
    | "j \<in> set (links d (bt_entity b) bs)" by auto
  then show ?case
  proof cases
    case 1
    with e calculation show ?thesis by (intro exI [of _ x] exI [of _ e] exI [of _ b]) simp
  next
    case 2
    with Cons.IH [OF e(3)] show ?thesis by blast
  qed
qed simp

text \<open>C38: In an accepted design no entity that the references tie to the tenant is left unscoped: each has its one tenant path, and
  the query that scopes it names columns that exist, each join a reference of the child's entity and the anchor's key a
  reference of the anchor's entity to the tenant.\<close>

theorem accepted_ownership_scoped:
  assumes "validate_design d = []" "ds_tenancy d = Some t" "x \<in> set (design_names d)" "x \<noteq> te_entity t"
  shows "((\<exists>bs. ownership d (te_entity t) x bs) \<longleftrightarrow> tenant_path_of d x \<noteq> None) \<and>
    (\<forall>tp. tenant_path_of d x = Some tp \<longrightarrow>
       (\<forall>j \<in> set (tp_joins tp). \<exists>y e b. find_entity d y = Some e \<and> b \<in> set (en_belongs_to e) \<and> find_entity d (bt_entity b) \<noteq> None \<and>
          jl_child_table j = table_name d y \<and> jl_child_fk j = belongs_fk b \<and> jl_parent_table j = table_name d (bt_entity b)) \<and>
       (\<exists>y e b. find_entity d y = Some e \<and> b \<in> set (en_belongs_to e) \<and> bt_entity b = te_entity t \<and>
          tp_anchor_table tp = table_name d y \<and> tp_tenant_fk tp = belongs_fk b))"
proof -
  note exact = tenant_path_simple [OF assms(2,4)]
  obtain m e where me: "m \<in> set (design_tree d)" "e \<in> set (md_entities m)" "en_name e = x" using assms(3) names_in_tree by blast
  obtain p where "ambiguous_questions d p m = []" using walk_design_all [OF tenancy_ok(5) [OF assms(1,2)] me(1)] by blast
  from each_Nil_D [OF this [unfolded ambiguous_questions_def] me(2)] me(3) have "tenant_path_branch_count d x < 2" by simp
  then have "0 < tenant_path_branch_count d x \<longleftrightarrow> tenant_path_branch_count d x = 1" by arith
  then have scoped: "(\<exists>bs. ownership d (te_entity t) x bs) \<longleftrightarrow> tenant_path_of d x \<noteq> None"
    using exact [THEN conjunct1] exact [THEN conjunct2, THEN conjunct1] by simp
  have joins: "\<forall>j \<in> set (tp_joins tp). \<exists>y e b. find_entity d y = Some e \<and> b \<in> set (en_belongs_to e) \<and> find_entity d (bt_entity b) \<noteq> None \<and>
          jl_child_table j = table_name d y \<and> jl_child_fk j = belongs_fk b \<and> jl_parent_table j = table_name d (bt_entity b)"
    and anchor: "\<exists>y e b. find_entity d y = Some e \<and> b \<in> set (en_belongs_to e) \<and> bt_entity b = te_entity t \<and>
          tp_anchor_table tp = table_name d y \<and> tp_tenant_fk tp = belongs_fk b" if tp: "tenant_path_of d x = Some tp" for tp
  proof -
    from exact [THEN conjunct2, THEN conjunct2, rule_format, OF tp] obtain bs where simple: "simple_ownership d (te_entity t) x bs" and tp': "tp = \<lparr>tp_joins = links d x bs,
        tp_anchor_table = table_name d (last (walk_nodes x bs)), tp_tenant_fk = fk_of (te_entity t), tp_entity_table = table_name d x\<rparr>"
      by blast
    from simple have own: "ownership d (te_entity t) x bs" by (simp add: simple_ownership_def)
    let ?y = "last (walk_nodes x bs)"
    from ownership_end [OF own] obtain a b where a: "find_entity d ?y = Some a" "b \<in> set (en_belongs_to a)" "bt_entity b = te_entity t"
      by (auto simp: direct_child_def list_ex_iff split: option.splits)
    have "?y \<noteq> te_entity t" using ownership_avoids_tenant [OF own assms(4)] by (metis walk_nodes_neq last_in_set)
    moreover obtain m' where "en_name a = ?y" "m' \<in> set (design_tree d)" "a \<in> set (md_entities m')" using find_entity_in_tree [OF a(1)] by blast
    moreover obtain p' where "alias_scan d a p' [] 0 (en_belongs_to a) = []" using accepted_entity(1) [OF assms(1)] calculation(3,4) by blast
    ultimately have "belongs_fk b = fk_of (te_entity t)" using anchor_canonical [OF _ a(2) assms(2) a(3)] by metis
    with a show "\<exists>y e b. find_entity d y = Some e \<and> b \<in> set (en_belongs_to e) \<and> bt_entity b = te_entity t \<and>
          tp_anchor_table tp = table_name d y \<and> tp_tenant_fk tp = belongs_fk b"
      by (intro exI [of _ ?y] exI [of _ a] exI [of _ b]) (simp add: tp')
    show "\<forall>j \<in> set (tp_joins tp). \<exists>y e b. find_entity d y = Some e \<and> b \<in> set (en_belongs_to e) \<and> find_entity d (bt_entity b) \<noteq> None \<and>
          jl_child_table j = table_name d y \<and> jl_child_fk j = belongs_fk b \<and> jl_parent_table j = table_name d (bt_entity b)"
      using links_named [OF own] by (simp only: tp' tenant_path.select_convs) blast
  qed
  show ?thesis by (intro conjI scoped allI impI joins anchor)
qed


lemma alias_scan_distinct:
  "alias_scan d e p seen i bs = [] \<Longrightarrow> distinct (map belongs_fk bs) \<and> set (map belongs_fk bs) \<inter> fst ` set seen = {} \<and>
     set (map belongs_fk bs) \<inter> insert ''id'' (set (map fd_name (en_fields e))) = {}"
proof (induction d e p seen i bs rule: alias_scan.induct)
  case (2 d e ep seen i b bs)
  let ?p = "at ep ''belongs_to'' i"
  from 2(4) have ok: "\<not> (case bt_as b of Some a \<Rightarrow> \<not> is_snake a | None \<Rightarrow> False)" "alias_clash_questions d e ?p b = []"
    by (auto simp: Let_def split: if_splits)
  then have new: "map_of seen (belongs_fk b) = None" and rest: "alias_scan d e ep ((belongs_fk b, i) # seen) (Suc i) bs = []"
    using 2(4) by (auto simp: Let_def split: option.splits)
  have "belongs_fk b \<notin> insert ''id'' (set (map fd_name (en_fields e)))" using ok(2) by (auto simp: alias_clash_questions_def Let_def)
  moreover have "belongs_fk b \<notin> fst ` set seen" using new by (simp add: map_of_eq_None_iff)
  ultimately show ?case using 2(2) [OF refl refl ok(1) new rest] by auto
qed simp

lemma unique_groups_ok:
  "unique_groups e p seen g gs = [] \<Longrightarrow>
     (\<forall>grp \<in> set gs. set grp \<subseteq> set (entity_columns e) \<and> 2 \<le> card (set grp)) \<and> distinct (map set gs) \<and> set (map set gs) \<inter> set (map set seen) = {}"
proof (induction e p seen g gs rule: unique_groups.induct)
  case (2 e p seen g grp gs)
  then have new: "\<not> list_ex (\<lambda>s. set s = set grp) seen" and rest: "unique_groups e p (seen @ [grp]) (Suc g) gs = []"
    and own: "2 \<le> length (remdups grp)" "set grp \<subseteq> set (entity_columns e)" by (auto split: if_splits)
  have "2 \<le> card (set grp)" using own(1) by (simp add: length_remdups_card_conv)
  with 2(2) [OF new rest] own(2) new show ?case by (auto simp: list_ex_iff)
qed simp

lemma reserve_field_ok:
  assumes "reserve_field_questions d e p (i, f) = []" "fd_reserve_against f = Some cap"
  shows "wants_db d \<and> fd_type f = FInteger \<and> fd_required f \<and> fd_name f \<noteq> ''id'' \<and> cap \<noteq> fd_name f \<and>
    (\<exists>g. List.find (\<lambda>g. fd_name g = cap) (en_fields e) = Some g \<and> fd_type g = FInteger \<and> fd_required g)"
  using assms by (auto simp: reserve_field_questions_def capacity_questions_def Let_def split: if_splits option.splits)

text \<open>C40: The table of an accepted entity that declares no field twice (which the rules do not ask: \<open>declared_twice_accepted\<close>)
  can be built: its columns, the fields, the keys of its references and the primary key where no field is it, are all
  different; its references are to declared entities; its unique groups name existing columns, at least two each, no set
  twice; a reserve counter and its capacity are two required integer fields, in a design with a database.\<close>

theorem accepted_entities_buildable:
  assumes "validate_design d = []" "m \<in> set (design_tree d)" "e \<in> set (md_entities m)"
    and "distinct (map fd_name (en_fields e))"
  shows "distinct ((if ''id'' \<in> set (map fd_name (en_fields e)) then [] else [''id'']) @ entity_columns e) \<and>
    set (map bt_entity (en_belongs_to e)) \<subseteq> set (design_names d) \<and>
    (\<forall>grp \<in> set (en_unique e). set grp \<subseteq> set (entity_columns e) \<and> 2 \<le> card (set grp)) \<and> distinct (map set (en_unique e)) \<and>
    (\<forall>f \<in> set (en_fields e). \<forall>cap. fd_reserve_against f = Some cap \<longrightarrow>
       wants_db d \<and> fd_type f = FInteger \<and> fd_required f \<and> fd_name f \<noteq> ''id'' \<and> cap \<noteq> fd_name f \<and>
       (\<exists>g. List.find (\<lambda>g. fd_name g = cap) (en_fields e) = Some g \<and> fd_type g = FInteger \<and> fd_required g))"
proof (intro conjI ballI allI impI)
  obtain p where p: "alias_scan d e p [] 0 (en_belongs_to e) = []" using accepted_entity(1) [OF assms(1-3)] by blast
  from alias_scan_distinct [OF p] assms(4)
  show "distinct ((if ''id'' \<in> set (map fd_name (en_fields e)) then [] else [''id'']) @ entity_columns e)" by (auto simp: entity_columns_def)
  show "set (map bt_entity (en_belongs_to e)) \<subseteq> set (design_names d)" using accepted_entity(3) [OF assms(1-3)] by auto
  obtain p where p: "unique_groups e p [] 0 (en_unique e) = []" using accepted_entity(2) [OF assms(1-3)] by blast
  from unique_groups_ok [OF p] show "distinct (map set (en_unique e))"
    "grp \<in> set (en_unique e) \<Longrightarrow> set grp \<subseteq> set (entity_columns e)" "grp \<in> set (en_unique e) \<Longrightarrow> 2 \<le> card (set grp)" for grp by simp_all
  fix f cap assume f: "f \<in> set (en_fields e)" "fd_reserve_against f = Some cap"
  obtain q where "reserve_questions d q m = []" using walk_design_all [OF validate_design_ok(5) [OF assms(1)] assms(2)] by blast
  from each_Nil_D [OF this [unfolded reserve_questions_def] assms(3)] obtain i where
    i: "concat (map (reserve_field_questions d e (at q ''entities'' i)) (filter (\<lambda>(j, f). fd_reserve_against f \<noteq> None) (enumerate 0 (en_fields e)))) = []"
    by (auto simp: Let_def)
  from f(1) obtain j where "j < length (en_fields e)" "f = en_fields e ! j" by (auto simp: in_set_conv_nth)
  then have "(j, f) \<in> set (filter (\<lambda>(j, f). fd_reserve_against f \<noteq> None) (enumerate 0 (en_fields e)))" using f(2) by (simp add: in_set_enumerate_eq)
  with i have "reserve_field_questions d e (at q ''entities'' i) (j, f) = []" by (simp only: concat_eq_Nil_conv set_map) blast
  from reserve_field_ok [OF this f(2)] show "wants_db d" "fd_type f = FInteger" "fd_required f" "fd_name f \<noteq> ''id''" "cap \<noteq> fd_name f"
    "\<exists>g. List.find (\<lambda>g. fd_name g = cap) (en_fields e) = Some g \<and> fd_type g = FInteger \<and> fd_required g" by simp_all
qed


section \<open>Designs\<close>

definition shop_endpoint :: "str \<Rightarrow> http_method \<Rightarrow> str \<Rightarrow> str option \<Rightarrow> str option \<Rightarrow> api_endpoint" where
  "shop_endpoint op m p body ok = (demo_endpoint m p body ok)\<lparr>ae_operation_id := op\<rparr>"

definition shop_entity :: "str \<Rightarrow> str list \<Rightarrow> entity" where
  "shop_entity name parents = (demo_entity name parents)\<lparr>en_fields := [demo_field ''title'' FString]\<rparr>"

text \<open>A tenant, notes that it owns, and plans in the same module that it does not own. Deleting a note is public.\<close>

definition notes_module :: "bool \<Rightarrow> module_design" where
  "notes_module open = ModuleDesign ''notes'' None None [shop_entity ''Plan'' [], shop_entity ''Note'' [''Org'']]
     [shop_endpoint ''create_note'' M_POST ''/'' (Some ''Note'') (Some ''Note''),
      (shop_endpoint ''delete_note'' M_DELETE ''/{id}'' None None)\<lparr>ae_public := open, ae_auth_required := \<not> open\<rparr>] [] []"

definition notes_design :: "bool \<Rightarrow> design" where
  "notes_design open = demo_design\<lparr>ds_tenancy := Some \<lparr>te_entity = ''Org'', te_member_roles = [''owner'']\<rparr>,
     ds_modules := [ModuleDesign ''orgs'' None None [shop_entity ''Org'' []] [shop_endpoint ''create_org'' M_POST ''/'' (Some ''Org'') (Some ''Org'')] [] [],
       notes_module open]\<rparr>"

definition delete_note :: api_endpoint where
  "delete_note = (shop_endpoint ''delete_note'' M_DELETE ''/{id}'' None None)\<lparr>ae_public := True, ae_auth_required := False\<rparr>"

lemma notes_public_accepted: "validate_design (notes_design True) = []"
  by code_simp

lemma notes_accepted: "validate_design (notes_design False) = []"
  by code_simp

lemma notes_in_tree:
  "design_tree (notes_design b) = ds_modules (notes_design b)" "notes_module b \<in> set (ds_modules (notes_design b))"
  "shop_entity ''Note'' [''Org''] \<in> set (md_entities (notes_module b))" "delete_note \<in> set (md_endpoints (notes_module True))"
  "ds_tenancy (notes_design b) = Some \<lparr>te_entity = ''Org'', te_member_roles = [''owner'']\<rparr>"
  by (simp_all add: design_tree_def notes_design_def notes_module_def delete_note_def)

lemma notes_bindings:
  "endpoint_repo_entity_strict (notes_module True) delete_note = Some ''Note''" "endpoint_repo_entity (notes_module True) delete_note = Some ''Note''"
  "validator_repo_entity (notes_module True) delete_note = Some ''Plan''"
  "tenant_path_of (notes_design True) ''Note'' \<noteq> None" "\<not> is_guarded delete_note" "ae_public delete_note" "\<not> declares_signature_auth delete_note"
  by code_simp+

text \<open>The validator accepts a public, unguarded deletion of a tenant's rows: the rule that is to refuse a public route on a
  tenant-owned entity resolves a route without a body to the first entity of the module, while the generator binds it to the
  entity of its collection.\<close>

lemma public_tenant_delete_accepted:
  "validate_design (notes_design True) = [] \<and> find_design_conflict (notes_design True) = None \<and>
   notes_module True \<in> set (design_tree (notes_design True)) \<and> delete_note \<in> set (md_endpoints (notes_module True)) \<and>
   ae_public delete_note \<and> \<not> is_guarded delete_note \<and> endpoint_repo_entity (notes_module True) delete_note = Some ''Note'' \<and>
   tenant_path_of (notes_design True) ''Note'' \<noteq> None \<and> validator_repo_entity (notes_module True) delete_note = Some ''Plan''"
proof -
  have "find_design_conflict (notes_design True) = None" by code_simp
  then show ?thesis using notes_public_accepted notes_in_tree notes_bindings by simp
qed

theorem accepted_tenant_routes_guarded_witness:
  "validator_repo_entity (notes_module True) delete_note \<noteq> Some ''Note''"
  using accepted_tenant_routes_guarded [OF notes_public_accepted notes_in_tree(5) _ notes_in_tree(4) notes_bindings(1)]
    notes_in_tree notes_bindings by auto

theorem accepted_ownership_scoped_witness:
  "tenant_path_of (notes_design False) ''Note'' \<noteq> None"
proof -
  have "''Note'' \<in> set (design_names (notes_design False))"
    by (simp add: design_names_def notes_design_def notes_module_def shop_entity_def demo_entity_def)
  moreover have "direct_child (notes_design False) ''Org'' ''Note''" by code_simp
  then have "\<exists>bs. ownership (notes_design False) ''Org'' ''Note'' bs" by (intro exI [of _ "[]"]) simp
  ultimately show ?thesis using accepted_ownership_scoped [OF notes_accepted notes_in_tree(5), THEN conjunct1] by simp
qed

theorem accepted_entities_buildable_witness:
  "distinct [''id'', ''title'', ''org_id'']"
proof -
  have once: "distinct (map fd_name (en_fields (shop_entity ''Note'' [''Org''])))"
    and columns: "(if ''id'' \<in> set (map fd_name (en_fields (shop_entity ''Note'' [''Org'']))) then [] else [''id'']) @
      entity_columns (shop_entity ''Note'' [''Org'']) = [''id'', ''title'', ''org_id'']" by code_simp+
  show ?thesis
    using accepted_entities_buildable [OF notes_accepted _ notes_in_tree(3) [of False] once, THEN conjunct1, unfolded columns] notes_in_tree by simp
qed

text \<open>What the rules do not look at: a field declared twice in one entity, an entity declared twice, and two subroutes of one name,
  although all three name the same struct, table or directory twice.\<close>

definition twice_design :: design where
  "twice_design = demo_design\<lparr>ds_tenancy := None,
     ds_modules := [ModuleDesign ''notes'' None None
       [(shop_entity ''Note'' [])\<lparr>en_fields := [demo_field ''title'' FString, demo_field ''title'' FString]\<rparr>, shop_entity ''Note'' []]
       [shop_endpoint ''create_note'' M_POST ''/'' (Some ''Note'') (Some ''Note'')]
       [ModuleDesign ''extra'' (Some ''/a'') None [] [shop_endpoint ''ping_a'' M_GET ''/'' None None] [] [],
        ModuleDesign ''extra'' (Some ''/b'') None [] [shop_endpoint ''ping_b'' M_GET ''/'' None None] [] []] []]\<rparr>"

lemma declared_twice_accepted: "validate_design twice_design = []" "find_design_conflict twice_design = None"
  by code_simp+

text \<open>Nor do they see two modules mounted at one place with one path, which the router refuses (\<open>two_mounts_refused\<close>).\<close>

lemma two_mounts_accepted: "validate_design two_mounts = []"
  by code_simp

end
