(* ===== verification/JC_Pgoutput.thy ===== *)
theory JC_Pgoutput
  imports JC_Realtime
begin

text \<open>
  The decoder of logical replication messages, \<open>jerrycan-realtime/src/changes/pgoutput.rs\<close>: readers with
  bounds checks, the tuple reader, the relation cache, the four row messages, and the extraction of the
  scope keys of a change.

  Offsets are natural numbers; \<open>usize\<close> is 64 bits wide and a negative length cast to it wraps, which is
  written out where the code adds a length to an offset (\<open>usize_add\<close>: the arithmetic of a release build;
  a debug build panics there, see \<open>overflows\<close>). A JSON object is sorted by key, as \<open>serde_json::Map\<close> is.
\<close>

section \<open>Bytes\<close>

text \<open>\<open>String::from_utf8_lossy\<close>: every maximal ill-formed piece becomes U+FFFD. \<open>utf8_chunk\<close> is the
  length of the first piece and whether it is well-formed.\<close>

definition byte_at :: "bytes \<Rightarrow> nat \<Rightarrow> nat" where
  "byte_at b i = (if i < length b then of_char (b ! i) else 0)"

definition cont_byte :: "nat \<Rightarrow> bool" where "cont_byte n \<longleftrightarrow> 128 \<le> n \<and> n \<le> 191"

definition second_ok :: "nat \<Rightarrow> nat \<Rightarrow> bool" where
  "second_ok a x \<longleftrightarrow>
     (if a = 224 then 160 \<le> x \<and> x \<le> 191 else if a = 237 then 128 \<le> x \<and> x \<le> 159
      else if a = 240 then 144 \<le> x \<and> x \<le> 191 else if a = 244 then 128 \<le> x \<and> x \<le> 143 else cont_byte x)"

definition utf8_chunk :: "bytes \<Rightarrow> bool \<times> nat" where
  "utf8_chunk b =
     (let a = byte_at b 0 in
      if a \<le> 127 then (True, 1)
      else if 194 \<le> a \<and> a \<le> 223 then (if cont_byte (byte_at b 1) then (True, 2) else (False, 1))
      else if 224 \<le> a \<and> a \<le> 239 then
        (if \<not> second_ok a (byte_at b 1) then (False, 1)
         else if cont_byte (byte_at b 2) then (True, 3) else (False, 2))
      else if 240 \<le> a \<and> a \<le> 244 then
        (if \<not> second_ok a (byte_at b 1) then (False, 1)
         else if \<not> cont_byte (byte_at b 2) then (False, 2)
         else if cont_byte (byte_at b 3) then (True, 4) else (False, 3))
      else (False, 1))"

lemma utf8_chunk_pos: "utf8_chunk b = (v, n) \<Longrightarrow> 0 < n"
  by (auto simp: utf8_chunk_def Let_def split: if_splits)

function from_utf8_lossy :: "bytes \<Rightarrow> str" where
  "from_utf8_lossy b =
     (if b = [] then []
      else case utf8_chunk b of (v, n) \<Rightarrow>
        (if v then take n b else map char_of [239::nat, 191, 189]) @ from_utf8_lossy (drop n b))"
  by pat_completeness auto
termination
  by (relation "measure length") (auto dest!: utf8_chunk_pos [OF sym])

declare from_utf8_lossy.simps [simp del]

text \<open>\<open>b.get(a..e)\<close> and \<open>b.get(a..)\<close>.\<close>

definition slice_get :: "bytes \<Rightarrow> nat \<Rightarrow> nat \<Rightarrow> bytes option" where
  "slice_get b a e = (if a \<le> e \<and> e \<le> length b then Some (take (e - a) (drop a b)) else None)"

definition be_nat :: "bytes \<Rightarrow> nat" where
  "be_nat b = foldl (\<lambda>n c. n * 256 + of_char c) 0 b"

definition read_u16 :: "bytes \<Rightarrow> nat \<Rightarrow> (str, nat) result" where
  "read_u16 b pos = (case slice_get b pos (pos + 2) of Some s \<Rightarrow> Ok (be_nat s)
     | None \<Rightarrow> Err (''pgoutput truncated (u16 at '' @ show_nat pos @ '')''))"

definition read_u32 :: "bytes \<Rightarrow> nat \<Rightarrow> (str, nat) result" where
  "read_u32 b pos = (case slice_get b pos (pos + 4) of Some s \<Rightarrow> Ok (be_nat s)
     | None \<Rightarrow> Err (''pgoutput truncated (u32 at '' @ show_nat pos @ '')''))"

text \<open>The sign is the top bit.\<close>

definition read_i32 :: "bytes \<Rightarrow> nat \<Rightarrow> (str, int) result" where
  "read_i32 b pos = (case slice_get b pos (pos + 4) of
       Some s \<Rightarrow> Ok (if be_nat s < 2 ^ 31 then int (be_nat s) else int (be_nat s) - 2 ^ 32)
     | None \<Rightarrow> Err (''pgoutput truncated (i32 at '' @ show_nat pos @ '')''))"

definition as_usize :: "int \<Rightarrow> nat" where "as_usize i = nat (i mod 2 ^ 64)"
definition usize_add :: "nat \<Rightarrow> nat \<Rightarrow> nat" where "usize_add a b = (a + b) mod 2 ^ 64"
definition overflows :: "nat \<Rightarrow> nat \<Rightarrow> bool" where "overflows a b \<longleftrightarrow> 2 ^ 64 \<le> a + b"

fun until_nul :: "bytes \<Rightarrow> bytes option" where
  "until_nul [] = None"
| "until_nul (c # cs) = (if of_char c = (0::nat) then Some [] else map_option ((#) c) (until_nul cs))"

definition read_cstr :: "bytes \<Rightarrow> nat \<Rightarrow> (str, str \<times> nat) result" where
  "read_cstr b pos =
     (if length b < pos then Err (''pgoutput truncated (cstring start at '' @ show_nat pos @ '')'')
      else case until_nul (drop pos b) of
        None \<Rightarrow> Err ''pgoutput truncated (unterminated cstring)''
      | Some s \<Rightarrow> Ok (from_utf8_lossy s, pos + length s + 1))"

section \<open>Tuples\<close>

type_synonym json_map = "(str \<times> json) list"

fun jmap_insert :: "str \<Rightarrow> json \<Rightarrow> json_map \<Rightarrow> json_map" where
  "jmap_insert k v [] = [(k, v)]"
| "jmap_insert k v ((k', v') # m) =
     (if k = k' then (k, v) # m else if k < k' then (k, v) # (k', v') # m else (k', v') # jmap_insert k v m)"

text \<open>\<open>{:#x}\<close> of a byte.\<close>

definition show_hex :: "char \<Rightarrow> str" where
  "show_hex c =
     (let n = of_char c :: nat; d = (\<lambda>i. ''0123456789abcdef'' ! i)
      in ''0x'' @ (if n < 16 then [d n] else [d (n div 16), d (n mod 16)]))"

definition column_name :: "str list \<Rightarrow> nat \<Rightarrow> str" where
  "column_name cols i = (if i < length cols then cols ! i else ''col'' @ show_nat i)"

text \<open>\<open>n\<close> columns are left, the next is the \<open>i\<close>-th.\<close>

fun read_columns :: "str list \<Rightarrow> bytes \<Rightarrow> nat \<Rightarrow> nat \<Rightarrow> nat \<Rightarrow> json_map \<Rightarrow> (str, json_map \<times> nat) result" where
  "read_columns cols b 0 i pos m = Ok (m, pos)"
| "read_columns cols b (Suc n) i pos m =
     (if length b \<le> pos then Err ''pgoutput truncated (tuple kind)''
      else
        (let kind = b ! pos; p = pos + 1; name = column_name cols i
         in if kind = CHR ''n'' then read_columns cols b n (i + 1) p (jmap_insert name JNull m)
            else if kind = CHR ''t'' then
              (case read_i32 b p of Err e \<Rightarrow> Err e
               | Ok len \<Rightarrow>
                   (let stop = usize_add (p + 4) (as_usize len)
                    in case slice_get b (p + 4) stop of
                         None \<Rightarrow> Err ''pgoutput truncated (tuple text)''
                       | Some s \<Rightarrow> read_columns cols b n (i + 1) stop
                           (jmap_insert name (JString (from_utf8_lossy s)) m)))
            else if kind = CHR ''b'' then
              (case read_i32 b p of Err e \<Rightarrow> Err e
               | Ok len \<Rightarrow> read_columns cols b n (i + 1) (usize_add p (usize_add 4 (as_usize len))) m)
            else if kind = CHR ''u'' then read_columns cols b n (i + 1) p m
            else Err (''pgoutput unknown tuple column kind '' @ show_hex kind)))"

definition read_tuple :: "str list \<Rightarrow> bytes \<Rightarrow> nat \<Rightarrow> (str, json_map \<times> nat) result" where
  "read_tuple cols b pos =
     bind_result (read_u16 b pos) (\<lambda>ncols. read_columns cols b ncols 0 (pos + 2) [])"

section \<open>Messages\<close>

type_synonym relation_cache = "nat \<Rightarrow> (str \<times> str list) option"

record row_change =
  rw_table :: str
  rw_op :: change_op
  rw_old :: "json option"
  rw_new :: "json option"

datatype logical = Meta | Row row_change

text \<open>Each column of a relation: flags, name, type and modifier.\<close>

fun relation_columns :: "bytes \<Rightarrow> nat \<Rightarrow> nat \<Rightarrow> str list \<Rightarrow> (str, str list) result" where
  "relation_columns b 0 pos cols = Ok cols"
| "relation_columns b (Suc n) pos cols =
     bind_result (read_cstr b (pos + 1)) (\<lambda>(col, p). relation_columns b n (p + 8) (cols @ [col]))"

definition decode_relation :: "bytes \<Rightarrow> (str, nat \<times> str \<times> str list) result" where
  "decode_relation b =
     bind_result (read_u32 b 1) (\<lambda>rel.
     bind_result (read_cstr b 5) (\<lambda>(ns, p1).
     bind_result (read_cstr b p1) (\<lambda>(name, p2).
     bind_result (read_u16 b (p2 + 1)) (\<lambda>ncols.
     bind_result (relation_columns b ncols (p2 + 3) []) (\<lambda>cols. Ok (rel, name, cols))))))"

definition byte_of :: "bytes \<Rightarrow> nat \<Rightarrow> str \<Rightarrow> (str, char) result" where
  "byte_of b pos e = (if pos < length b then Ok (b ! pos) else Err e)"

definition decode_insert :: "str \<Rightarrow> str list \<Rightarrow> bytes \<Rightarrow> (str, logical) result" where
  "decode_insert table cols b =
     bind_result (byte_of b 5 ''insert missing new-tuple tag'') (\<lambda>tag.
     if tag \<noteq> CHR ''N'' then Err (''insert expected 'N', got '' @ show_hex tag)
     else bind_result (read_tuple cols b 6) (\<lambda>(new, _).
       Ok (Row \<lparr>rw_table = table, rw_op = OpInsert, rw_old = None, rw_new = Some (JObject new)\<rparr>)))"

definition decode_update :: "str \<Rightarrow> str list \<Rightarrow> bytes \<Rightarrow> (str, logical) result" where
  "decode_update table cols b =
     bind_result (byte_of b 5 ''update missing tuple tag'') (\<lambda>tag.
     bind_result
       (if tag = CHR ''K'' \<or> tag = CHR ''O'' then
          bind_result (read_tuple cols b 6) (\<lambda>(old, next).
          bind_result (byte_of b next ''update missing new tuple after old'') (\<lambda>ntag.
            if ntag \<noteq> CHR ''N'' then Err (''update expected 'N' after old, got '' @ show_hex ntag)
            else Ok (Some (JObject old), next + 1)))
        else if tag = CHR ''N'' then Ok (None, 6)
        else Err (''update unexpected tuple tag '' @ show_hex tag))
       (\<lambda>(old, pos). bind_result (read_tuple cols b pos) (\<lambda>(new, _).
          Ok (Row \<lparr>rw_table = table, rw_op = OpUpdate, rw_old = old, rw_new = Some (JObject new)\<rparr>))))"

definition decode_delete :: "str \<Rightarrow> str list \<Rightarrow> bytes \<Rightarrow> (str, logical) result" where
  "decode_delete table cols b =
     bind_result (byte_of b 5 ''delete missing tuple tag'') (\<lambda>tag.
     if tag \<noteq> CHR ''K'' \<and> tag \<noteq> CHR ''O'' then Err (''delete expected 'K'/'O', got '' @ show_hex tag)
     else bind_result (read_tuple cols b 6) (\<lambda>(old, _).
       Ok (Row \<lparr>rw_table = table, rw_op = OpDelete, rw_old = Some (JObject old), rw_new = None\<rparr>)))"

text \<open>A row of a relation that is not cached is skipped before its tuples are read.\<close>

definition decode_row ::
  "(str \<Rightarrow> str list \<Rightarrow> bytes \<Rightarrow> (str, logical) result) \<Rightarrow> bytes \<Rightarrow> relation_cache \<Rightarrow> (str, logical) result" where
  "decode_row dec b cache =
     bind_result (read_u32 b 1) (\<lambda>rel. case cache rel of None \<Rightarrow> Ok Meta | Some (table, cols) \<Rightarrow> dec table cols b)"

definition decode_logical :: "bytes \<Rightarrow> relation_cache \<Rightarrow> (str, logical) result \<times> relation_cache" where
  "decode_logical b cache =
     (if b = [] then (Err ''empty logical message'', cache)
      else if hd b = CHR ''R'' then
        (case decode_relation b of Err e \<Rightarrow> (Err e, cache)
         | Ok (rel, name, cols) \<Rightarrow> (Ok Meta, cache(rel \<mapsto> (name, cols))))
      else if hd b = CHR ''I'' then (decode_row decode_insert b cache, cache)
      else if hd b = CHR ''U'' then (decode_row decode_update b cache, cache)
      else if hd b = CHR ''D'' then (decode_row decode_delete b cache, cache)
      else (Ok Meta, cache))"

section \<open>Scope keys\<close>

text \<open>\<open>Value::get\<close> of a key reads objects only; \<open>show_json\<close> is the \<open>Display\<close> of the JSON library.\<close>

definition json_get :: "json \<Rightarrow> str \<Rightarrow> json option" where
  "json_get v k = (case v of JObject m \<Rightarrow> map_of m k | _ \<Rightarrow> None)"

definition key_text :: "(json \<Rightarrow> str) \<Rightarrow> json option \<Rightarrow> str \<Rightarrow> str option" where
  "key_text show_json row col =
     (case Option.bind row (\<lambda>v. json_get v col) of
        None \<Rightarrow> None
      | Some (JString s) \<Rightarrow> Some s
      | Some JNull \<Rightarrow> None
      | Some v \<Rightarrow> Some (show_json v))"

definition or_else :: "'a option \<Rightarrow> 'a option \<Rightarrow> 'a option" where
  "or_else a b = (case a of Some x \<Rightarrow> Some x | None \<Rightarrow> b)"

definition row_into_event :: "(json \<Rightarrow> str) \<Rightarrow> change_spec \<Rightarrow> row_change \<Rightarrow> change_event option" where
  "row_into_event show_json spec rw =
     (let get = key_text show_json
      in case or_else (get (rw_new rw) (cs_pk spec)) (get (rw_old rw) (cs_pk spec)) of
           None \<Rightarrow> None
         | Some pk \<Rightarrow> Some
             \<lparr>ev_entity = cs_entity spec, ev_op = rw_op rw, ev_pk = pk, ev_row = rw_new rw,
              ev_tenant = Option.bind (cs_tenant spec) (get (rw_new rw)),
              ev_old_tenant = Option.bind (cs_tenant spec) (get (rw_old rw)),
              ev_owner = Option.bind (cs_owner spec) (\<lambda>c. or_else (get (rw_new rw) c) (get (rw_old rw) c))\<rparr>)"

section \<open>Reading bytes back\<close>

primrec be_bytes :: "nat \<Rightarrow> nat \<Rightarrow> bytes" where
  "be_bytes 0 n = []"
| "be_bytes (Suc k) n = be_bytes k (n div 256) @ [char_of (n mod 256)]"

lemma length_be_bytes [simp]: "length (be_bytes k n) = k"
  by (induction k arbitrary: n) auto

lemma be_nat_be_bytes: "n < 256 ^ k \<Longrightarrow> be_nat (be_bytes k n) = n"
proof (induction k arbitrary: n)
  case (Suc k)
  then have "n div 256 < 256 ^ k" by (simp add: less_mult_imp_div_less mult.commute)
  from Suc.IH [OF this] show ?case by (simp add: be_nat_def)
qed (simp add: be_nat_def)

lemma slice_get_mid:
  "b = pre @ x @ post \<Longrightarrow> length pre = a \<Longrightarrow> e = a + length x \<Longrightarrow> slice_get b a e = Some x"
  by (simp add: slice_get_def)

lemma slice_get_short: "length b < e \<Longrightarrow> slice_get b a e = None"
  by (simp add: slice_get_def)

lemma read_u16_at: "b = pre @ be_bytes 2 n @ post \<Longrightarrow> length pre = pos \<Longrightarrow> n < 2 ^ 16 \<Longrightarrow> read_u16 b pos = Ok n"
  by (subst read_u16_def, subst slice_get_mid [of b pre _ post]) (auto simp: be_nat_be_bytes)

lemma read_u32_at: "b = pre @ be_bytes 4 n @ post \<Longrightarrow> length pre = pos \<Longrightarrow> n < 2 ^ 32 \<Longrightarrow> read_u32 b pos = Ok n"
  by (subst read_u32_def, subst slice_get_mid [of b pre _ post]) (auto simp: be_nat_be_bytes)

lemma read_i32_at: "b = pre @ be_bytes 4 n @ post \<Longrightarrow> length pre = pos \<Longrightarrow> n < 2 ^ 31 \<Longrightarrow> read_i32 b pos = Ok (int n)"
  by (subst read_i32_def, subst slice_get_mid [of b pre _ post]) (auto simp: be_nat_be_bytes)

lemma as_usize_nonneg: "n < 2 ^ 31 \<Longrightarrow> as_usize (int n) = n"
  by (simp add: as_usize_def)

text \<open>Well-formed text is read back unchanged.\<close>

lemma utf8_chunk_valid:
  assumes "utf8_valid (a # r)"
  shows "\<exists>n. utf8_chunk (a # r) = (True, n) \<and> 0 < n \<and> n \<le> length (a # r) \<and> utf8_valid (drop n (a # r))"
proof -
  note v = assms [unfolded utf8_valid.simps(2) [of a r]]
  note d = utf8_chunk_def byte_at_def byte_in_def cont_byte_def second_ok_def Let_def
  consider "byte_in 0 127 a" | "\<not> byte_in 0 127 a" "byte_in 194 223 a"
    | "\<not> byte_in 0 127 a" "\<not> byte_in 194 223 a" "byte_in 224 239 a"
    | "\<not> byte_in 0 127 a" "\<not> byte_in 194 223 a" "\<not> byte_in 224 239 a" "byte_in 240 244 a"
    using v by argo
  then show ?thesis
  proof cases
    case 1
    then show ?thesis using v by (simp add: d)
  next
    case 2
    then obtain b r' where r: "r = b # r'" "byte_in 128 191 b" "utf8_valid r'" using v by (cases r) auto
    then have "utf8_chunk (a # r) = (True, 2)" using 2 by (simp add: d)
    with r show ?thesis by simp
  next
    case 3
    then obtain b r1 where r1: "r = b # r1" using v by (cases r) auto
    then obtain c r' where r: "r = b # c # r'" using 3 v by (cases r1) auto
    then have u: "byte_in (if of_char a = (224::nat) then 160 else 128) (if of_char a = (237::nat) then 159 else 191) b"
      "byte_in 128 191 c" "utf8_valid r'" using 3 v by auto
    then have "utf8_chunk (a # r) = (True, 3)" using 3 r by (simp add: d split: if_splits)
    with r u show ?thesis by simp
  next
    case 4
    then obtain b r1 where r1: "r = b # r1" using v by (cases r) auto
    then obtain c r2 where r2: "r = b # c # r2" using 4 v by (cases r1) auto
    then obtain e r' where r: "r = b # c # e # r'" using 4 v by (cases r2) auto
    then have u: "byte_in (if of_char a = (240::nat) then 144 else 128) (if of_char a = (244::nat) then 143 else 191) b"
      "byte_in 128 191 c" "byte_in 128 191 e" "utf8_valid r'" using 4 v by auto
    then have "utf8_chunk (a # r) = (True, 4)" using 4 r by (simp add: d split: if_splits)
    with r u show ?thesis by simp
  qed
qed

lemma from_utf8_lossy_valid: "utf8_valid s \<Longrightarrow> from_utf8_lossy s = s"
proof (induction s rule: length_induct)
  case (1 s)
  show ?case
  proof (cases s)
    case Nil
    then show ?thesis by (simp add: from_utf8_lossy.simps)
  next
    case (Cons a r)
    with 1(2) utf8_chunk_valid obtain n where n: "utf8_chunk s = (True, n)" "0 < n" "n \<le> length s" "utf8_valid (drop n s)"
      by blast
    then have "from_utf8_lossy (drop n s) = drop n s" using 1(1) by simp
    then show ?thesis using n Cons by (subst from_utf8_lossy.simps) simp
  qed
qed

text \<open>Whatever the bytes, what is read is well-formed text.\<close>

lemma map_of_jmap_insert [simp]: "map_of (jmap_insert k v m) = (map_of m)(k \<mapsto> v)"
  by (induction k v m rule: jmap_insert.induct) auto

lemma jmap_insert_keys: "set (map fst (jmap_insert k v m)) = insert k (set (map fst m))"
  by (induction k v m rule: jmap_insert.induct) auto

lemma jmap_insert_sorted: "sorted_wrt (<) (map fst m) \<Longrightarrow> sorted_wrt (<) (map fst (jmap_insert k v m))"
proof (induction k v m rule: jmap_insert.induct)
  case (2 k v k' v' m)
  have keys: "fst ` set (jmap_insert k v m) = insert k (fst ` set m)" using jmap_insert_keys [of k v m] by simp
  show ?case using 2 keys by (auto simp: less_le_trans)
qed simp

section \<open>The wire format\<close>

text \<open>What the server sends, as the protocol describes it and as the tests of the module build it.\<close>

datatype cell = CNull | CText bytes | CUnchanged | CBinary bytes

fun enc_cell :: "cell \<Rightarrow> bytes" where
  "enc_cell CNull = ''n''"
| "enc_cell (CText s) = CHR ''t'' # be_bytes 4 (length s) @ s"
| "enc_cell CUnchanged = ''u''"
| "enc_cell (CBinary s) = CHR ''b'' # be_bytes 4 (length s) @ s"

definition enc_cells :: "cell list \<Rightarrow> bytes" where "enc_cells cs = concat (map enc_cell cs)"

definition enc_tuple :: "cell list \<Rightarrow> bytes" where
  "enc_tuple cs = be_bytes 2 (length cs) @ enc_cells cs"

definition NUL :: char where "NUL = char_of (0::nat)"

fun enc_column :: "char \<times> str \<times> bytes \<Rightarrow> bytes" where
  "enc_column (flags, name, typ) = flags # name @ [NUL] @ typ"

definition relation_msg :: "nat \<Rightarrow> str \<Rightarrow> str \<Rightarrow> char \<Rightarrow> (char \<times> str \<times> bytes) list \<Rightarrow> bytes" where
  "relation_msg rel ns name ident cols =
     ''R'' @ be_bytes 4 rel @ ns @ [NUL] @ name @ [NUL] @ [ident] @ be_bytes 2 (length cols) @ concat (map enc_column cols)"

definition insert_msg :: "nat \<Rightarrow> cell list \<Rightarrow> bytes" where
  "insert_msg rel new = ''I'' @ be_bytes 4 rel @ ''N'' @ enc_tuple new"

definition update_msg :: "nat \<Rightarrow> (char \<times> cell list) option \<Rightarrow> cell list \<Rightarrow> bytes" where
  "update_msg rel old new = ''U'' @ be_bytes 4 rel @
     (case old of None \<Rightarrow> [] | Some (tag, cs) \<Rightarrow> tag # enc_tuple cs) @ ''N'' @ enc_tuple new"

definition delete_msg :: "nat \<Rightarrow> char \<Rightarrow> cell list \<Rightarrow> bytes" where
  "delete_msg rel tag old = ''D'' @ be_bytes 4 rel @ tag # enc_tuple old"

text \<open>What a tuple means: a null, a text, or nothing known of the column.\<close>

fun cell_json :: "cell \<Rightarrow> json option" where
  "cell_json CNull = Some JNull"
| "cell_json (CText s) = Some (JString (from_utf8_lossy s))"
| "cell_json _ = None"

fun row_from :: "str list \<Rightarrow> nat \<Rightarrow> cell list \<Rightarrow> json_map \<Rightarrow> json_map" where
  "row_from cols i [] m = m"
| "row_from cols i (c # cs) m = row_from cols (i + 1) cs
     (case cell_json c of None \<Rightarrow> m | Some v \<Rightarrow> jmap_insert (column_name cols i) v m)"

abbreviation row_of :: "str list \<Rightarrow> cell list \<Rightarrow> json" where "row_of cols cs \<equiv> JObject (row_from cols 0 cs [])"

fun cell_size :: "cell \<Rightarrow> nat" where
  "cell_size (CText s) = length s" | "cell_size (CBinary s) = length s" | "cell_size _ = 0"

text \<open>A tuple the protocol can carry: the counts and lengths fit their fields.\<close>

definition cells_fit :: "cell list \<Rightarrow> bool" where
  "cells_fit cs \<longleftrightarrow> length cs < 2 ^ 16 \<and> list_all (\<lambda>c. cell_size c < 2 ^ 31) cs"

section \<open>Decoding tuples\<close>

lemma usize_add_small: "a + b < 2 ^ 64 \<Longrightarrow> usize_add a b = a + b"
  by (simp add: usize_add_def)

lemma enc_cells_simps [simp]: "enc_cells [] = []" "enc_cells (c # cs) = enc_cell c @ enc_cells cs"
  by (simp_all add: enc_cells_def)

lemma read_cell_text:
  assumes "b = pre @ CHR ''t'' # be_bytes 4 (length s) @ s @ post" "length pre = pos" "length s < 2 ^ 31" "length b < 2 ^ 63"
  shows "read_columns cols b (Suc n) i pos m =
    read_columns cols b n (i + 1) (pos + 5 + length s) (jmap_insert (column_name cols i) (JString (from_utf8_lossy s)) m)"
proof -
  have r: "read_i32 b (pos + 1) = Ok (int (length s))"
    by (rule read_i32_at [of b "pre @ ''t''"]) (use assms in simp_all)
  have u: "usize_add (pos + 1 + 4) (as_usize (int (length s))) = pos + 5 + length s"
    using assms by (simp add: as_usize_nonneg usize_add_small)
  have g: "slice_get b (pos + 1 + 4) (pos + 5 + length s) = Some s"
    by (rule slice_get_mid [of b "pre @ CHR ''t'' # be_bytes 4 (length s)"]) (use assms in simp_all)
  have k: "pos < length b" "b ! pos = CHR ''t''" using assms by (auto simp: nth_append)
  show ?thesis using r u g k by (simp add: Let_def)
qed

lemma read_cell_binary:
  assumes "b = pre @ CHR ''b'' # be_bytes 4 (length s) @ s @ post" "length pre = pos" "length s < 2 ^ 31" "length b < 2 ^ 63"
  shows "read_columns cols b (Suc n) i pos m = read_columns cols b n (i + 1) (pos + 5 + length s) m"
proof -
  have r: "read_i32 b (pos + 1) = Ok (int (length s))"
    by (rule read_i32_at [of b "pre @ ''b''"]) (use assms in simp_all)
  have u: "usize_add (pos + 1) (usize_add 4 (as_usize (int (length s)))) = pos + 5 + length s"
    using assms by (simp add: as_usize_nonneg usize_add_small)
  have k: "pos < length b" "b ! pos = CHR ''b''" using assms by (auto simp: nth_append)
  show ?thesis using r u k by (simp add: Let_def)
qed

lemma read_columns_enc:
  assumes "b = pre @ enc_cells cs @ post" "length pre = pos" "list_all (\<lambda>c. cell_size c < 2 ^ 31) cs" "length b < 2 ^ 63"
  shows "read_columns cols b (length cs) i pos m = Ok (row_from cols i cs m, pos + length (enc_cells cs))"
  using assms
proof (induction cs arbitrary: pre pos i m)
  case (Cons c cs)
  have k: "pos < length b" "b ! pos = hd (enc_cell c)"
    using Cons.prems by (cases c; auto simp: nth_append)+
  let ?m = "case cell_json c of None \<Rightarrow> m | Some v \<Rightarrow> jmap_insert (column_name cols i) v m"
  have "read_columns cols b (length (c # cs)) i pos m = read_columns cols b (length cs) (i + 1) (pos + length (enc_cell c)) ?m"
  proof (cases c)
    case (CText s)
    then show ?thesis
      using read_cell_text [of b pre s "enc_cells cs @ post" pos cols "length cs" i m] Cons.prems by (simp add: add.commute add.left_commute)
  next
    case (CBinary s)
    then show ?thesis
      using read_cell_binary [of b pre s "enc_cells cs @ post" pos cols "length cs" i m] Cons.prems by (simp add: add.commute add.left_commute)
  qed (use k in \<open>simp_all add: Let_def\<close>)
  also have "\<dots> = Ok (row_from cols (i + 1) cs ?m, pos + length (enc_cell c) + length (enc_cells cs))"
    by (rule Cons.IH [of "pre @ enc_cell c"]) (use Cons.prems in simp_all)
  finally show ?case by (simp add: add.assoc)
qed simp

lemma read_tuple_enc:
  assumes "b = pre @ enc_tuple cs @ post" "length pre = pos" "cells_fit cs" "length b < 2 ^ 63"
  shows "read_tuple cols b pos = Ok (row_from cols 0 cs [], pos + length (enc_tuple cs))"
proof -
  have "read_u16 b pos = Ok (length cs)"
    by (rule read_u16_at [of b pre _ "enc_cells cs @ post"]) (use assms in \<open>simp_all add: enc_tuple_def cells_fit_def\<close>)
  moreover have "read_columns cols b (length cs) 0 (pos + 2) [] = Ok (row_from cols 0 cs [], pos + 2 + length (enc_cells cs))"
    by (rule read_columns_enc [of b "pre @ be_bytes 2 (length cs)" _ post]) (use assms in \<open>simp_all add: enc_tuple_def cells_fit_def\<close>)
  ultimately show ?thesis by (simp add: read_tuple_def enc_tuple_def)
qed

text \<open>A tuple cut short is refused, unless a binary value is cut, whose body is not looked at.\<close>

lemma read_columns_cut:
  assumes "b = pre @ take k (enc_cells cs)" "length pre = pos" "list_all (\<lambda>c. cell_size c < 2 ^ 31) cs"
    "list_all (\<lambda>c. \<nexists>s. c = CBinary s) cs" "length b < 2 ^ 63" "k < length (enc_cells cs)"
  shows "\<not> is_ok (read_columns cols b (length cs) i pos m)"
  using assms
proof (induction cs arbitrary: pre pos i m k)
  case (Cons c cs)
  show ?case
  proof (cases "k < length (enc_cell c)")
    case cut: True
    then have b: "b = pre @ take k (enc_cell c)" using Cons.prems by simp
    show ?thesis
    proof (cases "k = 0")
      case True
      then show ?thesis using b Cons.prems(2) by simp
    next
      case False
      with cut Cons.prems obtain s where c: "c = CText s" by (cases c) auto
      have k: "pos < length b" "b ! pos = CHR ''t''" using b False Cons.prems(2) by (auto simp: c nth_append take_Cons')
      have len: "length b = pos + k" using b cut Cons.prems(2) by simp
      show ?thesis
      proof (cases "k < 5")
        case True
        then have "read_i32 b (pos + 1) = Err (''pgoutput truncated (i32 at '' @ show_nat (pos + 1) @ '')'')"
          using len by (simp add: read_i32_def slice_get_short)
        then show ?thesis using k by (simp add: Let_def)
      next
        case False
        then obtain j where j: "k = 5 + j" by (metis le_add_diff_inverse not_less)
        have "b = (pre @ ''t'') @ be_bytes 4 (length s) @ take j s" using b j by (simp add: c take_Cons')
        then have r: "read_i32 b (pos + 1) = Ok (int (length s))"
          by (rule read_i32_at) (use Cons.prems c in simp_all)
        have u: "usize_add (pos + 1 + 4) (as_usize (int (length s))) = pos + 5 + length s"
          using Cons.prems c len j cut by (simp add: as_usize_nonneg usize_add_small)
        have "slice_get b (pos + 1 + 4) (pos + 5 + length s) = None"
          using len cut by (intro slice_get_short) (simp add: c)
        then show ?thesis using r u k by (simp add: Let_def)
      qed
    qed
  next
    case False
    let ?k = "k - length (enc_cell c)"
    have b: "b = (pre @ enc_cell c) @ take ?k (enc_cells cs)" using Cons.prems(1) False by simp
    have kd: "pos < length b" "b ! pos = hd (enc_cell c)" using b Cons.prems(2) by (cases c; auto simp: nth_append)+
    let ?m = "case cell_json c of None \<Rightarrow> m | Some v \<Rightarrow> jmap_insert (column_name cols i) v m"
    have "read_columns cols b (length (c # cs)) i pos m = read_columns cols b (length cs) (i + 1) (pos + length (enc_cell c)) ?m"
    proof (cases c)
      case (CText s)
      then have "b = pre @ CHR ''t'' # be_bytes 4 (length s) @ s @ take ?k (enc_cells cs)" "length s < 2 ^ 31"
        using b Cons.prems(3) by simp_all
      from read_cell_text [OF this(1) Cons.prems(2) this(2) Cons.prems(5), of cols "length cs" i m]
      show ?thesis using CText by (simp del: read_columns.simps add: add.commute add.left_commute)
    qed (use kd Cons.prems in \<open>simp_all add: Let_def\<close>)
    moreover have "\<not> is_ok (read_columns cols b (length cs) (i + 1) (pos + length (enc_cell c)) ?m)"
      by (rule Cons.IH [OF b]) (use Cons.prems False in auto)
    ultimately show ?thesis by simp
  qed
qed simp

section \<open>Decoding messages\<close>

lemma until_nul_at: "NUL \<notin> set s \<Longrightarrow> until_nul (s @ NUL # post) = Some s"
proof (induction s)
  case (Cons c s)
  have "of_char c \<noteq> (0 :: nat)"
  proof
    assume "of_char c = (0 :: nat)"
    then have "c = NUL" unfolding NUL_def by (metis char_of_char)
    with Cons.prems show False by simp
  qed
  with Cons show ?case by simp
qed (simp add: NUL_def)

lemma read_cstr_at:
  "b = pre @ s @ NUL # post \<Longrightarrow> length pre = pos \<Longrightarrow> NUL \<notin> set s \<Longrightarrow>
     read_cstr b pos = Ok (from_utf8_lossy s, pos + length s + 1)"
  by (simp add: read_cstr_def until_nul_at)

definition column_ok :: "char \<times> str \<times> bytes \<Rightarrow> bool" where
  "column_ok c \<longleftrightarrow> NUL \<notin> set (fst (snd c)) \<and> utf8_valid (fst (snd c)) \<and> length (snd (snd c)) = 8"

lemma relation_columns_enc:
  assumes "b = pre @ concat (map enc_column cols) @ post" "length pre = pos" "list_all column_ok cols"
  shows "relation_columns b (length cols) pos names = Ok (names @ map (fst \<circ> snd) cols)"
  using assms
proof (induction cols arbitrary: pre pos names)
  case (Cons c cols)
  obtain f n t where c: "c = (f, n, t)" by (cases c)
  have "read_cstr b (pos + 1) = Ok (from_utf8_lossy n, pos + 1 + length n + 1)"
    by (rule read_cstr_at [of b "pre @ [f]" n "t @ concat (map enc_column cols) @ post"])
      (use Cons.prems in \<open>simp_all add: c column_ok_def\<close>)
  moreover have "relation_columns b (length cols) (pos + 1 + length n + 1 + 8) (names @ [n]) = Ok ((names @ [n]) @ map (fst \<circ> snd) cols)"
    by (rule Cons.IH [of "pre @ f # n @ [NUL] @ t"]) (use Cons.prems in \<open>simp_all add: c column_ok_def\<close>)
  ultimately show ?case using Cons.prems by (simp add: c column_ok_def from_utf8_lossy_valid)
qed simp

lemma decode_relation_msg:
  assumes "rel < 2 ^ 32" "NUL \<notin> set ns" "NUL \<notin> set name" "utf8_valid name" "list_all column_ok cols" "length cols < 2 ^ 16"
  shows "decode_logical (relation_msg rel ns name ident cols) cache =
    (Ok Meta, cache(rel \<mapsto> (name, map (fst \<circ> snd) cols)))"
proof -
  let ?b = "relation_msg rel ns name ident cols"
  let ?tail = "concat (map enc_column cols)"
  let ?p1 = "5 + length ns + 1" let ?p2 = "?p1 + length name + 1"
  have "read_u32 ?b 1 = Ok rel"
    by (rule read_u32_at [of _ "''R''"]) (use assms in \<open>simp_all add: relation_msg_def\<close>)
  moreover have "read_cstr ?b 5 = Ok (from_utf8_lossy ns, ?p1)"
    by (rule read_cstr_at [of _ "''R'' @ be_bytes 4 rel"]) (use assms in \<open>simp_all add: relation_msg_def\<close>)
  moreover have "read_cstr ?b ?p1 = Ok (from_utf8_lossy name, ?p2)"
    by (rule read_cstr_at [of _ "''R'' @ be_bytes 4 rel @ ns @ [NUL]"]) (use assms in \<open>simp_all add: relation_msg_def\<close>)
  moreover have "read_u16 ?b (?p2 + 1) = Ok (length cols)"
    by (rule read_u16_at [of _ "''R'' @ be_bytes 4 rel @ ns @ [NUL] @ name @ [NUL] @ [ident]" _ ?tail])
      (use assms in \<open>simp_all add: relation_msg_def\<close>)
  moreover have "relation_columns ?b (length cols) (?p2 + 3) [] = Ok ([] @ map (fst \<circ> snd) cols)"
    by (rule relation_columns_enc [of _ "''R'' @ be_bytes 4 rel @ ns @ [NUL] @ name @ [NUL] @ [ident] @ be_bytes 2 (length cols)" _ "[]"])
      (use assms in \<open>simp_all add: relation_msg_def\<close>)
  ultimately have "decode_relation ?b = Ok (rel, name, map (fst \<circ> snd) cols)"
    using assms(4) by (simp add: decode_relation_def from_utf8_lossy_valid)
  then show ?thesis by (simp add: decode_logical_def) (simp add: relation_msg_def)
qed

lemma decode_insert_msg:
  assumes "cache rel = Some (table, cols)" "rel < 2 ^ 32" "cells_fit new" "length (insert_msg rel new) < 2 ^ 63"
  shows "decode_logical (insert_msg rel new) cache =
    (Ok (Row \<lparr>rw_table = table, rw_op = OpInsert, rw_old = None, rw_new = Some (row_of cols new)\<rparr>), cache)"
proof -
  let ?b = "insert_msg rel new"
  have "read_u32 ?b 1 = Ok rel"
    by (rule read_u32_at [of _ "''I''"]) (use assms in \<open>simp_all add: insert_msg_def\<close>)
  moreover have "read_tuple cols ?b 6 = Ok (row_from cols 0 new [], 6 + length (enc_tuple new))"
    by (rule read_tuple_enc [of _ "''I'' @ be_bytes 4 rel @ ''N''" _ "[]"]) (use assms in \<open>simp_all add: insert_msg_def\<close>)
  moreover have "?b \<noteq> []" "hd ?b = CHR ''I''" "5 < length ?b" "?b ! 5 = CHR ''N''"
    by (simp_all add: insert_msg_def nth_append)
  ultimately show ?thesis using assms(1) by (simp add: decode_logical_def decode_row_def decode_insert_def byte_of_def)
qed

lemma decode_delete_msg:
  assumes "cache rel = Some (table, cols)" "rel < 2 ^ 32" "cells_fit old" "tag \<in> {CHR ''K'', CHR ''O''}"
    "length (delete_msg rel tag old) < 2 ^ 63"
  shows "decode_logical (delete_msg rel tag old) cache =
    (Ok (Row \<lparr>rw_table = table, rw_op = OpDelete, rw_old = Some (row_of cols old), rw_new = None\<rparr>), cache)"
proof -
  let ?b = "delete_msg rel tag old"
  have "read_u32 ?b 1 = Ok rel"
    by (rule read_u32_at [of _ "''D''"]) (use assms in \<open>simp_all add: delete_msg_def\<close>)
  moreover have "read_tuple cols ?b 6 = Ok (row_from cols 0 old [], 6 + length (enc_tuple old))"
    by (rule read_tuple_enc [of _ "''D'' @ be_bytes 4 rel @ [tag]" _ "[]"]) (use assms in \<open>simp_all add: delete_msg_def\<close>)
  moreover have "?b \<noteq> []" "hd ?b = CHR ''D''" "5 < length ?b" "?b ! 5 = tag"
    by (simp_all add: delete_msg_def nth_append)
  ultimately show ?thesis using assms(1,4) by (auto simp: decode_logical_def decode_row_def decode_delete_def byte_of_def)
qed

lemma decode_update_msg:
  assumes "cache rel = Some (table, cols)" "rel < 2 ^ 32" "cells_fit new"
    "\<And>tag cs. old = Some (tag, cs) \<Longrightarrow> tag \<in> {CHR ''K'', CHR ''O''} \<and> cells_fit cs"
    "length (update_msg rel old new) < 2 ^ 63"
  shows "decode_logical (update_msg rel old new) cache =
    (Ok (Row \<lparr>rw_table = table, rw_op = OpUpdate, rw_old = map_option (\<lambda>(tag, cs). row_of cols cs) old,
              rw_new = Some (row_of cols new)\<rparr>), cache)"
proof -
  let ?b = "update_msg rel old new"
  have r: "read_u32 ?b 1 = Ok rel"
    by (rule read_u32_at [of _ "''U''"]) (use assms in \<open>simp_all add: update_msg_def\<close>)
  have h: "?b \<noteq> []" "hd ?b = CHR ''U''" "5 < length ?b" by (auto simp: update_msg_def)
  show ?thesis
  proof (cases old)
    case None
    have "read_tuple cols ?b 6 = Ok (row_from cols 0 new [], 6 + length (enc_tuple new))"
      by (rule read_tuple_enc [of _ "''U'' @ be_bytes 4 rel @ ''N''" _ "[]"])
        (use assms None in \<open>simp_all add: update_msg_def\<close>)
    moreover have "?b ! 5 = CHR ''N''" by (simp add: update_msg_def None nth_append)
    ultimately show ?thesis using r h assms(1) None
      by (simp add: decode_logical_def decode_row_def decode_update_def byte_of_def)
  next
    case (Some p)
    obtain tag cs where p: "old = Some (tag, cs)" using Some by (cases p) auto
    have t: "tag \<in> {CHR ''K'', CHR ''O''}" "cells_fit cs" using assms(4) [OF p] by auto
    let ?next = "6 + length (enc_tuple cs)"
    have "read_tuple cols ?b 6 = Ok (row_from cols 0 cs [], ?next)"
      by (rule read_tuple_enc [of _ "''U'' @ be_bytes 4 rel @ [tag]" _ "''N'' @ enc_tuple new"])
        (use assms t in \<open>simp_all add: update_msg_def p\<close>)
    moreover have "read_tuple cols ?b (?next + 1) = Ok (row_from cols 0 new [], ?next + 1 + length (enc_tuple new))"
      by (rule read_tuple_enc [of _ "''U'' @ be_bytes 4 rel @ [tag] @ enc_tuple cs @ ''N''" _ "[]"])
        (use assms in \<open>simp_all add: update_msg_def p\<close>)
    moreover have "?b ! 5 = tag" "?next < length ?b" "?b ! ?next = CHR ''N''"
      by (auto simp: update_msg_def p nth_append)
    ultimately show ?thesis using r h assms(1) t p
      by (auto simp: decode_logical_def decode_row_def decode_update_def byte_of_def)
  qed
qed

section \<open>Rows\<close>

text \<open>The object read from a tuple says of every column what its cell says.\<close>

lemma row_from_other:
  "(\<forall>j < length cs. column_name cols (i + j) \<noteq> x) \<Longrightarrow> map_of (row_from cols i cs m) x = map_of m x"
proof (induction cs arbitrary: i m)
  case (Cons c cs)
  have "column_name cols i \<noteq> x" using Cons.prems by (metis add.right_neutral length_greater_0_conv list.distinct(1))
  moreover have "\<forall>j < length cs. column_name cols (i + 1 + j) \<noteq> x"
    using Cons.prems by (metis Suc_eq_plus1 Suc_less_eq add.assoc add.commute length_Cons)
  ultimately show ?case using Cons.IH [of "i + 1"] by (simp split: option.splits)
qed simp

lemma row_from_lookup:
  assumes "distinct cols" "i + length cs \<le> length cols" "j < length cs" "\<forall>k. i \<le> k \<and> k < length cols \<longrightarrow> map_of m (cols ! k) = None"
  shows "map_of (row_from cols i cs m) (cols ! (i + j)) = cell_json (cs ! j)"
  using assms
proof (induction cs arbitrary: i j m)
  case (Cons c cs)
  let ?m = "case cell_json c of None \<Rightarrow> m | Some v \<Rightarrow> jmap_insert (column_name cols i) v m"
  have names: "column_name cols k = cols ! k" if "k < length cols" for k using that by (simp add: column_name_def)
  show ?case
  proof (cases j)
    case 0
    have "\<forall>j < length cs. column_name cols (i + 1 + j) \<noteq> cols ! i"
      using Cons.prems(1,2) by (auto simp: names nth_eq_iff_index_eq)
    from row_from_other [OF this] Cons.prems 0 show ?thesis
      by (auto simp: names split: option.splits)
  next
    case (Suc j')
    have "map_of ?m (cols ! k) = None" if "i + 1 \<le> k" "k < length cols" for k
      using Cons.prems that by (auto simp: names nth_eq_iff_index_eq split: option.splits)
    then show ?thesis using Cons.IH [of "i + 1" j' ?m] Cons.prems Suc by simp
  qed
qed simp

lemma row_of_lookup:
  "distinct cols \<Longrightarrow> length cs = length cols \<Longrightarrow> j < length cols \<Longrightarrow>
     json_get (row_of cols cs) (cols ! j) = cell_json (cs ! j)"
  using row_from_lookup [of cols 0 cs j "[]"] by (simp add: json_get_def)

definition rows_agree :: "str list \<Rightarrow> cell list \<Rightarrow> json option \<Rightarrow> bool" where
  "rows_agree cols cs row \<longleftrightarrow>
     (case row of None \<Rightarrow> False
      | Some v \<Rightarrow> list_all2 (\<lambda>col c. json_get v col = cell_json c) cols cs)"

lemma rows_agree_row_of: "distinct cols \<Longrightarrow> length cs = length cols \<Longrightarrow> rows_agree cols cs (Some (row_of cols cs))"
  by (simp add: rows_agree_def list_all2_conv_all_nth row_of_lookup)

text \<open>What a change message may say about a relation with \<open>n\<close> columns.\<close>

definition tuple_ok :: "nat \<Rightarrow> cell list \<Rightarrow> bool" where
  "tuple_ok n cs \<longleftrightarrow> length cs = n \<and> cells_fit cs"

text \<open>C17: Decoding inverts the wire format. After a relation message the cache holds the table and its
  columns; an insert, an update (with or without the old tuple, under either identity tag) and a delete of
  that relation then decode to a row of that table, with exactly the tuples that were sent: each column
  reads null, its text, or nothing, as its cell says, and the cache stays as it is.
\<close>

theorem pgoutput_roundtrip:
  assumes "rel < 2 ^ 32" "NUL \<notin> set ns" "NUL \<notin> set name" "utf8_valid name" "list_all column_ok cs" "length cs < 2 ^ 16"
    and "cols = map (fst \<circ> snd) cs" "distinct cols" "tuple_ok (length cols) old" "tuple_ok (length cols) new"
    and "tag \<in> {CHR ''K'', CHR ''O''}" "length (update_msg rel (Some (tag, old)) new) < 2 ^ 63"
    and "cache' = snd (decode_logical (relation_msg rel ns name ident cs) cache)"
  shows "fst (decode_logical (relation_msg rel ns name ident cs) cache) = Ok Meta \<and> cache' = cache(rel \<mapsto> (name, cols)) \<and>
    (\<exists>o_row n_row. rows_agree cols old (Some o_row) \<and> rows_agree cols new (Some n_row) \<and>
       decode_logical (insert_msg rel new) cache' = (Ok (Row \<lparr>rw_table = name, rw_op = OpInsert, rw_old = None, rw_new = Some n_row\<rparr>), cache') \<and>
       decode_logical (update_msg rel None new) cache' = (Ok (Row \<lparr>rw_table = name, rw_op = OpUpdate, rw_old = None, rw_new = Some n_row\<rparr>), cache') \<and>
       decode_logical (update_msg rel (Some (tag, old)) new) cache' =
         (Ok (Row \<lparr>rw_table = name, rw_op = OpUpdate, rw_old = Some o_row, rw_new = Some n_row\<rparr>), cache') \<and>
       decode_logical (delete_msg rel tag old) cache' = (Ok (Row \<lparr>rw_table = name, rw_op = OpDelete, rw_old = Some o_row, rw_new = None\<rparr>), cache'))"
proof -
  note rel = decode_relation_msg [OF assms(1-6), of ident cache]
  have c: "cache' = cache(rel \<mapsto> (name, cols))" using rel assms(7,13) by simp
  then have c': "cache' rel = Some (name, cols)" by simp
  have o: "cells_fit old" "length old = length cols" and n: "cells_fit new" "length new = length cols"
    using assms(9,10) by (simp_all add: tuple_ok_def)
  have len: "length (insert_msg rel new) < 2 ^ 63" "length (update_msg rel None new) < 2 ^ 63" "length (delete_msg rel tag old) < 2 ^ 63"
    using assms(12) by (simp_all add: insert_msg_def update_msg_def delete_msg_def)
  note decode_insert_msg [where cache = cache' and rel = rel, OF c' assms(1) n(1) len(1)] decode_delete_msg [where cache = cache' and rel = rel, OF c' assms(1) o(1) assms(11) len(3)]
    decode_update_msg [where cache = cache' and rel = rel and old = None, OF c' assms(1) n(1) _ len(2)]
    decode_update_msg [where cache = cache' and rel = rel and old = "Some (tag, old)", OF c' assms(1) n(1) _ assms(12)]
  moreover have "fst (decode_logical (relation_msg rel ns name ident cs) cache) = Ok Meta" using rel by simp
  moreover have "rows_agree cols old (Some (row_of cols old))" "rows_agree cols new (Some (row_of cols new))"
    using assms(8) o(2) n(2) by (simp_all add: rows_agree_row_of)
  ultimately show ?thesis using c o(1) assms(11) by auto
qed

section \<open>Truncated messages\<close>

lemma read_tuple_cut:
  assumes "b = pre @ take k (enc_tuple cs)" "length pre = pos" "cells_fit cs"
    "list_all (\<lambda>c. \<nexists>s. c = CBinary s) cs" "length b < 2 ^ 63" "k < length (enc_tuple cs)"
  shows "\<exists>e. read_tuple cols b pos = Err e"
proof (cases "k < 2")
  case True
  then have "length b < pos + 2" using assms by simp
  then show ?thesis by (simp add: read_tuple_def read_u16_def slice_get_short)
next
  case False
  then obtain j where j: "k = 2 + j" by (metis le_add_diff_inverse not_less)
  have b: "b = (pre @ be_bytes 2 (length cs)) @ take j (enc_cells cs)" using assms(1) j by (simp add: enc_tuple_def)
  have u: "read_u16 b pos = Ok (length cs)"
    by (rule read_u16_at [of b pre _ "take j (enc_cells cs)"]) (use b assms in \<open>simp_all add: cells_fit_def\<close>)
  have "\<not> is_ok (read_columns cols b (length cs) 0 (pos + 2) [])"
    by (rule read_columns_cut [OF b]) (use assms j in \<open>simp_all add: cells_fit_def enc_tuple_def\<close>)
  then show ?thesis using u by (cases "read_columns cols b (length cs) 0 (pos + 2) []") (simp_all add: read_tuple_def)
qed

text \<open>The head of a row message: its kind and the relation.\<close>

lemma decode_cut_head:
  assumes "b = take k (kind # be_bytes 4 rel @ tag # rest)" "k < 6" "kind \<in> set ''IUD''" "cache rel = Some (table, cols)" "rel < 2 ^ 32"
  shows "\<exists>e. decode_logical b cache = (Err e, cache)"
proof (cases "k = 0")
  case True
  then show ?thesis using assms by (simp add: decode_logical_def)
next
  case k: False
  then have h: "b \<noteq> []" "hd b = kind" using assms(1) by (auto simp: take_Cons')
  show ?thesis
  proof (cases "k < 5")
    case True
    have "length b < 1 + 4" using assms(1) True by simp
    then have "read_u32 b 1 = Err (''pgoutput truncated (u32 at '' @ show_nat 1 @ '')'')"
      by (simp add: read_u32_def slice_get_short)
    then show ?thesis using h assms(3) by (auto simp: decode_logical_def decode_row_def)
  next
    case False
    then have k5: "k = 5" using assms(2) by simp
    then have b: "b = [kind] @ be_bytes 4 rel @ []" using assms(1) by simp
    have "read_u32 b 1 = Ok rel" by (rule read_u32_at [OF b]) (use assms in simp_all)
    moreover have "length b = 5" using b by simp
    ultimately show ?thesis using h assms(3,4)
      by (auto simp: decode_logical_def decode_row_def decode_insert_def decode_update_def decode_delete_def byte_of_def)
  qed
qed

definition no_binary :: "cell list \<Rightarrow> bool" where
  "no_binary cs \<longleftrightarrow> list_all (\<lambda>c. \<nexists>s. c = CBinary s) cs"

lemma decode_cut_insert:
  assumes "cache rel = Some (table, cols)" "rel < 2 ^ 32" "cells_fit new" "no_binary new"
    "length (insert_msg rel new) < 2 ^ 63" "k < length (insert_msg rel new)"
  shows "\<exists>e. decode_logical (take k (insert_msg rel new)) cache = (Err e, cache)"
proof (cases "k < 6")
  case True
  show ?thesis by (rule decode_cut_head [where cache = cache and rel = rel and k = k and kind = "CHR ''I''" and tag = "CHR ''N''" and rest = "enc_tuple new", OF _ True _ assms(1,2)]) (simp_all add: insert_msg_def)
next
  case False
  then obtain j where j: "k = 6 + j" by (metis le_add_diff_inverse not_less)
  let ?b = "take k (insert_msg rel new)"
  have b: "?b = (''I'' @ be_bytes 4 rel @ ''N'') @ take j (enc_tuple new)" by (simp add: insert_msg_def j take_Cons')
  have "read_u32 ?b 1 = Ok rel" by (rule read_u32_at [of _ "''I''" _ "''N'' @ take j (enc_tuple new)"]) (use b assms in simp_all)
  moreover obtain e where "read_tuple cols ?b 6 = Err e"
    using read_tuple_cut [OF b, of 6 cols] assms j by (auto simp: insert_msg_def no_binary_def)
  moreover have "?b \<noteq> []" "hd ?b = CHR ''I''" "5 < length ?b" "?b ! 5 = CHR ''N''" unfolding b by (simp_all add: nth_append)
  ultimately show ?thesis using assms(1) by (simp add: decode_logical_def decode_row_def decode_insert_def byte_of_def)
qed

lemma decode_cut_delete:
  assumes "cache rel = Some (table, cols)" "rel < 2 ^ 32" "cells_fit old" "no_binary old" "tag \<in> {CHR ''K'', CHR ''O''}"
    "length (delete_msg rel tag old) < 2 ^ 63" "k < length (delete_msg rel tag old)"
  shows "\<exists>e. decode_logical (take k (delete_msg rel tag old)) cache = (Err e, cache)"
proof (cases "k < 6")
  case True
  show ?thesis by (rule decode_cut_head [where cache = cache and rel = rel and k = k and kind = "CHR ''D''" and tag = "tag" and rest = "enc_tuple old", OF _ True _ assms(1,2)]) (simp_all add: delete_msg_def)
next
  case False
  then obtain j where j: "k = 6 + j" by (metis le_add_diff_inverse not_less)
  let ?b = "take k (delete_msg rel tag old)"
  have b: "?b = (''D'' @ be_bytes 4 rel @ [tag]) @ take j (enc_tuple old)" by (simp add: delete_msg_def j take_Cons')
  have "read_u32 ?b 1 = Ok rel" by (rule read_u32_at [of _ "''D''" _ "[tag] @ take j (enc_tuple old)"]) (use b assms in simp_all)
  moreover obtain e where "read_tuple cols ?b 6 = Err e"
    using read_tuple_cut [OF b, of 6 cols] assms j by (auto simp: delete_msg_def no_binary_def)
  moreover have "?b \<noteq> []" "hd ?b = CHR ''D''" "5 < length ?b" "?b ! 5 = tag" unfolding b by (simp_all add: nth_append)
  ultimately show ?thesis using assms(1,5) by (auto simp: decode_logical_def decode_row_def decode_delete_def byte_of_def)
qed

lemma decode_cut_update:
  assumes "cache rel = Some (table, cols)" "rel < 2 ^ 32" "cells_fit new" "no_binary new"
    "\<And>tag cs. old = Some (tag, cs) \<Longrightarrow> tag \<in> {CHR ''K'', CHR ''O''} \<and> cells_fit cs \<and> no_binary cs"
    "length (update_msg rel old new) < 2 ^ 63" "k < length (update_msg rel old new)"
  shows "\<exists>e. decode_logical (take k (update_msg rel old new)) cache = (Err e, cache)"
proof (cases "k < 6")
  case True
  then show ?thesis
  proof (cases old)
    case None
    then show ?thesis
      by (intro decode_cut_head [where cache = cache and rel = rel and k = k and kind = "CHR ''U''" and tag = "CHR ''N''" and rest = "enc_tuple new", OF _ True _ assms(1,2)]) (simp_all add: update_msg_def)
  next
    case (Some p)
    obtain tag cs where "p = (tag, cs)" by (cases p)
    with Some show ?thesis
      by (intro decode_cut_head [where cache = cache and rel = rel and k = k and kind = "CHR ''U''" and tag = "tag" and rest = "enc_tuple cs @ ''N'' @ enc_tuple new", OF _ True _ assms(1,2)]) (simp_all add: update_msg_def)
  qed
next
  case False
  then obtain j where j: "k = 6 + j" by (metis le_add_diff_inverse not_less)
  let ?b = "take k (update_msg rel old new)"
  note dec = decode_logical_def decode_row_def decode_update_def byte_of_def
  show ?thesis
  proof (cases old)
    case None
    have b: "?b = (''U'' @ be_bytes 4 rel @ ''N'') @ take j (enc_tuple new)" by (simp add: update_msg_def None j take_Cons')
    have "read_u32 ?b 1 = Ok rel" by (rule read_u32_at [of _ "''U''" _ "''N'' @ take j (enc_tuple new)"]) (use b assms in simp_all)
    moreover obtain e where "read_tuple cols ?b 6 = Err e"
      using read_tuple_cut [OF b, of 6 cols] assms j None by (auto simp: update_msg_def no_binary_def)
    moreover have "?b \<noteq> []" "hd ?b = CHR ''U''" "5 < length ?b" "?b ! 5 = CHR ''N''" unfolding b by (simp_all add: nth_append)
    ultimately show ?thesis using assms(1) by (simp add: dec)
  next
    case (Some p)
    obtain tag cs where p: "old = Some (tag, cs)" using Some by (cases p) auto
    have t: "tag \<in> {CHR ''K'', CHR ''O''}" "cells_fit cs" "no_binary cs" using assms(5) [OF p] by auto
    let ?h = "''U'' @ be_bytes 4 rel @ [tag]"
    have b: "?b = ?h @ take j (enc_tuple cs @ ''N'' @ enc_tuple new)" by (simp add: update_msg_def p j take_Cons')
    have r: "read_u32 ?b 1 = Ok rel"
      by (rule read_u32_at [of _ "''U''" _ "[tag] @ take j (enc_tuple cs @ ''N'' @ enc_tuple new)"]) (use b assms in simp_all)
    have h: "?b \<noteq> []" "hd ?b = CHR ''U''" "5 < length ?b" "?b ! 5 = tag" unfolding b by (simp_all add: nth_append)
    have lb: "length ?b < 2 ^ 63" using assms(6,7) by simp
    show ?thesis
    proof (cases "j < length (enc_tuple cs)")
      case True
      then have b': "?b = ?h @ take j (enc_tuple cs)" using b by simp
      obtain e where "read_tuple cols ?b 6 = Err e"
        using read_tuple_cut [OF b', of 6 cols] t lb True by (auto simp: no_binary_def)
      then show ?thesis using r h assms(1) t by (auto simp: dec)
    next
      case after: False
      then obtain i where i: "j = length (enc_tuple cs) + i" by (metis le_add_diff_inverse not_less)
      have b': "?b = ?h @ enc_tuple cs @ take i (''N'' @ enc_tuple new)" using b i by simp
      let ?next = "6 + length (enc_tuple cs)"
      have old: "read_tuple cols ?b 6 = Ok (row_from cols 0 cs [], ?next)"
        by (rule read_tuple_enc [OF b']) (use t lb in simp_all)
      show ?thesis
      proof (cases i)
        case 0
        then have "length ?b = ?next" using b' by simp
        then show ?thesis using r h old assms(1) t by (auto simp: dec)
      next
        case (Suc i')
        then have b2: "?b = (?h @ enc_tuple cs @ ''N'') @ take i' (enc_tuple new)" using b' by simp
        have n: "?next < length ?b" "?b ! ?next = CHR ''N''" unfolding b2 by (simp_all add: nth_append)
        obtain e where "read_tuple cols ?b (?next + 1) = Err e"
          using read_tuple_cut [OF b2, of "?next + 1" cols] assms j i Suc lb p by (auto simp: update_msg_def no_binary_def)
        then show ?thesis using r h old n assms(1) t by (auto simp: dec)
      qed
    qed
  qed
qed

text \<open>C18: A row message that is cut short anywhere never becomes a row: for every proper prefix of an
  insert, update or delete of a cached relation, with text tuples, the decoder reports an error and
  leaves the cache alone.
\<close>

theorem truncated_row_refused:
  assumes "cache rel = Some (table, cols)" "rel < 2 ^ 32" "cells_fit new" "no_binary new" "cells_fit old" "no_binary old"
    and "tag \<in> {CHR ''K'', CHR ''O''}"
    and "msg \<in> {insert_msg rel new, update_msg rel None new, update_msg rel (Some (tag, old)) new, delete_msg rel tag old}"
    and "length msg < 2 ^ 63" "k < length msg"
  shows "\<exists>e. decode_logical (take k msg) cache = (Err e, cache)"
  using assms decode_cut_insert [where cache = cache and rel = rel, OF assms(1-4)]
    decode_cut_delete [where cache = cache and rel = rel, OF assms(1,2,5-7)]
    decode_cut_update [where cache = cache and rel = rel and old = None, OF assms(1-4)]
    decode_cut_update [where cache = cache and rel = rel and old = "Some (tag, old)", OF assms(1-4)]
  by auto

text \<open>
  The readers are meant not to panic on a bad frame. A negative length makes the addition of a debug
  build overflow, which panics; in a release build the sum wraps to before the offset.
\<close>

lemma negative_length_overflows:
  assumes "i < 0" "- int pos \<le> i" "pos < 2 ^ 63"
  shows "overflows pos (as_usize i) \<and> usize_add pos (as_usize i) < pos"
proof -
  define n where "n = nat (- i)"
  have n: "i = - int n" "0 < n" "n \<le> pos" using assms by (simp_all add: n_def nat_le_iff)
  have "i mod 2 ^ 64 = 2 ^ 64 - int n"
    using n assms(3) by (simp add: zmod_zminus1_eq_if)
  then have a: "as_usize i = 2 ^ 64 - n" unfolding as_usize_def using n assms(3) by (simp add: nat_diff_distrib')
  obtain q where q: "pos = q + n" using n(3) by (metis le_add_diff_inverse2)
  have "pos + (2 ^ 64 - n) = q + 2 ^ 64" using q assms(3) by simp
  then have "usize_add pos (as_usize i) = q" "overflows pos (as_usize i)"
    using q assms(3) unfolding a usize_add_def overflows_def by simp_all
  then show ?thesis using q n(2) by simp
qed

section \<open>Witnesses\<close>

definition lead_columns :: "(char \<times> str \<times> bytes) list" where
  "lead_columns = [(NUL, ''id'', replicate 8 NUL), (NUL, ''note'', replicate 8 NUL)]"

lemma lead_text: "utf8_valid ''id''" "utf8_valid ''note''" "utf8_valid ''lead''"
  "NUL \<notin> set ''id''" "NUL \<notin> set ''note''" "NUL \<notin> set ''public''" "NUL \<notin> set ''lead''"
  by code_simp+

lemma lead_ok:
  "list_all column_ok lead_columns" "length lead_columns < 2 ^ 16" "map (fst \<circ> snd) lead_columns = [''id'', ''note'']"
  using lead_text by (simp_all add: lead_columns_def column_ok_def)

theorem pgoutput_roundtrip_witness:
  "decode_logical (insert_msg 7 [CText ''42'', CNull]) (snd (decode_logical (relation_msg 7 ''public'' ''lead'' CHR ''f'' lead_columns) (\<lambda>_. None))) =
     (Ok (Row \<lparr>rw_table = ''lead'', rw_op = OpInsert, rw_old = None,
        rw_new = Some (JObject [(''id'', JString ''42''), (''note'', JNull)])\<rparr>), [7 \<mapsto> (''lead'', [''id'', ''note''])])"
proof -
  let ?m = "relation_msg 7 ''public'' ''lead'' CHR ''f'' lead_columns"
  let ?new = "[CText ''42'', CNull]"
  have fit: "tuple_ok 2 ?new" "tuple_ok 2 [CText ''41'', CUnchanged]" by (simp_all add: tuple_ok_def cells_fit_def)
  have len: "length (update_msg 7 (Some (CHR ''K'', [CText ''41'', CUnchanged])) ?new) < 2 ^ 63" by (simp add: update_msg_def enc_tuple_def)
  have small: "(7 :: nat) < 2 ^ 32" "distinct [''id'', ''note'']" "CHR ''K'' \<in> {CHR ''K'', CHR ''O''}" by simp_all
  have "2 = length [''id'', ''note'']" by simp
  note fit' = fit [unfolded this]
  from pgoutput_roundtrip [where cache = "\<lambda>_. None" and ident = "CHR ''f''",
      OF small(1) lead_text(6,7,3) lead_ok(1,2) lead_ok(3) [symmetric] small(2) fit'(2,1) small(3) len refl]
  obtain n_row where r: "snd (decode_logical ?m (\<lambda>_. None)) = [7 \<mapsto> (''lead'', [''id'', ''note''])]"
    "decode_logical (insert_msg 7 ?new) (snd (decode_logical ?m (\<lambda>_. None))) =
      (Ok (Row \<lparr>rw_table = ''lead'', rw_op = OpInsert, rw_old = None, rw_new = Some n_row\<rparr>), snd (decode_logical ?m (\<lambda>_. None)))"
    by blast
  have "decode_logical (insert_msg 7 ?new) [7 \<mapsto> (''lead'', [''id'', ''note''])] =
     (Ok (Row \<lparr>rw_table = ''lead'', rw_op = OpInsert, rw_old = None, rw_new = Some (row_of [''id'', ''note''] ?new)\<rparr>),
      [7 \<mapsto> (''lead'', [''id'', ''note''])])"
    by (rule decode_insert_msg) (use fit in \<open>simp_all add: tuple_ok_def insert_msg_def enc_tuple_def\<close>)
  moreover have "row_of [''id'', ''note''] ?new = JObject [(''id'', JString ''42''), (''note'', JNull)]"
    by code_simp
  ultimately show ?thesis using r by simp
qed

theorem truncated_row_refused_witness:
  "\<exists>e. decode_logical (take 14 (insert_msg 7 [CText ''42'', CNull])) [7 \<mapsto> (''lead'', [''id'', ''note''])] =
     (Err e, [7 \<mapsto> (''lead'', [''id'', ''note''])])"
  by (rule truncated_row_refused [where new = "[CText ''42'', CNull]" and old = "[]" and tag = "CHR ''K''" and rel = 7])
    (simp_all add: cells_fit_def no_binary_def, simp_all add: insert_msg_def enc_tuple_def)

end
