(* ===== verification/JC_Db.thy ===== *)
theory JC_Db
  imports JC_Extract
begin

text \<open>
  The database extension, \<open>jerrycan-db/src/lib.rs\<close>: the choice of the engine by URL, the size of the
  connection pool, the placeholder translation, the mapping of database errors to \<open>JC\<close> codes, and the
  migration runner.

  The engine is a parameter: how it executes a migration's text on a schema, which of its statements
  fail (the network or the server may fail any of them), and the clock. The tracking table belongs to
  the runner, its three fixed statements are modelled; migration texts do not touch it. A transaction
  is a copy of the database that a commit stores: dropping it is the rollback, and a commit that
  reports an error has not stored anything.
\<close>

section \<open>Connections\<close>

datatype db_engine = Sqlite | Postgres

text \<open>What \<open>DbErr::sql_err\<close> tells about an error of the library.\<close>

datatype db_err = UniqueViolation str | ForeignKeyViolation str | OtherDbErr str

definition db_error :: "db_err \<Rightarrow> error" where
  "db_error e =
     (case e of
        UniqueViolation _ \<Rightarrow> conflict ''conflict: a row with this key already exists''
      | ForeignKeyViolation _ \<Rightarrow> unprocessable ''unprocessable: references a record that does not exist''
      | OtherDbErr _ \<Rightarrow> error_new 500 ''JC0510'' ''database error'')"

record conn_options =
  co_url :: str
  co_max :: nat
  co_foreign_keys :: bool

record 'c db =
  db_conn :: 'c
  db_backend :: db_engine
  db_url :: str

definition starts :: "str \<Rightarrow> str \<Rightarrow> bool" where
  "starts p s \<longleftrightarrow> take (length p) s = p"

text \<open>\<open>open_pool\<close> is the library's \<open>Database::connect\<close>.\<close>

definition connect_with_pg_pool ::
  "(conn_options \<Rightarrow> (db_err, 'c) result) \<Rightarrow> str \<Rightarrow> nat \<Rightarrow> (error, 'c db) result" where
  "connect_with_pg_pool open_pool url pg_pool =
     bind_result
       (if starts ''postgres'' url then Ok Postgres
        else if starts ''sqlite'' url then Ok Sqlite
        else Err (internal (''unsupported database url scheme: `'' @ url @ ''` (sqlite:// or postgres:// in v0)'')))
       (\<lambda>be. let mx = (case be of Sqlite \<Rightarrow> 1 | Postgres \<Rightarrow> pg_pool) in
          case open_pool \<lparr>co_url = url, co_max = mx, co_foreign_keys = (be = Sqlite)\<rparr> of
            Err e \<Rightarrow> Err (db_error e)
          | Ok c \<Rightarrow> Ok \<lparr>db_conn = c, db_backend = be, db_url = url\<rparr>)"

definition db_connect :: "(conn_options \<Rightarrow> (db_err, 'c) result) \<Rightarrow> str \<Rightarrow> (error, 'c db) result" where
  "db_connect open_pool url = connect_with_pg_pool open_pool url 5"

text \<open>\<open>as u32\<close> keeps the low 32 bits.\<close>

definition resolve_pg_pool_size :: "str option \<Rightarrow> nat \<Rightarrow> nat" where
  "resolve_pg_pool_size setting cores =
     (case Option.bind setting (\<lambda>s. result_ok (parse_int 0 (2 ^ 32 - 1) (trim s))) of
        Some n \<Rightarrow> if 0 < n then nat n else max ((cores * 2) mod 2 ^ 32) 5
      | None \<Rightarrow> max ((cores * 2) mod 2 ^ 32) 5)"

text \<open>The variables of the environment, and the parallelism the system reports if it does.\<close>

definition db_from_env ::
  "(conn_options \<Rightarrow> (db_err, 'c) result) \<Rightarrow> (str \<Rightarrow> str option) \<Rightarrow> nat option \<Rightarrow> (error, 'c db) result" where
  "db_from_env open_pool vars parallelism =
     (let url = (case vars ''JERRYCAN_DATABASE_URL'' of Some u \<Rightarrow> u | None \<Rightarrow> ''sqlite::memory:'');
          cores = (case parallelism of Some n \<Rightarrow> n | None \<Rightarrow> 1)
      in connect_with_pg_pool open_pool url (resolve_pg_pool_size (vars ''JERRYCAN_DB_POOL_SIZE'') cores))"

section \<open>Placeholders\<close>

fun number_placeholders :: "nat \<Rightarrow> str \<Rightarrow> str" where
  "number_placeholders n [] = []"
| "number_placeholders n (c # cs) =
     (if c = CHR ''?'' then CHR ''$'' # show_nat (n + 1) @ number_placeholders (n + 1) cs
      else c # number_placeholders n cs)"

definition translate_placeholders :: "str \<Rightarrow> db_engine \<Rightarrow> str" where
  "translate_placeholders query be =
     (case be of Sqlite \<Rightarrow> query | Postgres \<Rightarrow> number_placeholders 0 query)"

definition db_sql :: "'c db \<Rightarrow> str \<Rightarrow> str" where
  "db_sql db query = translate_placeholders query (db_backend db)"

section \<open>Migrations\<close>

record migration =
  mg_name :: str
  mg_sqlite :: str
  mg_postgres :: str

text \<open>The table \<open>_jerrycan_migrations\<close> is absent before the first run; a row is a name with a time stamp.\<close>

record 's database =
  da_schema :: 's
  da_tracking :: "(str \<times> str) list option"

record 's db_server =
  sv_exec :: "str \<Rightarrow> 's \<Rightarrow> (db_err, 's) result"
  sv_fault :: "nat \<Rightarrow> db_err option"
  sv_clock :: "nat \<Rightarrow> nat"

text \<open>A transaction with the number of statements it has sent.\<close>

record 's txn =
  tx_data :: "'s database"
  tx_sent :: nat

definition tracked :: "'s database \<Rightarrow> (str \<times> str) list" where
  "tracked d = (case da_tracking d of None \<Rightarrow> [] | Some rows \<Rightarrow> rows)"

definition db_send ::
  "'s db_server \<Rightarrow> 's txn \<Rightarrow> ('s database \<Rightarrow> (db_err, 's database) result) \<Rightarrow> (error, 's txn) result" where
  "db_send sv tx f =
     (case (case sv_fault sv (tx_sent tx) of Some e \<Rightarrow> Err e | None \<Rightarrow> f (tx_data tx)) of
        Err e \<Rightarrow> Err (db_error e)
      | Ok d \<Rightarrow> Ok (tx\<lparr>tx_data := d, tx_sent := tx_sent tx + 1\<rparr>))"

definition create_tracking :: "'s database \<Rightarrow> 's database" where
  "create_tracking d = d\<lparr>da_tracking := Some (tracked d)\<rparr>"

definition insert_tracking :: "str \<Rightarrow> str \<Rightarrow> 's database \<Rightarrow> (db_err, 's database) result" where
  "insert_tracking name stamp d =
     (if name \<in> fst ` set (tracked d) then Err (UniqueViolation name)
      else Ok (d\<lparr>da_tracking := Some (tracked d @ [(name, stamp)])\<rparr>))"

definition chrono_free_timestamp :: "nat \<Rightarrow> str" where
  "chrono_free_timestamp secs = ''unix:'' @ show_nat secs"

definition migration_text :: "db_engine \<Rightarrow> migration \<Rightarrow> str" where
  "migration_text be m = (case be of Sqlite \<Rightarrow> mg_sqlite m | Postgres \<Rightarrow> mg_postgres m)"

definition exec_schema :: "'s db_server \<Rightarrow> str \<Rightarrow> 's database \<Rightarrow> (db_err, 's database) result" where
  "exec_schema sv sql d =
     (case sv_exec sv sql (da_schema d) of Err e \<Rightarrow> Err e | Ok s \<Rightarrow> Ok (d\<lparr>da_schema := s\<rparr>))"

fun migrate_loop ::
  "'s db_server \<Rightarrow> db_engine \<Rightarrow> migration list \<Rightarrow> str list \<Rightarrow> 's txn \<Rightarrow> (error, str list \<times> 's txn) result" where
  "migrate_loop sv be [] applied tx = Ok (applied, tx)"
| "migrate_loop sv be (m # ms) applied tx =
     bind_result (db_send sv tx Ok) (\<lambda>tx1.
       if mg_name m \<in> fst ` set (tracked (tx_data tx1)) then migrate_loop sv be ms applied tx1
       else bind_result (db_send sv tx1 (exec_schema sv (migration_text be m))) (\<lambda>tx2.
         bind_result (db_send sv tx2 (insert_tracking (mg_name m) (chrono_free_timestamp (sv_clock sv (tx_sent tx2)))))
           (\<lambda>tx3. migrate_loop sv be ms (applied @ [mg_name m]) tx3)))"

text \<open>The statements in order: \<open>BEGIN\<close>, the advisory lock on Postgres, the table, the migrations, \<open>COMMIT\<close>.\<close>

definition migrate_txn ::
  "'s db_server \<Rightarrow> db_engine \<Rightarrow> migration list \<Rightarrow> 's database \<Rightarrow> (error, str list \<times> 's txn) result" where
  "migrate_txn sv be items d =
     bind_result (db_send sv \<lparr>tx_data = d, tx_sent = 0\<rparr> Ok) (\<lambda>tx0.
     bind_result (if be = Postgres then db_send sv tx0 Ok else Ok tx0) (\<lambda>tx1.
     bind_result (db_send sv tx1 (\<lambda>d. Ok (create_tracking d))) (\<lambda>tx2.
     bind_result (migrate_loop sv be items [] tx2) (\<lambda>(applied, tx3).
     bind_result (db_send sv tx3 Ok) (\<lambda>tx4. Ok (applied, tx4))))))"

definition migrate_iter ::
  "'s db_server \<Rightarrow> db_engine \<Rightarrow> migration list \<Rightarrow> 's database \<Rightarrow> (error, str list) result \<times> 's database" where
  "migrate_iter sv be items d =
     (case migrate_txn sv be items d of
        Err e \<Rightarrow> (Err e, d)
      | Ok (applied, tx) \<Rightarrow> (Ok applied, tx_data tx))"

text \<open>
  Several nodes boot against one database: the lock (on SQLite the single writer) runs their
  transactions one after the other, each with its own release's list of migrations.
\<close>

fun boot_nodes ::
  "db_engine \<Rightarrow> ('s db_server \<times> migration list) list \<Rightarrow> 's database \<Rightarrow> (error, str list) result list \<times> 's database" where
  "boot_nodes be [] d = ([], d)"
| "boot_nodes be ((sv, items) # ns) d =
     (let (r, d1) = migrate_iter sv be items d; (rs, d2) = boot_nodes be ns d1 in (r # rs, d2))"

section \<open>Connections and placeholders\<close>

text \<open>A pool is never empty: the environment's value when positive, otherwise at least five.\<close>

lemma pool_size_positive: "0 < resolve_pg_pool_size setting cores"
  by (simp add: resolve_pg_pool_size_def less_max_iff_disj split: option.splits)

lemma sqlite_single_connection:
  assumes "connect_with_pg_pool open_pool url n = Ok db"
  shows "\<exists>opts. open_pool opts = Ok (db_conn db) \<and> co_url opts = url \<and> db_url db = url \<and>
    (db_backend db = Sqlite \<longrightarrow> co_max opts = 1 \<and> co_foreign_keys opts) \<and>
    (db_backend db = Postgres \<longrightarrow> co_max opts = n)"
  using assms
  by (auto simp: connect_with_pg_pool_def bind_result_Ok Let_def split: if_splits sum.splits)

text \<open>The reference: the pieces between the question marks, the \<open>k\<close>-th mark replaced by its number.\<close>

fun numbered :: "nat \<Rightarrow> str list \<Rightarrow> str" where
  "numbered n [] = []"
| "numbered n [p] = p"
| "numbered n (p # q # ps) = p @ CHR ''$'' # show_nat (n + 1) @ numbered (n + 1) (q # ps)"

lemma numbered_Cons: "ps \<noteq> [] \<Longrightarrow> numbered n ((c # p) # ps) = c # numbered n (p # ps)"
  by (cases ps) auto

lemma number_placeholders_numbered: "number_placeholders n s = numbered n (split_on CHR ''?'' s)"
proof (induction s arbitrary: n)
  case (Cons c s)
  obtain p ps where p: "split_on CHR ''?'' s = p # ps" by (cases "split_on CHR ''?'' s") auto
  show ?case
  proof (cases "ps = []")
    case True
    with Cons.IH p show ?thesis by (cases "c = CHR ''?''") auto
  next
    case False
    with Cons.IH p show ?thesis by (cases "c = CHR ''?''") (auto simp: numbered_Cons)
  qed
qed simp

section \<open>The migration runner\<close>

lemma db_send_Ok:
  "db_send sv tx f = Ok tx' \<longleftrightarrow>
     sv_fault sv (tx_sent tx) = None \<and> (\<exists>d. f (tx_data tx) = Ok d \<and> tx' = tx\<lparr>tx_data := d, tx_sent := tx_sent tx + 1\<rparr>)"
  by (auto simp: db_send_def split: option.splits sum.splits)

text \<open>What a run has to do: the first migration of each name that is not recorded, in order.\<close>

fun pending :: "str set \<Rightarrow> migration list \<Rightarrow> migration list" where
  "pending R [] = []"
| "pending R (m # ms) = (if mg_name m \<in> R then pending R ms else m # pending (insert (mg_name m) R) ms)"

fun exec_all :: "(str \<Rightarrow> 's \<Rightarrow> (db_err, 's) result) \<Rightarrow> str list \<Rightarrow> 's \<Rightarrow> (db_err, 's) result" where
  "exec_all ex [] s = Ok s"
| "exec_all ex (q # qs) s = bind_result (ex q s) (exec_all ex qs)"

abbreviation recorded :: "'s database \<Rightarrow> str set" where "recorded d \<equiv> fst ` set (tracked d)"

lemma tracked_simps [simp]:
  "tracked (d\<lparr>da_tracking := Some rows\<rparr>) = rows" "tracked (d\<lparr>da_schema := s\<rparr>) = tracked d"
  "tracked (create_tracking d) = tracked d" "da_schema (create_tracking d) = da_schema d"
  by (simp_all add: tracked_def create_tracking_def)

lemma pending_fresh: "m \<in> set (pending R ms) \<Longrightarrow> mg_name m \<notin> R \<and> m \<in> set ms"
  by (induction R ms rule: pending.induct) (auto split: if_splits)

lemma pending_distinct: "distinct (map mg_name (pending R ms))"
  by (induction R ms rule: pending.induct) (auto dest: pending_fresh)

lemma pending_disjoint: "mg_name ` set (pending R ms) \<inter> R = {}"
  by (auto dest: pending_fresh)

lemma pending_none: "mg_name ` set ms \<subseteq> R \<Longrightarrow> pending R ms = []"
  by (induction ms) auto

lemma pending_covers: "mg_name ` set ms \<subseteq> R \<union> mg_name ` set (pending R ms)"
  by (induction R ms rule: pending.induct) auto

lemma migrate_loop_Ok:
  assumes "migrate_loop sv be ms applied tx = Ok (names, tx')"
  defines "todo \<equiv> pending (recorded (tx_data tx)) ms"
  shows "names = applied @ map mg_name todo"
    and "map fst (tracked (tx_data tx')) = map fst (tracked (tx_data tx)) @ map mg_name todo"
    and "exec_all (sv_exec sv) (map (migration_text be) todo) (da_schema (tx_data tx)) = Ok (da_schema (tx_data tx'))"
  using assms(1) unfolding todo_def
proof (induction ms arbitrary: applied tx)
  case Nil
  {
    case 1 then show ?case by simp
  next
    case 2 then show ?case by simp
  next
    case 3 then show ?case by simp
  }
next
  case (Cons m ms)
  note step = migrate_loop.simps(2) bind_result_Ok db_send_Ok exec_schema_def insert_tracking_def
  {
    case 1
    then show ?case using Cons.IH(1)
      by (fastforce simp: step split: if_splits sum.splits)
  next
    case 2
    then show ?case using Cons.IH(2)
      by (fastforce simp: step split: if_splits sum.splits)
  next
    case 3
    then show ?case using Cons.IH(3)
      by (fastforce simp: step split: if_splits sum.splits)
  }
qed

lemma migrate_txn_Ok:
  assumes "migrate_txn sv be items d = Ok (names, tx)"
  defines "todo \<equiv> pending (recorded d) items"
  shows "names = map mg_name todo \<and> map fst (tracked (tx_data tx)) = map fst (tracked d) @ names \<and>
    exec_all (sv_exec sv) (map (migration_text be) todo) (da_schema d) = Ok (da_schema (tx_data tx))"
proof -
  obtain tx0 tx1 tx2 tx3 where "db_send sv \<lparr>tx_data = d, tx_sent = 0\<rparr> Ok = Ok tx0"
    "(if be = Postgres then db_send sv tx0 Ok else Ok tx0) = Ok tx1"
    "db_send sv tx1 (\<lambda>d. Ok (create_tracking d)) = Ok tx2"
    and loop: "migrate_loop sv be items [] tx2 = Ok (names, tx3)" and "db_send sv tx3 Ok = Ok tx"
    using assms(1) unfolding migrate_txn_def bind_result_Ok split_paired_Ex prod.case bind_result_Ok
    by (metis Inr_inject prod.inject)
  then have t2: "tx_data tx2 = create_tracking d" and t4: "tx_data tx = tx_data tx3"
    by (auto simp: db_send_Ok split: if_splits)
  show ?thesis using migrate_loop_Ok [OF loop] t2 t4 by (simp add: todo_def)
qed

text \<open>Without faults the run does what the schema allows.\<close>

lemma migrate_loop_total:
  assumes "\<forall>i. sv_fault sv i = None"
  shows "(case exec_all (sv_exec sv) (map (migration_text be) (pending (recorded (tx_data tx)) ms)) (da_schema (tx_data tx)) of
     Err e \<Rightarrow> migrate_loop sv be ms applied tx = Err (db_error e)
   | Ok s \<Rightarrow> is_ok (migrate_loop sv be ms applied tx))"
proof (induction ms arbitrary: applied tx)
  case (Cons m ms)
  let ?tx1 = "tx\<lparr>tx_sent := tx_sent tx + 1\<rparr>"
  have s1: "db_send sv tx Ok = Ok ?tx1" using assms by (simp add: db_send_def)
  show ?case
  proof (cases "mg_name m \<in> recorded (tx_data tx)")
    case True
    then have l: "migrate_loop sv be (m # ms) applied tx = migrate_loop sv be ms applied ?tx1" using s1 by simp
    show ?thesis using Cons [where tx = ?tx1 and applied = applied] True unfolding l by simp
  next
    case fresh: False
    show ?thesis
    proof (cases "sv_exec sv (migration_text be m) (da_schema (tx_data tx))")
      case (Inl e)
      then show ?thesis using fresh s1 assms by (simp add: db_send_def exec_schema_def)
    next
      case (Inr s)
      let ?d2 = "(tx_data tx)\<lparr>da_schema := s\<rparr>"
      let ?stamp = "chrono_free_timestamp (sv_clock sv (tx_sent tx + 2))"
      let ?tx3 = "tx\<lparr>tx_data := ?d2\<lparr>da_tracking := Some (tracked (tx_data tx) @ [(mg_name m, ?stamp)])\<rparr>,
        tx_sent := tx_sent tx + 3\<rparr>"
      have l: "migrate_loop sv be (m # ms) applied tx = migrate_loop sv be ms (applied @ [mg_name m]) ?tx3"
        using fresh s1 assms Inr by (simp add: db_send_def exec_schema_def insert_tracking_def numeral_3_eq_3 numeral_2_eq_2)
      show ?thesis using Cons [where tx = ?tx3 and applied = "applied @ [mg_name m]"] fresh Inr unfolding l by simp
    qed
  qed
qed simp

lemma migrate_txn_total:
  assumes "\<forall>i. sv_fault sv i = None"
  shows "(case exec_all (sv_exec sv) (map (migration_text be) (pending (recorded d) items)) (da_schema d) of
     Err e \<Rightarrow> migrate_txn sv be items d = Err (db_error e)
   | Ok s \<Rightarrow> is_ok (migrate_txn sv be items d))"
proof -
  have s: "db_send sv tx (\<lambda>d. Ok (f d)) = Ok (tx\<lparr>tx_data := f (tx_data tx), tx_sent := tx_sent tx + 1\<rparr>)" for tx f
    using assms by (simp add: db_send_def)
  obtain n where t: "migrate_txn sv be items d =
     bind_result (migrate_loop sv be items [] \<lparr>tx_data = create_tracking d, tx_sent = n\<rparr>) (\<lambda>(applied, tx3).
     bind_result (db_send sv tx3 Ok) (\<lambda>tx4. Ok (applied, tx4)))"
    using s [where f = "\<lambda>d. d"] s [where f = create_tracking] by (cases be) (auto simp: migrate_txn_def)
  have c: "is_ok (bind_result r (\<lambda>(applied, tx3). bind_result (db_send sv tx3 Ok) (\<lambda>tx4. Ok (applied, tx4)))) = is_ok r" for r :: "(error, str list \<times> 'a txn) result"
    using s [where f = "\<lambda>d. d"] by (cases r) auto
  show ?thesis
    using migrate_loop_total [OF assms, where be = be and tx = "\<lparr>tx_data = create_tracking d, tx_sent = n\<rparr>" and ms = items and applied = "[]"]
    unfolding t by (auto simp: c split: sum.splits)
qed

text \<open>C29: A run of the migrations is all or nothing, whatever statement fails. When it reports an error the
  database is as before, table included. When it reports names, they are exactly the migrations that
  were not recorded (the first of each name, in order), their texts ran in that order on the schema, and
  their names are recorded, after the old ones and nothing else. And when no statement is lost, the only
  error is that of a migration's own text, so a correct list always succeeds.
\<close>

theorem migrate_all_or_nothing:
  fixes d :: "'s database" and items :: "migration list"
  shows
    "(case migrate_iter sv be items d of
        (Err e, d') \<Rightarrow> d' = d
      | (Ok names, d') \<Rightarrow>
          names = map mg_name (pending (recorded d) items) \<and> map fst (tracked d') = map fst (tracked d) @ names \<and>
          exec_all (sv_exec sv) (map (migration_text be) (pending (recorded d) items)) (da_schema d) = Ok (da_schema d')) \<and>
     ((\<forall>i. sv_fault sv i = None) \<longrightarrow>
       (case exec_all (sv_exec sv) (map (migration_text be) (pending (recorded d) items)) (da_schema d) of
          Err e \<Rightarrow> migrate_iter sv be items d = (Err (db_error e), d)
        | Ok s \<Rightarrow> is_ok (fst (migrate_iter sv be items d))))"
proof (intro conjI impI)
  show "case migrate_iter sv be items d of
       (Err e, d') \<Rightarrow> d' = d
     | (Ok names, d') \<Rightarrow>
         names = map mg_name (pending (recorded d) items) \<and> map fst (tracked d') = map fst (tracked d) @ names \<and>
         exec_all (sv_exec sv) (map (migration_text be) (pending (recorded d) items)) (da_schema d) = Ok (da_schema d')"
    using migrate_txn_Ok [where sv = sv and be = be and items = items and d = d] by (auto simp: migrate_iter_def split: sum.splits)
next
  assume "\<forall>i. sv_fault sv i = None"
  from migrate_txn_total [OF this, where be = be and items = items and d = d]
  show "case exec_all (sv_exec sv) (map (migration_text be) (pending (recorded d) items)) (da_schema d) of
         Err e \<Rightarrow> migrate_iter sv be items d = (Err (db_error e), d)
       | Ok s \<Rightarrow> is_ok (fst (migrate_iter sv be items d))"
    by (auto simp: migrate_iter_def is_ok_iff split: sum.splits)
qed

theorem migrate_all_or_nothing_witness:
  "fst (migrate_iter \<lparr>sv_exec = (\<lambda>q s. Ok (s @ [q])), sv_fault = (\<lambda>i. None), sv_clock = (\<lambda>i. 0)\<rparr> Sqlite
      [\<lparr>mg_name = ''0001'', mg_sqlite = ''a'', mg_postgres = ''b''\<rparr>]
      \<lparr>da_schema = [], da_tracking = None\<rparr>) = Ok [''0001''] \<and>
   snd (migrate_iter \<lparr>sv_exec = (\<lambda>q s. Ok (s @ [q])), sv_fault = (\<lambda>i. if i = 4 then Some (OtherDbErr ''lost'') else None), sv_clock = (\<lambda>i. 0)\<rparr> Sqlite
      [\<lparr>mg_name = ''0001'', mg_sqlite = ''a'', mg_postgres = ''b''\<rparr>]
      \<lparr>da_schema = [], da_tracking = None\<rparr>) = \<lparr>da_schema = [], da_tracking = None\<rparr>"
proof
  let ?items = "[\<lparr>mg_name = ''0001'', mg_sqlite = ''a'', mg_postgres = ''b''\<rparr>]"
  let ?d = "\<lparr>da_schema = [], da_tracking = None\<rparr> :: str list database"
  let ?sv = "\<lparr>sv_exec = (\<lambda>q s. Ok (s @ [q])), sv_fault = (\<lambda>i. None), sv_clock = (\<lambda>i. 0)\<rparr> :: str list db_server"
  note run = migrate_all_or_nothing [where sv = ?sv and be = Sqlite and items = ?items and d = ?d]
  have "is_ok (fst (migrate_iter ?sv Sqlite ?items ?d))"
    using run [THEN conjunct2] by (simp add: tracked_def migration_text_def)
  then show "fst (migrate_iter ?sv Sqlite ?items ?d) = Ok [''0001'']"
    using run [THEN conjunct1] by (auto simp: is_ok_iff tracked_def split: prod.splits sum.splits)
next
  let ?items = "[\<lparr>mg_name = ''0001'', mg_sqlite = ''a'', mg_postgres = ''b''\<rparr>]"
  let ?d = "\<lparr>da_schema = [], da_tracking = None\<rparr> :: str list database"
  let ?sv = "\<lparr>sv_exec = (\<lambda>q s. Ok (s @ [q])), sv_fault = (\<lambda>i. if i = 4 then Some (OtherDbErr ''lost'') else None), sv_clock = (\<lambda>i. 0)\<rparr> :: str list db_server"
  have e: "fst (migrate_iter ?sv Sqlite ?items ?d) = Err (db_error (OtherDbErr ''lost''))"
    by (simp add: migrate_iter_def migrate_txn_def db_send_def tracked_def create_tracking_def exec_schema_def migration_text_def)
  then show "snd (migrate_iter ?sv Sqlite ?items ?d) = ?d"
    using migrate_all_or_nothing [where sv = ?sv and be = Sqlite and items = ?items and d = ?d, THEN conjunct1] by (auto split: prod.splits sum.splits)
qed

section \<open>Nodes that boot together\<close>

abbreviation names_of :: "(error, str list) result \<Rightarrow> str list" where
  "names_of r \<equiv> (case r of Inl e \<Rightarrow> [] | Inr ns \<Rightarrow> ns)"

lemma migrate_iter_tracking:
  "map fst (tracked (snd (migrate_iter sv be items d))) = map fst (tracked d) @ names_of (fst (migrate_iter sv be items d))"
  using migrate_txn_Ok [where sv = sv and be = be and items = items and d = d] by (auto simp: migrate_iter_def split: sum.splits)

lemma migrate_iter_fresh:
  "distinct (names_of (fst (migrate_iter sv be items d))) \<and> set (names_of (fst (migrate_iter sv be items d))) \<inter> recorded d = {}"
proof (cases "migrate_txn sv be items d")
  case (Inr p)
  obtain ns tx where p: "p = (ns, tx)" by (cases p)
  have "ns = map mg_name (pending (recorded d) items)" using migrate_txn_Ok [OF Inr [unfolded p]] by blast
  then show ?thesis using Inr p pending_distinct [of "recorded d" items] pending_disjoint [of "recorded d" items]
    by (simp add: migrate_iter_def del: disjoint_iff)
qed (simp add: migrate_iter_def)

lemma boot_nodes_step [simp]:
  "fst (boot_nodes be ((sv, items) # ns) d) =
     fst (migrate_iter sv be items d) # fst (boot_nodes be ns (snd (migrate_iter sv be items d)))"
  "snd (boot_nodes be ((sv, items) # ns) d) = snd (boot_nodes be ns (snd (migrate_iter sv be items d)))"
  by (simp_all add: Let_def split_beta)

declare boot_nodes.simps(2) [simp del]

lemma boot_nodes_tracking:
  "map fst (tracked (snd (boot_nodes be ns d))) = map fst (tracked d) @ concat (map names_of (fst (boot_nodes be ns d)))"
proof (induction ns arbitrary: d)
  case (Cons n ns)
  then show ?case by (cases n) (simp add: migrate_iter_tracking)
qed simp

lemma boot_nodes_once:
  assumes "distinct (map fst (tracked d))"
  shows "distinct (map fst (tracked (snd (boot_nodes be ns d))))"
  using assms
proof (induction ns arbitrary: d)
  case (Cons n ns)
  obtain sv items where n: "n = (sv, items)" by (cases n)
  have "distinct (map fst (tracked (snd (migrate_iter sv be items d))))"
    using Cons.prems migrate_iter_fresh [where sv = sv and be = be and items = items and d = d]
    by (simp add: migrate_iter_tracking) blast
  then show ?case using Cons.IH unfolding n boot_nodes_step by blast
qed simp

text \<open>A second run of the same list after a successful one applies nothing and changes nothing but the faults.\<close>

lemma migrate_again:
  assumes "migrate_iter sv be items d = (Ok names, d1)" and "migrate_iter sv' be items d1 = (Ok names', d2)"
  shows "names' = [] \<and> da_schema d2 = da_schema d1 \<and> map fst (tracked d2) = map fst (tracked d1)"
proof -
  have "migrate_txn sv be items d = Ok (names, tx) \<Longrightarrow> mg_name ` set items \<subseteq> recorded (tx_data tx)" for tx
  proof -
    assume "migrate_txn sv be items d = Ok (names, tx)"
    from migrate_txn_Ok [OF this]
    have "set (map fst (tracked (tx_data tx))) = recorded d \<union> mg_name ` set (pending (recorded d) items)" by simp
    with pending_covers [of items "recorded d"] show ?thesis by simp
  qed
  with assms(1) have "pending (recorded d1) items = []"
    by (intro pending_none) (auto simp: migrate_iter_def split: sum.splits)
  with assms(2) migrate_txn_Ok [where sv = sv' and be = be and items = items and d = d1] show ?thesis
    by (auto simp: migrate_iter_def split: sum.splits)
qed

end
