(* ===== verification/JC_Changes.thy ===== *)
theory JC_Changes
  imports JC_Hub JC_Pgoutput JC_Db JC_OAuth "HOL-Library.Sublist"
begin

text \<open>
  The sources of row changes, \<open>jerrycan-realtime/src/changes\<close> (\<open>mod.rs\<close>, \<open>triggers.rs\<close>,
  \<open>replication.rs\<close>) and \<open>start_change_source\<close> of \<open>lib.rs\<close>: the SQL that is sent, the choice of the
  source, the trigger payload and its refetch, the connection URL, the streaming session and the
  supervisor of the replication leader.

  Postgres and the replication client are parameters: the answers to queries, what a session receives,
  and how each session of the supervisor ends. The supervisor shares its flag with the hub: a run of the
  feed (\<open>run_feed\<close>) interleaves its steps with the delivery of the messages in flight. \<open>alive n\<close> says whether the receiver of events still
  exists when the \<open>n\<close>-th event is sent. Log lines are not modelled.
\<close>

section \<open>Statements\<close>

definition PUBLICATION :: str where "PUBLICATION = ''jc_changes''"
definition NOTIFY_CHANNEL :: str where "NOTIFY_CHANNEL = ''jc_changes''"
definition SLOT :: str where "SLOT = ''jc_realtime''"
definition SHOW_WAL_LEVEL :: str where "SHOW_WAL_LEVEL = ''SHOW wal_level''"
definition SHOW_MAX_SLOT_WAL_KEEP_SIZE :: str where "SHOW_MAX_SLOT_WAL_KEEP_SIZE = ''SHOW max_slot_wal_keep_size''"
definition CAN_REPLICATE :: str where
  "CAN_REPLICATE = ''SELECT rolreplication OR rolsuper AS ok FROM pg_roles WHERE rolname = current_user''"

definition quoted :: "str \<Rightarrow> str" where "quoted s = CHR 0x22 # s @ [CHR 0x22]"
definition literal :: "str \<Rightarrow> str" where "literal s = CHR 0x27 # s @ [CHR 0x27]"
abbreviation newline :: str where "newline \<equiv> [CHR 0x0A]"

definition publication_exists_sql :: str where
  "publication_exists_sql = ''SELECT 1 FROM pg_publication WHERE pubname = '' @ literal PUBLICATION"

definition table_list :: "change_spec list \<Rightarrow> str" where
  "table_list specs = join_with '', '' (map (\<lambda>s. quoted (cs_table s)) specs)"

definition create_publication_sql :: "change_spec list \<Rightarrow> str" where
  "create_publication_sql specs = ''CREATE PUBLICATION '' @ PUBLICATION @ '' FOR TABLE '' @ table_list specs"

definition reconcile_publication_sql :: "change_spec list \<Rightarrow> str" where
  "reconcile_publication_sql specs = ''ALTER PUBLICATION '' @ PUBLICATION @ '' SET TABLE '' @ table_list specs"

definition replica_identity_sql :: "change_spec \<Rightarrow> str" where
  "replica_identity_sql s = ''ALTER TABLE '' @ quoted (cs_table s) @ '' REPLICA IDENTITY FULL''"

definition notify_function_sql :: "change_spec \<Rightarrow> str" where
  "notify_function_sql spec =
     (let pk = quoted (cs_pk spec);
          tenant_new = (case cs_tenant spec of None \<Rightarrow> ''NULL''
            | Some c \<Rightarrow> ''CASE WHEN TG_OP <> '' @ literal ''DELETE'' @ '' THEN NEW.'' @ quoted c @ ''::text END'');
          tenant_old = (case cs_tenant spec of None \<Rightarrow> ''NULL''
            | Some c \<Rightarrow> ''CASE WHEN TG_OP <> '' @ literal ''INSERT'' @ '' THEN OLD.'' @ quoted c @ ''::text END'');
          owner = (case cs_owner spec of None \<Rightarrow> ''NULL''
            | Some c \<Rightarrow> ''CASE WHEN TG_OP = '' @ literal ''DELETE'' @ '' THEN OLD.'' @ quoted c @ ''::text ELSE NEW.'' @
                quoted c @ ''::text END'')
      in ''CREATE OR REPLACE FUNCTION jc_notify_change_'' @ cs_table spec @ ''() RETURNS trigger AS $$'' @ newline @
         ''BEGIN'' @ newline @
         ''  PERFORM pg_notify('' @ literal NOTIFY_CHANNEL @ '', json_build_object('' @ newline @
         ''  '' @ literal ''t'' @ '', TG_TABLE_NAME,'' @ newline @
         ''  '' @ literal ''o'' @ '', lower(TG_OP),'' @ newline @
         ''  '' @ literal ''id'' @ '', CASE WHEN TG_OP = '' @ literal ''DELETE'' @ '' THEN OLD.'' @ pk @ ''::text ELSE NEW.'' @ pk @
           ''::text END,'' @ newline @
         ''  '' @ literal ''tn'' @ '', '' @ tenant_new @ '','' @ newline @
         ''  '' @ literal ''to'' @ '', '' @ tenant_old @ '','' @ newline @
         ''  '' @ literal ''ow'' @ '', '' @ owner @ newline @
         ''  )::text);'' @ newline @
         ''  RETURN NULL;'' @ newline @
         ''END;'' @ newline @
         ''$$ LANGUAGE plpgsql'')"

definition trigger_sql :: "change_spec \<Rightarrow> str" where
  "trigger_sql spec =
     (let t = cs_table spec
      in ''DROP TRIGGER IF EXISTS jc_changes_'' @ t @ '' ON '' @ quoted t @ '';'' @ newline @
         ''CREATE TRIGGER jc_changes_'' @ t @ '' AFTER INSERT OR UPDATE OR DELETE ON '' @ quoted t @ newline @
         ''FOR EACH ROW EXECUTE FUNCTION jc_notify_change_'' @ t @ ''()'')"

definition refetch_sql :: "change_spec \<Rightarrow> bool \<Rightarrow> str" where
  "refetch_sql spec scoped_by_tenant =
     ''SELECT row_to_json(t)::text AS j FROM (SELECT * FROM '' @ quoted (cs_table spec) @ '' WHERE '' @ quoted (cs_pk spec) @
     ''::text = $1'' @
     (case (scoped_by_tenant, cs_tenant spec) of (True, Some col) \<Rightarrow> '' AND '' @ quoted col @ ''::text = $2'' | _ \<Rightarrow> []) @ '') t''"

section \<open>Data-definition sessions\<close>

text \<open>What the data layer's connection does with a statement: \<open>query_one\<close> tells whether there is a row.\<close>

record 'd pg_session =
  ps_query :: "str \<Rightarrow> 'd \<Rightarrow> (db_err, bool) result"
  ps_exec :: "str \<Rightarrow> 'd \<Rightarrow> (db_err, 'd) result"

fun exec_each :: "'d pg_session \<Rightarrow> str list \<Rightarrow> 'd \<Rightarrow> (error, unit) result \<times> 'd" where
  "exec_each ps [] d = (Ok (), d)"
| "exec_each ps (q # qs) d =
     (case ps_exec ps q d of Err e \<Rightarrow> (Err (db_error e), d) | Ok d' \<Rightarrow> exec_each ps qs d')"

definition slot_exists_sql :: str where
  "slot_exists_sql = ''SELECT 1 FROM pg_replication_slots WHERE slot_name = '' @ literal SLOT"
definition create_slot_sql :: str where
  "create_slot_sql = ''SELECT pg_create_logical_replication_slot('' @ literal SLOT @ '', '' @ literal ''pgoutput'' @ '')''"

definition ensure_slot :: "'d pg_session \<Rightarrow> 'd \<Rightarrow> (error, unit) result \<times> 'd" where
  "ensure_slot ps d =
     (case ps_query ps slot_exists_sql d of
        Err e \<Rightarrow> (Err (db_error e), d)
      | Ok present \<Rightarrow> if present then (Ok (), d) else exec_each ps [create_slot_sql] d)"

definition drop_slot :: "'d pg_session \<Rightarrow> 'd \<Rightarrow> (error, unit) result \<times> 'd" where
  "drop_slot ps d =
     exec_each ps [''SELECT pg_drop_replication_slot('' @ literal SLOT @
       '') WHERE EXISTS (SELECT 1 FROM pg_replication_slots WHERE slot_name = '' @ literal SLOT @ '')''] d"

definition ensure_replication :: "'d pg_session \<Rightarrow> change_spec list \<Rightarrow> 'd \<Rightarrow> (error, unit) result \<times> 'd" where
  "ensure_replication ps specs d =
     (case ps_query ps publication_exists_sql d of
        Err e \<Rightarrow> (Err (db_error e), d)
      | Ok exists \<Rightarrow>
          (case exec_each ps ((if exists then reconcile_publication_sql specs else create_publication_sql specs) #
                  map replica_identity_sql specs) d of
             (Err e, d') \<Rightarrow> (Err e, d')
           | (Ok _, d') \<Rightarrow> ensure_slot ps d'))"

text \<open>\<open>split(";\n")\<close>, trimmed, the empty pieces dropped.\<close>

function split_str :: "str \<Rightarrow> str \<Rightarrow> str list" where
  "split_str sep s =
     (if sep = [] then [s]
      else case split_str_once sep s of None \<Rightarrow> [s] | Some (a, b) \<Rightarrow> a # split_str sep b)"
  by pat_completeness auto

lemma split_str_once_shrinks: "split_str_once sep s = Some (a, b) \<Longrightarrow> sep \<noteq> [] \<Longrightarrow> length b < length s"
  by (induction s arbitrary: a) (fastforce split: if_splits)+

termination split_str
  by (relation "measure (\<lambda>(sep, s). length s)") (auto dest: split_str_once_shrinks)

declare split_str.simps [simp del]

definition trigger_statements :: "change_spec \<Rightarrow> str list" where
  "trigger_statements spec = filter (\<lambda>s. s \<noteq> []) (map trim (split_str ('';'' @ newline) (trigger_sql spec)))"

definition ensure_triggers :: "'d pg_session \<Rightarrow> change_spec list \<Rightarrow> 'd \<Rightarrow> (error, unit) result \<times> 'd" where
  "ensure_triggers ps specs d = exec_each ps (concat (map (\<lambda>s. notify_function_sql s # trigger_statements s) specs)) d"

section \<open>The choice of the source\<close>

datatype source_kind = Replication | Triggers

text \<open>A query for one column of one row: no row, or a value that does not convert, is \<open>None\<close>.\<close>

record pg_answers =
  pa_text :: "str \<Rightarrow> str \<Rightarrow> (db_err, str option) result"
  pa_bool :: "str \<Rightarrow> str \<Rightarrow> (db_err, bool option) result"

definition source_required :: error where
  "source_required = error_new 500 ''JC0530'' ''realtime changes require Postgres (JERRYCAN_DATABASE_URL is not postgres://)''"

definition mapped :: "(db_err, 'a) result \<Rightarrow> (error, 'a) result" where
  "mapped r = (case r of Err e \<Rightarrow> Err (db_error e) | Ok v \<Rightarrow> Ok v)"

definition detect :: "pg_answers \<Rightarrow> 'c db \<Rightarrow> (error, source_kind) result" where
  "detect pa db =
     (if db_backend db \<noteq> Postgres then Err source_required
      else
        bind_result (mapped (pa_text pa SHOW_WAL_LEVEL ''wal_level'')) (\<lambda>wal.
        bind_result (mapped (pa_bool pa CAN_REPLICATE ''ok'')) (\<lambda>can.
        if wal = Some ''logical'' \<and> can = Some True then
          bind_result (mapped (pa_text pa SHOW_MAX_SLOT_WAL_KEEP_SIZE ''max_slot_wal_keep_size'')) (\<lambda>keep. Ok Replication)
        else Ok Triggers)))"

text \<open>
  Start-up: which adapter is spawned, and the hub after the failures are marked and published. The
  result of the trigger statements is an argument.
\<close>

definition mark_unavailable :: "hub \<Rightarrow> hub" where
  "mark_unavailable h = bus_publish (BChangesHealth True) (h\<lparr>h_unavailable := True\<rparr>)"

definition start_change_source ::
  "pg_answers \<Rightarrow> 'c db option \<Rightarrow> (error, unit) result \<Rightarrow> hub \<Rightarrow> source_kind option \<times> hub" where
  "start_change_source pa dbo ddl h =
     (if rc_changes (h_config h) = [] then (None, h)
      else case dbo of
        None \<Rightarrow> (None, mark_unavailable h)
      | Some db \<Rightarrow>
          (case detect pa db of
             Err e \<Rightarrow> (None, mark_unavailable h)
           | Ok Replication \<Rightarrow> (Some Replication, h)
           | Ok Triggers \<Rightarrow>
               (case ddl of Err e \<Rightarrow> (None, mark_unavailable h) | Ok _ \<Rightarrow> (Some Triggers, h))))"

section \<open>The trigger source\<close>

record notify_payload =
  np_table :: str
  np_op :: change_op
  np_pk :: str
  np_tenant :: "str option"
  np_old_tenant :: "str option"
  np_owner :: "str option"

definition notify_into_event :: "str \<Rightarrow> notify_payload \<Rightarrow> change_event" where
  "notify_into_event entity p =
     \<lparr>ev_entity = entity, ev_op = np_op p, ev_pk = np_pk p, ev_row = None,
      ev_tenant = np_tenant p, ev_old_tenant = np_old_tenant p, ev_owner = np_owner p\<rparr>"

text \<open>\<open>fetch sql values\<close> is the decoded body the query returns, nothing on any failure.\<close>

definition refetch ::
  "(str \<Rightarrow> str list \<Rightarrow> json option) \<Rightarrow> change_spec \<Rightarrow> str \<Rightarrow> str option \<Rightarrow> json option" where
  "refetch fetch spec pk tenant =
     (let scoped = (tenant \<noteq> None \<and> cs_tenant spec \<noteq> None)
      in fetch (refetch_sql spec scoped) (pk # (case tenant of Some t \<Rightarrow> if scoped then [t] else [] | None \<Rightarrow> [])))"

definition trigger_event ::
  "(str \<Rightarrow> str list \<Rightarrow> json option) \<Rightarrow> (str \<Rightarrow> notify_payload option) \<Rightarrow> change_spec list \<Rightarrow> str \<Rightarrow> change_event option" where
  "trigger_event fetch payload_of specs note =
     (case payload_of note of
        None \<Rightarrow> None
      | Some p \<Rightarrow>
          (case List.find (\<lambda>s. cs_table s = np_table p) specs of
             None \<Rightarrow> None
           | Some spec \<Rightarrow>
               (let ev = notify_into_event (cs_entity spec) p
                in Some (if ev_op ev = OpDelete then ev
                         else ev\<lparr>ev_row := refetch fetch spec (np_pk p) (np_tenant p)\<rparr>))))"

datatype 'a recv = Received 'a | RecvError str | ShutdownChanged

text \<open>The listener: the events sent, and whether the loop ended, and how.\<close>

fun listen_loop ::
  "(str \<Rightarrow> change_event option) \<Rightarrow> (nat \<Rightarrow> bool) \<Rightarrow> str recv list \<Rightarrow> change_event list \<Rightarrow>
     (error, unit) result option \<times> change_event list" where
  "listen_loop event_of alive [] sent = (None, sent)"
| "listen_loop event_of alive (r # rs) sent =
     (case r of
        ShutdownChanged \<Rightarrow> (Some (Ok ()), sent)
      | RecvError e \<Rightarrow> (Some (Err (error_new 500 ''JC0510'' ''trigger listener database error'')), sent)
      | Received note \<Rightarrow>
          (case event_of note of
             None \<Rightarrow> listen_loop event_of alive rs sent
           | Some ev \<Rightarrow> if alive (length sent) then listen_loop event_of alive rs (sent @ [ev]) else (Some (Ok ()), sent)))"

text \<open>
  The retry loop of the listener and of the Redis pump: the seconds slept before each retry. A session
  is given by its result and whether shutdown came before its retry.
\<close>

fun retry_sleeps :: "nat \<Rightarrow> ((error, unit) result \<times> bool) list \<Rightarrow> nat list" where
  "retry_sleeps backoff [] = []"
| "retry_sleeps backoff ((outcome, stopped) # ss) =
     (case outcome of
        Ok _ \<Rightarrow> []
      | Err e \<Rightarrow> if stopped then [] else backoff # retry_sleeps (min (backoff * 2) 30) ss)"

definition trigger_run :: "((error, unit) result \<times> bool) list \<Rightarrow> nat list" where
  "trigger_run sessions = retry_sleeps 1 sessions"

section \<open>The connection URL\<close>

datatype ssl_mode = SslDisable | SslPrefer | SslRequire | SslVerifyCa | SslVerifyFull

record pg_conn =
  pc_host :: str
  pc_port :: nat
  pc_user :: str
  pc_password :: str
  pc_dbname :: str
  pc_sslmode :: ssl_mode

text \<open>\<open>u8::from_str_radix(_, 16)\<close> of two bytes, which takes a leading plus sign.\<close>

definition radix16 :: "char \<Rightarrow> char \<Rightarrow> nat option" where
  "radix16 a b =
     (if a = CHR ''+'' then hex b
      else case (hex a, hex b) of (Some x, Some y) \<Rightarrow> Some (x * 16 + y) | _ \<Rightarrow> None)"

text \<open>
  \<open>Err ()\<close> is a panic: the slice \<open>s[i + 1..i + 3]\<close> ends inside a character when its third byte is a
  continuation byte.
\<close>

fun percent_bytes :: "str \<Rightarrow> (unit, bytes) result" where
  "percent_bytes [] = Ok []"
| "percent_bytes (c # cs) =
     (case cs of
        a # b # rest \<Rightarrow>
          if c = CHR ''%'' then
            (if rest \<noteq> [] \<and> cont_byte (of_char (hd rest)) then Err ()
             else case radix16 a b of
                 Some v \<Rightarrow> bind_result (percent_bytes rest) (\<lambda>out. Ok (char_of v # out))
               | None \<Rightarrow> bind_result (percent_bytes cs) (\<lambda>out. Ok (c # out)))
          else bind_result (percent_bytes cs) (\<lambda>out. Ok (c # out))
      | _ \<Rightarrow> bind_result (percent_bytes cs) (\<lambda>out. Ok (c # out)))"

definition percent_decode :: "str \<Rightarrow> (unit, str) result" where
  "percent_decode s = bind_result (percent_bytes s) (\<lambda>b. Ok (from_utf8_lossy b))"

definition sslmode_of :: "str option \<Rightarrow> ssl_mode" where
  "sslmode_of query =
     (case List.map_filter (strip_str ''sslmode='') (case query of None \<Rightarrow> [] | Some q \<Rightarrow> split_on CHR ''&'' q) of
        [] \<Rightarrow> SslPrefer
      | v # _ \<Rightarrow>
          if v = ''disable'' then SslDisable else if v = ''require'' then SslRequire
          else if v = ''verify-ca'' then SslVerifyCa else if v = ''verify-full'' then SslVerifyFull else SslPrefer)"

definition pg_userinfo :: "str option \<Rightarrow> (unit, str \<times> str) result" where
  "pg_userinfo userinfo =
     (case userinfo of
        None \<Rightarrow> Ok ([], [])
      | Some ui \<Rightarrow>
          (case split_once CHR '':'' ui of
             Some (u, p) \<Rightarrow> bind_result (percent_decode u) (\<lambda>u'. bind_result (percent_decode p) (\<lambda>p'. Ok (u', p')))
           | None \<Rightarrow> bind_result (percent_decode ui) (\<lambda>u'. Ok (u', []))))"

text \<open>The outer result is a panic, the option is the function's own.\<close>

definition pg_parse :: "str \<Rightarrow> (unit, pg_conn option) result" where
  "pg_parse url =
     (case or_else (strip_str ''postgres://'' url) (strip_str ''postgresql://'' url) of
        None \<Rightarrow> Ok None
      | Some rest \<Rightarrow>
          (let (authority, query) = (case split_once CHR ''?'' rest of Some (a, q) \<Rightarrow> (a, Some q) | None \<Rightarrow> (rest, None));
               (userinfo, hostpath) = (case split_once CHR ''@'' authority of Some (u, h) \<Rightarrow> (Some u, h) | None \<Rightarrow> (None, authority))
           in bind_result (pg_userinfo userinfo) (\<lambda>(user, password).
                if user = [] then Ok None
                else
                  (let (hostport, path) = (case split_once CHR ''/'' hostpath of Some (hp, p) \<Rightarrow> (hp, Some p) | None \<Rightarrow> (hostpath, None))
                   in if hostport = [] then Ok None
                      else
                        (case (case rsplit_once CHR '':'' hostport of
                                 Some (h, p) \<Rightarrow> map_option (\<lambda>n. (h, nat n)) (result_ok (parse_int 0 65535 p))
                               | None \<Rightarrow> Some (hostport, 5432)) of
                           None \<Rightarrow> Ok None
                         | Some (host, port) \<Rightarrow>
                             Ok (Some \<lparr>pc_host = host, pc_port = port, pc_user = user, pc_password = password,
                               pc_dbname = (case path of Some p \<Rightarrow> if p = [] then user else p | None \<Rightarrow> user),
                               pc_sslmode = sslmode_of query\<rparr>))))))"

text \<open>The fields that are set; the others are the client's defaults. The start position is zero.\<close>

record replication_config =
  rp_conn :: pg_conn
  rp_slot :: str
  rp_publication :: str
  rp_start_lsn :: nat

definition replication_config_of :: "pg_conn \<Rightarrow> str \<Rightarrow> replication_config" where
  "replication_config_of c publication =
     \<lparr>rp_conn = c, rp_slot = SLOT, rp_publication = publication, rp_start_lsn = 0\<rparr>"

section \<open>A streaming session\<close>

definition replication_error :: "str \<Rightarrow> error" where
  "replication_error msg = error_new 500 ''JC0531'' (''replication stream: '' @ msg)"

datatype repl_event = XLogData nat bytes | Commit nat | OtherEvent

datatype stream_act = SendEvent change_event | ApplyLsn nat

text \<open>What a message gives: an event for every entity of its table, in the order of the configuration.\<close>

definition message_events :: "(json \<Rightarrow> str) \<Rightarrow> change_spec list \<Rightarrow> bytes \<Rightarrow> relation_cache \<Rightarrow> change_event list" where
  "message_events show_json specs b rels =
     (case fst (decode_logical b rels) of
        Ok (Row rw) \<Rightarrow> List.map_filter (\<lambda>spec. row_into_event show_json spec rw) (filter (\<lambda>s. cs_table s = rw_table rw) specs)
      | _ \<Rightarrow> [])"

fun send_events :: "(nat \<Rightarrow> bool) \<Rightarrow> change_event list \<Rightarrow> nat \<Rightarrow> change_event list \<times> bool" where
  "send_events alive [] n = ([], True)"
| "send_events alive (ev # evs) n =
     (if alive n then (let (sent, ok) = send_events alive evs (n + 1) in (ev # sent, ok)) else ([], False))"

text \<open>
  The session after the connection: what it receives, each with the value of the shutdown flag after it;
  \<open>n\<close> events were sent before. The result is \<open>None\<close> while the session goes on.
\<close>

fun stream_loop ::
  "(json \<Rightarrow> str) \<Rightarrow> change_spec list \<Rightarrow> (nat \<Rightarrow> bool) \<Rightarrow> (repl_event option recv \<times> bool) list \<Rightarrow> relation_cache \<Rightarrow> nat \<Rightarrow>
     (error, unit) result option \<times> stream_act list" where
  "stream_loop show_json specs alive [] rels n = (None, [])"
| "stream_loop show_json specs alive ((r, shutdown) # rs) rels n =
     (case r of
        ShutdownChanged \<Rightarrow> (Some (Ok ()), [])
      | RecvError e \<Rightarrow> (Some (Err (replication_error e)), [])
      | Received None \<Rightarrow> (Some (Ok ()), [])
      | Received (Some (XLogData wal_end b)) \<Rightarrow>
          (let (sent, ok) = send_events alive (message_events show_json specs b rels) n
           in if \<not> ok then (Some (Ok ()), map SendEvent sent)
              else if shutdown then (Some (Ok ()), map SendEvent sent @ [ApplyLsn wal_end])
              else (let (res, acts) = stream_loop show_json specs alive rs (snd (decode_logical b rels)) (n + length sent)
                    in (res, map SendEvent sent @ ApplyLsn wal_end # acts)))
      | Received (Some (Commit end_lsn)) \<Rightarrow>
          if shutdown then (Some (Ok ()), [ApplyLsn end_lsn])
          else (let (res, acts) = stream_loop show_json specs alive rs rels n in (res, ApplyLsn end_lsn # acts))
      | Received (Some OtherEvent) \<Rightarrow>
          if shutdown then (Some (Ok ()), []) else stream_loop show_json specs alive rs rels n)"

text \<open>The flag says whether the socket was attached; the relation cache starts empty with each session.\<close>

definition stream_once ::
  "(json \<Rightarrow> str) \<Rightarrow> change_spec list \<Rightarrow> (nat \<Rightarrow> bool) \<Rightarrow> (str, unit) result \<Rightarrow> (repl_event option recv \<times> bool) list \<Rightarrow>
     bool \<times> (error, unit) result option \<times> stream_act list" where
  "stream_once show_json specs alive connected rs =
     (case connected of
        Err e \<Rightarrow> (False, Some (Err (replication_error e)), [])
      | Ok _ \<Rightarrow> (True, stream_loop show_json specs alive rs (\<lambda>_. None) 0))"

section \<open>The supervisor\<close>

definition MAX_CONSECUTIVE_FAILURES :: nat where "MAX_CONSECUTIVE_FAILURES = 5"
definition HEARTBEAT :: nat where "HEARTBEAT = 30"

definition is_slot_invalid :: "str \<Rightarrow> bool" where
  "is_slot_invalid msg =
     (let m = to_ascii_lowercase msg
      in contains ''does not exist'' m \<or> contains ''has been invalidated'' m \<or> contains ''55000'' m \<or> contains ''42704'' m)"

text \<open>The three decisions on the shared flag: its value before, and what becomes of it.\<close>

definition mark_unavailable_if_never_connected :: "bool \<Rightarrow> bool \<Rightarrow> bool" where
  "mark_unavailable_if_never_connected flag connected_ever = (if \<not> connected_ever then True else flag)"

definition mark_unavailable_if_sustained_outage :: "bool \<Rightarrow> bool \<Rightarrow> nat \<Rightarrow> bool \<times> bool" where
  "mark_unavailable_if_sustained_outage flag connected_ever failures =
     (let sustained = (connected_ever \<and> MAX_CONSECUTIVE_FAILURES \<le> failures)
      in (sustained, if sustained then True else flag))"

definition lift_and_was_transition :: "bool \<Rightarrow> bool \<times> bool" where
  "lift_and_was_transition flag = (flag, False)"

record supervisor =
  sp_backoff :: nat
  sp_connected_ever :: bool
  sp_failures :: nat
  sp_unavailable :: bool
  sp_health :: "bool list"
  sp_resyncs :: nat

definition supervisor_start :: supervisor where
  "supervisor_start = \<lparr>sp_backoff = 1, sp_connected_ever = False, sp_failures = 0, sp_unavailable = False,
     sp_health = [], sp_resyncs = 0\<rparr>"

definition note_attach :: "bool \<Rightarrow> supervisor \<Rightarrow> supervisor" where
  "note_attach attached s =
     (if attached then
        (let (was, flag) = lift_and_was_transition (sp_unavailable s)
         in s\<lparr>sp_connected_ever := True, sp_failures := 0, sp_unavailable := flag,
              sp_health := sp_health s @ (if was then [False] else [])\<rparr>)
      else s\<lparr>sp_failures := min (sp_failures s + 1) (2 ^ 32 - 1)\<rparr>)"

definition note_outcome :: "(error, unit) result \<Rightarrow> supervisor \<Rightarrow> supervisor" where
  "note_outcome outcome s =
     (case outcome of
        Ok _ \<Rightarrow> s\<lparr>sp_backoff := 1\<rparr>
      | Err e \<Rightarrow>
          if is_slot_invalid (message e) then s\<lparr>sp_resyncs := sp_resyncs s + 1, sp_backoff := 1\<rparr>
          else s\<lparr>sp_backoff := min (sp_backoff s * 2) 30\<rparr>)"

definition fail_loud :: "supervisor \<Rightarrow> supervisor" where
  "fail_loud s =
     (let flag1 = mark_unavailable_if_never_connected (sp_unavailable s) (sp_connected_ever s);
          (sustained, flag2) = mark_unavailable_if_sustained_outage flag1 (sp_connected_ever s) (sp_failures s)
      in s\<lparr>sp_unavailable := flag2,
           sp_health := sp_health s @ (if sustained then [True] else []) @ (if \<not> sp_connected_ever s then [True] else [])\<rparr>)"

text \<open>
  The flag \<open>sp_unavailable\<close> is not the supervisor's own: the hub of the same node stores into it when it
  delivers a row change or a health message, at any moment between two of the supervisor's steps. The
  feed is therefore the supervisor, whether its session is attached, where its loop stands, and the
  messages that are sent but not yet delivered to this node. They may arrive in any order, since events
  and health travel in two channels, or be lost.
\<close>

datatype feed_phase = InSession | Marking | Stopped

record feed =
  fd_sup :: supervisor
  fd_attached :: bool
  fd_phase :: feed_phase
  fd_flight :: "bus_message list"

definition feed_start :: "bool \<Rightarrow> bus_message list \<Rightarrow> feed" where
  "feed_start flag flight = \<lparr>fd_sup = supervisor_start\<lparr>sp_unavailable := flag\<rparr>, fd_attached = False, fd_phase = InSession, fd_flight = flight\<rparr>"

text \<open>What the hub does to the flag when it delivers a message.\<close>

definition flag_after :: "bus_message \<Rightarrow> bool \<Rightarrow> bool" where
  "flag_after m flag = (case m of BChange ev \<Rightarrow> False | BChangesHealth u \<Rightarrow> u | _ \<Rightarrow> flag)"

lemma drop_keeps_flag: "h_unavailable (drop_connection cid h) = h_unavailable h"
proof -
  have "h_unavailable (foldl (\<lambda>h m. bus_publish m h) h ms) = h_unavailable h" for ms h
    by (induction ms arbitrary: h) simp_all
  then show ?thesis by (simp add: drop_connection_def split: option.splits)
qed

lemma drops_keep_flag:
  "h_unavailable (foldl (\<lambda>h cid. drop_connection cid h) h cids) = h_unavailable h"
  "h_unavailable (foldl (\<lambda>h cid. h\<lparr>h_conns := AList.delete cid (h_conns h)\<rparr>) h cids) = h_unavailable h"
  by (induction cids arbitrary: h) (simp_all add: drop_keeps_flag)

lemma hub_deliver_flag: "h_unavailable (hub_deliver now m h) = flag_after m (h_unavailable h)"
  by (simp add: hub_deliver_def flag_after_def deliver_broadcast_def deliver_change_def deliver_presence_set_def
      deliver_presence_clear_def deliver_presence_snapshot_def deliver_resync_def broadcast_presence_diff_def drops_keep_flag Let_def
      split: bus_message.splits option.splits prod.splits)

text \<open>The new state of the supervisor; the health messages it sent are in flight.\<close>

definition with_sup :: "supervisor \<Rightarrow> feed \<Rightarrow> feed" where
  "with_sup s f = f\<lparr>fd_sup := s,
     fd_flight := fd_flight f @ map BChangesHealth (drop (length (sp_health (fd_sup f))) (sp_health s))\<rparr>"

text \<open>
  The steps: the socket attaches; the session sends a change, or its heartbeat a health message; the session
  ends, and the code up to the marks runs; the marks are made, and the loop turns; a message in flight
  is delivered, or lost. A session that never attached ends with an error.
\<close>

datatype feed_act =
    Attach | SendChange change_event | Heartbeat | EndSession "(error, unit) result" bool | MarkOutage
  | Deliver nat | Lose nat

definition without :: "nat \<Rightarrow> 'a list \<Rightarrow> 'a list" where
  "without i xs = take i xs @ drop (i + 1) xs"

definition end_session :: "(error, unit) result \<Rightarrow> bool \<Rightarrow> feed \<Rightarrow> feed" where
  "end_session outcome shutdown f =
     (let s1 = note_attach (fd_attached f) (fd_sup f)
      in if outcome = Ok () \<and> shutdown then (with_sup s1 f)\<lparr>fd_phase := Stopped\<rparr>
         else (with_sup (note_outcome outcome s1) f)\<lparr>fd_phase := Marking\<rparr>)"

fun feed_step :: "feed_act \<Rightarrow> feed \<Rightarrow> feed option" where
  "feed_step Attach f = (if fd_phase f = InSession \<and> \<not> fd_attached f then Some (f\<lparr>fd_attached := True\<rparr>) else None)"
| "feed_step (SendChange ev) f =
     (if fd_phase f = InSession \<and> fd_attached f then Some (f\<lparr>fd_flight := fd_flight f @ [BChange ev]\<rparr>) else None)"
| "feed_step Heartbeat f =
     (if fd_phase f = InSession \<and> fd_attached f
      then Some (with_sup ((fd_sup f)\<lparr>sp_health := sp_health (fd_sup f) @ [False]\<rparr>) f) else None)"
| "feed_step (EndSession outcome shutdown) f =
     (if fd_phase f = InSession \<and> (fd_attached f \<or> outcome \<noteq> Ok ()) then Some (end_session outcome shutdown f) else None)"
| "feed_step MarkOutage f =
     (if fd_phase f = Marking
      then Some ((with_sup (fail_loud (fd_sup f)) f)\<lparr>fd_phase := InSession, fd_attached := False\<rparr>) else None)"
| "feed_step (Deliver i) f =
     (if i < length (fd_flight f)
      then Some (f\<lparr>fd_sup := (fd_sup f)\<lparr>sp_unavailable := flag_after (fd_flight f ! i) (sp_unavailable (fd_sup f))\<rparr>,
                   fd_flight := without i (fd_flight f)\<rparr>) else None)"
| "feed_step (Lose i) f = (if i < length (fd_flight f) then Some (f\<lparr>fd_flight := without i (fd_flight f)\<rparr>) else None)"

fun run_feed :: "feed_act list \<Rightarrow> feed \<Rightarrow> feed option" where
  "run_feed [] f = Some f"
| "run_feed (x # xs) f = Option.bind (feed_step x f) (run_feed xs)"

text \<open>
  The leader election: each poll says whether shutdown was seen, and whether a connection was made and
  held the lock. \<open>Some True\<close> is leadership, \<open>Some False\<close> shutdown, \<open>None\<close> still polling.
\<close>

fun acquire_leader :: "(bool \<times> bool option) list \<Rightarrow> bool option" where
  "acquire_leader [] = None"
| "acquire_leader ((shutdown, got) # ps) =
     (if shutdown then Some False else if got = Some True then Some True else acquire_leader ps)"

text \<open>
  The whole: an URL that cannot be parsed marks the source and ends; otherwise the loop runs once
  the lock is held. \<open>Err ()\<close> is a panic of the task.
\<close>

definition run_supervised :: "str \<Rightarrow> (bool \<times> bool option) list \<Rightarrow> feed_act list \<Rightarrow> bool \<Rightarrow> (unit, feed option) result" where
  "run_supervised url polls acts flag =
     bind_result (pg_parse url) (\<lambda>c. case c of
         None \<Rightarrow> Ok (Some ((with_sup (supervisor_start\<lparr>sp_unavailable := True, sp_health := [True]\<rparr>) (feed_start flag []))\<lparr>fd_phase := Stopped\<rparr>))
       | Some _ \<Rightarrow>
           Ok (if acquire_leader polls = Some True then run_feed acts (feed_start flag []) else Some (feed_start flag [])))"

section \<open>Fail loud at start-up\<close>

lemma start_without_source_marks:
  assumes "rc_changes (h_config h) \<noteq> []" "start_change_source pa dbo ddl h = (None, h')"
  shows "h' = mark_unavailable h"
  using assms by (auto simp: start_change_source_def split: option.splits sum.splits source_kind.splits if_splits)

lemma start_unfit_database:
  "db_backend db \<noteq> Postgres \<Longrightarrow> rc_changes (h_config h) \<noteq> [] \<Longrightarrow>
     start_change_source pa (Some db) ddl h = (None, mark_unavailable h)"
  by (simp add: start_change_source_def detect_def)

text \<open>Every node that delivers the message answers a join of a changes channel with \<open>JC0530\<close>.\<close>

lemma marked_hub_refuses:
  "channel_parse ch = Some (Changes entity) \<Longrightarrow>
     hub_join conn ch r (hub_deliver now (BChangesHealth True) h) =
     send_to conn (SError ''JC0530'' ''realtime changes require Postgres'' (Some ch) r) (h\<lparr>h_unavailable := True\<rparr>)"
  by (simp add: hub_join_def hub_deliver_def)

section \<open>Statements\<close>

text \<open>The trigger text is two statements, whatever the table, when its name holds no semicolon.\<close>

lemma split_str_once_none: "CHR '';'' \<notin> set s \<Longrightarrow> split_str_once ('';'' @ t) s = None"
  by (induction s) auto

lemma split_str_once_first:
  "CHR '';'' \<notin> set a \<Longrightarrow> split_str_once ('';'' @ t) (a @ '';'' @ t @ b) = Some (a, b)"
  by (induction a) auto

lemma split_two: "CHR '';'' \<notin> set a \<Longrightarrow> CHR '';'' \<notin> set b \<Longrightarrow> split_str ('';'' @ t) (a @ '';'' @ t @ b) = [a, b]"
  using split_str_once_first [of a t b] split_str_once_none [of b t]
  by (simp add: split_str.simps [of "CHR '';'' # t"])

lemma trigger_split:
  assumes "CHR '';'' \<notin> set (cs_table spec)"
  shows "split_str ('';'' @ newline) (trigger_sql spec) =
    [''DROP TRIGGER IF EXISTS jc_changes_'' @ cs_table spec @ '' ON '' @ quoted (cs_table spec),
     ''CREATE TRIGGER jc_changes_'' @ cs_table spec @ '' AFTER INSERT OR UPDATE OR DELETE ON '' @ quoted (cs_table spec) @ newline @
     ''FOR EACH ROW EXECUTE FUNCTION jc_notify_change_'' @ cs_table spec @ ''()'']"
    (is "_ = [?a, ?b]")
proof -
  have e: "trigger_sql spec = ?a @ '';'' @ newline @ ?b" by (simp add: trigger_sql_def Let_def)
  have n: "CHR '';'' \<notin> set ?a" "CHR '';'' \<notin> set ?b" using assms by (auto simp: quoted_def)
  show ?thesis unfolding e by (rule split_two [OF n])
qed

lemma exec_each_Ok:
  "exec_each ps qs d = (Ok u, d') \<longleftrightarrow> foldl (\<lambda>r q. case r of None \<Rightarrow> None | Some x \<Rightarrow> result_ok (ps_exec ps q x)) (Some d) qs = Some d'"
proof -
  have none: "foldl (\<lambda>r q. case r of None \<Rightarrow> None | Some x \<Rightarrow> result_ok (ps_exec ps q x)) None qs = None" for qs
    by (induction qs) auto
  show ?thesis by (induction qs arbitrary: d) (auto simp: none split: sum.splits)
qed

section \<open>Refetched bodies\<close>

lemma trigger_event_cases:
  assumes "trigger_event fetch payload_of specs note = Some ev"
  obtains p spec where "payload_of note = Some p" "List.find (\<lambda>s. cs_table s = np_table p) specs = Some spec"
    "ev_entity ev = cs_entity spec" "ev_op ev = np_op p" "ev_pk ev = np_pk p" "ev_tenant ev = np_tenant p"
    "ev_old_tenant ev = np_old_tenant p" "ev_owner ev = np_owner p"
    "ev_row ev = (if np_op p = OpDelete then None else refetch fetch spec (np_pk p) (np_tenant p))"
  using assms by (auto simp: trigger_event_def notify_into_event_def Let_def split: option.splits if_splits)

text \<open>
  What a database answers to a selection by text values. The reader takes a statement apart without the
  function that wrote it: the table, and the conditions, each a column and the number of the parameter
  that its text must equal. A row maps its columns to their texts.
\<close>

type_synonym text_row = "str \<Rightarrow> str option"

definition read_quoted :: "str \<Rightarrow> (str \<times> str) option" where
  "read_quoted s = (case s of c # r \<Rightarrow> if c = CHR 0x22 then split_once CHR 0x22 r else None | [] \<Rightarrow> None)"

definition read_condition :: "str \<Rightarrow> ((str \<times> nat) \<times> str) option" where
  "read_condition s =
     (case read_quoted s of
        Some (col, r) \<Rightarrow>
          (case strip_str ''::text = $'' r of
             Some (d # r') \<Rightarrow> if CHR ''1'' \<le> d \<and> d \<le> CHR ''9'' then Some ((col, of_char d - 48), r') else None
           | _ \<Rightarrow> None)
      | None \<Rightarrow> None)"

fun read_conditions :: "nat \<Rightarrow> str \<Rightarrow> ((str \<times> nat) list \<times> str) option" where
  "read_conditions 0 s = None"
| "read_conditions (Suc n) s =
     (case read_condition s of
        None \<Rightarrow> None
      | Some (c, r) \<Rightarrow>
          (case strip_str '' AND '' r of
             None \<Rightarrow> Some ([c], r)
           | Some r' \<Rightarrow> map_option (\<lambda>(cs, rest). (c # cs, rest)) (read_conditions n r')))"

definition read_selection :: "str \<Rightarrow> (str \<times> (str \<times> nat) list) option" where
  "read_selection sql =
     (case strip_str ''SELECT row_to_json(t)::text AS j FROM (SELECT * FROM '' sql of
        None \<Rightarrow> None
      | Some r \<Rightarrow>
          (case read_quoted r of
             None \<Rightarrow> None
           | Some (table, r1) \<Rightarrow>
               (case strip_str '' WHERE '' r1 of
                  None \<Rightarrow> None
                | Some r2 \<Rightarrow>
                    (case read_conditions (length r2) r2 of
                       Some (cs, rest) \<Rightarrow> if rest = '') t'' then Some (table, cs) else None
                     | None \<Rightarrow> None))))"

definition meets :: "str list \<Rightarrow> text_row \<Rightarrow> str \<times> nat \<Rightarrow> bool" where
  "meets values row c \<longleftrightarrow> 1 \<le> snd c \<and> snd c \<le> length values \<and> row (fst c) = Some (values ! (snd c - 1))"

text \<open>The law of the database: an answer to a selection is the body of a row of the table that meets all of its conditions.\<close>

definition selects :: "(text_row \<Rightarrow> json) \<Rightarrow> (str \<Rightarrow> text_row list) \<Rightarrow> (str \<Rightarrow> str list \<Rightarrow> json option) \<Rightarrow> bool" where
  "selects to_json rows fetch \<longleftrightarrow>
     (\<forall>sql values table cs body. read_selection sql = Some (table, cs) \<and> fetch sql values = Some body \<longrightarrow>
        (\<exists>row \<in> set (rows table). to_json row = body \<and> list_all (meets values row) cs))"

definition plain_names :: "change_spec \<Rightarrow> bool" where
  "plain_names spec \<longleftrightarrow> CHR 0x22 \<notin> set (cs_table spec) \<and> CHR 0x22 \<notin> set (cs_pk spec) \<and>
     (case cs_tenant spec of None \<Rightarrow> True | Some c \<Rightarrow> CHR 0x22 \<notin> set c)"

lemma split_once_at: "c \<notin> set a \<Longrightarrow> split_once c (a @ c # b) = Some (a, b)"
  by (induction a) auto

lemma read_quoted_quoted: "CHR 0x22 \<notin> set a \<Longrightarrow> read_quoted (quoted a @ r) = Some (a, r)"
  by (simp add: read_quoted_def quoted_def split_once_at)

lemma strip_str_app: "strip_str a (a @ b) = Some b"
  by (simp add: strip_str_def)

lemma read_condition_quoted:
  assumes "CHR 0x22 \<notin> set col"
  shows "read_condition (quoted col @ ''::text = $1'' @ r) = Some ((col, 1), r)"
    and "read_condition (quoted col @ ''::text = $2'' @ r) = Some ((col, 2), r)"
  unfolding read_condition_def read_quoted_quoted [OF assms] by (simp_all add: strip_str_def)

lemma read_refetch_sql:
  assumes "plain_names spec"
  shows "read_selection (refetch_sql spec scoped) = Some (cs_table spec, (cs_pk spec, 1) #
    (case (scoped, cs_tenant spec) of (True, Some col) \<Rightarrow> [(col, 2)] | _ \<Rightarrow> []))"
proof -
  define t where "t = (case (scoped, cs_tenant spec) of (True, Some col) \<Rightarrow> '' AND '' @ quoted col @ ''::text = $2'' | _ \<Rightarrow> [])"
  define cs where "cs = (cs_pk spec, 1::nat) # (case (scoped, cs_tenant spec) of (True, Some col) \<Rightarrow> [(col, 2)] | _ \<Rightarrow> [])"
  define c where "c = quoted (cs_pk spec) @ ''::text = $1'' @ t @ '') t''"
  have n: "CHR 0x22 \<notin> set (cs_table spec)" "CHR 0x22 \<notin> set (cs_pk spec)" using assms by (simp_all add: plain_names_def)
  have col: "CHR 0x22 \<notin> set col" if "cs_tenant spec = Some col" for col using assms that by (simp add: plain_names_def)
  have first: "read_condition c = Some ((cs_pk spec, 1), t @ '') t'')"
    unfolding c_def by (rule read_condition_quoted(1) [OF n(2)])
  obtain k where k: "length c = Suc (Suc k)" by (auto simp: c_def quoted_def)
  have conds: "read_conditions (length c) c = Some (cs, '') t'')"
  proof (cases "scoped \<and> cs_tenant spec \<noteq> None")
    case True
    then obtain x where x: "cs_tenant spec = Some x" "scoped" by blast
    then have "t @ '') t'' = '' AND '' @ quoted x @ ''::text = $2'' @ '') t''" by (simp add: t_def)
    then have "strip_str '' AND '' (t @ '') t'') = Some (quoted x @ ''::text = $2'' @ '') t'')"
      by (simp only: strip_str_app)
    moreover have "read_condition (quoted x @ ''::text = $2'' @ '') t'') = Some ((x, 2), '') t'')"
      by (rule read_condition_quoted(2) [OF col [OF x(1)]])
    moreover have "strip_str '' AND '' '') t'' = None" by (simp add: strip_str_def)
    ultimately show ?thesis unfolding k using first x
      by (simp only: read_conditions.simps option.case prod.case) (simp add: cs_def)
  next
    case False
    then have "t = []" "cs = [(cs_pk spec, 1)]" by (auto simp: t_def cs_def split: option.splits bool.splits)
    moreover have "strip_str '' AND '' '') t'' = None" by (simp add: strip_str_def)
    ultimately show ?thesis unfolding k using first by (simp only: read_conditions.simps option.case prod.case append_Nil)
  qed
  have e: "refetch_sql spec scoped =
      ''SELECT row_to_json(t)::text AS j FROM (SELECT * FROM '' @ quoted (cs_table spec) @ '' WHERE '' @ c"
    by (simp only: refetch_sql_def t_def c_def append_assoc)
  have "read_selection (refetch_sql spec scoped) = Some (cs_table spec, cs)"
    unfolding e read_selection_def by (simp only: strip_str_app option.case read_quoted_quoted [OF n(1)] prod.case conds if_True refl)
  then show ?thesis by (simp only: cs_def)
qed

text \<open>C19: On the trigger source a row body reaches a member of a tenant only from a row of that tenant: when
  an event of a tenant-scoped entity carries a body, the body is that of a row which, when it was read
  again, had the primary key and the tenant key of the notification, and the scope filter shows it to a
  principal of that tenant only. When no row with that key belongs to the tenant of the notification any
  more, because it moved or is gone, the event carries no body. Names contain no quotation mark, and the database answers
  a selection with a row that meets its conditions.
\<close>

theorem refetched_body_within_tenant:
  assumes "selects to_json rows fetch" and "trigger_event fetch payload_of specs note = Some ev"
    and "payload_of note = Some p" "List.find (\<lambda>s. cs_table s = np_table p) specs = Some spec"
    and "cs_tenant spec = Some col" "plain_names spec"
  shows "(\<forall>body who. ev_row ev = Some body \<and> change_visible spec ev (Some who) \<longrightarrow>
       (\<exists>row t. row \<in> set (rows (cs_table spec)) \<and> body = to_json row \<and> row (cs_pk spec) = Some (np_pk p) \<and>
          row col = Some t \<and> pr_tenant who = Some t)) \<and>
     (\<forall>t. np_tenant p = Some t \<and> (\<forall>row \<in> set (rows (cs_table spec)). row (cs_pk spec) = Some (np_pk p) \<longrightarrow> row col \<noteq> Some t) \<longrightarrow>
        ev_row ev = None)"
proof -
  have row: "\<exists>row \<in> set (rows (cs_table spec)). body = to_json row \<and> row (cs_pk spec) = Some (np_pk p) \<and> row col = Some t"
    if b: "ev_row ev = Some body" and t: "np_tenant p = Some t" for body t
  proof -
    have "fetch (refetch_sql spec True) [np_pk p, t] = Some body"
      using assms(2) b t assms(3-5) by (elim trigger_event_cases) (auto simp: refetch_def split: if_splits)
    moreover have "read_selection (refetch_sql spec True) = Some (cs_table spec, [(cs_pk spec, 1), (col, 2)])"
      using read_refetch_sql [OF assms(6), of True] assms(5) by simp
    ultimately have "\<exists>row \<in> set (rows (cs_table spec)). to_json row = body \<and> list_all (meets [np_pk p, t] row) [(cs_pk spec, 1), (col, 2)]"
      using assms(1) unfolding selects_def by blast
    then show ?thesis by (auto simp: meets_def)
  qed
  have "ev_tenant ev = np_tenant p" using assms(2-4) by (elim trigger_event_cases) simp
  then have vis: "np_tenant p \<noteq> None \<and> pr_tenant who = np_tenant p" if "change_visible spec ev (Some who)" for who
    using that assms(5) by (auto simp: change_visible_def Let_def split: option.splits)
  show ?thesis
  proof (intro conjI allI impI)
    fix body who
    assume b: "ev_row ev = Some body \<and> change_visible spec ev (Some who)"
    then obtain t where t: "np_tenant p = Some t" "pr_tenant who = Some t" using vis [of who] by auto
    from row [OF conjunct1 [OF b] t(1)] t(2)
    show "\<exists>row t. row \<in> set (rows (cs_table spec)) \<and> body = to_json row \<and> row (cs_pk spec) = Some (np_pk p) \<and>
        row col = Some t \<and> pr_tenant who = Some t" by blast
  next
    fix t
    assume "np_tenant p = Some t \<and> (\<forall>row \<in> set (rows (cs_table spec)). row (cs_pk spec) = Some (np_pk p) \<longrightarrow> row col \<noteq> Some t)"
    then show "ev_row ev = None" using row [of _ t] by (cases "ev_row ev") auto
  qed
qed

text \<open>A database that answers as it should, for the witness.\<close>

definition select_fetch :: "(text_row \<Rightarrow> json) \<Rightarrow> (str \<Rightarrow> text_row list) \<Rightarrow> str \<Rightarrow> str list \<Rightarrow> json option" where
  "select_fetch to_json rows sql values =
     (case read_selection sql of
        None \<Rightarrow> None
      | Some (table, cs) \<Rightarrow> map_option to_json (List.find (\<lambda>row. list_all (meets values row) cs) (rows table)))"

lemma select_fetch_selects: "selects to_json rows (select_fetch to_json rows)"
proof -
  have "\<exists>row \<in> set xs. to_json row = to_json x \<and> P row" if "List.find P xs = Some x" for P xs and x :: text_row
    using that by (metis find_Some_iff nth_mem)
  then show ?thesis by (auto simp: selects_def select_fetch_def split: option.splits)
qed

theorem refetched_body_within_tenant_witness:
  "let spec = (change_spec_new ''Lead'' ''lead'' ''id'')\<lparr>cs_tenant := Some ''workspace_id''\<rparr>;
       now_in_3 = [''id'' \<mapsto> ''42'', ''workspace_id'' \<mapsto> ''3''];
       now_in_7 = [''id'' \<mapsto> ''42'', ''workspace_id'' \<mapsto> ''7''];
       p = \<lparr>np_table = ''lead'', np_op = OpUpdate, np_pk = ''42'', np_tenant = Some ''7'', np_old_tenant = Some ''3'', np_owner = None\<rparr>;
       send = (\<lambda>row. trigger_event (select_fetch (\<lambda>_. JObject []) (\<lambda>_. [row])) (\<lambda>_. Some p) [spec] [])
   in map_option ev_row (send now_in_7) = Some (Some (JObject [])) \<and> map_option ev_row (send now_in_3) = Some None"
proof -
  let ?spec = "(change_spec_new ''Lead'' ''lead'' ''id'')\<lparr>cs_tenant := Some ''workspace_id''\<rparr>"
  let ?in3 = "[''id'' \<mapsto> ''42'', ''workspace_id'' \<mapsto> ''3'']" and ?in7 = "[''id'' \<mapsto> ''42'', ''workspace_id'' \<mapsto> ''7'']"
  let ?p = "\<lparr>np_table = ''lead'', np_op = OpUpdate, np_pk = ''42'', np_tenant = Some ''7'', np_old_tenant = Some ''3'', np_owner = None\<rparr>"
  let ?send = "\<lambda>row. trigger_event (select_fetch (\<lambda>_. JObject []) (\<lambda>_. [row])) (\<lambda>_. Some ?p) [?spec] []"
  have names: "plain_names ?spec" by (simp add: plain_names_def change_spec_new_def)
  have r: "read_selection (refetch_sql ?spec True) = Some (''lead'', [(''id'', 1), (''workspace_id'', 2)])"
    using read_refetch_sql [OF names, of True] by (simp add: change_spec_new_def)
  have "map_option ev_row (?send ?in7) = Some (Some (JObject []))"
    using r by (simp add: trigger_event_def refetch_def select_fetch_def notify_into_event_def change_spec_new_def meets_def Let_def)
  moreover obtain ev where ev: "?send ?in3 = Some ev" by (simp add: trigger_event_def change_spec_new_def Let_def)
  have "ev_row ev = None"
    using refetched_body_within_tenant [OF select_fetch_selects ev, of ?p ?spec "''workspace_id''", THEN conjunct2] names
    by (simp add: change_spec_new_def)
  ultimately show ?thesis using ev by (simp add: Let_def)
qed

section \<open>Retries\<close>

lemma retry_sleeps_bounds: "1 \<le> backoff \<Longrightarrow> backoff \<le> 30 \<Longrightarrow> n \<in> set (retry_sleeps backoff ss) \<Longrightarrow> 1 \<le> n \<and> n \<le> 30"
  by (induction backoff ss rule: retry_sleeps.induct) (fastforce split: sum.splits if_splits)+

text \<open>The delay never falls again: after five failures every later retry of the process waits 30 seconds.\<close>

lemma retry_never_resets:
  "map fst ss = replicate 5 (Err e) @ replicate k (Err e) \<Longrightarrow> list_all (\<lambda>s. \<not> snd s) ss \<Longrightarrow>
     trigger_run ss = [1, 2, 4, 8, 16] @ replicate k 30"
proof -
  have cap: "map fst ss = replicate k (Err e) \<Longrightarrow> list_all (\<lambda>s. \<not> snd s) ss \<Longrightarrow> retry_sleeps 30 ss = replicate k 30" for ss k
  proof (induction k arbitrary: ss)
    case (Suc k)
    then show ?case by (cases ss) auto
  qed simp
  assume a: "map fst ss = replicate 5 (Err e) @ replicate k (Err e)" "list_all (\<lambda>s. \<not> snd s) ss"
  then obtain s1 s2 s3 s4 s5 rest where ss: "ss = s1 # s2 # s3 # s4 # s5 # rest" "map fst rest = replicate k (Err e)"
    by (auto simp: numeral_eq_Suc map_eq_Cons_conv)
  with a have "s1 = (Err e, False)" "s2 = (Err e, False)" "s3 = (Err e, False)" "s4 = (Err e, False)" "s5 = (Err e, False)"
    "list_all (\<lambda>s. \<not> snd s) rest" by (auto simp: numeral_eq_Suc prod_eq_iff)
  then show ?thesis using cap [OF ss(2)] ss by (simp add: trigger_run_def)
qed

section \<open>Delivery before confirmation\<close>

definition sent_of :: "stream_act list \<Rightarrow> change_event list" where
  "sent_of acts = List.map_filter (\<lambda>a. case a of SendEvent ev \<Rightarrow> Some ev | ApplyLsn _ \<Rightarrow> None) acts"

fun lsn_of :: "repl_event \<Rightarrow> nat option" where
  "lsn_of (XLogData w b) = Some w" | "lsn_of (Commit w) = Some w" | "lsn_of OtherEvent = None"

definition msgs_of :: "(repl_event option recv \<times> bool) list \<Rightarrow> repl_event list" where
  "msgs_of ins = List.map_filter (\<lambda>(r, sd). case r of Received m \<Rightarrow> m | _ \<Rightarrow> None) ins"

text \<open>The events of a sequence of messages, each decoded with the relations of those before it.\<close>

fun all_events :: "(json \<Rightarrow> str) \<Rightarrow> change_spec list \<Rightarrow> relation_cache \<Rightarrow> repl_event list \<Rightarrow> change_event list" where
  "all_events show_json specs rels [] = []"
| "all_events show_json specs rels (XLogData w b # ms) =
     message_events show_json specs b rels @ all_events show_json specs (snd (decode_logical b rels)) ms"
| "all_events show_json specs rels (m # ms) = all_events show_json specs rels ms"

lemma sent_of_simps [simp]:
  "sent_of [] = []" "sent_of (SendEvent ev # acts) = ev # sent_of acts" "sent_of (ApplyLsn l # acts) = sent_of acts"
  "sent_of (acts @ acts') = sent_of acts @ sent_of acts'" "sent_of (map SendEvent evs) = evs"
proof -
  show "sent_of (acts @ acts') = sent_of acts @ sent_of acts'" by (simp add: sent_of_def map_filter_def)
  show "sent_of (map SendEvent evs) = evs" by (simp add: sent_of_def map_filter_def comp_def)
qed (simp_all add: sent_of_def map_filter_simps)

lemma msgs_of_simps [simp]: "msgs_of [] = []" "msgs_of ((Received (Some m), sd) # ins) = m # msgs_of ins"
  by (simp_all add: msgs_of_def map_filter_simps)

lemma send_events_ok: "send_events alive evs n = (sent, True) \<Longrightarrow> sent = evs"
  by (induction alive evs n arbitrary: sent rule: send_events.induct) (auto simp: Let_def split: if_splits prod.splits)

lemma send_events_alive: "\<forall>i. alive i \<Longrightarrow> send_events alive evs n = (evs, True)"
  by (induction alive evs n rule: send_events.induct) simp_all

lemma split_at_confirmation:
  "map SendEvent evs @ ApplyLsn w # acts = pre @ ApplyLsn l # post \<Longrightarrow>
     pre = map SendEvent evs \<and> l = w \<or> (\<exists>pre'. pre = map SendEvent evs @ ApplyLsn w # pre' \<and> acts = pre' @ ApplyLsn l # post)"
proof (induction evs arbitrary: pre)
  case Nil
  then show ?case by (cases pre) auto
next
  case (Cons e evs)
  then obtain pre1 where "pre = SendEvent e # pre1" by (cases pre) auto
  with Cons show ?case by auto
qed

lemma no_confirmation: "map SendEvent evs \<noteq> pre @ ApplyLsn l # post"
  by (induction evs arbitrary: pre) (auto simp: Cons_eq_append_conv)

lemma stream_confirmation:
  assumes "stream_loop show_json specs alive ins rels n = (res, pre @ ApplyLsn l # post)"
  shows "\<exists>ins1 m sd ins2. ins = ins1 @ (Received (Some m), sd) # ins2 \<and> lsn_of m = Some l \<and>
    sent_of pre = all_events show_json specs rels (msgs_of ins1 @ [m])"
  using assms
proof (induction ins arbitrary: rels n res pre)
  case (Cons i ins)
  obtain r sd where i: "i = (r, sd)" by (cases i)
  have more: "\<exists>ins1 m' sd' ins2. i # ins = ins1 @ (Received (Some m'), sd') # ins2 \<and> lsn_of m' = Some l \<and>
      sent_of pre = all_events show_json specs rels (msgs_of ins1 @ [m'])"
    if "stream_loop show_json specs alive ins rels' k = (res', pre' @ ApplyLsn l # post)" "r = Received (Some m)"
      "\<And>ms. all_events show_json specs rels (m # ms) = evs @ all_events show_json specs rels' ms" "sent_of pre = evs @ sent_of pre'"
    for rels' k res' pre' m evs
  proof -
    note hyps = that
    obtain ins1 m' sd' ins2 where h: "ins = ins1 @ (Received (Some m'), sd') # ins2" "lsn_of m' = Some l"
      "sent_of pre' = all_events show_json specs rels' (msgs_of ins1 @ [m'])"
      using Cons.IH [OF hyps(1)] by blast
    show ?thesis
      by (rule exI [of _ "i # ins1"], rule exI [of _ m'], rule exI [of _ sd'], rule exI [of _ ins2])
        (simp add: h(1,2) i hyps(2) hyps(3) hyps(4) h(3))
  qed
  have here: ?case if "r = Received (Some m)" "lsn_of m = Some l" "sent_of pre = all_events show_json specs rels [m]" for m
    by (rule exI [of _ "[]"], rule exI [of _ m], rule exI [of _ sd], rule exI [of _ ins]) (simp add: i that)
  show ?case
  proof (cases r)
    case (Received mo)
    show ?thesis
    proof (cases mo)
      case None
      then show ?thesis using Cons.prems i Received by simp
    next
      case (Some m)
      note R = Received [unfolded Some]
      show ?thesis
      proof (cases m)
        case (XLogData w b)
        let ?evs = "message_events show_json specs b rels"
        obtain sent ok where se: "send_events alive ?evs n = (sent, ok)" by (cases "send_events alive ?evs n")
        show ?thesis
        proof (cases ok)
          case False
          then show ?thesis using Cons.prems i R XLogData se no_confirmation by (auto simp: Let_def)
        next
          case True
          then have sent: "sent = ?evs" using se send_events_ok [of alive ?evs n sent] by simp
          obtain res' acts where l: "stream_loop show_json specs alive ins (snd (decode_logical b rels)) (n + length sent) = (res', acts)"
            by fastforce
          let ?acts = "if sd then [] else acts"
          have eq: "map SendEvent ?evs @ ApplyLsn w # ?acts = pre @ ApplyLsn l # post"
            using Cons.prems i R XLogData se True l sent by (auto simp: Let_def split: if_splits)
          from split_at_confirmation [OF eq] show ?thesis
          proof (elim disjE exE conjE)
            assume "pre = map SendEvent ?evs" "l = w"
            then show ?thesis using here R XLogData by simp
          next
            fix pre' assume p: "pre = map SendEvent ?evs @ ApplyLsn w # pre'" "?acts = pre' @ ApplyLsn l # post"
            then have "acts = pre' @ ApplyLsn l # post" by (cases sd) auto
            from more [OF l [unfolded this] R, of ?evs] p(1) XLogData show ?thesis by simp
          qed
        qed
      next
        case (Commit w)
        obtain res' acts where l: "stream_loop show_json specs alive ins rels n = (res', acts)" by fastforce
        let ?acts = "if sd then [] else acts"
        have eq: "map SendEvent [] @ ApplyLsn w # ?acts = pre @ ApplyLsn l # post"
          using Cons.prems i R Commit l by (auto simp: Let_def split: if_splits)
        from split_at_confirmation [OF eq] show ?thesis
        proof (elim disjE exE conjE)
          assume "pre = map SendEvent []" "l = w"
          then show ?thesis using here R Commit by simp
        next
          fix pre' assume p: "pre = map SendEvent [] @ ApplyLsn w # pre'" "?acts = pre' @ ApplyLsn l # post"
          then have "acts = pre' @ ApplyLsn l # post" by (cases sd) auto
          from more [OF l [unfolded this] R, of "[]"] p(1) Commit show ?thesis by simp
        qed
      next
        case OtherEvent
        then have "stream_loop show_json specs alive ins rels n = (res, pre @ ApplyLsn l # post)"
          using Cons.prems i R by (simp split: if_splits)
        from more [OF this R, of "[]"] OtherEvent show ?thesis by simp
      qed
    qed
  qed (use Cons.prems i in simp_all)
qed simp

lemma stream_complete:
  assumes "\<forall>i. alive i" "list_all (\<lambda>(r, sd). (\<exists>m. r = Received (Some m)) \<and> \<not> sd) ins"
  shows "\<exists>acts. stream_loop show_json specs alive ins rels n = (None, acts) \<and> sent_of acts = all_events show_json specs rels (msgs_of ins)"
  using assms(2)
proof (induction ins arbitrary: rels n)
  case (Cons i ins)
  obtain m where i: "i = (Received (Some m), False)" using Cons.prems by (cases i) auto
  have rest: "list_all (\<lambda>(r, sd). (\<exists>m. r = Received (Some m)) \<and> \<not> sd) ins" using Cons.prems by simp
  show ?case
  proof (cases m)
    case (XLogData w b)
    show ?thesis using Cons.IH [OF rest, of "snd (decode_logical b rels)" "n + length (message_events show_json specs b rels)"]
      by (auto simp: i XLogData send_events_alive [OF assms(1)])
  next
    case (Commit w)
    show ?thesis using Cons.IH [OF rest, of rels n] by (auto simp: i Commit)
  next
    case OtherEvent
    show ?thesis using Cons.IH [OF rest, of rels n] by (auto simp: i OtherEvent)
  qed
qed simp

text \<open>C20: A position of the log is confirmed only after everything before it was handed over: whatever the
  session receives, when it confirms a position it has received a message that ends there, and what it
  has sent by then are exactly the events of all messages up to that one, in order, each decoded with the
  relations before it. While the receiver lives and only messages arrive the session goes on and sends
  the events of every message.
\<close>

theorem stream_confirms_after_delivery:
  "(stream_loop show_json specs alive ins (\<lambda>_. None) 0 = (res, pre @ ApplyLsn l # post) \<longrightarrow>
      (\<exists>ins1 m sd ins2. ins = ins1 @ (Received (Some m), sd) # ins2 \<and> lsn_of m = Some l \<and>
         sent_of pre = all_events show_json specs (\<lambda>_. None) (msgs_of ins1 @ [m]))) \<and>
   ((\<forall>i. alive i) \<and> list_all (\<lambda>(r, sd). (\<exists>m. r = Received (Some m)) \<and> \<not> sd) ins \<longrightarrow>
      (\<exists>acts. stream_loop show_json specs alive ins (\<lambda>_. None) 0 = (None, acts) \<and>
         sent_of acts = all_events show_json specs (\<lambda>_. None) (msgs_of ins)))"
  using stream_confirmation [of show_json specs alive ins "\<lambda>_. None" 0 res pre l post]
    stream_complete [of alive ins show_json specs "\<lambda>_. None" 0] by blast

definition lead_spec :: change_spec where
  "lead_spec = (change_spec_new ''Lead'' ''lead'' ''id'')\<lparr>cs_tenant := Some ''note''\<rparr>"

definition lead_stream :: "(repl_event option recv \<times> bool) list" where
  "lead_stream =
     [(Received (Some (XLogData 10 (relation_msg 7 ''public'' ''lead'' CHR ''f'' lead_columns))), False),
      (Received (Some (XLogData 20 (insert_msg 7 [CText ''42'', CNull]))), False), (Received (Some (Commit 30)), False)]"

lemma lead_events:
  "all_events (\<lambda>_. []) [lead_spec] (\<lambda>_. None) (msgs_of lead_stream) =
     [\<lparr>ev_entity = ''Lead'', ev_op = OpInsert, ev_pk = ''42'', ev_row = Some (JObject [(''id'', JString ''42''), (''note'', JNull)]),
       ev_tenant = None, ev_old_tenant = None, ev_owner = None\<rparr>]"
proof -
  have r: "decode_logical (relation_msg 7 ''public'' ''lead'' CHR ''f'' lead_columns) (\<lambda>_. None) =
      (Ok Meta, [7 \<mapsto> (''lead'', [''id'', ''note''])])"
    using decode_relation_msg [of 7 "''public''" "''lead''" lead_columns "CHR ''f''" "\<lambda>_. None"] lead_ok lead_text by simp
  have i: "decode_logical (insert_msg 7 [CText ''42'', CNull]) [7 \<mapsto> (''lead'', [''id'', ''note''])] =
     (Ok (Row \<lparr>rw_table = ''lead'', rw_op = OpInsert, rw_old = None, rw_new = Some (row_of [''id'', ''note''] [CText ''42'', CNull])\<rparr>),
      [7 \<mapsto> (''lead'', [''id'', ''note''])])"
    by (rule decode_insert_msg) (simp_all add: cells_fit_def insert_msg_def enc_tuple_def)
  have w: "row_of [''id'', ''note''] [CText ''42'', CNull] = JObject [(''id'', JString ''42''), (''note'', JNull)]" by code_simp
  show ?thesis
    by (simp add: lead_stream_def message_events_def r i [unfolded w] row_into_event_def key_text_def json_get_def or_else_def
        lead_spec_def change_spec_new_def map_filter_simps Let_def)
qed

theorem stream_confirms_after_delivery_witness:
  "\<exists>acts. stream_loop (\<lambda>_. []) [lead_spec] (\<lambda>_. True) lead_stream (\<lambda>_. None) 0 = (None, acts) \<and>
     map ev_pk (sent_of acts) = [''42'']"
proof -
  have "list_all (\<lambda>(r, sd). (\<exists>m. r = Received (Some m)) \<and> \<not> sd) lead_stream" by (simp add: lead_stream_def)
  then obtain acts where "stream_loop (\<lambda>_. []) [lead_spec] (\<lambda>_. True) lead_stream (\<lambda>_. None) 0 = (None, acts)"
    "sent_of acts = all_events (\<lambda>_. []) [lead_spec] (\<lambda>_. None) (msgs_of lead_stream)"
    using stream_confirms_after_delivery [where alive = "\<lambda>_. True" and ins = lead_stream, THEN conjunct2] by blast
  then show ?thesis by (simp add: lead_events)
qed

section \<open>The supervisor\<close>

lemma run_feed_snoc: "run_feed (xs @ [x]) f = Option.bind (run_feed xs f) (feed_step x)"
  by (induction xs arbitrary: f) (simp_all split: bind_split)

text \<open>The sessions of a history: whether the present one is attached, and for each that ended whether it was.\<close>

fun log_act :: "feed_act \<Rightarrow> bool \<times> bool list \<Rightarrow> bool \<times> bool list" where
  "log_act Attach (att, ended) = (True, ended)"
| "log_act (EndSession outcome shutdown) (att, ended) = (att, ended @ [att])"
| "log_act MarkOutage (att, ended) = (False, ended)"
| "log_act x (att, ended) = (att, ended)"

definition sessions :: "feed_act list \<Rightarrow> bool list" where
  "sessions acts = snd (fold log_act acts (False, []))"

text \<open>The failures since the last attach, and what counts as an outage.\<close>

definition trailing :: "bool list \<Rightarrow> nat" where
  "trailing ended = length (takeWhile Not (rev ended))"

lemma trailing_snoc [simp]: "trailing [] = 0" "trailing (ended @ [a]) = (if a then 0 else trailing ended + 1)"
  by (simp_all add: trailing_def)

definition outage :: "bool list \<Rightarrow> bool" where
  "outage ended \<longleftrightarrow> True \<notin> set ended \<or> 5 \<le> trailing ended"

lemma note_outcome_fields [simp]:
  "sp_connected_ever (note_outcome r s) = sp_connected_ever s" "sp_failures (note_outcome r s) = sp_failures s"
  "sp_unavailable (note_outcome r s) = sp_unavailable s" "sp_health (note_outcome r s) = sp_health s"
  by (auto simp: note_outcome_def split: sum.splits)

lemma with_sup_fields [simp]:
  "fd_sup (with_sup s f) = s" "fd_attached (with_sup s f) = fd_attached f" "fd_phase (with_sup s f) = fd_phase f"
  by (simp_all add: with_sup_def)

lemma end_session_fields [simp]:
  "fd_attached (end_session r sd f) = fd_attached f"
  "sp_connected_ever (fd_sup (end_session r sd f)) = sp_connected_ever (note_attach (fd_attached f) (fd_sup f))"
  "sp_failures (fd_sup (end_session r sd f)) = sp_failures (note_attach (fd_attached f) (fd_sup f))"
  "sp_unavailable (fd_sup (end_session r sd f)) = sp_unavailable (note_attach (fd_attached f) (fd_sup f))"
  "sp_health (fd_sup (end_session r sd f)) = sp_health (note_attach (fd_attached f) (fd_sup f))"
  by (simp_all add: end_session_def Let_def)

text \<open>What the supervisor knows is the history, and its delay is in bounds.\<close>

definition feed_knows :: "bool \<times> bool list \<Rightarrow> feed \<Rightarrow> bool" where
  "feed_knows lg f \<longleftrightarrow> fst lg = fd_attached f \<and> sp_connected_ever (fd_sup f) = (True \<in> set (snd lg)) \<and>
     sp_failures (fd_sup f) = min (trailing (snd lg)) (2 ^ 32 - 1) \<and> 1 \<le> sp_backoff (fd_sup f) \<and> sp_backoff (fd_sup f) \<le> 30 \<and>
     (fd_phase f = Marking \<longrightarrow> snd lg \<noteq> [])"

lemma note_attach_fields [simp]:
  "sp_connected_ever (note_attach att s) = (att \<or> sp_connected_ever s)"
  "sp_failures (note_attach att s) = (if att then 0 else min (sp_failures s + 1) (2 ^ 32 - 1))"
  "sp_backoff (note_attach att s) = sp_backoff s"
  "sp_unavailable (note_attach att s) = (sp_unavailable s \<and> \<not> att)"
  "sp_health (note_attach att s) = sp_health s @ (if att \<and> sp_unavailable s then [False] else [])"
  by (simp_all add: note_attach_def lift_and_was_transition_def)

lemma fail_loud_fields [simp]:
  "sp_connected_ever (fail_loud s) = sp_connected_ever s" "sp_failures (fail_loud s) = sp_failures s"
  "sp_backoff (fail_loud s) = sp_backoff s"
  by (simp_all add: fail_loud_def mark_unavailable_if_sustained_outage_def Let_def)

lemma note_outcome_backoff: "1 \<le> sp_backoff s \<Longrightarrow> sp_backoff s \<le> 30 \<Longrightarrow> 1 \<le> sp_backoff (note_outcome r s) \<and> sp_backoff (note_outcome r s) \<le> 30"
  by (auto simp: note_outcome_def split: sum.splits)

lemma end_session_backoff:
  "1 \<le> sp_backoff (fd_sup f) \<Longrightarrow> sp_backoff (fd_sup f) \<le> 30 \<Longrightarrow>
     1 \<le> sp_backoff (fd_sup (end_session r sd f)) \<and> sp_backoff (fd_sup (end_session r sd f)) \<le> 30"
  using note_outcome_backoff [of "note_attach (fd_attached f) (fd_sup f)" r] by (simp add: end_session_def Let_def)

lemma feed_knows_step:
  assumes "feed_knows lg f" "feed_step x f = Some f'"
  shows "feed_knows (log_act x lg) f'"
proof -
  obtain att ended where lg: "lg = (att, ended)" by (cases lg)
  show ?thesis using assms unfolding lg
    by (cases x) (auto simp: feed_knows_def end_session_backoff [simplified] split: if_splits)
qed

lemma feed_knows_run: "run_feed acts (feed_start flag flight) = Some f \<Longrightarrow> feed_knows (fold log_act acts (False, [])) f"
proof (induction acts arbitrary: f rule: rev_induct)
  case Nil
  then show ?case by (auto simp: feed_knows_def feed_start_def supervisor_start_def)
next
  case (snoc x xs)
  then obtain g where g: "run_feed xs (feed_start flag flight) = Some g" "feed_step x g = Some f"
    by (auto simp: run_feed_snoc bind_eq_Some_conv)
  then show ?case using feed_knows_step [OF snoc.IH [OF g(1)] g(2)] by simp
qed

text \<open>While no session attaches, nothing that clears the flag is in flight.\<close>

definition only_alarms :: "feed \<Rightarrow> bool" where
  "only_alarms f \<longleftrightarrow> \<not> fd_attached f \<and> \<not> sp_connected_ever (fd_sup f) \<and> (\<forall>m \<in> set (fd_flight f). m = BChangesHealth True)"

lemma without_subset: "set (without i xs) \<subseteq> set xs"
  using set_take_subset set_drop_subset by (fastforce simp: without_def)

lemma fail_loud_never:
  assumes "\<not> sp_connected_ever s"
  shows "sp_unavailable (fail_loud s)" "sp_health (fail_loud s) = sp_health s @ [True]"
  using assms by (simp_all add: fail_loud_def mark_unavailable_if_never_connected_def mark_unavailable_if_sustained_outage_def)

lemma with_sup_flight:
  "sp_health s = sp_health (fd_sup f) @ new \<Longrightarrow> fd_flight (with_sup s f) = fd_flight f @ map BChangesHealth new"
  by (simp add: with_sup_def)

lemma end_session_flight:
  "fd_flight (end_session r sd f) = fd_flight f @ (if fd_attached f \<and> sp_unavailable (fd_sup f) then [BChangesHealth False] else [])"
  by (auto simp: end_session_def with_sup_def Let_def)

lemma only_alarms_step:
  assumes "only_alarms f" "feed_step x f = Some f'" "x \<noteq> Attach"
  shows "only_alarms f' \<and> (sp_unavailable (fd_sup f) \<or> x = MarkOutage \<longrightarrow> sp_unavailable (fd_sup f'))"
proof (cases x)
  case MarkOutage
  then show ?thesis using assms fail_loud_never [of "fd_sup f"]
    by (auto simp: only_alarms_def with_sup_flight [OF fail_loud_never(2)] split: if_splits)
next
  case (Deliver i)
  then have i: "i < length (fd_flight f)" using assms(2) by (simp split: if_splits)
  then have "fd_flight f ! i = BChangesHealth True" using assms(1) nth_mem by (fastforce simp: only_alarms_def)
  then have f': "f' = f\<lparr>fd_sup := (fd_sup f)\<lparr>sp_unavailable := True\<rparr>, fd_flight := without i (fd_flight f)\<rparr>"
    using Deliver assms(2) i by (simp add: flag_after_def)
  show ?thesis using assms(1) without_subset [of i "fd_flight f"] unfolding f' only_alarms_def by auto
next
  case (Lose i)
  then have f': "f' = f\<lparr>fd_flight := without i (fd_flight f)\<rparr>" using assms(2) by (simp split: if_splits)
  show ?thesis using Lose assms(1) without_subset [of i "fd_flight f"] unfolding f' only_alarms_def by auto
qed (use assms in \<open>auto simp: only_alarms_def end_session_flight split: if_splits\<close>)

lemma only_alarms_run:
  "run_feed acts (feed_start flag flight) = Some f \<Longrightarrow> Attach \<notin> set acts \<Longrightarrow> \<forall>m \<in> set flight. m = BChangesHealth True \<Longrightarrow>
     only_alarms f \<and> (MarkOutage \<in> set acts \<longrightarrow> sp_unavailable (fd_sup f))"
proof (induction acts arbitrary: f rule: rev_induct)
  case Nil
  then show ?case by (auto simp: only_alarms_def feed_start_def supervisor_start_def)
next
  case (snoc x xs)
  then obtain g where g: "run_feed xs (feed_start flag flight) = Some g" "feed_step x g = Some f"
    by (auto simp: run_feed_snoc bind_eq_Some_conv)
  then show ?case using snoc only_alarms_step [OF _ g(2)] by fastforce
qed

lemma fail_loud_connected:
  "sp_connected_ever s \<Longrightarrow> fail_loud s = (if 5 \<le> sp_failures s then s\<lparr>sp_unavailable := True, sp_health := sp_health s @ [True]\<rparr> else s)"
  by (simp add: fail_loud_def mark_unavailable_if_never_connected_def mark_unavailable_if_sustained_outage_def MAX_CONSECUTIVE_FAILURES_def)

text \<open>C21: The supervisor fails loud, and only in an outage. Its flag is shared with the hub, and
  messages are delivered to the hub at any time between its steps, in any order, or lost. From the first marks on, as long as no session
  ever attached, the flag stays set, whatever is delivered (an earlier leader having left no message in
  flight but alarms). In every turn that comes after an outage (no session so far attached, or the last five
  or more did not) it sets the flag and sends the alarm; in every other turn it does neither. At the end
  of a session that attached it clears the flag, and it sends the recovery if and only if the flag was
  still set then. The next attempt is made after 1 to 30 seconds.
\<close>

theorem supervisor_fails_loud:
  assumes "run_feed acts (feed_start flag flight) = Some f"
  shows "(Attach \<notin> set acts \<and> MarkOutage \<in> set acts \<and> (\<forall>m \<in> set flight. m = BChangesHealth True) \<longrightarrow>
       sp_unavailable (fd_sup f)) \<and>
    (\<forall>f'. feed_step MarkOutage f = Some f' \<longrightarrow>
       (if True \<notin> set (sessions acts) \<or> 5 \<le> trailing (sessions acts)
        then sp_unavailable (fd_sup f') \<and> fd_flight f' = fd_flight f @ [BChangesHealth True]
        else fd_sup f' = fd_sup f \<and> fd_flight f' = fd_flight f)) \<and>
    (\<forall>outcome shutdown f'. fd_attached f \<and> feed_step (EndSession outcome shutdown) f = Some f' \<longrightarrow>
       \<not> sp_unavailable (fd_sup f') \<and>
       fd_flight f' = fd_flight f @ (if sp_unavailable (fd_sup f) then [BChangesHealth False] else [])) \<and>
    1 \<le> sp_backoff (fd_sup f) \<and> sp_backoff (fd_sup f) \<le> 30"
proof (intro conjI allI impI)
  have k: "feed_knows (fold log_act acts (False, [])) f" by (rule feed_knows_run [OF assms])
  then show "1 \<le> sp_backoff (fd_sup f)" "sp_backoff (fd_sup f) \<le> 30" by (simp_all add: feed_knows_def)
  show "sp_unavailable (fd_sup f)" if "Attach \<notin> set acts \<and> MarkOutage \<in> set acts \<and> (\<forall>m \<in> set flight. m = BChangesHealth True)"
    using only_alarms_run [OF assms] that by blast
  show "\<not> sp_unavailable (fd_sup f')"
    "fd_flight f' = fd_flight f @ (if sp_unavailable (fd_sup f) then [BChangesHealth False] else [])"
    if "fd_attached f \<and> feed_step (EndSession outcome shutdown) f = Some f'" for outcome shutdown f'
    using that by (auto simp: end_session_flight split: if_splits)
  fix f' assume m: "feed_step MarkOutage f = Some f'"
  then have f': "fd_sup f' = fail_loud (fd_sup f)" "fd_flight f' = fd_flight (with_sup (fail_loud (fd_sup f)) f)" by (auto split: if_splits)
  show "if True \<notin> set (sessions acts) \<or> 5 \<le> trailing (sessions acts)
        then sp_unavailable (fd_sup f') \<and> fd_flight f' = fd_flight f @ [BChangesHealth True]
        else fd_sup f' = fd_sup f \<and> fd_flight f' = fd_flight f"
  proof (cases "True \<in> set (sessions acts)")
    case True
    then have c: "sp_connected_ever (fd_sup f)" "sp_failures (fd_sup f) = min (trailing (sessions acts)) (2 ^ 32 - 1)"
      using k by (simp_all add: feed_knows_def sessions_def)
    show ?thesis using True fail_loud_connected [OF c(1)] c(2) unfolding f' by (auto simp: with_sup_def)
  next
    case False
    then have "\<not> sp_connected_ever (fd_sup f)" using k by (simp add: feed_knows_def sessions_def)
    from fail_loud_never [OF this] False show ?thesis unfolding f' by (simp add: with_sup_flight)
  qed
qed

text \<open>A first attempt that fails, a session that attaches and drops, and five more attempts that fail: the marks after it.\<close>

definition down_turn :: "feed_act list" where
  "down_turn = [EndSession (Err (replication_error ''refused'')) False, MarkOutage]"

definition outage_run :: "feed_act list" where
  "outage_run = down_turn @ [Attach, Deliver 0, EndSession (Err (replication_error ''reset'')) False, MarkOutage] @
     down_turn @ down_turn @ down_turn @ down_turn @ [EndSession (Err (replication_error ''refused'')) False]"

lemma no_slot_error:
  "\<not> is_slot_invalid (message (replication_error ''refused''))" "\<not> is_slot_invalid (message (replication_error ''reset''))"
  by code_simp+

lemmas feed_eval = outage_run_def down_turn_def feed_start_def supervisor_start_def end_session_def with_sup_def note_attach_def
  lift_and_was_transition_def note_outcome_def no_slot_error fail_loud_def mark_unavailable_if_never_connected_def
  mark_unavailable_if_sustained_outage_def MAX_CONSECUTIVE_FAILURES_def flag_after_def without_def Let_def

lemma outage_run_runs:
  "map_option (\<lambda>f. (fd_phase f, sp_unavailable (fd_sup f))) (run_feed outage_run (feed_start False [])) = Some (Marking, False)"
  by (simp add: feed_eval)

theorem supervisor_fails_loud_witness:
  "\<exists>f f'. run_feed outage_run (feed_start False []) = Some f \<and> feed_step MarkOutage f = Some f' \<and> \<not> sp_unavailable (fd_sup f) \<and>
     sp_unavailable (fd_sup f')"
proof -
  obtain f where f: "run_feed outage_run (feed_start False []) = Some f" and p: "fd_phase f = Marking" "\<not> sp_unavailable (fd_sup f)"
    using outage_run_runs by auto
  then obtain f' where f': "feed_step MarkOutage f = Some f'" by simp
  have "5 \<le> trailing (sessions outage_run)" by (simp add: sessions_def outage_run_def down_turn_def trailing_def)
  then have "sp_unavailable (fd_sup f')" using supervisor_fails_loud [OF f] f' by (simp add: if_splits)
  then show ?thesis using f f' p(2) by blast
qed

text \<open>
  What the flag does between the steps. The recovery is published when the session that recovered has
  ended, not when it attaches, and not at all when a change of that session has cleared the flag before;
  an alarm still in flight may then set the flag while the source streams, until the next change or
  heartbeat is delivered.
\<close>

lemma recovery_published_after_session:
  "sp_health (note_attach True s) = sp_health s @ (if sp_unavailable s then [False] else [])"
  by simp

definition late_alarm_run :: "change_event \<Rightarrow> feed_act list" where
  "late_alarm_run ev = down_turn @ [Attach, SendChange ev, Deliver 1, EndSession (Err (replication_error ''reset'')) False, MarkOutage, Attach, Deliver 0]"

lemma late_alarm:
  "\<exists>f. run_feed (late_alarm_run ev) (feed_start False []) = Some f \<and> fd_attached f \<and> sp_unavailable (fd_sup f) \<and> fd_flight f = []"
  by (simp add: late_alarm_run_def feed_eval)

section \<open>The connection URL\<close>

lemma radix16_digits: "a < 16 \<Longrightarrow> b < 16 \<Longrightarrow> radix16 (hex_digit a) (hex_digit b) = Some (a * 16 + b)"
proof -
  have "\<forall>n\<in>set [0..<16]. hex_digit n \<noteq> CHR ''+''" by code_simp
  then have "a < 16 \<Longrightarrow> hex_digit a \<noteq> CHR ''+''" by simp
  then show "a < 16 \<Longrightarrow> b < 16 \<Longrightarrow> ?thesis" by (simp add: radix16_def hex_hex_digit)
qed

lemma percent_bytes_encode: "percent_bytes (percent_encode bs) = Ok bs"
proof (induction bs)
  case (Cons b bs)
  have lt: "of_char b div 16 < (16 :: nat)" "of_char b mod 16 < (16 :: nat)"
    using of_char_less_256 [of b] by (simp_all add: less_mult_imp_div_less)
  have "percent_encode bs = [] \<or> hd (percent_encode bs) = CHR ''%''" by (cases bs) (simp_all add: percent_encode_def)
  then have "\<not> (percent_encode bs \<noteq> [] \<and> cont_byte (of_char (hd (percent_encode bs))))"
    by (auto simp: cont_byte_def)
  moreover have "percent_encode (b # bs) = CHR ''%'' # hex_digit (of_char b div 16) # hex_digit (of_char b mod 16) # percent_encode bs"
    by (simp add: percent_encode_def)
  ultimately show ?case using Cons radix16_digits [OF lt] by simp
qed (simp add: percent_encode_def)

lemma percent_decode_encode: "utf8_valid s \<Longrightarrow> percent_decode (percent_encode s) = Ok s"
  by (simp add: percent_decode_def percent_bytes_encode from_utf8_lossy_valid)

text \<open>
  Two things the parser does not do: an escape that is followed by a letter beyond ASCII makes the
  slice panic, and the name of the database is taken as it is written.
\<close>

lemma url_slice_panics: "pg_parse (''postgres://app:%a'' @ map char_of [195::nat, 169] @ ''@db/x'') = Err ()"
  by code_simp

lemma url_database_not_decoded:
  "pg_parse ''postgres://app:s3cr%40t@db:5433/my%20db'' =
     Ok (Some \<lparr>pc_host = ''db'', pc_port = 5433, pc_user = ''app'', pc_password = ''s3cr@t'', pc_dbname = ''my%20db'',
       pc_sslmode = SslPrefer\<rparr>)"
  by code_simp

end
