(* ===== verification/Spec2Isabelle.thy ===== *)
theory Spec2Isabelle
  imports JC_RouteTwin JC_Serve JC_RateLimit JC_Multipart JC_Jobs JC_Hub JC_IdToken JC_S3 JC_Validate JC_Validator JC_Changes
begin

text \<open>
  A verification development for jerrycan, a Rust web framework (\<open>src/crates/\<close>).

  \<^bold>\<open>The program and its model.\<close> A request is routed on its head, its body is read within limits, the
  handler's parameters are produced by extractors and the dependency resolver, the handler runs within
  a time budget, and the response is decorated. Beside this runs the background part: a job store,
  workers and a cron leader. Rust strings and byte sequences are lists of \<open>char\<close> read as bytes,
  \<open>Result\<close> is a sum (\<open>Err\<close>, \<open>Ok\<close>), a panic and a future that never finishes are values of the type \<open>run\<close>,
  machine integers are bounded integers or words where their width matters, and mutable state is passed
  explicitly. What is not under \<open>src/\<close> (hyper, tokio, serde, the handlers of an application) is a
  parameter: \<open>http_lib\<close> with its law \<open>http_ok\<close> for header maps, deserialisers, user functions.

  \<^item> \<open>JC_Prelude\<close>: the standard-library operations on strings and numbers that the sources call.
  \<^item> \<open>JC_Error\<close> (\<open>jerrycan-core/src/error.rs\<close>): the error value and its constructors.
  \<^item> \<open>JC_Router\<close> (\<open>router.rs\<close>): the route trie. Its operations refine a flat table of patterns: a path is
    found exactly when some pattern matches, with static segments preferred, and registration refuses
    exactly the conflicting pairs. \<open>JC_RouteTwin\<close>: the design validator's copy of the conflict rule in
    \<open>jerrycan/src/platform/questions.rs\<close> agrees with the router.
  \<^item> \<open>JC_Dep\<close> (\<open>dep.rs\<close>): environments and the memoising resolver. Fuel 33 is enough: the code's own
    depth limit is 32, and every recursive call raises the depth.
  \<^item> \<open>JC_Http\<close>, \<open>JC_Cors\<close> (\<open>response.rs\<close>, \<open>cors.rs\<close>): responses, redirects, streams, the CORS policy.
  \<^item> \<open>JC_Module\<close>, \<open>JC_Extract\<close> (\<open>module.rs\<close>, \<open>extract.rs\<close>): flattening of nested modules; the
    extractors and the one-shot body lane.
  \<^item> \<open>JC_Timed\<close> (\<open>serve.rs\<close>, \<open>response.rs\<close>): the write-stall and per-frame timeouts as poll functions of
    the instant, with an exact characterisation of when they cut off.
  \<^item> \<open>JC_App\<close>, \<open>JC_Serve\<close> (\<open>app.rs\<close>, \<open>middleware.rs\<close>, \<open>handler.rs\<close>, \<open>serve.rs\<close>): the builder, the
    head-only routing policy and its agreement with the dispatcher, timeouts, panic isolation, the
    security headers on every response, the accept loop and the drain.
  \<^item> \<open>JC_Multipart\<close> (\<open>multipart.rs\<close>): the incremental multipart parser and the part API on top of it.
  \<^item> \<open>JC_Clock\<close> (\<open>clock.rs\<close>): the injectable clock at its 64-bit width, and the civil calendar.
  \<^item> \<open>JC_RateLimit\<close> (\<open>jerrycan-ratelimit\<close>): the fixed-window store, the middleware and the sweeper.
  \<^item> \<open>JC_Cron\<close> (\<open>jerrycan-jobs/src/cron.rs\<close>): cron expressions, their calendar meaning, the bounded
    searches (the bound of four leap years of minutes is the code's own) and the skip-missed rule.
  \<^item> \<open>JC_JobStore\<close> (\<open>store.rs\<close>): the locale \<open>job_store\<close> is the contract of the trait; \<open>mem\<close> interprets it
    on the in-memory store. Concurrency is any interleaving of atomic operations (\<open>store_step\<close>,
    \<open>path\<close>): leases are exclusive, keys are idempotent, delivery is at least once.
  \<^item> \<open>JC_Jobs\<close> (\<open>worker.rs\<close>, \<open>lib.rs\<close>): the worker's tick and retry policy, the engine, the cron leader.
  \<^item> \<open>JC_Realtime\<close> (\<open>jerrycan-realtime/src\<close>: \<open>channel.rs\<close>, \<open>presence.rs\<close>, \<open>protocol.rs\<close>): channel names,
    join gating, the scope filter and the presence map. \<open>JC_Hub\<close> (\<open>lib.rs\<close>, \<open>broadcast.rs\<close>, \<open>bus.rs\<close>,
    \<open>ws.rs\<close>): the connection hub. A cluster is a list of hubs that deliver each other's published
    messages in any order and any number of times (\<open>hub_step\<close>, \<open>cluster\<close>); authorisation is an
    invariant of it, broadcasts stay inside a tenant, presence diffs keep a subscriber in step.
  \<^item> \<open>JC_Pgoutput\<close>, \<open>JC_Changes\<close> (\<open>jerrycan-realtime/src/changes\<close>): where row changes come from. The decoder of the
    replication messages inverts the wire format and refuses every row that is cut short; a streaming session
    confirms a position only after the events before it; the trigger source re-reads a row under the tenant of its
    notification, by a statement that is read back as its conditions; the supervisor marks the source in every turn
    after an outage and in no other, sharing its flag with the hub, which clears it between any two of its steps.
    Postgres, the replication client and the outcome of each session are parameters.
  \<^item> \<open>JC_Db\<close> (\<open>jerrycan-db/src/lib.rs\<close>): connections, placeholders, error codes and the migration runner, a
    transaction over a database any of whose statements may fail.
  \<^item> \<open>JC_Auth\<close> (\<open>jerrycan-auth/src\<close>: \<open>lib.rs\<close>, \<open>jwt.rs\<close>, \<open>session.rs\<close>, \<open>guard.rs\<close>, \<open>webhook.rs\<close>,
    \<open>password.rs\<close>, \<open>api_key.rs\<close>): tokens, sealed cookies with key rotation, webhook signatures and API
    keys over the primitives of \<open>crypto\<close>, whose documented behaviour is \<open>crypto_laws\<close>. \<open>JC_OAuth\<close>
    (\<open>oauth.rs\<close>): what a flow puts on the wire, and where. \<open>JC_IdToken\<close> (\<open>idtoken.rs\<close>): the checks around
    the JWT library (\<open>jwt_lib_laws\<close>) and the key cache as a state machine whose look-ups overlap, since the
    cache is not locked while a fetch is awaited.
  \<^item> \<open>JC_Storage\<close> (\<open>jerrycan-storage/src\<close>: \<open>lib.rs\<close>, \<open>store.rs\<close>, \<open>meta.rs\<close>, \<open>sign.rs\<close>): object storage over
    any blob store. The locale \<open>blob_store\<close> is what the service needs of one, \<open>working_store\<close> adds that it
    does not fail; \<open>mem_store\<close> interprets both on the memory store, and \<open>local_store_contract\<close> shows the first
    for the local store on a file system with the documented behaviour (\<open>fs_laws\<close>). Run one after another, uploads
    and deletions keep rows and bytes in step; interleaved, they do not, and two theorems say how.
    \<open>JC_S3\<close> (\<open>s3_store.rs\<close>, \<open>sigv4.rs\<close>, \<open>xml.rs\<close>): the S3 backend, over a network whose answers are arbitrary.
  \<^item> \<open>JC_Validate\<close> (\<open>jerrycan-validate/src/lib.rs\<close>): the validating extractor and the document extension.

  \<^item> \<open>JC_Design\<close> (\<open>jerrycan/src/platform/design.rs\<close>): the design document as records, and everything the generators
    derive from it: names, switches, the entity a route binds, the chains of references to the tenant, the shape of
    a route, the normalisation of detail routes. The search for chains finds exactly the paths of references that repeat no entity
    and take no detour past a direct child of the tenant, and misses no owner. \<open>JC_Conflict\<close>, \<open>JC_Fields\<close>, \<open>JC_Questions\<close>, \<open>JC_Validator\<close> (\<open>questions.rs\<close>, the route tables of
    \<open>genroute.rs\<close>): the fatal conflicts and every rule of \<open>validate\<close>, in the order of the source, each as the list
    of its questions; the application whose modules are mounted on the runtime's own builder (\<open>generated_app\<close>, \<open>build\<close>);
    then what a design without questions is sure of: it registers with the router unless two modules declare one path,
    its fields can be filled, its tables built when no field is declared twice, its owned entities scoped by queries over existing columns, its tenant routes guarded.

  \<^bold>\<open>Reading the properties.\<close> Each property of the development follows a text block that states it. The
  lemmas before them come in groups: what one operation does, the invariant it keeps, and then the
  composition. A theorem named \<open>_witness\<close> applies a property at a concrete input.

  \<^bold>\<open>Not modelled.\<close> The hyper connection, TLS and signals; Redis and Postgres stores (scripts and
  statements run by a server); observability; the command-line tool, the
  text that its generators print, its lints and migrations (what they derive from a design, and the validator, are modelled). Of authentication: the cryptography itself, the mock identity provider. Of realtime: the WebSocket library, the sockets
  to Postgres and the Redis pump.
\<close>

end
